(* ===== verification/NP_Prelude.thy ===== *)
theory NP_Prelude
  imports Main "HOL-Library.Word" "HOL-Library.While_Combinator"
begin

text \<open>
  What the components share: machine integers at the widths the C code uses, little-endian
  reads from a byte-addressed memory (the code runs on arm64 macOS), the addresses an
  instruction scan visits, and the two loop shapes that recur in the resolver (``the sole hit''
  and ``the first hit''), each with its contract.
\<close>

unbundle bit_operations_syntax

section \<open>Collections of facts\<close>

named_theorems scan_simps \<open>unfolding rules of the scanning loops\<close>
named_theorems decode_defs \<open>definitions of the instruction decoders\<close>
named_theorems sample_eval \<open>values of the sample inputs the lemmas are evaluated on\<close>

section \<open>Machine integers and memory\<close>

type_synonym u8 = "8 word"
type_synonym u16 = "16 word"
type_synonym u32 = "32 word"
type_synonym u64 = "64 word"

text \<open>Memory of the running process, as the resolver reads it: a byte for every address.\<close>

type_synonym mem = "u64 \<Rightarrow> u8"

definition le16 :: "u8 \<Rightarrow> u8 \<Rightarrow> u16" where
  "le16 a b = ucast a OR push_bit 8 (ucast b)"

definition le32 :: "u8 \<Rightarrow> u8 \<Rightarrow> u8 \<Rightarrow> u8 \<Rightarrow> u32" where
  "le32 a b c d =
     ucast a OR push_bit 8 (ucast b) OR push_bit 16 (ucast c) OR push_bit 24 (ucast d)"

definition le64 :: "u32 \<Rightarrow> u32 \<Rightarrow> u64" where
  "le64 lo hi = ucast lo OR push_bit 32 (ucast hi)"

definition load16 :: "mem \<Rightarrow> u64 \<Rightarrow> u16" where
  "load16 m a = le16 (m a) (m (a + 1))"

definition load32 :: "mem \<Rightarrow> u64 \<Rightarrow> u32" where
  "load32 m a = le32 (m a) (m (a + 1)) (m (a + 2)) (m (a + 3))"

definition load64 :: "mem \<Rightarrow> u64 \<Rightarrow> u64" where
  "load64 m a = le64 (load32 m a) (load32 m (a + 4))"

lemma bit_le32:
  "bit (le32 a b c d) n =
     (if n < 8 then bit a n else if n < 16 then bit b (n - 8)
      else if n < 24 then bit c (n - 16) else n < 32 \<and> bit d (n - 24))"
proof -
  have "\<not> bit a n" if "n \<ge> 8" using that bit_imp_le_length[of a n] by auto
  moreover have "\<not> bit b (n - 8)" if "n \<ge> 16" using that bit_imp_le_length[of b "n - 8"] by auto
  moreover have "\<not> bit c (n - 16)" if "n \<ge> 24" using that bit_imp_le_length[of c "n - 16"] by auto
  moreover have "\<not> bit d (n - 24)" if "n \<ge> 32" using that bit_imp_le_length[of d "n - 24"] by auto
  ultimately show ?thesis
    by (auto simp: le32_def bit_simps not_less)
qed

text \<open>A masked 32-bit comparison is four masked byte comparisons.\<close>

lemma le32_and:
  "le32 a b c d AND le32 a' b' c' d' = le32 (a AND a') (b AND b') (c AND c') (d AND d')"
  by (rule bit_word_eqI) (auto simp: bit_le32 bit_and_iff)

lemma le32_eq_iff:
  "le32 a b c d = le32 a' b' c' d' \<longleftrightarrow> a = a' \<and> b = b' \<and> c = c' \<and> d = d'"
proof
  assume eq: "le32 a b c d = le32 a' b' c' d'"
  have bits: "bit (le32 a b c d) n = bit (le32 a' b' c' d') n" for n
    by (simp add: eq)
  have "a = a'"
    by (rule bit_word_eqI) (use bits in \<open>force simp: bit_le32 split: if_splits\<close>)
  moreover have "b = b'"
  proof (rule bit_word_eqI)
    fix n assume "n < LENGTH(8)"
    with bits[of "n + 8"] show "bit b n = bit b' n" by (simp add: bit_le32)
  qed
  moreover have "c = c'"
  proof (rule bit_word_eqI)
    fix n assume "n < LENGTH(8)"
    with bits[of "n + 16"] show "bit c n = bit c' n" by (simp add: bit_le32)
  qed
  moreover have "d = d'"
  proof (rule bit_word_eqI)
    fix n assume "n < LENGTH(8)"
    with bits[of "n + 24"] show "bit d n = bit d' n" by (simp add: bit_le32)
  qed
  ultimately show "a = a' \<and> b = b' \<and> c = c' \<and> d = d'" by simp
qed simp

lemma and_eq_nat_mono:
  fixes w v :: "'a::len word"
  shows "unat (w AND v) \<le> unat v"
  by (simp add: word_and_le1 word_le_nat_alt[symmetric])


lemma unat_u64_less: "unat (x :: u64) < 18446744073709551616"
  using unsigned_less[of x] by simp

lemma unat_ucast_u32_u64: "unat (ucast (x :: u32) :: u64) = unat x"
  by (simp add: unsigned_ucast_eq take_bit_nat_eq_self order_less_le_trans[OF unsigned_less])

text \<open>A 32-bit word equation, bit by bit; and sign extension by exclusive or.\<close>

lemma word32_eqI:
  fixes v w :: u32
  assumes "list_all (\<lambda>i. bit v i = bit w i) [0,1,2,3,4,5,6,7,8,9,10,11,12,13,14,15,16,17,18,19,20,
     21,22,23,24,25,26,27,28,29,30,31]"
  shows "v = w"
proof (rule bit_word_eqI)
  fix n assume "n < LENGTH(32)"
  then have "n \<in> set [0..<32]" by simp
  also have "[0..<32] = [0,1,2,3,4,5,6,7,8,9,10,11,12,13,14,15,16,17,18,19,20,
     21,22,23,24,25,26,27,28,29,30,31]" by code_simp
  finally show "bit v n = bit w n" using assms by (auto simp: list_all_iff)
qed

lemma xor_sign_extend:
  fixes i :: int
  assumes "- (2 ^ n) \<le> i" "i < 2 ^ n"
  shows "(take_bit (Suc n) i XOR 2 ^ n) - 2 ^ n = i"
proof (cases "0 \<le> i")
  case True
  then have "take_bit (Suc n) i = i" using assms by (simp add: take_bit_int_eq_self)
  moreover have "\<not> bit i n" using True assms by (simp add: bit_iff_odd)
  then have "i XOR 2 ^ n = i + 2 ^ n"
    using flip_bit_eq_if[of n i] set_bit_eq[of n i] by (simp add: flip_bit_eq_xor push_bit_of_1)
  ultimately show ?thesis by simp
next
  case False
  let ?j = "i + 2 ^ Suc n"
  have j: "take_bit (Suc n) i = ?j"
  proof -
    have "take_bit (Suc n) i = take_bit (Suc n) ?j" by (simp add: take_bit_eq_mod)
    also have "\<dots> = ?j" using False assms by (intro take_bit_int_eq_self) auto
    finally show ?thesis .
  qed
  have "?j div 2 ^ n = 1"
    using False assms by (intro int_div_pos_eq[where r = "i + 2 ^ n"]) auto
  then have "bit ?j n" by (metis bit_iff_odd odd_one)
  then have "?j XOR 2 ^ n = ?j - 2 ^ n"
    using flip_bit_eq_if[of n ?j] unset_bit_eq[of n ?j] by (simp add: flip_bit_eq_xor push_bit_of_1)
  then show ?thesis by (simp add: j)
qed

lemma uint_field_sext:
  fixes d :: int
  assumes "- (2 ^ n) \<le> d" "d < 2 ^ n" "Suc n \<le> 32"
  shows "(ucast (((of_int d :: u32) AND mask (Suc n)) XOR 2 ^ n) :: u64) - 2 ^ n = of_int d"
proof -
  let ?x = "((of_int d :: u32) AND mask (Suc n)) XOR 2 ^ n"
  have "n < 32" using assms(3) by simp
  then have p: "uint ((2::u32) ^ n) = 2 ^ n" by (intro uint_2p) (simp add: word_gt_0)
  have "uint ?x = take_bit (Suc n) d XOR 2 ^ n"
    using assms(3) by (simp add: unsigned_xor_eq p take_bit_eq_mask[symmetric] unsigned_take_bit_eq
      unsigned_of_int)
  also have "\<dots> = d + 2 ^ n" using xor_sign_extend[OF assms(1,2)] by linarith
  finally have "uint ?x = d + 2 ^ n" .
  then have "(ucast ?x :: u64) = of_int (d + 2 ^ n)" by (simp add: ucast_eq)
  then show ?thesis by simp
qed


section \<open>Scanning loops\<close>

text \<open>
  The addresses visited by \<open>for (pc = start; pc + w <= end; pc += 4)\<close>. The count is taken on
  naturals, so the list is the loop's run wherever the cursor does not wrap round at
  \<open>2\<^sup>6\<^sup>4\<close>; \<open>scan_pcs_loop\<close> below states that against the loop itself.
\<close>

definition scan_pcs :: "nat \<Rightarrow> u64 \<Rightarrow> u64 \<Rightarrow> u64 list" where
  "scan_pcs w start fin =
     (if unat start + w \<le> unat fin
      then map (\<lambda>i. start + of_nat (4 * i)) [0..<(unat fin - unat start - w) div 4 + 1]
      else [])"

lemma unat_scan_step:
  assumes "unat start + 4 * i < 2 ^ 64"
  shows "unat (start + of_nat (4 * i) :: u64) = unat start + 4 * i"
proof -
  have "unat (of_nat (4 * i) :: u64) = 4 * i"
    using assms by (simp add: unsigned_of_nat take_bit_nat_eq_self del: of_nat_mult)
  then show ?thesis using assms by (simp add: unat_word_ariths)
qed

lemma scan_pcs_bounds:
  assumes "pc \<in> set (scan_pcs w start fin)"
  shows "start \<le> pc" "unat pc + w \<le> unat fin" "(unat pc - unat start) mod 4 = 0"
proof -
  let ?n = "(unat fin - unat start - w) div 4 + 1"
  have le: "unat start + w \<le> unat fin"
    using assms by (auto simp: scan_pcs_def split: if_splits)
  then have "pc \<in> (\<lambda>i. start + of_nat (4 * i)) ` {..<?n}"
    using assms unfolding scan_pcs_def
    by (simp only: if_True set_map set_upt atLeast0LessThan)
  then obtain i where i: "i < ?n" and pc: "pc = start + of_nat (4 * i)"
    by blast
  have "unat fin < 2 ^ 64" using unsigned_less[of fin] by simp
  moreover have "4 * i \<le> unat fin - unat start - w" using i by simp
  ultimately have "unat pc = unat start + 4 * i" "4 * i \<le> unat fin - unat start - w"
    unfolding pc by (auto intro!: unat_scan_step simp del: of_nat_mult) (use le in linarith)
  then show "start \<le> pc" "unat pc + w \<le> unat fin" "(unat pc - unat start) mod 4 = 0"
    using le by (auto simp: word_le_nat_alt)
qed

lemma scan_pcs_complete:
  assumes "start \<le> pc" "unat pc + w \<le> unat fin" "(unat pc - unat start) mod 4 = 0"
  shows "pc \<in> set (scan_pcs w start fin)"
proof -
  let ?i = "(unat pc - unat start) div 4"
  have le: "unat start \<le> unat pc" using assms(1) by (simp add: word_le_nat_alt)
  have pc: "unat pc = unat start + 4 * ?i" using le assms(3) by presburger
  have "unat start + 4 * ?i < 2 ^ 64" using pc unsigned_less[of pc] by simp
  then have "unat (start + of_nat (4 * ?i)) = unat pc" using pc unat_scan_step by metis
  then have "pc = start + of_nat (4 * ?i)" by (metis word_unat_eq_iff)
  moreover have "?i < (unat fin - unat start - w) div 4 + 1"
    using assms(2) le by (simp add: div_le_mono less_Suc_eq_le)
  ultimately have "pc \<in> (\<lambda>i. start + of_nat (4 * i)) ` {..<(unat fin - unat start - w) div 4 + 1}"
    by blast
  moreover have "unat start + w \<le> unat fin" using assms(2) le by simp
  ultimately show ?thesis
    by (simp only: scan_pcs_def if_True set_map set_upt atLeast0LessThan)
qed

lemma distinct_scan_pcs [simp]: "distinct (scan_pcs w start fin)"
proof (cases "unat start + w \<le> unat fin")
  case True
  have "unat fin < 2 ^ 64" using unsigned_less[of fin] by simp
  then have "unat start + 4 * i < 2 ^ 64"
    if "i < (unat fin - unat start - w) div 4 + 1" for i
    using that True by linarith
  then have "inj_on (\<lambda>i. start + of_nat (4 * i)) {..<(unat fin - unat start - w) div 4 + 1}"
    by (intro inj_onI) (metis lessThan_iff unat_scan_step nat_add_left_cancel_less
        add_left_cancel mult_left_cancel zero_neq_numeral)
  then show ?thesis
    using True by (simp only: scan_pcs_def if_True distinct_map distinct_upt set_upt
        atLeast0LessThan simp_thms)
qed (simp add: scan_pcs_def)

lemma scan_pcs_rec:
  assumes "unat start + 4 < 2 ^ 64"
  shows "scan_pcs w start fin =
    (if unat start + w \<le> unat fin then start # scan_pcs w (start + 4) fin else [])"
proof (cases "unat start + w \<le> unat fin")
  case True
  let ?n = "(unat fin - unat start - w) div 4"
  have s4: "unat (start + 4) = unat start + 4" using assms by (simp add: unat_word_ariths)
  have "map (\<lambda>i. start + of_nat (4 * i)) [0..<Suc ?n]
      = start # map (\<lambda>i. (start + 4) + of_nat (4 * i)) [0..<?n]"
    by (simp only: upt_conv_Cons zero_less_Suc list.map map_Suc_upt[symmetric] map_map)
      (simp add: algebra_simps)
  moreover have "map (\<lambda>i. (start + 4) + of_nat (4 * i)) [0..<?n] = scan_pcs w (start + 4) fin"
  proof (cases "unat start + 4 + w \<le> unat fin")
    case True
    then have "?n = (unat fin - (unat start + 4) - w) div 4 + 1" by arith
    with True show ?thesis by (simp only: scan_pcs_def s4 if_True)
  next
    case False
    then have "?n = 0" using True by simp
    with False show ?thesis by (simp only: scan_pcs_def s4 if_False upt_0 list.map)
  qed
  ultimately show ?thesis using True by (simp only: scan_pcs_def if_True Suc_eq_plus1)
qed (simp add: scan_pcs_def)

text \<open>
  The enumeration is what the C loop visits: run as a loop over the wrapping 64-bit cursor,
  it ends and has collected exactly these addresses, in this order, wherever the bound leaves
  room for one more step below \<open>2\<^sup>6\<^sup>4\<close>.
\<close>

lemma scan_pcs_loop_acc:
  assumes "unat fin + 4 + w < 2 ^ 64" "unat start \<le> unat fin + 4"
  shows "\<exists>pc'. while_option (\<lambda>(pc, acc). pc + of_nat w \<le> fin) (\<lambda>(pc, acc). (pc + 4, acc @ [pc]))
           (start, acc) = Some (pc', acc @ scan_pcs w start fin)"
  using assms(2)
proof (induction "unat fin + 4 - unat start" arbitrary: start acc rule: less_induct)
  case less
  let ?loop = "while_option (\<lambda>(pc, acc). pc + of_nat w \<le> fin) (\<lambda>(pc, acc). (pc + 4, acc @ [pc]))"
  have "unat (start + of_nat w) = unat start + w"
    using assms(1) less.prems by (simp add: unat_word_ariths unsigned_of_nat take_bit_nat_eq_self)
  then have guard: "start + of_nat w \<le> fin \<longleftrightarrow> unat start + w \<le> unat fin"
    by (simp add: word_le_nat_alt)
  show ?case
  proof (cases "unat start + w \<le> unat fin")
    case True
    have s4: "unat (start + 4) = unat start + 4"
      using True assms(1) by (simp add: unat_word_ariths)
    have "\<exists>pc'. ?loop (start + 4, acc @ [start]) = Some (pc', (acc @ [start]) @ scan_pcs w (start + 4) fin)"
      using less.hyps[of "start + 4" "acc @ [start]"] True s4 by simp
    moreover have "scan_pcs w start fin = start # scan_pcs w (start + 4) fin"
      using True assms(1) by (simp add: scan_pcs_rec)
    ultimately show ?thesis using True guard by (simp add: while_option_unfold)
  next
    case False
    then show ?thesis using guard by (simp add: while_option_unfold scan_pcs_def)
  qed
qed

lemma scan_pcs_loop:
  assumes "unat fin + 4 + w < 2 ^ 64" "unat start \<le> unat fin + 4"
  shows "\<exists>pc'. while_option (\<lambda>(pc, acc). pc + of_nat w \<le> fin) (\<lambda>(pc, acc). (pc + 4, acc @ [pc]))
           (start, []) = Some (pc', scan_pcs w start fin)"
  using scan_pcs_loop_acc[OF assms, of "[]"] by simp

text \<open>
  The loop shape ``remember the only hit'': \<open>found = 0; for (...) { if (!hit) continue;
  if (found) return 0; found = x; } return found;\<close>. Zero stands for ``none'', as in the code.
\<close>

fun sole_loop :: "('a \<Rightarrow> bool) \<Rightarrow> ('a \<Rightarrow> u64) \<Rightarrow> u64 \<Rightarrow> 'a list \<Rightarrow> u64" where
  "sole_loop hit val found [] = found"
| "sole_loop hit val found (x # xs) =
     (if \<not> hit x then sole_loop hit val found xs
      else if found \<noteq> 0 then 0
      else sole_loop hit val (val x) xs)"

lemma sole_loop_found:
  assumes "f \<noteq> 0"
  shows "sole_loop hit val f xs = (if filter hit xs = [] then f else 0)"
  using assms by (induction xs) auto

lemma sole_loop_filter:
  assumes "\<And>x. x \<in> set xs \<Longrightarrow> hit x \<Longrightarrow> val x \<noteq> 0"
  shows "sole_loop hit val 0 xs = (case filter hit xs of [x] \<Rightarrow> val x | _ \<Rightarrow> 0)"
  using assms by (induction xs) (auto simp: sole_loop_found split: list.splits)

text \<open>The same loop as a part of nested loops: \<open>Inl\<close> is its return from all of them.\<close>

fun sole_run :: "('a \<Rightarrow> bool) \<Rightarrow> ('a \<Rightarrow> u64) \<Rightarrow> u64 \<Rightarrow> 'a list \<Rightarrow> u64 + u64" where
  "sole_run hit val found [] = Inr found"
| "sole_run hit val found (x # xs) =
     (if \<not> hit x then sole_run hit val found xs
      else if found \<noteq> 0 then Inl 0
      else sole_run hit val (val x) xs)"

lemma sole_run_append:
  "sole_run hit val found (xs @ ys) =
     (case sole_run hit val found xs of Inl r \<Rightarrow> Inl r | Inr f \<Rightarrow> sole_run hit val f ys)"
  by (induction xs arbitrary: found) auto

lemma sole_run_loop:
  "(case sole_run hit val found xs of Inl r \<Rightarrow> r | Inr f \<Rightarrow> f) = sole_loop hit val found xs"
  by (induction xs arbitrary: found) auto

lemma sole_run_found:
  "f \<noteq> 0 \<Longrightarrow> sole_run hit val f xs = (if filter hit xs = [] then Inr f else Inl 0)"
  by (induction xs) auto

lemma sole_run_filter:
  assumes "\<And>x. x \<in> set xs \<Longrightarrow> hit x \<Longrightarrow> val x \<noteq> 0"
  shows "sole_run hit val 0 xs = (case filter hit xs of [] \<Rightarrow> Inr 0 | [x] \<Rightarrow> Inr (val x) | _ \<Rightarrow> Inl 0)"
  using assms by (induction xs) (auto simp: sole_run_found split: list.splits)

lemma sole_run_none: "\<forall>x \<in> set xs. \<not> hit x \<Longrightarrow> sole_run hit val found xs = Inr found"
  by (induction xs) auto

lemma upt_split: "a \<le> c \<Longrightarrow> c \<le> n \<Longrightarrow> [a..<n] = [a..<c] @ [c..<n]"
  by (metis le_Suc_ex upt_add_eq_append)

text \<open>
  The contract of such a search: a search over \<open>cands\<close> for a \<open>hit\<close>, answering an address, that
  gives the value of the only hit and 0 where there is none or more than one.
\<close>

locale sole_search =
  fixes search :: "'c \<Rightarrow> u64" and cands :: "'c \<Rightarrow> 'a list"
    and hit :: "'c \<Rightarrow> 'a \<Rightarrow> bool" and val :: "'c \<Rightarrow> 'a \<Rightarrow> u64" and ok :: "'c \<Rightarrow> bool"
  assumes search_loop: "ok c \<Longrightarrow> search c = sole_loop (hit c) (val c) 0 (cands c)"
    and val_nonzero: "ok c \<Longrightarrow> x \<in> set (cands c) \<Longrightarrow> hit c x \<Longrightarrow> val c x \<noteq> 0"
begin

lemma search_filter:
  "ok c \<Longrightarrow> search c = (case filter (hit c) (cands c) of [x] \<Rightarrow> val c x | _ \<Rightarrow> 0)"
  by (simp add: search_loop sole_loop_filter val_nonzero)

lemma search_sound:
  assumes "ok c" "search c \<noteq> 0"
  shows "\<exists>x. filter (hit c) (cands c) = [x] \<and> search c = val c x \<and> x \<in> set (cands c) \<and> hit c x"
proof -
  from assms obtain x where x: "filter (hit c) (cands c) = [x]" and "search c = val c x"
    by (auto simp: search_filter split: list.splits)
  moreover have "x \<in> set (cands c) \<and> hit c x"
    using x filter_eq_Cons_iff[of "hit c" "cands c" x "[]"] by auto
  ultimately show ?thesis by blast
qed

lemma search_unique:
  assumes "ok c" "search c \<noteq> 0" "x \<in> set (cands c)" "hit c x"
  shows "search c = val c x"
proof -
  from search_sound[OF assms(1,2)] obtain y where y: "filter (hit c) (cands c) = [y]"
    and s: "search c = val c y" by blast
  have "x \<in> set (filter (hit c) (cands c))" using assms by simp
  with y s show ?thesis by simp
qed

lemma search_complete:
  assumes "ok c" "distinct (cands c)" "x \<in> set (cands c)" "hit c x"
    and "\<And>y. y \<in> set (cands c) \<Longrightarrow> hit c y \<Longrightarrow> y = x"
  shows "search c = val c x"
proof -
  have set: "set (filter (hit c) (cands c)) = {x}"
    using assms(3,4) by (auto dest: assms(5))
  have "length (filter (hit c) (cands c)) = card (set (filter (hit c) (cands c)))"
    using assms(2) by (simp add: distinct_card del: set_filter)
  then have "length (filter (hit c) (cands c)) = Suc 0" by (simp only: set) simp
  then obtain y where "filter (hit c) (cands c) = [y]"
    by (auto simp: length_Suc_conv)
  with set have "filter (hit c) (cands c) = [x]" by (simp del: set_filter)
  then show ?thesis by (simp add: search_filter assms(1))
qed

lemma search_ambiguous:
  assumes "ok c" "x \<in> set (cands c)" "y \<in> set (cands c)" "hit c x" "hit c y" "x \<noteq> y"
  shows "search c = 0"
proof (rule ccontr)
  assume "search c \<noteq> 0"
  from search_sound[OF assms(1) this] obtain z where z: "filter (hit c) (cands c) = [z]" by blast
  have "{x, y} \<subseteq> set (filter (hit c) (cands c))" using assms by simp
  with z assms(6) show False by auto
qed

end

section \<open>Seven-bit groups\<close>

lemma nat_bit_less: "d < 2 ^ s \<Longrightarrow> bit (d :: nat) k \<Longrightarrow> k < s"
  by (metis bit_take_bit_iff take_bit_nat_eq_self)

lemma low7:
  assumes "c < 128"
  shows "ucast ((of_nat c :: u8) AND 0x7F) = (of_nat c :: u64)"
    "ucast (((of_nat c :: u8) OR 0x80) AND 0x7F) = (of_nat c :: u64)"
    "(of_nat c :: u8) AND 0x80 = 0" "((of_nat c :: u8) OR 0x80) AND 0x80 \<noteq> 0"
proof -
  have p80: "(0x80 :: int) = push_bit 7 1" by (simp add: push_bit_eq_mult)
  have b80: "bit (0x80 :: int) n \<longleftrightarrow> n = 7" for n
    unfolding p80 bit_push_bit_iff bit_1_iff by auto
  have p7F: "(0x7F :: int) = mask 7" by (simp add: mask_eq_exp_minus_1)
  have b7F: "bit (0x7F :: int) n \<longleftrightarrow> n < 7" for n
    unfolding p7F bit_mask_iff by auto
  define x where "x = (of_nat c :: u8)"
  have "c < 2 ^ 7" using assms by simp
  from nat_bit_less[OF this] have low: "bit x n \<Longrightarrow> n < 7" for n by (simp add: x_def bit_simps)
  have ux: "ucast x = (of_nat c :: u64)"
    using assms by (simp add: x_def word_unat_eq_iff unsigned_ucast_eq unsigned_of_nat take_bit_nat_eq_self)
  have "x AND 0x7F = x" "(x OR 0x80) AND 0x7F = x" "x AND 0x80 = 0"
    by (rule bit_word_eqI; auto simp: bit_and_iff bit_or_iff b80 b7F dest: low)+
  moreover have "bit ((x OR 0x80) AND 0x80) 7" by (simp add: bit_and_iff bit_or_iff b80)
  then have "(x OR 0x80) AND 0x80 \<noteq> 0" by force
  ultimately show "ucast ((of_nat c :: u8) AND 0x7F) = (of_nat c :: u64)"
    "ucast (((of_nat c :: u8) OR 0x80) AND 0x7F) = (of_nat c :: u64)"
    "(of_nat c :: u8) AND 0x80 = 0" "((of_nat c :: u8) OR 0x80) AND 0x80 \<noteq> 0"
    by (simp_all only: x_def[symmetric] ux not_False_eq_True)
qed

end
