(* ===== verification/Aob.thy ===== *)
theory Aob
  imports NP_Prelude
begin

text \<open>
  The byte-pattern scanner: \<^verbatim>\<open>np_hex_val\<close> of \<^verbatim>\<open>dylib/util/hex.h\<close> and
  \<^verbatim>\<open>dylib/resolver/aob.c\<close>. A pattern such as \<open>AB ?? CD\<close> is compiled to bytes and masks and
  searched at every fourth offset of a region; only a sole match counts. The lemmas: what
  compiling accepts and that it stays within the buffers it allocates, the round trip with the
  textual form, that the word-at-a-time comparison is the bytewise one, and that the scan answers
  exactly the unique 4-aligned match.
\<close>

section \<open>Hex digits and C characters\<close>

text \<open>A C \<open>char\<close> is signed here; reading the terminator of a string gives 0.\<close>

definition c_char :: "char \<Rightarrow> int" where
  "c_char c = (let k = of_char c in if k < 128 then k else k - 256)"

definition c_head :: "string \<Rightarrow> int" where
  "c_head s = (case s of [] \<Rightarrow> 0 | c # _ \<Rightarrow> c_char c)"

definition np_hex_val :: "int \<Rightarrow> int" where
  "np_hex_val ch =
     (if 48 \<le> ch \<and> ch \<le> 57 then ch - 48
      else let ch' = ch OR 0x20 in
           if 97 \<le> ch' \<and> ch' \<le> 102 then ch' - 97 + 10 else -1)"

section \<open>Compiling a pattern\<close>

record np_byte_pattern =
  pat_bytes :: "u8 list"
  pat_mask :: "u8 list"

text \<open>The loop of \<^verbatim>\<open>np_compile_pattern\<close>: bytes and masks written so far, then the rest.\<close>

fun compile_loop :: "string \<Rightarrow> u8 list \<Rightarrow> u8 list \<Rightarrow> (u8 list \<times> u8 list) option" where
  "compile_loop [] b m = Some (b, m)"
| "compile_loop (c # cs) b m =
     (if c = CHR '' '' then compile_loop cs b m
      else if c = CHR ''?'' \<and> c_head cs = 63 then compile_loop (drop 1 cs) (b @ [0]) (m @ [0])
      else let hi = np_hex_val (c_char c); lo = np_hex_val (c_head cs) in
           if hi < 0 \<or> lo < 0 then None
           else compile_loop (drop 1 cs) (b @ [of_int (push_bit 4 hi OR lo)]) (m @ [0xFF]))"

text \<open>The size of each of the two buffers; \<open>mem_ok\<close> says whether \<open>calloc\<close> has that many bytes.\<close>

definition pattern_cap :: "string \<Rightarrow> nat" where
  "pattern_cap hex_str = length hex_str div 2 + 1"

definition np_compile_pattern :: "(nat \<Rightarrow> bool) \<Rightarrow> string \<Rightarrow> np_byte_pattern option" where
  "np_compile_pattern mem_ok hex_str =
     (if \<not> mem_ok (pattern_cap hex_str) then None
      else case compile_loop hex_str [] [] of
        None \<Rightarrow> None
      | Some (b, m) \<Rightarrow> if b = [] then None else Some \<lparr>pat_bytes = b, pat_mask = m\<rparr>)"

section \<open>Scanning\<close>

fun concrete_byte :: "u8 list \<Rightarrow> u8 list \<Rightarrow> nat \<Rightarrow> (nat \<times> u8) option" where
  "concrete_byte (b # bs) (m # ms) k =
     (if m = 0xFF then Some (k, b) else concrete_byte bs ms (Suc k))"
| "concrete_byte _ _ k = None"

text \<open>Four bytes at a time while there are four, then the rest one by one.\<close>

fun match_tail :: "mem \<Rightarrow> u64 \<Rightarrow> u8 list \<Rightarrow> u8 list \<Rightarrow> bool" where
  "match_tail m a (b # pb) (k # pm) =
     (if m a AND k \<noteq> b then False else match_tail m (a + 1) pb pm)"
| "match_tail m a _ _ = True"

fun matches_at :: "mem \<Rightarrow> u64 \<Rightarrow> u8 list \<Rightarrow> u8 list \<Rightarrow> bool" where
  "matches_at m a (b0 # b1 # b2 # b3 # pb) (m0 # m1 # m2 # m3 # pm) =
     (if load32 m a AND le32 m0 m1 m2 m3 \<noteq> le32 b0 b1 b2 b3 then False
      else matches_at m (a + 4) pb pm)"
| "matches_at m a pb pm = match_tail m a pb pm"

fun sole_match_loop ::
  "mem \<Rightarrow> u64 \<Rightarrow> np_byte_pattern \<Rightarrow> nat \<Rightarrow> u8 \<Rightarrow> nat list \<Rightarrow> nat \<Rightarrow> u64 \<Rightarrow> u64" where
  "sole_match_loop m base pat off anchor [] hits found = found"
| "sole_match_loop m base pat off anchor (pos # ps) hits found =
     (if m (base + of_nat (pos + off)) \<noteq> anchor
        then sole_match_loop m base pat off anchor ps hits found
      else if \<not> matches_at m (base + of_nat pos) (pat_bytes pat) (pat_mask pat)
        then sole_match_loop m base pat off anchor ps hits found
      else if hits + 1 > 1 then 0
      else sole_match_loop m base pat off anchor ps (hits + 1) (base + of_nat pos))"

text \<open>\<open>for (pos = 0; pos <= limit; pos += 4)\<close>\<close>

definition scan_positions :: "nat \<Rightarrow> nat list" where
  "scan_positions limit = map (\<lambda>i. 4 * i) [0..<limit div 4 + 1]"

definition np_scan_sole_match :: "mem \<Rightarrow> u64 \<Rightarrow> nat \<Rightarrow> np_byte_pattern \<Rightarrow> u64" where
  "np_scan_sole_match m base sz pat =
     (if length (pat_bytes pat) = 0 \<or> length (pat_bytes pat) > sz then 0
      else case concrete_byte (pat_bytes pat) (pat_mask pat) 0 of
        None \<Rightarrow> 0
      | Some (off, anchor) \<Rightarrow>
          sole_match_loop m base pat off anchor (scan_positions (sz - length (pat_bytes pat))) 0 0)"

section \<open>Lemmas: compiling\<close>

text \<open>What a compiled pattern keeps: a mask is all or nothing, a wildcard's byte is 0.\<close>

definition pattern_ok :: "np_byte_pattern \<Rightarrow> bool" where
  "pattern_ok pat \<longleftrightarrow> length (pat_bytes pat) = length (pat_mask pat) \<and> pat_bytes pat \<noteq> [] \<and>
     (\<forall>i < length (pat_mask pat). pat_mask pat ! i = 0xFF \<or> (pat_mask pat ! i = 0 \<and> pat_bytes pat ! i = 0))"

definition cells_ok :: "u8 list \<Rightarrow> u8 list \<Rightarrow> bool" where
  "cells_ok b m \<longleftrightarrow> list_all2 (\<lambda>x k. k = 0xFF \<or> (k = 0 \<and> x = 0)) b m"

lemma cells_ok_snoc:
  "cells_ok b m \<Longrightarrow> k = 0xFF \<or> (k = 0 \<and> x = 0) \<Longrightarrow> cells_ok (b @ [x]) (m @ [k])"
  by (auto simp: cells_ok_def intro: list_all2_appendI)

lemma compile_loop_cells:
  "compile_loop s b m = Some (b', m') \<Longrightarrow> cells_ok b m \<Longrightarrow> cells_ok b' m'"
  by (induction s b m rule: compile_loop.induct)
    (auto simp: Let_def cells_ok_snoc split: if_splits)

lemma np_hex_val_nul [simp]: "np_hex_val 0 = -1"
  by (simp add: np_hex_val_def)

lemma compile_loop_length:
  "compile_loop s b m = Some (b', m') \<Longrightarrow> 2 * length b' \<le> 2 * length b + length s"
proof (induction s b m rule: compile_loop.induct)
  case (2 c cs b m)
  let ?hi = "np_hex_val (c_char c)" and ?lo = "np_hex_val (c_head cs)"
  consider (blank) "c = CHR '' ''" | (wild) "c \<noteq> CHR '' ''" "c = CHR ''?'' \<and> c_head cs = 63"
    | (hex) "c \<noteq> CHR '' ''" "\<not> (c = CHR ''?'' \<and> c_head cs = 63)" by blast
  then show ?case
  proof cases
    case blank
    with 2 show ?thesis by auto
  next
    case wild
    then have "cs \<noteq> []" by (auto simp: c_head_def)
    then have "length (drop 1 cs) + 1 = length cs" by (cases cs) auto
    with wild 2 show ?thesis by auto
  next
    case hex
    with "2.prems" have nn: "\<not> (?hi < 0 \<or> ?lo < 0)" by (auto simp: Let_def)
    then have "cs \<noteq> []" by (auto simp: c_head_def)
    then have "length (drop 1 cs) + 1 = length cs" by (cases cs) auto
    moreover from "2.prems" hex nn
    have "compile_loop (drop 1 cs) (b @ [of_int (push_bit 4 ?hi OR ?lo)]) (m @ [0xFF])
        = Some (b', m')"
      by (auto simp: Let_def split: if_splits)
    ultimately show ?thesis using "2.IH"(3)[OF hex refl refl nn] by simp
  qed
qed simp

lemma compile_pattern_ok: "np_compile_pattern mem_ok s = Some pat \<Longrightarrow> pattern_ok pat"
proof -
  assume "np_compile_pattern mem_ok s = Some pat"
  then obtain b m where l: "compile_loop s [] [] = Some (b, m)" "b \<noteq> []"
    and pat: "pat = \<lparr>pat_bytes = b, pat_mask = m\<rparr>"
    by (auto simp: np_compile_pattern_def split: option.splits if_splits)
  from compile_loop_cells[OF l(1)] have "cells_ok b m" by (simp add: cells_ok_def)
  with l(2) show "pattern_ok pat"
    unfolding pat pattern_ok_def cells_ok_def by (auto simp: list_all2_conv_all_nth)
qed

section \<open>Lemmas: the round trip with the textual form\<close>

text \<open>A pattern written out: two upper-case digits or \<open>??\<close> for each byte, spaces between.\<close>

definition hex_digit :: "nat \<Rightarrow> char" where
  "hex_digit n = char_of (if n < 10 then 48 + n else 55 + n)"

definition print_cell :: "u8 option \<Rightarrow> string" where
  "print_cell c = (case c of None \<Rightarrow> ''??''
     | Some x \<Rightarrow> [hex_digit (unat x div 16), hex_digit (unat x mod 16)])"

definition print_pattern :: "u8 option list \<Rightarrow> string" where
  "print_pattern cs = concat (map (\<lambda>c. print_cell c @ '' '') cs)"

lemma hex_digit_val:
  assumes "n < 16"
  shows "np_hex_val (c_char (hex_digit n)) = int n" "hex_digit n \<noteq> CHR '' ''"
    "hex_digit n \<noteq> CHR ''?''"
proof -
  have "list_all (\<lambda>n. np_hex_val (c_char (hex_digit n)) = int n \<and> hex_digit n \<noteq> CHR '' ''
      \<and> hex_digit n \<noteq> CHR ''?'') [0..<16]"
    by code_simp
  then show "np_hex_val (c_char (hex_digit n)) = int n" "hex_digit n \<noteq> CHR '' ''"
    "hex_digit n \<noteq> CHR ''?''"
    using assms by (auto simp: list_all_iff)
qed

definition cell_byte :: "u8 option \<Rightarrow> u8" where
  "cell_byte c = (case c of None \<Rightarrow> 0 | Some x \<Rightarrow> x)"

definition cell_mask :: "u8 option \<Rightarrow> u8" where
  "cell_mask c = (case c of None \<Rightarrow> 0 | Some _ \<Rightarrow> 0xFF)"

lemma nibbles: "(of_int (push_bit 4 (int (unat x div 16)) OR int (unat x mod 16)) :: u8) = x"
proof -
  have "push_bit 4 (int (unat x div 16)) OR int (unat x mod 16)
      = push_bit 4 (drop_bit 4 (uint x)) OR take_bit 4 (uint x)"
    by (simp add: drop_bit_eq_div take_bit_eq_mod zdiv_int zmod_int)
  also have "\<dots> = uint x"
    by (rule bit_eqI) (auto simp: bit_simps)
  finally show ?thesis by simp
qed

lemma compile_loop_cell:
  "compile_loop (print_cell c @ CHR '' '' # s) b m
     = compile_loop s (b @ [cell_byte c]) (m @ [cell_mask c])"
proof (cases c)
  case None
  then show ?thesis by (simp add: print_cell_def cell_byte_def cell_mask_def c_head_def c_char_def)
next
  case (Some x)
  have "unat x < 256" using unsigned_less[of x] by simp
  then have d: "unat x div 16 < 16" "unat x mod 16 < 16" by simp_all
  then show ?thesis
    by (simp add: Some print_cell_def cell_byte_def cell_mask_def c_head_def hex_digit_val nibbles)
qed

lemma compile_loop_print:
  "compile_loop (print_pattern cs) b m = Some (b @ map cell_byte cs, m @ map cell_mask cs)"
  by (induction cs arbitrary: b m) (simp_all add: print_pattern_def compile_loop_cell)

section \<open>Lemmas: scanning\<close>

lemma match_tail_bytewise:
  "length pb = length pm \<Longrightarrow>
     match_tail m a pb pm \<longleftrightarrow> (\<forall>i < length pb. m (a + of_nat i) AND pm ! i = pb ! i)"
  by (induction m a pb pm rule: match_tail.induct) (auto simp: All_less_Suc2 algebra_simps)

lemma matches_at_bytewise:
  "length pb = length pm \<Longrightarrow>
     matches_at m a pb pm \<longleftrightarrow> (\<forall>i < length pb. m (a + of_nat i) AND pm ! i = pb ! i)"
proof (induction m a pb pm rule: matches_at.induct)
  case (1 m a b0 b1 b2 b3 pb m0 m1 m2 m3 pm)
  have word: "load32 m a AND le32 m0 m1 m2 m3 = le32 b0 b1 b2 b3 \<longleftrightarrow>
      m a AND m0 = b0 \<and> m (a + 1) AND m1 = b1 \<and> m (a + 2) AND m2 = b2 \<and> m (a + 3) AND m3 = b3"
    by (simp add: load32_def le32_and le32_eq_iff)
  have rest: "matches_at m (a + 4) pb pm \<longleftrightarrow>
      (\<forall>i < length pb. m (a + 4 + of_nat i) AND pm ! i = pb ! i)"
    if "load32 m a AND le32 m0 m1 m2 m3 = le32 b0 b1 b2 b3"
    using 1 that by simp
  have "matches_at m a (b0 # b1 # b2 # b3 # pb) (m0 # m1 # m2 # m3 # pm) \<longleftrightarrow>
      m a AND m0 = b0 \<and> m (a + 1) AND m1 = b1 \<and> m (a + 2) AND m2 = b2 \<and> m (a + 3) AND m3 = b3 \<and>
      (\<forall>i < length pb. m (a + 4 + of_nat i) AND pm ! i = pb ! i)"
    using word rest by auto
  then show ?case by (simp add: All_less_Suc2 algebra_simps)
qed (simp_all only: matches_at.simps match_tail_bytewise)

text \<open>What a pattern asks of the bytes at an address: the unmasked ones only.\<close>

definition pattern_at :: "mem \<Rightarrow> u64 \<Rightarrow> np_byte_pattern \<Rightarrow> bool" where
  "pattern_at m a pat \<longleftrightarrow>
     (\<forall>i < length (pat_bytes pat). pat_mask pat ! i = 0xFF \<longrightarrow> m (a + of_nat i) = pat_bytes pat ! i)"

lemma matches_at_pattern:
  assumes "pattern_ok pat"
  shows "matches_at m a (pat_bytes pat) (pat_mask pat) \<longleftrightarrow> pattern_at m a pat"
proof -
  have full: "x AND 0xFF = x" for x :: u8
  proof -
    have "x AND mask 8 = x" by (simp add: take_bit_eq_mask[symmetric] take_bit_word_eq_self)
    moreover have "(mask 8 :: u8) = 0xFF" by code_simp
    ultimately show ?thesis by simp
  qed
  have cell: "m' AND k = b \<longleftrightarrow> (k = 0xFF \<longrightarrow> m' = b)" if "k = 0xFF \<or> (k = 0 \<and> b = 0)"
    for m' k b :: u8
    using that full by auto
  show ?thesis
    using assms unfolding pattern_ok_def pattern_at_def
    by (auto simp: matches_at_bytewise cell)
qed

lemma concrete_byte_shift:
  "concrete_byte b m k = Some (off, x) \<Longrightarrow>
     k \<le> off \<and> off - k < length b \<and> m ! (off - k) = 0xFF \<and> x = b ! (off - k)"
  by (induction b m k rule: concrete_byte.induct)
    (auto split: if_splits simp: nth_Cons' Suc_diff_le)

lemma concrete_byte_none:
  "concrete_byte b m k = None \<Longrightarrow> length b = length m \<Longrightarrow> \<forall>i < length m. m ! i \<noteq> 0xFF"
  by (induction b m k rule: concrete_byte.induct)
    (auto split: if_splits simp: nth_Cons' less_Suc_eq_0_disj)

lemma sole_match_loop_spec:
  assumes anchor: "\<And>pos. pattern_at m (base + of_nat pos) pat \<Longrightarrow> m (base + of_nat (pos + off)) = x"
    and ok: "pattern_ok pat"
  shows "sole_match_loop m base pat off x ps 0 0 =
      (case filter (\<lambda>pos. pattern_at m (base + of_nat pos) pat) ps of
         [pos] \<Rightarrow> base + of_nat pos | _ \<Rightarrow> 0)"
    and "sole_match_loop m base pat off x ps 1 f =
      (if filter (\<lambda>pos. pattern_at m (base + of_nat pos) pat) ps = [] then f else 0)"
  using anchor
proof -
  have skip: "m (base + of_nat (pos + off)) \<noteq> x \<or> \<not> matches_at m (base + of_nat pos) (pat_bytes pat) (pat_mask pat)
      \<longleftrightarrow> \<not> pattern_at m (base + of_nat pos) pat" for pos
    using anchor matches_at_pattern[OF ok] by blast
  have step: "sole_match_loop m base pat off x (pos # ps) h f =
      (if \<not> pattern_at m (base + of_nat pos) pat then sole_match_loop m base pat off x ps h f
       else if h + 1 > 1 then 0
       else sole_match_loop m base pat off x ps (h + 1) (base + of_nat pos))" for pos ps h f
    by (cases "pattern_at m (base + of_nat pos) pat") (use skip[of pos] in auto)
  show two: "sole_match_loop m base pat off x ps 1 f =
      (if filter (\<lambda>pos. pattern_at m (base + of_nat pos) pat) ps = [] then f else 0)" for f
    by (induction ps) (simp_all add: step del: sole_match_loop.simps(2))
  show "sole_match_loop m base pat off x ps 0 0 =
      (case filter (\<lambda>pos. pattern_at m (base + of_nat pos) pat) ps of
         [pos] \<Rightarrow> base + of_nat pos | _ \<Rightarrow> 0)"
  proof (induction ps)
    case (Cons pos ps)
    have "sole_match_loop m base pat off x ps 1 f =
      (if filter (\<lambda>pos. pattern_at m (base + of_nat pos) pat) ps = [] then f else 0)" for f
      by (induction ps) (simp_all add: step del: sole_match_loop.simps(2))
    with Cons show ?case
      by (simp add: step del: sole_match_loop.simps(2) split: list.splits)
  qed simp
qed

lemma scan_positions_set: "set (scan_positions limit) = {pos. pos \<le> limit \<and> 4 dvd pos}"
proof -
  have iff: "4 * i \<le> limit \<longleftrightarrow> i < limit div 4 + 1" for i by arith
  have set: "set (scan_positions limit) = (\<lambda>i. 4 * i) ` {..<limit div 4 + 1}"
    by (simp only: scan_positions_def set_map set_upt atLeast0LessThan)
  have "pos \<in> set (scan_positions limit) \<longleftrightarrow> (\<exists>i. pos = 4 * i \<and> 4 * i \<le> limit)" for pos
    unfolding set iff by blast
  then show ?thesis by (auto simp: dvd_def)
qed

lemma distinct_scan_positions [simp]: "distinct (scan_positions limit)"
  by (simp add: scan_positions_def distinct_map inj_on_def del: upt_Suc)

lemma np_scan_sole_match_filter:
  assumes ok: "pattern_ok pat" and concrete: "0xFF \<in> set (pat_mask pat)" and "length (pat_bytes pat) \<le> sz"
  shows "np_scan_sole_match m base sz pat =
    (case filter (\<lambda>pos. pattern_at m (base + of_nat pos) pat)
            (scan_positions (sz - length (pat_bytes pat))) of
       [pos] \<Rightarrow> base + of_nat pos | _ \<Rightarrow> 0)"
proof -
  have len: "length (pat_bytes pat) = length (pat_mask pat)" "pat_bytes pat \<noteq> []"
    using ok by (auto simp: pattern_ok_def)
  have "concrete_byte (pat_bytes pat) (pat_mask pat) 0 \<noteq> None"
    using concrete concrete_byte_none[of "pat_bytes pat" "pat_mask pat" 0] len
    by (metis in_set_conv_nth)
  then obtain off x where c: "concrete_byte (pat_bytes pat) (pat_mask pat) 0 = Some (off, x)" by auto
  from concrete_byte_shift[OF c] have off: "off < length (pat_bytes pat)" "pat_mask pat ! off = 0xFF"
    "x = pat_bytes pat ! off" by auto
  then have anchor: "m (base + of_nat (pos + off)) = x" if "pattern_at m (base + of_nat pos) pat" for pos
    using that by (auto simp: pattern_at_def algebra_simps)
  have "sole_match_loop m base pat off x ps 0 0 =
      (case filter (\<lambda>pos. pattern_at m (base + of_nat pos) pat) ps of
         [pos] \<Rightarrow> base + of_nat pos | _ \<Rightarrow> 0)" for ps
    by (rule sole_match_loop_spec(1)) (use anchor ok in auto)
  then show ?thesis
    using assms(3) len c by (auto simp: np_scan_sole_match_def)
qed

lemma concrete_byte_some: "concrete_byte b m k = Some (off, x) \<Longrightarrow> 0xFF \<in> set m"
  by (induction b m k rule: concrete_byte.induct) (auto split: if_splits)

lemma scan_no_concrete: "0xFF \<notin> set (pat_mask pat) \<Longrightarrow> np_scan_sole_match m base sz pat = 0"
  by (auto simp: np_scan_sole_match_def split: option.split dest: concrete_byte_some)

lemma scan_too_long: "sz < length (pat_bytes pat) \<Longrightarrow> np_scan_sole_match m base sz pat = 0"
  by (simp add: np_scan_sole_match_def)

lemma scan_positions_filter: "scan_positions limit = filter (\<lambda>pos. 4 dvd pos) [0..<limit + 1]"
proof (rule sorted_distinct_set_unique)
  show "sorted (scan_positions limit)"
    by (simp add: scan_positions_def sorted_map del: upt_Suc)
  show "set (scan_positions limit) = set (filter (\<lambda>pos. 4 dvd pos) [0..<limit + 1])"
    by (auto simp: scan_positions_set le_less)
qed (simp_all add: sorted_wrt_filter del: upt_Suc)

section \<open>Properties\<close>

text \<open>C3. For every pattern that compiles and every region, the scan answers the address of the match
  when exactly one 4-aligned offset of the region matches the pattern, and 0 when none or several do;
  the byte filter and the word-at-a-time comparison change nothing. A pattern longer than the region,
  or one of wildcards alone, answers 0, the latter also where it has one match.\<close>

theorem scan_sole_match_correct:
  assumes "np_compile_pattern mem_ok s = Some pat"
  shows "np_scan_sole_match m base sz pat =
    (if sz < length (pat_bytes pat) \<or> 0xFF \<notin> set (pat_mask pat) then 0
     else case filter (\<lambda>pos. pattern_at m (base + of_nat pos) pat)
            (filter (\<lambda>pos. 4 dvd pos) [0..<sz - length (pat_bytes pat) + 1]) of
       [pos] \<Rightarrow> base + of_nat pos | _ \<Rightarrow> 0)"
  using np_scan_sole_match_filter[OF compile_pattern_ok[OF assms]]
  by (simp add: scan_positions_filter scan_no_concrete scan_too_long del: upt_Suc)

text \<open>A pattern of two bytes, one of them a wildcard, found at the second word of three.\<close>

theorem scan_sole_match_correct_witness:
  "np_scan_sole_match (\<lambda>a. if a = 0x1004 then 0xAB else 0) 0x1000 12
     \<lparr>pat_bytes = [0xAB, 0], pat_mask = [0xFF, 0]\<rparr> = 0x1004"
proof -
  let ?m = "\<lambda>a :: u64. if a = 0x1004 then 0xAB else (0 :: u8)"
  let ?pat = "\<lparr>pat_bytes = [0xAB, 0], pat_mask = [0xFF, 0]\<rparr>"
  have "np_compile_pattern (\<lambda>_. True) ''AB ??'' = Some ?pat" by code_simp
  from scan_sole_match_correct[OF this, where sz = 12 and m = ?m and base = "0x1000"]
  have "np_scan_sole_match ?m 0x1000 12 ?pat =
    (case filter (\<lambda>pos. pattern_at ?m (0x1000 + of_nat pos) ?pat)
            (filter (\<lambda>pos. 4 dvd pos) [0..<11]) of
       [pos] \<Rightarrow> 0x1000 + of_nat pos | _ \<Rightarrow> 0)"
    by simp
  also have "filter (\<lambda>pos. 4 dvd pos) [0..<11] = [0, 4, 8 :: nat]" by code_simp
  finally show ?thesis by (simp add: pattern_at_def All_less_Suc)
qed

text \<open>Compiling the written form of any non-empty sequence of bytes and wildcards gives back
  exactly those bytes and masks.\<close>

theorem compile_print_roundtrip:
  assumes "cs \<noteq> []" "mem_ok (pattern_cap (print_pattern cs))"
  shows "np_compile_pattern mem_ok (print_pattern cs) =
    Some \<lparr>pat_bytes = map cell_byte cs, pat_mask = map cell_mask cs\<rparr>"
  using assms by (simp add: np_compile_pattern_def compile_loop_print)

theorem compile_print_roundtrip_witness:
  "np_compile_pattern (\<lambda>_. True) ''A0 ?? '' = Some \<lparr>pat_bytes = [0xA0, 0], pat_mask = [0xFF, 0]\<rparr>"
proof -
  have "print_pattern [Some 0xA0, None] = ''A0 ?? ''" by code_simp
  with compile_print_roundtrip[of "[Some 0xA0, None]" "\<lambda>_. True"] show ?thesis
    by (simp add: cell_byte_def cell_mask_def)
qed

text \<open>A pattern that compiles fits the two buffers allocated for it with room to spare, and each
  of its masks is all ones, or zero with a zero byte, which the comparison relies on.\<close>

theorem compile_pattern_fits:
  assumes "np_compile_pattern mem_ok s = Some pat"
  shows "length (pat_bytes pat) < pattern_cap s \<and> pattern_ok pat"
  using assms compile_pattern_ok[OF assms]
  by (auto simp: np_compile_pattern_def pattern_cap_def dest!: compile_loop_length
      split: option.splits if_splits)

theorem compile_pattern_fits_witness:
  "length [0xAB, 0 :: u8] < pattern_cap ''AB??''"
proof -
  have "np_compile_pattern (\<lambda>_. True) ''AB??'' = Some \<lparr>pat_bytes = [0xAB, 0], pat_mask = [0xFF, 0]\<rparr>"
    by code_simp
  from compile_pattern_fits[OF this] show ?thesis by simp
qed

end
