(* ===== verification/Log_Dedupe.thy ===== *)
theory Log_Dedupe
  imports NP_Prelude
begin

text \<open>
  The table in \<^verbatim>\<open>dylib/util/log.c\<close> that decides whether a log line with a given key is
  the first of its kind: a fixed array of 8192 slots with linear probing, never emptied. The
  lemmas show that it refines a set with a capacity: \<^verbatim>\<open>np_log_first_hit\<close> answers 1 exactly for
  a key not in the set while there is room, and adds it. The calls are modelled one after the
  other; the C code takes no lock, so two threads that race are outside the model.
\<close>

section \<open>State and operations\<close>

definition NP_SEEN_SLOTS :: nat where
  "NP_SEEN_SLOTS = 8192"

text \<open>A key is the address of the call site and the caller's tag.\<close>

type_synonym log_key = "u64 \<times> u64"

record seen_table =
  np_seen :: "nat \<Rightarrow> log_key option"
  np_seen_overflow :: bool

definition seen_init :: seen_table where
  "seen_init = \<lparr>np_seen = (\<lambda>_. None), np_seen_overflow = False\<rparr>"

text \<open>FNV-1a over the eight bytes of \<open>anchor ^ (tag << 1)\<close>.\<close>

fun fold_bytes :: "nat \<Rightarrow> u64 \<Rightarrow> u64 \<Rightarrow> u64" where
  "fold_bytes 0 acc bits = acc"
| "fold_bytes (Suc b) acc bits =
     fold_bytes b ((acc XOR (bits AND 0xFF)) * 1099511628211) (drop_bit 8 bits)"

definition np_seen_fold :: "log_key \<Rightarrow> u64" where
  "np_seen_fold key = fold_bytes 8 1469598103934665603 (fst key XOR push_bit 1 (snd key))"

definition seen_start :: "log_key \<Rightarrow> nat" where
  "seen_start key = unat (np_seen_fold key) mod NP_SEEN_SLOTS"

text \<open>The loop over the steps: the slot it stops at, with whether that slot was free.\<close>

fun seen_probe :: "(nat \<Rightarrow> 'k option) \<Rightarrow> nat \<Rightarrow> 'k \<Rightarrow> nat \<Rightarrow> nat list \<Rightarrow> (bool \<times> nat) option" where
  "seen_probe slots n key start [] = None"
| "seen_probe slots n key start (step # steps) =
     (let i = (start + step) mod n in
      case slots i of
        Some k \<Rightarrow> if k = key then Some (False, i) else seen_probe slots n key start steps
      | None \<Rightarrow> Some (True, i))"

text \<open>The answer (1 as True), the table after it, and whether the overflow error is logged.\<close>

definition np_log_first_hit :: "seen_table \<Rightarrow> log_key \<Rightarrow> bool \<times> seen_table \<times> bool" where
  "np_log_first_hit st key =
     (case seen_probe (np_seen st) NP_SEEN_SLOTS key (seen_start key) [0..<NP_SEEN_SLOTS] of
        Some (False, _) \<Rightarrow> (False, st, False)
      | Some (True, i) \<Rightarrow> (True, st\<lparr>np_seen := (np_seen st)(i \<mapsto> key)\<rparr>, False)
      | None \<Rightarrow> (False, st\<lparr>np_seen_overflow := True\<rparr>, \<not> np_seen_overflow st))"

section \<open>Linear probing\<close>

text \<open>
  A key is found where its probe sequence first meets it: every slot before it on that sequence
  is taken by another key.
\<close>

definition probe_inv :: "nat \<Rightarrow> ('k \<Rightarrow> nat) \<Rightarrow> (nat \<Rightarrow> 'k option) \<Rightarrow> bool" where
  "probe_inv n home slots \<longleftrightarrow> (\<forall>i k. i < n \<longrightarrow> slots i = Some k \<longrightarrow>
     (\<exists>s < n. i = (home k + s) mod n \<and>
        (\<forall>s' < s. slots ((home k + s') mod n) \<noteq> None \<and> slots ((home k + s') mod n) \<noteq> Some k)))"

definition probe_keys :: "nat \<Rightarrow> (nat \<Rightarrow> 'k option) \<Rightarrow> 'k set" where
  "probe_keys n slots = {k. \<exists>i < n. slots i = Some k}"

lemma seen_probe_stop:
  assumes "s < n" "a \<le> s" "slots ((start + s) mod n) = None \<or> slots ((start + s) mod n) = Some key"
    and "\<forall>s' < s. slots ((start + s') mod n) \<noteq> None \<and> slots ((start + s') mod n) \<noteq> Some key"
  shows "seen_probe slots n key start [a..<n]
    = Some (slots ((start + s) mod n) = None, (start + s) mod n)"
  using assms(2)
proof (induction "s - a" arbitrary: a)
  case 0
  then have "[a..<n] = s # [Suc s..<n]" using assms(1) by (simp add: upt_conv_Cons)
  then show ?case using assms(3) by (auto simp: Let_def)
next
  case (Suc d)
  then have "a < s" and hd: "[a..<n] = a # [Suc a..<n]"
    using assms(1) by (simp_all add: upt_conv_Cons)
  then have "slots ((start + a) mod n) \<noteq> None \<and> slots ((start + a) mod n) \<noteq> Some key"
    using assms(4) by blast
  then show ?case using Suc.hyps(1)[of "Suc a"] Suc.hyps(2) \<open>a < s\<close> hd
    by (auto simp: Let_def)
qed

lemma seen_probe_full:
  assumes "\<forall>s \<in> set ss. slots ((start + s) mod n) \<noteq> None \<and> slots ((start + s) mod n) \<noteq> Some key"
  shows "seen_probe slots n key start ss = None"
  using assms by (induction ss) (auto simp: Let_def)

lemma probe_surj:
  assumes "i < (n :: nat)" "h < n"
  shows "\<exists>s < n. i = (h + s) mod n"
proof (cases "h \<le> i")
  case True
  then show ?thesis using assms by (intro exI[of _ "i - h"]) auto
next
  case False
  then show ?thesis using assms by (intro exI[of _ "n + i - h"]) auto
qed

locale probe_table =
  fixes n :: nat and home :: "'k \<Rightarrow> nat"
  assumes home_less: "home k < n"
begin

lemma probe_present:
  assumes "probe_inv n home slots" "key \<in> probe_keys n slots"
  shows "\<exists>i. seen_probe slots n key (home key) [0..<n] = Some (False, i)"
proof -
  from assms obtain s where "s < n" "slots ((home key + s) mod n) = Some key"
    "\<forall>s' < s. slots ((home key + s') mod n) \<noteq> None \<and> slots ((home key + s') mod n) \<noteq> Some key"
    unfolding probe_inv_def probe_keys_def by blast
  then show ?thesis using seen_probe_stop[of s n 0 slots "home key" key] by auto
qed

lemma probe_absent_free:
  assumes inv: "probe_inv n home slots" and absent: "key \<notin> probe_keys n slots"
    and free: "i < n" "slots i = None"
  shows "\<exists>j < n. seen_probe slots n key (home key) [0..<n] = Some (True, j) \<and> slots j = None \<and>
    probe_inv n home (slots(j \<mapsto> key))"
proof -
  let ?pos = "\<lambda>s. (home key + s) mod n"
  have "\<exists>s. s < n \<and> slots (?pos s) = None"
    using probe_surj[OF free(1) home_less[of key]] free(2) by blast
  then obtain s where s: "s < n" "slots (?pos s) = None"
    and least: "\<forall>s' < s. \<not> (s' < n \<and> slots (?pos s') = None)"
    using exists_least_iff[of "\<lambda>s. s < n \<and> slots (?pos s) = None"] by blast
  have before: "\<forall>s' < s. slots (?pos s') \<noteq> None \<and> slots (?pos s') \<noteq> Some key"
    using least s(1) absent by (auto simp: probe_keys_def)
  have probe: "seen_probe slots n key (home key) [0..<n] = Some (True, ?pos s)"
    using seen_probe_stop[of s n 0 slots "home key" key] s before by simp
  have "probe_inv n home (slots(?pos s \<mapsto> key))"
    unfolding probe_inv_def
  proof (intro allI impI)
    fix i' k assume i': "i' < n" and k: "(slots(?pos s \<mapsto> key)) i' = Some k"
    show "\<exists>t < n. i' = (home k + t) mod n \<and> (\<forall>s' < t.
        (slots(?pos s \<mapsto> key)) ((home k + s') mod n) \<noteq> None \<and>
        (slots(?pos s \<mapsto> key)) ((home k + s') mod n) \<noteq> Some k)"
    proof (cases "i' = ?pos s")
      case True
      then have "k = key" using k by simp
      with True s before show ?thesis by (intro exI[of _ s]) (metis fun_upd_other)
    next
      case False
      then have "slots i' = Some k" using k by simp
      then obtain t where "t < n" "i' = (home k + t) mod n"
        "\<forall>s' < t. slots ((home k + s') mod n) \<noteq> None \<and> slots ((home k + s') mod n) \<noteq> Some k"
        using inv i' unfolding probe_inv_def by blast
      then show ?thesis using s(2) by (intro exI[of _ t]) (metis fun_upd_other)
    qed
  qed
  moreover have "?pos s < n" using s(1) by simp
  ultimately show ?thesis using probe s(2) by blast
qed

lemma probe_absent_full:
  assumes "key \<notin> probe_keys n slots" "\<forall>i < n. slots i \<noteq> None"
  shows "seen_probe slots n key (home key) [0..<n] = None"
proof (rule seen_probe_full)
  have "(home key + s) mod n < n" for s
    using home_less[of key] by (intro mod_less_divisor) simp
  then show "\<forall>s \<in> set [0..<n]. slots ((home key + s) mod n) \<noteq> None \<and>
      slots ((home key + s) mod n) \<noteq> Some key"
    using assms by (auto simp: probe_keys_def)
qed

text \<open>The array is full exactly when the set has as many keys as there are slots.\<close>

lemma probe_full_card:
  assumes inv: "probe_inv n home slots"
  shows "(\<forall>i < n. slots i \<noteq> None) \<longleftrightarrow> card (probe_keys n slots) = n"
proof
  let ?filled = "{i. i < n \<and> slots i \<noteq> None}"
  have keys: "probe_keys n slots = (\<lambda>i. the (slots i)) ` ?filled"
    unfolding probe_keys_def
  proof (intro equalityI subsetI)
    fix k assume "k \<in> {k. \<exists>i < n. slots i = Some k}"
    then obtain i where "i < n" "slots i = Some k" by blast
    then show "k \<in> (\<lambda>i. the (slots i)) ` ?filled" by (intro image_eqI[of _ _ i]) auto
  qed auto
  show "card (probe_keys n slots) = n" if "\<forall>i < n. slots i \<noteq> None"
  proof -
    have "inj_on (\<lambda>i. the (slots i)) ?filled"
    proof (rule inj_onI)
      fix i j assume "i \<in> ?filled" "j \<in> ?filled" "the (slots i) = the (slots j)"
      then obtain k where ij: "slots i = Some k" "slots j = Some k" "i < n" "j < n" by auto
      from inv ij obtain s where s: "i = (home k + s) mod n"
        "\<forall>s' < s. slots ((home k + s') mod n) \<noteq> Some k"
        unfolding probe_inv_def by blast
      from inv ij obtain t where t: "j = (home k + t) mod n"
        "\<forall>s' < t. slots ((home k + s') mod n) \<noteq> Some k"
        unfolding probe_inv_def by blast
      have "\<not> s < t" using s(1) t(2) ij(1) by auto
      moreover have "\<not> t < s" using t(1) s(2) ij(2) by auto
      ultimately have "s = t" by simp
      with s t show "i = j" by simp
    qed
    moreover have "?filled = {..<n}" using that by auto
    ultimately show ?thesis using keys by (simp add: card_image)
  qed
  show "\<forall>i < n. slots i \<noteq> None" if "card (probe_keys n slots) = n"
  proof (rule ccontr)
    assume "\<not> (\<forall>i < n. slots i \<noteq> None)"
    then obtain i where "i < n" "slots i = None" by blast
    then have "i \<in> {..<n}" "i \<notin> ?filled" by simp_all
    moreover have "?filled \<subseteq> {..<n}" by blast
    ultimately have "?filled \<subset> {..<n}" by blast
    then have "card ?filled < n" using psubset_card_mono[of "{..<n}"] by simp
    moreover have "card (probe_keys n slots) \<le> card ?filled"
      unfolding keys by (rule card_image_le) simp
    ultimately show False using that by simp
  qed
qed

end

lemma NP_SEEN_SLOTS_pos: "0 < NP_SEEN_SLOTS"
  by (simp add: NP_SEEN_SLOTS_def)

interpretation log_table: probe_table NP_SEEN_SLOTS seen_start
  by unfold_locales (simp add: seen_start_def NP_SEEN_SLOTS_pos)

section \<open>The table refines a set with a capacity\<close>

definition seen_keys :: "seen_table \<Rightarrow> log_key set" where
  "seen_keys st = probe_keys NP_SEEN_SLOTS (np_seen st)"

definition seen_inv :: "seen_table \<Rightarrow> bool" where
  "seen_inv st \<longleftrightarrow> probe_inv NP_SEEN_SLOTS seen_start (np_seen st)"

definition first_hit :: "seen_table \<Rightarrow> log_key \<Rightarrow> bool \<times> seen_table" where
  "first_hit st key = (let (r, st', _) = np_log_first_hit st key in (r, st'))"

lemma finite_probe_keys: "finite (probe_keys n slots)"
proof -
  have "probe_keys n slots \<subseteq> (\<lambda>i. the (slots i)) ` {..<n}"
    by (auto simp: probe_keys_def image_iff) (metis lessThan_iff option.sel)
  then show ?thesis by (rule finite_subset) simp
qed

lemma seen_init_ok: "seen_inv seen_init" "seen_keys seen_init = {}"
  by (simp_all add: seen_inv_def seen_keys_def seen_init_def probe_inv_def probe_keys_def)

lemma probe_keys_upd:
  assumes "j < n" "slots j = None"
  shows "probe_keys n (slots(j \<mapsto> key)) = insert key (probe_keys n slots)"
proof (intro equalityI subsetI)
  fix k assume "k \<in> insert key (probe_keys n slots)"
  then show "k \<in> probe_keys n (slots(j \<mapsto> key))"
  proof
    assume "k = key"
    then show ?thesis using assms(1) by (auto simp: probe_keys_def)
  next
    assume "k \<in> probe_keys n slots"
    then obtain i where "i < n" "slots i = Some k" by (auto simp: probe_keys_def)
    then show ?thesis using assms(2) unfolding probe_keys_def by (intro CollectI exI[of _ i]) auto
  qed
qed (auto simp: probe_keys_def split: if_splits)

lemma first_hit_cases:
  assumes "seen_inv st"
  shows
    "key \<in> seen_keys st \<Longrightarrow> first_hit st key = (False, st)"
    "key \<notin> seen_keys st \<Longrightarrow> card (seen_keys st) < NP_SEEN_SLOTS \<Longrightarrow>
       \<exists>st'. first_hit st key = (True, st') \<and> seen_inv st' \<and>
         seen_keys st' = insert key (seen_keys st)"
    "key \<notin> seen_keys st \<Longrightarrow> \<not> card (seen_keys st) < NP_SEEN_SLOTS \<Longrightarrow>
       first_hit st key = (False, st\<lparr>np_seen_overflow := True\<rparr>)"
proof -
  let ?N = NP_SEEN_SLOTS and ?slots = "np_seen st"
  have inv: "probe_inv ?N seen_start ?slots" using assms by (simp add: seen_inv_def)
  show "first_hit st key = (False, st)" if "key \<in> seen_keys st"
    using log_table.probe_present[OF inv, of key] that
    by (auto simp: first_hit_def np_log_first_hit_def seen_keys_def simp del: split_paired_All)
  have le: "card (probe_keys ?N ?slots) \<le> ?N"
  proof -
    have "probe_keys ?N ?slots \<subseteq> (\<lambda>i. the (?slots i)) ` {..<?N}"
      by (auto simp: probe_keys_def image_iff) (metis lessThan_iff option.sel)
    then show ?thesis using surj_card_le[of "{..<?N}"] by simp
  qed
  show "\<exists>st'. first_hit st key = (True, st') \<and> seen_inv st' \<and>
      seen_keys st' = insert key (seen_keys st)"
    if "key \<notin> seen_keys st" "card (seen_keys st) < ?N"
  proof -
    have "\<exists>i < ?N. ?slots i = None"
      using that(2) log_table.probe_full_card[OF inv] unfolding seen_keys_def
      by (metis less_irrefl)
    then obtain i where "i < ?N" "?slots i = None" by blast
    with log_table.probe_absent_free[OF inv] that(1) obtain j where
      "j < ?N" "seen_probe ?slots ?N key (seen_start key) [0..<?N] = Some (True, j)"
      "?slots j = None" "probe_inv ?N seen_start (?slots(j \<mapsto> key))"
      unfolding seen_keys_def by blast
    then show ?thesis
      by (simp add: first_hit_def np_log_first_hit_def seen_inv_def seen_keys_def probe_keys_upd)
  qed
  show "first_hit st key = (False, st\<lparr>np_seen_overflow := True\<rparr>)"
    if "key \<notin> seen_keys st" "\<not> card (seen_keys st) < ?N"
  proof -
    have "card (probe_keys ?N ?slots) = ?N" using that(2) le by (simp add: seen_keys_def)
    then have "\<forall>i < ?N. ?slots i \<noteq> None" using log_table.probe_full_card[OF inv] by blast
    then show ?thesis
      using log_table.probe_absent_full[of key ?slots] that(1)
      by (simp add: first_hit_def np_log_first_hit_def seen_keys_def)
  qed
qed

text \<open>
  What the callers rely on, as an interface: an operation that answers whether a key is new, a
  set of the keys it has accepted, and a capacity.
\<close>

locale first_seen =
  fixes hit :: "'s \<Rightarrow> 'k \<Rightarrow> bool \<times> 's" and keys :: "'s \<Rightarrow> 'k set"
    and inv :: "'s \<Rightarrow> bool" and cap :: nat
  assumes known: "inv s \<Longrightarrow> k \<in> keys s \<Longrightarrow> hit s k = (False, s)"
    and new: "inv s \<Longrightarrow> k \<notin> keys s \<Longrightarrow> card (keys s) < cap \<Longrightarrow>
      \<exists>s'. hit s k = (True, s') \<and> inv s' \<and> keys s' = insert k (keys s)"
    and full: "inv s \<Longrightarrow> k \<notin> keys s \<Longrightarrow> \<not> card (keys s) < cap \<Longrightarrow>
      \<exists>s'. hit s k = (False, s') \<and> inv s' \<and> keys s' = keys s"
begin

lemma hit_step:
  assumes "inv s"
  shows "fst (hit s k) \<longleftrightarrow> k \<notin> keys s \<and> card (keys s) < cap"
    and "inv (snd (hit s k))"
    and "keys (snd (hit s k)) = (if fst (hit s k) then insert k (keys s) else keys s)"
  using known[OF assms, of k] new[OF assms, of k] full[OF assms, of k] assms
  by (cases "k \<in> keys s"; cases "card (keys s) < cap"; force)+

end

interpretation log_hits: first_seen first_hit seen_keys seen_inv NP_SEEN_SLOTS
proof
  fix s k
  show "seen_inv s \<Longrightarrow> k \<in> seen_keys s \<Longrightarrow> first_hit s k = (False, s)"
    by (rule first_hit_cases(1))
  show "seen_inv s \<Longrightarrow> k \<notin> seen_keys s \<Longrightarrow> card (seen_keys s) < NP_SEEN_SLOTS \<Longrightarrow>
      \<exists>s'. first_hit s k = (True, s') \<and> seen_inv s' \<and> seen_keys s' = insert k (seen_keys s)"
    by (rule first_hit_cases(2))
  show "seen_inv s \<Longrightarrow> k \<notin> seen_keys s \<Longrightarrow> \<not> card (seen_keys s) < NP_SEEN_SLOTS \<Longrightarrow>
      \<exists>s'. first_hit s k = (False, s') \<and> seen_inv s' \<and> seen_keys s' = seen_keys s"
    using first_hit_cases(3)[of s k] by (simp add: seen_inv_def seen_keys_def)
qed

text \<open>A run of calls, one key after the other: the answers, in order.\<close>

fun hit_run :: "seen_table \<Rightarrow> log_key list \<Rightarrow> bool list" where
  "hit_run st [] = []"
| "hit_run st (k # ks) = (let (r, st', _) = np_log_first_hit st k in r # hit_run st' ks)"

lemma hit_run_Cons: "hit_run st (k # ks) = fst (first_hit st k) # hit_run (snd (first_hit st k)) ks"
  by (simp add: first_hit_def split: prod.splits)

fun first_uses :: "'k set \<Rightarrow> 'k list \<Rightarrow> bool list" where
  "first_uses seen [] = []"
| "first_uses seen (k # ks) = (k \<notin> seen) # first_uses (insert k seen) ks"

lemma hit_run_first_uses:
  "seen_inv st \<Longrightarrow> card (seen_keys st \<union> set ks) \<le> NP_SEEN_SLOTS \<Longrightarrow>
     hit_run st ks = first_uses (seen_keys st) ks"
proof (induction ks arbitrary: st)
  case (Cons k ks)
  let ?st' = "snd (first_hit st k)"
  note step = log_hits.hit_step[OF Cons.prems(1), of k]
  have fin: "finite (seen_keys st \<union> set (k # ks))"
    by (simp add: seen_keys_def finite_probe_keys)
  have room: "card (seen_keys st) < NP_SEEN_SLOTS" if "k \<notin> seen_keys st"
  proof -
    have "seen_keys st \<subset> seen_keys st \<union> set (k # ks)" using that by auto
    from psubset_card_mono[OF fin this] show ?thesis using Cons.prems(2) by simp
  qed
  have keys: "seen_keys ?st' = insert k (seen_keys st)" using step room by auto
  then have "hit_run ?st' ks = first_uses (insert k (seen_keys st)) ks"
    using Cons.IH[OF step(2)] Cons.prems(2) by simp
  then show ?case using step room by (auto simp: hit_run_Cons simp del: hit_run.simps)
qed simp

section \<open>Properties\<close>

text \<open>C38. The slot table refines a set of bounded size: from any table that keeps the probing
  invariant, a call answers 1 exactly for a key not yet in the set while the set holds fewer than
  8192 keys, adds precisely that key, and keeps the invariant.\<close>

theorem first_hit_refines_set:
  assumes "seen_inv st" "np_log_first_hit st key = (r, st', logged)"
  shows "r = (key \<notin> seen_keys st \<and> card (seen_keys st) < NP_SEEN_SLOTS) \<and> seen_inv st' \<and>
    seen_keys st' = (if r then insert key (seen_keys st) else seen_keys st)"
proof -
  have "first_hit st key = (r, st')" using assms(2) by (simp add: first_hit_def)
  with log_hits.hit_step[OF assms(1), of key] show ?thesis by simp
qed

theorem first_hit_refines_set_witness:
  "fst (np_log_first_hit seen_init (5, 0)) \<and>
   seen_keys (fst (snd (np_log_first_hit seen_init (5, 0)))) = {(5, 0)}"
proof -
  obtain r st' l where c: "np_log_first_hit seen_init (5, 0) = (r, st', l)"
    by (metis prod_cases3)
  from first_hit_refines_set[OF seen_init_ok(1) c] show ?thesis
    by (auto simp: c seen_init_ok NP_SEEN_SLOTS_def)
qed

text \<open>Over any run of calls from the empty table with at most 8192 distinct keys, the call
  answers 1 exactly at the first use of each key: every line is logged once, none is lost to a
  hash collision.\<close>

theorem dedupe_run_logs_each_key_once:
  assumes "card (set ks) \<le> NP_SEEN_SLOTS"
  shows "hit_run seen_init ks = first_uses {} ks"
  using hit_run_first_uses[OF seen_init_ok(1), of ks] assms by (simp add: seen_init_ok)

theorem dedupe_run_logs_each_key_once_witness:
  "hit_run seen_init [(1, 0), (1, 7), (1, 0)] = [True, True, False]"
  using dedupe_run_logs_each_key_once[of "[(1, 0), (1, 7), (1, 0)]"]
  by (simp add: NP_SEEN_SLOTS_def card_insert_if del: hit_run.simps)

end
