(* ===== verification/Pe.thy ===== *)
theory Pe
  imports NP_Prelude
begin

text \<open>
  The reader of Windows PE resources, \<^verbatim>\<open>dylib/util/pe.h\<close> and \<^verbatim>\<open>dylib/util/pe.c\<close>, over the
  bytes of a file. A \<open>uint32_t\<close> is a word; a \<open>size_t\<close> offset is a natural number, which is exact
  because every offset the code forms is a sum of a few 32-bit fields and stays below
  \<open>2\<^sup>3\<^sup>5\<close> (\<open>rva_off_bound\<close> bounds the largest of them). A function that returns 0 or 1 and writes
  through an out-parameter answers an option.
\<close>

section \<open>The view of a file and its reads\<close>

definition NP_PE_MAX_SECTIONS :: nat where "NP_PE_MAX_SECTIONS = 96"
definition NP_PE_MAX_ENTRIES :: nat where "NP_PE_MAX_ENTRIES = 512"
definition NP_RT_ICON :: u32 where "NP_RT_ICON = 3"
definition NP_RT_RCDATA :: u32 where "NP_RT_RCDATA = 10"
definition NP_RT_GROUP_ICON :: u32 where "NP_RT_GROUP_ICON = 14"

text \<open>\<open>p\<close> and \<open>n\<close> of the C struct are the bytes and their number.\<close>

record np_pe_view =
  pe_p :: "u8 list"
  pe_sects :: nat
  pe_nsects :: nat
  pe_rsrc_rva :: u32
  pe_rsrc :: nat

abbreviation pe_n :: "'a np_pe_view_scheme \<Rightarrow> nat" where
  "pe_n pe \<equiv> length (pe_p pe)"

definition np_pe_rd8 :: "np_pe_view \<Rightarrow> nat \<Rightarrow> u8 option" where
  "np_pe_rd8 pe off = (if off \<ge> pe_n pe then None else Some (pe_p pe ! off))"

definition np_pe_rd16 :: "np_pe_view \<Rightarrow> nat \<Rightarrow> u16 option" where
  "np_pe_rd16 pe off =
     (if pe_n pe < 2 \<or> off > pe_n pe - 2 then None
      else Some (le16 (pe_p pe ! off) (pe_p pe ! (off + 1))))"

definition np_pe_rd32 :: "np_pe_view \<Rightarrow> nat \<Rightarrow> u32 option" where
  "np_pe_rd32 pe off =
     (if pe_n pe < 4 \<or> off > pe_n pe - 4 then None
      else Some (le32 (pe_p pe ! off) (pe_p pe ! (off + 1)) (pe_p pe ! (off + 2))
                      (pe_p pe ! (off + 3))))"

section \<open>Sections and addresses\<close>

fun rva_off_loop :: "np_pe_view \<Rightarrow> u32 \<Rightarrow> nat list \<Rightarrow> nat option" where
  "rva_off_loop pe rva [] = None"
| "rva_off_loop pe rva (i # is) =
     (let s = pe_sects pe + i * 40 in
      case (np_pe_rd32 pe (s + 8), np_pe_rd32 pe (s + 12),
            np_pe_rd32 pe (s + 16), np_pe_rd32 pe (s + 20)) of
        (Some vsz, Some va, Some rsz, Some raw) \<Rightarrow>
          let span = (if vsz > rsz then vsz else rsz) in
          if rva \<ge> va \<and> unat rva < unat va + unat span
          then Some (unat raw + unat (rva - va))
          else rva_off_loop pe rva is
      | _ \<Rightarrow> None)"

definition np_pe_rva_off :: "np_pe_view \<Rightarrow> u32 \<Rightarrow> nat option" where
  "np_pe_rva_off pe rva = rva_off_loop pe rva [0..<pe_nsects pe]"

text \<open>
  Opening: the DOS and PE signatures, the optional header's flavour, the resource directory's
  address, the section table. The view before \<open>sects\<close> is known reads only bytes.
\<close>

definition np_pe_open :: "u8 list \<Rightarrow> np_pe_view option" where
  "np_pe_open p =
     (let pe = \<lparr>pe_p = p, pe_sects = 0, pe_nsects = 0, pe_rsrc_rva = 0, pe_rsrc = 0\<rparr> in
      case np_pe_rd16 pe 0 of None \<Rightarrow> None | Some mz \<Rightarrow>
      if mz \<noteq> 0x5A4D then None else
      case np_pe_rd32 pe 0x3C of None \<Rightarrow> None | Some peo32 \<Rightarrow>
      let peo = unat peo32 in
      case np_pe_rd32 pe peo of None \<Rightarrow> None | Some sig \<Rightarrow>
      if sig \<noteq> 0x00004550 then None else
      case (np_pe_rd16 pe (peo + 6), np_pe_rd16 pe (peo + 20), np_pe_rd16 pe (peo + 24)) of
        (Some nsects, Some opt_size, Some magic) \<Rightarrow>
          (case (if magic = 0x10B then Some (peo + 24 + 96, peo + 24 + 92)
                 else if magic = 0x20B then Some (peo + 24 + 112, peo + 24 + 108)
                 else None) of
             None \<Rightarrow> None
           | Some (dir_base, count_at) \<Rightarrow>
               (case np_pe_rd32 pe count_at of None \<Rightarrow> None | Some dir_count \<Rightarrow>
                if dir_count \<le> 2 then None else
                case np_pe_rd32 pe (dir_base + 16) of None \<Rightarrow> None | Some rsrc_rva \<Rightarrow>
                if rsrc_rva = 0 then None else
                if unat nsects = 0 \<or> unat nsects > NP_PE_MAX_SECTIONS then None else
                let sects = peo + 24 + unat opt_size in
                if sects > pe_n pe \<or> (pe_n pe - sects) div 40 < unat nsects then None else
                let pe' = pe\<lparr>pe_sects := sects, pe_nsects := unat nsects,
                             pe_rsrc_rva := rsrc_rva\<rparr> in
                map_option (\<lambda>rsrc. pe'\<lparr>pe_rsrc := rsrc\<rparr>) (np_pe_rva_off pe' rsrc_rva)))
      | _ \<Rightarrow> None)"

section \<open>The resource directory\<close>

text \<open>A resource's name is UTF-16 behind its length; \<open>name\<close> holds the bytes of the C string.\<close>

fun name_is_loop :: "np_pe_view \<Rightarrow> nat \<Rightarrow> u8 list \<Rightarrow> nat list \<Rightarrow> bool" where
  "name_is_loop pe at name [] = True"
| "name_is_loop pe at name (k # ks) =
     (case np_pe_rd16 pe (at + 2 + 2 * k) of
        None \<Rightarrow> False
      | Some c \<Rightarrow> if c \<noteq> ucast (name ! k) then False else name_is_loop pe at name ks)"

definition name_is :: "np_pe_view \<Rightarrow> nat \<Rightarrow> u8 list \<Rightarrow> bool" where
  "name_is pe at name =
     (case np_pe_rd16 pe at of
        None \<Rightarrow> False
      | Some len \<Rightarrow> if unat len \<noteq> length name then False
          else name_is_loop pe at name [0..<unat len])"

fun dir_find_loop ::
  "np_pe_view \<Rightarrow> nat \<Rightarrow> u32 \<Rightarrow> u8 list option \<Rightarrow> nat list \<Rightarrow> u32 option" where
  "dir_find_loop pe dir ident name [] = None"
| "dir_find_loop pe dir ident name (i # is) =
     (let e = dir + 16 + i * 8 in
      case (np_pe_rd32 pe e, np_pe_rd32 pe (e + 4)) of
        (Some key, Some off) \<Rightarrow>
          let is_named = (key AND 0x80000000 \<noteq> 0) in
          if (case name of
                Some nm \<Rightarrow> is_named \<and> name_is pe (pe_rsrc pe + unat (key AND 0x7FFFFFFF)) nm
              | None \<Rightarrow> \<not> is_named \<and> key = ident)
          then Some off
          else dir_find_loop pe dir ident name is
      | _ \<Rightarrow> None)"

definition np_pe_dir_find :: "np_pe_view \<Rightarrow> nat \<Rightarrow> u32 \<Rightarrow> u8 list option \<Rightarrow> u32 option" where
  "np_pe_dir_find pe dir ident name =
     (case (np_pe_rd16 pe (dir + 12), np_pe_rd16 pe (dir + 14)) of
        (Some named, Some ids) \<Rightarrow>
          let total = unat named + unat ids;
              total = (if total > NP_PE_MAX_ENTRIES then NP_PE_MAX_ENTRIES else total)
          in dir_find_loop pe dir ident name [0..<total]
      | _ \<Rightarrow> None)"

text \<open>The data of a named RCDATA resource in its first language: offset and size.\<close>

definition np_pe_rcdata :: "np_pe_view \<Rightarrow> u8 list \<Rightarrow> (nat \<times> u32) option" where
  "np_pe_rcdata pe name =
     (case np_pe_dir_find pe (pe_rsrc pe) NP_RT_RCDATA None of None \<Rightarrow> None | Some type \<Rightarrow>
      if type AND 0x80000000 = 0 then None else
      case np_pe_dir_find pe (pe_rsrc pe + unat (type AND 0x7FFFFFFF)) 0 (Some name) of
        None \<Rightarrow> None | Some entry \<Rightarrow>
      if entry AND 0x80000000 = 0 then None else
      let langs = pe_rsrc pe + unat (entry AND 0x7FFFFFFF) in
      case (np_pe_rd16 pe (langs + 12), np_pe_rd16 pe (langs + 14)) of
        (Some named, Some ids) \<Rightarrow>
          if unat named + unat ids = 0 then None else
          (case np_pe_rd32 pe (langs + 16 + 4) of None \<Rightarrow> None | Some lang \<Rightarrow>
           if lang AND 0x80000000 \<noteq> 0 then None else
           let data = pe_rsrc pe + unat lang in
           case (np_pe_rd32 pe data, np_pe_rd32 pe (data + 4)) of
             (Some rva, Some sz) \<Rightarrow>
               (case np_pe_rva_off pe rva of None \<Rightarrow> None | Some at \<Rightarrow>
                if at > pe_n pe \<or> pe_n pe - at < unat sz then None else Some (at, sz))
           | _ \<Rightarrow> None)
      | _ \<Rightarrow> None)"

section \<open>Lemmas: reads and the section table\<close>

lemma rd32_some: "off + 4 \<le> pe_n pe \<Longrightarrow> np_pe_rd32 pe off \<noteq> None"
  by (auto simp: np_pe_rd32_def)

lemma rd_in_bounds:
  "np_pe_rd8 pe off = Some x \<Longrightarrow> off + 1 \<le> pe_n pe"
  "np_pe_rd16 pe off = Some y \<Longrightarrow> off + 2 \<le> pe_n pe"
  "np_pe_rd32 pe off = Some z \<Longrightarrow> off + 4 \<le> pe_n pe"
  by (auto simp: np_pe_rd8_def np_pe_rd16_def np_pe_rd32_def split: if_splits)

text \<open>A section header, and the section an address falls in.\<close>

record pe_section =
  s_vsz :: u32
  s_va :: u32
  s_rsz :: u32
  s_raw :: u32

definition pe_section_at :: "np_pe_view \<Rightarrow> nat \<Rightarrow> pe_section" where
  "pe_section_at pe i = (let s = pe_sects pe + i * 40 in
     \<lparr>s_vsz = the (np_pe_rd32 pe (s + 8)), s_va = the (np_pe_rd32 pe (s + 12)),
      s_rsz = the (np_pe_rd32 pe (s + 16)), s_raw = the (np_pe_rd32 pe (s + 20))\<rparr>)"

definition in_section :: "u32 \<Rightarrow> pe_section \<Rightarrow> bool" where
  "in_section rva s \<longleftrightarrow> unat (s_va s) \<le> unat rva \<and>
     unat rva < unat (s_va s) + max (unat (s_vsz s)) (unat (s_rsz s))"

definition sections_fit :: "np_pe_view \<Rightarrow> bool" where
  "sections_fit pe \<longleftrightarrow> pe_sects pe + 40 * pe_nsects pe \<le> pe_n pe"

lemma rva_off_loop_find:
  assumes "\<forall>i \<in> set is. pe_sects pe + i * 40 + 40 \<le> pe_n pe"
  shows "rva_off_loop pe rva is =
    (case find (in_section rva) (map (pe_section_at pe) is) of
       None \<Rightarrow> None
     | Some s \<Rightarrow> Some (unat (s_raw s) + (unat rva - unat (s_va s))))"
  using assms
proof (induction "is")
  case (Cons i "is")
  let ?s = "pe_sects pe + i * 40"
  obtain vsz va rsz raw where rd: "np_pe_rd32 pe (?s + 8) = Some vsz"
    "np_pe_rd32 pe (?s + 12) = Some va" "np_pe_rd32 pe (?s + 16) = Some rsz"
    "np_pe_rd32 pe (?s + 20) = Some raw"
    using Cons.prems rd32_some[of "?s + 8" pe] rd32_some[of "?s + 12" pe]
      rd32_some[of "?s + 16" pe] rd32_some[of "?s + 20" pe] by auto
  have sec: "pe_section_at pe i = \<lparr>s_vsz = vsz, s_va = va, s_rsz = rsz, s_raw = raw\<rparr>"
    by (simp add: pe_section_at_def rd)
  have "rva \<ge> va \<and> unat rva < unat va + unat (if vsz > rsz then vsz else rsz)
      \<longleftrightarrow> in_section rva (pe_section_at pe i)"
    by (auto simp: sec in_section_def word_le_nat_alt word_less_nat_alt max_def)
  moreover have "unat (rva - va) = unat rva - unat va" if "rva \<ge> va"
    using that by (simp add: unat_sub)
  ultimately show ?case
    using Cons by (auto simp: rd sec Let_def)
qed simp

lemma rva_off_find:
  assumes "sections_fit pe"
  shows "np_pe_rva_off pe rva =
    (case find (in_section rva) (map (pe_section_at pe) [0..<pe_nsects pe]) of
       None \<Rightarrow> None
     | Some s \<Rightarrow> Some (unat (s_raw s) + (unat rva - unat (s_va s))))"
  unfolding np_pe_rva_off_def
  by (rule rva_off_loop_find) (use assms in \<open>auto simp: sections_fit_def\<close>)

lemma unat_u32_less: "unat (x :: u32) < 4294967296"
  using unsigned_less[of x] by simp

lemma rva_off_loop_bound: "rva_off_loop pe rva is = Some off \<Longrightarrow> off < 2 ^ 33"
proof (induction "is")
  case (Cons i "is")
  have "unat (x :: u32) + unat (y :: u32) < 8589934592" for x y
    using unat_u32_less[of x] unat_u32_less[of y] by linarith
  with Cons show ?case by (auto simp: Let_def split: option.splits if_splits)
qed simp

lemma rva_off_bound: "np_pe_rva_off pe rva = Some off \<Longrightarrow> off < 2 ^ 33"
  unfolding np_pe_rva_off_def by (rule rva_off_loop_bound)

text \<open>The section search reads neither field that opening sets last.\<close>

lemma rva_off_rsrc:
  assumes "np_pe_rva_off \<lparr>pe_p = p, pe_sects = a, pe_nsects = b, pe_rsrc_rva = c, pe_rsrc = 0\<rparr> rva = y"
  shows "np_pe_rva_off \<lparr>pe_p = p, pe_sects = a, pe_nsects = b, pe_rsrc_rva = c, pe_rsrc = r\<rparr> rva = y"
proof -
  let ?v = "\<lambda>r. \<lparr>pe_p = p, pe_sects = a, pe_nsects = b, pe_rsrc_rva = c, pe_rsrc = r\<rparr>"
  have "rva_off_loop (?v r) rva is = rva_off_loop (?v 0) rva is" for "is"
    by (induction "is") (simp_all add: np_pe_rd32_def Let_def)
  with assms show ?thesis by (simp add: np_pe_rva_off_def)
qed

lemma pe_open_ok:
  assumes "np_pe_open p = Some pe"
  shows "pe_p pe = p" "sections_fit pe" "0 < pe_nsects pe" "pe_nsects pe \<le> NP_PE_MAX_SECTIONS"
    "pe_rsrc_rva pe \<noteq> 0" "np_pe_rva_off pe (pe_rsrc_rva pe) = Some (pe_rsrc pe)"
proof -
  let ?v = "\<lambda>a b c r. \<lparr>pe_p = p, pe_sects = a, pe_nsects = b, pe_rsrc_rva = c, pe_rsrc = r\<rparr>"
  from assms obtain a b c r where pe: "pe = ?v a b c r" and n: "0 < b" "b \<le> NP_PE_MAX_SECTIONS"
    and fit: "a \<le> length p" "\<not> (length p - a) div 40 < b" and c: "c \<noteq> 0"
    and r: "np_pe_rva_off (?v a b c 0) c = Some r"
    unfolding np_pe_open_def Let_def
    by (auto split: option.split_asm if_split_asm prod.split_asm)
  have "b * 40 \<le> length p - a" using fit(2) by (simp add: not_less less_eq_div_iff_mult_less_eq)
  then show "sections_fit pe" using fit(1) by (simp add: pe sections_fit_def)
  show "np_pe_rva_off pe (pe_rsrc_rva pe) = Some (pe_rsrc pe)"
    using rva_off_rsrc[OF r] by (simp add: pe)
  show "pe_p pe = p" "0 < pe_nsects pe" "pe_nsects pe \<le> NP_PE_MAX_SECTIONS" "pe_rsrc_rva pe \<noteq> 0"
    using n c by (simp_all add: pe)
qed

section \<open>A file to evaluate on\<close>

text \<open>
  One section at address 4096, file offset 208, and a resource tree with an icon, its group and an
  RCDATA entry named \<open>A\<close> that holds two bytes.
\<close>

definition sample_pe :: "u8 list" where
  "sample_pe =
     [77, 90] @ replicate 58 0 @ [64, 0, 0, 0, 80, 69, 0, 0, 0, 0, 1] @ replicate 17 0 @ [11, 1]
     @ replicate 7 0 @ [2, 0, 0, 0, 16, 0, 0, 0, 2, 0, 0, 208] @ replicate 71 0 @ [16] @
     replicate 20 0 @ [16] @ replicate 20 0 @ [3, 0, 3, 0, 0, 0, 40, 0, 0, 128, 10, 0, 0, 0, 88,
     0, 0, 128, 14, 0, 0, 0, 64, 0, 0, 128] @ replicate 14 0 @ [1, 0, 1, 0, 0, 0, 136] @
     replicate 17 0 @ [1, 0, 1, 0, 0, 0, 144] @ replicate 15 0 @ [1, 0, 0, 0, 160, 0, 0, 128,
     112, 0, 0, 128] @ replicate 14 0 @ [1, 0, 0, 0, 0, 0, 152, 0, 0, 0, 184, 16, 0, 0, 3, 0, 0,
     0, 164, 16, 0, 0, 20, 0, 0, 0, 187, 16, 0, 0, 2, 0, 0, 0, 1, 0, 65, 0, 0, 0, 1, 0, 1, 0, 16,
     16, 0, 0, 1, 0, 32, 0, 3, 0, 0, 0, 1, 0, 7, 8, 9, 72, 105]"

definition sample_view :: np_pe_view where
  "sample_view = \<lparr>pe_p = sample_pe, pe_sects = 88, pe_nsects = 1, pe_rsrc_rva = 4096, pe_rsrc = 208\<rparr>"

lemma sample_open: "np_pe_open sample_pe = Some sample_view"
  by code_simp

section \<open>Properties\<close>

text \<open>In an opened file the section table lies inside the file and has 1 to 96 entries, the
  resource address is set and mapped, and every address is mapped by the first section that
  contains it: the offset is the section's raw offset plus the distance into it.\<close>

theorem opened_rva_off:
  assumes "np_pe_open p = Some pe"
  shows "pe_p pe = p \<and> pe_sects pe + 40 * pe_nsects pe \<le> length p \<and>
    0 < pe_nsects pe \<and> pe_nsects pe \<le> NP_PE_MAX_SECTIONS \<and>
    np_pe_rva_off pe (pe_rsrc_rva pe) = Some (pe_rsrc pe) \<and>
    np_pe_rva_off pe rva =
      (case find (in_section rva) (map (pe_section_at pe) [0..<pe_nsects pe]) of
         None \<Rightarrow> None
       | Some s \<Rightarrow> Some (unat (s_raw s) + (unat rva - unat (s_va s))))"
  using pe_open_ok[OF assms] rva_off_find[of pe rva] by (simp add: sections_fit_def)

theorem opened_rva_off_witness:
  "np_pe_rva_off sample_view 0x1010 = Some 224 \<and> np_pe_rva_off sample_view 0x1200 = None"
proof -
  have h: "pe_section_at sample_view 0 = \<lparr>s_vsz = 0x200, s_va = 0x1000, s_rsz = 0x200, s_raw = 208\<rparr>"
    by code_simp
  show ?thesis
    using opened_rva_off[OF sample_open, of "0x1010"] opened_rva_off[OF sample_open, of "0x1200"]
    by (simp add: sample_view_def[THEN arg_cong, of pe_nsects] h in_section_def)
qed

lemma name_is_loop_all:
  "name_is_loop pe at name ks \<longleftrightarrow>
     (\<forall>k \<in> set ks. np_pe_rd16 pe (at + 2 + 2 * k) = Some (ucast (name ! k)))"
  by (induction ks) (auto split: option.splits)

lemma name_is_iff:
  "name_is pe at name \<longleftrightarrow> (\<exists>len. np_pe_rd16 pe at = Some len \<and> unat len = length name) \<and>
     (\<forall>k < length name. np_pe_rd16 pe (at + 2 + 2 * k) = Some (ucast (name ! k)))"
  by (auto simp: name_is_def name_is_loop_all split: option.splits)

text \<open>Entry \<open>i\<close> of a directory: its key and target.\<close>

definition dir_entry :: "np_pe_view \<Rightarrow> nat \<Rightarrow> nat \<Rightarrow> u32 \<times> u32" where
  "dir_entry pe dir i =
     (the (np_pe_rd32 pe (dir + 16 + i * 8)), the (np_pe_rd32 pe (dir + 16 + i * 8 + 4)))"

definition entry_matches :: "np_pe_view \<Rightarrow> u32 \<Rightarrow> u8 list option \<Rightarrow> u32 \<times> u32 \<Rightarrow> bool" where
  "entry_matches pe ident name = (\<lambda>(key, _). case name of
     Some nm \<Rightarrow> key AND 0x80000000 \<noteq> 0 \<and> name_is pe (pe_rsrc pe + unat (key AND 0x7FFFFFFF)) nm
   | None \<Rightarrow> key AND 0x80000000 = 0 \<and> key = ident)"

lemma dir_find_loop_find:
  assumes "\<forall>i \<in> set is. dir + 16 + i * 8 + 8 \<le> pe_n pe"
  shows "dir_find_loop pe dir ident name is =
    map_option snd (find (entry_matches pe ident name) (map (dir_entry pe dir) is))"
  using assms
proof (induction "is")
  case (Cons i "is")
  let ?e = "dir + 16 + i * 8"
  obtain key off where "np_pe_rd32 pe ?e = Some key" "np_pe_rd32 pe (?e + 4) = Some off"
    using Cons.prems rd32_some[of ?e pe] rd32_some[of "?e + 4" pe] by auto
  with Cons show ?case
    by (auto simp: dir_entry_def entry_matches_def Let_def split: option.splits)
qed simp

text \<open>In a resource directory that lies inside the file, the search answers the target of the
  first of its (at most 512) entries whose identifier, or whose UTF-16 name, is the one asked for.\<close>

theorem dir_find_first:
  assumes "np_pe_rd16 pe (dir + 12) = Some named" and "np_pe_rd16 pe (dir + 14) = Some ids"
    and "cnt = min (unat named + unat ids) NP_PE_MAX_ENTRIES"
    and "dir + 16 + cnt * 8 \<le> pe_n pe"
  shows "np_pe_dir_find pe dir ident name =
    map_option snd (find (entry_matches pe ident name) (map (dir_entry pe dir) [0..<cnt]))"
proof -
  have "np_pe_dir_find pe dir ident name = dir_find_loop pe dir ident name [0..<cnt]"
    using assms(1-3) by (simp add: np_pe_dir_find_def min_def)
  also have "\<dots> = map_option snd (find (entry_matches pe ident name) (map (dir_entry pe dir) [0..<cnt]))"
    by (rule dir_find_loop_find) (use assms(4) in auto)
  finally show ?thesis .
qed

theorem dir_find_first_witness:
  "np_pe_dir_find sample_view 208 NP_RT_GROUP_ICON None =
     map_option snd (find (entry_matches sample_view NP_RT_GROUP_ICON None)
       (map (dir_entry sample_view 208) [0..<3]))
   \<and> np_pe_dir_find sample_view 208 NP_RT_GROUP_ICON None = Some 0x80000040"
proof -
  have named: "np_pe_rd16 sample_view (208 + 12) = Some 0" by code_simp
  have ids: "np_pe_rd16 sample_view (208 + 14) = Some 3" by code_simp
  have cnt: "3 = min (unat (0 :: u16) + unat (3 :: u16)) NP_PE_MAX_ENTRIES" by code_simp
  have fits: "208 + 16 + 3 * 8 \<le> pe_n sample_view" by code_simp
  have "np_pe_dir_find sample_view 208 NP_RT_GROUP_ICON None = Some 0x80000040" by code_simp
  with dir_find_first[OF named ids cnt fits, of NP_RT_GROUP_ICON None] show ?thesis by blast
qed

text \<open>What is found as the data of an RCDATA resource lies inside the file, at the offset of an
  address that a section maps.\<close>

theorem rcdata_in_file:
  assumes "np_pe_rcdata pe name = Some (at, sz)"
  shows "at + unat sz \<le> pe_n pe \<and> (\<exists>rva. np_pe_rva_off pe rva = Some at) \<and>
    (\<exists>type. np_pe_dir_find pe (pe_rsrc pe) NP_RT_RCDATA None = Some type \<and>
       (\<exists>entry. np_pe_dir_find pe (pe_rsrc pe + unat (type AND 0x7FFFFFFF)) 0 (Some name) = Some entry))"
  using assms by (auto simp: np_pe_rcdata_def Let_def split: option.split_asm if_split_asm)

theorem rcdata_in_file_witness:
  "np_pe_rcdata sample_view [65] = Some (395, 2) \<and> 395 + unat (2 :: u32) \<le> pe_n sample_view"
proof -
  have "np_pe_rcdata sample_view [65] = Some (395, 2)" by code_simp
  with rcdata_in_file[OF this] show ?thesis by simp
qed

end
