(* ===== verification/Pe_Icon.thy ===== *)
theory Pe_Icon
  imports Pe
begin

text \<open>
  The icon extractor of \<^verbatim>\<open>dylib/util/peicon.c\<close>: it walks the resource tree of a PE file under
  three limits (depth, leaves, visits), picks the lowest icon group, collects the group's images
  and writes an ICO file. The output buffer is modelled as memory: \<open>malloc\<close> gives unset cells, a
  write past the end or a read outside the file is \<open>Fault\<close>. The lemmas show that neither happens,
  that no cell stays unset, and that each directory entry of the result points at its image.
  \<open>malloc\<close> and \<open>calloc\<close> are taken to succeed (where they fail the code answers as for no icon).
\<close>

section \<open>Walking the resource tree\<close>

definition NP_PE_MAX_LEAVES :: nat where "NP_PE_MAX_LEAVES = 4096"
definition NP_PE_MAX_IMAGE :: nat where "NP_PE_MAX_IMAGE = 16 * 1024 * 1024"
definition NP_PE_MAX_DEPTH :: nat where "NP_PE_MAX_DEPTH = 3"
definition NP_PE_MAX_VISITS :: nat where "NP_PE_MAX_VISITS = 65536"
definition NP_PE_MAX_ICO :: nat where "NP_PE_MAX_ICO = 32 * 1024 * 1024"
definition NP_PE_MAX_ICO_IMGS :: nat where "NP_PE_MAX_ICO_IMGS = 64"

record np_leaf =
  lf_type :: u32
  lf_id :: u32
  lf_rva :: u32
  lf_size :: u32

text \<open>The leaves found so far, in the order of the array, and the visits left.\<close>

record np_pe =
  pe_view :: np_pe_view
  pe_leaves :: "np_leaf list"
  pe_visits :: nat

abbreviation nleaves :: "np_pe \<Rightarrow> nat" where
  "nleaves pe \<equiv> length (pe_leaves pe)"

text \<open>\<open>walk\<close> reads a directory's header, \<open>walk_loop\<close> is its loop over the entries.\<close>

function (sequential) walk :: "np_pe \<Rightarrow> nat \<Rightarrow> nat \<Rightarrow> nat \<Rightarrow> u32 \<Rightarrow> u32 \<Rightarrow> np_pe"
  and walk_loop :: "np_pe \<Rightarrow> nat \<Rightarrow> nat \<Rightarrow> nat \<Rightarrow> u32 \<Rightarrow> u32 \<Rightarrow> nat list \<Rightarrow> np_pe" where
  "walk pe base node depth type ident =
     (if depth \<ge> NP_PE_MAX_DEPTH \<or> nleaves pe \<ge> NP_PE_MAX_LEAVES then pe
      else case (np_pe_rd16 (pe_view pe) (node + 12), np_pe_rd16 (pe_view pe) (node + 14)) of
        (Some named, Some ids) \<Rightarrow>
          let total = unat named + unat ids;
              total = (if total > NP_PE_MAX_ENTRIES then NP_PE_MAX_ENTRIES else total)
          in walk_loop pe base node depth type ident [0..<total]
      | _ \<Rightarrow> pe)"
| "walk_loop pe base node depth type ident [] = pe"
| "walk_loop pe base node depth type ident (i # is) =
     (if pe_visits pe = 0 then pe
      else let pe = pe\<lparr>pe_visits := pe_visits pe - 1\<rparr>; entry = node + 16 + i * 8 in
      case (np_pe_rd32 (pe_view pe) entry, np_pe_rd32 (pe_view pe) (entry + 4)) of
        (Some name_field, Some off_field) \<Rightarrow>
          let rtype = (if depth = 0 then name_field else type);
              rid = (if depth = 1 then name_field else ident) in
          if off_field AND 0x80000000 \<noteq> 0
          then let pe = walk pe base (base + unat (off_field AND 0x7FFFFFFF)) (depth + 1) rtype rid in
               if nleaves pe \<ge> NP_PE_MAX_LEAVES then pe
               else walk_loop pe base node depth type ident is
          else let at = base + unat off_field in
               (case (np_pe_rd32 (pe_view pe) at, np_pe_rd32 (pe_view pe) (at + 4)) of
                  (Some rva, Some sz) \<Rightarrow>
                    let leaf = \<lparr>lf_type = rtype, lf_id = rid, lf_rva = rva, lf_size = sz\<rparr>;
                        pe = pe\<lparr>pe_leaves := pe_leaves pe @ [leaf]\<rparr> in
                    if nleaves pe \<ge> NP_PE_MAX_LEAVES then pe
                    else walk_loop pe base node depth type ident is
                | _ \<Rightarrow> pe)
      | _ \<Rightarrow> pe)"
  by pat_completeness auto
termination
  by (relation "measures
      [\<lambda>x. case x of Inl (_, _, _, d, _) \<Rightarrow> if d \<ge> NP_PE_MAX_DEPTH then 0 else 2 * (NP_PE_MAX_DEPTH - d)
                   | Inr (_, _, _, d, _) \<Rightarrow> if d \<ge> NP_PE_MAX_DEPTH then 1 else 2 * (NP_PE_MAX_DEPTH - d) - 1,
       \<lambda>x. case x of Inl _ \<Rightarrow> 0 | Inr (_, _, _, _, _, _, is) \<Rightarrow> length is]")
    (auto simp: NP_PE_MAX_DEPTH_def)

section \<open>Picking the images\<close>

text \<open>A pointer into the array of leaves is its index.\<close>

fun lowest_group_loop :: "np_leaf option \<Rightarrow> np_leaf list \<Rightarrow> np_leaf option" where
  "lowest_group_loop best [] = best"
| "lowest_group_loop best (l # ls) =
     (if lf_type l \<noteq> NP_RT_GROUP_ICON then lowest_group_loop best ls
      else case best of
        None \<Rightarrow> lowest_group_loop (Some l) ls
      | Some b \<Rightarrow> lowest_group_loop (if lf_id l < lf_id b then Some l else Some b) ls)"

definition lowest_group :: "np_pe \<Rightarrow> np_leaf option" where
  "lowest_group pe = lowest_group_loop None (pe_leaves pe)"

fun image_with_id_loop :: "u32 \<Rightarrow> nat \<Rightarrow> np_leaf list \<Rightarrow> nat option" where
  "image_with_id_loop ident i [] = None"
| "image_with_id_loop ident i (l # ls) =
     (if lf_type l = NP_RT_ICON \<and> lf_id l = ident then Some i
      else image_with_id_loop ident (Suc i) ls)"

definition image_with_id :: "np_pe \<Rightarrow> u32 \<Rightarrow> nat option" where
  "image_with_id pe ident = image_with_id_loop ident 0 (pe_leaves pe)"

definition put_u16 :: "u16 \<Rightarrow> u8 list" where
  "put_u16 v = [ucast (v AND 0xFF), ucast (drop_bit 8 v)]"

definition put_u32 :: "u32 \<Rightarrow> u8 list" where
  "put_u32 v = [ucast (v AND 0xFF), ucast (drop_bit 8 v AND 0xFF),
     ucast (drop_bit 16 v AND 0xFF), ucast (drop_bit 24 v AND 0xFF)]"

text \<open>
  The loop over the group's entries: the leaves picked so far, their 16-byte records (the last
  four bytes, the offset, still zero from \<open>calloc\<close>) and the payload's size. \<open>break\<close> ends it.
\<close>

fun pick_loop ::
  "np_pe \<Rightarrow> nat \<Rightarrow> nat list \<Rightarrow> nat list \<Rightarrow> u8 list list \<Rightarrow> nat \<Rightarrow> nat list \<times> u8 list list \<times> nat" where
  "pick_loop pe group_at [] picked records payload = (picked, records, payload)"
| "pick_loop pe group_at (i # is) picked records payload =
     (let e = group_at + 6 + i * 14; v = pe_view pe;
          continue = pick_loop pe group_at is picked records payload in
      case (np_pe_rd8 v e, np_pe_rd8 v (e + 1), np_pe_rd8 v (e + 2),
            np_pe_rd16 v (e + 4), np_pe_rd16 v (e + 6), np_pe_rd16 v (e + 12)) of
        (Some w, Some h, Some colors, Some planes, Some bits, Some ident) \<Rightarrow>
          (case image_with_id pe (ucast ident) of None \<Rightarrow> continue | Some k \<Rightarrow>
           let img = pe_leaves pe ! k; sz = unat (lf_size img) in
           if sz = 0 \<or> sz > NP_PE_MAX_IMAGE then continue else
           case np_pe_rva_off v (lf_rva img) of None \<Rightarrow> continue | Some at \<Rightarrow>
           if pe_n v < sz \<or> at > pe_n v - sz then continue else
           if k \<in> set picked then continue else
           if sz > NP_PE_MAX_ICO - payload then (picked, records, payload)
           else pick_loop pe group_at is (picked @ [k])
                  (records @ [[w, h, colors, 0] @ put_u16 planes @ put_u16 bits @
                              put_u32 (lf_size img) @ [0, 0, 0, 0]])
                  (payload + sz))
      | _ \<Rightarrow> continue)"

section \<open>Writing the ICO file\<close>

datatype ico_result = Fault | NoIcon | Icon "u8 option list"

text \<open>Cells of the output buffer: \<open>None\<close> is unset. A write outside the buffer has no result.\<close>

definition write_at :: "u8 option list \<Rightarrow> nat \<Rightarrow> u8 list \<Rightarrow> u8 option list option" where
  "write_at buf at bs =
     (if at + length bs \<le> length buf
      then Some (take at buf @ map Some bs @ drop (at + length bs) buf) else None)"

definition read_span :: "u8 list \<Rightarrow> nat \<Rightarrow> nat \<Rightarrow> u8 list option" where
  "read_span p at n = (if at + n \<le> length p then Some (take n (drop at p)) else None)"

fun write_loop :: "np_pe \<Rightarrow> nat \<Rightarrow> (nat \<times> u8 list) list \<Rightarrow> nat \<Rightarrow> u8 option list \<Rightarrow> u8 option list option" where
  "write_loop pe i [] at ico = Some ico"
| "write_loop pe i ((k, rec) # rest) at ico =
     (let img = pe_leaves pe ! k; sz = unat (lf_size img); r = 6 + i * 16 in
      case write_at ico r rec of None \<Rightarrow> None | Some ico \<Rightarrow>
      case write_at ico (r + 12) (put_u32 (of_nat at)) of None \<Rightarrow> None | Some ico \<Rightarrow>
      case np_pe_rva_off (pe_view pe) (lf_rva img) of
        None \<Rightarrow> write_loop pe (Suc i) rest at ico
      | Some src \<Rightarrow>
          (case read_span (pe_p (pe_view pe)) src sz of None \<Rightarrow> None | Some bs \<Rightarrow>
           case write_at ico at bs of None \<Rightarrow> None | Some ico \<Rightarrow>
           write_loop pe (Suc i) rest (at + sz) ico))"

definition build_ico :: "np_pe \<Rightarrow> u32 \<Rightarrow> ico_result" where
  "build_ico pe rsrc_rva =
     (case np_pe_rva_off (pe_view pe) rsrc_rva of None \<Rightarrow> NoIcon | Some base \<Rightarrow>
      let pe = walk pe base base 0 0 0; v = pe_view pe in
      case lowest_group pe of None \<Rightarrow> NoIcon | Some grp \<Rightarrow>
      case np_pe_rva_off v (lf_rva grp) of None \<Rightarrow> NoIcon | Some group_at \<Rightarrow>
      let gsize = unat (lf_size grp) in
      if gsize < 6 then NoIcon else
      if pe_n v < gsize \<or> group_at > pe_n v - gsize then NoIcon else
      case np_pe_rd16 v (group_at + 4) of None \<Rightarrow> NoIcon | Some count \<Rightarrow>
      if count = 0 then NoIcon else
      if gsize < 6 + unat count * 14 then NoIcon else
      let count = (if unat count > NP_PE_MAX_ICO_IMGS then NP_PE_MAX_ICO_IMGS else unat count);
          (picked, records, payload) = pick_loop pe group_at [0..<count] [] [] 0;
          written = length picked in
      if written = 0 then NoIcon else
      let header = 6 + written * 16;
          total = header + payload;
          ico = replicate total None in
      case write_at ico 0 (put_u16 0 @ put_u16 1 @ put_u16 (of_nat written)) of
        None \<Rightarrow> Fault
      | Some ico \<Rightarrow>
          (case write_loop pe 0 (zip picked records) header ico of
             None \<Rightarrow> Fault | Some ico \<Rightarrow> Icon ico))"

definition icon_from_map :: "u8 list \<Rightarrow> ico_result" where
  "icon_from_map p =
     (case np_pe_open p of
        None \<Rightarrow> NoIcon
      | Some v \<Rightarrow> build_ico \<lparr>pe_view = v, pe_leaves = [], pe_visits = NP_PE_MAX_VISITS\<rparr> (pe_rsrc_rva v))"

section \<open>Lemmas: the walk\<close>

declare walk.simps [simp del] walk_loop.simps(2) [simp del]

text \<open>What the loop does with an entry: stop, descend, or add a leaf; then go on if there is room.\<close>

definition walk_next ::
  "np_pe \<Rightarrow> nat \<Rightarrow> nat \<Rightarrow> nat \<Rightarrow> u32 \<Rightarrow> u32 \<Rightarrow> nat list \<Rightarrow> np_pe" where
  "walk_next w base node depth type ident is =
     (if nleaves w \<ge> NP_PE_MAX_LEAVES then w else walk_loop w base node depth type ident is)"

lemma walk_loop_cases:
  assumes "pe_visits pe \<noteq> 0" and "pe1 = pe\<lparr>pe_visits := pe_visits pe - 1\<rparr>"
  obtains
    (stop) "walk_loop pe base node depth type ident (i # is) = pe1"
  | (dir) nd ty idt where "walk_loop pe base node depth type ident (i # is) =
      walk_next (walk pe1 base nd (Suc depth) ty idt) base node depth type ident is"
  | (leaf) l where "walk_loop pe base node depth type ident (i # is) =
      walk_next (pe1\<lparr>pe_leaves := pe_leaves pe1 @ [l]\<rparr>) base node depth type ident is"
proof -
  let ?v = "pe_view pe1" and ?e = "node + 16 + i * 8"
  have eq: "walk_loop pe base node depth type ident (i # is) =
    (case (np_pe_rd32 ?v ?e, np_pe_rd32 ?v (?e + 4)) of
       (Some nf, Some off) \<Rightarrow>
         if off AND 0x80000000 \<noteq> 0
         then walk_next (walk pe1 base (base + unat (off AND 0x7FFFFFFF)) (Suc depth)
                (if depth = 0 then nf else type) (if depth = 1 then nf else ident))
                base node depth type ident is
         else (case (np_pe_rd32 ?v (base + unat off), np_pe_rd32 ?v (base + unat off + 4)) of
             (Some rva, Some sz) \<Rightarrow>
               walk_next (pe1\<lparr>pe_leaves := pe_leaves pe1 @ [\<lparr>lf_type = if depth = 0 then nf else type,
                 lf_id = if depth = 1 then nf else ident, lf_rva = rva, lf_size = sz\<rparr>]\<rparr>)
                 base node depth type ident is
           | _ \<Rightarrow> pe1)
     | _ \<Rightarrow> pe1)"
    using assms by (simp only: walk_loop.simps(2) walk_next_def Let_def if_False Suc_eq_plus1)
  show ?thesis
  proof (cases "np_pe_rd32 ?v ?e"; cases "np_pe_rd32 ?v (?e + 4)")
    fix nf off assume rd: "np_pe_rd32 ?v ?e = Some nf" "np_pe_rd32 ?v (?e + 4) = Some off"
    show ?thesis
    proof (cases "off AND 0x80000000 \<noteq> 0")
      case True
      from dir show ?thesis using eq[unfolded rd] True by simp
    next
      case False
      show ?thesis
        by (cases "np_pe_rd32 ?v (base + unat off)"; cases "np_pe_rd32 ?v (base + unat off + 4)")
          (use eq[unfolded rd] False stop leaf in simp_all)
    qed
  qed (use eq stop in simp_all)
qed

text \<open>
  The walk changes its state in two ways only: an entry uses up a visit, and may then add one
  leaf. So a preorder on states that holds for these two steps holds across the whole walk.
\<close>

locale walk_preorder =
  fixes R :: "np_pe \<Rightarrow> np_pe \<Rightarrow> bool"
  assumes refl: "R pe pe"
    and trans: "R pe pe' \<Longrightarrow> R pe' pe'' \<Longrightarrow> R pe pe''"
    and visit: "pe_visits pe \<noteq> 0 \<Longrightarrow> R pe (pe\<lparr>pe_visits := pe_visits pe - 1\<rparr>)"
    and leaf: "pe_visits pe \<noteq> 0 \<Longrightarrow> nleaves pe < NP_PE_MAX_LEAVES \<Longrightarrow>
      R pe (pe\<lparr>pe_visits := pe_visits pe - 1, pe_leaves := pe_leaves pe @ [l]\<rparr>)"
begin

lemma loop_rel:
  assumes sub: "\<And>pe node type ident. R pe (walk pe base node (Suc depth) type ident)"
  shows "nleaves pe < NP_PE_MAX_LEAVES \<Longrightarrow> R pe (walk_loop pe base node depth type ident is)"
proof (induction "is" arbitrary: pe)
  case (Cons i "is")
  show ?case
  proof (cases "pe_visits pe = 0")
    case True
    then show ?thesis by (subst walk_loop.simps(2)) (simp add: refl)
  next
    case False
    let ?pe = "pe\<lparr>pe_visits := pe_visits pe - 1\<rparr>"
    note v = visit[OF False]
    have nxt: "R pe (walk_next w base node depth type ident is)" if "R pe w" for w
      using that Cons.IH[of w] by (auto simp: walk_next_def intro: trans)
    show ?thesis
    proof (cases rule: walk_loop_cases[OF False HOL.refl, of base node depth type ident i "is"])
      case 1
      then show ?thesis using v by simp
    next
      case (2 nd ty idt)
      then show ?thesis using nxt trans[OF v sub] by simp
    next
      case (3 l)
      then show ?thesis using nxt leaf[OF False Cons.prems, of l] by simp
    qed
  qed
qed (simp add: refl)

lemma walk_rel: "R pe (walk pe base node depth type ident)"
proof (induction "NP_PE_MAX_DEPTH - depth" arbitrary: depth pe node type ident)
  case 0
  then show ?case by (subst walk.simps) (simp add: refl)
next
  case (Suc k)
  then have "R pe (walk pe base node (Suc depth) type ident)" for pe node type ident
    by simp
  from loop_rel[OF this] show ?case
    by (subst walk.simps) (simp add: refl Let_def split: option.split)
qed

end

interpretation walk_keeps: walk_preorder
  "\<lambda>pe pe'. pe_view pe' = pe_view pe \<and>
     (nleaves pe \<le> NP_PE_MAX_LEAVES \<longrightarrow> nleaves pe' \<le> NP_PE_MAX_LEAVES) \<and>
     nleaves pe' + pe_visits pe' \<le> nleaves pe + pe_visits pe"
  by unfold_locales auto

section \<open>Lemmas: picking and writing\<close>

definition image_ok :: "np_pe \<Rightarrow> nat \<Rightarrow> bool" where
  "image_ok pe k \<longleftrightarrow> k < nleaves pe \<and> 0 < unat (lf_size (pe_leaves pe ! k)) \<and>
     unat (lf_size (pe_leaves pe ! k)) \<le> NP_PE_MAX_IMAGE \<and>
     (\<exists>src. np_pe_rva_off (pe_view pe) (lf_rva (pe_leaves pe ! k)) = Some src \<and>
        src + unat (lf_size (pe_leaves pe ! k)) \<le> pe_n (pe_view pe))"

definition image_size :: "np_pe \<Rightarrow> nat \<Rightarrow> nat" where
  "image_size pe k = unat (lf_size (pe_leaves pe ! k))"

definition record_ok :: "np_pe \<Rightarrow> nat \<Rightarrow> u8 list \<Rightarrow> bool" where
  "record_ok pe k r \<longleftrightarrow> length r = 16 \<and> take 4 (drop 8 r) = put_u32 (lf_size (pe_leaves pe ! k))"

definition pick_ok :: "np_pe \<Rightarrow> nat list \<times> u8 list list \<times> nat \<Rightarrow> bool" where
  "pick_ok pe = (\<lambda>(picked, records, payload). distinct picked \<and> list_all (image_ok pe) picked \<and>
     list_all2 (record_ok pe) picked records \<and> payload = sum_list (map (image_size pe) picked) \<and>
     payload \<le> NP_PE_MAX_ICO)"

lemma image_with_id_bound: "image_with_id pe ident = Some k \<Longrightarrow> k < nleaves pe"
proof -
  have "image_with_id_loop ident i ls = Some k \<Longrightarrow> k < i + length ls" for i ls
    by (induction ident i ls rule: image_with_id_loop.induct) (auto split: if_splits)
  then show "image_with_id pe ident = Some k \<Longrightarrow> k < nleaves pe"
    unfolding image_with_id_def by fastforce
qed

lemma put_lengths [simp]: "length (put_u16 v) = 2" "length (put_u32 w) = 4"
  by (simp_all add: put_u16_def put_u32_def)

lemma record_ok_entry:
  "record_ok pe k ([w, h, c, 0] @ put_u16 p @ put_u16 b @ put_u32 (lf_size (pe_leaves pe ! k)) @ [0, 0, 0, 0])"
  by (simp add: record_ok_def put_u16_def put_u32_def)

declare pick_loop.simps(2) [simp del]

lemma pick_loop_cases:
  obtains
    (continue) "pick_loop pe group_at (i # is) picked records payload =
      pick_loop pe group_at is picked records payload"
  | (break) "pick_loop pe group_at (i # is) picked records payload = (picked, records, payload)"
  | (pick) k r where "image_ok pe k" "k \<notin> set picked" "record_ok pe k r"
      "image_size pe k \<le> NP_PE_MAX_ICO - payload"
      "pick_loop pe group_at (i # is) picked records payload =
        pick_loop pe group_at is (picked @ [k]) (records @ [r]) (payload + image_size pe k)"
proof -
  let ?e = "group_at + 6 + i * 14" and ?v = "pe_view pe"
  let ?rest = "pick_loop pe group_at is picked records payload"
  show ?thesis
  proof (cases "np_pe_rd8 ?v ?e = None \<or> np_pe_rd8 ?v (?e + 1) = None \<or> np_pe_rd8 ?v (?e + 2) = None \<or>
      np_pe_rd16 ?v (?e + 4) = None \<or> np_pe_rd16 ?v (?e + 6) = None \<or> np_pe_rd16 ?v (?e + 12) = None")
    case True
    then have "pick_loop pe group_at (i # is) picked records payload = ?rest"
      by (subst pick_loop.simps(2)) (auto simp only: Let_def prod.case option.case split: option.split)
    then show ?thesis by (rule continue)
  next
    case False
    then obtain w h c p b ident where rd: "np_pe_rd8 ?v ?e = Some w" "np_pe_rd8 ?v (?e + 1) = Some h"
      "np_pe_rd8 ?v (?e + 2) = Some c" "np_pe_rd16 ?v (?e + 4) = Some p" "np_pe_rd16 ?v (?e + 6) = Some b"
      "np_pe_rd16 ?v (?e + 12) = Some ident"
      by (metis option.exhaust)
    show ?thesis
    proof (cases "image_with_id pe (ucast ident)")
      case None
      then have "pick_loop pe group_at (i # is) picked records payload = ?rest"
        by (subst pick_loop.simps(2)) (simp only: rd Let_def prod.case option.case)
      then show ?thesis by (rule continue)
    next
      case (Some k)
      let ?sz = "image_size pe k" and ?off = "np_pe_rva_off ?v (lf_rva (pe_leaves pe ! k))"
      let ?rec = "[w, h, c, 0] @ put_u16 p @ put_u16 b @ put_u32 (lf_size (pe_leaves pe ! k)) @ [0, 0, 0, 0]"
      have eq: "pick_loop pe group_at (i # is) picked records payload =
        (if ?sz = 0 \<or> ?sz > NP_PE_MAX_IMAGE then ?rest else
         case ?off of None \<Rightarrow> ?rest | Some at \<Rightarrow>
         if pe_n ?v < ?sz \<or> at > pe_n ?v - ?sz then ?rest else
         if k \<in> set picked then ?rest else
         if ?sz > NP_PE_MAX_ICO - payload then (picked, records, payload)
         else pick_loop pe group_at is (picked @ [k]) (records @ [?rec]) (payload + ?sz))"
        by (subst pick_loop.simps(2))
          (simp only: rd Some Let_def prod.case option.case image_size_def)
      show ?thesis
      proof (cases "?sz = 0 \<or> ?sz > NP_PE_MAX_IMAGE \<or> ?off = None \<or> k \<in> set picked \<or>
          (\<exists>at. ?off = Some at \<and> (pe_n ?v < ?sz \<or> at > pe_n ?v - ?sz))")
        case True
        then have "pick_loop pe group_at (i # is) picked records payload = ?rest"
          unfolding eq by (auto split: option.split)
        then show ?thesis by (rule continue)
      next
        case False
        then obtain at where at: "?off = Some at" "\<not> pe_n ?v < ?sz" "\<not> at > pe_n ?v - ?sz" by auto
        with False have ok: "image_ok pe k"
          using image_with_id_bound[OF Some] by (auto simp: image_ok_def image_size_def)
        show ?thesis
        proof (cases "?sz > NP_PE_MAX_ICO - payload")
          case True
          with False at show ?thesis by (intro break) (simp add: eq)
        next
          case no: False
          show ?thesis
            by (rule pick[of k ?rec])
              (use ok record_ok_entry False at no in \<open>auto simp: eq simp del: append.simps\<close>)
        qed
      qed
    qed
  qed
qed

lemma pick_loop_ok:
  "pick_ok pe (picked, records, payload) \<Longrightarrow>
     pick_ok pe (pick_loop pe group_at is picked records payload) \<and>
     length (fst (pick_loop pe group_at is picked records payload)) \<le> length picked + length is"
proof (induction "is" arbitrary: picked records payload)
  case (Cons i "is")
  have grow: "pick_ok pe (picked @ [k], records @ [r], payload + image_size pe k)"
    if "image_ok pe k" "k \<notin> set picked" "record_ok pe k r"
      "image_size pe k \<le> NP_PE_MAX_ICO - payload" for k r
    using Cons.prems that by (auto simp: pick_ok_def intro: list_all2_appendI)
  from pick_loop_cases[of pe group_at i "is" picked records payload] show ?case
  proof cases
    case continue
    then show ?thesis using Cons.IH[OF Cons.prems] by simp
  next
    case break
    then show ?thesis using Cons.prems by simp
  next
    case (pick k r)
    then show ?thesis using Cons.IH[OF grow[OF pick(1-4)]] pick(5) by simp
  qed
qed simp

text \<open>
  The format of the result: a header, one 16-byte entry for each image, the images. An entry
  ends with its image's size and its offset from the start of the file.
\<close>

fun ico_entries :: "nat \<Rightarrow> (u8 list \<times> u8 list) list \<Rightarrow> u8 list" where
  "ico_entries at [] = []"
| "ico_entries at ((h, d) # imgs) = h @ put_u32 (of_nat at) @ ico_entries (at + length d) imgs"

definition ico_bytes :: "(u8 list \<times> u8 list) list \<Rightarrow> u8 list" where
  "ico_bytes imgs = put_u16 0 @ put_u16 1 @ put_u16 (of_nat (length imgs)) @
     ico_entries (6 + 16 * length imgs) imgs @ concat (map snd imgs)"

text \<open>The image a picked leaf stands for: its record without the offset, and its bytes.\<close>

definition image_of :: "np_pe \<Rightarrow> nat \<times> u8 list \<Rightarrow> u8 list \<times> u8 list" where
  "image_of pe kr =
     (let img = pe_leaves pe ! fst kr;
          src = the (np_pe_rva_off (pe_view pe) (lf_rva img)) in
      (take 12 (snd kr), take (unat (lf_size img)) (drop src (pe_p (pe_view pe)))))"

lemma write_at_split:
  assumes "length bs = length B" "length A = at"
  shows "write_at (A @ B @ C) at bs = Some (A @ map Some bs @ C)"
  using assms by (simp add: write_at_def)

lemma write_loop_bytes:
  assumes "\<forall>(k, r) \<in> set krs. image_ok pe k \<and> length r = 16"
    and "length A = 6 + 16 * i" "length B = 16 * length krs" "length A + length B + length C = at"
    and "length D = sum_list (map (\<lambda>(k, r). image_size pe k) krs)"
  shows "write_loop pe i krs at (A @ B @ C @ D) =
    Some (A @ map Some (ico_entries at (map (image_of pe) krs)) @ C @
          map Some (concat (map (snd \<circ> image_of pe) krs)))"
  using assms
proof (induction krs arbitrary: i A B C D at)
  case (Cons kr krs)
  obtain k r where kr: "kr = (k, r)" by fastforce
  let ?img = "pe_leaves pe ! k"
  from Cons.prems(1) kr obtain src where ok: "length r = 16"
    "np_pe_rva_off (pe_view pe) (lf_rva ?img) = Some src"
    "src + unat (lf_size ?img) \<le> pe_n (pe_view pe)"
    by (auto simp: image_ok_def)
  define bs where "bs = take (unat (lf_size ?img)) (drop src (pe_p (pe_view pe)))"
  have bs: "length bs = image_size pe k" using ok(3) by (simp add: bs_def image_size_def)
  have img: "image_of pe kr = (take 12 r, bs)"
    by (simp add: image_of_def kr ok(2) bs_def)
  define B1 where "B1 = take 16 B"
  define B2 where "B2 = drop 16 B"
  define D1 where "D1 = take (image_size pe k) D"
  define D2 where "D2 = drop (image_size pe k) D"
  have B: "B = B1 @ B2" "length B1 = 16" "length B2 = 16 * length krs"
    using Cons.prems(3) by (simp_all add: B1_def B2_def)
  have D: "D = D1 @ D2" "length D1 = image_size pe k"
    "length D2 = sum_list (map (\<lambda>(k, r). image_size pe k) krs)"
    using Cons.prems(5) by (simp_all add: D1_def D2_def kr)
  have w1: "write_at (A @ B @ C @ D) (6 + i * 16) r = Some (A @ map Some r @ (B2 @ C @ D))"
    using write_at_split[of r B1 A "6 + i * 16" "B2 @ C @ D"] Cons.prems(2) ok(1) B by simp
  have r: "map Some r = map Some (take 12 r) @ map Some (drop 12 r)"
    by (metis append_take_drop_id map_append)
  have w2: "write_at (A @ map Some r @ (B2 @ C @ D)) (6 + i * 16 + 12) (put_u32 (of_nat at))
      = Some ((A @ map Some (take 12 r @ put_u32 (of_nat at))) @ B2 @ C @ D)"
    using write_at_split[of "put_u32 (of_nat at)" "map Some (drop 12 r)" "A @ map Some (take 12 r)"
        "6 + i * 16 + 12" "B2 @ C @ D"] Cons.prems(2) ok(1) r by simp
  have w3: "write_at ((A @ map Some (take 12 r @ put_u32 (of_nat at))) @ B2 @ C @ D) at bs
      = Some ((A @ map Some (take 12 r @ put_u32 (of_nat at))) @ B2 @ (C @ map Some bs) @ D2)"
    using write_at_split[of bs D1 "(A @ map Some (take 12 r @ put_u32 (of_nat at))) @ B2 @ C" at D2]
      Cons.prems(2-4) ok(1) B D bs by simp
  have rd: "read_span (pe_p (pe_view pe)) src (unat (lf_size ?img)) = Some bs"
    using ok(3) by (simp add: read_span_def bs_def)
  have "write_loop pe i (kr # krs) at (A @ B @ C @ D)
    = write_loop pe (Suc i) krs (at + image_size pe k)
        ((A @ map Some (take 12 r @ put_u32 (of_nat at))) @ B2 @ (C @ map Some bs) @ D2)"
    by (simp only: kr write_loop.simps Let_def w1 w2 w3 ok(2) rd option.case image_size_def)
  also have "\<dots> = Some ((A @ map Some (take 12 r @ put_u32 (of_nat at))) @
      map Some (ico_entries (at + image_size pe k) (map (image_of pe) krs)) @ (C @ map Some bs) @
      map Some (concat (map (snd \<circ> image_of pe) krs)))"
    by (rule Cons.IH) (use Cons.prems ok(1) B D bs in auto)
  finally show ?case by (simp add: img bs comp_def)
qed simp

definition image_record_ok :: "u8 list \<Rightarrow> u8 list \<times> u8 list \<Rightarrow> bool" where
  "image_record_ok p = (\<lambda>(h, d). length h = 12 \<and> drop 8 h = put_u32 (of_nat (length d)) \<and> d \<noteq> [] \<and>
     length d \<le> NP_PE_MAX_IMAGE \<and> (\<exists>src. src + length d \<le> length p \<and> d = take (length d) (drop src p)))"

lemma image_of_ok:
  assumes "image_ok pe k" "record_ok pe k r"
  shows "image_record_ok (pe_p (pe_view pe)) (image_of pe (k, r))"
    and "length (snd (image_of pe (k, r))) = image_size pe k"
proof -
  from assms(1) obtain src where src: "np_pe_rva_off (pe_view pe) (lf_rva (pe_leaves pe ! k)) = Some src"
    "src + unat (lf_size (pe_leaves pe ! k)) \<le> pe_n (pe_view pe)"
    and pos: "0 < unat (lf_size (pe_leaves pe ! k))" "unat (lf_size (pe_leaves pe ! k)) \<le> NP_PE_MAX_IMAGE"
    by (auto simp: image_ok_def)
  let ?d = "take (unat (lf_size (pe_leaves pe ! k))) (drop src (pe_p (pe_view pe)))"
  have img: "image_of pe (k, r) = (take 12 r, ?d)" by (simp add: image_of_def src(1))
  have d: "length ?d = unat (lf_size (pe_leaves pe ! k))" using src(2) by simp
  have "drop 8 (take 12 r) = put_u32 (lf_size (pe_leaves pe ! k))"
    using assms(2) by (simp add: record_ok_def drop_take)
  then show "image_record_ok (pe_p (pe_view pe)) (image_of pe (k, r))"
    using assms(2) d pos src(2) unfolding img image_record_ok_def
    by (auto simp: record_ok_def)
  show "length (snd (image_of pe (k, r))) = image_size pe k"
    using d by (simp add: img image_size_def)
qed

lemma pick_images:
  assumes "pick_ok pe (picked, records, payload)"
  defines "krs \<equiv> zip picked records"
  shows "\<forall>(k, r) \<in> set krs. image_ok pe k \<and> record_ok pe k r \<and> length r = 16"
    and "length krs = length picked"
    and "sum_list (map (\<lambda>(k, r). image_size pe k) krs) = payload"
proof -
  from assms(1) have ok: "list_all (image_ok pe) picked" "list_all2 (record_ok pe) picked records"
    and p: "payload = sum_list (map (image_size pe) picked)"
    by (auto simp: pick_ok_def)
  have len: "length picked = length records" using ok(2) by (rule list_all2_lengthD)
  show "\<forall>(k, r) \<in> set krs. image_ok pe k \<and> record_ok pe k r \<and> length r = 16"
    using ok unfolding krs_def
    by (auto simp: list_all2_iff list_all_iff record_ok_def dest: set_zip_leftD)
  show "length krs = length picked" by (simp add: krs_def len)
  have "map (\<lambda>(k, r). image_size pe k) krs = map (image_size pe) (map fst krs)"
    by (auto simp: case_prod_beta)
  also have "map fst krs = picked" by (simp add: krs_def len)
  finally show "sum_list (map (\<lambda>(k, r). image_size pe k) krs) = payload" by (simp add: p)
qed

text \<open>Building never faults; what it writes is the ICO file of at most 64 images of the source.\<close>

lemma build_ico_cases:
  obtains (none) "build_ico pe rsrc = NoIcon"
  | (icon) imgs where "build_ico pe rsrc = Icon (map Some (ico_bytes imgs))"
      "list_all (image_record_ok (pe_p (pe_view pe))) imgs" "imgs \<noteq> []"
      "length imgs \<le> NP_PE_MAX_ICO_IMGS" "sum_list (map (length \<circ> snd) imgs) \<le> NP_PE_MAX_ICO"
proof (cases "build_ico pe rsrc = NoIcon")
  case False
  then obtain base where base: "np_pe_rva_off (pe_view pe) rsrc = Some base"
    by (auto simp: build_ico_def split: option.splits)
  define w where "w = walk pe base base 0 0 0"
  have view: "pe_view w = pe_view pe" using walk_keeps.walk_rel[of pe base base 0 0 0] by (simp add: w_def)
  from False base obtain grp group_at count where
    grp: "lowest_group w = Some grp" "np_pe_rva_off (pe_view w) (lf_rva grp) = Some group_at"
    "\<not> unat (lf_size grp) < 6"
    "\<not> (pe_n (pe_view w) < unat (lf_size grp) \<or> group_at > pe_n (pe_view w) - unat (lf_size grp))"
    "np_pe_rd16 (pe_view w) (group_at + 4) = Some count" "count \<noteq> 0"
    "\<not> unat (lf_size grp) < 6 + unat count * 14"
    unfolding build_ico_def Let_def
    by (auto simp: w_def split: option.split_asm if_split_asm simp del: not_less)
  define n where "n = (if unat count > NP_PE_MAX_ICO_IMGS then NP_PE_MAX_ICO_IMGS else unat count)"
  obtain picked records payload where
    pick: "pick_loop w group_at [0..<n] [] [] 0 = (picked, records, payload)" by (metis prod_cases3)
  have "pick_ok w ([], [], 0)" by (simp add: pick_ok_def)
  from pick_loop_ok[OF this, of group_at "[0..<n]"] have ok: "pick_ok w (picked, records, payload)"
    and le: "length picked \<le> n" by (simp_all add: pick)
  let ?krs = "zip picked records" and ?h = "6 + length picked * 16"
  have eq: "build_ico pe rsrc = (if length picked = 0 then NoIcon else
      case write_at (replicate (?h + payload) None) 0 (put_u16 0 @ put_u16 1 @ put_u16 (of_nat (length picked))) of
        None \<Rightarrow> Fault
      | Some ico \<Rightarrow> (case write_loop w 0 ?krs ?h ico of None \<Rightarrow> Fault | Some ico \<Rightarrow> Icon ico))"
    unfolding build_ico_def Let_def base option.case w_def[symmetric] grp if_False
    by (simp only: grp option.case if_False n_def[symmetric] pick prod.case)
  with False have ne: "picked \<noteq> []" by auto
  note krs = pick_images[OF ok]
  let ?imgs = "map (image_of w) ?krs"
  let ?hd = "put_u16 0 @ put_u16 1 @ put_u16 (of_nat (length picked))"
  have rep: "replicate (?h + payload) None
      = replicate 6 None @ replicate (16 * length picked) None @ [] @ replicate payload (None :: u8 option)"
    by (simp only: replicate_add[symmetric] append_Nil add.assoc mult.commute)
  have w1: "write_at (replicate (?h + payload) None) 0 ?hd
      = Some (map Some ?hd @ replicate (16 * length picked) None @ [] @ replicate payload None)"
    unfolding rep using write_at_split[of ?hd "replicate 6 None" "[]" 0] by simp
  have w2: "write_loop w 0 ?krs ?h (map Some ?hd @ replicate (16 * length picked) None @ [] @ replicate payload None)
      = Some (map Some ?hd @ map Some (ico_entries ?h ?imgs) @ [] @ map Some (concat (map (snd \<circ> image_of w) ?krs)))"
    by (rule write_loop_bytes) (use krs in auto)
  have len: "length ?imgs = length picked" using krs(2) by simp
  have "build_ico pe rsrc = Icon (map Some (ico_bytes ?imgs))"
    unfolding eq w1 option.case w2 using ne len by (simp add: ico_bytes_def algebra_simps comp_def)
  moreover have "list_all (image_record_ok (pe_p (pe_view pe))) ?imgs"
    using krs(1) image_of_ok(1)[of w] unfolding list_all_iff view by fastforce
  moreover have "map (length \<circ> snd) ?imgs = map (\<lambda>(k, r). image_size w k) ?krs"
    using krs(1) image_of_ok(2)[of w] by fastforce
  then have "sum_list (map (length \<circ> snd) ?imgs) = payload"
    by (simp only: krs(3))
  then have "sum_list (map (length \<circ> snd) ?imgs) \<le> NP_PE_MAX_ICO"
    using ok by (simp add: pick_ok_def)
  moreover have "?imgs \<noteq> []" "length ?imgs \<le> NP_PE_MAX_ICO_IMGS"
    using ne len le by (auto simp: n_def split: if_splits)
  ultimately show ?thesis by (intro icon)
qed (rule none)

section \<open>Lemmas: reading the result back\<close>

lemma le32_put_u32: "le32 (put_u32 v ! 0) (put_u32 v ! 1) (put_u32 v ! 2) (put_u32 v ! 3) = v"
proof -
  have byte: "(255 :: u32) = mask 8" by (simp add: mask_eq_exp_minus_1)
  show ?thesis
    by (rule bit_word_eqI) (auto simp: put_u32_def bit_le32 bit_simps byte)
qed

lemma le16_put_u16: "le16 (put_u16 v ! 0) (put_u16 v ! 1) = v"
proof -
  have byte: "(255 :: u16) = mask 8" by (simp add: mask_eq_exp_minus_1)
  show ?thesis
    by (rule bit_word_eqI) (auto simp: put_u16_def le16_def bit_simps byte)
qed

lemma ico_entries_length: "\<forall>(h, d) \<in> set imgs. length h = 12 \<Longrightarrow> length (ico_entries at imgs) = 16 * length imgs"
  by (induction imgs arbitrary: at) auto

lemma ico_entries_nth:
  "\<forall>(h, d) \<in> set imgs. length h = 12 \<Longrightarrow> i < length imgs \<Longrightarrow>
     take 16 (drop (16 * i) (ico_entries at imgs)) =
       fst (imgs ! i) @ put_u32 (of_nat (at + sum_list (map (length \<circ> snd) (take i imgs))))"
proof (induction imgs arbitrary: i at)
  case (Cons img imgs)
  obtain h d where img: "img = (h, d)" by fastforce
  show ?case
  proof (cases i)
    case 0
    with Cons.prems show ?thesis by (simp add: img)
  next
    case (Suc j)
    with Cons.prems Cons.IH[of j "at + length d"] show ?thesis
      by (simp add: img add.assoc)
  qed
qed simp

lemma concat_nth_slice:
  "i < length xs \<Longrightarrow> take (length (xs ! i)) (drop (sum_list (map length (take i xs))) (concat xs)) = xs ! i"
proof (induction xs arbitrary: i)
  case (Cons x xs)
  then show ?case by (cases i) auto
qed simp

lemma slice_append_nth:
  assumes "take 16 (drop k bs) = h @ q" "length h = 12" "length q = 4"
  shows "j < 4 \<Longrightarrow> bs ! (k + 12 + j) = q ! j" "j < 4 \<Longrightarrow> bs ! (k + 8 + j) = drop 8 h ! j"
proof -
  have "length (take 16 (drop k bs)) = 16" using assms by simp
  then have len: "k + 16 \<le> length bs" by simp
  have nth: "m < 16 \<Longrightarrow> bs ! (k + m) = (h @ q) ! m" for m
    using assms(1) len by (metis add_leD1 nth_drop nth_take)
  show "j < 4 \<Longrightarrow> bs ! (k + 12 + j) = q ! j"
    using nth[of "12 + j"] assms(2) by (simp add: nth_append add.assoc)
  show "j < 4 \<Longrightarrow> bs ! (k + 8 + j) = drop 8 h ! j"
    using nth[of "8 + j"] assms(2) by (simp add: nth_append add.assoc)
qed

text \<open>The bytes of a 16- and a 32-bit field of a file.\<close>

definition field16 :: "u8 list \<Rightarrow> nat \<Rightarrow> nat" where
  "field16 bs k = unat (le16 (bs ! k) (bs ! (k + 1)))"

definition field32 :: "u8 list \<Rightarrow> nat \<Rightarrow> nat" where
  "field32 bs k = unat (le32 (bs ! k) (bs ! (k + 1)) (bs ! (k + 2)) (bs ! (k + 3)))"

lemma ico_bytes_directory:
  assumes ok: "list_all (image_record_ok p) imgs" and n: "length imgs \<le> NP_PE_MAX_ICO_IMGS"
    and tot: "sum_list (map (length \<circ> snd) imgs) \<le> NP_PE_MAX_ICO" and i: "i < length imgs"
  defines "bs \<equiv> ico_bytes imgs"
  defines "sz \<equiv> field32 bs (6 + 16 * i + 8)" and "off \<equiv> field32 bs (6 + 16 * i + 12)"
  shows "sz = length (snd (imgs ! i))" "take sz (drop off bs) = snd (imgs ! i)"
    "off = 6 + 16 * length imgs + sum_list (map (length \<circ> snd) (take i imgs))"
    "off + sz \<le> length bs"
proof -
  let ?n = "length imgs" and ?hd = "put_u16 0 @ put_u16 1 @ put_u16 (of_nat (length imgs))"
  let ?before = "sum_list (map (length \<circ> snd) (take i imgs))"
  have h12: "\<forall>(h, d) \<in> set imgs. length h = 12"
    using ok by (auto simp: list_all_iff image_record_ok_def)
  have img: "length (fst (imgs ! i)) = 12" "drop 8 (fst (imgs ! i)) = put_u32 (of_nat (length (snd (imgs ! i))))"
    "length (snd (imgs ! i)) \<le> NP_PE_MAX_IMAGE"
    using ok i by (auto simp: list_all_length image_record_ok_def case_prod_beta)
  have bs: "bs = ?hd @ ico_entries (6 + 16 * ?n) imgs @ concat (map snd imgs)"
    by (simp add: bs_def ico_bytes_def)
  have el: "length (ico_entries (6 + 16 * ?n) imgs) = 16 * ?n" using h12 by (rule ico_entries_length)
  have "take 16 (drop (6 + 16 * i) bs) = take 16 (drop (16 * i) (ico_entries (6 + 16 * ?n) imgs))"
    using i el by (simp add: bs)
  then have entry: "take 16 (drop (6 + 16 * i) bs) = fst (imgs ! i) @ put_u32 (of_nat (6 + 16 * ?n + ?before))"
    using ico_entries_nth[OF h12 i, of "6 + 16 * ?n"] by simp
  note cell = slice_append_nth[OF entry img(1)]
  have split: "sum_list (map (length \<circ> snd) imgs) = ?before + sum_list (map (length \<circ> snd) (drop i imgs))"
    by (metis append_take_drop_id map_append sum_list_append)
  have "?before \<le> NP_PE_MAX_ICO" using split tot by simp
  then have small: "6 + 16 * ?n + ?before < 2 ^ 32"
    using n by (simp add: NP_PE_MAX_ICO_def NP_PE_MAX_ICO_IMGS_def)
  have "off = unat (of_nat (6 + 16 * ?n + ?before) :: u32)"
    using cell(1)[of 0] cell(1)[of 1] cell(1)[of 2] cell(1)[of 3] le32_put_u32
    unfolding off_def field32_def by (simp add: add.assoc del: of_nat_add of_nat_mult)
  then show off: "off = 6 + 16 * ?n + ?before"
    using small by (simp add: unsigned_of_nat take_bit_nat_eq_self del: of_nat_add of_nat_mult)
  have "sz = unat (of_nat (length (snd (imgs ! i))) :: u32)"
    using cell(2)[of 0] cell(2)[of 1] cell(2)[of 2] cell(2)[of 3] le32_put_u32
    unfolding sz_def field32_def by (simp add: add.assoc img(2))
  then show sz: "sz = length (snd (imgs ! i))"
    using img(3) by (simp add: unsigned_of_nat take_bit_nat_eq_self NP_PE_MAX_IMAGE_def)
  have slice: "take sz (drop ?before (concat (map snd imgs))) = snd (imgs ! i)"
    using concat_nth_slice[of i "map snd imgs"] i by (simp add: sz take_map comp_def)
  then show "take sz (drop off bs) = snd (imgs ! i)"
    using el by (simp add: bs off)
  have "?before + sz \<le> length (concat (map snd imgs))"
    using split i by (simp add: sz length_concat comp_def Cons_nth_drop_Suc[symmetric])
  then show "off + sz \<le> length bs" using el by (simp add: bs off)
qed

lemma ico_bytes_header:
  assumes "length imgs \<le> NP_PE_MAX_ICO_IMGS"
  shows "field16 (ico_bytes imgs) 0 = 0 \<and> field16 (ico_bytes imgs) 2 = 1 \<and>
    field16 (ico_bytes imgs) 4 = length imgs"
proof -
  have small: "length imgs < 65536" using assms by (simp add: NP_PE_MAX_ICO_IMGS_def)
  have "le16 (ucast (v AND 0xFF)) (ucast (drop_bit 8 v)) = v" for v :: u16
    using le16_put_u16[of v] by (simp add: put_u16_def)
  from this[of 0] this[of 1] this[of "of_nat (length imgs)"] show ?thesis
    using small by (simp add: field16_def ico_bytes_def put_u16_def unsigned_of_nat take_bit_nat_eq_self)
qed

lemma ico_bytes_length:
  assumes "list_all (image_record_ok p) imgs"
  shows "length (ico_bytes imgs) = 6 + 16 * length imgs + sum_list (map (length \<circ> snd) imgs)"
proof -
  have "\<forall>(h, d) \<in> set imgs. length h = 12"
    using assms by (auto simp: list_all_iff image_record_ok_def)
  from ico_entries_length[OF this] show ?thesis
    by (simp add: ico_bytes_def put_u16_def length_concat comp_def)
qed

lemma icon_from_map_cases:
  obtains (none) "icon_from_map p = NoIcon"
  | (icon) imgs where "icon_from_map p = Icon (map Some (ico_bytes imgs))"
      "list_all (image_record_ok p) imgs" "imgs \<noteq> []"
      "length imgs \<le> NP_PE_MAX_ICO_IMGS" "sum_list (map (length \<circ> snd) imgs) \<le> NP_PE_MAX_ICO"
proof (cases "np_pe_open p")
  case (Some v)
  let ?pe = "\<lparr>pe_view = v, pe_leaves = [], pe_visits = NP_PE_MAX_VISITS\<rparr>"
  have eq: "icon_from_map p = build_ico ?pe (pe_rsrc_rva v)" by (simp add: icon_from_map_def Some)
  have v: "pe_p (pe_view ?pe) = p" using pe_open_ok(1)[OF Some] by simp
  show ?thesis
    by (rule build_ico_cases[of ?pe "pe_rsrc_rva v", unfolded v]; fold eq) (intro none icon; assumption)+
qed (simp add: icon_from_map_def none)

lemma sample_reads:
  "np_pe_rd8 sample_view 378 = Some 16"
  "np_pe_rd8 sample_view 379 = Some 16"
  "np_pe_rd8 sample_view 380 = Some 0"
  "np_pe_rd16 sample_view 220 = Some 0"
  "np_pe_rd16 sample_view 222 = Some 3"
  "np_pe_rd16 sample_view 260 = Some 0"
  "np_pe_rd16 sample_view 262 = Some 1"
  "np_pe_rd16 sample_view 308 = Some 1"
  "np_pe_rd16 sample_view 310 = Some 0"
  "np_pe_rd16 sample_view 332 = Some 0"
  "np_pe_rd16 sample_view 334 = Some 1"
  "np_pe_rd16 sample_view 284 = Some 0"
  "np_pe_rd16 sample_view 286 = Some 1"
  "np_pe_rd16 sample_view 376 = Some 1"
  "np_pe_rd16 sample_view 382 = Some 1"
  "np_pe_rd16 sample_view 384 = Some 32"
  "np_pe_rd16 sample_view 390 = Some 1"
  "np_pe_rd32 sample_view 224 = Some 3"
  "np_pe_rd32 sample_view 228 = Some 2147483688"
  "np_pe_rd32 sample_view 232 = Some 10"
  "np_pe_rd32 sample_view 236 = Some 2147483736"
  "np_pe_rd32 sample_view 240 = Some 14"
  "np_pe_rd32 sample_view 244 = Some 2147483712"
  "np_pe_rd32 sample_view 264 = Some 1"
  "np_pe_rd32 sample_view 268 = Some 136"
  "np_pe_rd32 sample_view 312 = Some 2147483808"
  "np_pe_rd32 sample_view 316 = Some 2147483760"
  "np_pe_rd32 sample_view 336 = Some 0"
  "np_pe_rd32 sample_view 340 = Some 152"
  "np_pe_rd32 sample_view 288 = Some 1"
  "np_pe_rd32 sample_view 292 = Some 144"
  "np_pe_rd32 sample_view 344 = Some 4280"
  "np_pe_rd32 sample_view 348 = Some 3"
  "np_pe_rd32 sample_view 352 = Some 4260"
  "np_pe_rd32 sample_view 356 = Some 20"
  "np_pe_rd32 sample_view 360 = Some 4283"
  "np_pe_rd32 sample_view 364 = Some 2"
  "np_pe_rd32 sample_view 96 = Some 512"
  "np_pe_rd32 sample_view 100 = Some 4096"
  "np_pe_rd32 sample_view 104 = Some 512"
  "np_pe_rd32 sample_view 108 = Some 208"
  by code_simp+

lemma sample_span: "read_span sample_pe 392 3 = Some [7, 8, 9]"
  by code_simp

lemma sample_fields:
  "pe_p sample_view = sample_pe" "pe_sects sample_view = 88" "pe_nsects sample_view = 1"
  "pe_rsrc_rva sample_view = 4096" "length sample_pe = 397"
  by (simp_all add: sample_view_def) (simp add: sample_pe_def)

lemmas sample_eval = sample_reads sample_fields sample_span Let_def

lemma sample_rva:
  "np_pe_rva_off sample_view 4096 = Some 208" "np_pe_rva_off sample_view 4260 = Some 372"
  "np_pe_rva_off sample_view 4280 = Some 392"
  by (simp_all add: np_pe_rva_off_def sample_eval)

lemma sample_walk:
  "walk \<lparr>pe_view = sample_view, pe_leaves = [], pe_visits = 65536\<rparr> 208 208 0 0 0 =
    \<lparr>pe_view = sample_view,
     pe_leaves = [\<lparr>lf_type = 3, lf_id = 1, lf_rva = 4280, lf_size = 3\<rparr>,
       \<lparr>lf_type = 10, lf_id = 0x800000A0, lf_rva = 4283, lf_size = 2\<rparr>,
       \<lparr>lf_type = 14, lf_id = 1, lf_rva = 4260, lf_size = 20\<rparr>],
     pe_visits = 65529\<rparr>"
  by (simp add: walk.simps walk_loop.simps sample_eval NP_PE_MAX_DEPTH_def NP_PE_MAX_LEAVES_def
      NP_PE_MAX_ENTRIES_def upt_conv_Cons)

lemma sample_icon: "icon_from_map sample_pe = Icon (map Some
     [0, 0, 1, 0, 1, 0, 16, 16, 0, 0, 1, 0, 32, 0, 3, 0, 0, 0, 22, 0, 0, 0, 7, 8, 9])"
proof -
  define w where "w = walk \<lparr>pe_view = sample_view, pe_leaves = [], pe_visits = 65536\<rparr> 208 208 0 0 0"
  note ww = w_def[unfolded sample_walk]
  have view: "pe_view w = sample_view" by (simp add: ww)
  have pick: "pick_loop w 372 [0..<1] [] [] 0 = ([0], [[16, 16, 0, 0, 1, 0, 32, 0, 3, 0, 0, 0, 0, 0, 0, 0]], 3)"
    by (simp add: pick_loop.simps ww sample_eval sample_rva image_with_id_def NP_RT_ICON_def
        NP_PE_MAX_IMAGE_def NP_PE_MAX_ICO_def put_u16_def put_u32_def)
  have low: "lowest_group w = Some \<lparr>lf_type = 14, lf_id = 1, lf_rva = 4260, lf_size = 20\<rparr>"
    by (simp add: ww lowest_group_def NP_RT_GROUP_ICON_def)
  have out: "write_loop w 0 [(0, [16, 16, 0, 0, 1, 0, 32, 0, 3, 0, 0, 0, 0, 0, 0, 0])] 22
      ([Some 0, Some 0, Some 1, Some 0, Some 1, Some 0] @ replicate 19 None) = Some (map Some
     [0, 0, 1, 0, 1, 0, 16, 16, 0, 0, 1, 0, 32, 0, 3, 0, 0, 0, 22, 0, 0, 0, 7, 8, 9])"
    by (simp add: ww sample_eval sample_rva write_at_def put_u32_def)
  have hd: "write_at (replicate 25 None) 0 (put_u16 0 @ put_u16 1 @ put_u16 1) =
      Some ([Some 0, Some 0, Some 1, Some 0, Some 1, Some 0] @ replicate 19 None)"
    by (simp add: write_at_def put_u16_def)
  have "build_ico \<lparr>pe_view = sample_view, pe_leaves = [], pe_visits = 65536\<rparr> 4096 =
    (case write_at (replicate 25 None) 0 (put_u16 0 @ put_u16 1 @ put_u16 1) of None \<Rightarrow> Fault
     | Some ico \<Rightarrow> (case write_loop w 0 [(0, [16, 16, 0, 0, 1, 0, 32, 0, 3, 0, 0, 0, 0, 0, 0, 0])] 22 ico of
         None \<Rightarrow> Fault | Some ico \<Rightarrow> Icon ico))"
    by (simp add: build_ico_def sample_rva(1) w_def[symmetric] low view)
      (simp add: sample_rva sample_eval pick NP_PE_MAX_ICO_IMGS_def pick[simplified] cong: option.case_cong del: upt_rec_numeral)
  also have "\<dots> = Icon (map Some
     [0, 0, 1, 0, 1, 0, 16, 16, 0, 0, 1, 0, 32, 0, 3, 0, 0, 0, 22, 0, 0, 0, 7, 8, 9])"
    by (simp only: hd out option.case)
  finally show ?thesis
    by (simp add: icon_from_map_def sample_open sample_eval NP_PE_MAX_VISITS_def)
qed

section \<open>Properties\<close>

text \<open>Whatever the bytes of the file are, extracting its icon never reads outside the file and
  never writes outside the buffer allocated for the result, and the whole result is written.\<close>

theorem icon_never_faults:
  "icon_from_map p \<noteq> Fault \<and>
   (case icon_from_map p of Icon ico \<Rightarrow> None \<notin> set ico | _ \<Rightarrow> True)"
  by (rule icon_from_map_cases[of p]) auto

text \<open>C33. The extracted icon is a well-formed ICO file: its header is followed by a directory of 1 to
  64 entries, and each entry's size and offset select, behind the directory and inside the
  result, a non-empty image of at most 16 MB that is copied unchanged from the file.\<close>

theorem icon_directory:
  assumes "icon_from_map p = Icon ico"
  shows "\<exists>bs n. ico = map Some bs \<and> length bs \<le> 6 + 16 * n + NP_PE_MAX_ICO \<and>
    field16 bs 0 = 0 \<and> field16 bs 2 = 1 \<and> field16 bs 4 = n \<and> 0 < n \<and> n \<le> NP_PE_MAX_ICO_IMGS \<and>
    (\<forall>i < n. let sz = field32 bs (6 + 16 * i + 8); off = field32 bs (6 + 16 * i + 12) in
       6 + 16 * n \<le> off \<and> off + sz \<le> length bs \<and> 0 < sz \<and> sz \<le> NP_PE_MAX_IMAGE \<and>
       (\<exists>src. src + sz \<le> length p \<and> take sz (drop off bs) = take sz (drop src p)))"
proof (rule icon_from_map_cases[of p])
  fix imgs assume eq: "icon_from_map p = Icon (map Some (ico_bytes imgs))"
    and ok: "list_all (image_record_ok p) imgs" "imgs \<noteq> []" "length imgs \<le> NP_PE_MAX_ICO_IMGS"
      "sum_list (map (length \<circ> snd) imgs) \<le> NP_PE_MAX_ICO"
  let ?bs = "ico_bytes imgs"
  have hd: "field16 ?bs 0 = 0" "field16 ?bs 2 = 1" "field16 ?bs 4 = length imgs"
    using ico_bytes_header[OF ok(3)] by simp_all
  have imgs: "let sz = field32 ?bs (6 + 16 * i + 8); off = field32 ?bs (6 + 16 * i + 12) in
       6 + 16 * length imgs \<le> off \<and> off + sz \<le> length ?bs \<and> 0 < sz \<and> sz \<le> NP_PE_MAX_IMAGE \<and>
       (\<exists>src. src + sz \<le> length p \<and> take sz (drop off ?bs) = take sz (drop src p))"
    if i: "i < length imgs" for i
  proof -
    note dir = ico_bytes_directory[OF ok(1,3,4) i]
    have "image_record_ok p (imgs ! i)" using ok(1) i by (simp add: list_all_length)
    then show ?thesis using dir by (auto simp: Let_def image_record_ok_def case_prod_beta)
  qed
  show ?thesis
    by (rule exI[of _ ?bs], rule exI[of _ "length imgs"])
      (use assms eq ok hd imgs ico_bytes_length[OF ok(1)] in auto)
qed (use assms in simp)

theorem icon_directory_witness:
  "\<exists>bs n. icon_from_map sample_pe = Icon (map Some bs) \<and> field16 bs 4 = n \<and> 0 < n"
  using icon_directory[OF sample_icon] sample_icon by metis

text \<open>The walk of the resource tree, at any depth and whatever the tree looks like, keeps the
  file, finds at most 4096 leaves, and never uses more visits than it was given: every leaf
  found is paid for with a visit.\<close>

theorem walk_limits:
  assumes "nleaves pe \<le> NP_PE_MAX_LEAVES"
  shows "let w = walk pe base node depth type ident in
    pe_view w = pe_view pe \<and> nleaves w \<le> NP_PE_MAX_LEAVES \<and>
    nleaves w + pe_visits w \<le> nleaves pe + pe_visits pe"
  using walk_keeps.walk_rel[of pe base node depth type ident] assms by (simp add: Let_def)

theorem walk_limits_witness:
  "nleaves (walk \<lparr>pe_view = sample_view, pe_leaves = [], pe_visits = 65536\<rparr> 208 208 0 0 0) \<le> 4096"
  using walk_limits[of "\<lparr>pe_view = sample_view, pe_leaves = [], pe_visits = 65536\<rparr>" 208 208 0 0 0]
  by (simp add: NP_PE_MAX_LEAVES_def Let_def)

end
