(* ===== verification/A64.thy ===== *)
theory A64
  imports NP_Prelude
begin

text \<open>
  The arm64 instruction decoders of \<^verbatim>\<open>dylib/util/a64.h\<close>, the ones local to
  \<^verbatim>\<open>dylib/resolver/anchor.c\<close> and \<^verbatim>\<open>dylib/feats/compat.c\<close>, and the two tables of instructions
  a function may begin with. A decoder that writes through out-parameters and returns 0 or 1
  answers an option of the tuple it writes; one that returns an address keeps 0 for ``no''.
  The lemmas state that the sign extensions are right over the whole range of each field, that
  the two families of decoders agree, and the ranges of what is decoded.
\<close>

section \<open>The decoders of a64.h\<close>

definition A64_SP :: u32 where
  "A64_SP = 31"

definition a64_ldr_uimm :: "u32 \<Rightarrow> bool \<Rightarrow> (u32 \<times> u32 \<times> u32) option" where
  "a64_ldr_uimm w wide =
     (let opc = (if wide then 0xF9400000 else 0xB9400000) in
      if w AND 0xFFC00000 \<noteq> opc then None
      else Some (drop_bit 5 w AND 0x1F, w AND 0x1F,
                 (drop_bit 10 w AND 0xFFF) * (if wide then 8 else 4)))"

definition a64_ldrb_uimm :: "u32 \<Rightarrow> (u32 \<times> u32 \<times> u32) option" where
  "a64_ldrb_uimm w =
     (if w AND 0xFFC00000 \<noteq> 0x39400000 then None
      else Some (drop_bit 5 w AND 0x1F, w AND 0x1F, drop_bit 10 w AND 0xFFF))"

definition a64_tbz :: "u32 \<Rightarrow> (u32 \<times> u32) option" where
  "a64_tbz w =
     (if w AND 0x7E000000 \<noteq> 0x36000000 then None
      else Some (w AND 0x1F, (drop_bit 26 w AND 0x20) OR (drop_bit 19 w AND 0x1F)))"

definition a64_mov :: "u32 \<Rightarrow> (u32 \<times> u32) option" where
  "a64_mov w =
     (if w AND 0xFFE0FFE0 \<noteq> 0xAA0003E0 then None
      else Some (w AND 0x1F, drop_bit 16 w AND 0x1F))"

definition a64_add_imm :: "u32 \<Rightarrow> (u32 \<times> u32 \<times> u32) option" where
  "a64_add_imm w =
     (if w AND 0xFFC00000 \<noteq> 0x91000000 then None
      else Some (w AND 0x1F, drop_bit 5 w AND 0x1F, drop_bit 10 w AND 0xFFF))"

definition a64_add_lsl :: "u32 \<Rightarrow> (u32 \<times> u32 \<times> u32) option" where
  "a64_add_lsl w =
     (if w AND 0xFFE00000 \<noteq> 0x8B000000 then None
      else Some (w AND 0x1F, drop_bit 5 w AND 0x1F, drop_bit 10 w AND 0x3F))"

definition a64_bl :: "u64 \<Rightarrow> u32 \<Rightarrow> u64 option" where
  "a64_bl pc w =
     (if w AND 0xFC000000 \<noteq> 0x94000000 then None
      else Some (pc + (ucast ((w AND 0x03FFFFFF) XOR 0x2000000) - 0x2000000) * 4))"

section \<open>The decoders of anchor.c\<close>

text \<open>ADRP: the target page (0 when the word is none) and the destination register.\<close>

definition adrp_target :: "u64 \<Rightarrow> u32 \<Rightarrow> u64" where
  "adrp_target pc w =
     (if w AND 0x9F000000 \<noteq> 0x90000000 then 0
      else let lo = drop_bit 29 w AND 3;
               hi = drop_bit 5 w AND 0x7FFFF;
               raw = push_bit 2 hi OR lo;
               imm = (ucast (raw XOR 0x100000) :: u64) - 0x100000
           in (pc AND NOT 0xFFF) + imm * 0x1000)"

definition adrp_reg :: "u32 \<Rightarrow> u32" where
  "adrp_reg w = w AND 0x1F"

definition add_imm_target :: "u32 \<Rightarrow> u32 \<Rightarrow> u64 \<Rightarrow> u64" where
  "add_imm_target w expected_rn page =
     (if w AND 0x7F800000 \<noteq> 0x11000000 then 0
      else if drop_bit 5 w AND 0x1F \<noteq> expected_rn then 0
      else let imm = drop_bit 10 w AND 0xFFF in
           page + ucast (if drop_bit 22 w AND 1 \<noteq> 0 then push_bit 12 imm else imm))"

definition ldr_slot_addr :: "u32 \<Rightarrow> u32 \<Rightarrow> u64 \<Rightarrow> u64" where
  "ldr_slot_addr w expected_rn page =
     (if w AND 0xFFC00000 \<noteq> 0xF9400000 then 0
      else if drop_bit 5 w AND 0x1F \<noteq> expected_rn then 0
      else page + ucast (drop_bit 10 w AND 0xFFF) * 8)"

definition branch26_target :: "u64 \<Rightarrow> u32 \<Rightarrow> u32 \<Rightarrow> u64" where
  "branch26_target pc w opcode =
     (if w AND 0xFC000000 \<noteq> opcode then 0
      else pc + (ucast ((w AND 0x03FFFFFF) XOR 0x2000000) - 0x2000000) * 4)"

definition bl_target :: "u64 \<Rightarrow> u32 \<Rightarrow> u64" where
  "bl_target pc w = branch26_target pc w 0x94000000"

definition b_target :: "u64 \<Rightarrow> u32 \<Rightarrow> u64" where
  "b_target pc w = branch26_target pc w 0x14000000"

definition is_indirect_call :: "u32 \<Rightarrow> bool" where
  "is_indirect_call w \<longleftrightarrow> w AND 0xFEFFF000 = 0xD63F0000"

text \<open>Instructions a function may begin with: (mask, value) pairs.\<close>

definition entry_forms :: "(u32 \<times> u32) list" where
  "entry_forms =
     [(0xFF0003FF, 0xD10003FF), (0xFFC003E0, 0xA98003E0), (0xFFFFFFFF, 0xD503237F)]"

definition is_entry_insn :: "mem \<Rightarrow> u64 \<Rightarrow> bool" where
  "is_entry_insn m pc = list_ex (\<lambda>(mask, val). load32 m pc AND mask = val) entry_forms"

section \<open>The prologue test of resolver.c\<close>

definition prologue_forms :: "(u32 \<times> u32) list" where
  "prologue_forms =
     [(0xFF0003FF, 0xD10003FF), (0xFFC07FFF, 0xA9007BFD), (0xFFC07FFF, 0xA9807BFD),
      (0xFFFFFFFF, 0xD503237F), (0xFFFFFFFF, 0x910003FD), (0xFFC003E0, 0xA98003E0),
      (0xFFC003E0, 0xA90003E0)]"

definition np_looks_like_prologue :: "mem \<Rightarrow> u64 \<Rightarrow> bool" where
  "np_looks_like_prologue m addr \<longleftrightarrow>
     addr \<noteq> 0 \<and> list_ex (\<lambda>(mask, val). load32 m addr AND mask = val) prologue_forms"

section \<open>The decoders of compat.c\<close>

text \<open>Each answers what it writes: (byte offset, destination register), an offset, a register.\<close>

definition ldr32_from_x0 :: "u32 \<Rightarrow> (u32 \<times> u32) option" where
  "ldr32_from_x0 w =
     (if w AND 0xFFC003E0 \<noteq> 0xB9400000 then None
      else Some ((drop_bit 10 w AND 0xFFF) * 4, w AND 0x1F))"

definition ldr64_from :: "u32 \<Rightarrow> u32 \<Rightarrow> u32 option" where
  "ldr64_from w base =
     (if w AND 0xFFC00000 \<noteq> 0xF9400000 then None
      else if drop_bit 5 w AND 0x1F \<noteq> base then None
      else Some ((drop_bit 10 w AND 0xFFF) * 8))"

definition ldr64_from_x0 :: "u32 \<Rightarrow> u32 option" where
  "ldr64_from_x0 w = ldr64_from w 0"

definition ldrb_from :: "u32 \<Rightarrow> u32 \<Rightarrow> u32 option" where
  "ldrb_from w base =
     (if w AND 0xFFC00000 \<noteq> 0x39400000 then None
      else if drop_bit 5 w AND 0x1F \<noteq> base then None
      else Some (drop_bit 10 w AND 0xFFF))"

definition mov_from_x0 :: "u32 \<Rightarrow> u32 option" where
  "mov_from_x0 w = (if w AND 0xFFFFFFE0 \<noteq> 0xAA0003E0 then None else Some (w AND 0x1F))"

text \<open>
  CBZ Wt: \<open>imm = (imm << 13) >> 13\<close> on \<open>int32_t\<close> is the arithmetic shift back, and
  \<open>(uintptr_t)(imm * 4)\<close> sign-extends.
\<close>

definition cbz32 :: "u64 \<Rightarrow> u32 \<Rightarrow> u32 \<Rightarrow> u64 option" where
  "cbz32 pc w rt =
     (if w AND 0xFF000000 \<noteq> 0x34000000 then None
      else if w AND 0x1F \<noteq> rt then None
      else let imm = drop_bit 5 w AND 0x7FFFF;
               sx = signed_drop_bit 13 (push_bit 13 imm)
           in Some (pc + scast (sx * 4)))"

lemmas decoder_defs [decode_defs] =
  a64_ldr_uimm_def a64_ldrb_uimm_def a64_tbz_def a64_mov_def a64_add_imm_def a64_add_lsl_def
  a64_bl_def adrp_target_def add_imm_target_def ldr_slot_addr_def branch26_target_def
  ldr32_from_x0_def ldr64_from_def ldr64_from_x0_def ldrb_from_def mov_from_x0_def cbz32_def

section \<open>The sign extensions are right on every field value\<close>

text \<open>The encodings the decoders are for, as the architecture lays the fields out.\<close>

definition enc_bl :: "int \<Rightarrow> u32" where
  "enc_bl d = 0x94000000 OR (of_int d AND 0x03FFFFFF)"

definition enc_adrp :: "int \<Rightarrow> u32 \<Rightarrow> u32" where
  "enc_adrp d rd =
     0x90000000 OR push_bit 29 (of_int d AND 3) OR push_bit 5 (drop_bit 2 (of_int d) AND 0x7FFFF)
       OR (rd AND 0x1F)"

definition enc_cbz :: "int \<Rightarrow> u32 \<Rightarrow> u32" where
  "enc_cbz d rt = 0x34000000 OR push_bit 5 (of_int d AND 0x7FFFF) OR (rt AND 0x1F)"

lemma adrp_fields:
  "enc_adrp d rd AND 0x9F000000 = 0x90000000"
  "enc_adrp d rd AND 0x1F = rd AND 0x1F"
  unfolding enc_adrp_def by (rule word32_eqI; simp add: bit_simps)+

lemma adrp_raw:
  "push_bit 2 (drop_bit 5 (enc_adrp d rd) AND 0x7FFFF) OR (drop_bit 29 (enc_adrp d rd) AND 3)
     = (of_int d :: u32) AND mask 21"
  unfolding enc_adrp_def
  by (rule word32_eqI, simp add: bit_simps, simp add: numeral_2_eq_2 numeral_3_eq_3)

lemma cbz_fields:
  "enc_cbz d rt AND 0xFF000000 = 0x34000000"
  "enc_cbz d rt AND 0x1F = rt AND 0x1F"
  "drop_bit 5 (enc_cbz d rt) AND 0x7FFFF = (of_int d :: u32) AND mask 19"
  unfolding enc_cbz_def by (rule word32_eqI; simp add: bit_simps)+

lemma bl_fields:
  "enc_bl d AND 0xFC000000 = 0x94000000"
  "enc_bl d AND 0x03FFFFFF = (of_int d :: u32) AND mask 26"
  unfolding enc_bl_def by (rule word32_eqI; simp add: bit_simps)+


lemma bl_target_a64: "bl_target pc w = (case a64_bl pc w of None \<Rightarrow> 0 | Some t \<Rightarrow> t)"
  by (simp add: bl_target_def branch26_target_def a64_bl_def)

lemma a64_bl_enc:
  assumes "- (2 ^ 25) \<le> d" "d < 2 ^ 25"
  shows "a64_bl pc (enc_bl d) = Some (pc + of_int (4 * d))"
  using uint_field_sext[of 25 d] assms by (simp add: a64_bl_def bl_fields mult.commute)

lemma adrp_target_enc:
  assumes "- (2 ^ 20) \<le> d" "d < 2 ^ 20"
  shows "adrp_target pc (enc_adrp d rd) = (pc AND NOT 0xFFF) + of_int (0x1000 * d)"
proof -
  have "(ucast (((of_int d :: u32) AND mask 21) XOR 0x100000) :: u64) - 0x100000 = of_int d"
    using uint_field_sext[of 20 d] assms by simp
  then show ?thesis
    by (simp only: adrp_target_def Let_def adrp_fields adrp_raw simp_thms if_False) simp
qed

lemma cbz_field_sext:
  assumes "- (2 ^ 18) \<le> d" "d < 2 ^ 18"
  shows "scast (signed_drop_bit 13 (push_bit 13 ((of_int d :: u32) AND mask 19)) * 4)
    = (of_int (4 * d) :: u64)"
proof -
  let ?x = "signed_drop_bit 13 (push_bit 13 ((of_int d :: u32) AND mask 19))"
  have "(of_int d :: u32) = ?x"
  proof (rule bit_word_eqI)
    fix n assume n: "n < LENGTH(32)"
    show "bit (of_int d :: u32) n = bit ?x n"
    proof (cases "n < 19")
      case True
      then show ?thesis by (auto simp: bit_simps)
    next
      case False
      then have "bit (of_int d :: u32) n = bit d n" using n by (simp add: bit_simps)
      also have "bit d n = bit d 18"
      proof -
        have "d div 2 ^ 18 = (if d < 0 then -1 else 0)"
          using assms by (auto intro: div_pos_pos_trivial int_div_pos_eq[where r = "d + 2 ^ 18"])
        moreover have "d div 2 ^ n = (if d < 0 then -1 else 0)"
        proof -
          have "(2::int) ^ 18 \<le> 2 ^ n" using False by (intro power_increasing) auto
          then show ?thesis using assms
            by (auto intro: div_pos_pos_trivial int_div_pos_eq[where r = "d + 2 ^ n"])
        qed
        ultimately show ?thesis by (simp add: bit_iff_odd)
      qed
      also have "bit d 18 = bit ?x n" using n False by (auto simp: bit_simps)
      finally show ?thesis .
    qed
  qed
  then have "?x * 4 = of_int (4 * d)" by simp
  moreover have "sint (of_int (4 * d) :: u32) = 4 * d"
    using assms by (simp add: signed_of_int signed_take_bit_int_eq_self del: of_int_mult)
  ultimately show ?thesis by (metis scast_eq)
qed

lemma cbz32_enc:
  assumes "- (2 ^ 18) \<le> d" "d < 2 ^ 18"
  shows "cbz32 pc (enc_cbz d rt) (rt AND 0x1F) = Some (pc + of_int (4 * d))"
  unfolding cbz32_def Let_def cbz_fields cbz_field_sext[OF assms] by simp

section \<open>Properties\<close>

text \<open>Both decoders of BL give the branch's destination for every distance the instruction can
  encode, backward ones included: 26 bits of signed words around the program counter.\<close>

theorem bl_decodes_every_distance:
  assumes "- (2 ^ 25) \<le> d" "d < 2 ^ 25"
  shows "a64_bl pc (enc_bl d) = Some (pc + of_int (4 * d)) \<and>
    bl_target pc (enc_bl d) = pc + of_int (4 * d)"
  using a64_bl_enc[OF assms, of pc] by (simp add: bl_target_a64)

theorem bl_decodes_every_distance_witness:
  "bl_target 0x1000 (enc_bl (-3)) = 0x1000 + of_int (4 * (-3)) \<and> enc_bl (-3) = 0x97FFFFFD"
proof -
  have "enc_bl (-3) = 0x97FFFFFD" by code_simp
  with bl_decodes_every_distance[of "-3" "0x1000"] show ?thesis by simp
qed

text \<open>The ADRP decoder gives the page of the program counter plus the signed page distance, for
  every distance of 21 bits, and the register that receives it.\<close>

theorem adrp_decodes_every_page:
  assumes "- (2 ^ 20) \<le> d" "d < 2 ^ 20"
  shows "adrp_target pc (enc_adrp d rd) = (pc AND NOT 0xFFF) + of_int (0x1000 * d) \<and>
    adrp_reg (enc_adrp d rd) = rd AND 0x1F"
  using adrp_target_enc[OF assms] by (simp add: adrp_reg_def adrp_fields)

theorem adrp_decodes_every_page_witness:
  "adrp_target 0x12345678 (enc_adrp (-1) 8) = (0x12345678 AND NOT 0xFFF) + of_int (0x1000 * (-1))
   \<and> adrp_reg (enc_adrp (-1) 8) = 8 AND 0x1F"
  by (rule adrp_decodes_every_page) simp_all

text \<open>The CBZ decoder, which sign-extends by a left and an arithmetic right shift of a 32-bit
  integer, gives the destination for every distance of 19 bits.\<close>

theorem cbz_decodes_every_distance:
  assumes "- (2 ^ 18) \<le> d" "d < 2 ^ 18"
  shows "cbz32 pc (enc_cbz d rt) (rt AND 0x1F) = Some (pc + of_int (4 * d))"
  using assms by (rule cbz32_enc)

theorem cbz_decodes_every_distance_witness:
  "cbz32 0x1000 (enc_cbz (-2) 3) (3 AND 0x1F) = Some (0x1000 + of_int (4 * (-2)))"
  by (rule cbz_decodes_every_distance) simp_all

end
