(* ===== verification/C_Mem.thy ===== *)
theory C_Mem
  imports NP_Prelude
begin

text \<open>
  C strings in the memory of the process, the string functions of the C library the code calls on
  them, a 64-bit store, and memories given by a table of words, on which lemmas are evaluated.
  A C string that is an argument or a literal is the list of its bytes, none of them zero.
\<close>

type_synonym cstring = "u8 list"

definition cstr :: "string \<Rightarrow> cstring" where
  "cstr s = map of_char s"

section \<open>Comparing strings in memory\<close>

text \<open>\<open>strcmp(p, s) == 0\<close> and \<open>strncmp(p, s, n) == 0\<close> for a string \<open>p\<close> in memory.\<close>

fun strcmp_eq :: "mem \<Rightarrow> u64 \<Rightarrow> cstring \<Rightarrow> bool" where
  "strcmp_eq m p [] = (m p = 0)"
| "strcmp_eq m p (c # cs) = (m p = c \<and> strcmp_eq m (p + 1) cs)"

fun strncmp_eq :: "mem \<Rightarrow> u64 \<Rightarrow> cstring \<Rightarrow> nat \<Rightarrow> bool" where
  "strncmp_eq m p s 0 = True"
| "strncmp_eq m p [] (Suc n) = (m p = 0)"
| "strncmp_eq m p (c # cs) (Suc n) = (m p = c \<and> strncmp_eq m (p + 1) cs n)"

text \<open>A string in memory has one value: two strings without zero bytes that equal it are equal.\<close>

lemma strcmp_eq_inj:
  assumes "strcmp_eq m p s" "strcmp_eq m p t" "0 \<notin> set s" "0 \<notin> set t"
  shows "s = t"
  using assms
proof (induction s arbitrary: p t)
  case Nil
  then show ?case by (cases t) auto
next
  case (Cons c s)
  then show ?case by (cases t) auto
qed

section \<open>A string in memory\<close>

text \<open>The bytes from an address up to a terminator.\<close>

definition mem_cstr :: "mem \<Rightarrow> u64 \<Rightarrow> cstring" where
  "mem_cstr m p = takeWhile (\<lambda>c. c \<noteq> 0) (map (\<lambda>i. m (p + of_nat i)) [0..<2 ^ 64])"

lemma strcmp_eq_nth: "strcmp_eq m p s \<Longrightarrow> i < length s \<Longrightarrow> m (p + of_nat i) = s ! i"
proof (induction s arbitrary: p i)
  case (Cons c s)
  then show ?case by (cases i) (auto simp: add.assoc dest: Cons.IH[of "p + 1"])
qed simp

lemma strcmp_eq_end: "strcmp_eq m p s \<Longrightarrow> m (p + of_nat (length s)) = 0"
proof (induction s arbitrary: p)
  case (Cons c s)
  then have "m (p + 1 + of_nat (length s)) = 0" by simp
  then show ?case by (simp add: add.assoc)
qed simp

lemma takeWhile_upto:
  assumes "n < (k :: nat)" "\<forall>i < n. f i \<noteq> 0" "f n = (0 :: u8)"
  shows "takeWhile (\<lambda>c. c \<noteq> 0) (map f [0..<k]) = map f [0..<n]"
proof -
  have "[0..<k] = [0..<n] @ n # [Suc n..<k]"
    using upt_split[of 0 n k] assms(1) by (simp add: upt_conv_Cons)
  then show ?thesis using assms(2,3) by (simp add: takeWhile_append)
qed

lemma mem_cstr_strcmp:
  assumes "strcmp_eq m p s" "0 \<notin> set s" "length s < 2 ^ 64"
  shows "mem_cstr m p = s"
proof -
  have bytes: "m (p + of_nat i) = s ! i" if "i < length s" for i using strcmp_eq_nth[OF assms(1) that] .
  have nz: "m (p + of_nat i) \<noteq> 0" if "i < length s" for i
    using bytes[OF that] nth_mem[OF that] assms(2) by force
  have "mem_cstr m p = map (\<lambda>i. m (p + of_nat i)) [0..<length s]"
    unfolding mem_cstr_def
    by (rule takeWhile_upto) (use assms(3) nz strcmp_eq_end[OF assms(1)] in auto)
  also have "\<dots> = s" using bytes by (intro nth_equalityI) auto
  finally show ?thesis .
qed

section \<open>Stores\<close>

definition store64 :: "mem \<Rightarrow> u64 \<Rightarrow> u64 \<Rightarrow> mem" where
  "store64 m p v = (\<lambda>a. if unat (a - p) < 8 then ucast (drop_bit (8 * unat (a - p)) v) else m a)"

lemma store64_outside: "unat (a - p) \<ge> 8 \<Longrightarrow> store64 m p v a = m a"
  by (simp add: store64_def)

lemma load64_store64: "load64 (store64 m p v) p = v"
proof (rule bit_word_eqI)
  fix n assume "n < LENGTH(64)"
  moreover have "unat (p + k - p) = unat k" for k :: u64 by simp
  ultimately show "bit (load64 (store64 m p v) p) n = bit v n"
    unfolding load64_def load32_def store64_def
    by (cases "n < 32") (auto simp: le64_def bit_simps bit_le32 add.assoc)
qed

definition store32 :: "mem \<Rightarrow> u64 \<Rightarrow> u32 \<Rightarrow> mem" where
  "store32 m p v = (\<lambda>a. if unat (a - p) < 4 then ucast (drop_bit (8 * unat (a - p)) v) else m a)"

lemma store32_outside: "unat (a - p) \<ge> 4 \<Longrightarrow> store32 m p v a = m a"
  by (simp add: store32_def)

lemma load32_store32: "load32 (store32 m p v) p = v"
proof (rule bit_word_eqI)
  fix n assume "n < LENGTH(32)"
  moreover have "unat (p + k - p) = unat k" for k :: u64 by simp
  ultimately show "bit (load32 (store32 m p v) p) n = bit v n"
    unfolding load32_def store32_def
    by (cases "n < 8"; cases "n < 16"; cases "n < 24") (auto simp: bit_simps bit_le32)
qed

section \<open>Memories given by a table\<close>

text \<open>Aligned 32-bit words at the addresses of the table, zero elsewhere.\<close>

definition word_mem :: "(u64 \<times> u32) list \<Rightarrow> mem" where
  "word_mem ws = (\<lambda>a. case map_of ws (a - take_bit 2 a) of
     None \<Rightarrow> 0 | Some w \<Rightarrow> ucast (drop_bit (8 * unat (take_bit 2 a)) w))"

lemma take_bit2_add:
  fixes p k :: u64
  assumes "take_bit 2 p = 0"
  shows "take_bit 2 (p + k) = take_bit 2 k"
proof -
  have r: "unat (take_bit 2 x) = unat x mod 4" for x :: u64
    by (simp add: take_bit_eq_mod unat_mod_distrib)
  have "unat p mod 4 = 0" using assms r[of p] by simp
  moreover have "x mod 2 ^ 64 mod 4 = x mod (4 :: nat)" for x
    by (rule mod_mod_cancel) simp
  moreover have "(unat p + unat k) mod 4 = (unat p mod 4 + unat k) mod 4" by (simp only: mod_add_left_eq)
  ultimately have "(unat p + unat k) mod 2 ^ 64 mod 4 = unat k mod 4" by simp
  then show ?thesis by (simp add: word_unat_eq_iff r unat_word_ariths)
qed

lemma word_mem_byte:
  assumes "take_bit 2 p = 0" "take_bit 2 k = k"
  shows "word_mem ws (p + k) =
    (case map_of ws p of None \<Rightarrow> 0 | Some w \<Rightarrow> ucast (drop_bit (8 * unat k) w))"
proof -
  have "take_bit 2 (p + k) = k" using take_bit2_add[OF assms(1), of k] assms(2) by simp
  then show ?thesis by (simp only: word_mem_def add_diff_cancel_right')
qed

lemma load32_word_mem:
  assumes "take_bit 2 p = 0"
  shows "load32 (word_mem ws) p = (case map_of ws p of None \<Rightarrow> 0 | Some w \<Rightarrow> w)"
proof -
  note byte = word_mem_byte[OF assms, of 0 ws] word_mem_byte[OF assms, of 1 ws]
    word_mem_byte[OF assms, of 2 ws] word_mem_byte[OF assms, of 3 ws]
  show ?thesis
  proof (cases "map_of ws p")
    case None
    with byte show ?thesis by (simp add: load32_def le32_def)
  next
    case (Some w)
    have split: "le32 (ucast w) (ucast (drop_bit 8 w)) (ucast (drop_bit 16 w)) (ucast (drop_bit 24 w)) = w"
    proof (rule bit_word_eqI)
      fix n assume "n < LENGTH(32)"
      then show "bit (le32 (ucast w) (ucast (drop_bit 8 w)) (ucast (drop_bit 16 w)) (ucast (drop_bit 24 w))) n
          = bit w n"
        by (cases "n < 8"; cases "n < 16"; cases "n < 24") (auto simp: bit_le32 bit_simps)
    qed
    with Some byte show ?thesis by (simp add: load32_def)
  qed
qed

lemma load64_word_mem:
  assumes "take_bit 2 p = 0"
  shows "load64 (word_mem ws) p = le64 (case map_of ws p of None \<Rightarrow> 0 | Some w \<Rightarrow> w)
    (case map_of ws (p + 4) of None \<Rightarrow> 0 | Some w \<Rightarrow> w)"
proof -
  have "take_bit 2 (p + 4) = 0" using take_bit2_add[OF assms, of 4] by simp
  then show ?thesis using assms by (simp add: load64_def load32_word_mem)
qed

end
