(* ===== verification/C_Str.thy ===== *)
theory C_Str
  imports C_Mem
begin

text \<open>
  C strings as values and the functions of the C library the code calls on them: character classes of
  the C locale, \<^verbatim>\<open>strchr\<close>, copies into a buffer of a given size, \<^verbatim>\<open>strtoull\<close>.
\<close>

section \<open>Characters\<close>

definition c_upper :: "u8 \<Rightarrow> bool" where "c_upper c \<longleftrightarrow> 65 \<le> c \<and> c \<le> 90"
definition c_lower :: "u8 \<Rightarrow> bool" where "c_lower c \<longleftrightarrow> 97 \<le> c \<and> c \<le> 122"
definition c_digit :: "u8 \<Rightarrow> bool" where "c_digit c \<longleftrightarrow> 48 \<le> c \<and> c \<le> 57"
definition c_space :: "u8 \<Rightarrow> bool" where "c_space c \<longleftrightarrow> c = 32 \<or> (9 \<le> c \<and> c \<le> 13)"

definition c_tolower :: "u8 \<Rightarrow> u8" where "c_tolower c = (if c_upper c then c + 32 else c)"

lemmas c_class_defs = c_upper_def c_lower_def c_digit_def c_space_def

section \<open>Strings\<close>

text \<open>A string made of its bytes: none of them is the terminator.\<close>

definition c_string :: "cstring \<Rightarrow> bool" where
  "c_string s \<longleftrightarrow> 0 \<notin> set s"

text \<open>Everything before the first terminator, as a C function that takes a buffer sees it.\<close>

definition c_prefix :: "u8 list \<Rightarrow> cstring" where
  "c_prefix raw = takeWhile (\<lambda>c. c \<noteq> 0) raw"

text \<open>\<^verbatim>\<open>snprintf(dst, cap, "%s", s)\<close>, and the copy loops that truncate the same way.\<close>

definition c_copy :: "nat \<Rightarrow> cstring \<Rightarrow> cstring" where
  "c_copy cap s = take (cap - 1) s"

text \<open>The string around the first, and around the last, occurrence of a character.\<close>

definition str_split :: "u8 \<Rightarrow> cstring \<Rightarrow> (cstring \<times> cstring) option" where
  "str_split c s = (if c \<in> set s
     then Some (takeWhile (\<lambda>x. x \<noteq> c) s, tl (dropWhile (\<lambda>x. x \<noteq> c) s)) else None)"

definition str_rsplit :: "u8 \<Rightarrow> cstring \<Rightarrow> (cstring \<times> cstring) option" where
  "str_rsplit c s = (case str_split c (rev s) of
     None \<Rightarrow> None | Some (after, before) \<Rightarrow> Some (rev before, rev after))"

definition has_prefix :: "cstring \<Rightarrow> cstring \<Rightarrow> bool" where
  "has_prefix p s \<longleftrightarrow> take (length p) s = p"

text \<open>Without leading, without trailing spaces.\<close>

definition skip_spaces :: "cstring \<Rightarrow> cstring" where
  "skip_spaces s = dropWhile c_space s"

definition trim_end :: "cstring \<Rightarrow> cstring" where
  "trim_end s = rev (dropWhile c_space (rev s))"

definition has_suffix :: "cstring \<Rightarrow> cstring \<Rightarrow> bool" where
  "has_suffix s suf \<longleftrightarrow> length suf \<le> length s \<and> drop (length s - length suf) s = suf"

section \<open>Reading lines\<close>

text \<open>What \<^verbatim>\<open>fgets\<close> with a buffer of \<open>cap\<close> bytes reads of a file, call by call.\<close>

definition fgets_chunk :: "nat \<Rightarrow> u8 list \<Rightarrow> u8 list" where
  "fgets_chunk cap s = take (cap - 1)
     (let l = takeWhile (\<lambda>c. c \<noteq> 10) s in if length l < length s then l @ [10] else l)"

lemma fgets_chunk_progress: "s \<noteq> [] \<Longrightarrow> 2 \<le> cap \<Longrightarrow> fgets_chunk cap s \<noteq> []"
  by (cases s) (auto simp: fgets_chunk_def Let_def)

function fgets_all :: "nat \<Rightarrow> u8 list \<Rightarrow> u8 list list" where
  "fgets_all cap s =
     (if s = [] \<or> cap < 2 then []
      else fgets_chunk cap s # fgets_all cap (drop (length (fgets_chunk cap s)) s))"
  by pat_completeness auto
termination
  by (relation "measure (\<lambda>(_, s). length s)") (auto simp: fgets_chunk_progress)

declare fgets_all.simps [simp del]

text \<open>Lines that fit the buffer are read one by one.\<close>

lemma fgets_all_lines:
  assumes "\<forall>l \<in> set ls. \<exists>t. l = t @ [10] \<and> 10 \<notin> set t \<and> length t + 2 \<le> cap"
  shows "fgets_all cap (concat ls) = ls"
  using assms
proof (induction ls)
  case Nil
  then show ?case by (simp add: fgets_all.simps)
next
  case (Cons l ls)
  then obtain t where t: "l = t @ [10]" "10 \<notin> set t" "length t + 2 \<le> cap" by auto
  have "takeWhile (\<lambda>c. c \<noteq> 10) (concat (l # ls)) = t"
    using t(1,2) by (simp add: takeWhile_append)
  then have "fgets_chunk cap (concat (l # ls)) = l" using t by (simp add: fgets_chunk_def Let_def)
  then show ?case using Cons t(1,3) by (subst fgets_all.simps) simp
qed

lemma str_split_append:
  "c \<notin> set a \<Longrightarrow> str_split c (a @ c # b) = Some (a, b)"
  by (simp add: str_split_def takeWhile_append dropWhile_append)

lemma str_split_some:
  assumes "str_split c s = Some (a, b)"
  shows "s = a @ c # b" "c \<notin> set a"
proof -
  from assms have "c \<in> set s" and a: "a = takeWhile (\<lambda>x. x \<noteq> c) s" and b: "b = tl (dropWhile (\<lambda>x. x \<noteq> c) s)"
    by (auto simp: str_split_def split: if_splits)
  then have ne: "dropWhile (\<lambda>x. x \<noteq> c) s \<noteq> []" by (auto simp: dropWhile_eq_Nil_conv)
  have "hd (dropWhile (\<lambda>x. x \<noteq> c) s) = c" using hd_dropWhile[OF ne] by blast
  then have "dropWhile (\<lambda>x. x \<noteq> c) s = c # b" using ne by (metis b list.collapse)
  then show "s = a @ c # b" using takeWhile_dropWhile_id[of "\<lambda>x. x \<noteq> c" s] a by simp
  show "c \<notin> set a" by (auto simp: a dest: set_takeWhileD)
qed

section \<open>Fields\<close>

text \<open>The fields of a list with a separator, and a list made of fields.\<close>

fun str_fields :: "u8 \<Rightarrow> cstring \<Rightarrow> cstring list" where
  "str_fields sep [] = [[]]"
| "str_fields sep (c # s) =
     (if c = sep then [] # str_fields sep s
      else case str_fields sep s of f # fs \<Rightarrow> (c # f) # fs | [] \<Rightarrow> [[c]])"

fun join_fields :: "u8 \<Rightarrow> cstring list \<Rightarrow> cstring" where
  "join_fields sep [] = []"
| "join_fields sep [f] = f"
| "join_fields sep (f # g # fs) = f @ sep # join_fields sep (g # fs)"

lemma str_fields_not_Nil [simp]: "str_fields sep s \<noteq> []"
  by (induction s) (auto split: list.splits)

lemma str_fields_split: "sep \<notin> set f \<Longrightarrow> str_fields sep (f @ sep # r) = f # str_fields sep r"
  by (induction f) auto

lemma str_fields_single: "sep \<notin> set f \<Longrightarrow> str_fields sep f = [f]"
  by (induction f) auto

lemma str_fields_unfold:
  "str_fields sep s = (case str_split sep s of None \<Rightarrow> [s] | Some (f, r) \<Rightarrow> f # str_fields sep r)"
proof (cases "str_split sep s")
  case None
  then have "sep \<notin> set s" by (auto simp: str_split_def split: if_splits)
  then show ?thesis by (simp add: None str_fields_single)
next
  case (Some p)
  then obtain f r where p: "p = (f, r)" by (cases p)
  then have s: "s = f @ sep # r" and f: "sep \<notin> set f" using str_split_some Some by auto
  have "str_fields sep s = f # str_fields sep r" unfolding s by (rule str_fields_split[OF f])
  then show ?thesis using Some p by simp
qed

lemma str_split_shorter: "str_split sep s = Some (f, r) \<Longrightarrow> length r < length s"
  by (drule str_split_some) simp

lemma join_fields_str_fields: "join_fields sep (str_fields sep s) = s"
proof (induction s)
  case (Cons c s)
  obtain f fs where f: "str_fields sep s = f # fs" using str_fields_not_Nil by (meson neq_Nil_conv)
  with Cons show ?case by (cases fs) auto
qed simp

lemma str_fields_join:
  assumes "fs \<noteq> []" "\<forall>f \<in> set fs. sep \<notin> set f"
  shows "str_fields sep (join_fields sep fs) = fs"
  using assms by (induction sep fs rule: join_fields.induct) (auto simp: str_fields_split str_fields_single)

section \<open>Numbers\<close>

text \<open>The value of a digit in any base up to 36.\<close>

definition digit_val :: "u8 \<Rightarrow> nat option" where
  "digit_val c = (if c_digit c then Some (unat (c - 48))
     else if c_lower c then Some (unat (c - 97) + 10)
     else if c_upper c then Some (unat (c - 65) + 10) else None)"

definition digit_in :: "nat \<Rightarrow> u8 \<Rightarrow> bool" where
  "digit_in base c = (case digit_val c of None \<Rightarrow> False | Some d \<Rightarrow> d < base)"

definition digits_value :: "nat \<Rightarrow> cstring \<Rightarrow> nat" where
  "digits_value base ds = foldl (\<lambda>n c. n * base + (case digit_val c of None \<Rightarrow> 0 | Some d \<Rightarrow> d)) 0 ds"

definition skip_0x :: "nat \<Rightarrow> cstring \<Rightarrow> cstring" where
  "skip_0x base s = (case s of
     z # x # h # r \<Rightarrow> if base = 16 \<and> z = 48 \<and> (x = 120 \<or> x = 88) \<and> digit_in 16 h then h # r else s
   | _ \<Rightarrow> s)"

text \<open>\<^verbatim>\<open>strtoull\<close> of a base: the value, and the rest of the string where it stopped.\<close>

definition strtoull :: "nat \<Rightarrow> cstring \<Rightarrow> u64 \<times> cstring" where
  "strtoull base s =
     (let s1 = dropWhile c_space s;
          neg = (case s1 of c # _ \<Rightarrow> c = 45 | [] \<Rightarrow> False);
          s2 = (case s1 of c # r \<Rightarrow> if c = 45 \<or> c = 43 then r else s1 | [] \<Rightarrow> []);
          s3 = skip_0x base s2;
          ds = takeWhile (digit_in base) s3;
          v = digits_value base ds
      in if ds = [] then (0, s)
         else (if v \<ge> 2 ^ 64 then - 1 else if neg then - of_nat v else of_nat v,
               dropWhile (digit_in base) s3))"

text \<open>The decimal digits of a number.\<close>

function dec_str :: "nat \<Rightarrow> cstring" where
  "dec_str n = (if n < 10 then [48 + of_nat n] else dec_str (n div 10) @ [48 + of_nat (n mod 10)])"
  by pat_completeness auto
termination by (relation "measure (\<lambda>n. n)") auto

declare dec_str.simps [simp del]

section \<open>Lemmas\<close>

lemma c_prefix_string: "c_string (c_prefix raw)"
  by (auto simp: c_string_def c_prefix_def dest: set_takeWhileD)

lemma c_prefix_id: "c_string s \<Longrightarrow> c_prefix s = s"
  by (auto simp: c_string_def c_prefix_def intro: takeWhile_eq_all_conv[THEN iffD2])

lemma c_string_simps [simp]:
  "c_string []" "c_string (c # s) \<longleftrightarrow> c \<noteq> 0 \<and> c_string s"
  "c_string (s @ t) \<longleftrightarrow> c_string s \<and> c_string t"
  by (auto simp: c_string_def)

lemma c_string_sub [intro]:
  "c_string s \<Longrightarrow> c_string (take n s)" "c_string s \<Longrightarrow> c_string (drop n s)"
  "c_string s \<Longrightarrow> c_string (takeWhile P s)" "c_string s \<Longrightarrow> c_string (dropWhile P s)"
  by (auto simp: c_string_def dest: in_set_takeD in_set_dropD set_takeWhileD set_dropWhileD)

lemma trim_string [intro]:
  "c_string s \<Longrightarrow> c_string (skip_spaces s)" "c_string s \<Longrightarrow> c_string (trim_end s)"
  by (auto simp: c_string_def skip_spaces_def trim_end_def dest: set_dropWhileD)

lemma c_copy_string [intro]: "c_string s \<Longrightarrow> c_string (c_copy cap s)"
  by (auto simp: c_copy_def)

lemma c_copy_length: "0 < cap \<Longrightarrow> length (c_copy cap s) < cap"
  by (simp add: c_copy_def)

lemma c_copy_fits: "length s < cap \<Longrightarrow> c_copy cap s = s"
  by (simp add: c_copy_def)

lemma str_rsplit_some:
  assumes "str_rsplit c s = Some (a, b)"
  shows "s = a @ c # b" "c \<notin> set b"
proof -
  from assms have "str_split c (rev s) = Some (rev b, rev a)"
    by (auto simp: str_rsplit_def split: option.splits)
  note r = str_split_some[OF this]
  from r(1) have "rev (rev s) = rev (rev b @ c # rev a)" by simp
  then show "s = a @ c # b" by simp
  show "c \<notin> set b" using r(2) by simp
qed

lemma has_suffix_iff: "has_suffix s suf \<longleftrightarrow> (\<exists>r. s = r @ suf)"
  by (auto simp: has_suffix_def) (metis append_take_drop_id)

lemma has_prefix_iff: "has_prefix p s \<longleftrightarrow> (\<exists>r. s = p @ r)"
  by (auto simp: has_prefix_def) (metis append_take_drop_id)

subsection \<open>Decimal numbers\<close>

lemma digit_of_nat:
  assumes "d < 10"
  shows "digit_val (48 + of_nat d :: u8) = Some d" "c_digit (48 + of_nat d)"
proof -
  have "d \<in> {0, 1, 2, 3, 4, 5, 6, 7, 8, 9}" using assms by auto
  then show "digit_val (48 + of_nat d :: u8) = Some d" "c_digit (48 + of_nat d)"
    by (auto simp: digit_val_def c_class_defs)
qed

lemma digits_value_snoc:
  "digits_value base (ds @ [c]) = digits_value base ds * base + (case digit_val c of None \<Rightarrow> 0 | Some d \<Rightarrow> d)"
  by (simp add: digits_value_def)

lemma dec_str_digits: "\<forall>c \<in> set (dec_str n). c_digit c"
proof (induction n rule: dec_str.induct)
  case (1 n)
  then show ?case by (subst dec_str.simps) (auto simp: digit_of_nat(2))
qed

lemma dec_str_not_Nil: "dec_str n \<noteq> []"
  by (subst dec_str.simps) simp

lemma dec_str_length: "n < 10 ^ Suc k \<Longrightarrow> length (dec_str n) \<le> Suc k"
proof (induction k arbitrary: n)
  case 0
  then show ?case by (simp add: dec_str.simps[of n])
next
  case (Suc k)
  then have "n div 10 < 10 ^ Suc k" by (simp add: less_mult_imp_div_less)
  from Suc.IH[OF this] show ?case by (subst dec_str.simps) simp
qed

lemma digits_value_dec_str: "digits_value 10 (dec_str n) = n"
proof (induction n rule: dec_str.induct)
  case (1 n)
  show ?case
  proof (cases "n < 10")
    case True
    then show ?thesis by (simp add: dec_str.simps[of n] digits_value_def digit_of_nat(1))
  next
    case False
    then show ?thesis using 1[OF False]
      by (simp add: dec_str.simps[of n] digits_value_snoc digit_of_nat(1))
  qed
qed

lemma c_digit_in_10: "c_digit c \<Longrightarrow> digit_in 10 c"
proof -
  assume c: "c_digit c"
  then have "48 \<le> unat c" "unat c \<le> 57" by (simp_all add: c_digit_def word_le_nat_alt)
  then have "unat (c - 48) < 10" by (simp add: unat_sub word_le_nat_alt)
  with c show ?thesis by (simp add: digit_in_def digit_val_def)
qed

text \<open>\<^verbatim>\<open>strtoull\<close> reads back the decimal digits of a number of 64 bits, and stops after them.\<close>

lemma strtoull_dec:
  assumes "n < 2 ^ 64" "case rest of [] \<Rightarrow> True | c # _ \<Rightarrow> \<not> digit_in 10 c"
  shows "strtoull 10 (dec_str n @ rest) = (of_nat n, rest)"
proof -
  obtain d ds where ds: "dec_str n = d # ds" using dec_str_not_Nil[of n] by (meson neq_Nil_conv)
  have dig: "\<And>c. c \<in> set (dec_str n) \<Longrightarrow> c_digit c" using dec_str_digits by blast
  then have d: "c_digit d" using ds by simp
  then have nb: "\<not> c_space d" "d \<noteq> 45" "d \<noteq> 43"
    by (auto simp: c_class_defs word_le_nat_alt)
  have s1: "dropWhile c_space (dec_str n @ rest) = dec_str n @ rest" using nb ds by simp
  have tw: "takeWhile (digit_in 10) (dec_str n @ rest) = dec_str n"
    using assms(2) dig c_digit_in_10 by (subst takeWhile_append2) (auto split: list.splits)
  have dw: "dropWhile (digit_in 10) (dec_str n @ rest) = rest"
    using assms(2) dig c_digit_in_10 by (subst dropWhile_append2) (auto split: list.splits)
  have skip: "skip_0x 10 s = s" for s by (auto simp: skip_0x_def split: list.splits)
  have s2: "(case dec_str n @ rest of c # r \<Rightarrow> if c = 45 \<or> c = 43 then r else dec_str n @ rest | [] \<Rightarrow> [])
      = dec_str n @ rest" using ds nb by simp
  have neg: "(case dec_str n @ rest of c # _ \<Rightarrow> c = 45 | [] \<Rightarrow> False) = False" using ds nb by simp
  show ?thesis
    unfolding strtoull_def s1 Let_def s2 neg skip tw dw digits_value_dec_str
    using assms(1) dec_str_not_Nil[of n] by simp
qed

end
