(* ===== verification/Macho.thy ===== *)
theory Macho
  imports C_Mem
begin

text \<open>
  The reader of a Mach-O image in memory, \<^verbatim>\<open>dylib/core/macho.c\<close>. Structures of the operating
  system's headers (\<^verbatim>\<open>mach-o/loader.h\<close>, \<^verbatim>\<open>mach-o/nlist.h\<close>) appear as the offsets of the fields
  the code reads. A function that returns 0 or -1 and writes through out-parameters answers an
  option; pointers into the image stay 64-bit addresses.
\<close>

section \<open>The file format\<close>

definition LC_SYMTAB :: u32 where "LC_SYMTAB = 0x2"
definition LC_DYSYMTAB :: u32 where "LC_DYSYMTAB = 0xB"
definition LC_SEGMENT_64 :: u32 where "LC_SEGMENT_64 = 0x19"
definition LC_FUNCTION_STARTS :: u32 where "LC_FUNCTION_STARTS = 0x26"

definition SECTION_TYPE :: u32 where "SECTION_TYPE = 0xFF"
definition S_NON_LAZY_SYMBOL_POINTERS :: u32 where "S_NON_LAZY_SYMBOL_POINTERS = 6"
definition S_LAZY_SYMBOL_POINTERS :: u32 where "S_LAZY_SYMBOL_POINTERS = 7"
definition S_SYMBOL_STUBS :: u32 where "S_SYMBOL_STUBS = 8"
definition INDIRECT_SYMBOL_LOCAL :: u32 where "INDIRECT_SYMBOL_LOCAL = 0x80000000"
definition INDIRECT_SYMBOL_ABS :: u32 where "INDIRECT_SYMBOL_ABS = 0x40000000"

text \<open>Sizes of \<open>load_command\<close>, \<open>segment_command_64\<close> and \<open>section_64\<close>, and their fields.\<close>

definition SIZEOF_LC :: u32 where "SIZEOF_LC = 8"
definition SIZEOF_SEGMENT :: u32 where "SIZEOF_SEGMENT = 72"
definition SIZEOF_SECTION :: u64 where "SIZEOF_SECTION = 80"
definition SIZEOF_SYMTAB :: u32 where "SIZEOF_SYMTAB = 24"
definition SIZEOF_DYSYMTAB :: u32 where "SIZEOF_DYSYMTAB = 80"
definition SIZEOF_LINKEDIT_DATA :: u32 where "SIZEOF_LINKEDIT_DATA = 16"
definition SIZEOF_NLIST :: u64 where "SIZEOF_NLIST = 16"
definition NAME_LEN :: nat where "NAME_LEN = 16"

abbreviation (input) "mh_ncmds m mh \<equiv> load32 m (mh + 16)"
abbreviation (input) "mh_sizeofcmds m mh \<equiv> load32 m (mh + 20)"
abbreviation (input) first_lc :: "u64 \<Rightarrow> u64" where "first_lc mh \<equiv> mh + 32"
abbreviation (input) "lc_cmd m c \<equiv> load32 m c"
abbreviation (input) "lc_cmdsize m c \<equiv> load32 m (c + 4)"
abbreviation (input) seg_name :: "u64 \<Rightarrow> u64" where "seg_name c \<equiv> c + 8"
abbreviation (input) "seg_vmaddr m c \<equiv> load64 m (c + 24)"
abbreviation (input) "seg_vmsize m c \<equiv> load64 m (c + 32)"
abbreviation (input) "seg_fileoff m c \<equiv> load64 m (c + 40)"
abbreviation (input) "seg_filesize m c \<equiv> load64 m (c + 48)"
abbreviation (input) "seg_nsects m c \<equiv> load32 m (c + 64)"
abbreviation (input) seg_first_sect :: "u64 \<Rightarrow> u64" where "seg_first_sect c \<equiv> c + 72"
abbreviation (input) sect_name :: "u64 \<Rightarrow> u64" where "sect_name s \<equiv> s"
abbreviation (input) "sect_addr m s \<equiv> load64 m (s + 32)"
abbreviation (input) "sect_size m s \<equiv> load64 m (s + 40)"
abbreviation (input) "sect_flags m s \<equiv> load32 m (s + 64)"
abbreviation (input) "sect_reserved1 m s \<equiv> load32 m (s + 68)"
abbreviation (input) "sect_reserved2 m s \<equiv> load32 m (s + 72)"
abbreviation (input) "ld_dataoff m c \<equiv> load32 m (c + 8)"
abbreviation (input) "ld_datasize m c \<equiv> load32 m (c + 12)"

definition SEG_LINKEDIT :: cstring where "SEG_LINKEDIT = cstr ''__LINKEDIT''"

section \<open>The load commands\<close>

text \<open>\<open>lc_at\<close> checks the command at the cursor against the end of the commands.\<close>

definition lc_ok :: "mem \<Rightarrow> u64 \<Rightarrow> u64 \<Rightarrow> bool" where
  "lc_ok m mh cursor =
     (let lc_end = first_lc mh + ucast (mh_sizeofcmds m mh) in
      if cursor > lc_end \<or> lc_end - cursor < ucast SIZEOF_LC then False
      else \<not> (lc_cmdsize m cursor < SIZEOF_LC \<or> ucast (lc_cmdsize m cursor) > lc_end - cursor))"

definition lc_at :: "mem \<Rightarrow> u64 \<Rightarrow> u64 \<Rightarrow> u64 option" where
  "lc_at m mh cursor = (if lc_ok m mh cursor then Some cursor else None)"

text \<open>
  The loop over the commands that every function below repeats: \<open>Inl\<close> is a return from the
  function, from the body or, with the given answer, at a corrupt command; \<open>Inr\<close> is the state
  of the loop's variables at its end.
\<close>

fun each_lc :: "mem \<Rightarrow> u64 \<Rightarrow> (u64 \<Rightarrow> 's \<Rightarrow> 'r + 's) \<Rightarrow> 'r \<Rightarrow> nat \<Rightarrow> u64 \<Rightarrow> 's \<Rightarrow> 'r + 's" where
  "each_lc m mh body corrupt 0 cursor s = Inr s"
| "each_lc m mh body corrupt (Suc n) cursor s =
     (case lc_at m mh cursor of
        None \<Rightarrow> Inl corrupt
      | Some lc \<Rightarrow>
          (case body lc s of
             Inl r \<Rightarrow> Inl r
           | Inr s' \<Rightarrow> each_lc m mh body corrupt n (cursor + ucast (lc_cmdsize m lc)) s'))"

definition for_lcs :: "mem \<Rightarrow> u64 \<Rightarrow> (u64 \<Rightarrow> 's \<Rightarrow> 'r + 's) \<Rightarrow> 'r \<Rightarrow> 's \<Rightarrow> 'r + 's" where
  "for_lcs m mh body corrupt s = each_lc m mh body corrupt (unat (mh_ncmds m mh)) (first_lc mh) s"

definition is_segment :: "mem \<Rightarrow> u64 \<Rightarrow> bool" where
  "is_segment m lc \<longleftrightarrow> lc_cmd m lc = LC_SEGMENT_64 \<and> lc_cmdsize m lc \<ge> SIZEOF_SEGMENT"

text \<open>Base and size of the first segment of a name.\<close>

definition np_find_segment :: "mem \<Rightarrow> u64 \<Rightarrow> u64 \<Rightarrow> cstring \<Rightarrow> (u64 \<times> u64) option" where
  "np_find_segment m mh slide segname =
     (if mh = 0 then None
      else case for_lcs m mh (\<lambda>lc _.
          if is_segment m lc \<and> strncmp_eq m (seg_name lc) segname NAME_LEN
          then Inl (Some (seg_vmaddr m lc + slide, seg_vmsize m lc))
          else Inr ()) None () of
        Inl r \<Rightarrow> r | Inr _ \<Rightarrow> None)"

section \<open>Function starts\<close>

text \<open>Address and size of the table; the loop keeps the last such command and the link-edit segment.\<close>

definition fn_starts_body ::
  "mem \<Rightarrow> u64 \<Rightarrow> u64 option \<times> (u64 \<times> u64 \<times> u64) option \<Rightarrow>
     (u64 \<times> u64) option + u64 option \<times> (u64 \<times> u64 \<times> u64) option" where
  "fn_starts_body m lc = (\<lambda>(fs, le).
     if lc_cmd m lc = LC_FUNCTION_STARTS \<and> lc_cmdsize m lc \<ge> SIZEOF_LINKEDIT_DATA
     then Inr (Some lc, le)
     else if is_segment m lc \<and> strncmp_eq m (seg_name lc) SEG_LINKEDIT NAME_LEN
     then Inr (fs, Some (seg_vmaddr m lc, seg_fileoff m lc, seg_filesize m lc))
     else Inr (fs, le))"

definition fn_starts_table :: "mem \<Rightarrow> u64 \<Rightarrow> u64 \<Rightarrow> (u64 \<times> u64) option" where
  "fn_starts_table m mh slide =
     (case for_lcs m mh (fn_starts_body m) None (None, None) of
        Inl r \<Rightarrow> r
      | Inr (Some fs, Some (le_vmaddr, le_fileoff, le_filesize)) \<Rightarrow>
          if ld_datasize m fs = 0 then None
          else if ucast (ld_dataoff m fs) < le_fileoff then None
          else let rel = ucast (ld_dataoff m fs) - le_fileoff in
            if rel > le_filesize \<or> ucast (ld_datasize m fs) > le_filesize - rel then None
            else Some (le_vmaddr + rel + slide, ucast (ld_datasize m fs))
      | Inr _ \<Rightarrow> None)"

text \<open>
  The table's bytes are read from \<open>p\<close> up to \<open>p + size\<close>. \<open>uleb\<close> is the inner loop: one number and
  the bytes behind it, nothing when the bytes end first. \<open>shift\<close> is an \<open>unsigned\<close>.
\<close>

fun uleb :: "u64 \<Rightarrow> u32 \<Rightarrow> u8 list \<Rightarrow> (u64 \<times> u8 list) option" where
  "uleb delta shift [] = None"
| "uleb delta shift (b # p) =
     (let delta = (if shift < 64 then delta OR push_bit (unat shift) (ucast (b AND 0x7F)) else delta) in
      if b AND 0x80 = 0 then Some (delta, p) else uleb delta (shift + 7) p)"

declare uleb.simps(2) [simp del]

text \<open>What a byte adds to the number, and one step of the loop.\<close>

definition uleb_add :: "u64 \<Rightarrow> u32 \<Rightarrow> u8 \<Rightarrow> u64" where
  "uleb_add delta shift b =
     (if shift < 64 then delta OR push_bit (unat shift) (ucast (b AND 0x7F)) else delta)"

lemma uleb_Cons: "uleb delta shift (b # p) =
   (if b AND 0x80 = 0 then Some (uleb_add delta shift b, p)
    else uleb (uleb_add delta shift b) (shift + 7) p)"
  by (simp only: uleb.simps(2) Let_def uleb_add_def)

lemma uleb_shorter: "uleb delta shift p = Some (d, p') \<Longrightarrow> length p' < length p"
proof (induction p arbitrary: delta shift)
  case (Cons b p)
  show ?case
  proof (cases "b AND 0x80 = 0")
    case True
    with Cons.prems have "p' = p" by (simp add: uleb_Cons)
    then show ?thesis by simp
  next
    case False
    with Cons.prems have "uleb (uleb_add delta shift b) (shift + 7) p = Some (d, p')"
      by (simp only: uleb_Cons if_False)
    from Cons.IH[OF this] show ?thesis by simp
  qed
qed simp

function bounds_loop :: "u64 \<Rightarrow> u64 \<Rightarrow> u64 \<Rightarrow> u8 list \<Rightarrow> (u64 \<times> u64) option" where
  "bounds_loop addr va start p =
     (case uleb 0 0 p of
        None \<Rightarrow> None
      | Some (delta, p') \<Rightarrow>
          if delta = 0 then None
          else let va = va + delta in
            if va \<le> addr then bounds_loop addr va va p'
            else if start = 0 then None
            else Some (start, va))"
  by pat_completeness auto
termination
  by (relation "measure (\<lambda>(_, _, _, p). length p)") (auto dest: uleb_shorter)

declare bounds_loop.simps [simp del]

definition table_bytes :: "mem \<Rightarrow> u64 \<Rightarrow> nat \<Rightarrow> u8 list" where
  "table_bytes m p n = map (\<lambda>i. m (p + of_nat i)) [0..<n]"

definition np_function_bounds :: "mem \<Rightarrow> u64 \<Rightarrow> u64 \<Rightarrow> u64 \<Rightarrow> (u64 \<times> u64) option" where
  "np_function_bounds m mh slide addr =
     (if mh = 0 then None
      else case fn_starts_table m mh slide of
        None \<Rightarrow> None
      | Some (p, len) \<Rightarrow> if p = 0 then None else bounds_loop addr mh 0 (table_bytes m p (unat len)))"

section \<open>Sections\<close>

text \<open>Do the section headers of a segment fit in its command? The code asks this in three places.\<close>

definition sections_fit_lc :: "mem \<Rightarrow> u64 \<Rightarrow> bool" where
  "sections_fit_lc m lc \<longleftrightarrow>
     \<not> (ucast (lc_cmdsize m lc - SIZEOF_SEGMENT) < ucast (seg_nsects m lc) * SIZEOF_SECTION)"

fun section_containing_loop :: "mem \<Rightarrow> u64 \<Rightarrow> u64 \<Rightarrow> u64 \<Rightarrow> nat \<Rightarrow> (u64 \<times> u64) option" where
  "section_containing_loop m slide addr sect 0 = None"
| "section_containing_loop m slide addr sect (Suc n) =
     (let base = sect_addr m sect + slide in
      if addr < base \<or> addr \<ge> base + sect_size m sect
      then section_containing_loop m slide addr (sect + SIZEOF_SECTION) n
      else Some (base, sect_size m sect))"

definition np_get_section_containing :: "mem \<Rightarrow> u64 \<Rightarrow> u64 \<Rightarrow> u64 \<Rightarrow> (u64 \<times> u64) option" where
  "np_get_section_containing m mh slide addr =
     (if mh = 0 then None
      else case for_lcs m mh (\<lambda>lc _.
          if is_segment m lc then
            if \<not> sections_fit_lc m lc then Inl None
            else case section_containing_loop m slide addr (seg_first_sect lc) (unat (seg_nsects m lc)) of
                Some r \<Rightarrow> Inl (Some r) | None \<Rightarrow> Inr ()
          else Inr ()) None () of
        Inl r \<Rightarrow> r | Inr _ \<Rightarrow> None)"

fun section_named_loop :: "mem \<Rightarrow> u64 \<Rightarrow> cstring \<Rightarrow> u64 \<Rightarrow> nat \<Rightarrow> (u64 \<times> u64) option" where
  "section_named_loop m slide sectname sect 0 = None"
| "section_named_loop m slide sectname sect (Suc n) =
     (if \<not> strncmp_eq m (sect_name sect) sectname NAME_LEN
      then section_named_loop m slide sectname (sect + SIZEOF_SECTION) n
      else Some (sect_addr m sect + slide, sect_size m sect))"

definition np_find_section :: "mem \<Rightarrow> u64 \<Rightarrow> u64 \<Rightarrow> cstring \<Rightarrow> cstring \<Rightarrow> (u64 \<times> u64) option" where
  "np_find_section m mh slide segname sectname =
     (if mh = 0 then None
      else case for_lcs m mh (\<lambda>lc _.
          if is_segment m lc then
            if \<not> sections_fit_lc m lc then Inl None
            else if strncmp_eq m (seg_name lc) segname NAME_LEN then
              (case section_named_loop m slide sectname (seg_first_sect lc) (unat (seg_nsects m lc)) of
                Some r \<Rightarrow> Inl (Some r) | None \<Rightarrow> Inr ())
            else Inr ()
          else Inr ()) None () of
        Inl r \<Rightarrow> r | Inr _ \<Rightarrow> None)"

section \<open>Symbols and import stubs\<close>

record symbols_t =
  sy_syms :: u64
  sy_nsyms :: u32
  sy_strings :: u64
  sy_strsize :: u32
  sy_indirect :: u64
  sy_nindirect :: u32

definition in_linkedit :: "mem \<Rightarrow> u64 \<Rightarrow> u64 \<Rightarrow> u64 \<Rightarrow> bool" where
  "in_linkedit m le fileoff len =
     (if fileoff < seg_fileoff m le then False
      else let rel = fileoff - seg_fileoff m le in
        rel \<le> seg_filesize m le \<and> len \<le> seg_filesize m le - rel)"

text \<open>The last symbol table, dynamic symbol table and link-edit segment, as the loop leaves them.\<close>

definition load_symbols_body ::
  "mem \<Rightarrow> u64 \<Rightarrow> u64 option \<times> u64 option \<times> u64 option \<Rightarrow>
     symbols_t option + u64 option \<times> u64 option \<times> u64 option" where
  "load_symbols_body m lc = (\<lambda>(symtab, dysymtab, linkedit).
     if lc_cmd m lc = LC_SYMTAB \<and> lc_cmdsize m lc \<ge> SIZEOF_SYMTAB
     then Inr (Some lc, dysymtab, linkedit)
     else if lc_cmd m lc = LC_DYSYMTAB \<and> lc_cmdsize m lc \<ge> SIZEOF_DYSYMTAB
     then Inr (symtab, Some lc, linkedit)
     else if is_segment m lc \<and> strcmp_eq m (seg_name lc) SEG_LINKEDIT
     then Inr (symtab, dysymtab, Some lc)
     else Inr (symtab, dysymtab, linkedit))"

definition load_symbols :: "mem \<Rightarrow> u64 \<Rightarrow> u64 \<Rightarrow> symbols_t option" where
  "load_symbols m mh slide =
     (case for_lcs m mh (load_symbols_body m) None (None, None, None) of
        Inl r \<Rightarrow> r
      | Inr (Some symtab, Some dysymtab, Some linkedit) \<Rightarrow>
          let symoff = load32 m (symtab + 8); nsyms = load32 m (symtab + 12);
              stroff = load32 m (symtab + 16); strsize = load32 m (symtab + 20);
              indirectsymoff = load32 m (dysymtab + 56); nindirectsyms = load32 m (dysymtab + 60) in
          if nindirectsyms = 0 then None
          else if \<not> in_linkedit m linkedit (ucast symoff) (ucast nsyms * SIZEOF_NLIST) \<or>
             \<not> in_linkedit m linkedit (ucast stroff) (ucast strsize) \<or>
             \<not> in_linkedit m linkedit (ucast indirectsymoff) (ucast nindirectsyms * 4) then None
          else let base = slide + seg_vmaddr m linkedit - seg_fileoff m linkedit in
            Some \<lparr>sy_syms = base + ucast symoff, sy_nsyms = nsyms,
                  sy_strings = base + ucast stroff, sy_strsize = strsize,
                  sy_indirect = base + ucast indirectsymoff, sy_nindirect = nindirectsyms\<rparr>
      | Inr _ \<Rightarrow> None)"

text \<open>The name of the import behind a slot of the indirect symbol table.\<close>

definition indirect_symbol_name :: "mem \<Rightarrow> symbols_t \<Rightarrow> u64 \<Rightarrow> u64 option" where
  "indirect_symbol_name m syms slot =
     (if slot \<ge> ucast (sy_nindirect syms) then None
      else let index = load32 m (sy_indirect syms + slot * 4) in
        if index AND (INDIRECT_SYMBOL_LOCAL OR INDIRECT_SYMBOL_ABS) \<noteq> 0 then None
        else if index \<ge> sy_nsyms syms then None
        else let strx = load32 m (sy_syms syms + ucast index * SIZEOF_NLIST) in
          if strx \<ge> sy_strsize syms then None
          else Some (sy_strings syms + ucast strx))"

definition is_stub_section :: "mem \<Rightarrow> u64 \<Rightarrow> bool" where
  "is_stub_section m sect \<longleftrightarrow>
     sect_flags m sect AND SECTION_TYPE = S_SYMBOL_STUBS \<and> sect_reserved2 m sect \<noteq> 0"

definition segment_sections :: "mem \<Rightarrow> u64 \<Rightarrow> (u64 \<times> nat) option" where
  "segment_sections m lc =
     (if lc_cmdsize m lc < SIZEOF_SEGMENT then None
      else if \<not> sections_fit_lc m lc then None
      else Some (seg_first_sect lc, unat (seg_nsects m lc)))"

text \<open>The inner loop over a segment's sections: \<open>Some\<close> is a return from the function.\<close>

fun stub_symbol_loop :: "mem \<Rightarrow> u64 \<Rightarrow> symbols_t \<Rightarrow> u64 \<Rightarrow> u64 \<Rightarrow> nat \<Rightarrow> u64 option option" where
  "stub_symbol_loop m slide syms stub sect 0 = None"
| "stub_symbol_loop m slide syms stub sect (Suc n) =
     (let base = sect_addr m sect + slide; stride = ucast (sect_reserved2 m sect);
          next = stub_symbol_loop m slide syms stub (sect + SIZEOF_SECTION) n in
      if \<not> is_stub_section m sect then next
      else if stub < base \<or> stub \<ge> base + sect_size m sect then next
      else let offset = stub - base in
        if offset mod stride \<noteq> 0 then Some None
        else Some (indirect_symbol_name m syms
               (ucast (sect_reserved1 m sect) + offset div stride)))"

definition np_import_stub_symbol :: "mem \<Rightarrow> u64 \<Rightarrow> u64 \<Rightarrow> u64 \<Rightarrow> u64 option" where
  "np_import_stub_symbol m mh slide stub =
     (if mh = 0 \<or> stub = 0 then None
      else case load_symbols m mh slide of None \<Rightarrow> None | Some syms \<Rightarrow>
        (case for_lcs m mh (\<lambda>lc _.
            if lc_cmd m lc \<noteq> LC_SEGMENT_64 then Inr ()
            else case segment_sections m lc of
              None \<Rightarrow> Inl None
            | Some (sect, nsects) \<Rightarrow>
                (case stub_symbol_loop m slide syms stub sect nsects of
                   Some r \<Rightarrow> Inl r | None \<Rightarrow> Inr ())) None () of
          Inl r \<Rightarrow> r | Inr _ \<Rightarrow> None))"

text \<open>
  The stub of a symbol: the loops over a section's slots and a segment's sections carry \<open>found\<close>
  on; \<open>Inl 0\<close> is the return at a second hit.
\<close>

fun stub_slots_loop ::
  "mem \<Rightarrow> symbols_t \<Rightarrow> cstring \<Rightarrow> u64 \<Rightarrow> u64 \<Rightarrow> u64 \<Rightarrow> nat list \<Rightarrow> u64 \<Rightarrow> u64 + u64" where
  "stub_slots_loop m syms symbol base stride reserved1 [] found = Inr found"
| "stub_slots_loop m syms symbol base stride reserved1 (k # ks) found =
     (let next = stub_slots_loop m syms symbol base stride reserved1 ks in
      case indirect_symbol_name m syms (reserved1 + of_nat k) of
        None \<Rightarrow> next found
      | Some name \<Rightarrow>
          if \<not> strcmp_eq m name symbol then next found
          else if found \<noteq> 0 then Inl 0
          else next (base + of_nat k * stride))"

fun stub_sections_loop ::
  "mem \<Rightarrow> u64 \<Rightarrow> symbols_t \<Rightarrow> cstring \<Rightarrow> u64 \<Rightarrow> nat \<Rightarrow> u64 \<Rightarrow> u64 + u64" where
  "stub_sections_loop m slide syms symbol sect 0 found = Inr found"
| "stub_sections_loop m slide syms symbol sect (Suc n) found =
     (if \<not> is_stub_section m sect
      then stub_sections_loop m slide syms symbol (sect + SIZEOF_SECTION) n found
      else let stride = ucast (sect_reserved2 m sect) in
        case stub_slots_loop m syms symbol (sect_addr m sect + slide) stride
               (ucast (sect_reserved1 m sect)) [0..<unat (sect_size m sect div stride)] found of
          Inl r \<Rightarrow> Inl r
        | Inr found \<Rightarrow> stub_sections_loop m slide syms symbol (sect + SIZEOF_SECTION) n found)"

definition np_import_stub_for_symbol :: "mem \<Rightarrow> u64 \<Rightarrow> u64 \<Rightarrow> cstring \<Rightarrow> u64" where
  "np_import_stub_for_symbol m mh slide symbol =
     (if mh = 0 \<or> symbol = [] then 0
      else case load_symbols m mh slide of None \<Rightarrow> 0 | Some syms \<Rightarrow>
        (case for_lcs m mh (\<lambda>lc found.
            if lc_cmd m lc \<noteq> LC_SEGMENT_64 then Inr found
            else case segment_sections m lc of
              None \<Rightarrow> Inl 0
            | Some (sect, nsects) \<Rightarrow> stub_sections_loop m slide syms symbol sect nsects found) 0 0 of
          Inl r \<Rightarrow> r | Inr found \<Rightarrow> found))"

text \<open>
  Rebinding an import writes the replacement into every pointer slot of the symbol whose page can
  be made writable. \<open>mprotect_rw page\<close> is the system's answer to that request; the later request
  to make the page read-only again has no effect on memory's contents. \<open>pagesize\<close> is the system's.
\<close>

fun rebind_slots_loop ::
  "(u64 \<Rightarrow> bool) \<Rightarrow> u64 \<Rightarrow> symbols_t \<Rightarrow> cstring \<Rightarrow> u64 \<Rightarrow> u64 \<Rightarrow> u64 \<Rightarrow> nat list \<Rightarrow> mem \<times> nat \<Rightarrow> mem \<times> nat" where
  "rebind_slots_loop mprotect_rw pagesize syms symbol replacement slots reserved1 [] (m, rebound) = (m, rebound)"
| "rebind_slots_loop mprotect_rw pagesize syms symbol replacement slots reserved1 (k # ks) (m, rebound) =
     (let next = rebind_slots_loop mprotect_rw pagesize syms symbol replacement slots reserved1 ks;
          slot = slots + of_nat k * 8 in
      case indirect_symbol_name m syms (reserved1 + of_nat k) of
        None \<Rightarrow> next (m, rebound)
      | Some name \<Rightarrow>
          if \<not> strcmp_eq m name symbol then next (m, rebound)
          else if \<not> mprotect_rw (slot AND NOT (pagesize - 1)) then next (m, rebound)
          else next (store64 m slot replacement, Suc rebound))"

fun rebind_sections_loop ::
  "(u64 \<Rightarrow> bool) \<Rightarrow> u64 \<Rightarrow> u64 \<Rightarrow> symbols_t \<Rightarrow> cstring \<Rightarrow> u64 \<Rightarrow> u64 \<Rightarrow> nat \<Rightarrow> mem \<times> nat \<Rightarrow> mem \<times> nat" where
  "rebind_sections_loop mprotect_rw pagesize slide syms symbol replacement sect 0 (m, rebound) = (m, rebound)"
| "rebind_sections_loop mprotect_rw pagesize slide syms symbol replacement sect (Suc n) (m, rebound) =
     (let next = rebind_sections_loop mprotect_rw pagesize slide syms symbol replacement (sect + SIZEOF_SECTION) n;
          type = sect_flags m sect AND SECTION_TYPE in
      if type \<noteq> S_LAZY_SYMBOL_POINTERS \<and> type \<noteq> S_NON_LAZY_SYMBOL_POINTERS then next (m, rebound)
      else next (rebind_slots_loop mprotect_rw pagesize syms symbol replacement (slide + sect_addr m sect)
             (ucast (sect_reserved1 m sect)) [0..<unat (sect_size m sect div 8)] (m, rebound)))"

text \<open>
  Here the commands are read from the memory as it changes, so the loop is its own. Counts (\<open>ncmds\<close>
  and a section's \<open>size\<close>) are read when their loop begins; the C loop reads them again each time,
  which is the same as long as no pointer slot lies in the image's own header.
\<close>

fun rebind_lcs_loop ::
  "(u64 \<Rightarrow> bool) \<Rightarrow> u64 \<Rightarrow> u64 \<Rightarrow> u64 \<Rightarrow> symbols_t \<Rightarrow> cstring \<Rightarrow> u64 \<Rightarrow> nat \<Rightarrow> u64 \<Rightarrow> mem \<times> nat \<Rightarrow> mem \<times> nat option" where
  "rebind_lcs_loop mprotect_rw pagesize mh slide syms symbol replacement 0 cursor (m, rebound) = (m, Some rebound)"
| "rebind_lcs_loop mprotect_rw pagesize mh slide syms symbol replacement (Suc n) cursor (m, rebound) =
     (case lc_at m mh cursor of
        None \<Rightarrow> (m, None)
      | Some lc \<Rightarrow>
          let next = rebind_lcs_loop mprotect_rw pagesize mh slide syms symbol replacement n
                       (cursor + ucast (lc_cmdsize m lc)) in
          if lc_cmd m lc \<noteq> LC_SEGMENT_64 then next (m, rebound)
          else (case segment_sections m lc of
              None \<Rightarrow> (m, None)
            | Some (sect, nsects) \<Rightarrow>
                next (rebind_sections_loop mprotect_rw pagesize slide syms symbol replacement sect nsects
                       (m, rebound))))"

definition np_rebind_import ::
  "(u64 \<Rightarrow> bool) \<Rightarrow> u64 \<Rightarrow> mem \<Rightarrow> u64 \<Rightarrow> u64 \<Rightarrow> cstring \<Rightarrow> u64 \<Rightarrow> mem \<times> nat option" where
  "np_rebind_import mprotect_rw pagesize m mh slide symbol replacement =
     (if mh = 0 \<or> replacement = 0 then (m, None)
      else case load_symbols m mh slide of
        None \<Rightarrow> (m, None)
      | Some syms \<Rightarrow>
          rebind_lcs_loop mprotect_rw pagesize mh slide syms symbol replacement (unat (mh_ncmds m mh))
            (first_lc mh) (m, 0))"

section \<open>Waiting for an image\<close>

text \<open>
  The loader's list of images, (path, header, slide), and the stop flag, as they are at each poll;
  the timeout is in milliseconds and a poll takes 100 of them.
\<close>

definition strstr_hit :: "cstring \<Rightarrow> cstring \<Rightarrow> bool" where
  "strstr_hit path needle = list_ex (\<lambda>i. take (length needle) (drop i path) = needle) [0..<Suc (length path)]"

definition image_by_name :: "(cstring \<times> u64 \<times> u64) list \<Rightarrow> cstring \<Rightarrow> (cstring \<times> u64 \<times> u64) option" where
  "image_by_name images needle = find (\<lambda>(path, _, _). strstr_hit path needle) images"

fun await_loop ::
  "(nat \<Rightarrow> (cstring \<times> u64 \<times> u64) list) \<Rightarrow> (nat \<Rightarrow> bool) \<Rightarrow> cstring \<Rightarrow> nat list \<Rightarrow>
     (cstring \<times> u64 \<times> u64) option" where
  "await_loop images stop needle [] = None"
| "await_loop images stop needle (i # is) =
     (if stop i then None
      else case image_by_name (images i) needle of
        Some r \<Rightarrow> Some r
      | None \<Rightarrow> await_loop images stop needle is)"

definition np_await_image ::
  "(nat \<Rightarrow> (cstring \<times> u64 \<times> u64) list) \<Rightarrow> (nat \<Rightarrow> bool) \<Rightarrow> cstring \<Rightarrow> nat \<Rightarrow> nat \<Rightarrow>
     (u64 \<times> u64 \<times> cstring) option" where
  "np_await_image images stop needle timeout_ms path_size =
     (case await_loop images stop needle [0..<(timeout_ms + 99) div 100] of
        None \<Rightarrow> None
      | Some (path, mh, slide) \<Rightarrow>
          Some (mh, slide, if path_size = 0 then [] else take (path_size - 1) path))"

section \<open>Lemmas: walking the commands\<close>

text \<open>The commands a complete walk visits, and whether it reaches the last one.\<close>

fun lc_run :: "mem \<Rightarrow> u64 \<Rightarrow> nat \<Rightarrow> u64 \<Rightarrow> u64 list \<times> bool" where
  "lc_run m mh 0 cursor = ([], True)"
| "lc_run m mh (Suc n) cursor =
     (case lc_at m mh cursor of
        None \<Rightarrow> ([], False)
      | Some lc \<Rightarrow> (let (cs, done) = lc_run m mh n (cursor + ucast (lc_cmdsize m lc)) in (lc # cs, done)))"

definition image_lcs :: "mem \<Rightarrow> u64 \<Rightarrow> u64 list" where
  "image_lcs m mh = fst (lc_run m mh (unat (mh_ncmds m mh)) (first_lc mh))"

definition lcs_complete :: "mem \<Rightarrow> u64 \<Rightarrow> bool" where
  "lcs_complete m mh = snd (lc_run m mh (unat (mh_ncmds m mh)) (first_lc mh))"

lemma lc_at_some: "lc_at m mh c = Some lc \<Longrightarrow> lc = c \<and> lc_ok m mh c"
  by (simp add: lc_at_def split: if_splits)

lemma lc_ok_bounds:
  assumes "lc_ok m mh c"
  shows "8 \<le> unat (lc_cmdsize m c)"
    "unat c + unat (lc_cmdsize m c) \<le> unat (first_lc mh + ucast (mh_sizeofcmds m mh))"
proof -
  let ?e = "first_lc mh + ucast (mh_sizeofcmds m mh)"
  from assms have c: "\<not> lc_cmdsize m c < 8" "c \<le> ?e" "\<not> (ucast (lc_cmdsize m c) :: u64) > ?e - c"
    by (auto simp: lc_ok_def Let_def SIZEOF_LC_def split: if_splits)
  then show "8 \<le> unat (lc_cmdsize m c)" by (simp add: word_less_nat_alt)
  have "unat (ucast (lc_cmdsize m c) :: u64) = unat (lc_cmdsize m c)"
    by (rule unat_ucast_u32_u64)
  moreover have "unat (?e - c) = unat ?e - unat c" using c(2) by (simp add: unat_sub)
  ultimately show "unat c + unat (lc_cmdsize m c) \<le> unat ?e"
    using c(2,3) by (simp add: word_less_nat_alt word_le_nat_alt)
qed

lemma lc_run_bounds:
  assumes "lc \<in> set (fst (lc_run m mh n c))"
  shows "c \<le> lc \<and> lc_ok m mh lc"
  using assms
proof (induction n arbitrary: c)
  case (Suc n)
  from Suc.prems have ok: "lc_ok m mh c"
    by (auto simp: lc_at_def split: if_splits)
  let ?next = "c + ucast (lc_cmdsize m c)"
  have "unat c + unat (lc_cmdsize m c) < 2 ^ 64"
    using lc_ok_bounds(2)[OF ok] unat_u64_less[of "first_lc mh + ucast (mh_sizeofcmds m mh)"] by simp
  then have "c \<le> ?next"
    by (simp add: word_le_nat_alt unat_word_ariths unat_ucast_u32_u64)
  moreover from Suc.prems have "lc = c \<or> lc \<in> set (fst (lc_run m mh n ?next))"
    using ok by (auto simp: lc_at_def split: prod.splits)
  ultimately show ?case using Suc.IH ok by (auto intro: order_trans)
qed simp

lemma image_lcs_bounds:
  assumes "lc \<in> set (image_lcs m mh)"
  shows "first_lc mh \<le> lc" "8 \<le> unat (lc_cmdsize m lc)"
    "unat lc + unat (lc_cmdsize m lc) \<le> unat (first_lc mh + ucast (mh_sizeofcmds m mh))"
  using lc_run_bounds[OF assms[unfolded image_lcs_def]] lc_ok_bounds by blast+

text \<open>A body that only searches: the loop is the first answer, in order, of a complete walk's prefix.\<close>

fun first_some :: "('a \<Rightarrow> 'b option) \<Rightarrow> 'a list \<Rightarrow> 'b option" where
  "first_some f [] = None"
| "first_some f (x # xs) = (case f x of Some y \<Rightarrow> Some y | None \<Rightarrow> first_some f xs)"

lemma first_some_in: "first_some f xs = Some y \<Longrightarrow> \<exists>x \<in> set xs. f x = Some y"
  by (induction xs) (auto split: option.splits)

lemma first_some_find:
  "first_some (\<lambda>x. if P x then Some (g x) else None) xs = map_option g (find P xs)"
  by (induction xs) auto

lemma each_lc_search:
  assumes "\<And>lc. body lc () = (case f lc of Some r \<Rightarrow> Inl r | None \<Rightarrow> Inr ())"
  shows "each_lc m mh body corrupt n c () =
    (case first_some f (fst (lc_run m mh n c)) of
       Some r \<Rightarrow> Inl r
     | None \<Rightarrow> if snd (lc_run m mh n c) then Inr () else Inl corrupt)"
  by (induction n arbitrary: c)
    (auto simp: assms split: option.splits sum.splits prod.splits)

lemma for_lcs_search:
  assumes "\<And>lc. body lc () = (case f lc of Some r \<Rightarrow> Inl r | None \<Rightarrow> Inr ())"
  shows "(case for_lcs m mh body None () of Inl r \<Rightarrow> r | Inr _ \<Rightarrow> None) =
    (case first_some f (image_lcs m mh) of Some r \<Rightarrow> r | None \<Rightarrow> None)"
  unfolding for_lcs_def image_lcs_def by (simp add: each_lc_search[of body f, OF assms] split: option.split)

lemma find_segment_find:
  assumes "mh \<noteq> 0"
  shows "np_find_segment m mh slide name =
    map_option (\<lambda>lc. (seg_vmaddr m lc + slide, seg_vmsize m lc))
      (find (\<lambda>lc. is_segment m lc \<and> strncmp_eq m (seg_name lc) name NAME_LEN) (image_lcs m mh))"
proof -
  let ?P = "\<lambda>lc. is_segment m lc \<and> strncmp_eq m (seg_name lc) name NAME_LEN"
  let ?f = "\<lambda>lc. if ?P lc then Some (Some (seg_vmaddr m lc + slide, seg_vmsize m lc)) else None"
  have "np_find_segment m mh slide name = (case first_some ?f (image_lcs m mh) of Some r \<Rightarrow> r | None \<Rightarrow> None)"
    using assms unfolding np_find_segment_def by (simp only: if_False) (rule for_lcs_search, simp)
  then show ?thesis by (simp add: first_some_find split: option.split)
qed

section \<open>Lemmas: sections\<close>

lemma section_containing_loop_some:
  assumes "section_containing_loop m slide addr sect n = Some (b, sz)"
  shows "\<exists>i < n. let s = sect + of_nat i * SIZEOF_SECTION in
    b = sect_addr m s + slide \<and> sz = sect_size m s \<and> b \<le> addr \<and> addr < b + sz"
  using assms
proof (induction n arbitrary: sect)
  case (Suc n)
  let ?s = "\<lambda>i. sect + of_nat i * SIZEOF_SECTION"
  show ?case
  proof (cases "addr < sect_addr m sect + slide \<or> addr \<ge> sect_addr m sect + slide + sect_size m sect")
    case True
    with Suc.prems have "section_containing_loop m slide addr (sect + SIZEOF_SECTION) n = Some (b, sz)"
      by (simp add: Let_def)
    from Suc.IH[OF this] obtain i where "i < n" and "let s = ?s (Suc i) in
        b = sect_addr m s + slide \<and> sz = sect_size m s \<and> b \<le> addr \<and> addr < b + sz"
      by (auto simp: algebra_simps)
    then show ?thesis by (intro exI[of _ "Suc i"]) simp
  next
    case False
    with Suc.prems show ?thesis by (intro exI[of _ 0]) (auto simp: Let_def)
  qed
qed simp

lemma sections_fit_bound:
  assumes "is_segment m lc" "sections_fit_lc m lc"
  shows "72 + 80 * unat (seg_nsects m lc) \<le> unat (lc_cmdsize m lc)"
proof -
  have ge: "SIZEOF_SEGMENT \<le> lc_cmdsize m lc" using assms(1) by (simp add: is_segment_def)
  note u = unat_ucast_u32_u64
  have n: "unat (seg_nsects m lc) < 2 ^ 32" by (rule order_less_le_trans[OF unsigned_less]) simp
  have "unat (ucast (seg_nsects m lc) * SIZEOF_SECTION) = unat (seg_nsects m lc) * 80"
    using n by (simp add: unat_word_ariths u SIZEOF_SECTION_def)
  moreover have "unat (ucast (lc_cmdsize m lc - SIZEOF_SEGMENT) :: u64) = unat (lc_cmdsize m lc) - 72"
    using ge by (simp add: u unat_sub SIZEOF_SEGMENT_def)
  moreover have "72 \<le> unat (lc_cmdsize m lc)"
    using ge by (simp add: SIZEOF_SEGMENT_def word_le_nat_alt)
  ultimately show ?thesis
    using assms(2) by (simp add: sections_fit_lc_def word_less_nat_alt)
qed

section \<open>Lemmas: function starts\<close>

text \<open>The table's format: the distance from each start to the next as a variable-length number.\<close>

fun uleb_enc :: "nat \<Rightarrow> u8 list" where
  "uleb_enc n = (if n < 128 then [of_nat n] else (of_nat (n mod 128) OR 0x80) # uleb_enc (n div 128))"

declare uleb_enc.simps [simp del]

fun encode_starts :: "u64 \<Rightarrow> u64 list \<Rightarrow> u8 list" where
  "encode_starts va [] = []"
| "encode_starts va (s # ss) = uleb_enc (unat (s - va)) @ encode_starts s ss"

function decode_starts :: "u64 \<Rightarrow> u8 list \<Rightarrow> u64 list" where
  "decode_starts va p =
     (case uleb 0 0 p of None \<Rightarrow> []
      | Some (delta, p') \<Rightarrow> if delta = 0 then [] else (va + delta) # decode_starts (va + delta) p')"
  by pat_completeness auto
termination
  by (relation "measure (\<lambda>(_, p). length p)") (auto dest: uleb_shorter)

declare decode_starts.simps [simp del]

lemma or_push_add:
  assumes "d < 2 ^ s" "s < 64" "c < 128"
  shows "(of_nat d :: u64) OR push_bit s (of_nat c) = of_nat (d + c * 2 ^ s)"
proof -
  note low = nat_bit_less[OF assms(1)]
  have "(of_nat d :: u64) AND push_bit s (of_nat c) = 0"
    by (rule bit_word_eqI) (auto simp: bit_simps dest: low)
  then have "(of_nat d :: u64) OR push_bit s (of_nat c) = of_nat d + push_bit s (of_nat c)"
    by (rule disjunctive_add_eq_or[symmetric])
  then show ?thesis by (simp add: push_bit_eq_mult)
qed

lemma uleb_enc:
  assumes "0 < n" "d < 2 ^ s" "n * 2 ^ s < 2 ^ 64"
  shows "uleb (of_nat d) (of_nat s) (uleb_enc n @ p) = Some (of_nat (d + n * 2 ^ s), p)"
  using assms
proof (induction n arbitrary: d s rule: uleb_enc.induct)
  case (1 n)
  have "2 ^ s \<le> n * 2 ^ s" using "1.prems"(1) by simp
  then have "(2::nat) ^ s < 2 ^ 64" using "1.prems"(3) by (rule order_le_less_trans)
  then have s: "s < 64" by (rule power_less_imp_less_exp[rotated]) simp
  then have us: "unat (of_nat s :: u32) = s" and "(of_nat s :: u32) < 64"
    by (simp_all add: unsigned_of_nat take_bit_nat_eq_self word_less_nat_alt)
  then have add: "uleb_add (of_nat d) (of_nat s) b = of_nat d OR push_bit s (ucast (b AND 0x7F))" for b
    by (simp add: uleb_add_def)
  show ?case
  proof (cases "n < 128")
    case True
    then have "uleb_enc n = [of_nat n]" by (subst uleb_enc.simps) simp
    then show ?thesis
      using True or_push_add[OF "1.prems"(2) s True] by (simp add: uleb_Cons low7 add)
  next
    case False
    let ?c = "n mod 128" and ?d = "d + (n mod 128) * 2 ^ s"
    have c: "?c < 128" by simp
    have "n div 128 * 2 ^ (s + 7) = n div 128 * 128 * 2 ^ s" by (simp add: power_add)
    also have "\<dots> \<le> n * 2 ^ s" by (intro mult_right_mono) simp_all
    finally have lim: "n div 128 * 2 ^ (s + 7) < 2 ^ 64" using "1.prems"(3) by linarith
    have "?d < 2 ^ s + ?c * 2 ^ s" using "1.prems"(2) by simp
    also have "\<dots> = Suc ?c * 2 ^ s" by simp
    also have "\<dots> \<le> 128 * 2 ^ s" using c by (intro mult_right_mono) simp_all
    finally have d: "?d < 2 ^ (s + 7)" by (simp add: power_add)
    have "uleb_enc n = (of_nat ?c OR 0x80) # uleb_enc (n div 128)"
      using False by (subst uleb_enc.simps) simp
    then have "uleb (of_nat d) (of_nat s) (uleb_enc n @ p)
      = uleb (of_nat d OR push_bit s (of_nat ?c)) (of_nat s + 7) (uleb_enc (n div 128) @ p)"
      using low7(2,4)[OF c] by (simp add: uleb_Cons add)
    also have "of_nat d OR push_bit s (of_nat ?c) = (of_nat ?d :: u64)"
      using "1.prems"(2) s c by (rule or_push_add)
    also have "(of_nat s :: u32) + 7 = of_nat (s + 7)" by simp
    also have "uleb (of_nat ?d) (of_nat (s + 7)) (uleb_enc (n div 128) @ p)
      = Some (of_nat (?d + n div 128 * 2 ^ (s + 7)), p)"
      using False d lim by (intro "1.IH") auto
    also have "?d + n div 128 * 2 ^ (s + 7) = d + (n mod 128 + n div 128 * 128) * 2 ^ s"
    proof -
      have "d + r * P + q * (P * 128) = d + (r + q * 128) * P" for r q P :: nat
        by (simp add: algebra_simps)
      then show ?thesis by (simp only: power_add) simp
    qed
    also have "n mod 128 + n div 128 * 128 = n" by simp
    finally show ?thesis .
  qed
qed

lemma bounds_loop_encoded:
  assumes "sorted_wrt (<) (va # xs @ s # ys)" "\<forall>x \<in> set xs. x \<le> addr" "addr < s"
    and "last (st # xs) \<noteq> 0"
  shows "bounds_loop addr va st (encode_starts va (xs @ s # ys) @ rest) = Some (last (st # xs), s)"
  using assms
proof (induction xs arbitrary: va st)
  have step: "uleb 0 0 (uleb_enc (unat (t - va)) @ q) = Some (t - va, q) \<and> t - va \<noteq> 0"
    if "va < t" for va t :: u64 and q
  proof -
    have "0 < unat (t - va)" using that by (simp add: unat_gt_0)
    then show ?thesis
      using uleb_enc[of "unat (t - va)" 0 0 q] unat_u64_less[of "t - va"] by (auto simp: unat_gt_0)
  qed
  {
    case Nil
    with step[of va s] show ?case by (subst bounds_loop.simps) (auto simp: Let_def)
  next
    case (Cons x xs)
    let ?q = "encode_starts x (xs @ s # ys) @ rest"
    have "bounds_loop addr va st (encode_starts va ((x # xs) @ s # ys) @ rest) = bounds_loop addr x x ?q"
      using Cons.prems step[of va x] by (subst bounds_loop.simps) (simp add: Let_def)
    also have "\<dots> = Some (last (x # xs), s)"
      using Cons.prems by (intro Cons.IH) auto
    finally show ?case by simp
  }
qed

lemma bounds_loop_sound:
  assumes "bounds_loop addr va st p = Some (s, e)" "st = 0 \<or> st \<le> addr"
  shows "s \<noteq> 0 \<and> s \<le> addr \<and> addr < e \<and>
    (\<exists>xs ys. st # decode_starts va p = xs @ s # e # ys \<and> (\<forall>x \<in> set (tl (xs @ [s])). x \<le> addr))"
  using assms
proof (induction addr va st p rule: bounds_loop.induct)
  case (1 addr va st p)
  then obtain delta p' where u: "uleb 0 0 p = Some (delta, p')" and d: "delta \<noteq> 0"
    by (subst (asm) (2) bounds_loop.simps) (auto split: option.splits if_splits)
  let ?va = "va + delta"
  have dec: "decode_starts va p = ?va # decode_starts ?va p'"
    by (subst decode_starts.simps) (simp add: u d)
  show ?case
  proof (cases "?va \<le> addr")
    case True
    then have "bounds_loop addr ?va ?va p' = Some (s, e)"
      using "1.prems"(1) by (subst (asm) bounds_loop.simps) (simp add: u d Let_def)
    from "1.IH"[OF u refl d refl True this] True obtain xs ys where
      "s \<noteq> 0" "s \<le> addr" "addr < e" "?va # decode_starts ?va p' = xs @ s # e # ys"
      "\<forall>x \<in> set (tl (xs @ [s])). x \<le> addr" by auto
    moreover from this True have "\<forall>x \<in> set (xs @ [s]). x \<le> addr"
      by (cases xs) auto
    ultimately show ?thesis
      unfolding dec by (intro conjI exI[of _ "st # xs"] exI[of _ ys]) auto
  next
    case False
    then have "bounds_loop addr va st p = (if st = 0 then None else Some (st, ?va))"
      by (subst bounds_loop.simps) (simp add: u d Let_def)
    with "1.prems"(1) have "s = st" "e = ?va" "st \<noteq> 0" by (simp_all split: if_splits)
    then show ?thesis
      using False "1.prems"(2) unfolding dec by (intro conjI exI[of _ "[]"] exI[of _ "decode_starts ?va p'"]) auto
  qed
qed

section \<open>Lemmas: import stubs\<close>

text \<open>A stub slot: its section's address, stride and first index, and its number.\<close>

type_synonym stub_slot = "u64 \<times> u64 \<times> u64 \<times> nat"

fun section_slots :: "mem \<Rightarrow> u64 \<Rightarrow> u64 \<Rightarrow> nat \<Rightarrow> stub_slot list" where
  "section_slots m slide sect 0 = []"
| "section_slots m slide sect (Suc n) =
     (if is_stub_section m sect
      then let stride = ucast (sect_reserved2 m sect) in
        map (\<lambda>k. (sect_addr m sect + slide, stride, ucast (sect_reserved1 m sect), k))
          [0..<unat (sect_size m sect div stride)]
      else []) @ section_slots m slide (sect + SIZEOF_SECTION) n"

definition segment_slots :: "mem \<Rightarrow> u64 \<Rightarrow> u64 \<Rightarrow> stub_slot list" where
  "segment_slots m slide lc =
     (if lc_cmd m lc = LC_SEGMENT_64
      then section_slots m slide (seg_first_sect lc) (unat (seg_nsects m lc)) else [])"

definition image_slots :: "mem \<Rightarrow> u64 \<Rightarrow> u64 \<Rightarrow> stub_slot list" where
  "image_slots m mh slide = concat (map (segment_slots m slide) (image_lcs m mh))"

definition slot_name :: "mem \<Rightarrow> symbols_t \<Rightarrow> stub_slot \<Rightarrow> u64 option" where
  "slot_name m syms = (\<lambda>(base, stride, first, k). indirect_symbol_name m syms (first + of_nat k))"

definition slot_is :: "mem \<Rightarrow> symbols_t \<Rightarrow> cstring \<Rightarrow> stub_slot \<Rightarrow> bool" where
  "slot_is m syms symbol slot = (case slot_name m syms slot of None \<Rightarrow> False | Some nm \<Rightarrow> strcmp_eq m nm symbol)"

definition slot_addr :: "stub_slot \<Rightarrow> u64" where
  "slot_addr = (\<lambda>(base, stride, first, k). base + of_nat k * stride)"

lemma stub_slots_loop_run:
  "stub_slots_loop m syms symbol base stride first ks found =
     sole_run (slot_is m syms symbol) slot_addr found (map (\<lambda>k. (base, stride, first, k)) ks)"
  by (induction ks arbitrary: found)
    (auto simp: slot_is_def slot_name_def slot_addr_def Let_def split: option.split)

lemma stub_sections_loop_run:
  "stub_sections_loop m slide syms symbol sect n found =
     sole_run (slot_is m syms symbol) slot_addr found (section_slots m slide sect n)"
  by (induction n arbitrary: sect found)
    (simp_all add: stub_slots_loop_run sole_run_append Let_def split: sum.split)

text \<open>What the image must keep to for the search to see all of it.\<close>

definition stubs_readable :: "mem \<Rightarrow> u64 \<Rightarrow> bool" where
  "stubs_readable m mh \<longleftrightarrow> lcs_complete m mh \<and>
     list_all (\<lambda>lc. lc_cmd m lc = LC_SEGMENT_64 \<longrightarrow> segment_sections m lc \<noteq> None) (image_lcs m mh)"

lemma each_lc_sole:
  assumes "\<And>lc f. lc \<in> set (fst (lc_run m mh n c)) \<Longrightarrow> body lc f = sole_run hit val f (slots lc)"
    and "snd (lc_run m mh n c)"
  shows "each_lc m mh body corrupt n c found = sole_run hit val found (concat (map slots (fst (lc_run m mh n c))))"
  using assms
proof (induction n arbitrary: c found)
  case (Suc n)
  then obtain lc where lc: "lc_at m mh c = Some lc" by (auto split: option.splits)
  let ?c = "c + ucast (lc_cmdsize m lc)"
  have "\<And>lc f. lc \<in> set (fst (lc_run m mh n ?c)) \<Longrightarrow> body lc f = sole_run hit val f (slots lc)"
    "snd (lc_run m mh n ?c)" "body lc found = sole_run hit val found (slots lc)"
    using Suc.prems by (auto simp: lc split: prod.splits)
  with Suc.IH[of ?c] show ?case
    by (auto simp: lc sole_run_append split: prod.splits sum.split)
qed simp

lemma stub_for_symbol_sole:
  assumes "mh \<noteq> 0" "symbol \<noteq> []" "load_symbols m mh slide = Some syms" "stubs_readable m mh"
  shows "np_import_stub_for_symbol m mh slide symbol =
    sole_loop (slot_is m syms symbol) slot_addr 0 (image_slots m mh slide)"
proof -
  let ?body = "\<lambda>lc found. if lc_cmd m lc \<noteq> LC_SEGMENT_64 then Inr found
            else case segment_sections m lc of
              None \<Rightarrow> Inl 0
            | Some (sect, nsects) \<Rightarrow> stub_sections_loop m slide syms symbol sect nsects found"
  have body: "?body lc f = sole_run (slot_is m syms symbol) slot_addr f (segment_slots m slide lc)"
    if "lc \<in> set (image_lcs m mh)" for lc f
    using that assms(4)
    by (auto simp: stubs_readable_def list_all_iff segment_slots_def segment_sections_def
        stub_sections_loop_run split: if_splits)
  have "for_lcs m mh ?body 0 0 = sole_run (slot_is m syms symbol) slot_addr 0 (image_slots m mh slide)"
    unfolding for_lcs_def image_slots_def image_lcs_def
    by (rule each_lc_sole) (use body assms(4) in \<open>simp_all add: image_lcs_def stubs_readable_def lcs_complete_def\<close>)
  then show ?thesis
    using assms(1-3) by (simp add: np_import_stub_for_symbol_def sole_run_loop)
qed

text \<open>So the search for a symbol's stub meets the contract of searches for the only hit.\<close>

definition stub_search_ok :: "mem \<times> u64 \<times> u64 \<times> cstring \<times> symbols_t \<Rightarrow> bool" where
  "stub_search_ok = (\<lambda>(m, mh, slide, symbol, syms). mh \<noteq> 0 \<and> symbol \<noteq> [] \<and>
     load_symbols m mh slide = Some syms \<and> stubs_readable m mh \<and>
     list_all (\<lambda>slot. slot_addr slot \<noteq> 0) (image_slots m mh slide))"

interpretation stubs: sole_search
  "\<lambda>(m, mh, slide, symbol, syms). np_import_stub_for_symbol m mh slide symbol"
  "\<lambda>(m, mh, slide, symbol, syms). image_slots m mh slide"
  "\<lambda>(m, mh, slide, symbol, syms). slot_is m syms symbol"
  "\<lambda>_. slot_addr" stub_search_ok
  by unfold_locales
    (auto simp: stub_search_ok_def stub_for_symbol_sole list_all_iff)

section \<open>An image to evaluate on\<close>

text \<open>
  An image at address \<open>0x10000\<close>: a text segment with one function section, one stub, whose import is
  \<open>_puts\<close>, and the string \<open>npstr\<close>; a link-edit segment, symbol tables, and function starts at
  \<open>0x10400\<close>, \<open>0x10410\<close> and \<open>0x10440\<close>. The second function loads the string and calls the stub.
\<close>

definition sample_words :: "(u64 \<times> u32) list" where
  "sample_words =
     [(0x10000, 0xFEEDFACF), (0x10010, 0x5), (0x10014, 0x1A8), (0x10020, 0x19), (0x10024, 0xE8),
      (0x10028, 0x45545F5F), (0x1002C, 0x5458), (0x10038, 0x10400), (0x10040, 0x60), (0x10060,
      0x2), (0x10068, 0x65745F5F), (0x1006C, 0x7478), (0x10078, 0x45545F5F), (0x1007C, 0x5458),
      (0x10088, 0x10400), (0x10090, 0x40), (0x100B8, 0x74735F5F), (0x100BC, 0x736275), (0x100C8,
      0x45545F5F), (0x100CC, 0x5458), (0x100D8, 0x10440), (0x100E0, 0xC), (0x100F8, 0x80000408),
      (0x10100, 0xC), (0x10108, 0x19), (0x1010C, 0x48), (0x10110, 0x494C5F5F), (0x10114,
      0x44454B4E), (0x10118, 0x5449), (0x10120, 0x11000), (0x10128, 0x1000), (0x10130, 0x1000),
      (0x10138, 0x100), (0x10150, 0x2), (0x10154, 0x18), (0x10158, 0x1000), (0x1015C, 0x1),
      (0x10160, 0x1020), (0x10164, 0x10), (0x10168, 0xB), (0x1016C, 0x50), (0x101A0, 0x1030),
      (0x101A4, 0x1), (0x101B8, 0x26), (0x101BC, 0x10), (0x101C0, 0x1040), (0x101C4, 0x4),
      (0x10410, 0xD503237F), (0x10414, 0x90000000), (0x10418, 0x91114000), (0x1041C, 0x94000009),
      (0x10450, 0x7473706E), (0x10454, 0x72), (0x11000, 0x4), (0x11024, 0x7475705F), (0x11028,
      0x73), (0x11040, 0x30100880)]"

definition sample_image :: mem where
  "sample_image = word_mem sample_words"

lemma sample_load32: "take_bit 2 p = 0 \<Longrightarrow>
   load32 sample_image p = (case map_of sample_words p of None \<Rightarrow> 0 | Some w \<Rightarrow> w)"
  by (simp add: sample_image_def load32_word_mem)

lemma sample_load64: "take_bit 2 p = 0 \<Longrightarrow>
   load64 sample_image p = le64 (case map_of sample_words p of None \<Rightarrow> 0 | Some w \<Rightarrow> w)
    (case map_of sample_words (p + 4) of None \<Rightarrow> 0 | Some w \<Rightarrow> w)"
  by (simp add: sample_image_def load64_word_mem)

lemma sample_loads [sample_eval]:
  "load32 sample_image 0x10010 = 0x5"
  "load32 sample_image 0x10014 = 0x1A8"
  "load32 sample_image 0x10020 = 0x19"
  "load32 sample_image 0x10024 = 0xE8"
  "load32 sample_image 0x10108 = 0x19"
  "load32 sample_image 0x1010C = 0x48"
  "load32 sample_image 0x10150 = 0x2"
  "load32 sample_image 0x10154 = 0x18"
  "load32 sample_image 0x10168 = 0xB"
  "load32 sample_image 0x1016C = 0x50"
  "load32 sample_image 0x101B8 = 0x26"
  "load32 sample_image 0x101BC = 0x10"
  "load32 sample_image 0x10060 = 0x2"
  "load32 sample_image 0x10148 = 0x0"
  "load32 sample_image 0x10158 = 0x1000"
  "load32 sample_image 0x1015C = 0x1"
  "load32 sample_image 0x10160 = 0x1020"
  "load32 sample_image 0x10164 = 0x10"
  "load32 sample_image 0x101A0 = 0x1030"
  "load32 sample_image 0x101A4 = 0x1"
  "load32 sample_image 0x101C0 = 0x1040"
  "load32 sample_image 0x101C4 = 0x4"
  "load32 sample_image 0x100A8 = 0x0"
  "load32 sample_image 0x100AC = 0x0"
  "load32 sample_image 0x100B0 = 0x0"
  "load32 sample_image 0x100F8 = 0x80000408"
  "load32 sample_image 0x100FC = 0x0"
  "load32 sample_image 0x10100 = 0xC"
  "load32 sample_image 0x11000 = 0x4"
  "load32 sample_image 0x11030 = 0x0"
  by (simp_all add: sample_load32 sample_words_def)

lemma sample_loads64 [sample_eval]:
  "load64 sample_image 0x10038 = 0x10400"
  "load64 sample_image 0x10040 = 0x60"
  "load64 sample_image 0x10048 = 0x0"
  "load64 sample_image 0x10050 = 0x0"
  "load64 sample_image 0x10120 = 0x11000"
  "load64 sample_image 0x10128 = 0x1000"
  "load64 sample_image 0x10130 = 0x1000"
  "load64 sample_image 0x10138 = 0x100"
  "load64 sample_image 0x10088 = 0x10400"
  "load64 sample_image 0x10090 = 0x40"
  "load64 sample_image 0x100D8 = 0x10440"
  "load64 sample_image 0x100E0 = 0xC"
  by (simp_all add: sample_load64 sample_words_def le64_def)

lemma sample_bytes [sample_eval]:
  "sample_image 0x10028 = 0x5F"
  "sample_image 0x10029 = 0x5F"
  "sample_image 0x1002A = 0x54"
  "sample_image 0x1002B = 0x45"
  "sample_image 0x1002C = 0x58"
  "sample_image 0x1002D = 0x54"
  "sample_image 0x1002E = 0x0"
  "sample_image 0x10110 = 0x5F"
  "sample_image 0x10111 = 0x5F"
  "sample_image 0x10112 = 0x4C"
  "sample_image 0x10113 = 0x49"
  "sample_image 0x10114 = 0x4E"
  "sample_image 0x10115 = 0x4B"
  "sample_image 0x10116 = 0x45"
  "sample_image 0x10117 = 0x44"
  "sample_image 0x10118 = 0x49"
  "sample_image 0x10119 = 0x54"
  "sample_image 0x1011A = 0x0"
  "sample_image 0x10068 = 0x5F"
  "sample_image 0x10069 = 0x5F"
  "sample_image 0x1006A = 0x74"
  "sample_image 0x1006B = 0x65"
  "sample_image 0x1006C = 0x78"
  "sample_image 0x1006D = 0x74"
  "sample_image 0x1006E = 0x0"
  "sample_image 0x100B8 = 0x5F"
  "sample_image 0x100B9 = 0x5F"
  "sample_image 0x100BA = 0x73"
  "sample_image 0x100BB = 0x74"
  "sample_image 0x100BC = 0x75"
  "sample_image 0x100BD = 0x62"
  "sample_image 0x100BE = 0x73"
  "sample_image 0x100BF = 0x0"
  "sample_image 0x11024 = 0x5F"
  "sample_image 0x11025 = 0x70"
  "sample_image 0x11026 = 0x75"
  "sample_image 0x11027 = 0x74"
  "sample_image 0x11028 = 0x73"
  "sample_image 0x11029 = 0x0"
  "sample_image 0x11040 = 0x80"
  "sample_image 0x11041 = 0x8"
  "sample_image 0x11042 = 0x10"
  "sample_image 0x11043 = 0x30"
  by (simp_all add: sample_image_def word_mem_def sample_words_def)

lemma NAME_LEN_Suc:
  "NAME_LEN = Suc (Suc (Suc (Suc (Suc (Suc (Suc (Suc (Suc (Suc (Suc (Suc (Suc (Suc (Suc (Suc 0)))))))))))))))"
  by (simp add: NAME_LEN_def)

text \<open>The loops that count down from a number, at a numeral.\<close>

lemma countdown_numeral:
  "each_lc m mh body corrupt (numeral v) cursor s =
     (case lc_at m mh cursor of None \<Rightarrow> Inl corrupt
      | Some lc \<Rightarrow> (case body lc s of Inl r \<Rightarrow> Inl r
        | Inr s' \<Rightarrow> each_lc m mh body corrupt (pred_numeral v) (cursor + ucast (lc_cmdsize m lc)) s'))"
  "lc_run m mh (numeral v) cursor =
     (case lc_at m mh cursor of None \<Rightarrow> ([], False)
      | Some lc \<Rightarrow> (let (cs, done) = lc_run m mh (pred_numeral v) (cursor + ucast (lc_cmdsize m lc)) in (lc # cs, done)))"
  "section_containing_loop m slide addr sect (numeral v) =
     (let base = sect_addr m sect + slide in
      if addr < base \<or> addr \<ge> base + sect_size m sect
      then section_containing_loop m slide addr (sect + SIZEOF_SECTION) (pred_numeral v)
      else Some (base, sect_size m sect))"
  by (simp_all only: numeral_eq_Suc each_lc.simps lc_run.simps section_containing_loop.simps)

lemma sample_names [sample_eval]:
  "strncmp_eq sample_image 0x10028 SEG_LINKEDIT NAME_LEN = False"
  "strncmp_eq sample_image 0x10110 SEG_LINKEDIT NAME_LEN"
  "strcmp_eq sample_image 0x10028 SEG_LINKEDIT = False"
  "strcmp_eq sample_image 0x10110 SEG_LINKEDIT"
  "strncmp_eq sample_image 0x10028 (cstr ''__TEXT'') NAME_LEN"
  "strcmp_eq sample_image 0x11024 (cstr ''_puts'')"
  by (simp_all add: SEG_LINKEDIT_def cstr_def NAME_LEN_Suc sample_eval)

lemma sample_lc_at [sample_eval]:
  "lc_at sample_image 0x10000 0x10020 = Some 0x10020"
  "lc_at sample_image 0x10000 0x10108 = Some 0x10108"
  "lc_at sample_image 0x10000 0x10150 = Some 0x10150"
  "lc_at sample_image 0x10000 0x10168 = Some 0x10168"
  "lc_at sample_image 0x10000 0x101B8 = Some 0x101B8"
  by (simp_all add: lc_at_def lc_ok_def sample_eval SIZEOF_LC_def)

lemma for_lcs_sample:
  "for_lcs sample_image 0x10000 body corrupt s = each_lc sample_image 0x10000 body corrupt 5 0x10020 s"
  by (simp add: for_lcs_def sample_eval)

lemmas macho_consts = LC_SYMTAB_def LC_DYSYMTAB_def LC_SEGMENT_64_def LC_FUNCTION_STARTS_def
  SECTION_TYPE_def S_NON_LAZY_SYMBOL_POINTERS_def S_LAZY_SYMBOL_POINTERS_def S_SYMBOL_STUBS_def
  INDIRECT_SYMBOL_LOCAL_def INDIRECT_SYMBOL_ABS_def SIZEOF_LC_def SIZEOF_SEGMENT_def SIZEOF_SECTION_def
  SIZEOF_SYMTAB_def SIZEOF_DYSYMTAB_def SIZEOF_LINKEDIT_DATA_def SIZEOF_NLIST_def

lemma sample_segment: "np_find_segment sample_image 0x10000 0 (cstr ''__TEXT'') = Some (0x10400, 0x60)"
  by (simp add: np_find_segment_def for_lcs_sample countdown_numeral is_segment_def macho_consts sample_eval)

lemma sample_section: "np_get_section_containing sample_image 0x10000 0 0x10420 = Some (0x10400, 0x40)"
  by (simp add: np_get_section_containing_def for_lcs_sample countdown_numeral is_segment_def sections_fit_lc_def macho_consts sample_eval)

lemma sample_fn_starts: "fn_starts_table sample_image 0x10000 0 = Some (0x11040, 4)"
  by (simp add: fn_starts_table_def for_lcs_sample countdown_numeral fn_starts_body_def is_segment_def macho_consts sample_eval)

lemma sample_symbols: "load_symbols sample_image 0x10000 0 = Some
  \<lparr>sy_syms = 0x11000, sy_nsyms = 1, sy_strings = 0x11020, sy_strsize = 0x10, sy_indirect = 0x11030, sy_nindirect = 1\<rparr>"
  by (simp add: load_symbols_def for_lcs_sample countdown_numeral load_symbols_body_def is_segment_def
      in_linkedit_def macho_consts sample_eval)

lemma sample_image_lcs:
  "image_lcs sample_image 0x10000 = [0x10020, 0x10108, 0x10150, 0x10168, 0x101B8]"
  "lcs_complete sample_image 0x10000"
  by (simp_all add: image_lcs_def lcs_complete_def sample_eval countdown_numeral)

lemma sample_slots: "image_slots sample_image 0x10000 0 = [(0x10440, 12, 0, 0)]"
proof -
  have two: "section_slots m slide sect 2 = section_slots m slide sect (Suc (Suc 0))" for m slide sect
    by (simp add: numeral_2_eq_2)
  show ?thesis
    by (simp add: image_slots_def sample_image_lcs segment_slots_def macho_consts sample_eval two
        is_stub_section_def)
qed

section \<open>Properties\<close>

text \<open>Every load command that any walk over an image reads lies, whole, between the image's header
  and the end of its commands, whatever the command sizes in the image are.\<close>

theorem walk_stays_in_header:
  assumes "lc \<in> set (image_lcs m mh)"
  shows "first_lc mh \<le> lc \<and> 8 \<le> unat (lc_cmdsize m lc) \<and>
    unat lc + unat (lc_cmdsize m lc) \<le> unat (first_lc mh + ucast (mh_sizeofcmds m mh))"
  using image_lcs_bounds[OF assms] by simp

theorem walk_stays_in_header_witness:
  "first_lc 0x10000 \<le> (0x10108 :: u64) \<and> unat (0x10108 :: u64) + 72 \<le> 0x101C8"
proof -
  have "0x10108 \<in> set (image_lcs sample_image 0x10000)"
    by (simp add: image_lcs_def sample_eval countdown_numeral)
  from walk_stays_in_header[OF this] show ?thesis by (simp add: sample_eval)
qed

text \<open>Looking up a segment answers the address and size of the first segment command of that name
  among the commands of the image.\<close>

theorem find_segment_first:
  assumes "mh \<noteq> 0"
  shows "np_find_segment m mh slide name =
    map_option (\<lambda>lc. (seg_vmaddr m lc + slide, seg_vmsize m lc))
      (find (\<lambda>lc. is_segment m lc \<and> strncmp_eq m (seg_name lc) name NAME_LEN) (image_lcs m mh))"
  using assms by (rule find_segment_find)

theorem find_segment_first_witness:
  "map_option (\<lambda>lc. (seg_vmaddr sample_image lc + 0, seg_vmsize sample_image lc))
      (find (\<lambda>lc. is_segment sample_image lc \<and> strncmp_eq sample_image (seg_name lc) (cstr ''__TEXT'') NAME_LEN)
        (image_lcs sample_image 0x10000)) = Some (0x10400, 0x60)"
  using find_segment_first[of "0x10000" sample_image 0 "cstr ''__TEXT''"] sample_segment by simp

text \<open>A section found for an address contains it, and its header lies inside the command of a
  segment of the image.\<close>

theorem section_contains_address:
  assumes "np_get_section_containing m mh slide addr = Some (b, sz)"
  shows "b \<le> addr \<and> addr < b + sz \<and>
    (\<exists>lc \<in> set (image_lcs m mh). \<exists>i. is_segment m lc \<and>
       72 + 80 * (i + 1) \<le> unat (lc_cmdsize m lc) \<and>
       b = sect_addr m (seg_first_sect lc + of_nat i * 80) + slide \<and>
       sz = sect_size m (seg_first_sect lc + of_nat i * 80))"
proof -
  let ?f = "\<lambda>lc. if is_segment m lc then
      if \<not> sections_fit_lc m lc then Some None
      else map_option Some (section_containing_loop m slide addr (seg_first_sect lc) (unat (seg_nsects m lc)))
    else None"
  have "mh \<noteq> 0" using assms by (auto simp: np_get_section_containing_def)
  then have "np_get_section_containing m mh slide addr
      = (case first_some ?f (image_lcs m mh) of Some r \<Rightarrow> r | None \<Rightarrow> None)"
    unfolding np_get_section_containing_def
    by (simp only: if_False) (rule for_lcs_search, auto split: option.split)
  with assms have "first_some ?f (image_lcs m mh) = Some (Some (b, sz))" by (simp split: option.splits)
  from first_some_in[OF this] obtain lc where lc: "lc \<in> set (image_lcs m mh)" "is_segment m lc"
    "sections_fit_lc m lc"
    "section_containing_loop m slide addr (seg_first_sect lc) (unat (seg_nsects m lc)) = Some (b, sz)"
    by (auto split: if_splits)
  from section_containing_loop_some[OF lc(4)] obtain i where i: "i < unat (seg_nsects m lc)"
    "b = sect_addr m (seg_first_sect lc + of_nat i * SIZEOF_SECTION) + slide"
    "sz = sect_size m (seg_first_sect lc + of_nat i * SIZEOF_SECTION)" "b \<le> addr" "addr < b + sz"
    by (auto simp: Let_def)
  have "72 + 80 * (i + 1) \<le> unat (lc_cmdsize m lc)"
    using sections_fit_bound[OF lc(2,3)] i(1) by simp
  with lc i show ?thesis unfolding SIZEOF_SECTION_def by blast
qed

theorem section_contains_address_witness:
  "(0x10400 :: u64) \<le> 0x10420 \<and> (0x10420 :: u64) < 0x10400 + 0x40 \<and> image_lcs sample_image 0x10000 \<noteq> []"
  using section_contains_address[OF sample_section] by fastforce

text \<open>In an image whose table of function starts lists strictly increasing addresses, the bounds of
  an address are the last start at or before it and the next start: decoding the table's
  variable-length distances loses nothing.\<close>

theorem function_bounds_encoded:
  assumes "mh \<noteq> 0" "fn_starts_table m mh slide = Some (p, len)" "p \<noteq> 0"
    and "table_bytes m p (unat len) = encode_starts mh starts @ rest"
    and "sorted_wrt (<) (mh # starts)" "Suc i < length starts"
    and "starts ! i \<le> addr" "addr < starts ! Suc i"
  shows "np_function_bounds m mh slide addr = Some (starts ! i, starts ! Suc i)"
proof -
  let ?xs = "take (Suc i) starts"
  have split: "starts = ?xs @ starts ! Suc i # drop (Suc (Suc i)) starts"
    using assms(6) by (simp add: Cons_nth_drop_Suc)
  have mono: "j < k \<Longrightarrow> k < length starts \<Longrightarrow> starts ! j < starts ! k" for j k
    using assms(5) sorted_wrt_iff_nth_less[of "(<)" starts] by simp
  have "x \<le> addr" if x: "x \<in> set ?xs" for x
  proof -
    from x obtain j where "j \<le> i" "x = starts ! j" by (auto simp: in_set_conv_nth less_Suc_eq_le)
    with mono[of j i] assms(6,7) show ?thesis by (cases "j = i") auto
  qed
  moreover have last: "last (0 # ?xs) = starts ! i"
    using assms(6) by (simp add: take_Suc_conv_app_nth)
  moreover have "mh < starts ! i" using assms(5,6) by simp
  then have "starts ! i \<noteq> 0" by auto
  ultimately have "bounds_loop addr mh 0 (encode_starts mh starts @ rest) = Some (starts ! i, starts ! Suc i)"
    using bounds_loop_encoded[of mh ?xs "starts ! Suc i" "drop (Suc (Suc i)) starts" addr 0 rest]
      assms(5,8) split by simp
  then show ?thesis using assms(1-4) by (simp add: np_function_bounds_def)
qed

theorem function_bounds_encoded_witness:
  "np_function_bounds sample_image 0x10000 0 0x10438 = Some (0x10410, 0x10440)"
proof -
  have "encode_starts 0x10000 [0x10400, 0x10410, 0x10440] = [0x80, 0x08, 0x10, 0x30]"
    by (simp add: uleb_enc.simps)
  moreover have "table_bytes sample_image 0x11040 (unat (4 :: u64)) = [0x80, 0x08, 0x10, 0x30]"
    by (simp add: table_bytes_def sample_eval upt_rec)
  ultimately have "table_bytes sample_image 0x11040 (unat (4 :: u64))
      = encode_starts 0x10000 [0x10400, 0x10410, 0x10440] @ []" by simp
  from function_bounds_encoded[OF _ sample_fn_starts _ this, of 1 "0x10438"] show ?thesis by simp
qed

text \<open>Whatever the table holds, bounds that are found enclose the address and are two consecutive
  starts of the table, the first start beyond the address being the end.\<close>

theorem function_bounds_sound:
  assumes "np_function_bounds m mh slide addr = Some (s, e)"
  shows "s \<noteq> 0 \<and> s \<le> addr \<and> addr < e \<and>
    (\<exists>p len xs ys. fn_starts_table m mh slide = Some (p, len) \<and>
       decode_starts mh (table_bytes m p (unat len)) = xs @ s # e # ys \<and> (\<forall>x \<in> set xs. x \<le> addr))"
proof -
  from assms obtain p len where t: "fn_starts_table m mh slide = Some (p, len)"
    and b: "bounds_loop addr mh 0 (table_bytes m p (unat len)) = Some (s, e)"
    by (auto simp: np_function_bounds_def split: option.splits if_splits)
  from bounds_loop_sound[OF b] obtain xs ys where
    se: "s \<noteq> 0" "s \<le> addr" "addr < e"
    and dec: "0 # decode_starts mh (table_bytes m p (unat len)) = xs @ s # e # ys"
    and le: "\<forall>x \<in> set (tl (xs @ [s])). x \<le> addr" by auto
  from dec se(1) obtain xs' where "xs = 0 # xs'" by (cases xs) auto
  with dec le have "decode_starts mh (table_bytes m p (unat len)) = xs' @ s # e # ys"
    "\<forall>x \<in> set xs'. x \<le> addr" by auto
  with se t show ?thesis by blast
qed

theorem function_bounds_sound_witness:
  "(0x10410 :: u64) \<le> 0x10438 \<and> (0x10438 :: u64) < 0x10440"
proof -
  have "np_function_bounds sample_image 0x10000 0 0x10438 = Some (0x10410, 0x10440)"
  proof -
    have "table_bytes sample_image 0x11040 (unat (4 :: u64)) = [0x80, 0x08, 0x10, 0x30]"
      by (simp add: table_bytes_def sample_eval upt_rec)
    then show ?thesis
      by (simp add: np_function_bounds_def sample_fn_starts bounds_loop.simps uleb_Cons uleb_add_def)
  qed
  from function_bounds_sound[OF this] show ?thesis by blast
qed

text \<open>Looking up the stub of an imported symbol answers the address of the only stub whose
  indirect symbol has that name, over every stub section of every segment, and 0 when there is
  none or more than one.\<close>

theorem stub_for_symbol_only:
  assumes "mh \<noteq> 0" "symbol \<noteq> []" "load_symbols m mh slide = Some syms" "stubs_readable m mh"
    and "\<forall>slot \<in> set (image_slots m mh slide). slot_addr slot \<noteq> 0"
  shows "np_import_stub_for_symbol m mh slide symbol =
    (case filter (slot_is m syms symbol) (image_slots m mh slide) of
       [slot] \<Rightarrow> slot_addr slot | _ \<Rightarrow> 0)"
  using stubs.search_filter[of "(m, mh, slide, symbol, syms)"] assms
  by (simp add: stub_search_ok_def list_all_iff)

theorem stub_for_symbol_only_witness:
  "np_import_stub_for_symbol sample_image 0x10000 0 (cstr ''_puts'') = 0x10440"
proof -
  let ?syms = "\<lparr>sy_syms = 0x11000, sy_nsyms = 1, sy_strings = 0x11020, sy_strsize = 0x10,
    sy_indirect = 0x11030, sy_nindirect = 1\<rparr>"
  have ne: "cstr ''_puts'' \<noteq> []" by (simp add: cstr_def)
  have ok: "stubs_readable sample_image 0x10000"
    by (simp add: stubs_readable_def sample_image_lcs segment_sections_def sections_fit_lc_def
        macho_consts sample_eval)
  have "slot_is sample_image ?syms (cstr ''_puts'') (0x10440, 12, 0, 0)"
    by (simp add: slot_is_def slot_name_def indirect_symbol_name_def macho_consts sample_eval)
  then show ?thesis
    using stub_for_symbol_only[OF _ ne sample_symbols ok] by (simp add: sample_slots slot_addr_def)
qed

definition tables_in :: "mem \<Rightarrow> u64 \<Rightarrow> u64 \<Rightarrow> symbols_t \<Rightarrow> bool" where
  "tables_in m slide le syms =
     (let base = slide + seg_vmaddr m le - seg_fileoff m le in
      in_linkedit m le (sy_syms syms - base) (ucast (sy_nsyms syms) * SIZEOF_NLIST) \<and>
      in_linkedit m le (sy_strings syms - base) (ucast (sy_strsize syms)) \<and>
      in_linkedit m le (sy_indirect syms - base) (ucast (sy_nindirect syms) * 4))"

lemma each_lc_inv:
  assumes "each_lc m mh body corrupt n c s = Inr s'" "P s"
    and "\<And>lc s t. lc \<in> set (fst (lc_run m mh n c)) \<Longrightarrow> P s \<Longrightarrow> body lc s = Inr t \<Longrightarrow> P t"
  shows "P s'"
  using assms
proof (induction n arbitrary: c s)
  case (Suc n)
  then obtain lc t where lc: "lc_at m mh c = Some lc" "body lc s = Inr t"
    and run: "each_lc m mh body corrupt n (c + ucast (lc_cmdsize m lc)) t = Inr s'"
    by (auto split: option.splits sum.splits)
  have "P t" by (rule Suc.prems(3)[OF _ Suc.prems(2) lc(2)]) (simp add: lc split: prod.split)
  from run this show ?case
    by (rule Suc.IH) (rule Suc.prems(3), simp_all add: lc case_prod_beta)
qed simp

lemma each_lc_return:
  "each_lc m mh body corrupt n c s = Inl r \<Longrightarrow> r = corrupt \<or> (\<exists>lc t. body lc t = Inl r)"
  by (induction n arbitrary: c s) (auto split: option.splits sum.splits)

text \<open>Symbol tables that load lie inside the file contents of one link-edit segment command of the
  image: the symbols, the strings and the indirect symbols, each with its whole length.\<close>

theorem symbols_in_linkedit:
  assumes "load_symbols m mh slide = Some syms"
  shows "sy_nindirect syms \<noteq> 0 \<and>
    (\<exists>le \<in> set (image_lcs m mh). is_segment m le \<and> strcmp_eq m (seg_name le) SEG_LINKEDIT \<and>
       tables_in m slide le syms)"
proof -
  let ?loop = "for_lcs m mh (load_symbols_body m) None (None, None, None)"
  have "load_symbols_body m lc t \<noteq> Inl r" for lc t r
    by (simp add: load_symbols_body_def split: prod.split)
  then have "?loop \<noteq> Inl (Some syms)"
    using each_lc_return[of m mh "load_symbols_body m" None _ _ "(None, None, None)" "Some syms"]
    by (fastforce simp: for_lcs_def)
  with assms obtain sy dy le where run: "?loop = Inr (Some sy, Some dy, Some le)"
    by (auto simp: load_symbols_def split: sum.splits prod.splits option.splits)
  define P where "P = (\<lambda>st :: u64 option \<times> u64 option \<times> u64 option. case snd (snd st) of None \<Rightarrow> True
    | Some le \<Rightarrow> le \<in> set (image_lcs m mh) \<and> is_segment m le \<and> strcmp_eq m (seg_name le) SEG_LINKEDIT)"
  have "P (Some sy, Some dy, Some le)"
  proof (rule each_lc_inv[OF run[unfolded for_lcs_def]])
    show "P (None, None, None)" by (simp add: P_def)
    show "P t" if "lc \<in> set (fst (lc_run m mh (unat (mh_ncmds m mh)) (first_lc mh)))" "P st"
      "load_symbols_body m lc st = Inr t" for lc st t
      using that by (auto simp: P_def load_symbols_body_def image_lcs_def split: prod.splits if_splits option.splits)
  qed
  then have le: "le \<in> set (image_lcs m mh)" "is_segment m le" "strcmp_eq m (seg_name le) SEG_LINKEDIT"
    by (simp_all add: P_def)
  have "sy_nindirect syms \<noteq> 0 \<and> tables_in m slide le syms"
    using assms unfolding load_symbols_def run
    by (auto simp: Let_def tables_in_def split: if_splits)
  with le show ?thesis by blast
qed

theorem symbols_in_linkedit_witness:
  "\<exists>le \<in> set (image_lcs sample_image 0x10000). is_segment sample_image le"
  using symbols_in_linkedit[OF sample_symbols] by blast

end
