(* ===== verification/Anchor.thy ===== *)
theory Anchor
  imports A64 Macho "HOL-Library.Sublist"
begin

text \<open>
  Anchor-based function resolution, \<^verbatim>\<open>dylib/resolver/anchor.c\<close>: from a string, a pointer slot, an
  RTTI type name or a sequence of calls to the address of a function. Every search gives up (0)
  when its answer is not the only one, unless an ordinal is given. Loops over a segment's bytes or
  slots count on naturals, which is exact because no segment's size is within a string's length of
  \<open>2\<^sup>6\<^sup>4\<close>. What \<open>sel_getUid\<close> of the Objective-C runtime answers is the parameter \<open>uniqued\<close>
  (0 where the runtime is absent).
\<close>

section \<open>Anchors\<close>

datatype np_match_kind =
    NP_MATCH_NONE | NP_MATCH_STRING | NP_MATCH_VTABLE_SLOT | NP_MATCH_INSN_AFTER_STRING
  | NP_MATCH_INSN_PAIR_IN_FN | NP_MATCH_AOB | NP_MATCH_CALL_TARGET | NP_MATCH_CALLS
  | NP_MATCH_RTTI_SLOT

definition NP_CALL_PATH_MAX :: int where "NP_CALL_PATH_MAX = 4"
definition NP_CALLS_MAX :: nat where "NP_CALLS_MAX = 8"
definition NP_CALL_NAME_MAX :: nat where "NP_CALL_NAME_MAX = 96"
definition NP_SELECTOR_MARK :: u8 where "NP_SELECTOR_MARK = 64"
definition NP_FN_SPAN_MAX :: u64 where "NP_FN_SPAN_MAX = 0x400"
definition MAX_CALLER_HOPS :: int where "MAX_CALLER_HOPS = 4"
definition DEFAULT_INSN :: u32 where "DEFAULT_INSN = 0xD63F0000"
definition DEFAULT_INSN_MASK :: u32 where "DEFAULT_INSN_MASK = 0xFFFFFC1F"

record np_insn_pair =
  ip_first :: u32
  ip_first_mask :: u32
  ip_second :: u32
  ip_second_mask :: u32
  ip_tie_mask :: u32
  ip_land_on_second :: bool

record np_anchor =
  an_kind :: np_match_kind
  an_str :: cstring
  an_va :: u64
  an_insn :: u32
  an_insn_mask :: u32
  an_nth :: int
  an_nth_xref :: int
  an_pair :: np_insn_pair
  an_indirect :: bool
  an_caller_hops :: int
  an_caller_tail :: bool
  an_call_path :: "int list"
  an_call_depth :: int
  an_calls :: "cstring list"
  an_call_count :: int
  an_calls_exact :: bool
  an_no_data_refs :: bool
  an_slot :: int

definition data_segs :: "cstring list" where
  "data_segs = [cstr ''__DATA_CONST'', cstr ''__DATA'']"

definition cstring_segs :: "cstring list" where
  "cstring_segs = [cstr ''__TEXT'', cstr ''__DATA_CONST'', cstr ''__DATA'']"

text \<open>The first character of a C string, its terminator when it is empty.\<close>

definition first_char :: "cstring \<Rightarrow> u8" where
  "first_char s = (case s of [] \<Rightarrow> 0 | c # _ \<Rightarrow> c)"

definition memcmp_eq :: "mem \<Rightarrow> u64 \<Rightarrow> cstring \<Rightarrow> bool" where
  "memcmp_eq m p s = list_all (\<lambda>i. m (p + of_nat i) = s ! i) [0..<length s]"

section \<open>Strings and references to them\<close>

text \<open>The loop over a segment's offsets: \<open>Inl\<close> returns from the function, \<open>off\<close> skips a match.\<close>

function cstring_loop :: "mem \<Rightarrow> u64 \<Rightarrow> nat \<Rightarrow> cstring \<Rightarrow> nat \<Rightarrow> u64 \<Rightarrow> u64 + u64" where
  "cstring_loop m seg_base seg_size needle off result =
     (if off + length needle < seg_size then
        let p = seg_base + of_nat off in
        if m p \<noteq> first_char needle \<or> \<not> memcmp_eq m p needle \<or> m (p + of_nat (length needle)) \<noteq> 0
        then cstring_loop m seg_base seg_size needle (Suc off) result
        else if result \<noteq> 0 then Inl 0
        else cstring_loop m seg_base seg_size needle (Suc (off + length needle)) p
      else Inr result)"
  by pat_completeness auto
termination
  by (relation "measure (\<lambda>(_, _, seg_size, _, off, _). seg_size - off)") auto

declare cstring_loop.simps [simp del]

fun cstring_segs_loop :: "mem \<Rightarrow> u64 \<Rightarrow> u64 \<Rightarrow> cstring \<Rightarrow> cstring list \<Rightarrow> u64" where
  "cstring_segs_loop m mh slide needle [] = 0"
| "cstring_segs_loop m mh slide needle (seg # segs) =
     (case np_find_segment m mh slide seg of
        None \<Rightarrow> cstring_segs_loop m mh slide needle segs
      | Some (seg_base, seg_size) \<Rightarrow>
          if unat seg_size \<le> length needle then cstring_segs_loop m mh slide needle segs
          else (case cstring_loop m seg_base (unat seg_size) needle 0 0 of
              Inl r \<Rightarrow> r
            | Inr result \<Rightarrow>
                if result \<noteq> 0 then result else cstring_segs_loop m mh slide needle segs))"

definition cstring_va :: "mem \<Rightarrow> u64 \<Rightarrow> u64 \<Rightarrow> cstring \<Rightarrow> u64" where
  "cstring_va m mh slide needle = cstring_segs_loop m mh slide needle cstring_segs"

text \<open>What a pair of words at \<open>p\<close> refers to: ADRP with ADD, or with LDR when \<open>indirect\<close>; 0 if nothing.\<close>

definition ref_at :: "mem \<Rightarrow> bool \<Rightarrow> u64 \<Rightarrow> u64" where
  "ref_at m indirect p =
     (let w = load32 m p; page = adrp_target p w in
      if page = 0 then 0
      else if indirect then ldr_slot_addr (load32 m (p + 4)) (adrp_reg w) page
      else add_imm_target (load32 m (p + 4)) (adrp_reg w) page)"

fun xref_loop :: "mem \<Rightarrow> u64 \<Rightarrow> u64 \<Rightarrow> int \<Rightarrow> bool \<Rightarrow> nat list \<Rightarrow> u64 \<Rightarrow> int \<Rightarrow> u64" where
  "xref_loop m text target ordn indirect [] first seen = (if ordn > 0 then 0 else first)"
| "xref_loop m text target ordn indirect (i # is) first seen =
     (let p = text + of_nat i * 4; addr = ref_at m indirect p in
      if addr = 0 \<or> addr \<noteq> target then xref_loop m text target ordn indirect is first seen
      else if ordn > 0 then
        (if seen + 1 = ordn then p else xref_loop m text target ordn indirect is first (seen + 1))
      else if first \<noteq> 0 then 0
      else xref_loop m text target ordn indirect is p (seen + 1))"

definition xref_to_va :: "mem \<Rightarrow> u64 \<Rightarrow> u64 \<Rightarrow> u64 \<Rightarrow> int \<Rightarrow> bool \<Rightarrow> u64" where
  "xref_to_va m text text_sz target ordn indirect =
     (let words = unat (text_sz div 4) in
      if words < 2 then 0 else xref_loop m text target ordn indirect [0..<words - 1] 0 0)"

fun slot_loop :: "mem \<Rightarrow> u64 \<Rightarrow> u64 \<Rightarrow> u64 \<Rightarrow> nat list \<Rightarrow> u64 \<Rightarrow> u64" where
  "slot_loop m seg a b [] found = found"
| "slot_loop m seg a b (i # is) found =
     (let v = load64 m (seg + of_nat i * 8) in
      if v \<noteq> a \<and> \<not> (b \<noteq> 0 \<and> v = b) then slot_loop m seg a b is found
      else if found \<noteq> 0 then 0
      else slot_loop m seg a b is (seg + of_nat i * 8))"

definition slot_holding :: "mem \<Rightarrow> u64 \<Rightarrow> u64 \<Rightarrow> u64 \<Rightarrow> u64 \<Rightarrow> u64" where
  "slot_holding m seg seg_sz a b =
     (if seg_sz < 8 then 0 else slot_loop m seg a b [0..<unat (seg_sz div 8)] 0)"

section \<open>Functions and their callers\<close>

text \<open>The code section, when it lies inside the text that is searched.\<close>

definition usable_code :: "mem \<Rightarrow> u64 \<Rightarrow> u64 \<Rightarrow> u64 \<Rightarrow> u64 \<Rightarrow> (u64 \<times> u64) option" where
  "usable_code m mh slide text text_sz =
     (case np_find_section m mh slide (cstr ''__TEXT'') (cstr ''__text'') of
        None \<Rightarrow> None
      | Some (code, code_sz) \<Rightarrow>
          if code < text \<or> code - text > text_sz \<or> code_sz > text_sz - (code - text) then None
          else Some (code, code_sz))"

definition containing_fn :: "mem \<Rightarrow> u64 \<Rightarrow> u64 \<Rightarrow> u64 \<Rightarrow> u64 \<Rightarrow> u64 \<Rightarrow> u64" where
  "containing_fn m mh slide text text_sz pc =
     (case usable_code m mh slide text text_sz of
        None \<Rightarrow> 0
      | Some (code, code_sz) \<Rightarrow>
          (case np_function_bounds m mh slide pc of
             None \<Rightarrow> 0
           | Some (start, fin) \<Rightarrow>
               if start < code \<or> fin > code + (code_sz AND NOT 3) \<or> (start OR fin) AND 3 \<noteq> 0 then 0
               else start))"

definition calls_at :: "mem \<Rightarrow> u64 \<Rightarrow> u64 \<Rightarrow> u64 \<Rightarrow> u64 \<Rightarrow> u64 \<Rightarrow> bool \<Rightarrow> u64 \<Rightarrow> bool" where
  "calls_at m mh slide text text_sz callee tail pc =
     (let t = (if tail then b_target pc (load32 m pc) else bl_target pc (load32 m pc)) in
      if t \<noteq> callee then False
      else \<not> (tail \<and> containing_fn m mh slide text text_sz pc = callee))"

fun caller_loop :: "mem \<Rightarrow> u64 \<Rightarrow> u64 \<Rightarrow> u64 \<Rightarrow> u64 \<Rightarrow> u64 \<Rightarrow> bool \<Rightarrow> nat list \<Rightarrow> u64 \<Rightarrow> u64" where
  "caller_loop m mh slide text text_sz callee tail [] found =
     (if found \<noteq> 0 then containing_fn m mh slide text text_sz found else 0)"
| "caller_loop m mh slide text text_sz callee tail (i # is) found =
     (let pc = text + of_nat i * 4 in
      if \<not> calls_at m mh slide text text_sz callee tail pc
      then caller_loop m mh slide text text_sz callee tail is found
      else if found \<noteq> 0 then 0
      else caller_loop m mh slide text text_sz callee tail is pc)"

definition sole_caller :: "mem \<Rightarrow> u64 \<Rightarrow> u64 \<Rightarrow> u64 \<Rightarrow> u64 \<Rightarrow> u64 \<Rightarrow> bool \<Rightarrow> u64" where
  "sole_caller m mh slide text text_sz callee tail =
     caller_loop m mh slide text text_sz callee tail [0..<unat (text_sz div 4)] 0"

fun hop_loop :: "mem \<Rightarrow> u64 \<Rightarrow> u64 \<Rightarrow> u64 \<Rightarrow> u64 \<Rightarrow> bool \<Rightarrow> nat \<Rightarrow> u64 \<Rightarrow> u64" where
  "hop_loop m mh slide text text_sz tail 0 from = from"
| "hop_loop m mh slide text text_sz tail (Suc n) from =
     (let from = sole_caller m mh slide text text_sz from tail in
      if from = 0 then 0 else hop_loop m mh slide text text_sz tail n from)"

definition hop_to_caller :: "mem \<Rightarrow> u64 \<Rightarrow> u64 \<Rightarrow> u64 \<Rightarrow> u64 \<Rightarrow> u64 \<Rightarrow> int \<Rightarrow> bool \<Rightarrow> u64" where
  "hop_to_caller m mh slide text text_sz from hops tail =
     (if hops > MAX_CALLER_HOPS then 0
      else hop_loop m mh slide text text_sz tail (nat hops) from)"

section \<open>Scanning instructions\<close>

fun nth_insn_loop :: "mem \<Rightarrow> u32 \<Rightarrow> u32 \<Rightarrow> int \<Rightarrow> u64 list \<Rightarrow> int \<Rightarrow> u64" where
  "nth_insn_loop m opcode opmask ordn [] count = 0"
| "nth_insn_loop m opcode opmask ordn (pc # pcs) count =
     (if load32 m pc AND opmask = opcode then
        (if count + 1 = ordn then pc + 4 else nth_insn_loop m opcode opmask ordn pcs (count + 1))
      else nth_insn_loop m opcode opmask ordn pcs count)"

definition scan_for_insn :: "mem \<Rightarrow> u64 \<Rightarrow> u64 \<Rightarrow> u64 \<Rightarrow> u32 \<Rightarrow> u32 \<Rightarrow> int \<Rightarrow> u64" where
  "scan_for_insn m text text_sz start opcode opmask ordn =
     nth_insn_loop m opcode opmask ordn (scan_pcs 4 start (text + text_sz)) 0"

text \<open>The end of a function's body: its bounds, or the next entry, within 1 KB and the text.\<close>

definition body_end :: "mem \<Rightarrow> u64 \<Rightarrow> u64 \<Rightarrow> u64 \<Rightarrow> u64 \<Rightarrow> u64 \<Rightarrow> u64" where
  "body_end m mh slide fn text text_sz =
     (let cap = fn + NP_FN_SPAN_MAX; bound = text + text_sz;
          cap = (if cap > bound then bound else cap);
          by_entry = (case find (is_entry_insn m) (scan_pcs 4 (fn + 4) cap) of
            Some pc \<Rightarrow> pc | None \<Rightarrow> cap) in
      case np_function_bounds m mh slide fn of
        Some (start, fin) \<Rightarrow>
          if start = fn \<and> fin > fn \<and> fin \<le> bound then (if fin < cap then fin else cap) else by_entry
      | None \<Rightarrow> by_entry)"

text \<open>The target of the nth call of a body, through a veneer that only branches.\<close>

fun nth_call_loop :: "mem \<Rightarrow> u64 \<Rightarrow> u64 \<Rightarrow> int \<Rightarrow> u64 list \<Rightarrow> int \<Rightarrow> u64" where
  "nth_call_loop m text limit ordn [] seen = 0"
| "nth_call_loop m text limit ordn (pc # pcs) seen =
     (let t = bl_target pc (load32 m pc) in
      if t = 0 then nth_call_loop m text limit ordn pcs seen
      else if seen + 1 \<noteq> ordn then nth_call_loop m text limit ordn pcs (seen + 1)
      else if t < text \<or> t > limit then 0
      else let through = b_target t (load32 m t) in
        if through \<noteq> 0 \<and> through \<ge> text \<and> through \<le> limit then through else t)"

definition nth_call_target :: "mem \<Rightarrow> u64 \<Rightarrow> u64 \<Rightarrow> u64 \<Rightarrow> u64 \<Rightarrow> u64 \<Rightarrow> int \<Rightarrow> u64" where
  "nth_call_target m mh slide fn text text_sz ordn =
     nth_call_loop m text (text + text_sz - 4) ordn
       (scan_pcs 4 fn (body_end m mh slide fn text text_sz)) 0"

fun call_path_loop :: "mem \<Rightarrow> u64 \<Rightarrow> u64 \<Rightarrow> u64 \<Rightarrow> u64 \<Rightarrow> int list \<Rightarrow> u64 \<Rightarrow> u64" where
  "call_path_loop m mh slide text text_sz [] fn = (if np_looks_like_prologue m fn then fn else 0)"
| "call_path_loop m mh slide text text_sz (ordn # path) fn =
     (let fn = nth_call_target m mh slide fn text text_sz ordn in
      if fn = 0 then 0 else call_path_loop m mh slide text text_sz path fn)"

definition walk_call_path :: "mem \<Rightarrow> u64 \<Rightarrow> u64 \<Rightarrow> u64 \<Rightarrow> u64 \<Rightarrow> u64 \<Rightarrow> np_anchor \<Rightarrow> u64" where
  "walk_call_path m mh slide fn text text_sz anchor =
     (if an_call_depth anchor < 1 \<or> an_call_depth anchor > NP_CALL_PATH_MAX then 0
      else call_path_loop m mh slide text text_sz
             (take (nat (an_call_depth anchor)) (an_call_path anchor)) fn)"

definition pair_at :: "mem \<Rightarrow> np_insn_pair \<Rightarrow> u64 \<Rightarrow> bool" where
  "pair_at m p pc =
     (let a = load32 m pc; b = load32 m (pc + 4) in
      if a AND ip_first_mask p \<noteq> ip_first p then False
      else if b AND ip_second_mask p \<noteq> ip_second p then False
      else \<not> (ip_tie_mask p \<noteq> 0 \<and> a AND ip_tie_mask p \<noteq> b AND ip_tie_mask p))"

definition pair_landing :: "np_insn_pair \<Rightarrow> u64 \<Rightarrow> u64" where
  "pair_landing p pc = (if ip_land_on_second p then pc + 4 else pc)"

definition sole_insn_pair :: "mem \<Rightarrow> u64 \<Rightarrow> u64 \<Rightarrow> u64 \<Rightarrow> u64 \<Rightarrow> u64 \<Rightarrow> np_insn_pair \<Rightarrow> u64" where
  "sole_insn_pair m mh slide fn text text_sz p =
     sole_loop (pair_at m p) (pair_landing p) 0 (scan_pcs 8 fn (body_end m mh slide fn text text_sz))"

section \<open>Stubs\<close>

text \<open>The selector a stub of the Objective-C section loads (0 for none).\<close>

definition objc_stub_selector :: "mem \<Rightarrow> u64 \<Rightarrow> u64 \<Rightarrow> u64 \<Rightarrow> u64" where
  "objc_stub_selector m stub selrefs selrefs_sz =
     (if selrefs_sz < 8 then 0
      else let w = load32 m stub; page = adrp_target stub w in
        if page = 0 then 0
        else let slot = ldr_slot_addr (load32 m (stub + 4)) (adrp_reg w) page in
          if slot = 0 \<or> slot < selrefs then 0
          else if slot - selrefs > selrefs_sz - 8 then 0
          else if (slot - selrefs) mod 8 \<noteq> 0 then 0
          else load64 m slot)"

fun find_selrefs_loop :: "mem \<Rightarrow> u64 \<Rightarrow> u64 \<Rightarrow> cstring list \<Rightarrow> (u64 \<times> u64) option" where
  "find_selrefs_loop m mh slide [] = None"
| "find_selrefs_loop m mh slide (seg # segs) =
     (case np_find_section m mh slide seg (cstr ''__objc_selrefs'') of
        Some r \<Rightarrow> Some r | None \<Rightarrow> find_selrefs_loop m mh slide segs)"

definition find_selrefs :: "mem \<Rightarrow> u64 \<Rightarrow> u64 \<Rightarrow> (u64 \<times> u64) option" where
  "find_selrefs m mh slide = find_selrefs_loop m mh slide data_segs"

definition objc_stub_is :: "mem \<Rightarrow> u64 \<Rightarrow> u64 \<Rightarrow> cstring \<Rightarrow> u64 \<Rightarrow> bool" where
  "objc_stub_is m selrefs selrefs_sz selector pc =
     (let sel = objc_stub_selector m pc selrefs selrefs_sz in sel \<noteq> 0 \<and> strcmp_eq m sel selector)"

definition objc_stub_for_selector :: "mem \<Rightarrow> u64 \<Rightarrow> u64 \<Rightarrow> cstring \<Rightarrow> u64" where
  "objc_stub_for_selector m mh slide selector =
     (case np_find_section m mh slide (cstr ''__TEXT'') (cstr ''__objc_stubs'') of None \<Rightarrow> 0
      | Some (stubs, stubs_sz) \<Rightarrow>
        (case find_selrefs m mh slide of None \<Rightarrow> 0
         | Some (selrefs, selrefs_sz) \<Rightarrow>
             if stubs_sz < 8 then 0
             else sole_loop (objc_stub_is m selrefs selrefs_sz selector) (\<lambda>pc. pc) 0
                    (scan_pcs 8 stubs (stubs + stubs_sz))))"

definition stub_for_name :: "mem \<Rightarrow> u64 \<Rightarrow> u64 \<Rightarrow> cstring \<Rightarrow> u64" where
  "stub_for_name m mh slide name =
     (if first_char name = NP_SELECTOR_MARK then objc_stub_for_selector m mh slide (tl name)
      else np_import_stub_for_symbol m mh slide name)"

record stub_tables =
  st_objc_base :: u64
  st_objc_size :: u64
  st_selrefs :: u64
  st_selrefs_size :: u64
  st_have_objc :: bool

definition load_stub_tables :: "mem \<Rightarrow> u64 \<Rightarrow> u64 \<Rightarrow> stub_tables" where
  "load_stub_tables m mh slide =
     (let out = \<lparr>st_objc_base = 0, st_objc_size = 0, st_selrefs = 0, st_selrefs_size = 0,
                 st_have_objc = False\<rparr> in
      case np_find_section m mh slide (cstr ''__TEXT'') (cstr ''__objc_stubs'') of
        None \<Rightarrow> out
      | Some (b, sz) \<Rightarrow>
          let out = out\<lparr>st_objc_base := b, st_objc_size := sz\<rparr> in
          (case find_selrefs m mh slide of
             None \<Rightarrow> out
           | Some (s, ssz) \<Rightarrow> out\<lparr>st_selrefs := s, st_selrefs_size := ssz, st_have_objc := True\<rparr>))"

definition callee_is_named :: "mem \<Rightarrow> u64 \<Rightarrow> u64 \<Rightarrow> stub_tables \<Rightarrow> u64 \<Rightarrow> cstring \<Rightarrow> bool" where
  "callee_is_named m mh slide tables callee name =
     (if first_char name = NP_SELECTOR_MARK then
        if \<not> st_have_objc tables then False
        else if callee < st_objc_base tables then False
        else if callee + 8 > st_objc_base tables + st_objc_size tables then False
        else let sel = objc_stub_selector m callee (st_selrefs tables) (st_selrefs_size tables) in
          sel \<noteq> 0 \<and> strcmp_eq m sel (tl name)
      else case np_import_stub_symbol m mh slide callee of
          None \<Rightarrow> False
        | Some symbol \<Rightarrow> strcmp_eq m symbol name)"

section \<open>Functions known by their calls\<close>

fun calls_loop :: "mem \<Rightarrow> u64 \<Rightarrow> u64 \<Rightarrow> u64 \<Rightarrow> u64 \<Rightarrow> stub_tables \<Rightarrow> np_anchor \<Rightarrow> u64 list \<Rightarrow> nat \<Rightarrow> bool" where
  "calls_loop m mh slide text text_sz tables anchor [] wanted = (int wanted = an_call_count anchor)"
| "calls_loop m mh slide text text_sz tables anchor (pc # pcs) wanted =
     (let w = load32 m pc; callee = bl_target pc w in
      if an_no_data_refs anchor \<and> adrp_target pc w \<noteq> 0 then False
      else if an_calls_exact anchor \<and> is_indirect_call w then False
      else if callee = 0 then calls_loop m mh slide text text_sz tables anchor pcs wanted
      else if callee < text \<or> callee > text + text_sz - 4 then False
      else if int wanted < an_call_count anchor \<and>
              callee_is_named m mh slide tables callee (an_calls anchor ! wanted)
      then calls_loop m mh slide text text_sz tables anchor pcs (Suc wanted)
      else if an_calls_exact anchor then False
      else calls_loop m mh slide text text_sz tables anchor pcs wanted)"

definition body_matches_calls ::
  "mem \<Rightarrow> u64 \<Rightarrow> u64 \<Rightarrow> u64 \<Rightarrow> u64 \<Rightarrow> u64 \<Rightarrow> u64 \<Rightarrow> stub_tables \<Rightarrow> np_anchor \<Rightarrow> bool" where
  "body_matches_calls m mh slide fn fin text text_sz tables anchor =
     calls_loop m mh slide text text_sz tables anchor (scan_pcs 4 fn fin) 0"

fun by_calls_loop ::
  "mem \<Rightarrow> u64 \<Rightarrow> u64 \<Rightarrow> u64 \<Rightarrow> u64 \<Rightarrow> stub_tables \<Rightarrow> np_anchor \<Rightarrow> u64 \<Rightarrow> u64 \<Rightarrow> u64 \<Rightarrow> u64 list \<Rightarrow>
     u64 \<Rightarrow> u64 \<Rightarrow> u64" where
  "by_calls_loop m mh slide text text_sz tables anchor seed code code_end [] found prev_end = found"
| "by_calls_loop m mh slide text text_sz tables anchor seed code code_end (pc # pcs) found prev_end =
     (let next = by_calls_loop m mh slide text text_sz tables anchor seed code code_end pcs in
      if pc < prev_end then next found prev_end
      else if bl_target pc (load32 m pc) \<noteq> seed then next found prev_end
      else case np_function_bounds m mh slide pc of
          None \<Rightarrow> 0
        | Some (fn, fin) \<Rightarrow>
            if fn < code \<or> fin > code_end \<or> (fn OR fin) AND 3 \<noteq> 0 then 0
            else if \<not> body_matches_calls m mh slide fn fin text text_sz tables anchor then next found fin
            else if found \<noteq> 0 then 0
            else next fn fin)"

definition sole_fn_by_calls :: "mem \<Rightarrow> u64 \<Rightarrow> u64 \<Rightarrow> u64 \<Rightarrow> u64 \<Rightarrow> np_anchor \<Rightarrow> u64" where
  "sole_fn_by_calls m mh slide text text_sz anchor =
     (if an_call_count anchor < 1 then 0
      else let seed = stub_for_name m mh slide (an_calls anchor ! 0) in
        if seed = 0 then 0
        else case usable_code m mh slide text text_sz of
            None \<Rightarrow> 0
          | Some (code, code_sz) \<Rightarrow>
              let code_end = code + (code_sz AND NOT 3) in
              by_calls_loop m mh slide text text_sz (load_stub_tables m mh slide) anchor seed code
                code_end (scan_pcs 4 code code_end) 0 0)"

section \<open>RTTI\<close>

text \<open>As \<open>cstring_loop\<close>, from offset 1 and for names that follow a zero byte.\<close>

function type_name_loop :: "mem \<Rightarrow> u64 \<Rightarrow> nat \<Rightarrow> cstring \<Rightarrow> nat \<Rightarrow> u64 \<Rightarrow> u64" where
  "type_name_loop m seg_base seg_size name off found =
     (if off + length name < seg_size then
        let p = seg_base + of_nat off in
        if m p \<noteq> first_char name \<or> m (p - 1) \<noteq> 0 \<or> \<not> memcmp_eq m p name \<or>
           m (p + of_nat (length name)) \<noteq> 0
        then type_name_loop m seg_base seg_size name (Suc off) found
        else if found \<noteq> 0 then 0
        else type_name_loop m seg_base seg_size name (Suc (off + length name)) p
      else found)"
  by pat_completeness auto
termination
  by (relation "measure (\<lambda>(_, _, seg_size, _, off, _). seg_size - off)") auto

declare type_name_loop.simps [simp del]

definition type_name_va :: "mem \<Rightarrow> u64 \<Rightarrow> u64 \<Rightarrow> cstring \<Rightarrow> u64" where
  "type_name_va m mh slide name =
     (case np_find_segment m mh slide (cstr ''__TEXT'') of
        None \<Rightarrow> 0
      | Some (seg_base, seg_size) \<Rightarrow>
          if unat seg_size \<le> length name + 1 then 0
          else type_name_loop m seg_base (unat seg_size) name 1 0)"

text \<open>Slot \<open>i\<close> of a segment holds the typeinfo of a primary vtable whose first virtual is code.\<close>

definition vtable_at :: "mem \<Rightarrow> u64 \<Rightarrow> u64 \<Rightarrow> u64 \<Rightarrow> u64 \<Rightarrow> nat \<Rightarrow> bool" where
  "vtable_at m text text_sz ti seg_base i =
     (if load64 m (seg_base + of_nat i * 8) \<noteq> ti then False
      else if load64 m (seg_base + of_nat (i - 1) * 8) \<noteq> 0 then False
      else let fn = load64 m (seg_base + of_nat (i + 1) * 8) in
        if fn < text \<or> fn \<ge> text + text_sz then False
        else \<not> fn AND 3 \<noteq> 0)"

fun vptr_segs_loop :: "mem \<Rightarrow> u64 \<Rightarrow> u64 \<Rightarrow> u64 \<Rightarrow> u64 \<Rightarrow> u64 \<Rightarrow> cstring list \<Rightarrow> u64 \<Rightarrow> u64" where
  "vptr_segs_loop m mh slide text text_sz ti [] found = found"
| "vptr_segs_loop m mh slide text text_sz ti (seg # segs) found =
     (case np_find_segment m mh slide seg of
        None \<Rightarrow> vptr_segs_loop m mh slide text text_sz ti segs found
      | Some (seg_base, seg_size) \<Rightarrow>
          if unat seg_size < 3 * 8 then vptr_segs_loop m mh slide text text_sz ti segs found
          else (case sole_run (vtable_at m text text_sz ti seg_base)
                  (\<lambda>i. seg_base + of_nat (i + 1) * 8) found [1..<unat seg_size div 8 - 1] of
              Inl r \<Rightarrow> r
            | Inr found \<Rightarrow> vptr_segs_loop m mh slide text text_sz ti segs found))"

definition vptr_from_typeinfo :: "mem \<Rightarrow> u64 \<Rightarrow> u64 \<Rightarrow> u64 \<Rightarrow> u64 \<Rightarrow> u64 \<Rightarrow> u64" where
  "vptr_from_typeinfo m mh slide text text_sz ti =
     vptr_segs_loop m mh slide text text_sz ti data_segs 0"

text \<open>The loops over the slots that hold the name: two references may reach the same vtable.\<close>

fun rtti_slots_loop ::
  "mem \<Rightarrow> u64 \<Rightarrow> u64 \<Rightarrow> u64 \<Rightarrow> u64 \<Rightarrow> u64 \<Rightarrow> u64 \<Rightarrow> nat list \<Rightarrow> u64 \<Rightarrow> u64 + u64" where
  "rtti_slots_loop m mh slide text text_sz name seg_base [] found = Inr found"
| "rtti_slots_loop m mh slide text text_sz name seg_base (i # is) found =
     (let next = rtti_slots_loop m mh slide text text_sz name seg_base is in
      if load64 m (seg_base + of_nat i * 8) \<noteq> name then next found
      else let vptr = vptr_from_typeinfo m mh slide text text_sz (seg_base + of_nat (i - 1) * 8) in
        if vptr = 0 then next found
        else if found \<noteq> 0 \<and> found \<noteq> vptr then Inl 0
        else next vptr)"

fun rtti_segs_loop :: "mem \<Rightarrow> u64 \<Rightarrow> u64 \<Rightarrow> u64 \<Rightarrow> u64 \<Rightarrow> u64 \<Rightarrow> cstring list \<Rightarrow> u64 \<Rightarrow> u64" where
  "rtti_segs_loop m mh slide text text_sz name [] found = found"
| "rtti_segs_loop m mh slide text text_sz name (seg # segs) found =
     (case np_find_segment m mh slide seg of
        None \<Rightarrow> rtti_segs_loop m mh slide text text_sz name segs found
      | Some (seg_base, seg_size) \<Rightarrow>
          if unat seg_size < 2 * 8 then rtti_segs_loop m mh slide text text_sz name segs found
          else (case rtti_slots_loop m mh slide text text_sz name seg_base [1..<unat seg_size div 8] found of
              Inl r \<Rightarrow> r
            | Inr found \<Rightarrow> rtti_segs_loop m mh slide text text_sz name segs found))"

definition np_rtti_vptr :: "mem \<Rightarrow> u64 \<Rightarrow> u64 \<Rightarrow> u64 \<Rightarrow> u64 \<Rightarrow> cstring \<Rightarrow> u64" where
  "np_rtti_vptr m mh slide text text_sz type_name =
     (if mh = 0 \<or> type_name = [] \<or> text = 0 \<or> text_sz = 0 then 0
      else let name = type_name_va m mh slide type_name in
        if name = 0 then 0
        else rtti_segs_loop m mh slide text text_sz name data_segs 0)"

section \<open>Locating an anchor\<close>

text \<open>The code behind a pointer slot, which both slot kinds of anchor end with.\<close>

definition slot_function :: "mem \<Rightarrow> u64 \<Rightarrow> u64 \<Rightarrow> u64 \<Rightarrow> u64 \<Rightarrow> u64 \<Rightarrow> u64" where
  "slot_function m mh slide text text_sz slot =
     (case np_get_section_containing m mh slide slot of
        None \<Rightarrow> 0
      | Some (sbase, ssize) \<Rightarrow>
          if ssize < 8 then 0
          else if slot - sbase > ssize - 8 then 0
          else let fn = load64 m slot in
            if fn < text \<or> fn > text + text_sz - 4 then 0
            else if np_looks_like_prologue m fn then fn else 0)"

text \<open>The slot an indirect anchor's string is reached through: in the first data segment that has one.\<close>

fun indirect_slot_loop :: "mem \<Rightarrow> u64 \<Rightarrow> u64 \<Rightarrow> u64 \<Rightarrow> u64 \<Rightarrow> cstring list \<Rightarrow> u64" where
  "indirect_slot_loop m mh slide str_va uniq [] = 0"
| "indirect_slot_loop m mh slide str_va uniq (seg # segs) =
     (case np_find_segment m mh slide seg of
        None \<Rightarrow> indirect_slot_loop m mh slide str_va uniq segs
      | Some (seg_base, seg_size) \<Rightarrow>
          let slot = slot_holding m seg_base seg_size str_va uniq in
          if slot \<noteq> 0 then slot else indirect_slot_loop m mh slide str_va uniq segs)"

definition np_locate_anchor ::
  "(cstring \<Rightarrow> u64) \<Rightarrow> mem \<Rightarrow> u64 \<Rightarrow> u64 \<Rightarrow> u64 \<Rightarrow> u64 \<Rightarrow> np_anchor \<Rightarrow> u64" where
  "np_locate_anchor uniqued m mh slide text text_sz anchor =
     (if mh = 0 \<or> text = 0 \<or> text_sz = 0 then 0
      else if an_kind anchor = NP_MATCH_VTABLE_SLOT then
        (if an_va anchor = 0 then 0
         else slot_function m mh slide text text_sz (an_va anchor + slide))
      else if an_kind anchor = NP_MATCH_CALLS then sole_fn_by_calls m mh slide text text_sz anchor
      else if an_kind anchor = NP_MATCH_RTTI_SLOT then
        (if an_slot anchor < 0 then 0
         else let vptr = np_rtti_vptr m mh slide text text_sz (an_str anchor) in
           if vptr = 0 then 0
           else slot_function m mh slide text text_sz (vptr + of_int (an_slot anchor) * 8))
      else let str_va = cstring_va m mh slide (an_str anchor) in
        if str_va = 0 then 0
        else let target = (if an_indirect anchor
               then indirect_slot_loop m mh slide str_va (uniqued (an_str anchor)) data_segs else str_va) in
        if target = 0 then 0
        else let xref = xref_to_va m text text_sz target (an_nth_xref anchor) (an_indirect anchor) in
        if xref = 0 then 0
        else if an_kind anchor = NP_MATCH_INSN_AFTER_STRING then
          let opcode = (if an_insn anchor \<noteq> 0 then an_insn anchor else DEFAULT_INSN);
              opmask = (if an_insn_mask anchor \<noteq> 0 then an_insn_mask anchor else DEFAULT_INSN_MASK);
              n = (if an_nth anchor > 0 then an_nth anchor else 1)
          in scan_for_insn m text text_sz xref opcode opmask n
        else if an_kind anchor \<noteq> NP_MATCH_STRING \<and> an_kind anchor \<noteq> NP_MATCH_INSN_PAIR_IN_FN \<and>
                an_kind anchor \<noteq> NP_MATCH_CALL_TARGET then 0
        else let fn = (if an_caller_hops anchor > 0 then
              let fn = hop_to_caller m mh slide text text_sz xref (an_caller_hops anchor) (an_caller_tail anchor) in
              if fn = 0 then
                let body = containing_fn m mh slide text text_sz xref in
                if body \<noteq> 0
                then hop_to_caller m mh slide text text_sz body (an_caller_hops anchor) (an_caller_tail anchor)
                else fn
              else fn
            else containing_fn m mh slide text text_sz xref) in
          if fn = 0 then 0
          else if an_kind anchor = NP_MATCH_INSN_PAIR_IN_FN
          then sole_insn_pair m mh slide fn text text_sz (an_pair anchor)
          else if an_kind anchor = NP_MATCH_CALL_TARGET
          then walk_call_path m mh slide fn text text_sz anchor
          else fn)"

end
