(* ===== verification/Anchor_Facts.thy ===== *)
theory Anchor_Facts
  imports Anchor
begin

text \<open>
  What the searches of \<^theory_text>\<open>Anchor\<close> find. Each search for an only hit meets the contract
  \<open>sole_search\<close>; a string is found exactly once in the first segment that has it; a body matches a
  list of calls when the list is its direct calls, or a subsequence of them; and every address that
  is located lies in the text.
\<close>


section \<open>Lemmas: the searches for one hit\<close>

definition ref_cands :: "u64 \<Rightarrow> u64 \<Rightarrow> u64 list" where
  "ref_cands text text_sz = map (\<lambda>i. text + of_nat i * 4) [0..<unat (text_sz div 4) - 1]"

definition refers_to :: "mem \<Rightarrow> bool \<Rightarrow> u64 \<Rightarrow> u64 \<Rightarrow> bool" where
  "refers_to m indirect target p \<longleftrightarrow> ref_at m indirect p \<noteq> 0 \<and> ref_at m indirect p = target"

lemma xref_loop_sole:
  "\<not> 0 < ordn \<Longrightarrow> xref_loop m text target ordn ind is first seen =
     sole_loop (refers_to m ind target) (\<lambda>p. p) first (map (\<lambda>i. text + of_nat i * 4) is)"
  by (induction "is" arbitrary: first seen) (auto simp: Let_def refers_to_def)

lemma xref_loop_nth:
  "0 < ordn \<Longrightarrow> seen < ordn \<Longrightarrow> xref_loop m text target ordn ind is first seen =
     (case drop (nat (ordn - seen) - 1) (filter (refers_to m ind target) (map (\<lambda>i. text + of_nat i * 4) is)) of
        p # _ \<Rightarrow> p | [] \<Rightarrow> 0)"
proof (induction "is" arbitrary: first seen)
  case (Cons i "is")
  let ?p = "text + of_nat i * 4"
  show ?case
  proof (cases "refers_to m ind target ?p")
    case False
    with Cons show ?thesis by (auto simp: Let_def refers_to_def)
  next
    case True
    show ?thesis
    proof (cases "seen + 1 = ordn")
      case True
      then have "nat (ordn - seen) - 1 = 0" by simp
      moreover have "xref_loop m text target ordn ind (i # is) first seen = ?p"
        using True \<open>refers_to m ind target ?p\<close> Cons.prems by (auto simp: Let_def refers_to_def)
      ultimately show ?thesis using \<open>refers_to m ind target ?p\<close> by simp
    next
      case False
      let ?n = "nat (ordn - (seen + 1)) - 1" and ?f = "filter (refers_to m ind target)"
      have n: "nat (ordn - seen) - 1 = Suc ?n" using False Cons.prems by simp
      have "xref_loop m text target ordn ind (i # is) first seen =
          xref_loop m text target ordn ind is first (seen + 1)"
        using True False Cons.prems by (auto simp: Let_def refers_to_def)
      also have "\<dots> = (case drop ?n (?f (map (\<lambda>i. text + of_nat i * 4) is)) of p # _ \<Rightarrow> p | [] \<Rightarrow> 0)"
        using Cons.prems False by (intro Cons.IH) auto
      also have "\<dots> = (case drop (Suc ?n) (?f (map (\<lambda>i. text + of_nat i * 4) (i # is))) of p # _ \<Rightarrow> p | [] \<Rightarrow> 0)"
        using True by simp
      finally show ?thesis unfolding n .
    qed
  qed
qed simp

text \<open>No address of a region is zero when the region does not begin at zero or wrap round.\<close>

lemma region_nonzero:
  assumes "b \<noteq> 0" "unat b + n \<le> 2 ^ 64" "k < n"
  shows "(b :: u64) + of_nat k \<noteq> 0" "unat (b + of_nat k) = unat b + k"
proof -
  have "unat (of_nat k :: u64) = k"
    using assms by (simp add: unsigned_of_nat take_bit_nat_eq_self)
  then show "unat (b + of_nat k) = unat b + k"
    using assms by (simp add: unat_word_ariths)
  then show "b + of_nat k \<noteq> 0" using assms(1) by (metis add_is_0 unat_0 unat_eq_zero)
qed

lemma region_step:
  assumes "b \<noteq> 0" "unat b + unat sz \<le> 2 ^ 64" "i < unat (sz div d)" "0 < unat d"
  shows "(b :: u64) + of_nat i * d \<noteq> 0"
proof -
  have "unat (sz div d) = unat sz div unat d" by (rule unat_div_distrib)
  with assms(3) have "Suc i \<le> unat sz div unat d" by simp
  then have "Suc i * unat d \<le> unat sz div unat d * unat d" by (rule mult_right_mono) simp
  also have "\<dots> \<le> unat sz" by (rule div_times_less_eq_dividend)
  finally have "i * unat d < unat sz" using assms(4) by simp
  from region_nonzero(1)[OF assms(1,2) this] show ?thesis by simp
qed

definition region_ok :: "u64 \<Rightarrow> u64 \<Rightarrow> bool" where
  "region_ok b sz \<longleftrightarrow> b \<noteq> 0 \<and> unat b + unat sz \<le> 2 ^ 64"

interpretation xrefs: sole_search
  "\<lambda>(m, text, text_sz, target, ind). xref_to_va m text text_sz target 0 ind"
  "\<lambda>(m, text, text_sz, target, ind). ref_cands text text_sz"
  "\<lambda>(m, text, text_sz, target, ind). refers_to m ind target" "\<lambda>_ p. p"
  "\<lambda>(m, text, text_sz, target, ind). region_ok text text_sz"
proof (unfold_locales; clarsimp)
  fix m t tsz target ind
  show "xref_to_va m t tsz target 0 ind =
      sole_loop (refers_to m ind target) (\<lambda>p. p) 0 (ref_cands t tsz)"
    by (auto simp: xref_to_va_def Let_def xref_loop_sole ref_cands_def)
next
  fix t tsz
  assume "region_ok t tsz" "0 \<in> set (ref_cands t tsz)"
  then obtain i where "i < unat (tsz div 4) - 1" "t + of_nat i * 4 = 0"
    by (auto simp: ref_cands_def)
  moreover from this have "i < unat (tsz div 4)" by linarith
  ultimately show False using region_step[of t tsz i 4] \<open>region_ok t tsz\<close>
    by (simp add: region_ok_def)
qed

definition slot_cands :: "u64 \<Rightarrow> u64 \<Rightarrow> u64 list" where
  "slot_cands seg seg_sz = map (\<lambda>i. seg + of_nat i * 8) [0..<unat (seg_sz div 8)]"

definition holds_either :: "mem \<Rightarrow> u64 \<Rightarrow> u64 \<Rightarrow> u64 \<Rightarrow> bool" where
  "holds_either m a b p \<longleftrightarrow> load64 m p = a \<or> (b \<noteq> 0 \<and> load64 m p = b)"

lemma slot_loop_sole:
  "slot_loop m seg a b is found = sole_loop (holds_either m a b) (\<lambda>p. p) found (map (\<lambda>i. seg + of_nat i * 8) is)"
  by (induction "is" arbitrary: found) (auto simp: Let_def holds_either_def)

interpretation slots: sole_search
  "\<lambda>(m, seg, seg_sz, a, b). slot_holding m seg seg_sz a b"
  "\<lambda>(m, seg, seg_sz, a, b). slot_cands seg seg_sz"
  "\<lambda>(m, seg, seg_sz, a, b). holds_either m a b" "\<lambda>_ p. p"
  "\<lambda>(m, seg, seg_sz, a, b). region_ok seg seg_sz"
proof (unfold_locales; clarsimp)
  fix m seg seg_sz a b
  have "unat (seg_sz div 8) = 0" if "seg_sz < (8 :: u64)"
    using that by (simp add: unat_div_distrib word_less_nat_alt)
  then show "slot_holding m seg seg_sz a b =
      sole_loop (holds_either m a b) (\<lambda>p. p) 0 (slot_cands seg seg_sz)"
    by (auto simp: slot_holding_def slot_loop_sole slot_cands_def)
next
  fix seg seg_sz
  assume "region_ok seg seg_sz" "0 \<in> set (slot_cands seg seg_sz)"
  then obtain i where "i < unat (seg_sz div 8)" "seg + of_nat i * 8 = 0"
    by (auto simp: slot_cands_def)
  with region_step[of seg seg_sz i 8] \<open>region_ok seg seg_sz\<close> show False
    by (simp add: region_ok_def)
qed

lemma scan_pcs_pos: "pc \<in> set (scan_pcs w start fin) \<Longrightarrow> start \<noteq> 0 \<Longrightarrow> pc \<noteq> 0"
  using scan_pcs_bounds(1) by force

lemma scan_pcs_next:
  assumes "pc \<in> set (scan_pcs w start fin)" "k \<le> w"
  shows "unat (pc + of_nat k) = unat pc + k"
proof -
  have "unat pc + w \<le> unat fin" using scan_pcs_bounds(2)[OF assms(1)] .
  then have lt: "unat pc + k < 2 ^ 64" using assms(2) unat_u64_less[of fin] by simp
  then have "unat (of_nat k :: u64) = k" by (simp add: unsigned_of_nat take_bit_nat_eq_self)
  with lt show ?thesis by (simp add: unat_word_ariths)
qed

interpretation pairs: sole_search
  "\<lambda>(m, mh, slide, fn, text, text_sz, p). sole_insn_pair m mh slide fn text text_sz p"
  "\<lambda>(m, mh, slide, fn, text, text_sz, p). scan_pcs 8 fn (body_end m mh slide fn text text_sz)"
  "\<lambda>(m, mh, slide, fn, text, text_sz, p). pair_at m p"
  "\<lambda>(m, mh, slide, fn, text, text_sz, p). pair_landing p"
  "\<lambda>(m, mh, slide, fn, text, text_sz, p). fn \<noteq> 0"
proof (unfold_locales; clarsimp simp: sole_insn_pair_def)
  fix m mh slide fn t tsz p pc
  assume pc: "pc \<in> set (scan_pcs 8 fn (body_end m mh slide fn t tsz))" "fn \<noteq> 0" "pair_landing p pc = 0"
  from scan_pcs_next[OF pc(1), of 4] have "pc + 4 \<noteq> 0"
    by force
  with pc scan_pcs_pos show False by (auto simp: pair_landing_def split: if_splits)
qed

interpretation selectors: sole_search
  "\<lambda>(m, selrefs, selrefs_sz, selector, stubs, stubs_sz).
     sole_loop (objc_stub_is m selrefs selrefs_sz selector) (\<lambda>pc. pc) 0 (scan_pcs 8 stubs (stubs + stubs_sz))"
  "\<lambda>(m, selrefs, selrefs_sz, selector, stubs, stubs_sz). scan_pcs 8 stubs (stubs + stubs_sz)"
  "\<lambda>(m, selrefs, selrefs_sz, selector, stubs, stubs_sz). objc_stub_is m selrefs selrefs_sz selector"
  "\<lambda>_ pc. pc" "\<lambda>(m, selrefs, selrefs_sz, selector, stubs, stubs_sz). stubs \<noteq> 0"
  by (unfold_locales; clarsimp) (use scan_pcs_pos in blast)

lemma caller_loop_sole:
  "caller_loop m mh slide text text_sz callee tail is found =
     (let pc = sole_loop (calls_at m mh slide text text_sz callee tail) (\<lambda>p. p) found (map (\<lambda>i. text + of_nat i * 4) is)
      in if pc \<noteq> 0 then containing_fn m mh slide text text_sz pc else 0)"
  by (induction "is" arbitrary: found) (auto simp: Let_def)

section \<open>Lemmas: strings in a segment\<close>

definition str_here :: "mem \<Rightarrow> cstring \<Rightarrow> u64 \<Rightarrow> bool" where
  "str_here m s p \<longleftrightarrow> memcmp_eq m p s \<and> m (p + of_nat (length s)) = 0"

lemma memcmp_eq_nth: "memcmp_eq m p s \<longleftrightarrow> (\<forall>i < length s. m (p + of_nat i) = s ! i)"
  by (auto simp: memcmp_eq_def list_all_iff)

lemma str_here_strcmp: "str_here m s p \<Longrightarrow> strcmp_eq m p s"
proof (induction s arbitrary: p)
  case Nil
  then show ?case by (simp add: str_here_def)
next
  case (Cons c s)
  have at: "m (p + of_nat i) = (c # s) ! i" if "i < Suc (length s)" for i
    using Cons.prems that by (auto simp: str_here_def memcmp_eq_nth)
  have "m p = c" using at[of 0] by simp
  moreover have "m (p + 1 + of_nat i) = s ! i" if "i < length s" for i
    using at[of "Suc i"] that by (simp add: ac_simps)
  then have "str_here m s (p + 1)"
    using Cons.prems by (simp add: str_here_def memcmp_eq_nth ac_simps)
  ultimately show ?case using Cons.IH by simp
qed

lemma str_here_first: "str_here m s p \<Longrightarrow> s \<noteq> [] \<Longrightarrow> m p = first_char s"
  by (auto simp: str_here_def memcmp_eq_nth first_char_def split: list.split)

text \<open>A second occurrence cannot begin inside a first one or on its terminator: skipping is safe.\<close>

lemma str_here_apart:
  assumes "str_here m s p" "0 \<notin> set s" "1 \<le> j" "j \<le> length s"
  shows "\<not> str_here m s (p + of_nat j)"
proof
  assume h: "str_here m s (p + of_nat j)"
  let ?i = "length s - j"
  have i: "?i < length s" using assms(3,4) by linarith
  then have "m (p + of_nat j + of_nat ?i) = s ! ?i" using h by (simp add: str_here_def memcmp_eq_nth)
  moreover have "p + of_nat j + of_nat ?i = p + of_nat (length s)"
    using assms(4) by (simp add: add.assoc of_nat_diff)
  ultimately have "s ! ?i = 0" using assms(1) by (simp add: str_here_def)
  with i assms(2) show False by (metis nth_mem)
qed

definition seg_addrs :: "u64 \<Rightarrow> nat \<Rightarrow> nat \<Rightarrow> u64 list" where
  "seg_addrs b from n = map (\<lambda>i. b + of_nat i) [from..<n]"

lemma cstring_loop_sole:
  assumes "s \<noteq> []" "0 \<notin> set s"
  shows "cstring_loop m b n s off result =
    sole_run (str_here m s) (\<lambda>p. p) result (seg_addrs b off (n - length s))"
  using assms
proof (induction m b n s off result rule: cstring_loop.induct)
  case (1 m b n s off result)
  let ?p = "b + of_nat off"
  let ?hit = "str_here m s" and ?n = "n - length s"
  have here: "m ?p \<noteq> first_char s \<or> \<not> memcmp_eq m ?p s \<or> m (?p + of_nat (length s)) \<noteq> 0 \<longleftrightarrow> \<not> ?hit ?p"
  proof -
    have "?hit ?p \<longrightarrow> m ?p = first_char s" using str_here_first[of m s ?p] "1.prems"(1) by simp
    then show ?thesis by (simp only: str_here_def) argo
  qed
  have step: "cstring_loop m b n s off result =
      (if off + length s < n then
         if \<not> ?hit ?p then cstring_loop m b n s (Suc off) result
         else if result \<noteq> 0 then Inl 0
         else cstring_loop m b n s (Suc (off + length s)) ?p
       else Inr result)"
    unfolding here[symmetric] by (subst cstring_loop.simps) (simp only: Let_def)
  show ?case
  proof (cases "off + length s < n")
    case False
    then show ?thesis by (simp add: step seg_addrs_def)
  next
    case True
    have head: "seg_addrs b off ?n = ?p # seg_addrs b (Suc off) ?n"
      using True by (simp add: seg_addrs_def upt_conv_Cons)
    show ?thesis
    proof (cases "?hit ?p")
      case False
      then have "cstring_loop m b n s off result = cstring_loop m b n s (Suc off) result"
        using True by (simp add: step)
      also have "\<dots> = sole_run ?hit (\<lambda>p. p) result (seg_addrs b (Suc off) ?n)"
        using "1.IH"(1)[OF True refl] False here "1.prems" by simp
      finally show ?thesis using False head by simp
    next
      case hit: True
      show ?thesis
      proof (cases "result = 0")
        case False
        then show ?thesis using True hit head by (simp add: step)
      next
        case fresh: True
        have "cstring_loop m b n s off result = cstring_loop m b n s (Suc (off + length s)) ?p"
          using True hit fresh step by simp
        also have "\<dots> = sole_run ?hit (\<lambda>p. p) ?p (seg_addrs b (Suc (off + length s)) ?n)"
          using "1.IH"(2)[OF True refl] hit here fresh "1.prems" by simp
        also have "\<dots> = sole_run ?hit (\<lambda>p. p) ?p (seg_addrs b (Suc off) ?n)"
        proof -
          let ?l = "min (length s) (?n - Suc off)"
          have split: "seg_addrs b (Suc off) ?n =
              seg_addrs b (Suc off) (Suc off + ?l) @ seg_addrs b (Suc off + ?l) ?n"
            unfolding seg_addrs_def map_append[symmetric]
            using upt_split[of "Suc off" "Suc off + ?l" ?n] True by simp
          have none: "\<forall>q \<in> set (seg_addrs b (Suc off) (Suc off + ?l)). \<not> ?hit q"
          proof
            fix q assume "q \<in> set (seg_addrs b (Suc off) (Suc off + ?l))"
            then obtain i where i: "Suc off \<le> i" "i < Suc off + ?l" "q = b + of_nat i"
              unfolding seg_addrs_def set_map set_upt by fastforce
            then have "q = ?p + of_nat (i - off)" "1 \<le> i - off" "i - off \<le> length s"
              by (auto simp: of_nat_diff)
            with str_here_apart[OF hit "1.prems"(2)] show "\<not> ?hit q" by blast
          qed
          have "seg_addrs b (Suc (off + length s)) ?n = seg_addrs b (Suc off + ?l) ?n"
            by (simp add: seg_addrs_def min_def)
          then show ?thesis
            unfolding split by (simp only: sole_run_append sole_run_none[OF none] sum.case)
        qed
        finally show ?thesis using hit head fresh by simp
      qed
    qed
  qed
qed

text \<open>The segment a string is found in is the first one that has it, and it is there once.\<close>

definition seg_hits :: "mem \<Rightarrow> u64 \<Rightarrow> u64 \<Rightarrow> cstring \<Rightarrow> cstring \<Rightarrow> u64 list" where
  "seg_hits m mh slide s seg = (case np_find_segment m mh slide seg of
     None \<Rightarrow> []
   | Some (b, sz) \<Rightarrow> filter (str_here m s) (seg_addrs b 0 (unat sz - length s)))"

definition segs_ok :: "mem \<Rightarrow> u64 \<Rightarrow> u64 \<Rightarrow> cstring list \<Rightarrow> bool" where
  "segs_ok m mh slide segs = list_all (\<lambda>seg. case np_find_segment m mh slide seg of
     None \<Rightarrow> True | Some (b, sz) \<Rightarrow> region_ok b sz) segs"

lemma seg_addrs_nonzero: "region_ok b sz \<Longrightarrow> p \<in> set (seg_addrs b from (unat sz - k)) \<Longrightarrow> p \<noteq> 0"
  using region_nonzero(1)[of b "unat sz"] by (auto simp: seg_addrs_def region_ok_def)

lemma cstring_segs_hits:
  assumes "s \<noteq> []" "0 \<notin> set s" "segs_ok m mh slide segs"
  shows "cstring_segs_loop m mh slide s segs =
    (case filter (\<lambda>hits. hits \<noteq> []) (map (seg_hits m mh slide s) segs) of
       [p] # _ \<Rightarrow> p | _ \<Rightarrow> 0)"
  using assms(3)
proof (induction segs)
  case (Cons seg segs)
  then have IH: "cstring_segs_loop m mh slide s segs =
      (case filter (\<lambda>hits. hits \<noteq> []) (map (seg_hits m mh slide s) segs) of [p] # _ \<Rightarrow> p | _ \<Rightarrow> 0)"
    by (simp add: segs_ok_def)
  show ?case
  proof (cases "np_find_segment m mh slide seg")
    case None
    then have "seg_hits m mh slide s seg = []" by (simp add: seg_hits_def)
    then show ?thesis using IH None by simp
  next
    case (Some r)
    then obtain b sz where r: "np_find_segment m mh slide seg = Some (b, sz)" by (cases r) auto
    let ?addrs = "seg_addrs b 0 (unat sz - length s)"
    have nz: "p \<noteq> 0" if "p \<in> set ?addrs" for p
    proof -
      have "region_ok b sz" using Cons.prems r by (simp add: segs_ok_def)
      then show ?thesis using that by (rule seg_addrs_nonzero)
    qed
    have hits: "seg_hits m mh slide s seg = filter (str_here m s) ?addrs" by (simp add: seg_hits_def r)
    have run: "cstring_loop m b (unat sz) s 0 0 =
        (case filter (str_here m s) ?addrs of [] \<Rightarrow> Inr 0 | [p] \<Rightarrow> Inr p | _ \<Rightarrow> Inl 0)"
      using nz by (simp add: cstring_loop_sole[OF assms(1,2)] sole_run_filter)
    show ?thesis
    proof (cases "unat sz \<le> length s")
      case True
      then have "seg_hits m mh slide s seg = []" by (simp add: hits seg_addrs_def)
      then show ?thesis using True IH r by simp
    next
      case False
      have eq: "cstring_segs_loop m mh slide s (seg # segs) =
          (case cstring_loop m b (unat sz) s 0 0 of Inl r \<Rightarrow> r
           | Inr p \<Rightarrow> if p \<noteq> 0 then p else cstring_segs_loop m mh slide s segs)"
        using False r by simp
      consider "filter (str_here m s) ?addrs = []" | p where "filter (str_here m s) ?addrs = [p]"
        | p q ps where "filter (str_here m s) ?addrs = p # q # ps"
        by (metis list.exhaust)
      then show ?thesis
      proof cases
        case 1
        then show ?thesis unfolding eq run using IH hits by simp
      next
        case (2 p)
        then have "p \<in> set (filter (str_here m s) ?addrs)" by simp
        then have "p \<noteq> 0" using nz by simp
        then show ?thesis unfolding eq run using 2 hits by simp
      next
        case 3
        then show ?thesis unfolding eq run using hits by simp
      qed
    qed
  qed
qed simp



section \<open>Lemmas: matching a body by its calls\<close>

definition direct_callees :: "mem \<Rightarrow> u64 list \<Rightarrow> u64 list" where
  "direct_callees m pcs = filter (\<lambda>t. t \<noteq> 0) (map (\<lambda>pc. bl_target pc (load32 m pc)) pcs)"

definition in_text :: "u64 \<Rightarrow> u64 \<Rightarrow> u64 \<Rightarrow> bool" where
  "in_text text text_sz a \<longleftrightarrow> \<not> (a < text \<or> a > text + text_sz - 4)"

text \<open>What the anchor forbids everywhere in the body, whatever is called.\<close>

definition body_allowed :: "mem \<Rightarrow> np_anchor \<Rightarrow> u64 list \<Rightarrow> bool" where
  "body_allowed m anchor pcs = list_all (\<lambda>pc.
     \<not> (an_no_data_refs anchor \<and> adrp_target pc (load32 m pc) \<noteq> 0) \<and>
     \<not> (an_calls_exact anchor \<and> is_indirect_call (load32 m pc))) pcs"

definition wanted_calls :: "np_anchor \<Rightarrow> cstring list" where
  "wanted_calls anchor = take (nat (an_call_count anchor)) (an_calls anchor)"

definition calls_match :: "(u64 \<Rightarrow> cstring \<Rightarrow> bool) \<Rightarrow> bool \<Rightarrow> cstring list \<Rightarrow> u64 list \<Rightarrow> bool" where
  "calls_match named exact wanted callees =
     (if exact then list_all2 (\<lambda>name callee. named callee name) wanted callees
      else \<exists>cs. subseq cs callees \<and> list_all2 (\<lambda>name callee. named callee name) wanted cs)"

lemma subseq_all2_Cons:
  "(\<exists>cs. subseq cs (c # callees) \<and> list_all2 P (w # ws) cs) \<longleftrightarrow>
     (if P w c then \<exists>cs. subseq cs callees \<and> list_all2 P ws cs
      else \<exists>cs. subseq cs callees \<and> list_all2 P (w # ws) cs)"
proof (cases "P w c")
  case True
  have "\<exists>cs. subseq cs callees \<and> list_all2 P ws cs"
    if "subseq cs (c # callees)" "list_all2 P (w # ws) cs" for cs
  proof -
    from that(2) obtain y ys where "cs = y # ys" "list_all2 P ws ys" by (auto simp: list_all2_Cons1)
    with that(1) show ?thesis by (metis subseq_Cons2_iff subseq_Cons')
  qed
  moreover have "subseq (c # cs) (c # callees) \<and> list_all2 P (w # ws) (c # cs)"
    if "subseq cs callees" "list_all2 P ws cs" for cs
    using that True by simp
  ultimately show ?thesis using True by auto
next
  case False
  have "subseq cs (c # callees) \<longleftrightarrow> subseq cs callees" if "list_all2 P (w # ws) cs" for cs
    using that False by (auto simp: list_all2_Cons1 subseq_Cons2_iff split: if_splits)
  then show ?thesis using False by auto
qed

lemma calls_match_simps:
  "calls_match named exact [] [] = True"
  "calls_match named exact (w # ws) [] = False"
  "calls_match named exact [] (c # cs) = (\<not> exact \<and> calls_match named exact [] cs)"
  "calls_match named exact (w # ws) (c # cs) =
     (if named c w then calls_match named exact ws cs
      else \<not> exact \<and> calls_match named exact (w # ws) cs)"
  using subseq_all2_Cons[of c cs "\<lambda>name callee. named callee name" w ws]
  by (auto simp: calls_match_def dest: list_emb_Nil2 split: if_splits)

lemma calls_loop_match:
  assumes "int (length (an_calls anchor)) \<ge> an_call_count anchor" "0 \<le> an_call_count anchor"
    and "int wanted \<le> an_call_count anchor"
  shows "calls_loop m mh slide text text_sz tables anchor pcs wanted \<longleftrightarrow>
    body_allowed m anchor pcs \<and> list_all (in_text text text_sz) (direct_callees m pcs) \<and>
    calls_match (callee_is_named m mh slide tables) (an_calls_exact anchor)
      (drop wanted (wanted_calls anchor)) (direct_callees m pcs)"
  using assms(3)
proof (induction pcs arbitrary: wanted)
  case Nil
  have "int wanted = an_call_count anchor \<longleftrightarrow> drop wanted (wanted_calls anchor) = []"
    using assms(1,2) Nil by (auto simp: wanted_calls_def)
  then show ?case
    by (cases "drop wanted (wanted_calls anchor)") (simp_all add: body_allowed_def direct_callees_def calls_match_simps)
next
  case (Cons pc pcs)
  let ?c = "bl_target pc (load32 m pc)" and ?ws = "drop wanted (wanted_calls anchor)"
  let ?ok = "\<not> (an_no_data_refs anchor \<and> adrp_target pc (load32 m pc) \<noteq> 0) \<and>
     \<not> (an_calls_exact anchor \<and> is_indirect_call (load32 m pc))"
  have callees: "direct_callees m (pc # pcs) = (if ?c = 0 then direct_callees m pcs else ?c # direct_callees m pcs)"
    by (simp add: direct_callees_def)
  have allowed: "body_allowed m anchor (pc # pcs) \<longleftrightarrow> ?ok \<and> body_allowed m anchor pcs"
    by (simp add: body_allowed_def)
  show ?case
  proof (cases "?c = 0 \<or> \<not> ?ok \<or> \<not> in_text text text_sz ?c")
    case True
    then show ?thesis
      using Cons.IH[OF Cons.prems] callees allowed by (auto simp: Let_def in_text_def)
  next
    case False
    have loop: "calls_loop m mh slide text text_sz tables anchor (pc # pcs) wanted =
      (if int wanted < an_call_count anchor \<and> callee_is_named m mh slide tables ?c (an_calls anchor ! wanted)
       then calls_loop m mh slide text text_sz tables anchor pcs (Suc wanted)
       else \<not> an_calls_exact anchor \<and> calls_loop m mh slide text text_sz tables anchor pcs wanted)"
      using False by (auto simp: Let_def in_text_def)
    show ?thesis
    proof (cases "int wanted < an_call_count anchor")
      case True
      then have "wanted < length (wanted_calls anchor)" "wanted_calls anchor ! wanted = an_calls anchor ! wanted"
        using assms(1) by (auto simp: wanted_calls_def)
      then have ws: "?ws = an_calls anchor ! wanted # drop (Suc wanted) (wanted_calls anchor)"
        by (metis Cons_nth_drop_Suc)
      show ?thesis
        using True False Cons.IH[of wanted] Cons.IH[of "Suc wanted"] Cons.prems callees allowed
        unfolding loop ws by (auto simp: calls_match_simps)
    next
      case full: False
      then have "?ws = []" using Cons.prems by (simp add: wanted_calls_def)
      then show ?thesis
        using full False Cons.IH[of wanted] Cons.prems callees allowed
        unfolding loop by (auto simp: calls_match_simps)
    qed
  qed
qed

section \<open>Lemmas: where located code lies\<close>

lemma aligned4_iff: "x AND 3 = (0 :: u64) \<longleftrightarrow> unat x mod 4 = 0"
proof -
  have "(3 :: u64) = mask 2" by (simp add: mask_eq_exp_minus_1)
  then have "x AND 3 = take_bit 2 x" by (simp only: take_bit_eq_mask)
  moreover have "unat (take_bit 2 x) = unat x mod 4" by (simp add: take_bit_eq_mod unat_mod_distrib)
  ultimately show ?thesis by (metis unat_0 unat_eq_zero)
qed

lemma or_aligned4:
  assumes "(s OR e) AND 3 = (0 :: u64)"
  shows "unat s mod 4 = 0" "unat e mod 4 = 0"
proof -
  have "(s OR e) AND 3 = (s AND 3) OR (e AND 3)" by (rule bit_word_eqI) (auto simp: bit_simps)
  with assms have "s AND 3 = 0" "e AND 3 = 0" by (simp_all add: or_eq_0_iff)
  then show "unat s mod 4 = 0" "unat e mod 4 = 0" by (simp_all add: aligned4_iff)
qed

lemma function_bounds_enclose:
  "np_function_bounds m mh slide addr = Some (s, e) \<Longrightarrow> s \<noteq> 0 \<and> s \<le> addr \<and> addr < e"
  by (auto simp: np_function_bounds_def dest: bounds_loop_sound split: option.splits if_splits)

lemma usable_code_in_text:
  assumes "usable_code m mh slide text text_sz = Some (code, code_sz)"
  shows "text \<le> code" "unat code + unat code_sz \<le> unat text + unat text_sz"
proof -
  from assms have c: "text \<le> code" "code - text \<le> text_sz" "code_sz \<le> text_sz - (code - text)"
    by (auto simp: usable_code_def split: option.splits if_splits)
  then show "text \<le> code" by simp
  have "unat (code - text) = unat code - unat text" using c(1) by (rule unat_sub)
  moreover have "unat (text_sz - (code - text)) = unat text_sz - unat (code - text)" using c(2) by (rule unat_sub)
  ultimately show "unat code + unat code_sz \<le> unat text + unat text_sz"
    using c by (simp add: word_le_nat_alt)
qed

text \<open>A function of the text: aligned, and its first instruction is inside.\<close>

definition fn_in_text :: "u64 \<Rightarrow> u64 \<Rightarrow> u64 \<Rightarrow> bool" where
  "fn_in_text text text_sz fn \<longleftrightarrow> fn \<noteq> 0 \<and> text \<le> fn \<and> unat fn mod 4 = 0 \<and>
     unat fn + 4 \<le> unat text + unat text_sz"

lemma code_fn_in_text:
  assumes "usable_code m mh slide text text_sz = Some (code, code_sz)"
    and "np_function_bounds m mh slide pc = Some (s, e)"
    and "code \<le> s" "e \<le> code + (code_sz AND NOT 3)" "(s OR e) AND 3 = 0"
    and "unat text + unat text_sz < 2 ^ 64"
  shows "fn_in_text text text_sz s"
proof -
  note u = usable_code_in_text[OF assms(1)] and b = function_bounds_enclose[OF assms(2)]
  have "unat (code_sz AND NOT 3) \<le> unat code_sz" by (simp add: word_and_le2 word_le_nat_alt[symmetric])
  moreover have "unat (code + (code_sz AND NOT 3)) \<le> unat code + unat (code_sz AND NOT 3)"
    by (simp add: unat_word_ariths)
  ultimately have "unat e \<le> unat text + unat text_sz"
    using assms(4) u(2) by (simp add: word_le_nat_alt)
  moreover have "unat s < unat e" using b by (simp add: word_less_nat_alt word_le_nat_alt)
  then have "unat s + 4 \<le> unat e" using or_aligned4[OF assms(5)] by presburger
  ultimately show ?thesis
    using u(1) assms(3) b or_aligned4(1)[OF assms(5)] by (auto simp: fn_in_text_def)
qed

lemma containing_fn_in_text:
  assumes "containing_fn m mh slide text text_sz pc = fn" "fn \<noteq> 0" "unat text + unat text_sz < 2 ^ 64"
  shows "fn_in_text text text_sz fn"
  using assms code_fn_in_text
  by (fastforce simp: containing_fn_def not_less split: option.splits prod.splits if_splits)

lemma sole_caller_in_text:
  assumes "sole_caller m mh slide text text_sz callee tail = fn" "fn \<noteq> 0" "unat text + unat text_sz < 2 ^ 64"
  shows "fn_in_text text text_sz fn"
  using assms containing_fn_in_text
  by (auto simp: sole_caller_def caller_loop_sole Let_def split: if_splits)

lemma hop_loop_in_text:
  assumes "unat text + unat text_sz < 2 ^ 64"
  shows "hop_loop m mh slide text text_sz tail n from = fn \<Longrightarrow> fn \<noteq> 0 \<Longrightarrow> 0 < n \<or> fn_in_text text text_sz from \<Longrightarrow>
    fn_in_text text text_sz fn"
proof (induction n arbitrary: "from")
  case (Suc n)
  let ?c = "sole_caller m mh slide text text_sz from tail"
  from Suc.prems have c: "?c \<noteq> 0" "hop_loop m mh slide text text_sz tail n ?c = fn"
    by (auto simp: Let_def split: if_splits)
  from Suc.IH[OF c(2) Suc.prems(2)] sole_caller_in_text[OF refl c(1) assms] show ?case by blast
qed simp

lemma body_end_le:
  "body_end m mh slide fn text text_sz \<le> text + text_sz"
proof -
  let ?cap = "if fn + NP_FN_SPAN_MAX > text + text_sz then text + text_sz else fn + NP_FN_SPAN_MAX"
  have cap: "?cap \<le> text + text_sz" by auto
  have "pc \<le> text + text_sz" if "find (is_entry_insn m) (scan_pcs 4 (fn + 4) ?cap) = Some pc" for pc
  proof -
    have "pc \<in> set (scan_pcs 4 (fn + 4) ?cap)" using that by (metis find_Some_iff nth_mem)
    then have "unat pc + 4 \<le> unat ?cap" by (rule scan_pcs_bounds(2))
    then have "pc \<le> ?cap" by (simp add: word_le_nat_alt)
    with cap show ?thesis by simp
  qed
  with cap show ?thesis
    unfolding body_end_def Let_def by (auto split: option.splits prod.splits)
qed

lemma pair_in_text:
  assumes "sole_insn_pair m mh slide fn text text_sz p = a" "a \<noteq> 0" "fn \<noteq> 0" "text \<le> fn"
    and "unat text + unat text_sz < 2 ^ 64"
  shows "text \<le> a" "unat a + 4 \<le> unat text + unat text_sz"
proof -
  let ?pcs = "scan_pcs 8 fn (body_end m mh slide fn text text_sz)"
  from pairs.search_sound[of "(m, mh, slide, fn, text, text_sz, p)"] assms(1-3)
  obtain pc where pc: "pc \<in> set ?pcs" and a: "a = pair_landing p pc" by auto
  have sum: "unat (text + text_sz) = unat text + unat text_sz" using assms(5) by (simp add: unat_word_ariths)
  have hi: "unat pc + 8 \<le> unat text + unat text_sz"
    using scan_pcs_bounds(2)[OF pc] body_end_le[of m mh slide fn "text" text_sz] sum
    by (simp add: word_le_nat_alt)
  have lo: "text \<le> pc" using scan_pcs_bounds(1)[OF pc] assms(4) by simp
  have next4: "unat (pc + 4) = unat pc + 4" using scan_pcs_next[OF pc, of 4] by simp
  show "text \<le> a" "unat a + 4 \<le> unat text + unat text_sz"
    using lo hi next4 by (auto simp: a pair_landing_def word_le_nat_alt)
qed

lemma in_text_bounds:
  assumes "in_text text text_sz a" "unat text + unat text_sz < 2 ^ 64" "4 \<le> text_sz"
  shows "text \<le> a" "unat a + 4 \<le> unat text + unat text_sz"
proof -
  have "unat (text + text_sz) = unat text + unat text_sz" using assms(2) by (simp add: unat_word_ariths)
  moreover have "4 \<le> text + text_sz" using assms(3) calculation by (simp add: word_le_nat_alt)
  then have "unat (text + text_sz - 4) = unat (text + text_sz) - 4" by (simp add: unat_sub)
  ultimately have "unat text \<le> unat a" "unat a \<le> unat text + unat text_sz - 4" "4 \<le> unat text_sz"
    using assms(1,3) by (simp_all add: in_text_def word_le_nat_alt not_less)
  then show "text \<le> a" "unat a + 4 \<le> unat text + unat text_sz"
    by (simp add: word_le_nat_alt, linarith)
qed

lemma nth_call_loop_in_text:
  "nth_call_loop m text (text + text_sz - 4) ordn pcs seen = t \<Longrightarrow> t \<noteq> 0 \<Longrightarrow> in_text text text_sz t"
  by (induction pcs arbitrary: seen) (auto simp: Let_def in_text_def not_less split: if_splits)

lemma call_path_in_text:
  "call_path_loop m mh slide text text_sz path fn = t \<Longrightarrow> t \<noteq> 0 \<Longrightarrow> path \<noteq> [] \<or> in_text text text_sz fn \<Longrightarrow>
     in_text text text_sz t \<and> np_looks_like_prologue m t"
proof (induction path arbitrary: fn)
  case (Cons k path)
  let ?fn = "nth_call_target m mh slide fn text text_sz k"
  from Cons.prems have f: "?fn \<noteq> 0" "call_path_loop m mh slide text text_sz path ?fn = t"
    by (auto simp: Let_def split: if_splits)
  have "in_text text text_sz ?fn"
    using f(1) nth_call_loop_in_text by (auto simp: nth_call_target_def)
  with Cons.IH[OF f(2) Cons.prems(2)] show ?case by blast
qed (auto split: if_splits)

lemma nth_insn_loop_some:
  "nth_insn_loop m opcode opmask ordn pcs count = t \<Longrightarrow> t \<noteq> 0 \<Longrightarrow>
     \<exists>pc \<in> set pcs. t = pc + 4 \<and> load32 m pc AND opmask = opcode"
  by (induction pcs arbitrary: count) (auto split: if_splits)

lemma by_calls_in_text:
  assumes "usable_code m mh slide text text_sz = Some (code, code_sz)"
    and "unat text + unat text_sz < 2 ^ 64"
  shows "by_calls_loop m mh slide text text_sz tables anchor seed code (code + (code_sz AND NOT 3)) pcs found pe = t
    \<Longrightarrow> t \<noteq> 0 \<Longrightarrow> found = 0 \<or> fn_in_text text text_sz found \<Longrightarrow> fn_in_text text text_sz t"
proof (induction pcs arbitrary: found pe)
  case (Cons pc pcs)
  show ?case
  proof (cases "pc < pe \<or> bl_target pc (load32 m pc) \<noteq> seed")
    case True
    then show ?thesis using Cons by (auto simp: Let_def)
  next
    case False
    with Cons.prems(1,2) obtain s e where b: "np_function_bounds m mh slide pc = Some (s, e)"
      and ok: "code \<le> s" "e \<le> code + (code_sz AND NOT 3)" "(s OR e) AND 3 = 0"
      by (auto simp: Let_def not_less split: option.splits if_splits)
    from code_fn_in_text[OF assms(1) b ok assms(2)] have fn: "fn_in_text text text_sz s" .
    from False b ok Cons.prems(1,2) obtain f pe' where
      "by_calls_loop m mh slide text text_sz tables anchor seed code (code + (code_sz AND NOT 3)) pcs f pe' = t"
      "f = s \<or> f = found"
      by (auto simp: Let_def not_less split: if_splits)
    with Cons.IH[of f pe'] Cons.prems(2,3) fn show ?thesis by blast
  qed
qed auto


end
