(* ===== verification/Anchor_Props.thy ===== *)
theory Anchor_Props
  imports Anchor_Facts
begin

text \<open>
  What \<^verbatim>\<open>np_locate_anchor\<close> (\<^verbatim>\<open>src/dylib/resolver/anchor.c\<close>) guarantees: every address it gives lies in the
  searched text, and the steps of an anchor by string (the string, the reference to it, the function
  around the reference) and of an anchor by calls are each the unique candidate or nothing. The sample
  image of theory Macho is evaluated here as the concrete input.
\<close>

section \<open>Lemmas: anchors\<close>

lemma slot_function_in_text:
  assumes "slot_function m mh slide text text_sz slot = a" "a \<noteq> 0"
  shows "in_text text text_sz a \<and> np_looks_like_prologue m a"
  using assms by (auto simp: slot_function_def Let_def in_text_def split: option.splits if_splits)

lemma fn_of_calls_in_text:
  assumes "sole_fn_by_calls m mh slide text text_sz anchor = a" "a \<noteq> 0" "unat text + unat text_sz < 2 ^ 64"
  shows "fn_in_text text text_sz a"
proof -
  from assms(1,2) obtain code code_sz where u: "usable_code m mh slide text text_sz = Some (code, code_sz)"
    and l: "by_calls_loop m mh slide text text_sz (load_stub_tables m mh slide) anchor
      (stub_for_name m mh slide (an_calls anchor ! 0)) code (code + (code_sz AND NOT 3))
      (scan_pcs 4 code (code + (code_sz AND NOT 3))) 0 0 = a"
    by (auto simp: sole_fn_by_calls_def Let_def split: option.splits if_splits)
  from by_calls_in_text[OF u assms(3) l assms(2)] show ?thesis by simp
qed

lemma hop_to_caller_in_text:
  assumes "hop_to_caller m mh slide text text_sz from hops tail = fn" "fn \<noteq> 0" "0 < hops"
    and "unat text + unat text_sz < 2 ^ 64"
  shows "fn_in_text text text_sz fn"
  using assms hop_loop_in_text[OF assms(4), of m mh slide tail "nat hops" "from" fn]
  by (auto simp: hop_to_caller_def split: if_splits)

lemma xref_to_va_in_text:
  assumes "xref_to_va m text text_sz target ordn ind = p" "p \<noteq> 0" "unat text + unat text_sz < 2 ^ 64"
  shows "text \<le> p"
proof -
  have "p \<in> set (ref_cands text text_sz)"
  proof (cases "0 < ordn")
    case False
    with assms(1,2) have "sole_loop (refers_to m ind target) (\<lambda>p. p) 0 (ref_cands text text_sz) = p"
      by (auto simp: xref_to_va_def Let_def xref_loop_sole ref_cands_def split: if_splits)
    moreover have "sole_loop h (\<lambda>p. p) f xs = p \<Longrightarrow> p \<noteq> 0 \<Longrightarrow> p = f \<or> p \<in> set xs" for h f xs
      by (induction xs arbitrary: f) (auto split: if_splits)
    ultimately show ?thesis using assms(2) by blast
  next
    case True
    with assms(1,2) have "(case drop (nat ordn - 1) (filter (refers_to m ind target) (ref_cands text text_sz)) of
        p # _ \<Rightarrow> p | [] \<Rightarrow> 0) = p"
      using xref_loop_nth[OF True, of 0 m "text" target ind "[0..<unat (text_sz div 4) - 1]" 0]
      by (auto simp: xref_to_va_def Let_def ref_cands_def split: if_splits)
    then have "p \<in> set (drop (nat ordn - 1) (filter (refers_to m ind target) (ref_cands text text_sz)))"
      using assms(2) by (auto split: list.splits)
    then show ?thesis by (meson filter_is_subset in_set_dropD subsetD)
  qed
  then obtain i where i: "i < unat (text_sz div 4) - 1" "p = text + of_nat i * 4"
    by (auto simp: ref_cands_def)
  have "4 * i < unat text_sz" using i(1) by (simp add: unat_div_distrib)
  then have lt: "unat text + 4 * i < 2 ^ 64" using assms(3) by linarith
  then have "unat (of_nat (4 * i) :: u64) = 4 * i"
    by (simp add: unsigned_of_nat take_bit_nat_eq_self del: of_nat_mult)
  with lt have "unat (text + of_nat (4 * i)) = unat text + 4 * i" by (simp add: unat_word_ariths del: of_nat_mult)
  moreover have "p = text + of_nat (4 * i)" by (simp add: i(2) mult.commute)
  ultimately show ?thesis by (simp add: word_le_nat_alt)
qed

lemma scan_for_insn_in_text:
  assumes "scan_for_insn m text text_sz start opcode opmask n = a" "a \<noteq> 0" "text \<le> start"
    and "unat text + unat text_sz < 2 ^ 64"
  shows "text \<le> a" "unat a \<le> unat text + unat text_sz"
proof -
  from nth_insn_loop_some[OF assms(1)[unfolded scan_for_insn_def] assms(2)] obtain pc where
    pc: "pc \<in> set (scan_pcs 4 start (text + text_sz))" and a: "a = pc + 4" by blast
  have "unat (pc + 4) = unat pc + 4" using scan_pcs_next[OF pc, of 4] by simp
  moreover have "unat (text + text_sz) = unat text + unat text_sz" using assms(4) by (simp add: unat_word_ariths)
  ultimately show "text \<le> a" "unat a \<le> unat text + unat text_sz"
    using scan_pcs_bounds(1,2)[OF pc] assms(3) by (auto simp: a word_le_nat_alt)
qed

text \<open>What an anchor that is not the instruction after a string resolves to.\<close>

lemma locate_cases:
  assumes "np_locate_anchor uniqued m mh slide text text_sz anchor = a" "a \<noteq> 0"
    and "unat text + unat text_sz < 2 ^ 64"
  obtains (slot) "in_text text text_sz a" "np_looks_like_prologue m a"
  | (fn) "fn_in_text text text_sz a"
  | (pair) fn where "fn_in_text text text_sz fn" "sole_insn_pair m mh slide fn text text_sz (an_pair anchor) = a"
  | (insn) ref opcode opmask n where "an_kind anchor = NP_MATCH_INSN_AFTER_STRING" "text \<le> ref"
      "scan_for_insn m text text_sz ref opcode opmask n = a"
proof -
  consider (v) "an_kind anchor = NP_MATCH_VTABLE_SLOT" | (c) "an_kind anchor = NP_MATCH_CALLS"
    | (r) "an_kind anchor = NP_MATCH_RTTI_SLOT"
    | (s) "an_kind anchor \<notin> {NP_MATCH_VTABLE_SLOT, NP_MATCH_CALLS, NP_MATCH_RTTI_SLOT}" by blast
  then show ?thesis
  proof cases
    case v
    with assms(1,2) show ?thesis
      by (intro slot) (auto simp: np_locate_anchor_def slot_function_in_text[OF refl] split: if_splits)
  next
    case c
    with assms show ?thesis
      by (intro fn) (auto simp: np_locate_anchor_def fn_of_calls_in_text[OF refl] split: if_splits)
  next
    case r
    with assms(1,2) show ?thesis
      by (intro slot) (auto simp: np_locate_anchor_def Let_def slot_function_in_text[OF refl] split: if_splits)
  next
    case s
    define target where "target = (if an_indirect anchor
      then indirect_slot_loop m mh slide (cstring_va m mh slide (an_str anchor)) (uniqued (an_str anchor)) data_segs
      else cstring_va m mh slide (an_str anchor))"
    define ref where "ref = xref_to_va m text text_sz target (an_nth_xref anchor) (an_indirect anchor)"
    have r0: "ref \<noteq> 0" using assms(1,2) s
      by (auto simp: np_locate_anchor_def Let_def target_def[symmetric] ref_def[symmetric] split: if_splits)
    then have lo: "text \<le> ref" using xref_to_va_in_text assms(3) ref_def by metis
    show ?thesis
    proof (cases "an_kind anchor = NP_MATCH_INSN_AFTER_STRING")
      case True
      then obtain opcode opmask n where "scan_for_insn m text text_sz ref opcode opmask n = a"
        using assms(1,2) s
        by (auto simp: np_locate_anchor_def Let_def target_def[symmetric] ref_def[symmetric] split: if_splits)
      with insn True lo show ?thesis by blast
    next
      case False
      define fn0 where "fn0 = (if an_caller_hops anchor > 0 then
          if hop_to_caller m mh slide text text_sz ref (an_caller_hops anchor) (an_caller_tail anchor) = 0 then
            if containing_fn m mh slide text text_sz ref \<noteq> 0
            then hop_to_caller m mh slide text text_sz (containing_fn m mh slide text text_sz ref)
              (an_caller_hops anchor) (an_caller_tail anchor)
            else hop_to_caller m mh slide text text_sz ref (an_caller_hops anchor) (an_caller_tail anchor)
          else hop_to_caller m mh slide text text_sz ref (an_caller_hops anchor) (an_caller_tail anchor)
        else containing_fn m mh slide text text_sz ref)"
      have eq: "a = (if fn0 = 0 then 0
          else if an_kind anchor = NP_MATCH_INSN_PAIR_IN_FN
          then sole_insn_pair m mh slide fn0 text text_sz (an_pair anchor)
          else if an_kind anchor = NP_MATCH_CALL_TARGET
          then walk_call_path m mh slide fn0 text text_sz anchor
          else fn0)"
        using assms(1,2) s False unfolding fn0_def
        by (simp add: np_locate_anchor_def Let_def target_def[symmetric] ref_def[symmetric] split: if_split_asm)
      then have f0: "fn0 \<noteq> 0" using assms(2) by auto
      then have f: "fn_in_text text text_sz fn0"
        using hop_to_caller_in_text containing_fn_in_text assms(3) unfolding fn0_def
        by (auto split: if_splits)
      show ?thesis
      proof (cases "an_kind anchor = NP_MATCH_INSN_PAIR_IN_FN")
        case True
        with eq f0 f pair show ?thesis by auto
      next
        case np: False
        show ?thesis
        proof (cases "an_kind anchor = NP_MATCH_CALL_TARGET")
          case True
          with eq f0 np have w: "walk_call_path m mh slide fn0 text text_sz anchor = a" by simp
          have "in_text text text_sz fn0"
          proof -
            have "unat (text + text_sz) = unat text + unat text_sz" using assms(3) by (simp add: unat_word_ariths)
            moreover have "4 \<le> unat text + unat text_sz" using f by (simp add: fn_in_text_def)
            ultimately have "unat (text + text_sz - 4) = unat text + unat text_sz - 4"
              by (simp add: unat_sub word_le_nat_alt)
            moreover have "unat text \<le> unat fn0" "unat fn0 + 4 \<le> unat text + unat text_sz"
              using f by (simp_all add: fn_in_text_def word_le_nat_alt)
            ultimately show ?thesis unfolding in_text_def word_less_nat_alt by linarith
          qed
          then have "in_text text text_sz a \<and> np_looks_like_prologue m a"
            using w call_path_in_text[OF _ assms(2)] by (auto simp: walk_call_path_def assms(2) split: if_splits)
          then show ?thesis using slot by blast
        next
          case False
          with eq np f0 f fn show ?thesis by simp
        qed
      qed
    qed
  qed
qed

section \<open>The sample image\<close>

definition sample_anchor :: np_anchor where
  "sample_anchor = \<lparr>an_kind = NP_MATCH_STRING, an_str = cstr ''npstr'', an_va = 0, an_insn = 0,
     an_insn_mask = 0, an_nth = 0, an_nth_xref = 0,
     an_pair = \<lparr>ip_first = 0, ip_first_mask = 0, ip_second = 0, ip_second_mask = 0, ip_tie_mask = 0,
       ip_land_on_second = False\<rparr>,
     an_indirect = False, an_caller_hops = 0, an_caller_tail = False, an_call_path = [],
     an_call_depth = 0, an_calls = [], an_call_count = 0, an_calls_exact = False,
     an_no_data_refs = False, an_slot = 0\<rparr>"

lemma sample_code [sample_eval]:
  "load32 sample_image 0x10400 = 0x0"
  "load32 sample_image 0x10404 = 0x0"
  "load32 sample_image 0x10408 = 0x0"
  "load32 sample_image 0x1040C = 0x0"
  "load32 sample_image 0x10410 = 0xD503237F"
  "load32 sample_image 0x10414 = 0x90000000"
  "load32 sample_image 0x10418 = 0x91114000"
  "load32 sample_image 0x1041C = 0x94000009"
  "load32 sample_image 0x10420 = 0x0"
  "load32 sample_image 0x10424 = 0x0"
  "load32 sample_image 0x10428 = 0x0"
  "load32 sample_image 0x1042C = 0x0"
  "load32 sample_image 0x10430 = 0x0"
  "load32 sample_image 0x10434 = 0x0"
  "load32 sample_image 0x10438 = 0x0"
  "load32 sample_image 0x1043C = 0x0"
  "load32 sample_image 0x10440 = 0x0"
  "load32 sample_image 0x10444 = 0x0"
  "load32 sample_image 0x10448 = 0x0"
  "load32 sample_image 0x1044C = 0x0"
  "load32 sample_image 0x10450 = 0x7473706E"
  "load32 sample_image 0x10454 = 0x72"
  "load32 sample_image 0x10458 = 0x0"
  "load32 sample_image 0x1045C = 0x0"
  by (simp_all add: sample_load32 sample_words_def)

lemma sample_text_bytes0 [sample_eval]:
  "sample_image 0x10400 = 0x0"
  "sample_image 0x10401 = 0x0"
  "sample_image 0x10402 = 0x0"
  "sample_image 0x10403 = 0x0"
  "sample_image 0x10404 = 0x0"
  "sample_image 0x10405 = 0x0"
  "sample_image 0x10406 = 0x0"
  "sample_image 0x10407 = 0x0"
  "sample_image 0x10408 = 0x0"
  "sample_image 0x10409 = 0x0"
  "sample_image 0x1040A = 0x0"
  "sample_image 0x1040B = 0x0"
  "sample_image 0x1040C = 0x0"
  "sample_image 0x1040D = 0x0"
  "sample_image 0x1040E = 0x0"
  "sample_image 0x1040F = 0x0"
  by (simp_all add: sample_image_def word_mem_def sample_words_def)

lemma sample_text_bytes1 [sample_eval]:
  "sample_image 0x10410 = 0x7F"
  "sample_image 0x10411 = 0x23"
  "sample_image 0x10412 = 0x3"
  "sample_image 0x10413 = 0xD5"
  "sample_image 0x10414 = 0x0"
  "sample_image 0x10415 = 0x0"
  "sample_image 0x10416 = 0x0"
  "sample_image 0x10417 = 0x90"
  "sample_image 0x10418 = 0x0"
  "sample_image 0x10419 = 0x40"
  "sample_image 0x1041A = 0x11"
  "sample_image 0x1041B = 0x91"
  "sample_image 0x1041C = 0x9"
  "sample_image 0x1041D = 0x0"
  "sample_image 0x1041E = 0x0"
  "sample_image 0x1041F = 0x94"
  by (simp_all add: sample_image_def word_mem_def sample_words_def)

lemma sample_text_bytes2 [sample_eval]:
  "sample_image 0x10420 = 0x0"
  "sample_image 0x10421 = 0x0"
  "sample_image 0x10422 = 0x0"
  "sample_image 0x10423 = 0x0"
  "sample_image 0x10424 = 0x0"
  "sample_image 0x10425 = 0x0"
  "sample_image 0x10426 = 0x0"
  "sample_image 0x10427 = 0x0"
  "sample_image 0x10428 = 0x0"
  "sample_image 0x10429 = 0x0"
  "sample_image 0x1042A = 0x0"
  "sample_image 0x1042B = 0x0"
  "sample_image 0x1042C = 0x0"
  "sample_image 0x1042D = 0x0"
  "sample_image 0x1042E = 0x0"
  "sample_image 0x1042F = 0x0"
  by (simp_all add: sample_image_def word_mem_def sample_words_def)

lemma sample_text_bytes3 [sample_eval]:
  "sample_image 0x10430 = 0x0"
  "sample_image 0x10431 = 0x0"
  "sample_image 0x10432 = 0x0"
  "sample_image 0x10433 = 0x0"
  "sample_image 0x10434 = 0x0"
  "sample_image 0x10435 = 0x0"
  "sample_image 0x10436 = 0x0"
  "sample_image 0x10437 = 0x0"
  "sample_image 0x10438 = 0x0"
  "sample_image 0x10439 = 0x0"
  "sample_image 0x1043A = 0x0"
  "sample_image 0x1043B = 0x0"
  "sample_image 0x1043C = 0x0"
  "sample_image 0x1043D = 0x0"
  "sample_image 0x1043E = 0x0"
  "sample_image 0x1043F = 0x0"
  by (simp_all add: sample_image_def word_mem_def sample_words_def)

lemma sample_text_bytes4 [sample_eval]:
  "sample_image 0x10440 = 0x0"
  "sample_image 0x10441 = 0x0"
  "sample_image 0x10442 = 0x0"
  "sample_image 0x10443 = 0x0"
  "sample_image 0x10444 = 0x0"
  "sample_image 0x10445 = 0x0"
  "sample_image 0x10446 = 0x0"
  "sample_image 0x10447 = 0x0"
  "sample_image 0x10448 = 0x0"
  "sample_image 0x10449 = 0x0"
  "sample_image 0x1044A = 0x0"
  "sample_image 0x1044B = 0x0"
  "sample_image 0x1044C = 0x0"
  "sample_image 0x1044D = 0x0"
  "sample_image 0x1044E = 0x0"
  "sample_image 0x1044F = 0x0"
  by (simp_all add: sample_image_def word_mem_def sample_words_def)

lemma sample_text_bytes5 [sample_eval]:
  "sample_image 0x10450 = 0x6E"
  "sample_image 0x10451 = 0x70"
  "sample_image 0x10452 = 0x73"
  "sample_image 0x10453 = 0x74"
  "sample_image 0x10454 = 0x72"
  "sample_image 0x10455 = 0x0"
  "sample_image 0x10456 = 0x0"
  "sample_image 0x10457 = 0x0"
  "sample_image 0x10458 = 0x0"
  "sample_image 0x10459 = 0x0"
  "sample_image 0x1045A = 0x0"
  "sample_image 0x1045B = 0x0"
  "sample_image 0x1045C = 0x0"
  "sample_image 0x1045D = 0x0"
  "sample_image 0x1045E = 0x0"
  "sample_image 0x1045F = 0x0"
  by (simp_all add: sample_image_def word_mem_def sample_words_def)

lemma section_named_numeral:
  "section_named_loop m slide sectname sect (numeral v) =
     (if \<not> strncmp_eq m (sect_name sect) sectname NAME_LEN
      then section_named_loop m slide sectname (sect + SIZEOF_SECTION) (pred_numeral v)
      else Some (sect_addr m sect + slide, sect_size m sect))"
  by (simp only: numeral_eq_Suc section_named_loop.simps)

lemma sample_text_names [sample_eval]:
  "strncmp_eq sample_image 0x10068 (cstr ''__text'') NAME_LEN"
  "strncmp_eq sample_image 0x10028 (cstr ''__DATA_CONST'') NAME_LEN = False"
  "strncmp_eq sample_image 0x10110 (cstr ''__DATA_CONST'') NAME_LEN = False"
  "strncmp_eq sample_image 0x10028 (cstr ''__DATA'') NAME_LEN = False"
  "strncmp_eq sample_image 0x10110 (cstr ''__DATA'') NAME_LEN = False"
  by (simp_all add: cstr_def NAME_LEN_Suc sample_eval)

lemma sample_code_section:
  "np_find_section sample_image 0x10000 0 (cstr ''__TEXT'') (cstr ''__text'') = Some (0x10400, 0x40)"
  by (simp add: np_find_section_def for_lcs_sample countdown_numeral section_named_numeral is_segment_def
      sections_fit_lc_def macho_consts sample_eval)

lemma sample_data_segments:
  "np_find_segment sample_image 0x10000 0 (cstr ''__DATA_CONST'') = None"
  "np_find_segment sample_image 0x10000 0 (cstr ''__DATA'') = None"
  by (simp_all add: np_find_segment_def for_lcs_sample countdown_numeral is_segment_def macho_consts sample_eval)

lemma cstr_npstr: "cstr ''npstr'' = [0x6E, 0x70, 0x73, 0x74, 0x72]"
  by (simp add: cstr_def)

lemma str_here_npstr: "str_here m [0x6E, 0x70, 0x73, 0x74, 0x72] p \<longleftrightarrow>
  m p = 0x6E \<and> m (p + 1) = 0x70 \<and> m (p + 2) = 0x73 \<and> m (p + 3) = 0x74 \<and> m (p + 4) = 0x72 \<and> m (p + 5) = 0"
  by (simp add: str_here_def memcmp_eq_def upt_conv_Cons)

lemma upt_0_numeral: "[0..<numeral n] = (0::nat) # [1..<numeral n]"
  by (simp add: upt_conv_Cons)

lemma upt_1_numeral: "1 < (numeral n :: nat) \<Longrightarrow> [Suc 0..<numeral n] = 1 # [2..<numeral n]"
  by (simp add: upt_conv_Cons numeral_2_eq_2)

lemma sample_hits: "seg_hits sample_image 0x10000 0 (cstr ''npstr'') (cstr ''__TEXT'') = [0x10450]"
  unfolding seg_hits_def sample_segment option.case prod.case cstr_npstr
  by (simp add: seg_addrs_def upt_0_numeral upt_1_numeral str_here_npstr sample_eval)

lemma sample_refs: "filter (refers_to sample_image False 0x10450) (ref_cands 0x10400 0x60) = [0x10414]"
  by (simp add: ref_cands_def upt_0_numeral upt_1_numeral refers_to_def ref_at_def sample_eval adrp_target_def adrp_reg_def add_imm_target_def)

lemma sample_bounds: "np_function_bounds sample_image 0x10000 0 0x10414 = Some (0x10410, 0x10440)"
proof -
  have "table_bytes sample_image 0x11040 (unat (4 :: u64)) = [0x80, 0x08, 0x10, 0x30]"
    by (simp add: table_bytes_def sample_eval upt_rec)
  then show ?thesis
    by (simp add: np_function_bounds_def sample_fn_starts bounds_loop.simps uleb_Cons uleb_add_def)
qed

section \<open>Properties\<close>

text \<open>Whatever kind of anchor it is and whatever the image holds, an address that is located lies in
  the text that was searched; and it is the address of an instruction of the text, except that the
  place after a matched instruction may be the end of the text.\<close>

theorem located_in_text:
  assumes "np_locate_anchor uniqued m mh slide text text_sz anchor = a" "a \<noteq> 0"
    and "unat text + unat text_sz < 2 ^ 64" "4 \<le> text_sz"
  shows "text \<le> a \<and> unat a \<le> unat text + unat text_sz \<and>
    (an_kind anchor \<noteq> NP_MATCH_INSN_AFTER_STRING \<longrightarrow> unat a + 4 \<le> unat text + unat text_sz)"
proof (rule locate_cases[OF assms(1-3)])
  assume "in_text text text_sz a"
  from in_text_bounds[OF this assms(3,4)] show ?thesis by simp
next
  assume "fn_in_text text text_sz a"
  then show ?thesis by (simp add: fn_in_text_def)
next
  fix fn assume "fn_in_text text text_sz fn" "sole_insn_pair m mh slide fn text text_sz (an_pair anchor) = a"
  then show ?thesis using pair_in_text[OF _ assms(2) _ _ assms(3), of m mh slide fn "an_pair anchor"]
    by (simp add: fn_in_text_def)
next
  fix ref opcode opmask n assume "an_kind anchor = NP_MATCH_INSN_AFTER_STRING" "text \<le> ref"
    "scan_for_insn m text text_sz ref opcode opmask n = a"
  with scan_for_insn_in_text[OF _ assms(2) _ assms(3)] show ?thesis by simp
qed

text \<open>The search for a string constant takes the first of its segments that holds the string, and
  answers its address there when it is there exactly once.\<close>

theorem cstring_found_once:
  assumes "s \<noteq> []" "0 \<notin> set s" "segs_ok m mh slide cstring_segs"
  shows "cstring_va m mh slide s =
    (case filter (\<lambda>hits. hits \<noteq> []) (map (seg_hits m mh slide s) cstring_segs) of [p] # _ \<Rightarrow> p | _ \<Rightarrow> 0)"
  unfolding cstring_va_def by (rule cstring_segs_hits[OF assms])

lemma sample_segs_ok: "segs_ok sample_image 0x10000 0 cstring_segs"
  by (simp add: segs_ok_def cstring_segs_def sample_segment sample_data_segments region_ok_def)

lemma sample_seg_hits:
  "map (seg_hits sample_image 0x10000 0 (cstr ''npstr'')) cstring_segs = [[0x10450], [], []]"
  unfolding cstring_segs_def list.map sample_hits by (simp add: seg_hits_def sample_data_segments)

lemma npstr_ok: "cstr ''npstr'' \<noteq> []" "0 \<notin> set (cstr ''npstr'')"
  by (simp_all add: cstr_npstr)

theorem cstring_found_once_witness: "cstring_va sample_image 0x10000 0 (cstr ''npstr'') = 0x10450"
  using cstring_found_once[OF npstr_ok sample_segs_ok] unfolding sample_seg_hits by simp

text \<open>A reference to a string is the n-th pair of instructions that refers to it, for an anchor that
  asks for one; for an anchor that does not, the only such pair. Without it there is no reference.\<close>

theorem xref_is_nth_or_only:
  assumes "region_ok text text_sz"
  shows "xref_to_va m text text_sz target ordn ind =
    (let hits = filter (refers_to m ind target) (ref_cands text text_sz) in
     if 0 < ordn then case drop (nat ordn - 1) hits of p # _ \<Rightarrow> p | [] \<Rightarrow> 0
     else case hits of [p] \<Rightarrow> p | _ \<Rightarrow> 0)"
proof (cases "0 < ordn")
  case True
  then show ?thesis
    using xref_loop_nth[OF True, of 0 m "text" target ind _ 0] by (auto simp: xref_to_va_def Let_def ref_cands_def)
next
  case False
  then have "xref_to_va m text text_sz target ordn ind = xref_to_va m text text_sz target 0 ind"
    by (auto simp: xref_to_va_def Let_def xref_loop_sole)
  then show ?thesis
    using xrefs.search_filter[of "(m, text, text_sz, target, ind)"] assms False by (simp add: Let_def)
qed

theorem xref_is_nth_or_only_witness: "xref_to_va sample_image 0x10400 0x60 0x10450 0 False = 0x10414"
  using xref_is_nth_or_only[of "0x10400" "0x60" sample_image "0x10450" 0 False] sample_refs
  by (simp add: region_ok_def)

text \<open>A body matches the calls of an anchor exactly when it holds nothing the anchor forbids, all its
  direct calls go to the text, and the wanted names are, in order, the names of its callees: of all
  of them for an exact anchor, of some of them otherwise.\<close>

theorem body_calls_spec:
  assumes "an_call_count anchor \<le> int (length (an_calls anchor))" "0 \<le> an_call_count anchor"
  shows "body_matches_calls m mh slide fn fin text text_sz tables anchor \<longleftrightarrow>
    body_allowed m anchor (scan_pcs 4 fn fin) \<and>
    list_all (in_text text text_sz) (direct_callees m (scan_pcs 4 fn fin)) \<and>
    calls_match (callee_is_named m mh slide tables) (an_calls_exact anchor)
      (wanted_calls anchor) (direct_callees m (scan_pcs 4 fn fin))"
  using calls_loop_match[OF assms, of 0] assms(2) by (simp add: body_matches_calls_def)

lemma xref_sole:
  assumes "region_ok text text_sz" "xref_to_va m text text_sz target ordn ind = p" "p \<noteq> 0" "\<not> 0 < ordn"
  shows "filter (refers_to m ind target) (ref_cands text text_sz) = [p]"
proof -
  have "xref_to_va m text text_sz target ordn ind = xref_to_va m text text_sz target 0 ind"
    using assms(4) by (auto simp: xref_to_va_def Let_def xref_loop_sole)
  then show ?thesis
    using xrefs.search_sound[of "(m, text, text_sz, target, ind)"] assms by auto
qed

lemma cstring_sole:
  assumes "s \<noteq> []" "0 \<notin> set s" "segs_ok m mh slide cstring_segs" "cstring_va m mh slide s = p" "p \<noteq> 0"
  shows "\<exists>seg \<in> set cstring_segs. seg_hits m mh slide s seg = [p]"
proof -
  let ?f = "filter (\<lambda>hits. hits \<noteq> []) (map (seg_hits m mh slide s) cstring_segs)"
  have "(case ?f of [p] # _ \<Rightarrow> p | _ \<Rightarrow> 0) = p"
    using cstring_segs_hits[OF assms(1-3)] assms(4) by (simp add: cstring_va_def)
  then obtain rest where "?f = [p] # rest" using assms(5) by (auto split: list.splits)
  then have "[p] \<in> set ?f" by (simp only: list.set_intros(1))
  then show ?thesis by auto
qed

text \<open>A function located by a string: the string is at one address of a segment, one pair of
  instructions of the text refers to that address, and the function the image's own table has around
  the pair starts where the anchor says. Any ambiguity gives no address at all.\<close>

theorem string_function_located:
  assumes "np_locate_anchor uniqued m mh slide text text_sz anchor = a" "a \<noteq> 0"
    and "an_kind anchor = NP_MATCH_STRING" "\<not> an_indirect anchor"
    and "an_nth_xref anchor \<le> 0" "an_caller_hops anchor \<le> 0"
    and "an_str anchor \<noteq> []" "0 \<notin> set (an_str anchor)"
    and "segs_ok m mh slide cstring_segs" "region_ok text text_sz"
  shows "\<exists>seg str ref fin. seg \<in> set cstring_segs \<and> seg_hits m mh slide (an_str anchor) seg = [str] \<and>
    filter (refers_to m False str) (ref_cands text text_sz) = [ref] \<and>
    np_function_bounds m mh slide ref = Some (a, fin) \<and> a \<le> ref \<and> ref < fin"
proof -
  define str where "str = cstring_va m mh slide (an_str anchor)"
  define ref where "ref = xref_to_va m text text_sz str (an_nth_xref anchor) False"
  have str0: "str \<noteq> 0" and ref0: "ref \<noteq> 0" and a: "containing_fn m mh slide text text_sz ref = a"
    using assms(1-6) by (auto simp: np_locate_anchor_def Let_def str_def[symmetric] ref_def[symmetric] 
        split: if_splits)
  from cstring_sole[OF assms(7-9) str_def[symmetric] str0] obtain seg where
    seg: "seg \<in> set cstring_segs" "seg_hits m mh slide (an_str anchor) seg = [str]" by blast
  have refs: "filter (refers_to m False str) (ref_cands text text_sz) = [ref]"
    by (rule xref_sole[OF assms(10) ref_def[symmetric] ref0]) (use assms(5) in simp)
  from a assms(2) obtain fin where "np_function_bounds m mh slide ref = Some (a, fin)"
    by (auto simp: containing_fn_def split: option.splits if_splits)
  with function_bounds_enclose[OF this] seg refs show ?thesis by blast
qed

lemma sample_containing: "containing_fn sample_image 0x10000 0 0x10400 0x60 0x10414 = 0x10410"
  by (simp add: containing_fn_def usable_code_def sample_code_section sample_bounds)

lemma sample_cstring_va: "cstring_va sample_image 0x10000 0 (cstr ''npstr'') = 0x10450"
  unfolding cstring_va_def cstring_segs_hits[OF npstr_ok sample_segs_ok] sample_seg_hits by simp

lemma sample_xref: "xref_to_va sample_image 0x10400 0x60 0x10450 0 False = 0x10414"
  using xrefs.search_filter[of "(sample_image, 0x10400, 0x60, 0x10450, False)"] sample_refs
  by (simp add: region_ok_def)

lemma sample_located: "np_locate_anchor (\<lambda>_. 0) sample_image 0x10000 0 0x10400 0x60 sample_anchor = 0x10410"
  by (simp add: np_locate_anchor_def sample_anchor_def sample_cstring_va sample_xref sample_containing)

theorem located_in_text_witness: "(0x10400 :: u64) \<le> 0x10410 \<and> unat (0x10410 :: u64) + 4 \<le> 0x10460"
  using located_in_text[OF sample_located] by (simp add: sample_anchor_def)

theorem string_function_located_witness:
  "\<exists>seg str ref fin. seg \<in> set cstring_segs \<and> seg_hits sample_image 0x10000 0 (cstr ''npstr'') seg = [str] \<and>
    filter (refers_to sample_image False str) (ref_cands 0x10400 0x60) = [ref] \<and>
    np_function_bounds sample_image 0x10000 0 ref = Some (0x10410, fin) \<and> 0x10410 \<le> ref \<and> ref < fin"
  using string_function_located[OF sample_located] npstr_ok sample_segs_ok
  by (simp add: sample_anchor_def region_ok_def)

text \<open>The function of the sample image, as one known by its only call, to a stub named \<open>_foo\<close>.\<close>

definition sample_calls :: np_anchor where
  "sample_calls = sample_anchor\<lparr>an_kind := NP_MATCH_CALLS, an_calls := [cstr ''_foo''], an_call_count := 1,
     an_calls_exact := True\<rparr>"

lemma sample_calls_fields:
  "an_call_count sample_calls = 1" "an_calls sample_calls = [cstr ''_foo'']" "an_calls_exact sample_calls"
  "\<not> an_no_data_refs sample_calls" "wanted_calls sample_calls = [cstr ''_foo'']"
  by (simp_all add: sample_calls_def sample_anchor_def wanted_calls_def)

lemma sample_body: "scan_pcs 4 0x10410 0x10420 = [0x10410, 0x10414, 0x10418, 0x1041C :: u64]"
  by (simp add: scan_pcs_def upt_0_numeral upt_1_numeral)

lemma sample_callees: "direct_callees sample_image [0x10410, 0x10414, 0x10418, 0x1041C] = [0x10440]"
  by (simp add: direct_callees_def sample_eval bl_target_def branch26_target_def)

lemma sample_body_allowed: "body_allowed sample_image sample_calls [0x10410, 0x10414, 0x10418, 0x1041C]"
  by (simp add: body_allowed_def sample_calls_fields sample_eval is_indirect_call_def)

theorem body_calls_spec_witness:
  "body_matches_calls sample_image 0x10000 0 0x10410 0x10420 0x10400 0x60
     (load_stub_tables sample_image 0x10000 0) sample_calls \<longleftrightarrow>
    callee_is_named sample_image 0x10000 0 (load_stub_tables sample_image 0x10000 0) 0x10440 (cstr ''_foo'')"
  using body_calls_spec[of sample_calls sample_image "0x10000" 0 "0x10410" "0x10420" "0x10400" "0x60"
      "load_stub_tables sample_image 0x10000 0"]
  unfolding sample_calls_fields sample_body sample_callees
  by (simp add: sample_body_allowed in_text_def calls_match_simps)

end
