(* ===== verification/Sigdb.thy ===== *)
theory Sigdb
  imports C_Str Anchor
begin

text \<open>
  The signature database, \<^verbatim>\<open>src/dylib/resolver/sigdb.c\<close>: from a parsed JSON document to the profile the
  resolver works on. The JSON parser is vendored (cJSON); what it makes of the bytes of a file is the
  parameter \<open>parse\<close>, and its tree is the datatype \<open>json\<close>. A number keeps what the code reads of it:
  its \<^verbatim>\<open>valueint\<close> and the integral part of its \<^verbatim>\<open>valuedouble\<close> (for one beyond 64 bits, whose
  conversion C leaves open, whatever the conversion gives).
\<close>

section \<open>The parsed document\<close>

datatype json = JNull | JFalse | JTrue | JNumber int int | JString cstring
  | JArray "json list" | JObject "(cstring \<times> json) list"

text \<open>Members are found without regard to case, the first one first.\<close>

definition get_item :: "json \<Rightarrow> string \<Rightarrow> json option" where
  "get_item j key = (case j of
     JObject members \<Rightarrow>
       map_option snd (find (\<lambda>(k, _). map c_tolower k = map c_tolower (cstr key)) members)
   | _ \<Rightarrow> None)"

definition value_int :: "json \<Rightarrow> int" where
  "value_int j = (case j of JNumber i _ \<Rightarrow> i | JTrue \<Rightarrow> 1 | _ \<Rightarrow> 0)"

definition is_number :: "json \<Rightarrow> bool" where
  "is_number j = (case j of JNumber _ _ \<Rightarrow> True | _ \<Rightarrow> False)"

definition is_true_item :: "json option \<Rightarrow> bool" where
  "is_true_item v = (v = Some JTrue)"

section \<open>Fields\<close>

definition str_field :: "json \<Rightarrow> string \<Rightarrow> nat \<Rightarrow> cstring \<Rightarrow> cstring" where
  "str_field parent key cap dst = (case get_item parent key of
     Some (JString s) \<Rightarrow> if cap = 0 then dst else c_copy cap s | _ \<Rightarrow> dst)"

definition hex_field :: "json \<Rightarrow> string \<Rightarrow> u64" where
  "hex_field parent key = (case get_item parent key of
     Some (JString s) \<Rightarrow>
       fst (strtoull 16 (if has_prefix (cstr ''0x'') s \<or> has_prefix (cstr ''0X'') s then drop 2 s else s))
   | _ \<Rightarrow> 0)"

definition build_field :: "json \<Rightarrow> string \<Rightarrow> u64" where
  "build_field parent key = (case get_item parent key of
     Some (JString s) \<Rightarrow> fst (strtoull 10 s) | Some (JNumber _ d) \<Rightarrow> of_int d | _ \<Rightarrow> 0)"

definition int_field :: "json \<Rightarrow> string \<Rightarrow> int \<Rightarrow> int" where
  "int_field parent key fallback = (case get_item parent key of
     Some v \<Rightarrow> if is_number v then value_int v else fallback | None \<Rightarrow> fallback)"

section \<open>Anchors\<close>

text \<open>The loaders of an anchor's parts: whether the part is usable, and the anchor as it was written.\<close>

definition load_insn_pair :: "json \<Rightarrow> np_insn_pair \<Rightarrow> bool \<times> np_insn_pair" where
  "load_insn_pair anchor_obj p = (case get_item anchor_obj ''pair'' of
     Some (JObject members) \<Rightarrow>
       let obj = JObject members;
           p' = p\<lparr>ip_first := ucast (hex_field obj ''first''),
                  ip_first_mask := ucast (hex_field obj ''first_mask''),
                  ip_second := ucast (hex_field obj ''second''),
                  ip_second_mask := ucast (hex_field obj ''second_mask''),
                  ip_tie_mask := ucast (hex_field obj ''tie_mask''),
                  ip_land_on_second := (get_item obj ''land'' = Some (JString (cstr ''second'')))\<rparr>
       in (ip_first_mask p' \<noteq> 0 \<and> ip_second_mask p' \<noteq> 0, p')
   | _ \<Rightarrow> (False, p))"

fun call_path_items :: "json list \<Rightarrow> int list \<Rightarrow> bool \<times> int list" where
  "call_path_items [] path = (True, path)"
| "call_path_items (e # es) path =
     (if \<not> is_number e then (False, path)
      else if value_int e < 1 then (False, path)
      else call_path_items es (path @ [value_int e]))"

definition load_call_path :: "json \<Rightarrow> np_anchor \<Rightarrow> bool \<times> np_anchor" where
  "load_call_path obj a = (case get_item obj ''call_path'' of
     Some (JArray es) \<Rightarrow>
       if length es < 1 \<or> int (length es) > NP_CALL_PATH_MAX then (False, a)
       else (case call_path_items es [] of
           (False, path) \<Rightarrow> (False, a\<lparr>an_call_path := path\<rparr>)
         | (True, path) \<Rightarrow> (True, a\<lparr>an_call_path := path, an_call_depth := int (length es)\<rparr>))
   | _ \<Rightarrow> (False, a))"

fun calls_items :: "json list \<Rightarrow> cstring list \<Rightarrow> bool \<times> cstring list" where
  "calls_items [] calls = (True, calls)"
| "calls_items (e # es) calls = (case e of
     JString s \<Rightarrow>
       if length s = 0 \<or> length s \<ge> NP_CALL_NAME_MAX then (False, calls)
       else if length s = 1 \<and> s ! 0 = NP_SELECTOR_MARK then (False, calls)
       else calls_items es (calls @ [c_copy NP_CALL_NAME_MAX s])
   | _ \<Rightarrow> (False, calls))"

definition load_calls :: "json \<Rightarrow> np_anchor \<Rightarrow> bool \<times> np_anchor" where
  "load_calls obj a = (case get_item obj ''calls'' of
     Some (JArray es) \<Rightarrow>
       if length es < 1 \<or> length es > NP_CALLS_MAX then (False, a)
       else (case calls_items es [] of
           (False, calls) \<Rightarrow> (False, a\<lparr>an_calls := calls\<rparr>)
         | (True, calls) \<Rightarrow> (True, a\<lparr>an_calls := calls, an_call_count := int (length es),
             an_calls_exact := is_true_item (get_item obj ''exact''),
             an_no_data_refs := is_true_item (get_item obj ''no_data_refs'')\<rparr>))
   | _ \<Rightarrow> (False, a))"

text \<open>The size of the buffer of an anchor's string.\<close>

definition ANCHOR_STR :: nat where "ANCHOR_STR = 256"

text \<open>The fields that only the anchors by string have.\<close>

definition refine_string_anchor :: "json \<Rightarrow> np_anchor \<Rightarrow> np_anchor" where
  "refine_string_anchor obj a =
     (let nth_xref = int_field obj ''nth_xref'' 0; caller_hops = int_field obj ''caller_hops'' 0 in
      if nth_xref < 0 \<or> caller_hops < 0 then a\<lparr>an_kind := NP_MATCH_NONE\<rparr>
      else let a = a\<lparr>an_nth_xref := nth_xref, an_caller_hops := caller_hops,
                     an_caller_tail := is_true_item (get_item obj ''caller_tail'')\<rparr> in
        if an_caller_tail a \<and> caller_hops = 0 then a\<lparr>an_kind := NP_MATCH_NONE\<rparr>
        else a\<lparr>an_indirect := is_true_item (get_item obj ''indirect'')\<rparr>)"

definition load_anchor_kind :: "json \<Rightarrow> cstring \<Rightarrow> np_anchor \<Rightarrow> np_anchor" where
  "load_anchor_kind obj ks a =
     (let val = str_field obj ''value'' ANCHOR_STR (an_str a) in
      if ks = cstr ''string'' then
        refine_string_anchor obj (a\<lparr>an_kind := NP_MATCH_STRING, an_str := val\<rparr>)
      else if ks = cstr ''insn_after_string'' then
        refine_string_anchor obj
          (a\<lparr>an_kind := NP_MATCH_INSN_AFTER_STRING, an_str := val, an_nth := int_field obj ''n'' 1\<rparr>)
      else if ks = cstr ''insn_pair_in_fn'' then
        (case load_insn_pair obj (an_pair a) of
           (ok, p) \<Rightarrow> let a = a\<lparr>an_kind := NP_MATCH_INSN_PAIR_IN_FN, an_str := val, an_pair := p\<rparr> in
             if ok then refine_string_anchor obj a else a\<lparr>an_kind := NP_MATCH_NONE\<rparr>)
      else if ks = cstr ''call_target'' then
        (case load_call_path obj (a\<lparr>an_kind := NP_MATCH_CALL_TARGET, an_str := val\<rparr>) of
           (ok, a) \<Rightarrow> if ok then refine_string_anchor obj a else a\<lparr>an_kind := NP_MATCH_NONE\<rparr>)
      else if ks = cstr ''vtable_slot'' then
        (let a = a\<lparr>an_va := hex_field obj ''va''\<rparr> in
         if an_va a = 0 then a\<lparr>an_kind := NP_MATCH_NONE\<rparr> else a\<lparr>an_kind := NP_MATCH_VTABLE_SLOT\<rparr>)
      else if ks = cstr ''calls'' then
        (case load_calls obj a of
           (ok, a) \<Rightarrow> if ok then a\<lparr>an_kind := NP_MATCH_CALLS\<rparr> else a\<lparr>an_kind := NP_MATCH_NONE\<rparr>)
      else if ks = cstr ''aob'' then a\<lparr>an_kind := NP_MATCH_AOB\<rparr>
      else if ks = cstr ''rtti_slot'' then
        (let a = a\<lparr>an_str := val, an_slot := int_field obj ''slot'' (- 1)\<rparr> in
         if an_str a = [] \<or> an_slot a < 0 then a\<lparr>an_kind := NP_MATCH_NONE\<rparr>
         else a\<lparr>an_kind := NP_MATCH_RTTI_SLOT\<rparr>)
      else a)"

definition load_anchor :: "json \<Rightarrow> np_anchor \<Rightarrow> np_anchor" where
  "load_anchor sig_obj a = (case get_item sig_obj ''anchor'' of
     Some (JObject members) \<Rightarrow>
       (case get_item (JObject members) ''kind'' of
          Some (JString ks) \<Rightarrow> load_anchor_kind (JObject members) ks a
        | _ \<Rightarrow> a)
   | _ \<Rightarrow> a)"

section \<open>Signatures and profiles\<close>

record np_sig_entry =
  sg_name :: cstring
  sg_module :: cstring
  sg_aob_hex :: cstring
  sg_func_addr_this_build :: u64
  sg_deprecated :: bool
  sg_optional :: bool
  sg_match_offset :: "32 word"
  sg_anchor :: np_anchor

record np_sigdb =
  db_signatures :: "np_sig_entry list"
  db_sig_count :: nat
  db_schema_version :: int
  db_sigdb_version :: int
  db_steam_build :: u64
  db_steam_build_date :: cstring

definition NP_MODULE_DEFAULT :: cstring where
  "NP_MODULE_DEFAULT = cstr ''steamclient.dylib''"

text \<open>The sizes of a signature's buffers, and the entries \<^verbatim>\<open>calloc\<close> makes.\<close>

definition SIG_NAME :: nat where "SIG_NAME = 128"
definition SIG_MODULE :: nat where "SIG_MODULE = 64"
definition SIG_AOB :: nat where "SIG_AOB = 4096"
definition BUILD_DATE :: nat where "BUILD_DATE = 32"

definition zero_pair :: np_insn_pair where
  "zero_pair = \<lparr>ip_first = 0, ip_first_mask = 0, ip_second = 0, ip_second_mask = 0, ip_tie_mask = 0,
     ip_land_on_second = False\<rparr>"

definition zero_anchor :: np_anchor where
  "zero_anchor = \<lparr>an_kind = NP_MATCH_NONE, an_str = [], an_va = 0, an_insn = 0, an_insn_mask = 0,
     an_nth = 0, an_nth_xref = 0, an_pair = zero_pair, an_indirect = False, an_caller_hops = 0,
     an_caller_tail = False, an_call_path = [], an_call_depth = 0, an_calls = [], an_call_count = 0,
     an_calls_exact = False, an_no_data_refs = False, an_slot = 0\<rparr>"

definition zero_sig :: np_sig_entry where
  "zero_sig = \<lparr>sg_name = [], sg_module = [], sg_aob_hex = [], sg_func_addr_this_build = 0,
     sg_deprecated = False, sg_optional = False, sg_match_offset = 0, sg_anchor = zero_anchor\<rparr>"

definition zero_sigdb :: np_sigdb where
  "zero_sigdb = \<lparr>db_signatures = [], db_sig_count = 0, db_schema_version = 0, db_sigdb_version = 0,
     db_steam_build = 0, db_steam_build_date = []\<rparr>"

text \<open>The body of the loop over the signatures of a document.\<close>

definition load_sig_strings :: "json \<Rightarrow> np_sig_entry \<Rightarrow> np_sig_entry" where
  "load_sig_strings elem e =
     (let e = e\<lparr>sg_name := str_field elem ''name'' SIG_NAME (sg_name e),
                sg_module := str_field elem ''module'' SIG_MODULE (sg_module e),
                sg_aob_hex := str_field elem ''aob_hex'' SIG_AOB (sg_aob_hex e),
                sg_func_addr_this_build := hex_field elem ''func_addr_this_build''\<rparr>
      in if sg_module e = [] then e\<lparr>sg_module := NP_MODULE_DEFAULT\<rparr> else e)"

definition load_sig_flags :: "json \<Rightarrow> np_sig_entry \<Rightarrow> np_sig_entry" where
  "load_sig_flags elem e =
     e\<lparr>sg_deprecated := (case get_item elem ''deprecated'' of
          None \<Rightarrow> sg_deprecated e | Some v \<Rightarrow> v = JTrue),
       sg_optional := (case get_item elem ''optional'' of None \<Rightarrow> sg_optional e | Some v \<Rightarrow> v = JTrue)\<rparr>"

definition load_sig_offset :: "json \<Rightarrow> np_sig_entry \<Rightarrow> np_sig_entry" where
  "load_sig_offset elem e = (case get_item elem ''match_offset'' of
     None \<Rightarrow> e
   | Some v \<Rightarrow> if is_number v then e\<lparr>sg_match_offset := of_int (value_int v)\<rparr> else e\<lparr>sg_aob_hex := []\<rparr>)"

definition load_signature :: "json \<Rightarrow> np_sig_entry \<Rightarrow> np_sig_entry" where
  "load_signature elem e =
     (let e = load_sig_offset elem (load_sig_flags elem (load_sig_strings elem e));
          a = load_anchor elem (sg_anchor e)
      in if an_kind a = NP_MATCH_AOB \<and> sg_aob_hex e = []
         then e\<lparr>sg_anchor := a\<lparr>an_kind := NP_MATCH_NONE\<rparr>\<rparr> else e\<lparr>sg_anchor := a\<rparr>)"

text \<open>\<open>grown\<close>: whether the buffer can be grown by the terminator.\<close>

definition read_json_file :: "bool \<Rightarrow> (cstring \<Rightarrow> json option) \<Rightarrow> u8 list option \<Rightarrow> json option" where
  "read_json_file grown parse file = (case file of
     None \<Rightarrow> None | Some raw \<Rightarrow> if \<not> grown then None else parse (c_prefix raw))"

text \<open>The result code and the profile; \<open>file\<close> is what is at the path, if it can be read, and \<open>entries_ok\<close> whether
  the entries can be allocated.\<close>

definition np_load_profile :: "bool \<Rightarrow> bool \<Rightarrow> (cstring \<Rightarrow> json option) \<Rightarrow> u8 list option \<Rightarrow> int \<times> np_sigdb" where
  "np_load_profile grown entries_ok parse file = (case read_json_file grown parse file of
     None \<Rightarrow> (- 1, zero_sigdb)
   | Some root \<Rightarrow>
       let version = (\<lambda>key. case get_item root key of None \<Rightarrow> 0 | Some v \<Rightarrow> value_int v);
           elems = (case get_item root ''signatures'' of Some (JArray es) \<Rightarrow> es | _ \<Rightarrow> []);
           out = zero_sigdb\<lparr>db_schema_version := version ''schema_version'',
              db_sigdb_version := version ''profile_version'',
              db_steam_build := build_field root ''steam_build'',
              db_steam_build_date := str_field root ''steam_build_date'' BUILD_DATE []\<rparr>
       in if elems \<noteq> [] \<and> \<not> entries_ok then (- 1, out)
          else (0, out\<lparr>db_signatures := map (\<lambda>elem. load_signature elem zero_sig) elems,
                      db_sig_count := length elems\<rparr>))"

section \<open>What a loaded profile keeps\<close>

definition string_anchor_wf :: "np_anchor \<Rightarrow> bool" where
  "string_anchor_wf a \<longleftrightarrow> 0 \<le> an_nth_xref a \<and> 0 \<le> an_caller_hops a \<and>
     (an_caller_tail a \<longrightarrow> 0 < an_caller_hops a)"

definition call_name_wf :: "cstring \<Rightarrow> bool" where
  "call_name_wf c \<longleftrightarrow> c \<noteq> [] \<and> length c < NP_CALL_NAME_MAX \<and> c \<noteq> [NP_SELECTOR_MARK]"

definition calls_wf :: "np_anchor \<Rightarrow> bool" where
  "calls_wf a \<longleftrightarrow> 0 < an_call_count a \<and> an_call_count a = int (length (an_calls a)) \<and>
     length (an_calls a) \<le> NP_CALLS_MAX \<and>
     list_all call_name_wf (an_calls a)"

definition call_path_wf :: "np_anchor \<Rightarrow> bool" where
  "call_path_wf a \<longleftrightarrow> 0 < an_call_depth a \<and> an_call_depth a \<le> NP_CALL_PATH_MAX \<and>
     an_call_depth a = int (length (an_call_path a)) \<and> list_all (\<lambda>n. 1 \<le> n) (an_call_path a)"

fun anchor_kind_wf :: "np_match_kind \<Rightarrow> np_anchor \<Rightarrow> bool" where
  "anchor_kind_wf NP_MATCH_STRING a = string_anchor_wf a"
| "anchor_kind_wf NP_MATCH_INSN_AFTER_STRING a = string_anchor_wf a"
| "anchor_kind_wf NP_MATCH_INSN_PAIR_IN_FN a =
     (string_anchor_wf a \<and> ip_first_mask (an_pair a) \<noteq> 0 \<and> ip_second_mask (an_pair a) \<noteq> 0)"
| "anchor_kind_wf NP_MATCH_CALL_TARGET a = (string_anchor_wf a \<and> call_path_wf a)"
| "anchor_kind_wf NP_MATCH_VTABLE_SLOT a = (an_va a \<noteq> 0)"
| "anchor_kind_wf NP_MATCH_CALLS a = calls_wf a"
| "anchor_kind_wf NP_MATCH_RTTI_SLOT a = (an_str a \<noteq> [] \<and> 0 \<le> an_slot a)"
| "anchor_kind_wf _ a = True"

definition anchor_wf :: "np_anchor \<Rightarrow> bool" where
  "anchor_wf a \<longleftrightarrow> length (an_str a) < ANCHOR_STR \<and> anchor_kind_wf (an_kind a) a"

definition sig_wf :: "np_sig_entry \<Rightarrow> bool" where
  "sig_wf e \<longleftrightarrow> length (sg_name e) < SIG_NAME \<and> length (sg_module e) < SIG_MODULE \<and>
     length (sg_aob_hex e) < SIG_AOB \<and> sg_module e \<noteq> [] \<and> anchor_wf (sg_anchor e) \<and>
     (an_kind (sg_anchor e) = NP_MATCH_AOB \<longrightarrow> sg_aob_hex e \<noteq> [])"

definition profile_wf :: "np_sigdb \<Rightarrow> bool" where
  "profile_wf db \<longleftrightarrow> db_sig_count db = length (db_signatures db) \<and> list_all sig_wf (db_signatures db) \<and>
     length (db_steam_build_date db) < BUILD_DATE"

lemmas buffer_sizes = ANCHOR_STR_def SIG_NAME_def SIG_MODULE_def SIG_AOB_def BUILD_DATE_def

lemma str_field_length: "length dst < cap \<Longrightarrow> length (str_field parent key cap dst) < cap"
  by (auto simp: str_field_def c_copy_length split: option.splits json.splits)

lemma refine_string_anchor_wf:
  assumes "length (an_str a) < ANCHOR_STR"
    and "\<And>a'. string_anchor_wf a' \<Longrightarrow> an_kind a' = an_kind a \<Longrightarrow> an_pair a' = an_pair a \<Longrightarrow>
      an_call_path a' = an_call_path a \<Longrightarrow> an_call_depth a' = an_call_depth a \<Longrightarrow> anchor_kind_wf (an_kind a) a'"
  shows "anchor_wf (refine_string_anchor obj a)"
  using assms(1)
  by (auto simp: refine_string_anchor_def Let_def anchor_wf_def string_anchor_wf_def intro!: assms(2))

lemma call_path_items_wf:
  "call_path_items es path = (True, path') \<Longrightarrow> list_all (\<lambda>n. 1 \<le> n) path \<Longrightarrow>
     list_all (\<lambda>n. 1 \<le> n) path' \<and> length path' = length path + length es"
  by (induction es arbitrary: path) (auto split: if_splits)

lemma load_call_path_wf:
  "load_call_path obj a = (True, a') \<Longrightarrow> call_path_wf a' \<and> an_str a' = an_str a \<and> an_kind a' = an_kind a"
  by (auto simp: load_call_path_def call_path_wf_def dest!: call_path_items_wf
      split: option.splits json.splits if_splits prod.splits bool.splits)

lemma load_call_path_str: "an_str (snd (load_call_path obj a)) = an_str a"
  by (auto simp: load_call_path_def split: option.splits json.splits if_splits prod.splits bool.splits)

lemma call_name_wf_iff:
  "call_name_wf c \<longleftrightarrow> \<not> (length c = 0 \<or> length c \<ge> NP_CALL_NAME_MAX) \<and>
     \<not> (length c = 1 \<and> c ! 0 = NP_SELECTOR_MARK)"
  by (cases c) (auto simp: call_name_wf_def)

lemma calls_items_wf:
  "calls_items es calls = (True, calls') \<Longrightarrow> list_all call_name_wf calls \<Longrightarrow>
     list_all call_name_wf calls' \<and> length calls' = length calls + length es"
proof (induction es arbitrary: calls)
  case (Cons e es)
  from Cons.prems(1) obtain c where c: "e = JString c" "call_name_wf c" "c_copy NP_CALL_NAME_MAX c = c"
    and rest: "calls_items es (calls @ [c_copy NP_CALL_NAME_MAX c]) = (True, calls')"
    by (auto simp: call_name_wf_iff c_copy_fits split: json.splits if_splits)
  show ?case using Cons.IH[OF rest] Cons.prems(2) c by auto
qed auto

lemma load_calls_wf: "load_calls obj a = (True, a') \<Longrightarrow> calls_wf a'"
  by (auto simp: load_calls_def calls_wf_def dest!: calls_items_wf
      split: option.splits json.splits if_splits prod.splits bool.splits)

lemma load_calls_str: "an_str (snd (load_calls obj a)) = an_str a"
  by (auto simp: load_calls_def split: option.splits json.splits if_splits prod.splits bool.splits)

lemma load_anchor_kind_wf:
  assumes "anchor_wf a" "an_kind a = NP_MATCH_NONE"
  shows "anchor_wf (load_anchor_kind obj ks a)"
proof -
  define val where "val = str_field obj ''value'' ANCHOR_STR (an_str a)"
  have val: "length val < ANCHOR_STR" using assms(1) by (simp add: val_def str_field_length anchor_wf_def)
  have str: "length (an_str a) < ANCHOR_STR" using assms(1) by (simp add: anchor_wf_def)
  obtain ok p where pair: "load_insn_pair obj (an_pair a) = (ok, p)" by fastforce
  have pair_ok: "ip_first_mask p \<noteq> 0 \<and> ip_second_mask p \<noteq> 0" if ok
    using pair that by (auto simp: load_insn_pair_def Let_def split: option.splits json.splits)
  let ?c = "a\<lparr>an_kind := NP_MATCH_CALL_TARGET, an_str := val\<rparr>"
  obtain okc c where path: "load_call_path obj ?c = (okc, c)" by fastforce
  have path_str: "an_str c = val" using load_call_path_str[of obj ?c] path by simp
  have path_ok: "call_path_wf c \<and> an_kind c = NP_MATCH_CALL_TARGET" if okc
    using load_call_path_wf[of obj ?c c] path that by simp
  obtain okl l where calls: "load_calls obj a = (okl, l)" by fastforce
  have calls_str: "an_str l = an_str a" using load_calls_str[of obj a] calls by simp
  have calls_ok: "calls_wf l" if okl using load_calls_wf[of obj a l] calls that by simp
  have none: "anchor_wf (b\<lparr>an_kind := NP_MATCH_NONE\<rparr>)" if "length (an_str b) < ANCHOR_STR" for b
    using that by (simp add: anchor_wf_def)
  have "anchor_wf (refine_string_anchor obj (a\<lparr>an_kind := NP_MATCH_STRING, an_str := val\<rparr>))"
    "anchor_wf (refine_string_anchor obj
      (a\<lparr>an_kind := NP_MATCH_INSN_AFTER_STRING, an_str := val, an_nth := int_field obj ''n'' 1\<rparr>))"
    by (rule refine_string_anchor_wf; simp add: val)+
  moreover have "anchor_wf (if ok
      then refine_string_anchor obj (a\<lparr>an_kind := NP_MATCH_INSN_PAIR_IN_FN, an_str := val, an_pair := p\<rparr>)
      else a\<lparr>an_kind := NP_MATCH_INSN_PAIR_IN_FN, an_str := val, an_pair := p, an_kind := NP_MATCH_NONE\<rparr>)"
    using pair_ok by (auto simp: val intro!: refine_string_anchor_wf none)
  moreover have "anchor_wf (if okc then refine_string_anchor obj c else c\<lparr>an_kind := NP_MATCH_NONE\<rparr>)"
    using path_ok by (auto simp: val path_str call_path_wf_def intro!: refine_string_anchor_wf none)
  moreover have "anchor_wf (if okl then l\<lparr>an_kind := NP_MATCH_CALLS\<rparr> else l\<lparr>an_kind := NP_MATCH_NONE\<rparr>)"
    using calls_ok by (auto simp: anchor_wf_def calls_str str calls_wf_def)
  ultimately show ?thesis
    using assms val str
    unfolding load_anchor_kind_def val_def[symmetric] Let_def pair path calls prod.case
    by (simp add: anchor_wf_def)
qed

lemma load_anchor_wf: "anchor_wf (load_anchor elem zero_anchor)"
proof -
  have "anchor_wf zero_anchor" by (simp add: anchor_wf_def zero_anchor_def buffer_sizes)
  then show ?thesis
    using load_anchor_kind_wf[of zero_anchor]
    by (auto simp: load_anchor_def zero_anchor_def split: option.splits json.splits)
qed

lemma anchor_wf_none: "anchor_wf a \<Longrightarrow> anchor_wf (a\<lparr>an_kind := NP_MATCH_NONE\<rparr>)"
  by (simp add: anchor_wf_def)

lemma load_signature_wf: "sig_wf (load_signature elem zero_sig)"
proof -
  have len: "length (str_field elem key cap []) < cap" if "0 < cap" for key cap
    using that by (simp add: str_field_length)
  have caps: "0 < SIG_NAME" "0 < SIG_MODULE" "0 < SIG_AOB" "length NP_MODULE_DEFAULT < SIG_MODULE"
    by (simp_all add: buffer_sizes NP_MODULE_DEFAULT_def cstr_def)
  have d: "NP_MODULE_DEFAULT \<noteq> []" by (simp add: NP_MODULE_DEFAULT_def cstr_def)
  define e where "e = load_sig_offset elem (load_sig_flags elem (load_sig_strings elem zero_sig))"
  have e: "sg_name e = str_field elem ''name'' SIG_NAME []"
    "sg_module e = (let v = str_field elem ''module'' SIG_MODULE [] in if v = [] then NP_MODULE_DEFAULT else v)"
    "sg_aob_hex e = str_field elem ''aob_hex'' SIG_AOB [] \<or> sg_aob_hex e = []" "sg_anchor e = zero_anchor"
    by (simp_all add: e_def load_sig_offset_def load_sig_flags_def load_sig_strings_def Let_def zero_sig_def
        split: option.split)
  have "length (sg_module e) < SIG_MODULE \<and> sg_module e \<noteq> []"
    using len[OF caps(2)] caps(4) d by (simp add: e(2) Let_def)
  moreover have "length (sg_aob_hex e) < SIG_AOB" using e(3) len[OF caps(3)] caps(3) by auto
  ultimately show ?thesis
    using len[OF caps(1)] load_anchor_wf[of elem] anchor_wf_none[OF load_anchor_wf[of elem]]
    unfolding load_signature_def e_def[symmetric] by (simp add: sig_wf_def Let_def e(1,4))
qed

section \<open>Properties\<close>

text \<open>C36. Whatever the file holds and whatever memory there is, a loaded profile is well formed: the strings fit their buffers, every
  signature has a module, and every anchor that is kept has what its kind needs - masks that are not
  empty, one to four steps of a call path, one to eight names of calls, a type name and a slot, an
  address, counts that are not negative. A signature that anchors on its byte pattern has one.\<close>

theorem loaded_profile_wf: "profile_wf (snd (np_load_profile grown entries_ok parse file))"
proof -
  have "length (str_field j ''steam_build_date'' BUILD_DATE []) < BUILD_DATE" for j
    by (simp add: str_field_length buffer_sizes)
  then show ?thesis
    by (auto simp: profile_wf_def np_load_profile_def Let_def zero_sigdb_def buffer_sizes load_signature_wf
        list_all_iff split: option.splits json.splits)
qed

end
