(* ===== verification/Resolver.thy ===== *)
theory Resolver
  imports Sigdb Anchor_Props Aob
begin

text \<open>
  The resolver, \<^verbatim>\<open>src/dylib/resolver/resolver.c\<close>: from the signatures of a profile to the addresses of the
  hooks in a loaded image. Log lines are left out. Whether an allocation of a given size in bytes succeeds
  is the parameter \<open>mem_ok\<close>; \<open>uniqued\<close> is the one of theory Anchor.
\<close>

section \<open>Results\<close>

record np_resolved =
  rs_name :: cstring
  rs_site :: u64

record np_resolve_result =
  rr_items :: "np_resolved list"
  rr_used :: nat
  rr_cap :: nat

definition zero_result :: np_resolve_result where
  "zero_result = \<lparr>rr_items = [], rr_used = 0, rr_cap = 0\<rparr>"

definition push :: "(nat \<Rightarrow> bool) \<Rightarrow> np_resolve_result \<Rightarrow> cstring \<Rightarrow> u64 \<Rightarrow> np_resolve_result" where
  "push mem_ok r name addr =
     (let grown = (if rr_cap r \<noteq> 0 then rr_cap r * 2 else 32);
          item = \<lparr>rs_name = name, rs_site = addr\<rparr>
      in if rr_used r = rr_cap r then
           (if \<not> mem_ok (16 * grown) then r
            else \<lparr>rr_items = rr_items r @ [item], rr_used = rr_used r + 1, rr_cap = grown\<rparr>)
         else r\<lparr>rr_items := rr_items r @ [item], rr_used := rr_used r + 1\<rparr>)"

section \<open>One signature\<close>

definition usable_code_address :: "u64 \<Rightarrow> u64 \<Rightarrow> u64 \<Rightarrow> bool" where
  "usable_code_address addr text text_sz =
     (if addr AND 3 \<noteq> 0 then False
      else if addr < text \<or> addr > text + text_sz - 4 then False
      else True)"

definition np_aob_site :: "(nat \<Rightarrow> bool) \<Rightarrow> mem \<Rightarrow> np_sig_entry \<Rightarrow> u64 \<Rightarrow> u64 \<Rightarrow> u64" where
  "np_aob_site mem_ok m sig text text_sz =
     (if sg_aob_hex sig = [] then 0
      else if text_sz < 4 then 0
      else case np_compile_pattern mem_ok (map (\<lambda>c. char_of (unat c)) (sg_aob_hex sig)) of
          None \<Rightarrow> 0
        | Some pat \<Rightarrow>
            let hit = np_scan_sole_match m text (unat text_sz) pat in
            if hit = 0 then 0
            else let site = hit - scast (sg_match_offset sig) in
              if \<not> usable_code_address site text text_sz then 0 else site)"

fun anchor_targets_function_entry :: "np_match_kind \<Rightarrow> bool" where
  "anchor_targets_function_entry NP_MATCH_STRING = True"
| "anchor_targets_function_entry NP_MATCH_VTABLE_SLOT = True"
| "anchor_targets_function_entry NP_MATCH_CALL_TARGET = True"
| "anchor_targets_function_entry NP_MATCH_CALLS = True"
| "anchor_targets_function_entry NP_MATCH_RTTI_SLOT = True"
| "anchor_targets_function_entry NP_MATCH_NONE = False"
| "anchor_targets_function_entry NP_MATCH_INSN_AFTER_STRING = False"
| "anchor_targets_function_entry NP_MATCH_INSN_PAIR_IN_FN = False"
| "anchor_targets_function_entry NP_MATCH_AOB = False"

definition aob_site_plausible :: "mem \<Rightarrow> np_sig_entry \<Rightarrow> u64 \<Rightarrow> u64 \<Rightarrow> u64 \<Rightarrow> bool" where
  "aob_site_plausible m sig mh slide addr =
     (case np_function_bounds m mh slide addr of
        None \<Rightarrow> if \<not> anchor_targets_function_entry (an_kind (sg_anchor sig)) then False
                else np_looks_like_prologue m addr
      | Some (start, fin) \<Rightarrow> if \<not> anchor_targets_function_entry (an_kind (sg_anchor sig)) then True
                else start = addr)"

definition try_anchor ::
  "(nat \<Rightarrow> bool) \<Rightarrow> (cstring \<Rightarrow> u64) \<Rightarrow> mem \<Rightarrow> np_sig_entry \<Rightarrow> u64 \<Rightarrow> u64 \<Rightarrow> u64 \<Rightarrow> u64 \<Rightarrow> u64" where
  "try_anchor mem_ok uniqued m sig mh slide text text_sz =
     (if an_kind (sg_anchor sig) = NP_MATCH_AOB then
        (let addr = np_aob_site mem_ok m sig text text_sz in
         if addr = 0 then 0 else if \<not> aob_site_plausible m sig mh slide addr then 0 else addr)
      else
        let addr = (if an_kind (sg_anchor sig) \<noteq> NP_MATCH_NONE
              then np_locate_anchor uniqued m mh slide text text_sz (sg_anchor sig) else 0);
            alt = np_aob_site mem_ok m sig text text_sz
        in if addr = 0 then
             (if alt = 0 then 0 else if \<not> aob_site_plausible m sig mh slide alt then 0 else alt)
           else addr)"

section \<open>A module's signatures\<close>

fun required_loop :: "cstring \<Rightarrow> np_sig_entry list \<Rightarrow> nat \<Rightarrow> nat" where
  "required_loop module [] n = n"
| "required_loop module (sig # sigs) n =
     required_loop module sigs
       (if \<not> sg_deprecated sig \<and> \<not> sg_optional sig \<and> sg_module sig = module then n + 1 else n)"

definition np_required_for_module :: "np_sigdb \<Rightarrow> cstring \<Rightarrow> nat" where
  "np_required_for_module db module = required_loop module (db_signatures db) 0"

fun np_module_has_loop :: "cstring \<Rightarrow> np_sig_entry list \<Rightarrow> bool" where
  "np_module_has_loop module [] = False"
| "np_module_has_loop module (sig # sigs) =
     (if \<not> sg_deprecated sig \<and> sg_module sig = module then True else np_module_has_loop module sigs)"

definition np_module_has_signatures :: "np_sigdb \<Rightarrow> cstring \<Rightarrow> bool" where
  "np_module_has_signatures db module = np_module_has_loop module (db_signatures db)"

fun resolve_loop ::
  "(nat \<Rightarrow> bool) \<Rightarrow> (cstring \<Rightarrow> u64) \<Rightarrow> mem \<Rightarrow> u64 \<Rightarrow> u64 \<Rightarrow> u64 \<Rightarrow> u64 \<Rightarrow> cstring \<Rightarrow> np_sig_entry list \<Rightarrow>
     nat \<Rightarrow> np_resolve_result \<Rightarrow> nat \<times> np_resolve_result" where
  "resolve_loop mem_ok uniqued m mh slide text text_sz module [] resolved out = (resolved, out)"
| "resolve_loop mem_ok uniqued m mh slide text text_sz module (sig # sigs) resolved out =
     (if sg_module sig \<noteq> module then
        resolve_loop mem_ok uniqued m mh slide text text_sz module sigs resolved out
      else if sg_deprecated sig then
        resolve_loop mem_ok uniqued m mh slide text text_sz module sigs resolved
          (push mem_ok out (sg_name sig) 0)
      else
        let addr = try_anchor mem_ok uniqued m sig mh slide text text_sz;
            addr = (if addr \<noteq> 0 \<and> \<not> usable_code_address addr text text_sz then 0 else addr)
        in resolve_loop mem_ok uniqued m mh slide text text_sz module sigs
             (if sg_optional sig then resolved else if addr \<noteq> 0 then resolved + 1 else resolved)
             (push mem_ok out (sg_name sig) addr))"

definition np_resolve_signatures ::
  "(nat \<Rightarrow> bool) \<Rightarrow> (cstring \<Rightarrow> u64) \<Rightarrow> mem \<Rightarrow> u64 \<Rightarrow> u64 \<Rightarrow> np_sigdb \<Rightarrow> cstring \<Rightarrow>
     np_resolve_result \<Rightarrow> nat \<times> np_resolve_result" where
  "np_resolve_signatures mem_ok uniqued m mh slide db module out =
     (if mh = 0 then (0, out)
      else case np_find_segment m mh slide (cstr ''__TEXT'') of
          None \<Rightarrow> (0, zero_result)
        | Some (text, text_sz) \<Rightarrow>
            resolve_loop mem_ok uniqued m mh slide text text_sz module (db_signatures db) 0 zero_result)"

fun lookup_loop :: "cstring \<Rightarrow> np_resolved list \<Rightarrow> u64" where
  "lookup_loop name [] = 0"
| "lookup_loop name (item # items) = (if rs_name item = name then rs_site item else lookup_loop name items)"

definition np_lookup_address :: "np_resolve_result \<Rightarrow> cstring \<Rightarrow> u64" where
  "np_lookup_address result name = lookup_loop name (rr_items result)"

section \<open>Lemmas\<close>

text \<open>The result as a value: what each signature of the module comes to.\<close>

definition usable_site :: "(nat \<Rightarrow> bool) \<Rightarrow> (cstring \<Rightarrow> u64) \<Rightarrow> mem \<Rightarrow> u64 \<Rightarrow> u64 \<Rightarrow> u64 \<Rightarrow> u64 \<Rightarrow> np_sig_entry \<Rightarrow> u64" where
  "usable_site mem_ok uniqued m mh slide text text_sz sig =
     (let addr = try_anchor mem_ok uniqued m sig mh slide text text_sz in
      if sg_deprecated sig \<or> \<not> usable_code_address addr text text_sz then 0 else addr)"

definition required :: "cstring \<Rightarrow> np_sig_entry \<Rightarrow> bool" where
  "required module sig \<longleftrightarrow> sg_module sig = module \<and> \<not> sg_deprecated sig \<and> \<not> sg_optional sig"

definition resolution :: "(nat \<Rightarrow> bool) \<Rightarrow> (cstring \<Rightarrow> u64) \<Rightarrow> mem \<Rightarrow> u64 \<Rightarrow> u64 \<Rightarrow> u64 \<Rightarrow> u64 \<Rightarrow> cstring \<Rightarrow> np_sig_entry list \<Rightarrow>
    np_resolved list" where
  "resolution mem_ok uniqued m mh slide text text_sz module sigs =
     map (\<lambda>sig. \<lparr>rs_name = sg_name sig, rs_site = usable_site mem_ok uniqued m mh slide text text_sz sig\<rparr>)
       (filter (\<lambda>sig. sg_module sig = module) sigs)"

lemma required_loop_filter: "required_loop module sigs n = n + length (filter (required module) sigs)"
  by (induction sigs arbitrary: n) (auto simp: required_def)

lemma required_for_module: "np_required_for_module db module = length (filter (required module) (db_signatures db))"
  by (simp add: np_required_for_module_def required_loop_filter)

lemma push_ok:
  assumes "\<And>n. mem_ok n"
  shows "rr_items (push mem_ok r name addr) = rr_items r @ [\<lparr>rs_name = name, rs_site = addr\<rparr>]"
  using assms by (simp add: push_def Let_def)

text \<open>The accumulator keeps its count, and never writes past the capacity it asked for.\<close>

definition result_wf :: "np_resolve_result \<Rightarrow> bool" where
  "result_wf r \<longleftrightarrow> rr_used r = length (rr_items r) \<and> rr_used r \<le> rr_cap r"

lemma push_wf: "result_wf r \<Longrightarrow> result_wf (push mem_ok r name addr)"
  by (auto simp: result_wf_def push_def Let_def)

lemma push_items:
  "set (rr_items (push mem_ok r name addr)) \<subseteq> insert \<lparr>rs_name = name, rs_site = addr\<rparr> (set (rr_items r))"
  by (auto simp: push_def Let_def)

lemma resolve_loop_items:
  assumes "\<And>n. mem_ok n"
  shows "rr_items (snd (resolve_loop mem_ok uniqued m mh slide text text_sz module sigs k out)) =
    rr_items out @ resolution mem_ok uniqued m mh slide text text_sz module sigs"
proof (induction sigs arbitrary: k out)
  case (Cons sig sigs)
  then show ?case by (simp add: Let_def push_ok[OF assms] resolution_def usable_site_def)
qed (simp add: resolution_def)

lemma resolve_loop_count:
  "fst (resolve_loop mem_ok uniqued m mh slide text text_sz module sigs k out) =
    k + length (filter (\<lambda>sig. required module sig \<and> usable_site mem_ok uniqued m mh slide text text_sz sig \<noteq> 0) sigs)"
proof (induction sigs arbitrary: k out)
  case (Cons sig sigs)
  then show ?case by (simp add: Let_def required_def usable_site_def)
qed simp

lemma resolve_loop_sub:
  "set (rr_items (snd (resolve_loop mem_ok uniqued m mh slide text text_sz module sigs k out))) \<subseteq>
    set (rr_items out) \<union> set (resolution mem_ok uniqued m mh slide text text_sz module sigs)"
proof (induction sigs arbitrary: k out)
  case (Cons sig sigs)
  have item: "set (rr_items (push mem_ok out (sg_name sig) (usable_site mem_ok uniqued m mh slide text text_sz sig)))
      \<subseteq> set (rr_items out) \<union> set (resolution mem_ok uniqued m mh slide text text_sz module (sig # sigs))"
    if "sg_module sig = module"
    using push_items[of mem_ok out "sg_name sig" "usable_site mem_ok uniqued m mh slide text text_sz sig"] that
    by (auto simp: resolution_def)
  have sub: "set (resolution mem_ok uniqued m mh slide text text_sz module sigs) \<subseteq>
      set (resolution mem_ok uniqued m mh slide text text_sz module (sig # sigs))"
    by (auto simp: resolution_def)
  let ?k = "if sg_deprecated sig then k else if sg_optional sig then k
    else if usable_site mem_ok uniqued m mh slide text text_sz sig \<noteq> 0 then k + 1 else k"
  have step: "resolve_loop mem_ok uniqued m mh slide text text_sz module (sig # sigs) k out =
    resolve_loop mem_ok uniqued m mh slide text text_sz module sigs
      (if sg_module sig = module then ?k else k)
      (if sg_module sig = module
       then push mem_ok out (sg_name sig) (usable_site mem_ok uniqued m mh slide text text_sz sig) else out)"
    by (simp add: Let_def usable_site_def)
  show ?case
    unfolding step using item sub
    by (intro order_trans[OF Cons.IH]) (cases "sg_module sig = module"; simp; blast)
qed simp

lemma resolve_loop_wf:
  "result_wf out \<Longrightarrow> result_wf (snd (resolve_loop mem_ok uniqued m mh slide text text_sz module sigs k out))"
  by (induction sigs arbitrary: k out) (simp_all add: Let_def push_wf)

lemma lookup_loop_in: "lookup_loop name items = a \<Longrightarrow> a \<noteq> 0 \<Longrightarrow> \<exists>item \<in> set items. rs_site item = a"
  by (induction items) (auto split: if_splits)

lemma usable_code_address_aligned: "usable_code_address a text text_sz \<Longrightarrow> a AND 3 = 0"
  by (simp add: usable_code_address_def split: if_splits)

lemma usable_code_address_in: "usable_code_address a text text_sz \<Longrightarrow> in_text text text_sz a"
  by (simp add: usable_code_address_def in_text_def split: if_splits)

lemma and_filter_length: "length (filter (\<lambda>x. P x \<and> Q x) xs) \<le> length (filter P xs)"
  by (induction xs) auto

lemma all_filter_length: "length (filter (\<lambda>x. P x \<and> Q x) xs) = length (filter P xs) \<longleftrightarrow> (\<forall>x \<in> set xs. P x \<longrightarrow> Q x)"
proof (induction xs)
  case (Cons x xs)
  then show ?case using and_filter_length[of P Q xs] by auto
qed simp

text \<open>A database for the sample image: a hook by string, one that is optional and not found, one of
  another module, one that is deprecated.\<close>

definition sample_sig :: "string \<Rightarrow> np_sig_entry" where
  "sample_sig name = zero_sig\<lparr>sg_name := cstr name, sg_module := NP_MODULE_DEFAULT\<rparr>"

definition sample_db :: np_sigdb where
  "sample_db = zero_sigdb\<lparr>db_signatures :=
     [(sample_sig ''Hook'')\<lparr>sg_anchor := sample_anchor\<rparr>,
      (sample_sig ''Maybe'')\<lparr>sg_optional := True\<rparr>,
      (sample_sig ''Other'')\<lparr>sg_module := cstr ''steamui.dylib''\<rparr>,
      (sample_sig ''Old'')\<lparr>sg_deprecated := True\<rparr>], db_sig_count := 4\<rparr>"

lemma sample_sites:
  "usable_site (\<lambda>_. True) (\<lambda>_. 0) sample_image 0x10000 0 0x10400 0x60 ((sample_sig ''Hook'')\<lparr>sg_anchor := sample_anchor\<rparr>) = 0x10410"
  "usable_site (\<lambda>_. True) (\<lambda>_. 0) sample_image 0x10000 0 0x10400 0x60 ((sample_sig ''Maybe'')\<lparr>sg_optional := True\<rparr>) = 0"
  "usable_site (\<lambda>_. True) (\<lambda>_. 0) sample_image 0x10000 0 0x10400 0x60 ((sample_sig ''Old'')\<lparr>sg_deprecated := True\<rparr>) = 0"
proof -
  have k: "an_kind sample_anchor = NP_MATCH_STRING" by (simp add: sample_anchor_def)
  show "usable_site (\<lambda>_. True) (\<lambda>_. 0) sample_image 0x10000 0 0x10400 0x60
      ((sample_sig ''Hook'')\<lparr>sg_anchor := sample_anchor\<rparr>) = 0x10410"
    by (simp add: usable_site_def try_anchor_def sample_sig_def zero_sig_def sample_located k usable_code_address_def)
  show "usable_site (\<lambda>_. True) (\<lambda>_. 0) sample_image 0x10000 0 0x10400 0x60
      ((sample_sig ''Maybe'')\<lparr>sg_optional := True\<rparr>) = 0"
    by (simp add: usable_site_def try_anchor_def sample_sig_def zero_sig_def zero_anchor_def np_aob_site_def)
  show "usable_site (\<lambda>_. True) (\<lambda>_. 0) sample_image 0x10000 0 0x10400 0x60
      ((sample_sig ''Old'')\<lparr>sg_deprecated := True\<rparr>) = 0"
    by (simp add: usable_site_def sample_sig_def)
qed

lemma other_module [simp]: "cstr ''steamui.dylib'' \<noteq> NP_MODULE_DEFAULT"
  by (simp add: NP_MODULE_DEFAULT_def cstr_def)

lemma sample_modules:
  "sg_module ((sample_sig ''Hook'')\<lparr>sg_anchor := sample_anchor\<rparr>) = NP_MODULE_DEFAULT"
  "sg_module ((sample_sig ''Maybe'')\<lparr>sg_optional := True\<rparr>) = NP_MODULE_DEFAULT"
  "sg_module ((sample_sig ''Other'')\<lparr>sg_module := cstr ''steamui.dylib''\<rparr>) = cstr ''steamui.dylib''"
  "sg_module ((sample_sig ''Old'')\<lparr>sg_deprecated := True\<rparr>) = NP_MODULE_DEFAULT"
  by (simp_all add: sample_sig_def)

lemma sample_resolution:
  "resolution (\<lambda>_. True) (\<lambda>_. 0) sample_image 0x10000 0 0x10400 0x60 NP_MODULE_DEFAULT (db_signatures sample_db) =
     [\<lparr>rs_name = cstr ''Hook'', rs_site = 0x10410\<rparr>, \<lparr>rs_name = cstr ''Maybe'', rs_site = 0\<rparr>,
      \<lparr>rs_name = cstr ''Old'', rs_site = 0\<rparr>]"
  unfolding resolution_def sample_db_def
  by (simp add: sample_modules sample_sites) (simp add: sample_sig_def)

lemma sample_required:
  "filter (\<lambda>sig. required NP_MODULE_DEFAULT sig \<and>
      usable_site (\<lambda>_. True) (\<lambda>_. 0) sample_image 0x10000 0 0x10400 0x60 sig \<noteq> 0) (db_signatures sample_db) =
    [(sample_sig ''Hook'')\<lparr>sg_anchor := sample_anchor\<rparr>]"
  "filter (required NP_MODULE_DEFAULT) (db_signatures sample_db) =
    [(sample_sig ''Hook'')\<lparr>sg_anchor := sample_anchor\<rparr>]"
  unfolding sample_db_def required_def
  by (simp_all add: sample_modules sample_sites) (simp_all add: sample_sig_def zero_sig_def)

lemma resolve_sound:
  assumes "np_resolve_signatures mem_ok uniqued m mh slide db module out = (n, r)" "mh \<noteq> 0"
    and "np_lookup_address r name = a" "a \<noteq> 0"
  obtains tx text_sz where "np_find_segment m mh slide (cstr ''__TEXT'') = Some (tx, text_sz)"
    "usable_code_address a tx text_sz"
proof -
  from lookup_loop_in[OF assms(3)[unfolded np_lookup_address_def] assms(4)] obtain item where
    item: "item \<in> set (rr_items r)" "rs_site item = a" by blast
  from assms(1,2) item obtain tx text_sz where
    seg: "np_find_segment m mh slide (cstr ''__TEXT'') = Some (tx, text_sz)"
    and r: "r = snd (resolve_loop mem_ok uniqued m mh slide tx text_sz module (db_signatures db) 0 zero_result)"
    by (auto simp: np_resolve_signatures_def zero_result_def split: option.splits)
  have "item \<in> set (resolution mem_ok uniqued m mh slide tx text_sz module (db_signatures db))"
    using item(1) resolve_loop_sub[of mem_ok uniqued m mh slide tx text_sz module "db_signatures db" 0 zero_result]
    unfolding r by (auto simp: zero_result_def)
  then have "usable_code_address a tx text_sz"
    using item(2) assms(4) by (auto simp: resolution_def usable_site_def Let_def split: if_splits)
  with seg that show ?thesis by blast
qed

lemma char_of_cstr [simp]: "map (\<lambda>c. char_of (unat c)) (cstr s) = s"
proof -
  have "char_of (unat (of_char c :: u8)) = c" for c
  proof -
    have "unat (of_nat (of_char c) :: u8) = of_char c"
      by (simp only: unsigned_of_nat) (simp add: take_bit_nat_eq_self)
    then have "unat (of_char c :: u8) = of_char c" by (simp only: of_nat_of_char)
    then show ?thesis by (simp only: char_of_char)
  qed
  then show ?thesis by (simp add: cstr_def map_idI)
qed

definition sample_aob_sig :: np_sig_entry where
  "sample_aob_sig = (sample_sig ''Entry'')\<lparr>sg_aob_hex := cstr ''7F2303D5'',
     sg_anchor := sample_anchor\<lparr>an_kind := NP_MATCH_VTABLE_SLOT\<rparr>\<rparr>"

lemma sample_aob_fields:
  "sg_aob_hex sample_aob_sig = cstr ''7F2303D5''" "sg_match_offset sample_aob_sig = 0"
  "an_kind (sg_anchor sample_aob_sig) = NP_MATCH_VTABLE_SLOT" "an_va (sg_anchor sample_aob_sig) = 0"
  by (simp_all add: sample_aob_sig_def sample_sig_def zero_sig_def sample_anchor_def)

lemma sample_aob_located:
  "np_locate_anchor uniqued m mh slide text text_sz (sg_anchor sample_aob_sig) = 0"
  by (simp add: np_locate_anchor_def sample_aob_fields)

lemma sample_aob_hit:
  "np_scan_sole_match sample_image 0x10400 0x60 \<lparr>pat_bytes = [0x7F, 0x23, 0x03, 0xD5], pat_mask = [0xFF, 0xFF, 0xFF, 0xFF]\<rparr>
    = 0x10410"
  by (simp add: np_scan_sole_match_def scan_positions_def upt_0_numeral upt_1_numeral sample_eval le32_def)

lemma sample_aob_site: "np_aob_site (\<lambda>_. True) sample_image sample_aob_sig 0x10400 0x60 = 0x10410"
proof -
  have "np_compile_pattern (\<lambda>_. True) ''7F2303D5'' =
      Some \<lparr>pat_bytes = [0x7F, 0x23, 0x03, 0xD5], pat_mask = [0xFF, 0xFF, 0xFF, 0xFF]\<rparr>"
    by code_simp
  moreover have "cstr ''7F2303D5'' \<noteq> []" by (simp add: cstr_def)
  ultimately show ?thesis
    by (simp add: np_aob_site_def sample_aob_fields sample_aob_hit usable_code_address_def)
qed

lemma sample_entry_bounds: "np_function_bounds sample_image 0x10000 0 0x10410 = Some (0x10410, 0x10440)"
proof -
  have "table_bytes sample_image 0x11040 (unat (4 :: u64)) = [0x80, 0x08, 0x10, 0x30]"
    by (simp add: table_bytes_def sample_eval upt_rec)
  then show ?thesis
    by (simp add: np_function_bounds_def sample_fn_starts bounds_loop.simps uleb_Cons uleb_add_def)
qed

lemma sample_aob_tried:
  "try_anchor (\<lambda>_. True) (\<lambda>_. 0) sample_image sample_aob_sig 0x10000 0 0x10400 0x60 = 0x10410"
  by (simp add: try_anchor_def sample_aob_fields sample_aob_located sample_aob_site aob_site_plausible_def
      sample_entry_bounds)

section \<open>Properties\<close>

text \<open>Resolving the signatures of a module is one map over them, in their order: each is given the
  address it comes to, and the count returned is the number of required ones that came to one.\<close>

theorem resolve_is_map:
  assumes "mh \<noteq> 0" "np_find_segment m mh slide (cstr ''__TEXT'') = Some (text, text_sz)" "mem_ok = (\<lambda>_. True)"
  shows "fst (np_resolve_signatures mem_ok uniqued m mh slide db module out) =
      length (filter (\<lambda>sig. required module sig \<and> usable_site mem_ok uniqued m mh slide text text_sz sig \<noteq> 0)
        (db_signatures db)) \<and>
    rr_items (snd (np_resolve_signatures mem_ok uniqued m mh slide db module out)) =
      resolution mem_ok uniqued m mh slide text text_sz module (db_signatures db)"
  using assms
  by (simp add: np_resolve_signatures_def resolve_loop_count resolve_loop_items) (simp add: zero_result_def)

theorem resolve_is_map_witness:
  "fst (np_resolve_signatures (\<lambda>_. True) (\<lambda>_. 0) sample_image 0x10000 0 sample_db NP_MODULE_DEFAULT zero_result) = 1 \<and>
   rr_items (snd (np_resolve_signatures (\<lambda>_. True) (\<lambda>_. 0) sample_image 0x10000 0 sample_db NP_MODULE_DEFAULT zero_result)) =
     [\<lparr>rs_name = cstr ''Hook'', rs_site = 0x10410\<rparr>, \<lparr>rs_name = cstr ''Maybe'', rs_site = 0\<rparr>,
      \<lparr>rs_name = cstr ''Old'', rs_site = 0\<rparr>]"
  using resolve_is_map[OF _ sample_segment refl, of "\<lambda>_. 0" sample_db NP_MODULE_DEFAULT zero_result]
  unfolding sample_resolution sample_required by simp

text \<open>C2. An address a lookup gives after resolving, whatever the allocator did, can be patched: it is that
  of a whole aligned instruction inside the text segment of the image.\<close>

theorem resolved_site_usable:
  assumes "np_resolve_signatures mem_ok uniqued m mh slide db module out = (n, r)" "mh \<noteq> 0"
    and "np_lookup_address r name = a" "a \<noteq> 0"
    and "np_find_segment m mh slide (cstr ''__TEXT'') = Some (text, text_sz)"
    and "unat text + unat text_sz < 2 ^ 64" "4 \<le> text_sz"
  shows "a AND 3 = 0 \<and> text \<le> a \<and> unat a + 4 \<le> unat text + unat text_sz"
proof -
  from resolve_sound[OF assms(1-4)] assms(5) have "usable_code_address a text text_sz" by auto
  then show ?thesis
    using usable_code_address_aligned in_text_bounds[OF usable_code_address_in assms(6,7)] by simp
qed

lemma sample_resolved:
  "np_resolve_signatures (\<lambda>_. True) (\<lambda>_. 0) sample_image 0x10000 0 sample_db NP_MODULE_DEFAULT zero_result =
     (1, \<lparr>rr_items = [\<lparr>rs_name = cstr ''Hook'', rs_site = 0x10410\<rparr>, \<lparr>rs_name = cstr ''Maybe'', rs_site = 0\<rparr>,
        \<lparr>rs_name = cstr ''Old'', rs_site = 0\<rparr>], rr_used = 3, rr_cap = 32\<rparr>)"
proof -
  have "try_anchor (\<lambda>_. True) (\<lambda>_. 0) sample_image (sample_sig ''Maybe''\<lparr>sg_optional := True\<rparr>) 0x10000 0 0x10400 0x60 = 0"
    by (simp add: try_anchor_def sample_sig_def zero_sig_def zero_anchor_def np_aob_site_def)
  moreover have "try_anchor (\<lambda>_. True) (\<lambda>_. 0) sample_image (sample_sig ''Hook''\<lparr>sg_anchor := sample_anchor\<rparr>) 0x10000 0 0x10400 0x60 = 0x10410"
    by (simp add: try_anchor_def sample_sig_def sample_located)  (simp add: sample_anchor_def)
  ultimately show ?thesis
    unfolding np_resolve_signatures_def sample_segment option.case prod.case sample_db_def
    by (simp add: sample_modules)
      (simp add: sample_sig_def zero_sig_def usable_code_address_def push_def zero_result_def)
qed

theorem resolved_site_usable_witness: "(0x10410 :: u64) AND 3 = 0 \<and> (0x10400 :: u64) \<le> 0x10410"
  using resolved_site_usable[OF sample_resolved _ _ _ sample_segment, of "cstr ''Hook''" "0x10410"]
  by (simp add: np_lookup_address_def)

text \<open>The number of resolved signatures never exceeds the number of required ones, and reaches it
  exactly when every required signature of the module has come to an address.\<close>

theorem all_required_resolved:
  assumes "mh \<noteq> 0" "np_find_segment m mh slide (cstr ''__TEXT'') = Some (text, text_sz)"
  shows "fst (np_resolve_signatures mem_ok uniqued m mh slide db module out) \<le> np_required_for_module db module \<and>
    (fst (np_resolve_signatures mem_ok uniqued m mh slide db module out) = np_required_for_module db module \<longleftrightarrow>
      (\<forall>sig \<in> set (db_signatures db). required module sig \<longrightarrow>
        usable_site mem_ok uniqued m mh slide text text_sz sig \<noteq> 0))"
  using assms all_filter_length[of "required module" "\<lambda>sig. usable_site mem_ok uniqued m mh slide text text_sz sig \<noteq> 0"
      "db_signatures db"]
    and_filter_length[of "required module" "\<lambda>sig. usable_site mem_ok uniqued m mh slide text text_sz sig \<noteq> 0"
      "db_signatures db"]
  by (simp add: np_resolve_signatures_def resolve_loop_count required_for_module)

theorem all_required_resolved_witness:
  "(1 :: nat) = np_required_for_module sample_db NP_MODULE_DEFAULT \<longleftrightarrow>
    (\<forall>sig \<in> set (db_signatures sample_db). required NP_MODULE_DEFAULT sig \<longrightarrow>
      usable_site (\<lambda>_. True) (\<lambda>_. 0) sample_image 0x10000 0 0x10400 0x60 sig \<noteq> 0)"
  using all_required_resolved[OF _ sample_segment, of "\<lambda>_. True" "\<lambda>_. 0" sample_db NP_MODULE_DEFAULT zero_result]
  by (simp add: sample_resolved)

text \<open>A byte pattern that stands in for an anchor of a function entry only does so where the image has
  a function start at that very address, or has no function there and the instruction is one that
  functions begin with.\<close>

theorem aob_fallback_is_entry:
  assumes "try_anchor mem_ok uniqued m sig mh slide text text_sz = a" "a \<noteq> 0"
    and "anchor_targets_function_entry (an_kind (sg_anchor sig))"
    and "np_locate_anchor uniqued m mh slide text text_sz (sg_anchor sig) = 0"
  shows "np_aob_site mem_ok m sig text text_sz = a \<and> usable_code_address a text text_sz \<and>
    (case np_function_bounds m mh slide a of Some (start, _) \<Rightarrow> start = a | None \<Rightarrow> np_looks_like_prologue m a)"
proof -
  have kinds: "an_kind (sg_anchor sig) \<noteq> NP_MATCH_AOB" using assms(3) by auto
  then have site: "np_aob_site mem_ok m sig text text_sz = a" and "aob_site_plausible m sig mh slide a"
    using assms by (auto simp: try_anchor_def Let_def split: if_splits)
  moreover have "usable_code_address a text text_sz"
    using site assms(2) by (auto simp: np_aob_site_def Let_def split: if_splits option.splits)
  ultimately show ?thesis using assms(3) by (auto simp: aob_site_plausible_def split: option.splits)
qed

theorem aob_fallback_is_entry_witness:
  "case np_function_bounds sample_image 0x10000 0 0x10410 of
     Some (start, _) \<Rightarrow> start = 0x10410 | None \<Rightarrow> np_looks_like_prologue sample_image 0x10410"
  using aob_fallback_is_entry[OF sample_aob_tried] by (simp add: sample_aob_fields sample_aob_located)

end
