(* ===== verification/File_Sys.thy ===== *)
theory File_Sys
  imports C_Str "HOL-Library.AList"
begin

text \<open>
  Files: a file system as an association list of paths, and \<^verbatim>\<open>src/dylib/util/file.c\<close>: the paths of the
  project, reading a file whole, writing one that was not there. What becomes of a system call is
  decided by the fields of \<open>disk\<close>.
\<close>

section \<open>The file system\<close>

datatype node = Dir | File cstring

type_synonym fs = "(cstring \<times> node) list"

definition PATH_MAX :: nat where "PATH_MAX = 1024"

definition has_children :: "cstring \<Rightarrow> fs \<Rightarrow> bool" where
  "has_children dir fs = list_ex (\<lambda>(p, _). has_prefix (dir @ cstr ''/'') p) fs"

text \<open>Which calls succeed: \<open>dk_open\<close> is opening a file, finding memory for it and reading it whole;
  \<open>dk_written\<close> is how much of a file is written before an error.\<close>

record disk =
  dk_open :: "cstring \<Rightarrow> bool"
  dk_create :: "cstring \<Rightarrow> bool"
  dk_unlink :: "cstring \<Rightarrow> bool"
  dk_rmdir :: "cstring \<Rightarrow> bool"
  dk_rename :: "cstring \<Rightarrow> bool"
  dk_sync :: "cstring \<Rightarrow> bool"
  dk_close :: "cstring \<Rightarrow> bool"
  dk_written :: "cstring \<Rightarrow> nat"

text \<open>\<open>unlink\<close>: done, nothing there, or refused; a directory is refused.\<close>

datatype unlink_result = Unlinked | No_entry | Unlink_refused

definition sys_unlink :: "disk \<Rightarrow> cstring \<Rightarrow> fs \<Rightarrow> unlink_result \<times> fs" where
  "sys_unlink dk path fs = (case map_of fs path of
     None \<Rightarrow> (No_entry, fs)
   | Some Dir \<Rightarrow> (Unlink_refused, fs)
   | Some (File _) \<Rightarrow> if dk_unlink dk path then (Unlinked, AList.delete path fs) else (Unlink_refused, fs))"

definition sys_rmdir :: "disk \<Rightarrow> cstring \<Rightarrow> fs \<Rightarrow> fs" where
  "sys_rmdir dk path fs =
     (if map_of fs path = Some Dir \<and> \<not> has_children path fs \<and> dk_rmdir dk path then AList.delete path fs else fs)"

definition is_regular :: "fs \<Rightarrow> cstring \<Rightarrow> bool" where
  "is_regular fs path \<longleftrightarrow> (case map_of fs path of Some (File _) \<Rightarrow> True | _ \<Rightarrow> False)"

section \<open>Paths\<close>

definition np_home_dir :: "cstring option \<Rightarrow> cstring option \<Rightarrow> cstring option" where
  "np_home_dir env pw_dir =
     (case env of
        Some (c # e) \<Rightarrow> Some (c # e)
      | _ \<Rightarrow> (case pw_dir of Some (c # d) \<Rightarrow> Some (c # d) | _ \<Rightarrow> None))"

definition np_support_path :: "nat \<Rightarrow> cstring \<Rightarrow> cstring \<Rightarrow> cstring" where
  "np_support_path bufsz home rel =
     c_copy bufsz (if rel \<noteq> [] then home @ cstr ''/Library/Application Support/notproton'' @ cstr ''/'' @ rel
                   else home @ cstr ''/Library/Application Support/notproton'')"

section \<open>Whole files\<close>

definition NP_READ_CEILING :: nat where "NP_READ_CEILING = 16 * 1024 * 1024"

text \<open>The contents of a regular file that is not empty and not too long.\<close>

definition np_read_file_max :: "disk \<Rightarrow> cstring \<Rightarrow> nat \<Rightarrow> fs \<Rightarrow> u8 list option" where
  "np_read_file_max dk path most fs =
     (if \<not> dk_open dk path then None
      else case map_of fs path of
          Some (File content) \<Rightarrow>
            if length content = 0 \<or> length content > most then None else Some content
        | _ \<Rightarrow> None)"

definition np_read_whole_file :: "disk \<Rightarrow> cstring \<Rightarrow> fs \<Rightarrow> u8 list option" where
  "np_read_whole_file dk path fs = np_read_file_max dk path NP_READ_CEILING fs"

definition np_write_file_new :: "disk \<Rightarrow> cstring \<Rightarrow> u8 list \<Rightarrow> fs \<Rightarrow> bool \<times> fs" where
  "np_write_file_new dk path data fs = (case sys_unlink dk path fs of
     (Unlink_refused, fs) \<Rightarrow> (False, fs)
   | (_, fs) \<Rightarrow>
       if \<not> dk_create dk path then (False, fs)
       else
         let fs = AList.update path (File (take (dk_written dk path) data)) fs
         in if dk_written dk path < length data then (False, snd (sys_unlink dk path fs))
            else if \<not> dk_close dk path then (False, snd (sys_unlink dk path fs))
            else (True, fs))"

section \<open>Lemmas\<close>

lemma sys_unlink_other: "p \<noteq> q \<Longrightarrow> map_of (snd (sys_unlink dk p fs)) q = map_of fs q"
  by (simp add: sys_unlink_def AList.delete_conv split: option.split node.split)

lemma sys_unlink_own:
  "map_of (snd (sys_unlink dk p fs)) p = map_of fs p \<or> map_of (snd (sys_unlink dk p fs)) p = None"
  by (simp add: sys_unlink_def AList.delete_conv split: option.split node.split)

lemma sys_rmdir_other: "p \<noteq> q \<Longrightarrow> map_of (sys_rmdir dk p fs) q = map_of fs q"
  by (simp add: sys_rmdir_def AList.delete_conv)

end
