(* ===== verification/Loader.thy ===== *)
theory Loader
  imports Resolver File_Sys
begin

text \<open>
  The entry point, \<^verbatim>\<open>src/dylib/core/loader.c\<close>: which signature database is read, when hooks are installed and when they are not. What the process gives it (the list
  of loaded images, files, directories, the environment) and the hooks of the other components are the
  fields of \<open>host\<close>; installing hooks changes the memory of the process. What the thread does is a list
  of events, in the order it does them.
\<close>

definition STEAMCLIENT_DYLIB :: cstring where "STEAMCLIENT_DYLIB = cstr ''steamclient.dylib''"
definition STEAMUI_DYLIB :: cstring where "STEAMUI_DYLIB = cstr ''steamui.dylib''"
definition STEAMSERVICE_DYLIB :: cstring where "STEAMSERVICE_DYLIB = cstr ''steamservice.dylib''"
definition WAIT_TIMEOUT_MS :: nat where "WAIT_TIMEOUT_MS = 60000"

section \<open>Paths\<close>

text \<open>The build number of a directory entry \<open><build>.json\<close>, 0 for any other entry.\<close>

definition sigdb_build :: "cstring \<Rightarrow> u64" where
  "sigdb_build name =
     (if length name < 6 \<or> drop (length name - 5) name \<noteq> cstr ''.json'' then 0
      else case strtoull 10 name of (build, stop) \<Rightarrow> if stop \<noteq> drop (length name - 5) name then 0 else build)"

fun pick_latest_loop :: "cstring \<Rightarrow> nat \<Rightarrow> cstring list \<Rightarrow> u64 \<Rightarrow> bool \<Rightarrow> cstring \<Rightarrow> bool \<times> cstring" where
  "pick_latest_loop dir cap [] best found buf = (found, buf)"
| "pick_latest_loop dir cap (name # names) best found buf =
     (let build = sigdb_build name in
      if build = 0 then pick_latest_loop dir cap names best found buf
      else if \<not> found \<or> build \<ge> best
      then pick_latest_loop dir cap names build True (c_copy cap (dir @ cstr ''/'' @ name))
      else pick_latest_loop dir cap names best found buf)"

definition pick_latest_sigdb :: "cstring list option \<Rightarrow> cstring \<Rightarrow> nat \<Rightarrow> cstring \<Rightarrow> int \<times> cstring" where
  "pick_latest_sigdb entries dir cap buf = (case entries of
     None \<Rightarrow> (- 1, buf)
   | Some names \<Rightarrow> (case pick_latest_loop dir cap names 0 False buf of
       (found, buf) \<Rightarrow> (if found then 0 else - 1, buf)))"

text \<open>\<open>env\<close> is \<^verbatim>\<open>NOTPROTON_SIG\<close>; \<open>list_dir\<close> what a directory holds, if it can be read.\<close>

definition sigdb_path_for ::
  "cstring option \<Rightarrow> cstring option \<Rightarrow> (cstring \<Rightarrow> cstring list option) \<Rightarrow> nat \<Rightarrow> cstring" where
  "sigdb_path_for env home list_dir cap =
     (case env of
        Some (c # e) \<Rightarrow> c_copy cap (c # e)
      | _ \<Rightarrow> (case home of
          None \<Rightarrow> c_copy cap (cstr ''<no-home>/<none>.json'')
        | Some h \<Rightarrow>
            let dir = np_support_path 512 h (cstr ''signatures/macos.arm64'') in
            case pick_latest_sigdb (list_dir dir) dir cap [] of
              (rc, path) \<Rightarrow> if rc = 0 then path else c_copy cap (dir @ cstr ''/<none>.json'')))"

section \<open>The install thread\<close>

datatype event =
    Input_access_check
  | Launch_install u64 u64
  | Hooks_install cstring u64 u64 cstring np_resolve_result

text \<open>\<open>h_image\<close> is \<^verbatim>\<open>np_await_image\<close> at the time the thread calls it, with the size of the path buffer.\<close>

record host =
  h_image :: "cstring \<Rightarrow> nat \<Rightarrow> (u64 \<times> u64 \<times> cstring) option"
  h_sig_env :: "cstring option"
  h_home :: "cstring option"
  h_list_dir :: "cstring \<Rightarrow> cstring list option"
  h_read :: "cstring \<Rightarrow> u8 list option"
  h_parse :: "cstring \<Rightarrow> json option"
  h_grown :: bool
  h_entries_ok :: bool
  h_mem_ok :: "nat \<Rightarrow> bool"
  h_uniqued :: "cstring \<Rightarrow> u64"
  h_effect :: "event \<Rightarrow> mem \<Rightarrow> mem"

definition run_event :: "host \<Rightarrow> event \<Rightarrow> mem \<times> event list \<Rightarrow> mem \<times> event list" where
  "run_event h e s = (case s of (m, es) \<Rightarrow> (h_effect h e m, es @ [e]))"

definition install_module :: "host \<Rightarrow> np_sigdb \<Rightarrow> cstring \<Rightarrow> mem \<times> event list \<Rightarrow> mem \<times> event list" where
  "install_module h db module s =
     (if \<not> np_module_has_signatures db module then s
      else case h_image h module 1024 of
          None \<Rightarrow> s
        | Some (mh, slide, path) \<Rightarrow>
            let (count, resolved) = np_resolve_signatures (h_mem_ok h) (h_uniqued h) (fst s) mh slide db module zero_result
            in run_event h (Hooks_install module mh slide path resolved) s)"

definition install_thread :: "host \<Rightarrow> mem \<Rightarrow> mem \<times> event list" where
  "install_thread h m =
     (case h_image h STEAMCLIENT_DYLIB 0 of
        None \<Rightarrow> (m, [])
      | Some (mh, slide, _) \<Rightarrow>
          let s = run_event h Input_access_check (m, []) in
          (case np_find_segment (fst s) mh slide (cstr ''__TEXT'') of
             None \<Rightarrow> s
           | Some _ \<Rightarrow>
               let path = sigdb_path_for (h_sig_env h) (h_home h) (h_list_dir h) 512;
                   (rc, db) = np_load_profile (h_grown h) (h_entries_ok h) (h_parse h) (h_read h path)
               in if rc \<noteq> 0 then s
                  else
                    let (resolved_count, resolved) =
                          np_resolve_signatures (h_mem_ok h) (h_uniqued h) (fst s) mh slide db
                            STEAMCLIENT_DYLIB zero_result;
                        required = np_required_for_module db STEAMCLIENT_DYLIB
                    in if resolved_count < required then s
                       else
                         let s = run_event h (Launch_install mh slide) s;
                             s = run_event h (Hooks_install STEAMCLIENT_DYLIB mh slide [] resolved) s;
                             s = install_module h db STEAMUI_DYLIB s
                         in install_module h db STEAMSERVICE_DYLIB s))"

section \<open>Loading and unloading\<close>

definition is_main_helper :: "cstring \<Rightarrow> cstring list \<Rightarrow> bool" where
  "is_main_helper pn argv =
     (if pn \<noteq> cstr ''Steam Helper'' then False
      else \<not> list_ex (has_prefix (cstr ''--type='')) (drop 1 argv))"

text \<open>The initialiser and finaliser of the library, as the calls they make.\<close>

datatype init_step = Log_attach | Log_init | Clear_markers | Log_overrides | Export_tools_path
  | Ensure_tool_manifest | Spawn_install | Activate_install | Snapshot_env | Start_thread
  | Ceg_stop | Await_stop | Join_thread

record loader_state =
  g_active :: bool
  g_install_started :: bool

definition np_init :: "cstring option \<Rightarrow> cstring list \<Rightarrow> bool \<Rightarrow> loader_state \<Rightarrow> init_step list \<times> loader_state" where
  "np_init pn argv thread_ok st = (case pn of
     None \<Rightarrow> ([], st)
   | Some name \<Rightarrow>
       if is_main_helper name argv then ([Log_attach, Spawn_install], st)
       else if name \<noteq> cstr ''steam_osx'' then ([], st)
       else ([Log_init, Clear_markers, Log_overrides, Export_tools_path, Ensure_tool_manifest, Spawn_install,
              Activate_install, Snapshot_env, Start_thread],
             st\<lparr>g_active := True, g_install_started := (if thread_ok then True else g_install_started st)\<rparr>))"

definition np_fini :: "loader_state \<Rightarrow> init_step list" where
  "np_fini st =
     (if \<not> g_active st then []
      else [Ceg_stop] @ (if g_install_started st then [Await_stop, Join_thread] else []))"

section \<open>Lemmas\<close>

text \<open>The entries whose build number is at least that of every other one.\<close>

lemma pick_latest_loop_found:
  "found \<Longrightarrow> fst (pick_latest_loop dir cap names best found buf)"
  by (induction names arbitrary: best buf found) (auto simp: Let_def)

lemma pick_latest_loop_max:
  assumes "pick_latest_loop dir cap names best found buf = (True, path)"
  shows "(found \<and> path = buf \<and> (\<forall>n \<in> set names. sigdb_build n \<noteq> 0 \<longrightarrow> sigdb_build n < best)) \<or>
    (\<exists>n \<in> set names. sigdb_build n \<noteq> 0 \<and> path = c_copy cap (dir @ cstr ''/'' @ n) \<and>
      (\<forall>k \<in> set names. sigdb_build k \<le> sigdb_build n) \<and> (found \<longrightarrow> best \<le> sigdb_build n))"
  using assms
proof (induction names arbitrary: best found buf)
  case (Cons n names)
  let ?b = "sigdb_build n"
  show ?case
  proof (cases "?b = 0")
    case True
    then show ?thesis using Cons.IH[of best found buf] Cons.prems by auto
  next
    case False
    show ?thesis
    proof (cases "\<not> found \<or> best \<le> ?b")
      case True
      then have "pick_latest_loop dir cap names ?b True (c_copy cap (dir @ cstr ''/'' @ n)) = (True, path)"
        using Cons.prems False by (auto simp: Let_def)
      from Cons.IH[OF this] False True show ?thesis by (auto intro: order_trans)
    next
      case not: False
      then have "pick_latest_loop dir cap names best found buf = (True, path)"
        using Cons.prems False by (auto simp: Let_def)
      from Cons.IH[OF this] not show ?thesis by (auto intro: order_trans)
    qed
  qed
qed auto

lemma pick_latest_loop_none:
  "pick_latest_loop dir cap names best False buf = (False, path) \<longleftrightarrow>
     path = buf \<and> (\<forall>n \<in> set names. sigdb_build n = 0)"
proof (induction names arbitrary: best buf)
  case (Cons n names)
  have "\<not> (pick_latest_loop dir cap names b True c = (False, path))" for b c
    using pick_latest_loop_found[of True dir cap names b c] by auto
  then show ?case using Cons by (auto simp: Let_def)
qed auto

lemma sigdb_build_name:
  assumes "0 < n" "n < 2 ^ 64"
  shows "sigdb_build (dec_str n @ cstr ''.json'') = of_nat n"
proof -
  have len: "length (cstr ''.json'') = 5" "0 < length (dec_str n)"
    using dec_str_not_Nil[of n] by (simp_all add: cstr_def)
  have "strtoull 10 (dec_str n @ cstr ''.json'') = (of_nat n, cstr ''.json'')"
    by (rule strtoull_dec[OF assms(2)]) (simp add: cstr_def digit_in_def digit_val_def c_class_defs)
  with len show ?thesis by (simp add: sigdb_build_def)
qed

lemma install_module_events:
  "e \<in> set (snd (install_module h db module s)) \<Longrightarrow> e \<notin> set (snd s) \<Longrightarrow>
     \<exists>mh slide path r. e = Hooks_install module mh slide path r"
  by (auto simp: install_module_def run_event_def Let_def split: if_splits option.splits prod.splits)

lemma install_module_prefix: "\<exists>es. snd (install_module h db module s) = snd s @ es"
  by (auto simp: install_module_def run_event_def Let_def split: option.splits prod.splits)

text \<open>The memory the thread resolves the client's signatures in, and the profile it reads.\<close>

definition checked_mem :: "host \<Rightarrow> mem \<Rightarrow> mem" where
  "checked_mem h m = h_effect h Input_access_check m"

definition thread_profile :: "host \<Rightarrow> int \<times> np_sigdb" where
  "thread_profile h = np_load_profile (h_grown h) (h_entries_ok h) (h_parse h)
     (h_read h (sigdb_path_for (h_sig_env h) (h_home h) (h_list_dir h) 512))"

definition client_resolution :: "host \<Rightarrow> mem \<Rightarrow> u64 \<Rightarrow> u64 \<Rightarrow> nat \<times> np_resolve_result" where
  "client_resolution h m mh slide =
     np_resolve_signatures (h_mem_ok h) (h_uniqued h) (checked_mem h m) mh slide (snd (thread_profile h))
       STEAMCLIENT_DYLIB zero_result"

lemma install_thread_cases:
  "install_thread h m =
     (case h_image h STEAMCLIENT_DYLIB 0 of
        None \<Rightarrow> (m, [])
      | Some (mh, slide, _) \<Rightarrow>
          if np_find_segment (checked_mem h m) mh slide (cstr ''__TEXT'') = None \<or> fst (thread_profile h) \<noteq> 0 \<or>
             fst (client_resolution h m mh slide) < np_required_for_module (snd (thread_profile h)) STEAMCLIENT_DYLIB
          then (checked_mem h m, [Input_access_check])
          else install_module h (snd (thread_profile h)) STEAMSERVICE_DYLIB
            (install_module h (snd (thread_profile h)) STEAMUI_DYLIB
              (run_event h (Hooks_install STEAMCLIENT_DYLIB mh slide [] (snd (client_resolution h m mh slide)))
                (run_event h (Launch_install mh slide) (checked_mem h m, [Input_access_check])))))"
  by (simp add: install_thread_def thread_profile_def[symmetric] client_resolution_def[symmetric]
      checked_mem_def[symmetric] run_event_def[of h Input_access_check] Let_def case_prod_beta split: option.split)

lemma snd_run_event: "snd (run_event h e s) = snd s @ [e]"
  by (simp add: run_event_def split: prod.split)

definition sample_doc :: json where
  "sample_doc = JObject [(cstr ''signatures'', JArray
     [JObject [(cstr ''name'', JString (cstr ''Hook'')),
               (cstr ''Anchor'', JObject [(cstr ''kind'', JString (cstr ''string'')),
                                          (cstr ''value'', JString (cstr ''npstr''))])]])]"

definition sample_host :: host where
  "sample_host = \<lparr>h_image = (\<lambda>needle _. if needle = STEAMCLIENT_DYLIB then Some (0x10000, 0, []) else None),
     h_sig_env = Some (cstr ''db''), h_home = None, h_list_dir = (\<lambda>_. None),
     h_read = (\<lambda>_. Some []), h_parse = (\<lambda>_. Some sample_doc), h_grown = True, h_entries_ok = True, h_mem_ok = (\<lambda>_. True),
     h_uniqued = (\<lambda>_. 0), h_effect = (\<lambda>_ m. m)\<rparr>"

lemma sample_load_anchor:
  "load_anchor (JObject [(cstr ''name'', JString (cstr ''Hook'')),
     (cstr ''Anchor'', JObject [(cstr ''kind'', JString (cstr ''string'')),
        (cstr ''value'', JString (cstr ''npstr''))])]) zero_anchor = sample_anchor"
proof -
  have k: "load_anchor (JObject [(cstr ''name'', JString (cstr ''Hook'')),
     (cstr ''Anchor'', JObject [(cstr ''kind'', JString (cstr ''string'')),
        (cstr ''value'', JString (cstr ''npstr''))])]) zero_anchor =
    load_anchor_kind (JObject [(cstr ''kind'', JString (cstr ''string'')),
        (cstr ''value'', JString (cstr ''npstr''))]) (cstr ''string'') zero_anchor"
    by (simp add: load_anchor_def get_item_def cstr_def c_tolower_def c_upper_def)
  show ?thesis
    unfolding k load_anchor_kind_def Let_def
    by (simp add: refine_string_anchor_def int_field_def is_true_item_def str_field_def get_item_def cstr_def
        c_tolower_def c_upper_def ANCHOR_STR_def c_copy_def zero_anchor_def sample_anchor_def zero_pair_def)
qed

lemma sample_profile:
  "thread_profile sample_host = (0, zero_sigdb\<lparr>db_signatures := [(sample_sig ''Hook'')\<lparr>sg_anchor := sample_anchor\<rparr>],
     db_sig_count := 1\<rparr>)"
proof -
  let ?sig = "JObject [(cstr ''name'', JString (cstr ''Hook'')),
     (cstr ''Anchor'', JObject [(cstr ''kind'', JString (cstr ''string'')),
        (cstr ''value'', JString (cstr ''npstr''))])]"
  have items: "get_item ?sig ''name'' = Some (JString (cstr ''Hook''))" "get_item ?sig ''module'' = None"
    "get_item ?sig ''aob_hex'' = None" "get_item ?sig ''func_addr_this_build'' = None"
    "get_item ?sig ''deprecated'' = None" "get_item ?sig ''optional'' = None" "get_item ?sig ''match_offset'' = None"
    by (simp_all add: get_item_def cstr_def c_tolower_def c_upper_def)
  have root: "get_item sample_doc ''signatures'' = Some (JArray [?sig])" "get_item sample_doc ''schema_version'' = None"
    "get_item sample_doc ''profile_version'' = None" "get_item sample_doc ''steam_build'' = None"
    "get_item sample_doc ''steam_build_date'' = None"
    by (simp_all add: sample_doc_def get_item_def cstr_def c_tolower_def c_upper_def)
  have name: "c_copy SIG_NAME (cstr ''Hook'') = cstr ''Hook''"
    by (rule c_copy_fits) (simp add: SIG_NAME_def cstr_def)
  have pos: "SIG_NAME \<noteq> 0" by (simp add: SIG_NAME_def)
  have k: "an_kind sample_anchor = NP_MATCH_STRING" by (simp add: sample_anchor_def)
  have sig: "load_signature ?sig zero_sig = (sample_sig ''Hook'')\<lparr>sg_anchor := sample_anchor\<rparr>"
    unfolding load_signature_def load_sig_offset_def load_sig_flags_def load_sig_strings_def Let_def
      str_field_def hex_field_def items
    by (simp add: name pos zero_sig_def sample_sig_def sample_load_anchor k)
  show ?thesis
    unfolding thread_profile_def np_load_profile_def read_json_file_def sample_host_def
    by (simp add: root sig build_field_def str_field_def zero_sigdb_def)
qed

lemma sample_client:
  "client_resolution sample_host sample_image 0x10000 0 =
     (1, \<lparr>rr_items = [\<lparr>rs_name = cstr ''Hook'', rs_site = 0x10410\<rparr>], rr_used = 1, rr_cap = 32\<rparr>)"
  "checked_mem sample_host sample_image = sample_image"
  "h_image sample_host STEAMCLIENT_DYLIB 0 = Some (0x10000, 0, [])"
proof -
  show c: "checked_mem sample_host sample_image = sample_image" by (simp add: checked_mem_def sample_host_def)
  show "h_image sample_host STEAMCLIENT_DYLIB 0 = Some (0x10000, 0, [])" by (simp add: sample_host_def)
  have m: "STEAMCLIENT_DYLIB = NP_MODULE_DEFAULT" by (simp add: STEAMCLIENT_DYLIB_def NP_MODULE_DEFAULT_def)
  have "try_anchor (\<lambda>_. True) (\<lambda>_. 0) sample_image (sample_sig ''Hook''\<lparr>sg_anchor := sample_anchor\<rparr>) 0x10000 0 0x10400 0x60 = 0x10410"
    by (simp add: try_anchor_def sample_sig_def sample_located)  (simp add: sample_anchor_def)
  then show "client_resolution sample_host sample_image 0x10000 0 =
     (1, \<lparr>rr_items = [\<lparr>rs_name = cstr ''Hook'', rs_site = 0x10410\<rparr>], rr_used = 1, rr_cap = 32\<rparr>)"
    unfolding client_resolution_def c sample_profile np_resolve_signatures_def sample_segment option.case prod.case m
    by (simp add: sample_host_def sample_modules)
      (simp add: sample_sig_def zero_sig_def usable_code_address_def push_def zero_result_def)
qed

lemma sample_needed: "np_required_for_module (snd (thread_profile sample_host)) STEAMCLIENT_DYLIB = 1"
  unfolding sample_profile required_for_module STEAMCLIENT_DYLIB_def NP_MODULE_DEFAULT_def[symmetric]
  by (simp add: required_def sample_modules) (simp add: sample_sig_def zero_sig_def)

section \<open>Properties\<close>

text \<open>C1. The safety gate of the install thread: if it installs any hook, then the signature database was
  read, and every signature the client library requires has come to the address of an aligned
  instruction of its text; otherwise the thread does no more than its access check.\<close>

theorem install_gate:
  assumes "e \<in> set (snd (install_thread h m))" "e \<noteq> Input_access_check"
    and "h_image h STEAMCLIENT_DYLIB 0 = Some (mh, slide, path)" "mh \<noteq> 0"
  shows "fst (thread_profile h) = 0 \<and>
    (\<exists>text text_sz. np_find_segment (checked_mem h m) mh slide (cstr ''__TEXT'') = Some (text, text_sz) \<and>
      (\<forall>sig \<in> set (db_signatures (snd (thread_profile h))). required STEAMCLIENT_DYLIB sig \<longrightarrow>
        usable_code_address (usable_site (h_mem_ok h) (h_uniqued h) (checked_mem h m) mh slide text text_sz sig) text text_sz))"
proof -
  let ?db = "snd (thread_profile h)" and ?req = "required STEAMCLIENT_DYLIB"
  let ?cond = "np_find_segment (checked_mem h m) mh slide (cstr ''__TEXT'') = None \<or> fst (thread_profile h) \<noteq> 0 \<or>
    fst (client_resolution h m mh slide) < np_required_for_module ?db STEAMCLIENT_DYLIB"
  have "\<not> ?cond"
  proof
    assume ?cond
    then have "install_thread h m = (checked_mem h m, [Input_access_check])"
      unfolding install_thread_cases assms(3) by simp
    with assms(1,2) show False by simp
  qed
  then obtain tx text_sz where seg: "np_find_segment (checked_mem h m) mh slide (cstr ''__TEXT'') = Some (tx, text_sz)"
    and rc: "fst (thread_profile h) = 0"
    and "\<not> fst (client_resolution h m mh slide) < np_required_for_module ?db STEAMCLIENT_DYLIB" by auto
  then have "length (filter (\<lambda>sig. ?req sig \<and>
      usable_site (h_mem_ok h) (h_uniqued h) (checked_mem h m) mh slide tx text_sz sig \<noteq> 0) (db_signatures ?db)) =
      length (filter ?req (db_signatures ?db))"
    using assms(4) and_filter_length[of ?req "\<lambda>sig. usable_site (h_mem_ok h) (h_uniqued h) (checked_mem h m) mh slide tx text_sz sig \<noteq> 0"
        "db_signatures ?db"]
    by (simp add: client_resolution_def np_resolve_signatures_def resolve_loop_count required_for_module)
  then have "\<forall>sig \<in> set (db_signatures ?db). ?req sig \<longrightarrow>
      usable_site (h_mem_ok h) (h_uniqued h) (checked_mem h m) mh slide tx text_sz sig \<noteq> 0"
    by (simp add: all_filter_length)
  moreover have "usable_code_address (usable_site (h_mem_ok h) (h_uniqued h) (checked_mem h m) mh slide tx text_sz sig) tx text_sz"
    if "usable_site (h_mem_ok h) (h_uniqued h) (checked_mem h m) mh slide tx text_sz sig \<noteq> 0" for sig
    using that by (simp add: usable_site_def Let_def split: if_splits)
  ultimately show ?thesis using seg rc by blast
qed

lemma sample_installs: "\<exists>es. snd (install_thread sample_host sample_image) =
  [Input_access_check, Launch_install 0x10000 0, Hooks_install STEAMCLIENT_DYLIB 0x10000 0 []
    \<lparr>rr_items = [\<lparr>rs_name = cstr ''Hook'', rs_site = 0x10410\<rparr>], rr_used = 1, rr_cap = 32\<rparr>] @ es"
proof -
  obtain es1 where 1: "snd (install_module sample_host (snd (thread_profile sample_host)) STEAMUI_DYLIB s) = snd s @ es1 s" for s
    using install_module_prefix[of sample_host "snd (thread_profile sample_host)" STEAMUI_DYLIB] by metis
  obtain es2 where 2: "snd (install_module sample_host (snd (thread_profile sample_host)) STEAMSERVICE_DYLIB s) = snd s @ es2 s" for s
    using install_module_prefix[of sample_host "snd (thread_profile sample_host)" STEAMSERVICE_DYLIB] by metis
  show ?thesis
    unfolding install_thread_cases sample_client option.case prod.case sample_segment sample_needed
    by (simp add: sample_profile[THEN arg_cong[where f = fst]] 1 2 snd_run_event)
qed

theorem install_gate_witness:
  "fst (thread_profile sample_host) = 0 \<and>
    (\<exists>text text_sz. np_find_segment sample_image 0x10000 0 (cstr ''__TEXT'') = Some (text, text_sz) \<and>
      (\<forall>sig \<in> set (db_signatures (snd (thread_profile sample_host))). required STEAMCLIENT_DYLIB sig \<longrightarrow>
        usable_code_address (usable_site (h_mem_ok sample_host) (h_uniqued sample_host) sample_image 0x10000 0 text text_sz sig) text text_sz))"
proof -
  have "Launch_install 0x10000 0 \<in> set (snd (install_thread sample_host sample_image))"
    using sample_installs by auto
  from install_gate[OF this _ sample_client(3)] show ?thesis by (simp add: sample_client(2))
qed

text \<open>C18. When the client library is loaded and all its required signatures resolve, the thread does install:
  first the access check, then the launch hook, then the hooks of the client library.\<close>

theorem install_happens:
  assumes "h_image h STEAMCLIENT_DYLIB 0 = Some (mh, slide, path)"
    and "np_find_segment (checked_mem h m) mh slide (cstr ''__TEXT'') = Some (text, text_sz)"
    and "fst (thread_profile h) = 0"
    and "fst (client_resolution h m mh slide) = np_required_for_module (snd (thread_profile h)) STEAMCLIENT_DYLIB"
  shows "\<exists>es. snd (install_thread h m) = [Input_access_check, Launch_install mh slide,
    Hooks_install STEAMCLIENT_DYLIB mh slide [] (snd (client_resolution h m mh slide))] @ es"
proof -
  obtain es1 where 1: "snd (install_module h (snd (thread_profile h)) STEAMUI_DYLIB s) = snd s @ es1 s" for s
    using install_module_prefix[of h "snd (thread_profile h)" STEAMUI_DYLIB] by metis
  obtain es2 where 2: "snd (install_module h (snd (thread_profile h)) STEAMSERVICE_DYLIB s) = snd s @ es2 s" for s
    using install_module_prefix[of h "snd (thread_profile h)" STEAMSERVICE_DYLIB] by metis
  show ?thesis unfolding install_thread_cases assms option.case prod.case using assms(3) by (simp add: 1 2 snd_run_event)
qed

theorem install_happens_witness:
  "\<exists>es. snd (install_thread sample_host sample_image) =
    [Input_access_check, Launch_install 0x10000 0, Hooks_install STEAMCLIENT_DYLIB 0x10000 0 []
      \<lparr>rr_items = [\<lparr>rs_name = cstr ''Hook'', rs_site = 0x10410\<rparr>], rr_used = 1, rr_cap = 32\<rparr>] @ es"
proof -
  have "fst (thread_profile sample_host) = 0" by (simp add: sample_profile)
  from install_happens[OF sample_client(3) _ this, of sample_image "0x10400" "0x60"]
  show ?thesis by (simp add: sample_client sample_segment sample_needed)
qed

text \<open>The database that is picked is one of the directory's with the highest build number, and none is
  picked only when no entry is named for a build.\<close>

theorem latest_sigdb_picked:
  "case pick_latest_sigdb (Some names) dir cap buf of (rc, path) \<Rightarrow>
     if \<exists>n \<in> set names. sigdb_build n \<noteq> 0
     then rc = 0 \<and> (\<exists>n \<in> set names. path = c_copy cap (dir @ cstr ''/'' @ n) \<and>
        sigdb_build n = Max (sigdb_build ` set names))
     else rc = - 1 \<and> path = buf"
proof -
  obtain found path where loop: "pick_latest_loop dir cap names 0 False buf = (found, path)" by fastforce
  show ?thesis
  proof (cases found)
    case True
    with pick_latest_loop_max[of dir cap names 0 False buf path] loop obtain n where
      n: "n \<in> set names" "sigdb_build n \<noteq> 0" "path = c_copy cap (dir @ cstr ''/'' @ n)"
        "\<forall>k \<in> set names. sigdb_build k \<le> sigdb_build n" by auto
    then have "sigdb_build n = Max (sigdb_build ` set names)" by (intro Max_eqI[symmetric]) auto
    with n(1,3) have "\<exists>n \<in> set names. path = c_copy cap (dir @ cstr ''/'' @ n) \<and>
        sigdb_build n = Max (sigdb_build ` set names)" by blast
    moreover have "\<exists>n \<in> set names. sigdb_build n \<noteq> 0" using n(1,2) by blast
    ultimately show ?thesis using loop True by (simp add: pick_latest_sigdb_def)
  next
    case False
    with loop pick_latest_loop_none[of dir cap names 0 buf path] show ?thesis by (auto simp: pick_latest_sigdb_def)
  qed
qed

text \<open>A database named for its build, as the project names them, is taken for that build, whatever the
  number: the name is read back.\<close>

theorem sigdb_name_roundtrip:
  assumes "0 < n" "n < 2 ^ 64"
  shows "unat (sigdb_build (dec_str n @ cstr ''.json'')) = n"
  using assms by (simp add: sigdb_build_name unsigned_of_nat take_bit_nat_eq_self)

theorem sigdb_name_roundtrip_witness: "unat (sigdb_build (dec_str 1783 @ cstr ''.json'')) = 1783"
  using sigdb_name_roundtrip[of 1783] by simp

end
