(* ===== verification/Conf.thy ===== *)
theory Conf
  imports C_Str "HOL-Library.List_Lexorder" Complex_Main
begin

text \<open>
  Plugin and variant descriptor files, \<^verbatim>\<open>src/dylib/feats/conf.c\<close>: the record buffer, the checks of values,
  the schema of a record, the line-by-line reader and the directory reader. What a sink is told is a
  list of events, in order; its decision on a record may depend on what it was told before. The C
  library's \<^verbatim>\<open>strtod\<close> is the parameter \<open>strtod\<close>, \<open>None\<close> where the value is not finite.
\<close>

section \<open>Schemas\<close>

definition NP_CONF_LINE :: nat where "NP_CONF_LINE = 2048"
definition NP_CONF_ID_MAX :: nat where "NP_CONF_ID_MAX = 192"
definition NP_CONF_REC_BUF :: nat where "NP_CONF_REC_BUF = 4096"
definition NP_CONF_RECORDS_MAX :: nat where "NP_CONF_RECORDS_MAX = 32"

datatype np_conf_kind = NP_CONF_PLUGIN | NP_CONF_VARIANT

datatype conf_code = NP_CONF_UNREADABLE | NP_CONF_LINE_LONG | NP_CONF_NO_HEADER | NP_CONF_BAD_ID
  | NP_CONF_DUP_ID | NP_CONF_UNKNOWN | NP_CONF_DUP_FIELD | NP_CONF_EMPTY | NP_CONF_TAB
  | NP_CONF_REQUIRED | NP_CONF_BAD_VALUE | NP_CONF_LIMIT | NP_CONF_BAD_TYPE | NP_CONF_SLIDER_SHAPE
  | NP_CONF_BAD_DEFAULT | Sink_code cstring

record np_conf_spec =
  sp_name :: cstring
  sp_most :: nat
  sp_required :: bool

definition spec :: "string \<Rightarrow> nat \<Rightarrow> bool \<Rightarrow> np_conf_spec" where
  "spec name most req = \<lparr>sp_name = cstr name, sp_most = most, sp_required = req\<rparr>"

definition kPlugin :: "np_conf_spec list" where
  "kPlugin =
     [spec ''label'' 1 True, spec ''description'' 1 False, spec ''description_on'' 16 False,
      spec ''section'' 1 False, spec ''on'' 1 False, spec ''off'' 1 False,
      spec ''depends'' 1 False, spec ''requires'' 4 False, spec ''inject'' 1 False,
      spec ''env'' 16 False, spec ''overrides'' 1 False, spec ''stage'' 1 False,
      spec ''tools'' 8 False, spec ''type'' 1 False, spec ''choice'' 16 False,
      spec ''min'' 1 False,
      spec ''max'' 1 False, spec ''step'' 1 False, spec ''default'' 1 False,
      spec ''suffix'' 1 False]"

definition kVariant :: "np_conf_spec list" where
  "kVariant =
     [spec ''label'' 1 False, spec ''variant'' 1 False, spec ''src'' 1 True, spec ''dst'' 1 True,
      spec ''build'' 8 False, spec ''remove'' 32 False]"

definition conf_table :: "np_conf_kind \<Rightarrow> np_conf_spec list" where
  "conf_table kind = (if kind = NP_CONF_PLUGIN then kPlugin else kVariant)"

definition conf_spec :: "np_conf_kind \<Rightarrow> cstring \<Rightarrow> np_conf_spec option" where
  "conf_spec kind name = find (\<lambda>s. sp_name s = name) (conf_table kind)"

section \<open>Records\<close>

text \<open>The buffer holds \<open>name\0value\0\<close> pairs; its first \<open>rc_kvlen\<close> bytes are in use.\<close>

record np_conf_rec =
  rc_id :: cstring
  rc_kv :: "u8 list"
  rc_nkv :: nat
  rc_kvlen :: nat

definition empty_rec :: np_conf_rec where
  "empty_rec = \<lparr>rc_id = [], rc_kv = [], rc_nkv = 0, rc_kvlen = 0\<rparr>"

fun skip_strings :: "nat \<Rightarrow> u8 list \<Rightarrow> u8 list" where
  "skip_strings 0 p = p"
| "skip_strings (Suc n) p = skip_strings n (drop (length (c_prefix p) + 1) p)"

definition np_conf_next :: "np_conf_rec \<Rightarrow> nat \<Rightarrow> (cstring \<times> cstring \<times> nat) option" where
  "np_conf_next rec it =
     (if it \<ge> rc_nkv rec then None
      else let p = skip_strings (2 * it) (rc_kv rec) in
        Some (c_prefix p, c_prefix (drop (length (c_prefix p) + 1) p), it + 1))"

text \<open>The fields a loop over \<^verbatim>\<open>np_conf_next\<close> sees.\<close>

function fields_from :: "np_conf_rec \<Rightarrow> nat \<Rightarrow> (cstring \<times> cstring) list" where
  "fields_from rec it = (case np_conf_next rec it of
     None \<Rightarrow> [] | Some (name, val, it') \<Rightarrow> (name, val) # fields_from rec it')"
  by pat_completeness auto
termination
  by (relation "measure (\<lambda>(rec, it). rc_nkv rec - it)")
    (auto simp: np_conf_next_def Let_def split: if_splits)

declare fields_from.simps [simp del]

definition np_conf_get :: "np_conf_rec \<Rightarrow> cstring \<Rightarrow> cstring option" where
  "np_conf_get rec name = map_option snd (find (\<lambda>(n, v). n = name) (fields_from rec 0))"

definition np_conf_count :: "np_conf_rec \<Rightarrow> cstring \<Rightarrow> nat" where
  "np_conf_count rec name = length (filter (\<lambda>(n, v). n = name) (fields_from rec 0))"

section \<open>Checks of values\<close>

definition id_char :: "u8 \<Rightarrow> bool" where
  "id_char c \<longleftrightarrow> c_upper c \<or> c_digit c \<or> c = 95"

definition name_char :: "u8 \<Rightarrow> bool" where
  "name_char c \<longleftrightarrow> c_upper c \<or> c_lower c \<or> c_digit c \<or> c = 46 \<or> c = 95 \<or> c = 45"

definition conf_id_ok :: "np_conf_kind \<Rightarrow> cstring \<Rightarrow> bool" where
  "conf_id_ok kind i =
     (if kind = NP_CONF_PLUGIN then
        (if \<not> has_prefix (cstr ''NOTPROTON_'') i \<or> drop 10 i = [] then False
         else list_all id_char (drop 10 i))
      else if length i > 64 \<or> i = [] then False
      else if \<not> (c_upper (i ! 0) \<or> c_lower (i ! 0) \<or> c_digit (i ! 0)) then False
      else list_all name_char i)"

text \<open>The grammar of numbers: what is left after an optional sign, and after a run of digits.\<close>

definition skip_sign :: "cstring \<Rightarrow> cstring" where
  "skip_sign v = (case v of c # r \<Rightarrow> if c = 43 \<or> c = 45 then r else v | [] \<Rightarrow> [])"

definition conf_grammar :: "cstring \<Rightarrow> bool" where
  "conf_grammar v =
     (let v1 = skip_sign v;
          whole = takeWhile c_digit v1;
          v2 = dropWhile c_digit v1;
          (frac, v3) = (case v2 of c # r \<Rightarrow> if c = 46 then (takeWhile c_digit r, dropWhile c_digit r) else ([], v2)
                        | [] \<Rightarrow> ([], []))
      in if length whole + length frac = 0 then False
         else (case v3 of
             [] \<Rightarrow> True
           | c # r \<Rightarrow>
               if c = 101 \<or> c = 69 then
                 let e = skip_sign r in
                 if (case e of d # _ \<Rightarrow> \<not> c_digit d | [] \<Rightarrow> True) then False
                 else dropWhile c_digit e = []
               else False))"

definition np_conf_num :: "(cstring \<Rightarrow> real option) \<Rightarrow> cstring \<Rightarrow> bool" where
  "np_conf_num strtod v \<longleftrightarrow> conf_grammar v \<and> strtod v \<noteq> None"

definition conf_dbl :: "(cstring \<Rightarrow> real option) \<Rightarrow> cstring \<Rightarrow> real" where
  "conf_dbl strtod v = (case strtod v of Some d \<Rightarrow> d | None \<Rightarrow> 0)"

definition np_conf_choice :: "cstring \<Rightarrow> nat \<times> cstring option" where
  "np_conf_choice v =
     (let (val, l) = (case str_split 61 v of Some (a, b) \<Rightarrow> (a, b) | None \<Rightarrow> (v, []));
          l = skip_spaces l
      in (length (trim_end val), if l = [] then None else Some l))"

definition conf_choice_has :: "np_conf_rec \<Rightarrow> cstring \<Rightarrow> bool" where
  "conf_choice_has rec want = list_ex (\<lambda>(n, v). n = cstr ''choice'' \<and>
     fst (np_conf_choice v) = length want \<and> take (length want) v = want) (fields_from rec 0)"

definition conf_tool_ok :: "cstring \<Rightarrow> bool" where
  "conf_tool_ok v =
     (if v = [] then False
      else let n = (if v ! (length v - 1) = 42 then length v - 1 else length v) in
        if n = 0 then False else list_all name_char (take n v))"

definition conf_env_ok :: "cstring \<Rightarrow> bool" where
  "conf_env_ok v = (case str_split 61 v of
     None \<Rightarrow> False
   | Some (name, _) \<Rightarrow>
       if name = [] then False
       else if \<not> (c_upper (v ! 0) \<or> v ! 0 = 95) then False
       else list_all id_char name)"

definition has_dotdot :: "cstring \<Rightarrow> bool" where
  "has_dotdot v = list_ex (\<lambda>i. take 2 (drop i v) = [46, 46]) [0..<length v]"

definition conf_rel_ok :: "cstring \<Rightarrow> bool \<Rightarrow> bool" where
  "conf_rel_ok v may_be_top =
     (if (case v of c # _ \<Rightarrow> c = 47 | [] \<Rightarrow> False) \<or> has_dotdot v then False
      else may_be_top \<or> list_ex (\<lambda>c. c \<noteq> 47 \<and> c \<noteq> 46) v)"

definition conf_build_ok :: "cstring \<Rightarrow> bool" where
  "conf_build_ok v = list_all (\<lambda>c. c_upper c \<or> c_lower c \<or> c_digit c \<or> c = 46 \<or> c = 45) v"

section \<open>The schema of a record\<close>

text \<open>What refuses a field of a record, by its name and value; the detail is the name.\<close>

definition variant_field_bad :: "cstring \<times> cstring \<Rightarrow> bool" where
  "variant_field_bad f = (case f of (n, v) \<Rightarrow>
     n = cstr ''remove'' \<and> \<not> conf_rel_ok v False \<or> n = cstr ''build'' \<and> \<not> conf_build_ok v)"

definition plugin_field_bad :: "cstring \<times> cstring \<Rightarrow> bool" where
  "plugin_field_bad f = (case f of (n, v) \<Rightarrow>
     n = cstr ''env'' \<and> \<not> conf_env_ok v \<or> n = cstr ''choice'' \<and> fst (np_conf_choice v) = 0 \<or>
     n = cstr ''tools'' \<and> \<not> conf_tool_ok v)"

type_synonym refusal = "conf_code option \<times> cstring option"

definition bad_value :: "string \<Rightarrow> refusal" where
  "bad_value name = (Some NP_CONF_BAD_VALUE, Some (cstr name))"

definition conf_slider :: "(cstring \<Rightarrow> real option) \<Rightarrow> np_conf_rec \<Rightarrow> cstring option \<Rightarrow> refusal" where
  "conf_slider strtod rec detail =
     (let values = np_conf_count rec (cstr ''choice'');
          mn = np_conf_get rec (cstr ''min''); mx = np_conf_get rec (cstr ''max'');
          step = np_conf_get rec (cstr ''step''); dflt = np_conf_get rec (cstr ''default'');
          num = np_conf_num strtod; dbl = conf_dbl strtod
      in if values \<noteq> 0 \<and> (mn \<noteq> None \<or> mx \<noteq> None) \<or> values = 0 \<and> \<not> (mn \<noteq> None \<and> mx \<noteq> None) \<or> values = 1
         then (Some NP_CONF_SLIDER_SHAPE, detail)
         else if values \<noteq> 0 then
           (if (case dflt of Some d \<Rightarrow> \<not> conf_choice_has rec d | None \<Rightarrow> False)
            then (Some NP_CONF_BAD_DEFAULT, detail) else (None, detail))
         else if \<not> num (the mn) then bad_value ''min''
         else if \<not> num (the mx) \<or> dbl (the mx) \<le> dbl (the mn) then bad_value ''max''
         else if (case step of Some s \<Rightarrow> \<not> num s \<or> dbl s \<le> 0 | None \<Rightarrow> False) then bad_value ''step''
         else if (case dflt of Some d \<Rightarrow> \<not> num d \<or> dbl d < dbl (the mn) \<or> dbl d > dbl (the mx) | None \<Rightarrow> False)
         then (Some NP_CONF_BAD_DEFAULT, detail)
         else (None, detail))"

definition conf_schema ::
  "(cstring \<Rightarrow> real option) \<Rightarrow> np_conf_rec \<Rightarrow> np_conf_kind \<Rightarrow> cstring option \<Rightarrow> refusal" where
  "conf_schema strtod rec kind detail =
     (case find (\<lambda>s. sp_required s \<and> np_conf_get rec (sp_name s) = None) (conf_table kind) of
        Some s \<Rightarrow> (Some NP_CONF_REQUIRED, Some (sp_name s))
      | None \<Rightarrow>
     if kind = NP_CONF_VARIANT then
       (if \<not> conf_rel_ok (the (np_conf_get rec (cstr ''dst''))) True then bad_value ''dst''
        else case find variant_field_bad (fields_from rec 0) of
            Some (n, _) \<Rightarrow> (Some NP_CONF_BAD_VALUE, Some n)
          | None \<Rightarrow> (None, detail))
     else case find plugin_field_bad (fields_from rec 0) of
         Some (n, _) \<Rightarrow> (Some NP_CONF_BAD_VALUE, Some n)
       | None \<Rightarrow>
     if (case np_conf_get rec (cstr ''depends'') of Some v \<Rightarrow> \<not> conf_id_ok NP_CONF_PLUGIN v | None \<Rightarrow> False)
     then bad_value ''depends''
     else if (case np_conf_get rec (cstr ''section'') of Some v \<Rightarrow> v \<noteq> cstr ''dev'' | None \<Rightarrow> False)
     then bad_value ''section''
     else case np_conf_get rec (cstr ''type'') of
         None \<Rightarrow> (None, detail)
       | Some type \<Rightarrow>
           if type = cstr ''choice'' then
             (if np_conf_count rec (cstr ''choice'') = 0
              then (Some NP_CONF_REQUIRED, Some (cstr ''choice'')) else (None, detail))
           else if type \<noteq> cstr ''slider'' then (Some NP_CONF_BAD_TYPE, Some type)
           else conf_slider strtod rec detail)"

section \<open>Reading files\<close>

definition conf_admit :: "cstring list \<Rightarrow> cstring \<Rightarrow> conf_code option \<times> cstring list" where
  "conf_admit seen i =
     (if i \<in> set seen then (Some NP_CONF_DUP_ID, seen)
      else if length seen \<ge> NP_CONF_RECORDS_MAX then (Some NP_CONF_LIMIT, seen)
      else (None, seen @ [c_copy NP_CONF_ID_MAX i]))"

datatype conf_event =
    Conf_file cstring
  | Conf_record np_conf_rec
  | Conf_refused cstring conf_code "cstring option"

text \<open>The sink's decision on a record, if it takes records: a code refuses it.\<close>

type_synonym sink = "(conf_event list \<Rightarrow> np_conf_rec \<Rightarrow> cstring option \<Rightarrow> refusal) option"

record conf_state =
  st_rec :: np_conf_rec
  st_code :: "conf_code option"
  st_detail :: "cstring option"
  st_header :: bool
  st_seen :: "cstring list"
  st_events :: "conf_event list"

definition tell :: "conf_event \<Rightarrow> conf_state \<Rightarrow> conf_state" where
  "tell e st = st\<lparr>st_events := st_events st @ [e]\<rparr>"

text \<open>The four steps of a record that has an id: the code it already has, its schema, its admission, the
  sink.\<close>

definition conf_judge :: "(cstring \<Rightarrow> real option) \<Rightarrow> np_conf_kind \<Rightarrow> sink \<Rightarrow> conf_state \<Rightarrow> conf_state" where
  "conf_judge strtod kind snk st =
     (let rec = st_rec st;
          (code, detail) = (case st_code st of Some c \<Rightarrow> (Some c, st_detail st)
            | None \<Rightarrow> conf_schema strtod rec kind (st_detail st));
          (code, detail, st) = (case code of Some c \<Rightarrow> (Some c, detail, st)
            | None \<Rightarrow> (case conf_admit (st_seen st) (rc_id rec) of
                (Some c, seen) \<Rightarrow> (Some c, None, st\<lparr>st_seen := seen\<rparr>)
              | (None, seen) \<Rightarrow> (None, detail, st\<lparr>st_seen := seen\<rparr>)));
          (code, detail, st) = (case code of Some c \<Rightarrow> (Some c, detail, st)
            | None \<Rightarrow> (case snk of None \<Rightarrow> (None, detail, st)
              | Some f \<Rightarrow> (case f (st_events st) rec detail of
                  (code, detail) \<Rightarrow> (code, detail, tell (Conf_record rec) st))))
      in case code of Some c \<Rightarrow> tell (Conf_refused (rc_id rec) c detail) st | None \<Rightarrow> st)"

definition conf_emit :: "(cstring \<Rightarrow> real option) \<Rightarrow> np_conf_kind \<Rightarrow> sink \<Rightarrow> conf_state \<Rightarrow> conf_state" where
  "conf_emit strtod kind snk st =
     (if rc_id (st_rec st) \<noteq> [] then conf_judge strtod kind snk st else st)\<lparr>st_rec := empty_rec\<rparr>"

definition conf_header ::
  "(cstring \<Rightarrow> real option) \<Rightarrow> np_conf_kind \<Rightarrow> sink \<Rightarrow> cstring \<Rightarrow> cstring \<Rightarrow> conf_state \<Rightarrow> conf_state" where
  "conf_header strtod kind snk shown name st =
     (let st = (conf_emit strtod kind snk st)\<lparr>st_code := None, st_detail := None, st_header := True\<rparr>;
          k = trim_end (skip_spaces name)
      in if k = [] then tell (Conf_refused shown NP_CONF_BAD_ID None) st
         else let st = st\<lparr>st_rec := (st_rec st)\<lparr>rc_id := c_copy NP_CONF_ID_MAX k\<rparr>\<rparr> in
           if length k \<ge> NP_CONF_ID_MAX \<or> \<not> conf_id_ok kind (rc_id (st_rec st))
           then st\<lparr>st_code := Some NP_CONF_BAD_ID\<rparr> else st)"

definition rec_add :: "cstring \<Rightarrow> cstring \<Rightarrow> np_conf_rec \<Rightarrow> np_conf_rec" where
  "rec_add name v rec =
     rec\<lparr>rc_kv := rc_kv rec @ name @ [0] @ v @ [0], rc_kvlen := rc_kvlen rec + (length name + 1) + (length v + 1),
         rc_nkv := rc_nkv rec + 1\<rparr>"

definition refuse_field :: "conf_code \<Rightarrow> cstring option \<Rightarrow> conf_state \<Rightarrow> conf_state" where
  "refuse_field code detail st = st\<lparr>st_code := Some code, st_detail := detail\<rparr>"

definition conf_field :: "np_conf_kind \<Rightarrow> cstring \<Rightarrow> cstring \<Rightarrow> conf_state \<Rightarrow> conf_state" where
  "conf_field kind k v st = (case conf_spec kind k of
     None \<Rightarrow> refuse_field NP_CONF_UNKNOWN (if c_copy 64 k \<noteq> [] then Some (c_copy 64 k) else None) st
   | Some sp \<Rightarrow>
       if v = [] then refuse_field NP_CONF_EMPTY (Some (sp_name sp)) st
       else if 9 \<in> set v then refuse_field NP_CONF_TAB (Some (sp_name sp)) st
       else if np_conf_count (st_rec st) (sp_name sp) \<ge> sp_most sp
       then refuse_field (if sp_most sp = 1 then NP_CONF_DUP_FIELD else NP_CONF_LIMIT) (Some (sp_name sp)) st
       else if rc_kvlen (st_rec st) + length (sp_name sp) + length v + 2 > NP_CONF_REC_BUF
       then refuse_field NP_CONF_LIMIT (Some (sp_name sp)) st
       else st\<lparr>st_rec := rec_add (sp_name sp) v (st_rec st)\<rparr>)"

text \<open>One line, as it was read; \<open>Inl\<close> returns from the file.\<close>

definition conf_line ::
  "(cstring \<Rightarrow> real option) \<Rightarrow> np_conf_kind \<Rightarrow> sink \<Rightarrow> cstring \<Rightarrow> u8 list \<Rightarrow> conf_state \<Rightarrow>
     conf_state + conf_state" where
  "conf_line strtod kind snk shown raw st =
     (let line = takeWhile (\<lambda>c. c \<noteq> 0 \<and> c \<noteq> 10) raw; k = skip_spaces line in
      if length line \<ge> NP_CONF_LINE
      then Inl (tell (Conf_refused shown NP_CONF_LINE_LONG None) (st\<lparr>st_rec := (st_rec st)\<lparr>rc_id := []\<rparr>\<rparr>))
      else case k of
          [] \<Rightarrow> Inr st
        | c # r \<Rightarrow>
            if c = 35 then Inr st
            else if c = 91 then
              (case str_rsplit 93 k of
                 None \<Rightarrow> Inr st
               | Some (name, _) \<Rightarrow> Inr (conf_header strtod kind snk shown (drop 1 name) st))
            else case str_split 61 k of
                None \<Rightarrow> Inr st
              | Some (name, v) \<Rightarrow>
                  if \<not> st_header st then Inl (tell (Conf_refused shown NP_CONF_NO_HEADER None) st)
                  else if st_code st \<noteq> None then Inr st
                  else Inr (conf_field kind (trim_end name) (trim_end (skip_spaces v)) st))"

fun conf_lines ::
  "(cstring \<Rightarrow> real option) \<Rightarrow> np_conf_kind \<Rightarrow> sink \<Rightarrow> cstring \<Rightarrow> u8 list list \<Rightarrow> conf_state \<Rightarrow> conf_state" where
  "conf_lines strtod kind snk shown [] st = conf_emit strtod kind snk st"
| "conf_lines strtod kind snk shown (raw # raws) st = (case conf_line strtod kind snk shown raw st of
     Inl st' \<Rightarrow> st' | Inr st' \<Rightarrow> conf_lines strtod kind snk shown raws st')"

text \<open>One file: the ids seen in the directory and the events so far, before and after.\<close>

definition conf_read_file ::
  "(cstring \<Rightarrow> real option) \<Rightarrow> np_conf_kind \<Rightarrow> sink \<Rightarrow> cstring \<Rightarrow> u8 list option \<Rightarrow>
     cstring list \<times> conf_event list \<Rightarrow> cstring list \<times> conf_event list" where
  "conf_read_file strtod kind snk shown content s = (case s of (seen, events) \<Rightarrow>
     (case content of
        None \<Rightarrow> (seen, events @ [Conf_refused shown NP_CONF_UNREADABLE None])
      | Some [] \<Rightarrow> (seen, events)
      | Some (b # bs) \<Rightarrow>
          let st = conf_lines strtod kind snk shown (fgets_all (NP_CONF_LINE + 2) (b # bs))
                \<lparr>st_rec = empty_rec, st_code = None, st_detail = None, st_header = False, st_seen = seen,
                 st_events = events @ [Conf_file shown]\<rparr>
          in (st_seen st, st_events st)))"

section \<open>Reading a directory\<close>

definition conf_name_ok :: "cstring \<Rightarrow> bool" where
  "conf_name_ok name \<longleftrightarrow> \<not> ((case name of c # _ \<Rightarrow> c = 46 | [] \<Rightarrow> False) \<or> \<not> has_suffix name (cstr ''.conf'')) \<and>
     \<not> (9 \<in> set name \<or> 10 \<in> set name)"

text \<open>\<open>entries\<close> is what the directory holds, if it can be opened; \<open>read\<close> what is at a path.\<close>

definition np_conf_read_dir ::
  "(cstring \<Rightarrow> real option) \<Rightarrow> (cstring \<Rightarrow> u8 list option) \<Rightarrow> cstring list option \<Rightarrow> cstring \<Rightarrow> cstring \<Rightarrow>
     np_conf_kind \<Rightarrow> sink \<Rightarrow> conf_event list" where
  "np_conf_read_dir strtod read entries dir shown_dir kind snk = (case entries of
     None \<Rightarrow> []
   | Some names \<Rightarrow>
       let names = sort (filter conf_name_ok names);
           shown = (\<lambda>n. c_copy 2048 (shown_dir @ (if shown_dir \<noteq> [] then cstr ''/'' else []) @ n))
       in snd (fold (\<lambda>n. conf_read_file strtod kind snk (shown n) (read (c_copy 2048 (dir @ cstr ''/'' @ n))))
            names ([], [])))"

end
