(* ===== verification/Conf_Facts.thy ===== *)
theory Conf_Facts
  imports Conf
begin

text \<open>
  What the descriptor reader of theory Conf keeps: the record buffer stands for a list of fields, every
  record a sink is given is well formed, and the ids of a directory are distinct and few; and a
  directory's well-formed records do reach the sink.
\<close>

section \<open>The record buffer\<close>

definition enc_fields :: "(cstring \<times> cstring) list \<Rightarrow> u8 list" where
  "enc_fields fs = concat (map (\<lambda>(n, v). n @ [0] @ v @ [0]) fs)"

definition rec_holds :: "np_conf_rec \<Rightarrow> (cstring \<times> cstring) list \<Rightarrow> bool" where
  "rec_holds rec fs \<longleftrightarrow> rc_kv rec = enc_fields fs \<and> rc_nkv rec = length fs \<and>
     rc_kvlen rec = length (enc_fields fs) \<and> list_all (\<lambda>(n, v). c_string n \<and> c_string v) fs"

lemma c_prefix_append: "c_string s \<Longrightarrow> c_prefix (s @ 0 # r) = s"
  by (auto simp: c_string_def c_prefix_def takeWhile_append)

lemma skip_strings_fields:
  assumes "list_all (\<lambda>(n, v). c_string n \<and> c_string v) fs" "k \<le> length fs"
  shows "skip_strings (2 * k) (enc_fields fs) = enc_fields (drop k fs)"
  using assms
proof (induction k arbitrary: fs)
  case (Suc k)
  then obtain n v gs where fs: "fs = (n, v) # gs" by (cases fs) auto
  have c: "c_string n" "c_string v" using Suc.prems fs by auto
  have e: "enc_fields fs = n @ 0 # v @ 0 # enc_fields gs" by (simp add: fs enc_fields_def)
  have "skip_strings (2 * Suc k) (enc_fields fs) = skip_strings (2 * k) (enc_fields gs)"
    by (simp add: e c_prefix_append[OF c(1)] c_prefix_append[OF c(2)])
  then show ?case using Suc.IH[of gs] Suc.prems fs by simp
qed simp

lemma conf_next_holds:
  assumes "rec_holds rec fs"
  shows "np_conf_next rec k = (if k < length fs then Some (fst (fs ! k), snd (fs ! k), k + 1) else None)"
proof (cases "k < length fs")
  case True
  obtain n v where f: "fs ! k = (n, v)" by fastforce
  then have "(n, v) \<in> set fs" using True by (metis nth_mem)
  then have c: "c_string n" "c_string v" using assms by (auto simp: rec_holds_def list_all_iff)
  have "skip_strings (2 * k) (rc_kv rec) = enc_fields (drop k fs)"
    using assms True by (simp add: rec_holds_def skip_strings_fields)
  also have "\<dots> = n @ 0 # v @ 0 # enc_fields (drop (Suc k) fs)"
    using True f by (simp add: Cons_nth_drop_Suc[symmetric] enc_fields_def)
  finally show ?thesis
    using assms True f by (simp add: np_conf_next_def rec_holds_def c_prefix_append c)
qed (use assms in \<open>simp add: np_conf_next_def rec_holds_def\<close>)

lemma fields_holds:
  assumes "rec_holds rec fs"
  shows "fields_from rec k = drop k fs"
proof (induction "length fs - k" arbitrary: k)
  case 0
  then show ?case by (simp add: fields_from.simps[of rec k] conf_next_holds[OF assms])
next
  case (Suc d)
  then have "k < length fs" "d = length fs - (k + 1)" by auto
  with Suc.hyps(1)[of "k + 1"] show ?case
    by (simp add: fields_from.simps[of rec k] conf_next_holds[OF assms] Cons_nth_drop_Suc)
qed

lemma conf_get_holds: "rec_holds rec fs \<Longrightarrow> np_conf_get rec name = map_of fs name"
proof -
  have "map_option snd (find (\<lambda>(n, v). n = name) gs) = map_of gs name" for gs :: "(cstring \<times> cstring) list"
    by (induction gs) auto
  then show "rec_holds rec fs \<Longrightarrow> np_conf_get rec name = map_of fs name"
    by (simp add: np_conf_get_def fields_holds)
qed

lemma conf_count_holds: "rec_holds rec fs \<Longrightarrow> np_conf_count rec name = length (filter (\<lambda>(n, v). n = name) fs)"
  by (simp add: np_conf_count_def fields_holds)

lemma rec_holds_add:
  "rec_holds rec fs \<Longrightarrow> c_string n \<Longrightarrow> c_string v \<Longrightarrow> rec_holds (rec_add n v rec) (fs @ [(n, v)])"
  by (simp add: rec_holds_def rec_add_def enc_fields_def)

lemma rec_holds_empty: "rec_holds empty_rec []"
  by (simp add: rec_holds_def empty_rec_def enc_fields_def)

lemma rec_holds_id [simp]: "rec_holds (rec\<lparr>rc_id := i\<rparr>) fs = rec_holds rec fs"
  by (simp add: rec_holds_def)

section \<open>Well-formed records\<close>

definition fields_ok :: "np_conf_kind \<Rightarrow> (cstring \<times> cstring) list \<Rightarrow> bool" where
  "fields_ok kind fs \<longleftrightarrow> length (enc_fields fs) \<le> NP_CONF_REC_BUF \<and>
     list_all (\<lambda>(n, v). v \<noteq> [] \<and> 9 \<notin> set v \<and>
       (case conf_spec kind n of None \<Rightarrow> False
        | Some sp \<Rightarrow> length (filter (\<lambda>(k, _). k = n) fs) \<le> sp_most sp)) fs"

definition good_rec :: "(cstring \<Rightarrow> real option) \<Rightarrow> np_conf_kind \<Rightarrow> np_conf_rec \<Rightarrow> bool" where
  "good_rec strtod kind rec \<longleftrightarrow> conf_id_ok kind (rc_id rec) \<and> length (rc_id rec) < NP_CONF_ID_MAX \<and>
     rec_holds rec (fields_from rec 0) \<and> fields_ok kind (fields_from rec 0) \<and>
     fst (conf_schema strtod rec kind None) = None"

text \<open>The records the sink was given, in order.\<close>

definition record_of :: "conf_event \<Rightarrow> np_conf_rec list" where
  "record_of e = (case e of Conf_record r \<Rightarrow> [r] | _ \<Rightarrow> [])"

definition records :: "conf_event list \<Rightarrow> np_conf_rec list" where
  "records es = concat (map record_of es)"

lemma records_simps [simp]:
  "records [] = []" "records (es @ fs) = records es @ records fs" "records [Conf_record r] = [r]"
  "records [Conf_file p] = []" "records [Conf_refused p c d] = []"
  by (simp_all add: records_def record_of_def)

definition dir_inv :: "(cstring \<Rightarrow> real option) \<Rightarrow> np_conf_kind \<Rightarrow> cstring list \<Rightarrow> conf_event list \<Rightarrow> bool" where
  "dir_inv strtod kind seen es \<longleftrightarrow> distinct seen \<and> length seen \<le> NP_CONF_RECORDS_MAX \<and>
     list_all (good_rec strtod kind) (records es) \<and> distinct (map rc_id (records es)) \<and>
     set (map rc_id (records es)) \<subseteq> set seen"

definition rec_inv :: "np_conf_kind \<Rightarrow> conf_state \<Rightarrow> bool" where
  "rec_inv kind st \<longleftrightarrow> (\<exists>fs. rec_holds (st_rec st) fs \<and> fields_ok kind fs) \<and>
     (st_code st = None \<longrightarrow> st_detail st = None \<and> (rc_id (st_rec st) \<noteq> [] \<longrightarrow>
        conf_id_ok kind (rc_id (st_rec st)) \<and> length (rc_id (st_rec st)) < NP_CONF_ID_MAX))"

definition conf_inv :: "(cstring \<Rightarrow> real option) \<Rightarrow> np_conf_kind \<Rightarrow> conf_state \<Rightarrow> bool" where
  "conf_inv strtod kind st \<longleftrightarrow> rec_inv kind st \<and> dir_inv strtod kind (st_seen st) (st_events st)"

lemma fields_ok_Nil: "fields_ok kind []"
  by (simp add: fields_ok_def enc_fields_def)

lemma rec_inv_empty: "rec_inv kind (st\<lparr>st_rec := empty_rec, st_code := None, st_detail := None\<rparr>)"
  using rec_holds_empty fields_ok_Nil by (auto simp: rec_inv_def empty_rec_def)

lemma tell_sel [simp]:
  "st_rec (tell e st) = st_rec st" "st_code (tell e st) = st_code st" "st_detail (tell e st) = st_detail st"
  "st_header (tell e st) = st_header st" "st_seen (tell e st) = st_seen st"
  "st_events (tell e st) = st_events st @ [e]"
  by (simp_all add: tell_def)

lemma dir_inv_silent:
  "dir_inv strtod kind seen es \<Longrightarrow> dir_inv strtod kind seen (es @ [Conf_file p])"
  "dir_inv strtod kind seen es \<Longrightarrow> dir_inv strtod kind seen (es @ [Conf_refused p c d])"
  by (simp_all add: dir_inv_def)

lemma dir_inv_admit:
  assumes "dir_inv strtod kind seen es" "conf_admit seen i = (None, seen')" "length i < NP_CONF_ID_MAX"
  shows "dir_inv strtod kind seen' es" "i \<in> set seen'" "i \<notin> set (map rc_id (records es))"
  using assms by (auto simp: dir_inv_def conf_admit_def c_copy_fits split: if_splits)

lemma conf_admit_refused: "conf_admit seen i = (Some c, seen') \<Longrightarrow> seen' = seen"
  by (auto simp: conf_admit_def split: if_splits)

lemma dir_inv_record:
  assumes "dir_inv strtod kind seen es" "rc_id r \<in> set seen" "rc_id r \<notin> set (map rc_id (records es))"
    "good_rec strtod kind r"
  shows "dir_inv strtod kind seen (es @ [Conf_record r])"
  using assms by (auto simp: dir_inv_def)

lemma conf_judge_inv:
  assumes "conf_inv strtod kind st" "rc_id (st_rec st) \<noteq> []"
  shows "dir_inv strtod kind (st_seen (conf_judge strtod kind snk st)) (st_events (conf_judge strtod kind snk st))"
proof -
  let ?r = "st_rec st" and ?goal = "\<lambda>s. dir_inv strtod kind (st_seen s) (st_events s)"
  have dir: "dir_inv strtod kind (st_seen st) (st_events st)" using assms(1) by (simp add: conf_inv_def)
  have refuse: "?goal (tell (Conf_refused p c d) s)" if "?goal s" for p c d s
    using that by (simp add: dir_inv_silent)
  show ?thesis
  proof (cases "st_code st")
    case (Some c)
    then show ?thesis using refuse[of st, OF dir] by (simp add: conf_judge_def Let_def)
  next
    case None
    from assms(1) None have det: "st_detail st = None" by (simp add: conf_inv_def rec_inv_def)
    obtain code detail where schema: "conf_schema strtod ?r kind None = (code, detail)" by fastforce
    show ?thesis
    proof (cases code)
      case (Some c)
      then show ?thesis using None schema det refuse[of st, OF dir] by (simp add: conf_judge_def Let_def)
    next
      case ok: None
      obtain fs where fs: "rec_holds ?r fs" "fields_ok kind fs"
        using assms(1) by (auto simp: conf_inv_def rec_inv_def)
      then have all: "fields_from ?r 0 = fs" by (simp add: fields_holds)
      have ids: "conf_id_ok kind (rc_id ?r)" "length (rc_id ?r) < NP_CONF_ID_MAX"
        using assms None by (auto simp: conf_inv_def rec_inv_def)
      have good: "good_rec strtod kind ?r" using fs all ids schema ok by (simp add: good_rec_def)
      obtain acode seen where admit: "conf_admit (st_seen st) (rc_id ?r) = (acode, seen)" by fastforce
      show ?thesis
      proof (cases acode)
        case (Some c)
        then have "seen = st_seen st" using conf_admit_refused admit by blast
        then show ?thesis using None schema det ok admit Some refuse[of st, OF dir]
          by (simp add: conf_judge_def Let_def)
      next
        case adm: None
        note new = dir_inv_admit[OF dir admit[unfolded adm] ids(2)]
        show ?thesis
        proof (cases snk)
          case None': None
          then show ?thesis using None schema det ok admit adm new(1) by (simp add: conf_judge_def Let_def)
        next
          case (Some f)
          have given: "dir_inv strtod kind seen (st_events st @ [Conf_record ?r])"
            by (rule dir_inv_record[OF new good])
          obtain sc sd where sink: "f (st_events st) ?r detail = (sc, sd)" by fastforce
          show ?thesis
            using None schema det ok admit adm Some sink given dir_inv_silent(2)[OF given]
            by (cases sc) (simp_all add: conf_judge_def Let_def)
        qed
      qed
    qed
  qed
qed

lemma conf_emit_inv:
  assumes "conf_inv strtod kind st"
  shows "dir_inv strtod kind (st_seen (conf_emit strtod kind snk st)) (st_events (conf_emit strtod kind snk st))"
    "st_rec (conf_emit strtod kind snk st) = empty_rec"
  using assms conf_judge_inv[OF assms, of snk] by (simp_all add: conf_emit_def conf_inv_def)

lemma conf_header_inv:
  assumes "conf_inv strtod kind st"
  shows "conf_inv strtod kind (conf_header strtod kind snk shown name st)"
proof -
  define st1 where "st1 = (conf_emit strtod kind snk st)\<lparr>st_code := None, st_detail := None, st_header := True\<rparr>"
  define k where "k = trim_end (skip_spaces name)"
  have d: "dir_inv strtod kind (st_seen st1) (st_events st1)" and r: "st_rec st1 = empty_rec"
    and c: "st_code st1 = None" "st_detail st1 = None"
    using conf_emit_inv[OF assms, of snk] by (simp_all add: st1_def)
  have inv1: "conf_inv strtod kind st1"
    using d rec_inv_empty[of kind st1] r c by (simp add: conf_inv_def rec_inv_def)
  define st2 where "st2 = st1\<lparr>st_rec := (st_rec st1)\<lparr>rc_id := c_copy NP_CONF_ID_MAX k\<rparr>\<rparr>"
  have holds: "\<exists>fs. rec_holds (st_rec st2) fs \<and> fields_ok kind fs"
    using inv1 by (simp add: st2_def conf_inv_def rec_inv_def)
  have st2: "st_seen st2 = st_seen st1" "st_events st2 = st_events st1" "st_code st2 = None" "st_detail st2 = None"
    "rc_id (st_rec st2) = c_copy NP_CONF_ID_MAX k"
    using c by (simp_all add: st2_def)
  have eq: "conf_header strtod kind snk shown name st =
    (if k = [] then tell (Conf_refused shown NP_CONF_BAD_ID None) st1
     else if length k \<ge> NP_CONF_ID_MAX \<or> \<not> conf_id_ok kind (rc_id (st_rec st2))
     then st2\<lparr>st_code := Some NP_CONF_BAD_ID\<rparr> else st2)"
    by (simp add: conf_header_def Let_def st1_def[symmetric] k_def[symmetric] st2_def)
  have "conf_inv strtod kind (tell (Conf_refused shown NP_CONF_BAD_ID None) st1)"
    using inv1 by (simp add: conf_inv_def rec_inv_def dir_inv_silent)
  moreover have "conf_inv strtod kind (st2\<lparr>st_code := Some NP_CONF_BAD_ID\<rparr>)"
    using holds d by (simp add: conf_inv_def rec_inv_def st2)
  moreover have "conf_inv strtod kind st2" if "length k < NP_CONF_ID_MAX" "conf_id_ok kind (rc_id (st_rec st2))"
    using holds d that by (simp add: conf_inv_def rec_inv_def st2 c_copy_fits)
  ultimately show ?thesis unfolding eq by auto
qed

lemma conf_spec_name: "conf_spec kind k = Some sp \<Longrightarrow> sp_name sp = k"
  by (auto simp: conf_spec_def find_Some_iff)

lemma conf_field_inv:
  assumes "conf_inv strtod kind st" "st_code st = None" "c_string k" "c_string v"
  shows "conf_inv strtod kind (conf_field kind k v st)"
proof -
  obtain fs where fs: "rec_holds (st_rec st) fs" "fields_ok kind fs"
    using assms(1) by (auto simp: conf_inv_def rec_inv_def)
  have refuse: "conf_inv strtod kind (refuse_field c d st)" for c d
    using assms(1) by (auto simp: conf_inv_def rec_inv_def refuse_field_def)
  show ?thesis
  proof (cases "conf_spec kind k")
    case None
    then show ?thesis using refuse by (simp add: conf_field_def)
  next
    case (Some sp)
    note name = conf_spec_name[OF Some]
    let ?fs = "fs @ [(k, v)]"
    have "conf_inv strtod kind (st\<lparr>st_rec := rec_add k v (st_rec st)\<rparr>)"
      if ok: "v \<noteq> []" "9 \<notin> set v" "np_conf_count (st_rec st) k < sp_most sp"
        "rc_kvlen (st_rec st) + length k + length v + 2 \<le> NP_CONF_REC_BUF"
    proof -
      have len: "length (enc_fields ?fs) \<le> NP_CONF_REC_BUF"
        using fs(1) ok(4) by (simp add: enc_fields_def rec_holds_def)
      have cnt: "length (filter (\<lambda>(n, _). n = k) fs) < sp_most sp"
        using conf_count_holds[OF fs(1), of k] ok(3) by (simp add: case_prod_beta)
      have "fields_ok kind ?fs"
        using fs(2) ok(1,2) Some cnt len
        unfolding fields_ok_def list_all_iff by (fastforce split: option.splits)
      then show ?thesis
        using assms(1,2) rec_holds_add[OF fs(1) assms(3,4)]
        by (auto simp: conf_inv_def rec_inv_def rec_add_def)
    qed
    then show ?thesis
      using refuse Some unfolding conf_field_def by (simp add: name not_le not_less)
  qed
qed

lemma line_string: "c_string (takeWhile (\<lambda>c. c \<noteq> 0 \<and> c \<noteq> 10) raw)"
  by (auto simp: c_string_def dest: set_takeWhileD)

lemma conf_line_inv:
  assumes "conf_inv strtod kind st"
  shows "case conf_line strtod kind snk shown raw st of
    Inl st' \<Rightarrow> dir_inv strtod kind (st_seen st') (st_events st') | Inr st' \<Rightarrow> conf_inv strtod kind st'"
proof -
  let ?k = "skip_spaces (takeWhile (\<lambda>c. c \<noteq> 0 \<and> c \<noteq> 10) raw)"
  have k: "c_string ?k" using line_string by blast
  have dir: "dir_inv strtod kind (st_seen st) (st_events st)" using assms by (simp add: conf_inv_def)
  have "c_string (trim_end a)" "c_string (trim_end (skip_spaces b))" if "str_split 61 ?k = Some (a, b)" for a b
    using str_split_some(1)[OF that] k by (auto simp: c_string_def)
      (use trim_string in \<open>auto simp: c_string_def\<close>)
  then show ?thesis
    using assms dir_inv_silent(2)[OF dir] conf_field_inv[OF assms] conf_header_inv[OF assms]
    by (auto simp: conf_line_def Let_def split: list.splits option.splits)
qed

lemma conf_lines_inv:
  "conf_inv strtod kind st \<Longrightarrow> dir_inv strtod kind (st_seen (conf_lines strtod kind snk shown raws st))
     (st_events (conf_lines strtod kind snk shown raws st))"
proof (induction raws arbitrary: st)
  case (Cons raw raws)
  then show ?case using conf_line_inv[OF Cons.prems, of snk shown raw] by (auto split: sum.splits)
qed (simp add: conf_emit_inv)

lemma conf_read_file_inv:
  assumes "dir_inv strtod kind seen es"
  shows "case conf_read_file strtod kind snk shown content (seen, es) of (seen', es') \<Rightarrow> dir_inv strtod kind seen' es'"
proof -
  have "conf_inv strtod kind \<lparr>st_rec = empty_rec, st_code = None, st_detail = None, st_header = False, st_seen = seen,
      st_events = es @ [Conf_file shown]\<rparr>"
    using assms rec_holds_empty fields_ok_Nil
    by (auto simp: conf_inv_def rec_inv_def dir_inv_silent empty_rec_def)
  then show ?thesis
    using assms conf_lines_inv by (auto simp: conf_read_file_def Let_def dir_inv_silent split: option.split list.split)
qed

lemma read_files_inv:
  "dir_inv strtod kind (fst s) (snd s) \<Longrightarrow>
     dir_inv strtod kind (fst (fold (\<lambda>n. conf_read_file strtod kind snk (shown n) (content n)) names s))
       (snd (fold (\<lambda>n. conf_read_file strtod kind snk (shown n) (content n)) names s))"
proof (induction names arbitrary: s)
  case (Cons n names)
  then show ?case
    using conf_read_file_inv[of strtod kind "fst s" "snd s" snk "shown n" "content n"]
    by (simp add: case_prod_beta)
qed simp

lemma dir_inv_empty: "dir_inv strtod kind [] []"
  by (simp add: dir_inv_def)

lemma read_dir_inv:
  "\<exists>seen. dir_inv strtod kind seen (np_conf_read_dir strtod read entries dir shown_dir kind snk)"
proof (cases entries)
  case None
  then show ?thesis using dir_inv_empty by (auto simp: np_conf_read_dir_def)
next
  case (Some names)
  show ?thesis
    unfolding np_conf_read_dir_def Some option.case Let_def
    by (rule exI, rule read_files_inv) (simp add: dir_inv_empty)
qed

section \<open>Properties\<close>

text \<open>Whatever the files of a directory hold, every record the sink is given is well formed (its id and
  its fields are the grammar's, no field is empty or given too often, it fits its buffer and it passes
  the schema), no id is given twice, and there are at most 32 of them.\<close>

theorem conf_records_wf:
  "list_all (good_rec strtod kind) (records (np_conf_read_dir strtod read entries dir shown_dir kind snk)) \<and>
   distinct (map rc_id (records (np_conf_read_dir strtod read entries dir shown_dir kind snk))) \<and>
   length (records (np_conf_read_dir strtod read entries dir shown_dir kind snk)) \<le> NP_CONF_RECORDS_MAX"
proof -
  let ?es = "np_conf_read_dir strtod read entries dir shown_dir kind snk"
  obtain seen where inv: "dir_inv strtod kind seen ?es" using read_dir_inv by blast
  then have "distinct (map rc_id (records ?es))" "set (map rc_id (records ?es)) \<subseteq> set seen" "distinct seen"
    and len: "length seen \<le> NP_CONF_RECORDS_MAX" by (auto simp: dir_inv_def)
  then have "card (set (map rc_id (records ?es))) \<le> card (set seen)" by (intro card_mono) auto
  with \<open>distinct (map rc_id (records ?es))\<close> have "length (map rc_id (records ?es)) \<le> length seen"
    using \<open>distinct seen\<close> by (simp only: distinct_card)
  then show ?thesis using inv len by (simp add: dir_inv_def)
qed

text \<open>The fields of one record as a list. A field is refused, with a code and a detail, by the schema, for
  its value, for the fields of its name that are already there, or for the room that is left; the first
  one refused ends the list.\<close>

definition field_refusal :: "np_conf_kind \<Rightarrow> (cstring \<times> cstring) list \<Rightarrow> cstring \<Rightarrow> cstring \<Rightarrow> refusal" where
  "field_refusal kind fs k v = (case conf_spec kind k of
     None \<Rightarrow> (Some NP_CONF_UNKNOWN, if take 63 k = [] then None else Some (take 63 k))
   | Some sp \<Rightarrow>
       if v = [] then (Some NP_CONF_EMPTY, Some k)
       else if 9 \<in> set v then (Some NP_CONF_TAB, Some k)
       else if length (filter (\<lambda>(n, _). n = k) fs) = sp_most sp
       then (Some (if sp_most sp = 1 then NP_CONF_DUP_FIELD else NP_CONF_LIMIT), Some k)
       else if length (enc_fields (fs @ [(k, v)])) > NP_CONF_REC_BUF then (Some NP_CONF_LIMIT, Some k)
       else (None, None))"

fun taken_fields ::
  "np_conf_kind \<Rightarrow> (cstring \<times> cstring) list \<Rightarrow> (cstring \<times> cstring) list \<Rightarrow> (cstring \<times> cstring) list \<times> refusal" where
  "taken_fields kind fs [] = (fs, None, None)"
| "taken_fields kind fs ((k, v) # kvs) = (case field_refusal kind fs k v of
     (None, _) \<Rightarrow> taken_fields kind (fs @ [(k, v)]) kvs | refused \<Rightarrow> (fs, refused))"

lemma conf_spec_most: "conf_spec kind k = Some sp \<Longrightarrow> 0 < sp_most sp"
proof -
  have "list_all (\<lambda>s. 0 < sp_most s) (conf_table kind)"
    by (cases kind) (simp_all add: conf_table_def kPlugin_def kVariant_def spec_def)
  then show "conf_spec kind k = Some sp \<Longrightarrow> 0 < sp_most sp"
    unfolding conf_spec_def find_Some_iff list_all_iff by (metis nth_mem)
qed

lemma fields_ok_count:
  assumes "fields_ok kind fs" "conf_spec kind k = Some sp"
  shows "length (filter (\<lambda>(n, _). n = k) fs) \<le> sp_most sp"
proof (cases "\<exists>v. (k, v) \<in> set fs")
  case True
  then show ?thesis using assms by (auto simp: fields_ok_def list_all_iff)
next
  case False
  then have "filter (\<lambda>(n, _). n = k) fs = []" by (auto simp: filter_empty_conv)
  then show ?thesis by simp
qed

lemma conf_field_refines:
  assumes "rec_holds (st_rec st) fs" "fields_ok kind fs" "c_string k" "c_string v"
  shows "conf_field kind k v st = (case field_refusal kind fs k v of
    (Some code, detail) \<Rightarrow> refuse_field code detail st
  | (None, _) \<Rightarrow> st\<lparr>st_rec := rec_add k v (st_rec st)\<rparr>)"
proof (cases "conf_spec kind k")
  case None
  then show ?thesis by (simp add: conf_field_def field_refusal_def c_copy_def)
next
  case (Some sp)
  have count: "np_conf_count (st_rec st) k = length (filter (\<lambda>(n, _). n = k) fs)"
    using conf_count_holds[OF assms(1), of k] by simp
  have full: "length (filter (\<lambda>(n, _). n = k) fs) \<ge> sp_most sp \<longleftrightarrow> length (filter (\<lambda>(n, _). n = k) fs) = sp_most sp"
    using fields_ok_count[OF assms(2) Some] by auto
  have room: "rc_kvlen (st_rec st) + length k + length v + 2 = length (enc_fields (fs @ [(k, v)]))"
    using assms(1) by (simp add: enc_fields_def rec_holds_def)
  show ?thesis
    using Some by (simp add: conf_field_def field_refusal_def conf_spec_name[OF Some] count full room[symmetric])
qed

lemma field_taken_ok:
  assumes "fields_ok kind fs" "field_refusal kind fs k v = (None, d)"
  shows "fields_ok kind (fs @ [(k, v)])"
proof -
  obtain sp where sp: "conf_spec kind k = Some sp" "v \<noteq> []" "9 \<notin> set v"
    "length (filter (\<lambda>(n, _). n = k) fs) \<noteq> sp_most sp" "length (enc_fields (fs @ [(k, v)])) \<le> NP_CONF_REC_BUF"
    using assms(2) by (auto simp: field_refusal_def split: option.splits if_splits)
  moreover from this have "length (filter (\<lambda>(n, _). n = k) fs) < sp_most sp"
    using fields_ok_count[OF assms(1)] by (meson le_neq_implies_less)
  ultimately show ?thesis
    using assms(1) unfolding fields_ok_def list_all_iff by (fastforce split: option.splits)
qed

text \<open>The fields of a record given to the reader one after the other, as its loop gives them.\<close>

fun read_fields :: "np_conf_kind \<Rightarrow> (cstring \<times> cstring) list \<Rightarrow> conf_state \<Rightarrow> conf_state" where
  "read_fields kind [] st = st"
| "read_fields kind ((k, v) # kvs) st =
     read_fields kind kvs (if st_code st \<noteq> None then st else conf_field kind k v st)"

lemma read_fields_refused: "st_code st \<noteq> None \<Longrightarrow> read_fields kind kvs st = st"
  by (induction kind kvs st rule: read_fields.induct) auto

lemma read_fields_taken:
  assumes "rec_holds (st_rec st) fs" "fields_ok kind fs" "st_code st = None" "st_detail st = None"
    and "list_all (\<lambda>(n, v). c_string n \<and> c_string v) kvs" "taken_fields kind fs kvs = (fs', refused)"
  shows "(st_code (read_fields kind kvs st), st_detail (read_fields kind kvs st)) = refused \<and>
    rec_holds (st_rec (read_fields kind kvs st)) fs' \<and> fields_ok kind fs' \<and>
    rc_id (st_rec (read_fields kind kvs st)) = rc_id (st_rec st)"
  using assms
proof (induction kind kvs st arbitrary: fs rule: read_fields.induct)
  case (2 kind k v kvs st)
  have cs: "c_string k" "c_string v" using "2.prems"(5) by auto
  note step = conf_field_refines[OF "2.prems"(1,2) cs]
  show ?case
  proof (cases "field_refusal kind fs k v")
    case (Pair code detail)
    show ?thesis
    proof (cases code)
      case None
      then show ?thesis
        using "2.IH"[of "fs @ [(k, v)]"] "2.prems" step Pair rec_holds_add[OF "2.prems"(1) cs]
          field_taken_ok[OF "2.prems"(2), of k v detail]
        by (simp add: rec_add_def)
    next
      case (Some c)
      then have r: "field_refusal kind fs k v = (Some c, detail)" using Pair by simp
      then have "fs' = fs" "refused = (Some c, detail)" using "2.prems"(6) by simp_all
      then show ?thesis
        using "2.prems"(1-3) step unfolding r by (simp add: refuse_field_def read_fields_refused)
    qed
  qed
qed auto

text \<open>C5. The record buffer refines the list of the fields taken. Fields given to a record in any order
  are taken up to the first that is refused, with exactly the code and detail the list calls for: a name
  that is not in the schema, an empty value or one with a tab, one more of a name than the schema allows
  (a second one where it allows one), or no room left. The taken fields are read back, looked up (the
  first of a name) and counted as from that list; there are at most as many of a name as the schema
  allows, and the bytes in use stay within the buffer.\<close>

theorem conf_buffer_refines:
  assumes "list_all (\<lambda>(n, v). c_string n \<and> c_string v) kvs" "taken_fields kind [] kvs = (fs, refused)"
    and "st_rec st = empty_rec\<lparr>rc_id := i\<rparr>" "st_code st = None" "st_detail st = None"
    and "st' = read_fields kind kvs st"
  shows "(st_code st', st_detail st') = refused \<and> fields_from (st_rec st') 0 = fs \<and>
    np_conf_get (st_rec st') name = map_of fs name \<and>
    np_conf_count (st_rec st') name = length (filter (\<lambda>(n, v). n = name) fs) \<and>
    fields_ok kind fs \<and> rc_kv (st_rec st') = enc_fields fs \<and>
    rc_kvlen (st_rec st') = length (rc_kv (st_rec st')) \<and> rc_kvlen (st_rec st') \<le> NP_CONF_REC_BUF \<and>
    rc_id (st_rec st') = i"
proof -
  have "rec_holds (st_rec st) []" using rec_holds_empty assms(3) by simp
  from read_fields_taken[OF this fields_ok_Nil assms(4,5,1,2)] assms(3,6)
  have h: "rec_holds (st_rec st') fs" "fields_ok kind fs" "(st_code st', st_detail st') = refused"
    "rc_id (st_rec st') = i" by auto
  then show ?thesis
    using fields_holds[OF h(1), of 0] conf_get_holds[OF h(1)] conf_count_holds[OF h(1)]
    by (simp add: rec_holds_def fields_ok_def)
qed

text \<open>A second source is refused, and nothing after it is taken.\<close>

theorem conf_buffer_refines_witness:
  "let st' = read_fields NP_CONF_VARIANT
       [(cstr ''src'', cstr ''a''), (cstr ''src'', cstr ''b''), (cstr ''dst'', cstr ''c'')]
       \<lparr>st_rec = empty_rec, st_code = None, st_detail = None, st_header = True, st_seen = [], st_events = []\<rparr>
   in st_code st' = Some NP_CONF_DUP_FIELD \<and> np_conf_get (st_rec st') (cstr ''src'') = Some (cstr ''a'') \<and>
      np_conf_get (st_rec st') (cstr ''dst'') = None"
proof -
  let ?kvs = "[(cstr ''src'', cstr ''a''), (cstr ''src'', cstr ''b''), (cstr ''dst'', cstr ''c'')]"
  let ?st = "\<lparr>st_rec = empty_rec, st_code = None, st_detail = None, st_header = True, st_seen = [], st_events = []\<rparr>"
  have taken: "taken_fields NP_CONF_VARIANT [] ?kvs =
      ([(cstr ''src'', cstr ''a'')], Some NP_CONF_DUP_FIELD, Some (cstr ''src''))"
    by (simp add: field_refusal_def conf_spec_def conf_table_def kVariant_def spec_def cstr_def
        enc_fields_def NP_CONF_REC_BUF_def)
  have strings: "list_all (\<lambda>(n, v). c_string n \<and> c_string v) ?kvs" by (simp add: cstr_def c_string_def)
  have st: "st_rec ?st = empty_rec\<lparr>rc_id := []\<rparr>" "st_code ?st = None" "st_detail ?st = None"
    by (simp_all add: empty_rec_def)
  from conf_buffer_refines[OF strings taken st refl, of "cstr ''src''"]
    conf_buffer_refines[OF strings taken st refl, of "cstr ''dst''"]
  show ?thesis by (simp add: Let_def cstr_def)
qed

section \<open>Written records\<close>

text \<open>A record as a descriptor file has it, line by line, and the record it stands for.\<close>

definition rec_lines :: "cstring \<times> (cstring \<times> cstring) list \<Rightarrow> u8 list list" where
  "rec_lines r = (case r of (i, fs) \<Rightarrow> ([91] @ i @ [93, 10]) # map (\<lambda>(n, v). n @ [61] @ v @ [10]) fs)"

definition rec_value :: "cstring \<times> (cstring \<times> cstring) list \<Rightarrow> np_conf_rec" where
  "rec_value r = (case r of (i, fs) \<Rightarrow> (fold (\<lambda>(n, v). rec_add n v) fs empty_rec)\<lparr>rc_id := i\<rparr>)"

definition value_ok :: "cstring \<Rightarrow> bool" where
  "value_ok v \<longleftrightarrow> trim_end (skip_spaces v) = v \<and> 0 \<notin> set v \<and> 10 \<notin> set v \<and> length v < 2000"

definition written_ok :: "(cstring \<Rightarrow> real option) \<Rightarrow> np_conf_kind \<Rightarrow> cstring \<times> (cstring \<times> cstring) list \<Rightarrow> bool" where
  "written_ok strtod kind r = (case r of (i, fs) \<Rightarrow>
     conf_id_ok kind i \<and> length i < NP_CONF_ID_MAX \<and> fields_ok kind fs \<and> list_all (\<lambda>(n, v). value_ok v) fs \<and>
     fst (conf_schema strtod (rec_value r) kind None) = None)"

definition plain_name :: "cstring \<Rightarrow> bool" where
  "plain_name n \<longleftrightarrow> n \<noteq> [] \<and> length n < 40 \<and> list_all (\<lambda>c. c_lower c \<or> c = 95) n"

lemma conf_table_plain: "list_all (\<lambda>s. plain_name (sp_name s)) (conf_table kind)"
  by (cases kind)
    (simp_all add: conf_table_def kPlugin_def kVariant_def spec_def cstr_def plain_name_def c_lower_def)

lemma conf_spec_plain: "conf_spec kind n = Some sp \<Longrightarrow> plain_name n"
  using conf_table_plain[of kind] unfolding conf_spec_def find_Some_iff list_all_iff by (metis nth_mem)

text \<open>Neither names nor ids hold characters with a meaning in a line.\<close>

lemma plain_char:
  assumes "c_lower c \<or> c_upper c \<or> c_digit c \<or> c = 46 \<or> c = 95 \<or> c = 45"
  shows "c \<noteq> 0 \<and> c \<noteq> 10 \<and> c \<noteq> 61 \<and> c \<noteq> 35 \<and> c \<noteq> 91 \<and> c \<noteq> 93 \<and> \<not> c_space c"
  using assms by (auto simp: c_class_defs word_le_nat_alt)

lemma dropWhile_hd: "s \<noteq> [] \<Longrightarrow> \<not> P (hd s) \<Longrightarrow> dropWhile P s = s"
  by (cases s) auto

lemma trim_plain:
  assumes "\<forall>c \<in> set s. \<not> c_space c"
  shows "skip_spaces s = s" "trim_end s = s"
  using assms dropWhile_hd[of s c_space] dropWhile_hd[of "rev s" c_space]
  by (cases "s = []"; simp add: skip_spaces_def trim_end_def hd_rev)+

lemma plain_name_chars:
  assumes "plain_name n"
  shows "\<forall>c \<in> set n. c \<noteq> 0 \<and> c \<noteq> 10 \<and> c \<noteq> 61 \<and> c \<noteq> 35 \<and> c \<noteq> 91 \<and> c \<noteq> 93 \<and> \<not> c_space c"
  using assms plain_char by (auto simp: plain_name_def list_all_iff)

lemma id_chars:
  assumes "conf_id_ok kind i"
  shows "\<forall>c \<in> set i. c \<noteq> 0 \<and> c \<noteq> 10 \<and> c \<noteq> 61 \<and> c \<noteq> 35 \<and> c \<noteq> 91 \<and> c \<noteq> 93 \<and> \<not> c_space c" "i \<noteq> []"
proof -
  have np: "\<forall>c \<in> set (cstr ''NOTPROTON_''). c_upper c \<or> c = 95" "length (cstr ''NOTPROTON_'') = 10"
    by (simp_all add: cstr_def c_upper_def)
  show "i \<noteq> []" using assms by (auto simp: conf_id_ok_def has_prefix_def split: if_splits)
  show "\<forall>c \<in> set i. c \<noteq> 0 \<and> c \<noteq> 10 \<and> c \<noteq> 61 \<and> c \<noteq> 35 \<and> c \<noteq> 91 \<and> c \<noteq> 93 \<and> \<not> c_space c"
  proof (cases kind)
    case NP_CONF_PLUGIN
    then have "take 10 i = cstr ''NOTPROTON_''" "list_all id_char (drop 10 i)"
      using assms np(2) by (auto simp: conf_id_ok_def has_prefix_def split: if_splits)
    then have "i = cstr ''NOTPROTON_'' @ drop 10 i" "\<forall>c \<in> set (drop 10 i). id_char c"
      using append_take_drop_id[of 10 i] by (simp_all add: list_all_iff)
    then have "\<forall>c \<in> set i. c_upper c \<or> c_digit c \<or> c = 95"
      using np(1) unfolding id_char_def by (metis Un_iff set_append)
    then show ?thesis using plain_char by blast
  next
    case NP_CONF_VARIANT
    then have "\<forall>c \<in> set i. name_char c" using assms by (auto simp: conf_id_ok_def list_all_iff split: if_splits)
    then show ?thesis using plain_char unfolding name_char_def by blast
  qed
qed

lemma field_line:
  assumes "conf_spec kind n = Some sp" "value_ok v" "st_header st" "st_code st = None"
  shows "conf_line strtod kind snk shown (n @ [61] @ v @ [10]) st = Inr (conf_field kind n v st)"
proof -
  note pn = conf_spec_plain[OF assms(1)] plain_name_chars[OF conf_spec_plain[OF assms(1)]]
  obtain c r where n: "n = c # r" using pn(1) by (cases n) (auto simp: plain_name_def)
  have c: "\<not> c_space c" "c \<noteq> 35" "c \<noteq> 91" using pn(2) n by auto
  have line: "takeWhile (\<lambda>c. c \<noteq> 0 \<and> c \<noteq> 10) (n @ [61] @ v @ [10]) = n @ 61 # v"
    using pn(2) assms(2) by (subst takeWhile_append2) (auto simp: value_ok_def takeWhile_append)
  have len: "length (n @ 61 # v) < NP_CONF_LINE"
    using pn(1) assms(2) by (simp add: plain_name_def value_ok_def NP_CONF_LINE_def)
  have k: "skip_spaces (n @ 61 # v) = n @ 61 # v" using n c by (simp add: skip_spaces_def)
  have split: "str_split 61 (n @ 61 # v) = Some (n, v)" using pn(2) by (intro str_split_append) auto
  have trims: "trim_end n = n" "trim_end (skip_spaces v) = v"
    using trim_plain[of n] pn(2) assms(2) by (auto simp: value_ok_def)
  show ?thesis
    unfolding conf_line_def line Let_def k split using len n c assms(3,4) trims(2) trims(1)[unfolded n] by simp
qed

lemma header_line:
  assumes "conf_id_ok kind i" "length i < NP_CONF_ID_MAX"
  shows "conf_line strtod kind snk shown ([91] @ i @ [93, 10]) st = Inr (conf_header strtod kind snk shown i st)"
proof -
  note ic = id_chars[OF assms(1)]
  have line: "takeWhile (\<lambda>c. c \<noteq> 0 \<and> c \<noteq> 10) ([91] @ i @ [93, 10]) = 91 # i @ [93]"
    using ic(1) by (simp add: takeWhile_append)
  have k: "skip_spaces (91 # i @ [93]) = 91 # i @ [93]" by (simp add: skip_spaces_def c_space_def)
  have split: "str_rsplit 93 (91 # i @ [93]) = Some (91 # i, [])"
    by (simp add: str_rsplit_def str_split_def)
  show ?thesis
    unfolding conf_line_def line Let_def k split using assms(2) by (simp add: NP_CONF_LINE_def NP_CONF_ID_MAX_def)
qed

text \<open>Reading the fields of a record one after the other.\<close>

lemma fields_ok_prefix_add:
  assumes "fields_ok kind (gs @ (n, v) # fs)" "rec_holds rec gs" "rec = st_rec st"
  shows "conf_field kind n v st = st\<lparr>st_rec := rec_add n v rec\<rparr>"
proof -
  from assms(1) obtain sp where sp: "conf_spec kind n = Some sp" and v: "v \<noteq> []" "9 \<notin> set v"
    and cnt: "length (filter (\<lambda>(k, _). k = n) (gs @ (n, v) # fs)) \<le> sp_most sp"
    and len: "length (enc_fields (gs @ (n, v) # fs)) \<le> NP_CONF_REC_BUF"
    by (auto simp: fields_ok_def split: option.splits)
  have "np_conf_count rec n < sp_most sp"
    using conf_count_holds[OF assms(2), of n] cnt by simp
  moreover have "rc_kvlen rec + length n + length v + 2 \<le> NP_CONF_REC_BUF"
    using len assms(2) by (simp add: enc_fields_def rec_holds_def)
  ultimately show ?thesis
    using sp v conf_spec_name[OF sp] assms(3) by (simp add: conf_field_def)
qed

lemma fields_lines:
  assumes "fields_ok kind (gs @ fs)" "list_all (\<lambda>(n, v). value_ok v) fs" "rec_holds (st_rec st) gs"
    and "st_header st" "st_code st = None"
  shows "conf_lines strtod kind snk shown (map (\<lambda>(n, v). n @ [61] @ v @ [10]) fs @ rest) st =
    conf_lines strtod kind snk shown rest (st\<lparr>st_rec := fold (\<lambda>(n, v). rec_add n v) fs (st_rec st)\<rparr>)"
  using assms
proof (induction fs arbitrary: gs st)
  case (Cons f fs)
  obtain n v where f: "f = (n, v)" by fastforce
  from Cons.prems(1) f obtain sp where sp: "conf_spec kind n = Some sp"
    by (auto simp: fields_ok_def split: option.splits)
  have v: "value_ok v" using Cons.prems(2) f by simp
  have cs: "c_string n" "c_string v"
    using plain_name_chars[OF conf_spec_plain[OF sp]] v by (auto simp: c_string_def value_ok_def)
  have add: "conf_field kind n v st = st\<lparr>st_rec := rec_add n v (st_rec st)\<rparr>"
    using fields_ok_prefix_add[of kind gs n v fs "st_rec st" st] Cons.prems(1,3) f by simp
  have "rec_holds (rec_add n v (st_rec st)) (gs @ [f])" using rec_holds_add[OF Cons.prems(3) cs] f by simp
  from Cons.IH[of "gs @ [f]" "st\<lparr>st_rec := rec_add n v (st_rec st)\<rparr>"] this Cons.prems f add
  show ?case
    using field_line[OF sp v Cons.prems(4,5), of strtod snk shown] by simp
qed simp

text \<open>A sink that takes every record, and the state between two records.\<close>

definition take_all :: sink where
  "take_all = Some (\<lambda>_ _ detail. (None, detail))"

definition between :: "conf_state \<Rightarrow> bool" where
  "between st \<longleftrightarrow> st_code st = None \<and> st_detail st = None"

definition emits :: "(cstring \<Rightarrow> real option) \<Rightarrow> np_conf_kind \<Rightarrow> conf_state \<Rightarrow> bool" where
  "emits strtod kind st \<longleftrightarrow> rc_id (st_rec st) = [] \<or>
     fst (conf_schema strtod (st_rec st) kind None) = None \<and> rc_id (st_rec st) \<notin> set (st_seen st) \<and>
     length (st_seen st) < NP_CONF_RECORDS_MAX \<and> length (rc_id (st_rec st)) < NP_CONF_ID_MAX"

lemma emit_taken:
  assumes "between st" "emits strtod kind st"
  shows "st_events (conf_emit strtod kind take_all st) =
      st_events st @ (if rc_id (st_rec st) = [] then [] else [Conf_record (st_rec st)])"
    "st_seen (conf_emit strtod kind take_all st) =
      st_seen st @ (if rc_id (st_rec st) = [] then [] else [rc_id (st_rec st)])"
proof -
  obtain d where d: "conf_schema strtod (st_rec st) kind None = (None, d)"
    if "rc_id (st_rec st) \<noteq> []"
    using assms(2) unfolding emits_def by (metis prod.collapse)
  have "conf_judge strtod kind take_all st =
      tell (Conf_record (st_rec st)) (st\<lparr>st_seen := st_seen st @ [rc_id (st_rec st)]\<rparr>)" if "rc_id (st_rec st) \<noteq> []"
    using assms d[OF that] that
    by (simp add: conf_judge_def between_def emits_def conf_admit_def take_all_def c_copy_fits Let_def tell_def)
  then show "st_events (conf_emit strtod kind take_all st) =
      st_events st @ (if rc_id (st_rec st) = [] then [] else [Conf_record (st_rec st)])"
    "st_seen (conf_emit strtod kind take_all st) =
      st_seen st @ (if rc_id (st_rec st) = [] then [] else [rc_id (st_rec st)])"
    by (simp_all add: conf_emit_def)
qed

lemma header_next:
  assumes "conf_id_ok kind i" "length i < NP_CONF_ID_MAX" "st' = conf_header strtod kind take_all shown i st"
  shows "st_rec st' = empty_rec\<lparr>rc_id := i\<rparr>" "between st'" "st_header st'"
    "st_events st' = st_events (conf_emit strtod kind take_all st)"
    "st_seen st' = st_seen (conf_emit strtod kind take_all st)"
proof -
  have i: "trim_end (skip_spaces i) = i" "i \<noteq> []" using id_chars[OF assms(1)] trim_plain[of i] by auto
  have e: "st_rec (conf_emit strtod kind take_all st) = empty_rec" by (simp add: conf_emit_def)
  show "st_rec st' = empty_rec\<lparr>rc_id := i\<rparr>" "between st'" "st_header st'"
    "st_events st' = st_events (conf_emit strtod kind take_all st)"
    "st_seen st' = st_seen (conf_emit strtod kind take_all st)"
    using assms(1,2) i e unfolding assms(3) by (simp_all add: conf_header_def Let_def c_copy_fits between_def)
qed

lemma rec_value_id [simp]: "rc_id (rec_value (i, fs)) = i"
  by (simp add: rec_value_def)

lemma fold_rec_add_id: "fold (\<lambda>(n, v). rec_add n v) fs (rec\<lparr>rc_id := i\<rparr>) = (fold (\<lambda>(n, v). rec_add n v) fs rec)\<lparr>rc_id := i\<rparr>"
proof (induction fs arbitrary: rec)
  case (Cons f fs)
  have "rec_add n v (rec\<lparr>rc_id := i\<rparr>) = (rec_add n v rec)\<lparr>rc_id := i\<rparr>" for n v
    by (simp add: rec_add_def)
  then show ?case using Cons by (simp add: case_prod_beta)
qed simp

lemma records_lines:
  assumes "list_all (written_ok strtod kind) rs" "distinct (map fst rs)" "set (map fst rs) \<inter> set (st_seen st) = {}"
    and "between st" "emits strtod kind st" "rc_id (st_rec st) \<notin> set (map fst rs)"
    and "length (st_seen st) + 1 + length rs \<le> NP_CONF_RECORDS_MAX + (if rc_id (st_rec st) = [] then 1 else 0)"
  shows "st_events (conf_lines strtod kind take_all shown (concat (map rec_lines rs)) st) =
    st_events st @ (if rc_id (st_rec st) = [] then [] else [Conf_record (st_rec st)]) @ map (\<lambda>r. Conf_record (rec_value r)) rs"
  using assms
proof (induction rs arbitrary: st)
  case Nil
  then show ?case by (simp add: emit_taken)
next
  case (Cons r rs)
  obtain i fs where r: "r = (i, fs)" by fastforce
  have w: "conf_id_ok kind i" "length i < NP_CONF_ID_MAX" "fields_ok kind fs" "list_all (\<lambda>(n, v). value_ok v) fs"
    "fst (conf_schema strtod (rec_value r) kind None) = None"
    using Cons.prems(1) r by (simp_all add: written_ok_def)
  define st1 where "st1 = conf_header strtod kind take_all shown i st"
  note h = header_next[OF w(1,2) st1_def]
  define st2 where "st2 = st1\<lparr>st_rec := rec_value r\<rparr>"
  have fold: "fold (\<lambda>(n, v). rec_add n v) fs (st_rec st1) = rec_value r"
    by (simp add: h(1) fold_rec_add_id r rec_value_def)
  have "conf_lines strtod kind take_all shown (concat (map rec_lines (r # rs))) st =
      conf_lines strtod kind take_all shown (map (\<lambda>(n, v). n @ [61] @ v @ [10]) fs @ concat (map rec_lines rs)) st1"
    using header_line[OF w(1,2), of strtod take_all shown st] by (simp add: r rec_lines_def st1_def)
  also have "\<dots> = conf_lines strtod kind take_all shown (concat (map rec_lines rs)) st2"
    using fields_lines[of kind "[]" fs st1 strtod take_all shown] w(3,4) h fold
    by (simp add: rec_holds_empty between_def st2_def)
  finally have step: "conf_lines strtod kind take_all shown (concat (map rec_lines (r # rs))) st =
    conf_lines strtod kind take_all shown (concat (map rec_lines rs)) st2" .
  have ne: "i \<noteq> []" using id_chars(2)[OF w(1)] .
  have s2: "st_rec st2 = rec_value r" "st_seen st2 = st_seen st @ (if rc_id (st_rec st) = [] then [] else [rc_id (st_rec st)])"
    "st_events st2 = st_events st @ (if rc_id (st_rec st) = [] then [] else [Conf_record (st_rec st)])" "between st2"
    using h emit_taken[OF Cons.prems(4,5)] by (simp_all add: st2_def between_def)
  have "emits strtod kind st2"
    using w(2,5) Cons.prems(3,6,7) by (auto simp: emits_def s2 r)
  moreover have "set (map fst rs) \<inter> set (st_seen st2) = {}" using Cons.prems(3,6) by (auto simp: s2(2))
  moreover have "rc_id (st_rec st2) \<notin> set (map fst rs)" using Cons.prems(2) by (simp add: s2(1) r)
  ultimately show ?case
    unfolding step using Cons.IH[of st2] Cons.prems(1,2,7) s2 ne r
    by (cases "rc_id (st_rec st) = []") simp_all
qed

text \<open>C6. Well-formed records that are written to a file are read back: the sink is told of the file and
  then given each record, with its id and its fields, in the order they were written, and nothing is
  refused.\<close>

theorem conf_file_roundtrip:
  assumes "list_all (written_ok strtod kind) rs" "distinct (map fst rs)" "length rs \<le> NP_CONF_RECORDS_MAX" "rs \<noteq> []"
  shows "snd (conf_read_file strtod kind take_all shown (Some (concat (concat (map rec_lines rs)))) ([], [])) =
    Conf_file shown # map (\<lambda>r. Conf_record (rec_value r)) rs"
proof -
  have "\<forall>l \<in> set (concat (map rec_lines rs)). \<exists>t. l = t @ [10] \<and> 10 \<notin> set t \<and> length t + 2 \<le> NP_CONF_LINE + 2"
  proof
    fix l assume "l \<in> set (concat (map rec_lines rs))"
    then obtain i fs where r: "(i, fs) \<in> set rs" "l \<in> set (rec_lines (i, fs))" by auto
    then have w: "conf_id_ok kind i" "length i < NP_CONF_ID_MAX" "fields_ok kind fs" "list_all (\<lambda>(n, v). value_ok v) fs"
      using assms(1) by (auto simp: list_all_iff written_ok_def)
    from r(2) consider "l = (91 # i @ [93]) @ [10]" | n v where "(n, v) \<in> set fs" "l = (n @ 61 # v) @ [10]"
      by (auto simp: rec_lines_def)
    then show "\<exists>t. l = t @ [10] \<and> 10 \<notin> set t \<and> length t + 2 \<le> NP_CONF_LINE + 2"
    proof cases
      case 1
      with id_chars(1)[OF w(1)] w(2) show ?thesis
        by (intro exI[of _ "91 # i @ [93]"]) (auto simp: NP_CONF_LINE_def NP_CONF_ID_MAX_def)
    next
      case (2 n v)
      then obtain sp where "conf_spec kind n = Some sp"
        using w(3) by (auto simp: fields_ok_def list_all_iff split: option.splits)
      from conf_spec_plain[OF this] plain_name_chars[OF conf_spec_plain[OF this]] 2 w(4)
      show ?thesis
        by (intro exI[of _ "n @ 61 # v"])
          (auto simp: plain_name_def value_ok_def list_all_iff NP_CONF_LINE_def)
    qed
  qed
  then have lines: "fgets_all (NP_CONF_LINE + 2) (concat (concat (map rec_lines rs))) = concat (map rec_lines rs)"
    by (rule fgets_all_lines)
  have "concat (concat (map rec_lines rs)) \<noteq> []"
    using assms(4) by (cases rs) (auto simp: rec_lines_def)
  then obtain b bs where b: "concat (concat (map rec_lines rs)) = b # bs" by (meson neq_Nil_conv)
  let ?st = "\<lparr>st_rec = empty_rec, st_code = None, st_detail = None, st_header = False, st_seen = [],
    st_events = [Conf_file shown]\<rparr>"
  have "i \<noteq> []" if "i \<in> fst ` set rs" for i
    using that assms(1) id_chars(2) by (auto simp: list_all_iff written_ok_def)
  then have "st_events (conf_lines strtod kind take_all shown (concat (map rec_lines rs)) ?st) =
      [Conf_file shown] @ map (\<lambda>r. Conf_record (rec_value r)) rs"
    using records_lines[of strtod kind rs ?st shown] assms by (auto simp: between_def emits_def empty_rec_def)
  then show ?thesis unfolding b conf_read_file_def Let_def prod.case option.case list.case lines[unfolded b] by simp
qed

definition sample_written :: "cstring \<times> (cstring \<times> cstring) list" where
  "sample_written = (cstr ''26.1'', [(cstr ''src'', cstr ''crossover''), (cstr ''dst'', cstr ''lib'')])"


lemma sample_written_rec: "rec_holds (rec_value sample_written) (snd sample_written)"
proof -
  have c: "c_string (cstr ''src'')" "c_string (cstr ''crossover'')" "c_string (cstr ''dst'')" "c_string (cstr ''lib'')"
    by (simp_all add: cstr_def)
  show ?thesis
    unfolding rec_value_def sample_written_def
    using rec_holds_add[OF rec_holds_add[OF rec_holds_empty c(1,2)] c(3,4)] by simp
qed

lemma sample_written_ok: "written_ok strtod NP_CONF_VARIANT sample_written"
proof -
  have vals: "value_ok (cstr ''crossover'')" "value_ok (cstr ''lib'')"
    by (simp_all add: value_ok_def cstr_def trim_end_def skip_spaces_def c_space_def)
  have fields: "fields_ok NP_CONF_VARIANT (snd sample_written)"
    by (simp add: fields_ok_def sample_written_def enc_fields_def NP_CONF_REC_BUF_def conf_spec_def conf_table_def
        kVariant_def spec_def cstr_def)
  have get: "np_conf_get (rec_value sample_written) = map_of (snd sample_written)"
    "fields_from (rec_value sample_written) 0 = snd sample_written"
    using conf_get_holds[OF sample_written_rec] fields_holds[OF sample_written_rec, of 0] by auto
  have schema: "fst (conf_schema strtod (rec_value sample_written) NP_CONF_VARIANT None) = None"
    unfolding conf_schema_def get
    by (simp add: conf_table_def kVariant_def spec_def sample_written_def cstr_def conf_rel_ok_def has_dotdot_def
        variant_field_bad_def upt_rec)
  show ?thesis
    using vals fields schema
    by (simp add: written_ok_def sample_written_def conf_id_ok_def cstr_def name_char_def c_class_defs
        NP_CONF_ID_MAX_def)
qed

theorem conf_file_roundtrip_witness:
  "snd (conf_read_file (\<lambda>_. None) NP_CONF_VARIANT take_all (cstr ''a.conf'')
     (Some (concat (rec_lines sample_written))) ([], [])) =
   [Conf_file (cstr ''a.conf''), Conf_record (rec_value sample_written)]"
  using conf_file_roundtrip[of "\<lambda>_. None" NP_CONF_VARIANT "[sample_written]" "cstr ''a.conf''"] sample_written_ok
  by (simp add: NP_CONF_RECORDS_MAX_def)

text \<open>A line that opens a header and does not close it is no field line either, although it may hold a
  \<open>=\<close>: it is skipped without a word.\<close>

lemma unclosed_header_ignored:
  assumes "length raw < NP_CONF_LINE" "skip_spaces (takeWhile (\<lambda>c. c \<noteq> 0 \<and> c \<noteq> 10) raw) = 91 # r"
    and "str_rsplit 93 (91 # r) = None"
  shows "conf_line strtod kind snk shown raw st = Inr st"
proof -
  have "\<not> length (takeWhile (\<lambda>c. c \<noteq> 0 \<and> c \<noteq> 10) raw) \<ge> NP_CONF_LINE"
    using assms(1) length_takeWhile_le[of "\<lambda>c. c \<noteq> 0 \<and> c \<noteq> 10" raw] by linarith
  with assms(2,3) show ?thesis by (simp add: conf_line_def Let_def)
qed

end
