(* ===== verification/Compat_Probe.thy ===== *)
theory Compat_Probe
  imports A64 C_Mem
begin

text \<open>
  Reading the client's structure layouts back out of its code, the first part of
  \<^verbatim>\<open>src/dylib/feats/compat.c\<close>, with \<^verbatim>\<open>src/dylib/util/ptr.h\<close>. The offsets found are the state; the layout
  moved as one block by a signed distance, kept as a 32-bit word.
\<close>

section \<open>Offsets\<close>

definition COMPAT_MANAGER_ENABLED_OFF :: u32 where "COMPAT_MANAGER_ENABLED_OFF = 0x7B0"
definition COMPAT_MANAGER_USER_OFF :: u64 where "COMPAT_MANAGER_USER_OFF = 0x300"
definition COMPAT_TOOL_STRIDE :: u32 where "COMPAT_TOOL_STRIDE = 0x130"
definition COMPAT_TOOL_INSTALL_OFF :: u32 where "COMPAT_TOOL_INSTALL_OFF = 0x58"
definition COMPAT_TOOL_APPID_OFF :: u32 where "COMPAT_TOOL_APPID_OFF = 0x60"
definition COMPAT_TOOL_FROM_OSLIST_OFF :: u32 where "COMPAT_TOOL_FROM_OSLIST_OFF = 0x70"
definition COMPAT_TOOL_TO_OSLIST_OFF :: u32 where "COMPAT_TOOL_TO_OSLIST_OFF = 0x78"

lemmas compat_offsets = COMPAT_MANAGER_ENABLED_OFF_def COMPAT_MANAGER_USER_OFF_def COMPAT_TOOL_STRIDE_def
  COMPAT_TOOL_INSTALL_OFF_def COMPAT_TOOL_APPID_OFF_def COMPAT_TOOL_FROM_OSLIST_OFF_def
  COMPAT_TOOL_TO_OSLIST_OFF_def

record compat_layout =
  g_tool_shift :: u32
  g_enabled_off :: u32
  g_windows_only_off :: u32

definition initial_layout :: compat_layout where
  "initial_layout = \<lparr>g_tool_shift = 0, g_enabled_off = COMPAT_MANAGER_ENABLED_OFF, g_windows_only_off = 0\<rparr>"

text \<open>The instructions of a loop \<open>for (pc = start; pc < start + 4 * k; pc += 4)\<close>; none where the end wraps.\<close>

definition window :: "u64 \<Rightarrow> nat \<Rightarrow> u64 list" where
  "window start k = (if start < start + 4 * of_nat k then map (\<lambda>i. start + of_nat i * 4) [0..<k] else [])"

section \<open>The tool entry\<close>

fun oslist_loop :: "mem \<Rightarrow> u32 \<Rightarrow> u64 list \<Rightarrow> u32 list \<Rightarrow> u32 list option" where
  "oslist_loop m base [] seen = (if length seen \<noteq> 2 then None else Some seen)"
| "oslist_loop m base (pc # pcs) seen = (case ldr64_from (load32 m pc) base of
     None \<Rightarrow> oslist_loop m base pcs seen
   | Some off \<Rightarrow>
       if off \<in> set seen then oslist_loop m base pcs seen
       else if length seen = 2 then None
       else oslist_loop m base pcs (seen @ [off]))"

text \<open>The offsets of \<open>from_oslist\<close> and \<open>to_oslist\<close>, when two were found.\<close>

definition probe_oslist_offsets :: "mem \<Rightarrow> u64 \<Rightarrow> u32 \<Rightarrow> (u32 \<times> u32) option" where
  "probe_oslist_offsets m oslist_gate base =
     (if oslist_gate = 0 then None
      else case oslist_loop m base (window (oslist_gate - 0x40) 25) [] of
          Some [a, b] \<Rightarrow> Some (if a > b then (b, a) else (a, b))
        | _ \<Rightarrow> None)"

fun first_found :: "('a \<Rightarrow> 'b option) \<Rightarrow> 'a list \<Rightarrow> 'b option" where
  "first_found f [] = None"
| "first_found f (x # xs) = (case f x of Some y \<Rightarrow> Some y | None \<Rightarrow> first_found f xs)"

definition np_compat_probe_tool_layout :: "mem \<Rightarrow> u64 \<Rightarrow> u64 \<Rightarrow> compat_layout \<Rightarrow> bool \<times> compat_layout" where
  "np_compat_probe_tool_layout m appid_gate oslist_gate st =
     (if appid_gate = 0 then (False, st)
      else case ldr32_from_x0 (load32 m appid_gate) of
          None \<Rightarrow> (False, st)
        | Some (appid_off, rt) \<Rightarrow>
      (case cbz32 (appid_gate + 4) (load32 m (appid_gate + 4)) rt of
          None \<Rightarrow> (False, st)
        | Some local_path \<Rightarrow>
      (case first_found (\<lambda>pc. ldr64_from_x0 (load32 m pc)) (window local_path 8) of
          None \<Rightarrow> (False, st)
        | Some install_off \<Rightarrow>
            if install_off = 0 then (False, st)
            else
              let by_appid = appid_off - COMPAT_TOOL_APPID_OFF;
                  by_install = install_off - COMPAT_TOOL_INSTALL_OFF
              in if by_appid \<noteq> by_install then (False, st)
                 else (case probe_oslist_offsets m oslist_gate 21 of
                     Some (from_off, to_off) \<Rightarrow>
                       if from_off - COMPAT_TOOL_FROM_OSLIST_OFF \<noteq> by_appid \<or>
                          to_off - COMPAT_TOOL_TO_OSLIST_OFF \<noteq> by_appid
                       then (False, st) else (True, st\<lparr>g_tool_shift := by_appid\<rparr>)
                   | None \<Rightarrow> (True, st\<lparr>g_tool_shift := by_appid\<rparr>)))))"

definition np_compat_tool_off :: "compat_layout \<Rightarrow> u32 \<Rightarrow> u32" where
  "np_compat_tool_off st reference_off =
     (if reference_off < COMPAT_TOOL_INSTALL_OFF then reference_off else reference_off + g_tool_shift st)"

definition np_compat_tool_stride :: "compat_layout \<Rightarrow> u64" where
  "np_compat_tool_stride st = scast (COMPAT_TOOL_STRIDE + g_tool_shift st)"

section \<open>The manager\<close>

definition np_compat_probe_enabled_off :: "mem \<Rightarrow> u64 \<Rightarrow> compat_layout \<Rightarrow> bool \<times> compat_layout" where
  "np_compat_probe_enabled_off m bis_enabled st =
     (if bis_enabled = 0 then (False, st)
      else case first_found (\<lambda>pc. mov_from_x0 (load32 m pc)) (window bis_enabled 16) of
          None \<Rightarrow> (False, st)
        | Some base \<Rightarrow>
      (case first_found (\<lambda>pc. ldrb_from (load32 m pc) base) (window bis_enabled 32) of
          None \<Rightarrow> (False, st)
        | Some off \<Rightarrow>
            if off < 0x100 then (False, st) else (True, st\<lparr>g_enabled_off := off\<rparr>)))"

text \<open>The four instructions before the call, as far as the function begins: the last that adds to \<open>x0\<close>.\<close>

definition table_argument :: "mem \<Rightarrow> u64 \<Rightarrow> u64 \<Rightarrow> u32 option" where
  "table_argument m lo pc = first_found (\<lambda>back :: nat.
     if pc - 4 * of_nat back < lo then None
     else case a64_add_imm (load32 m (pc - 4 * of_nat back)) of
         Some (rd, rn, imm) \<Rightarrow> if rd = 0 \<and> rn \<noteq> 31 then Some imm else None
       | None \<Rightarrow> None) [1, 2, 3, 4]"

definition np_compat_probe_windows_only_off :: "mem \<Rightarrow> u64 \<Rightarrow> u64 \<Rightarrow> compat_layout \<Rightarrow> bool \<times> compat_layout" where
  "np_compat_probe_windows_only_off m get_wildcard_mapping lookup st =
     (if get_wildcard_mapping = 0 \<or> lookup = 0 then (False, st)
      else case find (\<lambda>pc. a64_bl pc (load32 m pc) = Some lookup) (window get_wildcard_mapping 64) of
          None \<Rightarrow> (False, st)
        | Some pc \<Rightarrow>
            (case table_argument m get_wildcard_mapping pc of
               None \<Rightarrow> (False, st)
             | Some imm \<Rightarrow> (True, st\<lparr>g_windows_only_off := imm\<rparr>)))"

definition np_compat_is_windows_only_table :: "compat_layout \<Rightarrow> u64 \<Rightarrow> u64 \<Rightarrow> bool" where
  "np_compat_is_windows_only_table st compat_mgr table \<longleftrightarrow>
     compat_mgr \<noteq> 0 \<and> g_windows_only_off st \<noteq> 0 \<and> table = compat_mgr + ucast (g_windows_only_off st)"

definition np_plausible_addr :: "u64 \<Rightarrow> bool" where
  "np_plausible_addr v = (if v < 0x100000000 then False else if v \<ge> 0x800000000000 then False else True)"

definition np_plausible_ptr :: "u64 \<Rightarrow> bool" where
  "np_plausible_ptr v = (if \<not> np_plausible_addr v then False else if v AND 0x7 \<noteq> 0 then False else True)"

definition np_compat_user :: "mem \<Rightarrow> u64 \<Rightarrow> u64" where
  "np_compat_user m compat_mgr =
     (if compat_mgr = 0 then 0
      else let user = load64 m (compat_mgr + COMPAT_MANAGER_USER_OFF) in
        if np_plausible_ptr user then user else 0)"

definition np_compat_force_enable :: "compat_layout \<Rightarrow> u64 \<Rightarrow> mem \<Rightarrow> mem" where
  "np_compat_force_enable st compat_mgr m =
     (if compat_mgr = 0 then m else m(compat_mgr + ucast (g_enabled_off st) := 1))"

section \<open>Lemmas\<close>

lemma first_found_some: "first_found f xs = Some y \<Longrightarrow> \<exists>x \<in> set xs. f x = Some y"
  by (induction xs) (auto split: option.splits)

text \<open>Layouts a run can have: any probes, of any code, one after the other.\<close>

inductive probed :: "compat_layout \<Rightarrow> bool" where
  probed_start: "probed initial_layout"
| probed_tool: "probed st \<Longrightarrow> probed (snd (np_compat_probe_tool_layout m appid_gate oslist_gate st))"
| probed_enabled: "probed st \<Longrightarrow> probed (snd (np_compat_probe_enabled_off m bis_enabled st))"
| probed_table: "probed st \<Longrightarrow> probed (snd (np_compat_probe_windows_only_off m get_wildcard_mapping lookup st))"

lemma field12_bound: "(drop_bit k w AND 0xFFF :: u32) < 0x1000"
proof -
  have "(0xFFF :: u32) = mask 12" by (simp add: mask_eq_exp_minus_1)
  then have "drop_bit k w AND 0xFFF = take_bit 12 (drop_bit k w)" by (simp only: take_bit_eq_mask)
  moreover have "unat (take_bit 12 (drop_bit k w)) < 2 ^ 12" by (simp add: take_bit_eq_mod unat_mod_distrib)
  ultimately show ?thesis by (simp add: word_less_nat_alt)
qed

lemma ldrb_from_bound: "ldrb_from w base = Some off \<Longrightarrow> off < 0x1000"
  by (auto simp: ldrb_from_def field12_bound split: if_splits)

lemma add_imm_bound: "a64_add_imm w = Some (rd, rn, imm) \<Longrightarrow> imm < 0x1000"
  by (auto simp: a64_add_imm_def field12_bound split: if_splits)

lemma table_argument_bound: "table_argument m lo pc = Some imm \<Longrightarrow> imm < 0x1000"
  unfolding table_argument_def by (drule first_found_some) (auto dest: add_imm_bound split: if_splits option.splits)

lemma probe_tool_layout_cases:
  obtains "np_compat_probe_tool_layout m appid_gate oslist_gate st = (False, st)"
  | appid_off rt local_path install_off where
      "ldr32_from_x0 (load32 m appid_gate) = Some (appid_off, rt)"
      "cbz32 (appid_gate + 4) (load32 m (appid_gate + 4)) rt = Some local_path"
      "first_found (\<lambda>pc. ldr64_from_x0 (load32 m pc)) (window local_path 8) = Some install_off"
      "appid_off - COMPAT_TOOL_APPID_OFF = install_off - COMPAT_TOOL_INSTALL_OFF"
      "case probe_oslist_offsets m oslist_gate 21 of None \<Rightarrow> True
       | Some (f, t) \<Rightarrow> f - COMPAT_TOOL_FROM_OSLIST_OFF = appid_off - COMPAT_TOOL_APPID_OFF \<and>
           t - COMPAT_TOOL_TO_OSLIST_OFF = appid_off - COMPAT_TOOL_APPID_OFF"
      "np_compat_probe_tool_layout m appid_gate oslist_gate st =
        (True, st\<lparr>g_tool_shift := appid_off - COMPAT_TOOL_APPID_OFF\<rparr>)"
proof (cases "appid_gate = 0 \<or> ldr32_from_x0 (load32 m appid_gate) = None")
  case True
  then show ?thesis by (intro that(1)) (auto simp: np_compat_probe_tool_layout_def)
next
  case False
  then obtain appid_off rt where l: "appid_gate \<noteq> 0" "ldr32_from_x0 (load32 m appid_gate) = Some (appid_off, rt)" by auto
  let ?by = "appid_off - COMPAT_TOOL_APPID_OFF"
  show ?thesis
  proof (cases "cbz32 (appid_gate + 4) (load32 m (appid_gate + 4)) rt")
    case None
    with l show ?thesis by (intro that(1)) (simp add: np_compat_probe_tool_layout_def)
  next
    case (Some local_path)
    note c = this
    show ?thesis
    proof (cases "first_found (\<lambda>pc. ldr64_from_x0 (load32 m pc)) (window local_path 8)")
      case None
      with l c show ?thesis by (intro that(1)) (simp add: np_compat_probe_tool_layout_def)
    next
      case (Some install_off)
      let ?far = "case probe_oslist_offsets m oslist_gate 21 of None \<Rightarrow> True
        | Some (f, t) \<Rightarrow> f - COMPAT_TOOL_FROM_OSLIST_OFF = ?by \<and> t - COMPAT_TOOL_TO_OSLIST_OFF = ?by"
      have "np_compat_probe_tool_layout m appid_gate oslist_gate st =
          (if install_off = 0 \<or> ?by \<noteq> install_off - COMPAT_TOOL_INSTALL_OFF \<or> \<not> ?far then (False, st)
           else (True, st\<lparr>g_tool_shift := ?by\<rparr>))"
        using l c Some by (auto simp: np_compat_probe_tool_layout_def Let_def split: option.split)
      with that l c Some show ?thesis by (auto split: if_splits)
    qed
  qed
qed

lemma probe_enabled_cases:
  "np_compat_probe_enabled_off m bis_enabled st = (False, st) \<or>
   (\<exists>off. 0x100 \<le> off \<and> off < 0x1000 \<and> np_compat_probe_enabled_off m bis_enabled st = (True, st\<lparr>g_enabled_off := off\<rparr>))"
  by (auto simp: np_compat_probe_enabled_off_def not_less dest!: first_found_some ldrb_from_bound
      split: option.splits if_splits)

lemma probe_table_cases:
  "np_compat_probe_windows_only_off m f lookup st = (False, st) \<or>
   (\<exists>off. off < 0x1000 \<and> np_compat_probe_windows_only_off m f lookup st = (True, st\<lparr>g_windows_only_off := off\<rparr>))"
  by (auto simp: np_compat_probe_windows_only_off_def dest!: table_argument_bound split: option.splits if_splits)

lemma tool_off_shifted:
  "np_compat_tool_off st COMPAT_TOOL_APPID_OFF = COMPAT_TOOL_APPID_OFF + g_tool_shift st"
  "np_compat_tool_off st COMPAT_TOOL_INSTALL_OFF = COMPAT_TOOL_INSTALL_OFF + g_tool_shift st"
  "np_compat_tool_off st COMPAT_TOOL_FROM_OSLIST_OFF = COMPAT_TOOL_FROM_OSLIST_OFF + g_tool_shift st"
  "np_compat_tool_off st COMPAT_TOOL_TO_OSLIST_OFF = COMPAT_TOOL_TO_OSLIST_OFF + g_tool_shift st"
  by (simp_all add: np_compat_tool_off_def compat_offsets)

text \<open>Code whose tool entry has grown by eight bytes: LDR W8,[X0,0x68]; CBZ W8,+8; ...; LDR X9,[X0,0x60].\<close>

definition sample_gate :: mem where
  "sample_gate = word_mem [(0x1000, 0xB9406808), (0x1004, 0x34000048), (0x100C, 0xF9403009)]"

lemma sample_gate_words [sample_eval]:
  "load32 sample_gate 0x1000 = 0xB9406808" "load32 sample_gate 0x1004 = 0x34000048"
  "load32 sample_gate 0x100C = 0xF9403009"
  by (simp_all add: sample_gate_def load32_word_mem)

lemma sample_layout:
  "np_compat_probe_tool_layout sample_gate 0x1000 0 initial_layout = (True, initial_layout\<lparr>g_tool_shift := 8\<rparr>)"
proof -
  have l: "ldr32_from_x0 0xB9406808 = Some (0x68, 8)" by (simp add: ldr32_from_x0_def)
  have c: "cbz32 0x1004 0x34000048 8 = Some 0x100C" by (simp add: cbz32_def)
  have w: "window 0x100C 8 = 0x100C # map (\<lambda>i. 0x100C + of_nat i * 4) [1..<8]"
    by (simp add: window_def upt_conv_Cons)
  have i: "ldr64_from_x0 0xF9403009 = Some 0x60" by (simp add: ldr64_from_x0_def ldr64_from_def)
  show ?thesis
    by (simp add: np_compat_probe_tool_layout_def sample_eval l c w i probe_oslist_offsets_def compat_offsets)
qed

section \<open>Properties\<close>

text \<open>A tool layout that is accepted agrees with the code it was read from: the appid and the install
  field, and the two oslist fields where they could be found, are at the offsets the code loads them
  from.\<close>

theorem layout_agrees_with_code:
  assumes "np_compat_probe_tool_layout m appid_gate oslist_gate st = (True, st')"
  shows "(\<exists>rt local_path. ldr32_from_x0 (load32 m appid_gate) = Some (np_compat_tool_off st' COMPAT_TOOL_APPID_OFF, rt) \<and>
      cbz32 (appid_gate + 4) (load32 m (appid_gate + 4)) rt = Some local_path \<and>
      first_found (\<lambda>pc. ldr64_from_x0 (load32 m pc)) (window local_path 8) =
        Some (np_compat_tool_off st' COMPAT_TOOL_INSTALL_OFF)) \<and>
    (case probe_oslist_offsets m oslist_gate 21 of None \<Rightarrow> True
     | Some (f, t) \<Rightarrow> f = np_compat_tool_off st' COMPAT_TOOL_FROM_OSLIST_OFF \<and>
         t = np_compat_tool_off st' COMPAT_TOOL_TO_OSLIST_OFF)"
proof (rule probe_tool_layout_cases[of m appid_gate oslist_gate st])
  assume "np_compat_probe_tool_layout m appid_gate oslist_gate st = (False, st)"
  with assms show ?thesis by simp
next
  fix appid_off rt local_path install_off
  assume a: "ldr32_from_x0 (load32 m appid_gate) = Some (appid_off, rt)"
      "cbz32 (appid_gate + 4) (load32 m (appid_gate + 4)) rt = Some local_path"
      "first_found (\<lambda>pc. ldr64_from_x0 (load32 m pc)) (window local_path 8) = Some install_off"
    and eq: "appid_off - COMPAT_TOOL_APPID_OFF = install_off - COMPAT_TOOL_INSTALL_OFF"
    and os: "case probe_oslist_offsets m oslist_gate 21 of None \<Rightarrow> True
       | Some (f, t) \<Rightarrow> f - COMPAT_TOOL_FROM_OSLIST_OFF = appid_off - COMPAT_TOOL_APPID_OFF \<and>
           t - COMPAT_TOOL_TO_OSLIST_OFF = appid_off - COMPAT_TOOL_APPID_OFF"
    and "np_compat_probe_tool_layout m appid_gate oslist_gate st =
        (True, st\<lparr>g_tool_shift := appid_off - COMPAT_TOOL_APPID_OFF\<rparr>)"
  then have s: "g_tool_shift st' = appid_off - COMPAT_TOOL_APPID_OFF" using assms by auto
  have "np_compat_tool_off st' COMPAT_TOOL_APPID_OFF = appid_off"
    "np_compat_tool_off st' COMPAT_TOOL_INSTALL_OFF = install_off"
    by (simp_all add: tool_off_shifted s eq) (simp add: eq[symmetric])
  then show ?thesis using a os by (auto simp: tool_off_shifted s algebra_simps split: option.splits)
qed

theorem layout_agrees_with_code_witness:
  "\<exists>rt local_path. ldr32_from_x0 (load32 sample_gate 0x1000) = Some (0x68, rt) \<and>
     cbz32 0x1004 (load32 sample_gate 0x1004) rt = Some local_path \<and>
     first_found (\<lambda>pc. ldr64_from_x0 (load32 sample_gate pc)) (window local_path 8) = Some 0x60"
  using layout_agrees_with_code[OF sample_layout, THEN conjunct1] unfolding tool_off_shifted
  by (simp add: compat_offsets)

text \<open>A probe that fails leaves the layout as it was, so the known offsets stay in use.\<close>

theorem failed_probe_keeps_layout:
  "(fst (np_compat_probe_tool_layout m appid_gate oslist_gate st) \<or>
     np_compat_probe_tool_layout m appid_gate oslist_gate st = (False, st)) \<and>
   (fst (np_compat_probe_enabled_off m bis_enabled st) \<or>
     np_compat_probe_enabled_off m bis_enabled st = (False, st)) \<and>
   (fst (np_compat_probe_windows_only_off m get_wildcard_mapping lookup st) \<or>
     np_compat_probe_windows_only_off m get_wildcard_mapping lookup st = (False, st))"
proof (intro conjI)
  show "fst (np_compat_probe_tool_layout m appid_gate oslist_gate st) \<or>
     np_compat_probe_tool_layout m appid_gate oslist_gate st = (False, st)"
    by (rule probe_tool_layout_cases[of m appid_gate oslist_gate st]) auto
  show "fst (np_compat_probe_enabled_off m bis_enabled st) \<or> np_compat_probe_enabled_off m bis_enabled st = (False, st)"
    using probe_enabled_cases[of m bis_enabled st] by auto
  show "fst (np_compat_probe_windows_only_off m get_wildcard_mapping lookup st) \<or>
     np_compat_probe_windows_only_off m get_wildcard_mapping lookup st = (False, st)"
    using probe_table_cases[of m get_wildcard_mapping lookup st] by auto
qed

text \<open>Whatever code is probed, in whatever order, the flag that is written lies well inside the manager
  object, and neither it nor the table can be further than an instruction can reach.\<close>

theorem probed_offsets_bounded:
  assumes "probed st"
  shows "0x100 \<le> g_enabled_off st \<and> g_enabled_off st < 0x1000 \<and> g_windows_only_off st < 0x1000"
  using assms
proof (induction rule: probed.induct)
  case probed_start
  then show ?case by (simp add: initial_layout_def compat_offsets)
next
  case (probed_tool st m appid_gate oslist_gate)
  then show ?case by (cases rule: probe_tool_layout_cases[of m appid_gate oslist_gate st]) simp_all
next
  case (probed_enabled st m bis_enabled)
  then show ?case using probe_enabled_cases[of m bis_enabled st] by auto
next
  case (probed_table st m f lookup)
  then show ?case using probe_table_cases[of m f lookup st] by auto
qed

theorem probed_offsets_bounded_witness: "(0x100 :: u32) \<le> g_enabled_off (initial_layout\<lparr>g_tool_shift := 8\<rparr>)"
  using probed_offsets_bounded[OF probed_tool[OF probed_start, of sample_gate "0x1000" 0]]
  unfolding sample_layout by simp

end
