(* ===== verification/Compat_Tools.thy ===== *)
theory Compat_Tools
  imports File_Sys
begin

text \<open>
  The compatibility tools on disk, the middle part of \<^verbatim>\<open>src/dylib/feats/compat.c\<close>, with
  \<^verbatim>\<open>src/dylib/util/buildid.h\<close>: the list of tools, the directories written for them and the removal of the
  directories of tools no longer listed. The file system is an association list of paths; what becomes
  of each call that writes is decided by the parameter \<open>io\<close>.
\<close>

section \<open>Names\<close>

definition TOOL_DIR_NAME :: cstring where "TOOL_DIR_NAME = cstr ''notproton''"
definition NP_BUILD_ID_MAX :: nat where "NP_BUILD_ID_MAX = 63"
definition COMPAT_MANAGER_TOOLS_HEADROOM :: nat where "COMPAT_MANAGER_TOOLS_HEADROOM = 32"

definition np_is_build_id :: "cstring \<Rightarrow> bool" where
  "np_is_build_id s \<longleftrightarrow> list_all (\<lambda>c. c_lower c \<or> c_upper c \<or> c_digit c \<or> c = 46 \<or> c = 45) s \<and>
     0 < length s \<and> length s \<le> NP_BUILD_ID_MAX"

definition is_name_char :: "u8 \<Rightarrow> cstring \<Rightarrow> bool" where
  "is_name_char c extra \<longleftrightarrow> c_lower c \<or> c_upper c \<or> c_digit c \<or> c \<noteq> 0 \<and> c \<in> set extra"

definition is_token :: "cstring \<Rightarrow> cstring \<Rightarrow> bool" where
  "is_token s extra \<longleftrightarrow> s \<noteq> [] \<and> list_all (\<lambda>c. is_name_char c extra) s"

definition is_tool_name :: "cstring \<Rightarrow> bool" where
  "is_tool_name s \<longleftrightarrow> has_prefix TOOL_DIR_NAME s \<and> is_token s (cstr ''._-'')"

definition is_display :: "cstring \<Rightarrow> bool" where
  "is_display s \<longleftrightarrow> s \<noteq> [] \<and> list_all (\<lambda>c. \<not> (c = 34 \<or> c = 92 \<or> c < 0x20)) s"

section \<open>The list of tools\<close>

record tool_entry =
  te_name :: cstring
  te_build :: cstring
  te_flavor :: cstring
  te_display :: cstring
  te_dir :: cstring

definition TE_NAME :: nat where "TE_NAME = 64"
definition TE_BUILD :: nat where "TE_BUILD = NP_BUILD_ID_MAX + 1"
definition TE_FLAVOR :: nat where "TE_FLAVOR = 16"
definition TE_DISPLAY :: nat where "TE_DISPLAY = 96"
definition TE_DIR :: nat where "TE_DIR = 640"

text \<open>The tokens \<^verbatim>\<open>strtok_r\<close> gives: the maximal runs without the separator.\<close>

function tokens :: "u8 \<Rightarrow> cstring \<Rightarrow> cstring list" where
  "tokens sep s = (case dropWhile (\<lambda>c. c = sep) s of
     [] \<Rightarrow> []
   | c # r \<Rightarrow> takeWhile (\<lambda>c. c \<noteq> sep) (c # r) # tokens sep (dropWhile (\<lambda>c. c \<noteq> sep) (c # r)))"
  by pat_completeness auto
termination
proof (relation "measure (\<lambda>(_, s). length s)")
  fix sep s c r assume e: "dropWhile (\<lambda>c. c = sep) s = c # r"
  then have "c \<noteq> sep" using hd_dropWhile[of "\<lambda>c. c = sep" s] by simp
  then have "length (dropWhile (\<lambda>c. c \<noteq> sep) (c # r)) \<le> length r" by (simp add: length_dropWhile_le)
  also have "\<dots> < length s" using length_dropWhile_le[of "\<lambda>c. c = sep" s] by (simp add: e)
  finally show "((sep, dropWhile (\<lambda>c. c \<noteq> sep) (c # r)), sep, s) \<in> measure (\<lambda>(_, s). length s)" by simp
qed simp

declare tokens.simps [simp del]

definition parse_tool_line :: "cstring \<Rightarrow> tool_entry option" where
  "parse_tool_line line = (case take 4 (tokens 9 line) of
     [name, build, flavor, display] \<Rightarrow>
       if \<not> is_tool_name name \<or> \<not> np_is_build_id build \<or>
          flavor \<noteq> cstr ''fex'' \<and> flavor \<noteq> cstr ''rosetta'' \<or> \<not> is_display display then None
       else if length name \<ge> TE_NAME \<or> length build \<ge> TE_BUILD \<or> length display \<ge> TE_DISPLAY then None
       else Some \<lparr>te_name = c_copy TE_NAME name, te_build = c_copy TE_BUILD build,
                  te_flavor = c_copy TE_FLAVOR flavor, te_display = c_copy TE_DISPLAY display, te_dir = []\<rparr>
   | _ \<Rightarrow> None)"

text \<open>\<open>g_tools\<close> with its capacity, and whether the list file was there.\<close>

record tool_list =
  tl_tools :: "tool_entry list"
  tl_cap :: nat
  tl_present :: bool

fun load_tools_loop :: "(nat \<Rightarrow> bool) \<Rightarrow> cstring \<Rightarrow> u8 list list \<Rightarrow> tool_list \<Rightarrow> tool_list" where
  "load_tools_loop mem_ok tools_dir [] tls = tls"
| "load_tools_loop mem_ok tools_dir (raw # raws) tls =
     (let line = takeWhile (\<lambda>c. c \<noteq> 0 \<and> c \<noteq> 13 \<and> c \<noteq> 10) raw in
      if line = [] then load_tools_loop mem_ok tools_dir raws tls
      else case parse_tool_line line of
          None \<Rightarrow> load_tools_loop mem_ok tools_dir raws tls
        | Some entry \<Rightarrow>
            if list_ex (\<lambda>t. te_name t = te_name entry) (tl_tools tls)
            then load_tools_loop mem_ok tools_dir raws tls
            else let cap = (if tl_cap tls \<noteq> 0 then tl_cap tls * 2 else 8) in
              if length (tl_tools tls) = tl_cap tls \<and> \<not> mem_ok cap then tls
              else load_tools_loop mem_ok tools_dir raws
                (tls\<lparr>tl_cap := (if length (tl_tools tls) = tl_cap tls then cap else tl_cap tls),
                    tl_tools := tl_tools tls @
                      [entry\<lparr>te_dir := c_copy TE_DIR (tools_dir @ cstr ''/'' @ te_name entry)\<rparr>]\<rparr>))"

definition np_compat_load_tool_list ::
  "(nat \<Rightarrow> bool) \<Rightarrow> u8 list option \<Rightarrow> cstring \<Rightarrow> tool_list \<Rightarrow> tool_list" where
  "np_compat_load_tool_list mem_ok file tools_dir tls =
     (let tls = tls\<lparr>tl_tools := [], tl_present := False\<rparr> in
      case file of None \<Rightarrow> tls
      | Some content \<Rightarrow> load_tools_loop mem_ok tools_dir (fgets_all 512 content) (tls\<lparr>tl_present := True\<rparr>))"

definition np_compat_manager_tools_max :: "tool_list \<Rightarrow> nat" where
  "np_compat_manager_tools_max tls = COMPAT_MANAGER_TOOLS_HEADROOM + length (tl_tools tls)"

section \<open>Questions about the list\<close>

definition is_listed :: "tool_list \<Rightarrow> cstring \<Rightarrow> bool" where
  "is_listed tls name = list_ex (\<lambda>t. te_name t = name) (tl_tools tls)"

definition np_compat_fallback_tool_name :: "tool_list \<Rightarrow> cstring" where
  "np_compat_fallback_tool_name tls = (case tl_tools tls of t # _ \<Rightarrow> te_name t | [] \<Rightarrow> TOOL_DIR_NAME)"

fun tool_builds_loop :: "nat \<Rightarrow> tool_entry list \<Rightarrow> (cstring \<times> cstring \<times> cstring) list \<Rightarrow>
    (cstring \<times> cstring \<times> cstring) list" where
  "tool_builds_loop most [] out = out"
| "tool_builds_loop most (t # ts) out =
     (if \<not> length out < most then out
      else if te_build t = [] then tool_builds_loop most ts out
      else tool_builds_loop most ts
        (out @ [(te_name t, te_build t, if te_flavor t = cstr ''fex'' then cstr ''aarch64'' else cstr ''x86_64'')]))"

definition np_compat_tool_builds :: "tool_list \<Rightarrow> nat \<Rightarrow> (cstring \<times> cstring \<times> cstring) list" where
  "np_compat_tool_builds tls most = tool_builds_loop most (tl_tools tls) []"

fun fex_tools_loop :: "nat \<Rightarrow> tool_entry list \<Rightarrow> cstring list \<Rightarrow> cstring list" where
  "fex_tools_loop most [] out = out"
| "fex_tools_loop most (t # ts) out =
     (if te_flavor t \<noteq> cstr ''fex'' then fex_tools_loop most ts out
      else if length out = most then out
      else fex_tools_loop most ts (out @ [te_name t]))"

definition np_compat_fex_tools :: "tool_list \<Rightarrow> nat \<Rightarrow> cstring list" where
  "np_compat_fex_tools tls most = fex_tools_loop most (tl_tools tls) []"

type_synonym tool_info = "cstring \<times> cstring \<times> cstring \<times> bool"

definition tool_info :: "tool_entry \<Rightarrow> tool_info" where
  "tool_info t = (te_name t, te_build t, te_display t, te_flavor t = cstr ''fex'')"

definition np_compat_tools :: "tool_list \<Rightarrow> nat \<Rightarrow> tool_info list" where
  "np_compat_tools tls most = map tool_info (take most (tl_tools tls))"

definition np_compat_tool_by_name :: "tool_list \<Rightarrow> cstring option \<Rightarrow> nat \<Rightarrow> tool_info option" where
  "np_compat_tool_by_name tls name n = (case name of
     None \<Rightarrow> None
   | Some s \<Rightarrow> map_option tool_info (find (\<lambda>t. \<not> (length (te_name t) \<noteq> n \<or> te_name t \<noteq> take n s)) (tl_tools tls)))"

text \<open>The launch command runs a tool: \<^verbatim>\<open>.../compatibilitytools.d/notproton<name>'/run \<close>, or with \<^verbatim>\<open>/.\<close> before
  the quote.\<close>

definition runs_tool_at :: "cstring \<Rightarrow> bool" where
  "runs_tool_at s =
     (let lead = cstr ''/compatibilitytools.d/'' @ TOOL_DIR_NAME;
          p = dropWhile (\<lambda>c. is_name_char c (cstr ''._-'')) (drop (length lead) s)
      in has_prefix lead s \<and>
         (has_prefix ([39] @ cstr ''/run '') p \<or> has_prefix (cstr ''/.'' @ [39] @ cstr ''/run '') p))"

definition np_compat_runs_tool :: "cstring \<Rightarrow> bool" where
  "np_compat_runs_tool cmd = list_ex (\<lambda>i. runs_tool_at (drop i cmd)) [0..<length cmd]"

section \<open>The file system\<close>

text \<open>What becomes of a call that writes: it is refused, it succeeds, or it leaves a file with that much in it
  and reports a failure.\<close>

datatype io = Io_ok | Io_refused | Io_torn cstring

definition ensure_dir :: "(cstring \<Rightarrow> io) \<Rightarrow> cstring \<Rightarrow> fs \<Rightarrow> bool \<times> fs" where
  "ensure_dir io path fs = (case map_of fs path of
     Some Dir \<Rightarrow> (True, fs)
   | Some (File _) \<Rightarrow> (False, fs)
   | None \<Rightarrow> if io path = Io_ok then (True, AList.update path Dir fs) else (False, fs))"

definition write_file :: "(cstring \<Rightarrow> io) \<Rightarrow> cstring \<Rightarrow> cstring \<Rightarrow> fs \<Rightarrow> bool \<times> fs" where
  "write_file io path content fs =
     (if map_of fs path = Some Dir then (False, fs)
      else case io path of
          Io_refused \<Rightarrow> (False, fs)
        | Io_ok \<Rightarrow> (True, AList.update path (File content) fs)
        | Io_torn part \<Rightarrow> (False, AList.update path (File part) fs))"

definition unlink_file :: "(cstring \<Rightarrow> io) \<Rightarrow> cstring \<Rightarrow> fs \<Rightarrow> fs" where
  "unlink_file io path fs = (case map_of fs path of
     Some (File _) \<Rightarrow> if io path = Io_ok then AList.delete path fs else fs | _ \<Rightarrow> fs)"

definition rmdir :: "(cstring \<Rightarrow> io) \<Rightarrow> cstring \<Rightarrow> fs \<Rightarrow> fs" where
  "rmdir io path fs =
     (if map_of fs path = Some Dir \<and> \<not> has_children path fs \<and> io path = Io_ok then AList.delete path fs else fs)"

section \<open>The directories of the tools\<close>

text \<open>A line of a file; \<open>quoted\<close> puts a string between double quotes.\<close>

definition text_line :: "cstring \<Rightarrow> cstring" where "text_line s = s @ [10]"

definition quoted :: "cstring \<Rightarrow> cstring" where "quoted s = [34] @ s @ [34]"

definition quoted_pair :: "string \<Rightarrow> cstring \<Rightarrow> cstring" where
  "quoted_pair name val = quoted (cstr name) @ cstr '' '' @ quoted val"

definition tool_declaration :: "tool_entry \<Rightarrow> cstring" where
  "tool_declaration t = c_copy 512 (concat (map text_line
     [quoted (cstr ''compatibilitytools''),
      cstr ''{'',
      cstr ''  '' @ quoted (cstr ''compat_tools''),
      cstr ''  {'',
      cstr ''    '' @ quoted (te_name t),
      cstr ''    {'',
      cstr ''      '' @ quoted_pair ''install_path'' (cstr ''.''),
      cstr ''      '' @ quoted_pair ''display_name'' (te_display t),
      cstr ''      '' @ quoted_pair ''from_oslist'' (cstr ''windows''),
      cstr ''      '' @ quoted_pair ''to_oslist'' (cstr ''macos''),
      cstr ''    }'',
      cstr ''  }'',
      cstr ''}'']))"

definition TOOL_MANIFEST :: cstring where
  "TOOL_MANIFEST = concat (map text_line
     [quoted (cstr ''manifest''),
      cstr ''{'',
      cstr ''  '' @ quoted_pair ''version'' (cstr ''2''),
      cstr ''  '' @ quoted_pair ''commandline'' (cstr ''/run %verb%''),
      cstr ''}''])"

text \<open>\<open>run_script\<close> is the generated \<^verbatim>\<open>RUN_SCRIPT\<close>.\<close>

definition tool_path :: "cstring \<Rightarrow> string \<Rightarrow> cstring" where
  "tool_path dir name = c_copy 768 (dir @ cstr ''/'' @ cstr name)"

definition write_tool :: "(cstring \<Rightarrow> io) \<Rightarrow> cstring \<Rightarrow> tool_entry \<Rightarrow> fs \<Rightarrow> bool \<times> fs" where
  "write_tool io run_script t fs = (case ensure_dir io (te_dir t) fs of
     (False, fs) \<Rightarrow> (False, fs)
   | (True, fs) \<Rightarrow>
       let fs = snd (write_file io (tool_path (te_dir t) ''compatibilitytool.vdf'') (tool_declaration t) fs);
           manifest = tool_path (te_dir t) ''toolmanifest.vdf'';
           fs = (if map_of fs manifest = None then snd (write_file io manifest TOOL_MANIFEST fs) else fs);
           fs = snd (write_file io (tool_path (te_dir t) ''run'') run_script fs);
           fs = snd (write_file io (tool_path (te_dir t) ''flavor'') (c_copy 80 (te_flavor t @ [10])) fs);
           fs = snd (write_file io (tool_path (te_dir t) ''build'') (c_copy 80 (te_build t @ [10])) fs)
       in (True, fs))"

definition RUN_SCRIPT_MARK :: cstring where
  "RUN_SCRIPT_MARK = [10] @ cstr ''# notproton CrossOver compatibility tool shim'' @ [10]"

definition str_contains :: "cstring \<Rightarrow> cstring \<Rightarrow> bool" where
  "str_contains needle s = list_ex (\<lambda>i. has_prefix needle (drop i s)) [0..<Suc (length s)]"

definition written_here :: "cstring \<Rightarrow> fs \<Rightarrow> bool" where
  "written_here tool_dir fs =
     (if map_of fs (tool_path tool_dir ''flavor'') \<noteq> None then True
      else case map_of fs (tool_path tool_dir ''run'') of
          Some (File content) \<Rightarrow> str_contains RUN_SCRIPT_MARK (c_prefix (take 127 content))
        | _ \<Rightarrow> False)"

definition tool_files :: "string list" where
  "tool_files = [''compatibilitytool.vdf'', ''toolmanifest.vdf'', ''run'', ''flavor'', ''build'']"

definition remove_tool :: "(cstring \<Rightarrow> io) \<Rightarrow> cstring \<Rightarrow> cstring \<Rightarrow> fs \<Rightarrow> fs" where
  "remove_tool io tools_dir name fs =
     (let tool_dir = c_copy 640 (tools_dir @ cstr ''/'' @ name) in
      if \<not> written_here tool_dir fs then fs
      else rmdir io tool_dir (fold (\<lambda>f. unlink_file io (tool_path tool_dir f)) tool_files fs))"

text \<open>\<open>names\<close> is what the directory holds, if it can be opened.\<close>

fun remove_unlisted_loop :: "(cstring \<Rightarrow> io) \<Rightarrow> tool_list \<Rightarrow> cstring \<Rightarrow> cstring list \<Rightarrow> fs \<Rightarrow> fs" where
  "remove_unlisted_loop io tls tools_dir [] fs = fs"
| "remove_unlisted_loop io tls tools_dir (name # names) fs =
     (if \<not> has_prefix TOOL_DIR_NAME name then remove_unlisted_loop io tls tools_dir names fs
      else if is_listed tls name then remove_unlisted_loop io tls tools_dir names fs
      else remove_unlisted_loop io tls tools_dir names (remove_tool io tools_dir name fs))"

definition remove_unlisted_tools ::
  "(cstring \<Rightarrow> io) \<Rightarrow> tool_list \<Rightarrow> cstring \<Rightarrow> cstring list option \<Rightarrow> fs \<Rightarrow> fs" where
  "remove_unlisted_tools io tls tools_dir entries fs = (case entries of
     None \<Rightarrow> fs | Some names \<Rightarrow> remove_unlisted_loop io tls tools_dir names fs)"

definition tools_dir_path :: "cstring option \<Rightarrow> nat \<Rightarrow> cstring option" where
  "tools_dir_path home cap = (case home of
     None \<Rightarrow> None
   | Some h \<Rightarrow> Some (c_copy cap (h @ cstr ''/Library/Application Support/Steam/compatibilitytools.d'')))"

fun write_tools :: "(cstring \<Rightarrow> io) \<Rightarrow> cstring \<Rightarrow> tool_entry list \<Rightarrow> fs \<Rightarrow> bool \<times> fs" where
  "write_tools io run_script [] fs = (True, fs)"
| "write_tools io run_script (t # ts) fs =
     (let (ok, fs) = write_tool io run_script t fs; (oks, fs) = write_tools io run_script ts fs in (ok \<and> oks, fs))"

text \<open>\<open>list_dir\<close> reads the names in a directory of the file system as it then is.\<close>

definition np_compat_ensure_tool_manifest ::
  "(cstring \<Rightarrow> io) \<Rightarrow> cstring \<Rightarrow> (cstring \<Rightarrow> fs \<Rightarrow> cstring list option) \<Rightarrow> cstring option \<Rightarrow> tool_list \<Rightarrow> fs \<Rightarrow>
     int \<times> fs" where
  "np_compat_ensure_tool_manifest io run_script list_dir home tls fs = (case tools_dir_path home 512 of
     None \<Rightarrow> (- 1, fs)
   | Some tools_dir \<Rightarrow>
       (case ensure_dir io tools_dir fs of
          (False, fs) \<Rightarrow> (- 1, fs)
        | (True, fs) \<Rightarrow>
            if \<not> tl_present tls then (0, fs)
            else (case write_tools io run_script (tl_tools tls) fs of
                (ok, fs) \<Rightarrow> (if ok then 0 else - 1, remove_unlisted_tools io tls tools_dir (list_dir tools_dir fs) fs))))"

section \<open>Lemmas: the list\<close>

definition entry_wf :: "tool_entry \<Rightarrow> bool" where
  "entry_wf t \<longleftrightarrow> is_tool_name (te_name t) \<and> np_is_build_id (te_build t) \<and>
     te_flavor t \<in> {cstr ''fex'', cstr ''rosetta''} \<and> is_display (te_display t) \<and>
     length (te_name t) < TE_NAME \<and> length (te_build t) < TE_BUILD \<and> length (te_display t) < TE_DISPLAY"

definition tools_wf :: "tool_list \<Rightarrow> bool" where
  "tools_wf tls \<longleftrightarrow> list_all entry_wf (tl_tools tls) \<and> distinct (map te_name (tl_tools tls)) \<and>
     length (tl_tools tls) \<le> tl_cap tls"

lemma flavor_fits: "fl = cstr ''fex'' \<or> fl = cstr ''rosetta'' \<Longrightarrow> c_copy TE_FLAVOR fl = fl"
  by (auto simp: TE_FLAVOR_def cstr_def intro!: c_copy_fits)

lemma parse_tool_line_wf: "parse_tool_line line = Some t \<Longrightarrow> entry_wf t"
  by (auto simp: parse_tool_line_def entry_wf_def c_copy_fits flavor_fits split: list.splits if_splits)

lemma entry_wf_dir [simp]: "entry_wf (t\<lparr>te_dir := d\<rparr>) = entry_wf t"
  by (simp add: entry_wf_def)

lemma load_tools_loop_wf: "tools_wf tls \<Longrightarrow> tools_wf (load_tools_loop mem_ok tools_dir raws tls)"
proof (induction raws arbitrary: tls)
  case (Cons raw raws)
  let ?line = "takeWhile (\<lambda>c. c \<noteq> 0 \<and> c \<noteq> 13 \<and> c \<noteq> 10) raw"
  show ?case
  proof (cases "?line = [] \<or> parse_tool_line ?line = None")
    case True
    then show ?thesis using Cons by (auto simp: Let_def)
  next
    case False
    then obtain t where t: "parse_tool_line ?line = Some t" "?line \<noteq> []" by auto
    let ?cap = "if length (tl_tools tls) = tl_cap tls then if tl_cap tls \<noteq> 0 then tl_cap tls * 2 else 8 else tl_cap tls"
    let ?new = "tls\<lparr>tl_cap := ?cap, tl_tools := tl_tools tls @
        [t\<lparr>te_dir := c_copy TE_DIR (tools_dir @ cstr ''/'' @ te_name t)\<rparr>]\<rparr>"
    have "tools_wf ?new" if "\<not> list_ex (\<lambda>s. te_name s = te_name t) (tl_tools tls)"
      using Cons.prems that parse_tool_line_wf[OF t(1)] by (auto simp: tools_wf_def list_ex_iff)
    then show ?thesis using Cons t by (auto simp: Let_def)
  qed
qed simp

lemma load_tool_list_wf: "tools_wf (np_compat_load_tool_list mem_ok content tools_dir tls)"
proof -
  have "tools_wf (tls\<lparr>tl_tools := [], tl_present := b\<rparr>)" for b by (simp add: tools_wf_def)
  then show ?thesis
    by (cases content) (simp_all add: np_compat_load_tool_list_def Let_def load_tools_loop_wf)
qed

section \<open>Lemmas: written lists\<close>

lemma tokens_field:
  assumes "s \<noteq> []" "sep \<notin> set s"
  shows "tokens sep (s @ sep # r) = s # tokens sep r" "tokens sep s = [s]"
proof -
  obtain c t where s: "s = c # t" "c \<noteq> sep" using assms by (cases s) auto
  have d: "dropWhile (\<lambda>c. c = sep) (s @ q) = s @ q" for q using s by simp
  have w: "takeWhile (\<lambda>c. c \<noteq> sep) (s @ sep # r) = s" "dropWhile (\<lambda>c. c \<noteq> sep) (s @ sep # r) = sep # r"
    using assms(2) by (simp_all add: takeWhile_append dropWhile_append)
  have skip: "tokens sep (sep # q) = tokens sep q" for q
    by (simp add: tokens.simps[of sep "sep # q"] tokens.simps[of sep q])
  show "tokens sep (s @ sep # r) = s # tokens sep r"
    using d[of "sep # r"] w s by (subst tokens.simps) (simp add: skip)
  have "takeWhile (\<lambda>c. c \<noteq> sep) s = s" "dropWhile (\<lambda>c. c \<noteq> sep) s = []"
    using assms(2) by (auto intro: takeWhile_eq_all_conv[THEN iffD2] simp: dropWhile_eq_Nil_conv)
  moreover have "tokens sep [] = []" by (simp add: tokens.simps)
  ultimately show "tokens sep s = [s]" using d[of "[]"] s(1) by (subst tokens.simps) simp
qed

text \<open>A tool as a line of the list file.\<close>

definition tool_line :: "tool_entry \<Rightarrow> u8 list" where
  "tool_line t = te_name t @ [9] @ te_build t @ [9] @ te_flavor t @ [9] @ te_display t @ [10]"

lemma plain_of_class: "c_lower c \<or> c_upper c \<or> c_digit c \<or> c = 46 \<or> c = 95 \<or> c = 45 \<Longrightarrow> 0x20 \<le> c"
  by (auto simp: c_class_defs word_le_nat_alt)

lemma entry_chars:
  assumes "entry_wf t"
  shows "\<forall>c \<in> set (te_name t) \<union> set (te_build t) \<union> set (te_flavor t) \<union> set (te_display t). 0x20 \<le> c"
    "te_name t \<noteq> []" "te_build t \<noteq> []" "te_flavor t \<noteq> []" "te_display t \<noteq> []"
proof -
  have "set (cstr ''._-'') = {46, 95, 45}" by (auto simp: cstr_def)
  then have n: "\<forall>c \<in> set (te_name t). 0x20 \<le> c"
    using assms plain_of_class
    by (auto simp: entry_wf_def is_tool_name_def is_token_def is_name_char_def list_all_iff)
  have b: "\<forall>c \<in> set (te_build t). 0x20 \<le> c"
    using assms plain_of_class by (auto simp: entry_wf_def np_is_build_id_def list_all_iff)
  have f: "\<forall>c \<in> set (te_flavor t). 0x20 \<le> c" "te_flavor t \<noteq> []"
    using assms by (auto simp: entry_wf_def cstr_def)
  have d: "\<forall>c \<in> set (te_display t). 0x20 \<le> c"
    using assms by (auto simp: entry_wf_def is_display_def list_all_iff not_less)
  show "\<forall>c \<in> set (te_name t) \<union> set (te_build t) \<union> set (te_flavor t) \<union> set (te_display t). 0x20 \<le> c"
    using n b f d by blast
  show "te_name t \<noteq> []" "te_build t \<noteq> []" "te_flavor t \<noteq> []" "te_display t \<noteq> []"
    using assms f by (auto simp: entry_wf_def is_tool_name_def is_token_def np_is_build_id_def is_display_def)
qed

lemma not_control: "0x20 \<le> (c :: u8) \<Longrightarrow> c \<noteq> 0 \<and> c \<noteq> 9 \<and> c \<noteq> 10 \<and> c \<noteq> 13"
  by (auto simp: word_le_nat_alt)

definition tool_text :: "tool_entry \<Rightarrow> cstring" where
  "tool_text t = te_name t @ [9] @ te_build t @ [9] @ te_flavor t @ [9] @ te_display t"

lemma tool_line_text: "tool_line t = tool_text t @ [10]"
  by (simp add: tool_line_def tool_text_def)

lemma tool_text_chars:
  assumes "entry_wf t"
  shows "\<forall>c \<in> set (tool_text t). c \<noteq> 0 \<and> c \<noteq> 13 \<and> c \<noteq> 10" "length (tool_text t) < 300" "tool_text t \<noteq> []"
proof -
  show "\<forall>c \<in> set (tool_text t). c \<noteq> 0 \<and> c \<noteq> 13 \<and> c \<noteq> 10"
    using entry_chars(1)[OF assms] not_control by (auto simp: tool_text_def)
  have "length (te_flavor t) \<le> 7" using assms by (auto simp: entry_wf_def cstr_def)
  then show "length (tool_text t) < 300"
    using assms by (simp add: entry_wf_def tool_text_def TE_NAME_def TE_BUILD_def TE_DISPLAY_def NP_BUILD_ID_MAX_def)
  show "tool_text t \<noteq> []" by (simp add: tool_text_def)
qed

lemma parse_tool_text:
  assumes "entry_wf t"
  shows "parse_tool_line (tool_text t) = Some (t\<lparr>te_dir := []\<rparr>)"
proof -
  have no9: "9 \<notin> set (te_name t)" "9 \<notin> set (te_build t)" "9 \<notin> set (te_flavor t)" "9 \<notin> set (te_display t)"
    using entry_chars(1)[OF assms] not_control by blast+
  have tok: "tokens 9 (tool_text t) = [te_name t, te_build t, te_flavor t, te_display t]"
    unfolding tool_text_def using entry_chars(2-5)[OF assms] no9 by (simp add: tokens_field)
  have fl: "te_flavor t = cstr ''fex'' \<or> te_flavor t = cstr ''rosetta''" using assms by (auto simp: entry_wf_def)
  show ?thesis
    using assms fl unfolding parse_tool_line_def tok
    by (auto simp: entry_wf_def c_copy_fits flavor_fits not_le)
qed

lemma load_tools_lines:
  assumes "list_all entry_wf ts" "distinct (map te_name ts)"
    and "set (map te_name (tl_tools tls)) \<inter> set (map te_name ts) = {}" "\<And>n. mem_ok n"
  shows "tl_tools (load_tools_loop mem_ok tools_dir (map tool_line ts) tls) =
    tl_tools tls @ map (\<lambda>t. t\<lparr>te_dir := c_copy TE_DIR (tools_dir @ cstr ''/'' @ te_name t)\<rparr>) ts"
  using assms(1-3)
proof (induction ts arbitrary: tls)
  case (Cons t ts)
  have t: "entry_wf t" using Cons.prems by simp
  have line: "takeWhile (\<lambda>c. c \<noteq> 0 \<and> c \<noteq> 13 \<and> c \<noteq> 10) (tool_line t) = tool_text t"
    using tool_text_chars(1)[OF t] by (simp add: tool_line_text takeWhile_append)
  have new: "\<not> list_ex (\<lambda>s. te_name s = te_name t) (tl_tools tls)" 
  proof -
    have "te_name t \<notin> te_name ` set (tl_tools tls)" using Cons.prems(3) by auto
    then show ?thesis unfolding list_ex_iff by (metis imageI)
  qed
  let ?t = "t\<lparr>te_dir := c_copy TE_DIR (tools_dir @ cstr ''/'' @ te_name t)\<rparr>"
  let ?cap = "if length (tl_tools tls) = tl_cap tls then if tl_cap tls \<noteq> 0 then tl_cap tls * 2 else 8 else tl_cap tls"
  let ?new = "tls\<lparr>tl_cap := ?cap, tl_tools := tl_tools tls @ [?t]\<rparr>"
  have step: "load_tools_loop mem_ok tools_dir (map tool_line (t # ts)) tls =
      load_tools_loop mem_ok tools_dir (map tool_line ts) ?new"
    using tool_text_chars(3)[OF t] new assms(4) by (simp add: Let_def line parse_tool_text[OF t])
  have "set (map te_name (tl_tools ?new)) \<inter> set (map te_name ts) = {}" using Cons.prems(2,3) by simp
  then show ?case unfolding step using Cons.IH[of ?new] Cons.prems(1,2) by simp
qed simp

section \<open>Lemmas: removing directories\<close>

lemma unlink_other: "p \<noteq> q \<Longrightarrow> map_of (unlink_file io p fs) q = map_of fs q"
  by (auto simp: unlink_file_def delete_conv' split: option.splits node.splits)

lemma unlinks_other:
  "q \<notin> set ps \<Longrightarrow> map_of (fold (unlink_file io) ps fs) q = map_of fs q"
  by (induction ps arbitrary: fs) (auto simp: unlink_other)

lemma rmdir_other: "p \<noteq> q \<Longrightarrow> map_of (rmdir io p fs) q = map_of fs q"
  by (auto simp: rmdir_def delete_conv')

lemma rmdir_nonempty:
  assumes "map_of fs q \<noteq> None" "has_prefix (dir @ cstr ''/'') q"
  shows "rmdir io dir fs = fs"
proof -
  from assms(1) obtain n where "(q, n) \<in> set fs" by (auto dest: map_of_SomeD)
  with assms(2) have "has_children dir fs" by (auto simp: has_children_def list_ex_iff)
  then show ?thesis by (simp add: rmdir_def)
qed

lemma remove_tool_eq:
  "remove_tool io tools_dir name fs =
    (let d = c_copy 640 (tools_dir @ cstr ''/'' @ name) in
     if written_here d fs then rmdir io d (fold (unlink_file io) (map (tool_path d) tool_files) fs) else fs)"
  by (simp add: remove_tool_def Let_def fold_map comp_def)

lemma remove_tool_other:
  assumes "d = c_copy 640 (tools_dir @ cstr ''/'' @ name)" "q \<noteq> d" "q \<notin> set (map (tool_path d) tool_files)"
  shows "map_of (remove_tool io tools_dir name fs) q = map_of fs q"
  using assms(2,3) unfolding remove_tool_eq Let_def assms(1)[symmetric]
  by (simp add: rmdir_other unlinks_other del: set_map)

text \<open>A removal takes paths away and changes none that stay, so a directory that is not the project's does
  not become one.\<close>

lemma unlink_le: "map_of (unlink_file io p fs) \<subseteq>\<^sub>m map_of fs"
  by (auto simp: map_le_def unlink_file_def delete_conv' split: option.splits node.splits if_splits)

lemma unlinks_le: "map_of (fold (unlink_file io) ps fs) \<subseteq>\<^sub>m map_of fs"
proof (induction ps arbitrary: fs)
  case (Cons p ps)
  show ?case using map_le_trans[OF Cons.IH unlink_le] by simp
qed simp

lemma rmdir_le: "map_of (rmdir io p fs) \<subseteq>\<^sub>m map_of fs"
  by (auto simp: map_le_def rmdir_def delete_conv' split: if_splits)

lemma remove_tool_le: "map_of (remove_tool io tools_dir name fs) \<subseteq>\<^sub>m map_of fs"
  unfolding remove_tool_eq Let_def using map_le_trans[OF rmdir_le unlinks_le] by simp

lemma remove_unlisted_le: "map_of (remove_unlisted_loop io tls tools_dir names fs) \<subseteq>\<^sub>m map_of fs"
proof (induction names arbitrary: fs)
  case (Cons name names)
  then show ?case using map_le_trans[OF Cons.IH remove_tool_le] by simp
qed simp

lemma map_le_Some: "m \<subseteq>\<^sub>m m' \<Longrightarrow> m k = Some v \<Longrightarrow> m' k = Some v"
  by (metis domI map_le_def)

lemma written_here_le:
  assumes "map_of fs' \<subseteq>\<^sub>m map_of fs" "written_here d fs'"
  shows "written_here d fs"
proof (cases "map_of fs' (tool_path d ''flavor'')")
  case (Some n)
  then show ?thesis using map_le_Some[OF assms(1)] by (simp add: written_here_def)
next
  case None
  then obtain content where "map_of fs' (tool_path d ''run'') = Some (File content)"
    "str_contains RUN_SCRIPT_MARK (c_prefix (take 127 content))"
    using assms(2) by (auto simp: written_here_def split: option.splits node.splits)
  then show ?thesis using map_le_Some[OF assms(1)] by (simp add: written_here_def)
qed

text \<open>The paths a removal of unlisted tools may touch.\<close>

definition removable :: "tool_list \<Rightarrow> cstring \<Rightarrow> cstring list \<Rightarrow> fs \<Rightarrow> cstring \<Rightarrow> bool" where
  "removable tls tools_dir names fs q \<longleftrightarrow> (\<exists>name \<in> set names. has_prefix TOOL_DIR_NAME name \<and> \<not> is_listed tls name \<and>
     (let d = c_copy 640 (tools_dir @ cstr ''/'' @ name) in
      written_here d fs \<and> (q = d \<or> q \<in> set (map (tool_path d) tool_files))))"

lemma removable_le:
  "removable tls tools_dir names fs' q \<Longrightarrow> map_of fs' \<subseteq>\<^sub>m map_of fs \<Longrightarrow> removable tls tools_dir (name # names) fs q"
  unfolding removable_def Let_def using written_here_le by fastforce

lemma remove_tool_unwritten:
  "\<not> written_here (c_copy 640 (tools_dir @ cstr ''/'' @ name)) fs \<Longrightarrow> remove_tool io tools_dir name fs = fs"
  by (simp add: remove_tool_def Let_def)

lemma remove_unlisted_changed:
  "map_of (remove_unlisted_loop io tls tools_dir names fs) q \<noteq> map_of fs q \<Longrightarrow> removable tls tools_dir names fs q"
proof (induction names arbitrary: fs)
  case (Cons name names)
  let ?fs = "remove_tool io tools_dir name fs"
  show ?case
  proof (cases "has_prefix TOOL_DIR_NAME name \<and> \<not> is_listed tls name")
    case True
    show ?thesis
    proof (cases "map_of ?fs q = map_of fs q")
      case same: True
      then have "removable tls tools_dir names ?fs q" using Cons True by simp
      then show ?thesis using removable_le remove_tool_le by blast
    next
      case False
      then have "written_here (c_copy 640 (tools_dir @ cstr ''/'' @ name)) fs"
        using remove_tool_unwritten by metis
      with True False show ?thesis
        using remove_tool_other[OF refl, of q tools_dir name io fs] by (auto simp: removable_def Let_def)
    qed
  next
    case False
    then have "removable tls tools_dir names fs q"
      using Cons.IH[of fs] Cons.prems by (auto split: if_splits)
    then show ?thesis using removable_le map_le_refl by blast
  qed
qed simp

section \<open>Properties\<close>

text \<open>Whatever the list file holds, every tool that is kept is well formed (its name is a tool's name,
  its build a build id, its flavor one of the two, its display name safe to quote, and each fits its
  buffer), no name is listed twice, and the list fits the array that was allocated.\<close>

theorem loaded_tools_wf: "tools_wf (np_compat_load_tool_list mem_ok content tools_dir tls)"
  by (rule load_tool_list_wf)

text \<open>A list of tools that is written to the file is read back: each tool, in order, with its directory
  under the directory of tools.\<close>

theorem tool_list_roundtrip:
  assumes "list_all entry_wf ts" "distinct (map te_name ts)" "mem_ok = (\<lambda>_. True)"
  shows "tl_tools (np_compat_load_tool_list mem_ok (Some (concat (map tool_line ts))) tools_dir tls) =
    map (\<lambda>t. t\<lparr>te_dir := c_copy TE_DIR (tools_dir @ cstr ''/'' @ te_name t)\<rparr>) ts"
proof -
  have "\<exists>s. tool_line t = s @ [10] \<and> 10 \<notin> set s \<and> length s + 2 \<le> 512" if "t \<in> set ts" for t
  proof -
    have "entry_wf t" using that assms(1) by (simp add: list_all_iff)
    from tool_text_chars[OF this] show ?thesis by (intro exI[of _ "tool_text t"]) (auto simp: tool_line_text)
  qed
  then have "fgets_all 512 (concat (map tool_line ts)) = map tool_line ts"
    by (intro fgets_all_lines) auto
  then show ?thesis
    using load_tools_lines[of ts "tls\<lparr>tl_tools := [], tl_present := True\<rparr>" mem_ok tools_dir] assms
    by (simp add: np_compat_load_tool_list_def Let_def)
qed

definition sample_tool :: tool_entry where
  "sample_tool = \<lparr>te_name = cstr ''notproton-26'', te_build = cstr ''26.0.1'', te_flavor = cstr ''fex'',
     te_display = cstr ''CrossOver 26'', te_dir = []\<rparr>"

lemma sample_tool_wf: "entry_wf sample_tool"
  by (simp add: entry_wf_def sample_tool_def is_tool_name_def TOOL_DIR_NAME_def has_prefix_def is_token_def cstr_def
      is_name_char_def np_is_build_id_def NP_BUILD_ID_MAX_def is_display_def c_class_defs TE_NAME_def TE_BUILD_def
      TE_DISPLAY_def)

theorem tool_list_roundtrip_witness:
  "tl_tools (np_compat_load_tool_list (\<lambda>_. True) (Some (tool_line sample_tool)) (cstr ''/t'')
      \<lparr>tl_tools = [], tl_cap = 0, tl_present = False\<rparr>) =
    [sample_tool\<lparr>te_dir := c_copy TE_DIR (cstr ''/t'' @ cstr ''/'' @ te_name sample_tool)\<rparr>]"
  using tool_list_roundtrip[of "[sample_tool]" "\<lambda>_. True" "cstr ''/t''"
      "\<lparr>tl_tools = [], tl_cap = 0, tl_present = False\<rparr>"] sample_tool_wf by simp

text \<open>C34. Removing the tools that are no longer listed touches nothing else: a path that changes is taken
  away, and is the directory, or one of the five files the project writes there, of a name that begins
  with the project's and is not listed, in a directory the project has written: one with a flavor, or
  with a run script that bears the project's mark. A directory of the user's is left as it is.\<close>

theorem removal_confined:
  assumes "map_of (remove_unlisted_tools io tls tools_dir entries fs) q \<noteq> map_of fs q"
  shows "map_of (remove_unlisted_tools io tls tools_dir entries fs) q = None \<and>
    (\<exists>names. entries = Some names \<and> (\<exists>name \<in> set names. has_prefix TOOL_DIR_NAME name \<and> \<not> is_listed tls name \<and>
      (let d = c_copy 640 (tools_dir @ cstr ''/'' @ name) in
       (map_of fs (tool_path d ''flavor'') \<noteq> None \<or>
        (\<exists>content. map_of fs (tool_path d ''run'') = Some (File content) \<and>
          str_contains RUN_SCRIPT_MARK (c_prefix (take 127 content)))) \<and>
       (q = d \<or> q \<in> set (map (tool_path d) tool_files)))))"
proof (cases entries)
  case None
  with assms show ?thesis by (simp add: remove_unlisted_tools_def)
next
  case (Some names)
  let ?fs = "remove_unlisted_loop io tls tools_dir names fs"
  have r: "removable tls tools_dir names fs q"
    using assms Some remove_unlisted_changed by (simp add: remove_unlisted_tools_def)
  have "map_of ?fs q = None"
  proof (cases "map_of ?fs q")
    case (Some n)
    then show ?thesis
      using map_le_Some[OF remove_unlisted_le Some] assms \<open>entries = Some names\<close>
      by (simp add: remove_unlisted_tools_def)
  qed
  moreover have "map_of fs (tool_path d ''flavor'') \<noteq> None \<or> (\<exists>content. map_of fs (tool_path d ''run'') = Some (File content) \<and>
      str_contains RUN_SCRIPT_MARK (c_prefix (take 127 content)))" if "written_here d fs" for d
    using that by (auto simp: written_here_def split: if_splits option.splits node.splits)
  ultimately show ?thesis
    using r Some unfolding removable_def Let_def remove_unlisted_tools_def by (simp del: set_map) blast
qed

text \<open>A directory that holds something the project did not write stays, with what it holds, and so does a
  directory the project did not write at all.\<close>

theorem foreign_files_stay:
  assumes "d = c_copy 640 (tools_dir @ cstr ''/'' @ name)" "d \<notin> set (map (tool_path d) tool_files)"
    and "map_of fs q \<noteq> None" "has_prefix (d @ cstr ''/'') q" "q \<notin> set (map (tool_path d) tool_files)"
  shows "map_of (remove_tool io tools_dir name fs) q = map_of fs q \<and>
    map_of (remove_tool io tools_dir name fs) d = map_of fs d \<and>
    (\<not> written_here d fs \<longrightarrow> remove_tool io tools_dir name fs = fs)"
proof -
  let ?fs = "fold (unlink_file io) (map (tool_path d) tool_files) fs"
  have q: "map_of ?fs q = map_of fs q" and dd: "map_of ?fs d = map_of fs d"
    using assms(2,5) by (simp_all add: unlinks_other del: set_map)
  then have "rmdir io d ?fs = ?fs" using rmdir_nonempty[of ?fs q d io] assms(3,4) by simp
  then show ?thesis using q dd by (simp add: remove_tool_eq assms(1)[symmetric] Let_def)
qed

text \<open>A tool's directory with a run script, a flavor, and a note of the user's.\<close>

definition sample_fs :: fs where
  "sample_fs = [(cstr ''/t/notproton-old'', Dir), (cstr ''/t/notproton-old/flavor'', File (cstr ''fex'')),
     (cstr ''/t/notproton-old/note'', File (cstr ''mine''))]"

lemma sample_dir:
  "c_copy 640 (cstr ''/t'' @ cstr ''/'' @ cstr ''notproton-old'') = cstr ''/t/notproton-old''"
  "tool_path (cstr ''/t/notproton-old'') f = c_copy 768 (cstr ''/t/notproton-old/'' @ cstr f)"
  by (simp_all add: c_copy_def cstr_def tool_path_def)

lemma sample_paths:
  "map (tool_path (cstr ''/t/notproton-old'')) tool_files =
    map cstr [''/t/notproton-old/compatibilitytool.vdf'', ''/t/notproton-old/toolmanifest.vdf'',
      ''/t/notproton-old/run'', ''/t/notproton-old/flavor'', ''/t/notproton-old/build'']"
proof -
  have "cstr ''/t/notproton-old/'' @ cstr f = cstr (''/t/notproton-old/'' @ f)" for f by (simp add: cstr_def)
  then show ?thesis unfolding tool_files_def by (simp add: sample_dir(2)) (simp add: c_copy_def cstr_def)
qed

theorem foreign_files_stay_witness:
  "map_of (remove_tool (\<lambda>_. Io_ok) (cstr ''/t'') (cstr ''notproton-old'') sample_fs) (cstr ''/t/notproton-old/note'') =
     Some (File (cstr ''mine''))"
proof -
  have p: "cstr ''/t/notproton-old'' \<notin> set (map (tool_path (cstr ''/t/notproton-old'')) tool_files)"
    "cstr ''/t/notproton-old/note'' \<notin> set (map (tool_path (cstr ''/t/notproton-old'')) tool_files)"
    unfolding sample_paths by (simp_all add: cstr_def)
  have q: "map_of sample_fs (cstr ''/t/notproton-old/note'') = Some (File (cstr ''mine''))"
    by (simp add: sample_fs_def cstr_def)
  have pre: "has_prefix (cstr ''/t/notproton-old'' @ cstr ''/'') (cstr ''/t/notproton-old/note'')"
    by (simp add: has_prefix_def cstr_def)
  from foreign_files_stay[OF sample_dir(1)[symmetric] p(1) _ pre p(2), of sample_fs "\<lambda>_. Io_ok"] q
  show ?thesis by simp
qed

lemma unlink_absent: "map_of fs q = None \<Longrightarrow> map_of (unlink_file io p fs) q = None"
  by (cases "p = q") (simp_all add: unlink_other, simp add: unlink_file_def)

lemma unlinks_absent: "map_of fs q = None \<Longrightarrow> map_of (fold (unlink_file io) ps fs) q = None"
  by (induction ps arbitrary: fs) (auto simp: unlink_absent)

lemma rmdir_absent: "map_of fs q = None \<Longrightarrow> map_of (rmdir io p fs) q = None"
  by (cases "p = q") (auto simp: rmdir_other rmdir_def)

lemma unlinks_gone:
  "q \<in> set ps \<Longrightarrow> map_of fs q = Some (File content) \<Longrightarrow> map_of (fold (unlink_file (\<lambda>_. Io_ok)) ps fs) q = None"
proof (induction ps arbitrary: fs)
  case (Cons p ps)
  show ?case
  proof (cases "p = q")
    case True
    then have "map_of (unlink_file (\<lambda>_. Io_ok) p fs) q = None"
      using Cons.prems(2) by (simp add: unlink_file_def delete_conv')
    then show ?thesis by (simp add: unlinks_absent)
  qed (use Cons in \<open>simp add: unlink_other\<close>)
qed simp

lemma sample_removed:
  "map_of (remove_unlisted_tools (\<lambda>_. Io_ok) \<lparr>tl_tools = [], tl_cap = 0, tl_present = True\<rparr> (cstr ''/t'')
     (Some [cstr ''notproton-old'']) sample_fs) (cstr ''/t/notproton-old/flavor'') = None"
proof -
  let ?paths = "map (tool_path (cstr ''/t/notproton-old'')) tool_files" and ?q = "cstr ''/t/notproton-old/flavor''"
  have q: "tool_path (cstr ''/t/notproton-old'') ''flavor'' = ?q"
    by (simp add: sample_dir(2)) (simp add: c_copy_def cstr_def)
  have f: "map_of sample_fs ?q = Some (File (cstr ''fex''))" by (simp add: sample_fs_def cstr_def)
  then have w: "written_here (cstr ''/t/notproton-old'') sample_fs" by (simp add: written_here_def q)
  have "has_prefix TOOL_DIR_NAME (cstr ''notproton-old'')" by (simp add: has_prefix_def TOOL_DIR_NAME_def cstr_def)
  then have "remove_unlisted_tools (\<lambda>_. Io_ok) \<lparr>tl_tools = [], tl_cap = 0, tl_present = True\<rparr> (cstr ''/t'')
     (Some [cstr ''notproton-old'']) sample_fs =
    rmdir (\<lambda>_. Io_ok) (cstr ''/t/notproton-old'') (fold (unlink_file (\<lambda>_. Io_ok)) ?paths sample_fs)"
    using w by (simp add: remove_unlisted_tools_def is_listed_def remove_tool_eq Let_def sample_dir(1) del: fold_map)
  moreover have "?q \<in> set ?paths" unfolding sample_paths by simp
  ultimately show ?thesis using unlinks_gone[OF _ f] rmdir_absent by metis
qed

theorem removal_confined_witness:
  "\<exists>names. Some [cstr ''notproton-old''] = Some names \<and> (\<exists>name \<in> set names. has_prefix TOOL_DIR_NAME name)"
proof -
  have "map_of sample_fs (cstr ''/t/notproton-old/flavor'') \<noteq> None" by (simp add: sample_fs_def cstr_def)
  with sample_removed have "map_of (remove_unlisted_tools (\<lambda>_. Io_ok) \<lparr>tl_tools = [], tl_cap = 0, tl_present = True\<rparr>
     (cstr ''/t'') (Some [cstr ''notproton-old'']) sample_fs) (cstr ''/t/notproton-old/flavor'')
     \<noteq> map_of sample_fs (cstr ''/t/notproton-old/flavor'')" by metis
  from removal_confined[OF this] show ?thesis by blast
qed

end
