(* ===== verification/Hooks.thy ===== *)
theory Hooks
  imports Resolver Compat_Probe
begin

text \<open>
  Installing hooks, \<^verbatim>\<open>src/dylib/hooks/hooks.c\<close>: which entries are installed at which resolved address, and
  what is counted. The patcher (Dobby, a library) is the parameter \<open>dobby\<close>: its result code for a
  pre-hook or a replacement at an address. The entries of each group are given by the feature that owns
  it. The calls to other components are events, those that read the client's layout are the probes of
  theory Compat_Probe.
\<close>

section \<open>Entries\<close>

datatype np_patch_mode = NP_PATCH_REPLACE | NP_PATCH_PREHOOK

record np_patch_entry =
  pe_label :: cstring
  pe_signature :: "cstring option"
  pe_address :: u64
  pe_mode :: np_patch_mode
  pe_optional :: bool

record np_hook_group =
  gr_name :: cstring
  gr_entries :: "np_patch_entry list"

text \<open>The entries of a comma-separated list, as the loop cuts them off.\<close>

function lists_label_loop :: "cstring \<Rightarrow> cstring \<Rightarrow> bool" where
  "lists_label_loop list label =
     (if list = [] then False
      else case str_split 44 list of
          None \<Rightarrow> list = label
        | Some (field, rest) \<Rightarrow> if field = label then True else lists_label_loop rest label)"
  by pat_completeness auto
termination
  by (relation "measure (\<lambda>(list, _). length list)") (auto dest!: str_split_some(1))

declare lists_label_loop.simps [simp del]

definition np_hooks_env_lists_label :: "cstring option \<Rightarrow> cstring option \<Rightarrow> bool" where
  "np_hooks_env_lists_label list label = (case (list, label) of
     (Some s, Some l) \<Rightarrow> if s = [] then False else lists_label_loop s l
   | _ \<Rightarrow> False)"

definition NP_ENTRY_OFF :: int where "NP_ENTRY_OFF = - 1"

text \<open>\<open>disabled\<close> is the value of \<^verbatim>\<open>NOTPROTON_DISABLE\<close>. The result, and the call of the patcher if there is one.\<close>

definition np_apply_entry ::
  "cstring option \<Rightarrow> (bool \<Rightarrow> u64 \<Rightarrow> int) \<Rightarrow> np_resolve_result \<Rightarrow> np_patch_entry \<Rightarrow> int \<times> (bool \<times> u64) list" where
  "np_apply_entry disabled dobby resolved e =
     (if np_hooks_env_lists_label disabled (Some (pe_label e)) then (0, [])
      else
        let addr = (if pe_address e \<noteq> 0 then pe_address e
              else case pe_signature e of Some s \<Rightarrow> np_lookup_address resolved s | None \<Rightarrow> 0)
        in if addr = 0 \<and> pe_optional e then (NP_ENTRY_OFF, [])
           else if addr = 0 then (0, [])
           else let prehook = (pe_mode e = NP_PATCH_PREHOOK)
             in (if dobby prehook addr = 0 then 1 else 0, [(prehook, addr)]))"

fun install_entries ::
  "cstring option \<Rightarrow> (bool \<Rightarrow> u64 \<Rightarrow> int) \<Rightarrow> np_resolve_result \<Rightarrow> np_patch_entry list \<Rightarrow>
     int \<Rightarrow> int \<Rightarrow> (bool \<times> u64) list \<Rightarrow> int \<times> int \<times> (bool \<times> u64) list" where
  "install_entries disabled dobby resolved [] tot landed calls = (tot, landed, calls)"
| "install_entries disabled dobby resolved (e # es) tot landed calls =
     (case np_apply_entry disabled dobby resolved e of
        (rc, call) \<Rightarrow>
          if rc = NP_ENTRY_OFF then install_entries disabled dobby resolved es tot landed (calls @ call)
          else install_entries disabled dobby resolved es (tot + 1) (landed + rc) (calls @ call))"

fun install_groups_loop ::
  "cstring option \<Rightarrow> (bool \<Rightarrow> u64 \<Rightarrow> int) \<Rightarrow> np_resolve_result \<Rightarrow> np_hook_group list \<Rightarrow>
     int \<Rightarrow> int \<Rightarrow> (bool \<times> u64) list \<Rightarrow> int \<times> int \<times> (bool \<times> u64) list" where
  "install_groups_loop disabled dobby resolved [] tot landed calls = (tot, landed, calls)"
| "install_groups_loop disabled dobby resolved (g # gs) tot landed calls =
     (case install_entries disabled dobby resolved (gr_entries g) tot landed calls of
        (tot, landed, calls) \<Rightarrow> install_groups_loop disabled dobby resolved gs tot landed calls)"

text \<open>The total, the number that landed, and the calls of the patcher in order.\<close>

definition install_groups ::
  "cstring option \<Rightarrow> (bool \<Rightarrow> u64 \<Rightarrow> int) \<Rightarrow> np_hook_group list \<Rightarrow> np_resolve_result \<Rightarrow>
     int \<times> int \<times> (bool \<times> u64) list" where
  "install_groups disabled dobby groups resolved = install_groups_loop disabled dobby resolved groups 0 0 []"

section \<open>Images\<close>

text \<open>The calls to other features around the installation, in order.\<close>

datatype hook_event =
    Set_helpers "u64 list"
  | Usershortcuts_bind u64 u64 u64
  | Ceg_probe_job u64
  | Webui_init u64 u64 u64 u64 u64
  | Webui_dump_routes
  | Webui_bind u64 u64 u64 u64
  | Patches "(bool \<times> u64) list"
  | Publish_originals
  | Shortcut_bundle_bind u64
  | Ceg_bind_service cstring u64
  | Ceg_service_installed

definition np_hooks_install_steamui ::
  "cstring option \<Rightarrow> (bool \<Rightarrow> u64 \<Rightarrow> int) \<Rightarrow> np_hook_group list \<Rightarrow> u64 \<Rightarrow> np_resolve_result \<Rightarrow>
     int \<times> int \<times> hook_event list" where
  "np_hooks_install_steamui disabled dobby groups mh resolved =
     (case install_groups disabled dobby groups resolved of
        (tot, landed, calls) \<Rightarrow> (tot, landed, [Shortcut_bundle_bind mh, Patches calls]))"

text \<open>\<open>bound\<close> is what binding the service answers.\<close>

definition np_hooks_install_steamservice ::
  "cstring option \<Rightarrow> (bool \<Rightarrow> u64 \<Rightarrow> int) \<Rightarrow> np_hook_group list \<Rightarrow> (cstring \<Rightarrow> u64 \<Rightarrow> bool) \<Rightarrow> cstring \<Rightarrow>
     np_resolve_result \<Rightarrow> int \<times> int \<times> hook_event list" where
  "np_hooks_install_steamservice disabled dobby groups bound image_path resolved =
     (let thread_process = np_lookup_address resolved (cstr ''CWorkItemFunctionCall::ThreadProcess'');
          bind = [Ceg_bind_service image_path thread_process]
      in if bound image_path thread_process then
           (case install_groups disabled dobby groups resolved of
              (tot, landed, calls) \<Rightarrow>
                (tot, landed, bind @ [Patches calls] @
                   (if landed = tot \<and> tot > 0 then [Ceg_service_installed] else [])))
         else (0, 0, bind))"

text \<open>The addresses the installation looks up, and the probes it makes with them.\<close>

definition probe_layouts :: "mem \<Rightarrow> np_resolve_result \<Rightarrow> compat_layout \<Rightarrow> compat_layout" where
  "probe_layouts m resolved st =
     (let at = (\<lambda>name. np_lookup_address resolved (cstr name));
          st = snd (np_compat_probe_tool_layout m
            (at ''CCompatManager::ResolveCompatToolForApp.local_redirect'')
            (at ''CCompatManager::GetOSListOverrideForApp.oslist_gate'') st);
          st = snd (np_compat_probe_enabled_off m (at ''CCompatManager::BIsCompatibilityToolEnabled'') st)
      in snd (np_compat_probe_windows_only_off m (at ''CCompatManager::GetWildcardMapping'')
            (at ''CCompatManager::WindowsOnlyLookup'') st))"

definition np_hooks_install_all ::
  "cstring option \<Rightarrow> (bool \<Rightarrow> u64 \<Rightarrow> int) \<Rightarrow> np_hook_group list \<Rightarrow> mem \<Rightarrow> u64 \<Rightarrow> u64 \<Rightarrow> np_resolve_result \<Rightarrow>
     compat_layout \<Rightarrow> int \<times> int \<times> hook_event list \<times> compat_layout" where
  "np_hooks_install_all disabled dobby groups m mh slide resolved st =
     (let at = (\<lambda>name. np_lookup_address resolved (cstr name));
          helpers = map at [''CCompatManager::YldRegisterTool'', ''CCompatManager::GetValidPlatforms'',
            ''CCompatManager::FindToolForTargetApp'', ''CCompatManager::SetCompatToolMapping'',
            ''CCompatManager::FindMapping'', ''CCompatManager::GetWildcardMapping''];
          register_fn = at ''CWebUIJobDispatcher::RegisterHandler'';
          dispatch_fn = at ''CWebUITransport::DispatchJob'';
          before = [Set_helpers helpers,
            Usershortcuts_bind mh slide (at ''CUserShortcuts::SetShortcutExe''),
            Ceg_probe_job (at ''CClientDRMDownloadJob::ExtractGUIDsFromFile''),
            Webui_init mh slide register_fn dispatch_fn (at ''CWebUIMsgJob::SendResponse''),
            Webui_dump_routes,
            Webui_bind mh slide register_fn dispatch_fn]
      in case install_groups disabled dobby groups resolved of
          (tot, landed, calls) \<Rightarrow>
            (tot, landed, before @ [Patches calls, Publish_originals], probe_layouts m resolved st))"

section \<open>Lemmas\<close>

lemma lists_label_fields: "label \<noteq> [] \<Longrightarrow> lists_label_loop s label \<longleftrightarrow> label \<in> set (str_fields 44 s)"
proof (induction s label rule: lists_label_loop.induct)
  case (1 s label)
  show ?case
  proof (cases "str_split 44 s")
    case None
    then have "44 \<notin> set s" by (auto simp: str_split_def split: if_splits)
    then show ?thesis using 1(2) None by (auto simp: lists_label_loop.simps[of s] str_fields_single)
  next
    case (Some p)
    then obtain f r where p: "str_split 44 s = Some (f, r)" by (cases p) auto
    note s = str_split_some[OF p]
    then have "s \<noteq> []" by auto
    then have "lists_label_loop s label = (f = label \<or> lists_label_loop r label)"
      using p by (simp add: lists_label_loop.simps[of s])
    moreover have "str_fields 44 s = f # str_fields 44 r" using s str_fields_split by simp
    ultimately show ?thesis using 1(1)[OF \<open>s \<noteq> []\<close> p refl] 1(2) by auto
  qed
qed

text \<open>What an entry counts for.\<close>

definition entry_counted :: "cstring option \<Rightarrow> (bool \<Rightarrow> u64 \<Rightarrow> int) \<Rightarrow> np_resolve_result \<Rightarrow> np_patch_entry \<Rightarrow> bool" where
  "entry_counted disabled dobby resolved e \<longleftrightarrow> fst (np_apply_entry disabled dobby resolved e) \<noteq> NP_ENTRY_OFF"

definition entry_landed :: "cstring option \<Rightarrow> (bool \<Rightarrow> u64 \<Rightarrow> int) \<Rightarrow> np_resolve_result \<Rightarrow> np_patch_entry \<Rightarrow> bool" where
  "entry_landed disabled dobby resolved e \<longleftrightarrow> fst (np_apply_entry disabled dobby resolved e) = 1"

lemma apply_entry_rc: "fst (np_apply_entry disabled dobby resolved e) \<in> {NP_ENTRY_OFF, 0, 1}"
  by (simp add: np_apply_entry_def Let_def)

lemma install_entries_counts:
  "install_entries disabled dobby resolved es tot landed calls =
     (tot + int (length (filter (entry_counted disabled dobby resolved) es)),
      landed + int (length (filter (entry_landed disabled dobby resolved) es)),
      calls @ concat (map (\<lambda>e. snd (np_apply_entry disabled dobby resolved e)) es))"
proof (induction es arbitrary: tot landed calls)
  case (Cons e es)
  then show ?case
    using apply_entry_rc[of disabled dobby resolved e]
    by (auto simp: entry_counted_def entry_landed_def NP_ENTRY_OFF_def split: prod.split)
qed simp

lemma install_groups_counts:
  "install_groups_loop disabled dobby resolved gs tot landed calls =
     (tot + int (length (filter (entry_counted disabled dobby resolved) (concat (map gr_entries gs)))),
      landed + int (length (filter (entry_landed disabled dobby resolved) (concat (map gr_entries gs)))),
      calls @ concat (map (\<lambda>e. snd (np_apply_entry disabled dobby resolved e)) (concat (map gr_entries gs))))"
  by (induction gs arbitrary: tot landed calls) (simp_all add: install_entries_counts)

lemma landed_counted: "entry_landed disabled dobby resolved e \<Longrightarrow> entry_counted disabled dobby resolved e"
  by (auto simp: entry_landed_def entry_counted_def NP_ENTRY_OFF_def)

section \<open>Properties\<close>

text \<open>The list of disabled hooks is read as its comma-separated fields: a label is disabled exactly when
  it is one of them.\<close>

theorem env_lists_label_fields:
  assumes "label \<noteq> []"
  shows "np_hooks_env_lists_label (Some s) (Some label) \<longleftrightarrow> label \<in> set (str_fields 44 s)"
  using lists_label_fields[OF assms, of s] assms by (auto simp: np_hooks_env_lists_label_def)

theorem env_lists_label_fields_witness:
  "np_hooks_env_lists_label (Some (cstr ''spawn,ceg,icon'')) (Some (cstr ''ceg''))"
  using env_lists_label_fields[of "cstr ''ceg''" "cstr ''spawn,ceg,icon''"] by (simp add: cstr_def)

text \<open>Installing groups patches each enabled entry with an address once, in order, and nothing else; it
  reports how many of the entries that were not left off landed, so never more than it tried.\<close>

theorem install_groups_report:
  "install_groups disabled dobby groups resolved =
     (int (length (filter (entry_counted disabled dobby resolved) (concat (map gr_entries groups)))),
      int (length (filter (entry_landed disabled dobby resolved) (concat (map gr_entries groups)))),
      concat (map (\<lambda>e. snd (np_apply_entry disabled dobby resolved e)) (concat (map gr_entries groups)))) \<and>
   fst (snd (install_groups disabled dobby groups resolved)) \<le> fst (install_groups disabled dobby groups resolved)"
proof -
  have "length (filter (entry_landed disabled dobby resolved) es) \<le> length (filter (entry_counted disabled dobby resolved) es)"
    for es by (induction es) (auto dest: landed_counted)
  then show ?thesis by (simp add: install_groups_def install_groups_counts)
qed

text \<open>C35. Every address an installation patches is one an entry carries itself or one the resolver gave, and
  that is an aligned instruction of the image's text.\<close>

theorem patched_addresses:
  assumes "np_resolve_signatures mem_ok uniqued m mh slide db module out = (n, resolved)" "mh \<noteq> 0"
    and "np_find_segment m mh slide (cstr ''__TEXT'') = Some (text, text_sz)"
    and "(pre, a) \<in> set (snd (snd (install_groups disabled dobby groups resolved)))"
  shows "(\<exists>e \<in> set (concat (map gr_entries groups)). a = pe_address e) \<or> usable_code_address a text text_sz"
proof -
  from assms(4) obtain e where e: "e \<in> set (concat (map gr_entries groups))"
    "(pre, a) \<in> set (snd (np_apply_entry disabled dobby resolved e))"
    by (auto simp: install_groups_def install_groups_counts)
  then consider "a = pe_address e" | s where "np_lookup_address resolved s = a" "a \<noteq> 0"
    by (auto simp: np_apply_entry_def Let_def split: if_splits option.splits)
  then show ?thesis
  proof cases
    case 1
    with e(1) show ?thesis by blast
  next
    case (2 s)
    from resolve_sound[OF assms(1,2) 2] assms(3) show ?thesis by auto
  qed
qed

definition sample_group :: np_hook_group where
  "sample_group = \<lparr>gr_name = cstr ''g'', gr_entries = [\<lparr>pe_label = cstr ''hook'', pe_signature = Some (cstr ''Hook''),
     pe_address = 0, pe_mode = NP_PATCH_REPLACE, pe_optional = False\<rparr>]\<rparr>"

theorem patched_addresses_witness: "usable_code_address 0x10410 0x10400 0x60"
proof -
  let ?r = "\<lparr>rr_items = [\<lparr>rs_name = cstr ''Hook'', rs_site = 0x10410\<rparr>, \<lparr>rs_name = cstr ''Maybe'', rs_site = 0\<rparr>,
        \<lparr>rs_name = cstr ''Old'', rs_site = 0\<rparr>], rr_used = 3, rr_cap = 32\<rparr>"
  have p: "(False, 0x10410) \<in> set (snd (snd (install_groups None (\<lambda>_ _. 0) [sample_group] ?r)))"
    by (simp add: install_groups_def sample_group_def np_apply_entry_def np_hooks_env_lists_label_def
        np_lookup_address_def NP_ENTRY_OFF_def)
  from patched_addresses[OF sample_resolved _ sample_segment p] show ?thesis by (simp add: sample_group_def)
qed

end
