(* ===== verification/Spawn.thy ===== *)
theory Spawn
  imports C_Str Hooks
begin

text \<open>
  What the child processes of the client inherit, \<^verbatim>\<open>src/dylib/hooks/hook_spawn.c\<close>: the library that was
  inserted into the client is taken out of the environment of every child that does not need it, and put
  back into that of the two that do. An environment is the list of its entries; \<open>getenv\<close> and
  \<open>unsetenv\<close> of the C library are defined on it. The kernel, the allocator and the patching library are
  parameters.
\<close>

section \<open>Environments\<close>

definition env_key :: "cstring \<Rightarrow> cstring" where
  "env_key name = name @ cstr ''=''"

definition c_getenv :: "cstring list \<Rightarrow> cstring \<Rightarrow> cstring option" where
  "c_getenv env name = map_option (drop (length (env_key name))) (find (has_prefix (env_key name)) env)"

definition c_unsetenv :: "cstring list \<Rightarrow> cstring \<Rightarrow> cstring list" where
  "c_unsetenv env name = filter (\<lambda>e. \<not> has_prefix (env_key name) e) env"

section \<open>The insert\<close>

definition NP_INSERT_KEY :: cstring where "NP_INSERT_KEY = cstr ''DYLD_INSERT_LIBRARIES=''"

definition np_target_keeps_insert :: "cstring option \<Rightarrow> bool" where
  "np_target_keeps_insert path = (case path of
     None \<Rightarrow> True
   | Some p \<Rightarrow>
       let base = (case str_rsplit 47 p of Some (_, b) \<Rightarrow> b | None \<Rightarrow> p)
       in base = cstr ''steam_osx'' \<or> base = cstr ''Steam Helper'')"

definition np_is_insert :: "cstring \<Rightarrow> bool" where
  "np_is_insert entry = has_prefix NP_INSERT_KEY entry"

text \<open>The two entries the library remembers of its own environment.\<close>

record ours =
  np_insert_entry :: "cstring option"
  np_block_entry :: "cstring option"

text \<open>The new environment, or \<open>None\<close> when the one given is passed on. \<open>mem_ok\<close> decides an allocation.\<close>

definition np_with_insert :: "(nat \<Rightarrow> bool) \<Rightarrow> ours \<Rightarrow> cstring list option \<Rightarrow> cstring list option" where
  "np_with_insert mem_ok st envp = (case np_insert_entry st of
     None \<Rightarrow> None
   | Some e \<Rightarrow>
       let env = (case envp of None \<Rightarrow> [] | Some es \<Rightarrow> es)
       in if list_ex np_is_insert env then None
          else if \<not> mem_ok (8 * (length env + 2)) then None
          else Some (env @ [e]))"

definition np_entry :: "(nat \<Rightarrow> bool) \<Rightarrow> cstring list \<Rightarrow> cstring \<Rightarrow> cstring option" where
  "np_entry mem_ok env name = (case c_getenv env name of
     None \<Rightarrow> None
   | Some v \<Rightarrow> if mem_ok (length name + length v + 2) then Some (name @ cstr ''='' @ v) else None)"

definition np_remember_ours :: "(nat \<Rightarrow> bool) \<Rightarrow> cstring list \<Rightarrow> ours \<Rightarrow> ours" where
  "np_remember_ours mem_ok env st =
     (let st = (if np_insert_entry st = None
            then st\<lparr>np_insert_entry := np_entry mem_ok env (cstr ''DYLD_INSERT_LIBRARIES'')\<rparr> else st)
      in if np_block_entry st = None
         then st\<lparr>np_block_entry := np_entry mem_ok env (cstr ''SDL_JOYSTICK_BLACKLIST_DEVICES'')\<rparr> else st)"

definition np_take_insert :: "ours \<Rightarrow> cstring list \<Rightarrow> cstring list" where
  "np_take_insert st env =
     (if c_getenv env (cstr ''DYLD_INSERT_LIBRARIES'') = None then env
      else if np_insert_entry st = None then env
      else c_unsetenv env (cstr ''DYLD_INSERT_LIBRARIES''))"

section \<open>Taking the insert out\<close>

function list_has_loop :: "cstring \<Rightarrow> cstring \<Rightarrow> bool" where
  "list_has_loop lst part = (case str_split 58 lst of
     None \<Rightarrow> lst = part
   | Some (f, r) \<Rightarrow> if f = part then True else list_has_loop r part)"
  by pat_completeness auto
termination by (relation "measure (\<lambda>(lst, _). length lst)") (auto dest: str_split_shorter)

declare list_has_loop.simps [simp del]

definition np_list_has :: "cstring \<Rightarrow> cstring \<Rightarrow> bool" where
  "np_list_has lst part = (if part = [] then False else list_has_loop lst part)"

function drop_ours_loop :: "cstring \<Rightarrow> cstring \<Rightarrow> cstring \<Rightarrow> nat \<Rightarrow> cstring \<times> nat" where
  "drop_ours_loop own v out dropped =
     (let (part, rest) = (case str_split 58 v of None \<Rightarrow> (v, None) | Some (f, r) \<Rightarrow> (f, Some r));
          dropped' = (if np_list_has own part then dropped + 1 else dropped);
          out' = (if \<not> np_list_has own part \<and> part \<noteq> []
            then out @ (if out \<noteq> [] then [58] else []) @ part else out)
      in case rest of None \<Rightarrow> (out', dropped') | Some r \<Rightarrow> drop_ours_loop own r out' dropped')"
  by pat_completeness auto
termination
  by (relation "measure (\<lambda>(_, v, _). length v)") (auto split: option.splits dest: str_split_shorter)

declare drop_ours_loop.simps [simp del]

text \<open>What is written to \<open>out\<close>, without its terminator, and how many parts were dropped.\<close>

definition np_drop_ours :: "cstring \<Rightarrow> cstring \<Rightarrow> cstring \<times> nat" where
  "np_drop_ours own v = drop_ours_loop (drop (length NP_INSERT_KEY) own) v [] 0"

text \<open>
  The loop over the entries. Shortened entries are written one after another to a buffer of \<open>room\<close>
  bytes, of which \<open>used\<close> are taken; \<open>None\<close> is a write beyond its end.
\<close>

fun clean_loop ::
  "ours \<Rightarrow> bool \<Rightarrow> nat \<Rightarrow> cstring list \<Rightarrow> nat \<Rightarrow> cstring list \<Rightarrow> bool \<Rightarrow> (cstring list \<times> bool) option" where
  "clean_loop st for_compat room [] used clean changed = Some (clean, changed)"
| "clean_loop st for_compat room (entry # es) used clean changed =
     (if np_block_entry st = Some entry then clean_loop st for_compat room es used clean True
      else if for_compat \<and> np_is_insert entry then clean_loop st for_compat room es used clean True
      else case np_insert_entry st of
          None \<Rightarrow> clean_loop st for_compat room es used (clean @ [entry]) changed
        | Some e \<Rightarrow>
            if \<not> np_is_insert entry then clean_loop st for_compat room es used (clean @ [entry]) changed
            else case np_drop_ours e (drop (length NP_INSERT_KEY) entry) of
              (out, dropped) \<Rightarrow>
                if room < used + length NP_INSERT_KEY + length out + 1 then None
                else if dropped = 0 then clean_loop st for_compat room es used (clean @ [entry]) changed
                else if out = [] then clean_loop st for_compat room es used clean True
                else clean_loop st for_compat room es (used + length NP_INSERT_KEY + length out + 1)
                  (clean @ [NP_INSERT_KEY @ out]) True)"

datatype env_result = Passed_on | Cleaned "cstring list" | Overrun

definition insert_room :: "cstring list \<Rightarrow> nat" where
  "insert_room env = sum_list (map (\<lambda>e. length e + 1) (filter np_is_insert env))"

definition np_without_insert :: "(nat \<Rightarrow> bool) \<Rightarrow> ours \<Rightarrow> cstring list option \<Rightarrow> env_result" where
  "np_without_insert mem_ok st envp = (case envp of
     None \<Rightarrow> Passed_on
   | Some env \<Rightarrow>
       if np_insert_entry st = None \<and> np_block_entry st = None then Passed_on
       else
         let for_compat = list_ex (has_prefix (cstr ''STEAM_COMPAT_DATA_PATH='')) env;
             room = insert_room env
         in if \<not> mem_ok (8 * (length env + 1) + room) then Passed_on
            else case clean_loop st for_compat room env 0 [] False of
                None \<Rightarrow> Overrun
              | Some (clean, changed) \<Rightarrow> if changed then Cleaned clean else Passed_on)"

section \<open>The hooks\<close>

text \<open>
  The environment with which the original function is called: \<open>np_hook_execve\<close> and the two spawning
  hooks. \<open>None\<close> is a write out of bounds, \<open>Some None\<close> a null pointer.
\<close>

definition child_env :: "(nat \<Rightarrow> bool) \<Rightarrow> ours \<Rightarrow> cstring option \<Rightarrow> cstring list option \<Rightarrow> cstring list option option" where
  "child_env mem_ok st path envp =
     (if np_target_keeps_insert path
      then case np_with_insert mem_ok st envp of None \<Rightarrow> Some envp | Some env \<Rightarrow> Some (Some env)
      else case np_without_insert mem_ok st envp of
          Passed_on \<Rightarrow> Some envp | Cleaned env \<Rightarrow> Some (Some env) | Overrun \<Rightarrow> None)"

text \<open>A symbol is looked for in the kernel library, then anywhere; whether its hook landed.\<close>

definition np_hook_symbol :: "(cstring option \<Rightarrow> cstring \<Rightarrow> u64) \<Rightarrow> (u64 \<Rightarrow> int) \<Rightarrow> cstring \<Rightarrow> nat" where
  "np_hook_symbol resolver dobby symbol =
     (let addr = resolver (Some (cstr ''libsystem_kernel.dylib'')) symbol;
          addr = (if addr = 0 then resolver None symbol else addr)
      in if addr = 0 then 0 else if dobby addr = 0 then 1 else 0)"

text \<open>The entries remembered and the environment of the process, before and after.\<close>

definition np_hooks_spawn_install ::
  "(nat \<Rightarrow> bool) \<Rightarrow> (cstring option \<Rightarrow> cstring \<Rightarrow> u64) \<Rightarrow> (u64 \<Rightarrow> int) \<Rightarrow> ours \<times> cstring list \<Rightarrow> ours \<times> cstring list" where
  "np_hooks_spawn_install mem_ok resolver dobby s = (case s of (st, env) \<Rightarrow>
     if np_hooks_env_lists_label (c_getenv env (cstr ''NOTPROTON_DISABLE'')) (Some (cstr ''spawn'')) then (st, env)
     else
       let st = np_remember_ours mem_ok env st;
           hooked = np_hook_symbol resolver dobby (cstr ''execve'')
             + np_hook_symbol resolver dobby (cstr ''posix_spawn'')
             + np_hook_symbol resolver dobby (cstr ''posix_spawnp'')
       in (st, if hooked = 3 then np_take_insert st env else env))"

section \<open>Lemmas: lists of libraries\<close>

text \<open>The parts of a value, and those of them an entry of ours does not name.\<close>

abbreviation (input) parts :: "cstring \<Rightarrow> cstring list" where
  "parts v \<equiv> str_fields 58 v"

definition value_of :: "cstring \<Rightarrow> cstring" where
  "value_of entry = drop (length NP_INSERT_KEY) entry"

definition named_by :: "cstring \<Rightarrow> cstring \<Rightarrow> bool" where
  "named_by own part \<longleftrightarrow> part \<noteq> [] \<and> part \<in> set (parts (value_of own))"

definition foreign_parts :: "cstring \<Rightarrow> cstring \<Rightarrow> cstring list" where
  "foreign_parts own entry = filter (\<lambda>p. p \<noteq> [] \<and> \<not> named_by own p) (parts (value_of entry))"

lemma list_has_loop_fields: "list_has_loop lst part \<longleftrightarrow> part \<in> set (parts lst)"
proof (induction lst part rule: list_has_loop.induct)
  case (1 lst part)
  show ?case
  proof (cases "str_split 58 lst")
    case None
    then show ?thesis by (auto simp: list_has_loop.simps[of lst] str_fields_unfold[of 58 lst])
  next
    case (Some p)
    then obtain f r where p: "str_split 58 lst = Some (f, r)" by (cases p) auto
    then show ?thesis
      using 1[OF p refl] by (auto simp: list_has_loop.simps[of lst] str_fields_unfold[of 58 lst])
  qed
qed

lemma np_list_has_named: "np_list_has (value_of own) = named_by own"
  by (rule ext) (simp add: np_list_has_def named_by_def list_has_loop_fields)

text \<open>The loop leaves the other parts, joined, and counts those it drops.\<close>

definition join_onto :: "cstring \<Rightarrow> cstring list \<Rightarrow> cstring" where
  "join_onto out ps = (if ps = [] then out else if out = [] then join_fields 58 ps else out @ 58 # join_fields 58 ps)"

lemma join_onto_Cons:
  "p \<noteq> [] \<Longrightarrow> join_onto (out @ (if out \<noteq> [] then [58] else []) @ p) ps = join_onto out (p # ps)"
  by (cases ps) (auto simp: join_onto_def)

lemma drop_ours_loop_parts:
  "drop_ours_loop own v out d =
     (join_onto out (filter (\<lambda>p. p \<noteq> [] \<and> \<not> np_list_has own p) (parts v)),
      d + length (filter (np_list_has own) (parts v)))"
proof (induction own v out d rule: drop_ours_loop.induct)
  case (1 own v out d)
  have empty: "\<not> np_list_has own []" by (simp add: np_list_has_def)
  show ?case
  proof (cases "str_split 58 v")
    case None
    then show ?thesis
      using empty join_onto_Cons[of v out "[]"]
      by (simp add: drop_ours_loop.simps[of own v] str_fields_unfold[of 58 v]) (auto simp: join_onto_def)
  next
    case (Some p)
    then obtain f r where p: "str_split 58 v = Some (f, r)" by (cases p) auto
    let ?out = "if \<not> np_list_has own f \<and> f \<noteq> [] then out @ (if out \<noteq> [] then [58] else []) @ f else out"
    let ?d = "if np_list_has own f then d + 1 else d"
    have step: "drop_ours_loop own v out d = drop_ours_loop own r ?out ?d"
      by (simp add: drop_ours_loop.simps[of own v] p)
    have ih: "drop_ours_loop own r ?out ?d =
        (join_onto ?out (filter (\<lambda>p. p \<noteq> [] \<and> \<not> np_list_has own p) (parts r)),
         ?d + length (filter (np_list_has own) (parts r)))"
      by (rule 1[of "(f, Some r)" f "Some r"]) (simp_all add: p)
    have "parts v = f # parts r" by (simp add: str_fields_unfold[of 58 v] p)
    then show ?thesis unfolding step ih using empty join_onto_Cons[of f out] by auto
  qed
qed

lemma np_drop_ours_parts:
  "np_drop_ours own (value_of entry) =
     (join_fields 58 (foreign_parts own entry), length (filter (named_by own) (parts (value_of entry))))"
  by (simp add: np_drop_ours_def drop_ours_loop_parts foreign_parts_def join_onto_def
      np_list_has_named flip: value_of_def)

text \<open>A part holds no separator, and what is written is no longer than what was read.\<close>

lemma str_fields_free: "p \<in> set (str_fields sep v) \<Longrightarrow> sep \<notin> set p"
  by (induction v arbitrary: p) (auto split: list.splits if_splits)

lemma join_fields_length:
  "fs \<noteq> [] \<Longrightarrow> length (join_fields sep fs) + 1 = sum_list (map (\<lambda>f. length f + 1) fs)"
  by (induction sep fs rule: join_fields.induct) auto

lemma sum_list_filter_le: "sum_list (map g (filter P xs)) \<le> sum_list (map (g :: 'a \<Rightarrow> nat) xs)"
  by (induction xs) auto

lemma drop_ours_length: "length (fst (np_drop_ours own (value_of entry))) \<le> length (value_of entry)"
proof (cases "foreign_parts own entry = []")
  case True
  then show ?thesis by (simp add: np_drop_ours_parts)
next
  case False
  let ?sum = "\<lambda>ps. sum_list (map (\<lambda>f :: cstring. length f + 1) ps)"
  have "length (join_fields 58 (foreign_parts own entry)) + 1 = ?sum (foreign_parts own entry)"
    by (rule join_fields_length[OF False])
  also have "\<dots> \<le> ?sum (parts (value_of entry))"
    unfolding foreign_parts_def by (rule sum_list_filter_le)
  also have "\<dots> = length (value_of entry) + 1"
    using join_fields_length[of "parts (value_of entry)" 58] by (simp add: join_fields_str_fields)
  finally show ?thesis by (simp add: np_drop_ours_parts)
qed

section \<open>What a child inherits\<close>

text \<open>The specification: what becomes of one entry.\<close>

definition strip_entry :: "ours \<Rightarrow> bool \<Rightarrow> cstring \<Rightarrow> cstring list" where
  "strip_entry st for_compat entry =
     (if np_block_entry st = Some entry then []
      else if \<not> np_is_insert entry then [entry]
      else if for_compat then []
      else case np_insert_entry st of None \<Rightarrow> [entry]
      | Some own \<Rightarrow>
          if \<not> (\<exists>p \<in> set (parts (value_of entry)). named_by own p) then [entry]
          else if foreign_parts own entry = [] then []
          else [NP_INSERT_KEY @ join_fields 58 (foreign_parts own entry)])"

definition stripped :: "ours \<Rightarrow> cstring list \<Rightarrow> cstring list" where
  "stripped st env = (if np_insert_entry st = None \<and> np_block_entry st = None then env
     else concat (map (strip_entry st (list_ex (has_prefix (cstr ''STEAM_COMPAT_DATA_PATH='')) env)) env))"

text \<open>The loop does this to every entry, within its buffer; it reports a change unless there is none.\<close>

lemma insert_entry_length: "np_is_insert e \<Longrightarrow> length e = length NP_INSERT_KEY + length (value_of e)"
  by (auto simp: np_is_insert_def has_prefix_iff value_of_def)

lemma join_fields_Nil_iff: "\<forall>f \<in> set fs. f \<noteq> [] \<Longrightarrow> join_fields sep fs = [] \<longleftrightarrow> fs = []"
  by (cases "(sep, fs)" rule: join_fields.cases) auto

lemma clean_loop_step:
  assumes "used + insert_room (entry # es) \<le> room"
  shows "\<exists>used' changed'. used' + insert_room es \<le> room \<and>
    clean_loop st for_compat room (entry # es) used clean changed =
    clean_loop st for_compat room es used' (clean @ strip_entry st for_compat entry) changed' \<and>
    (\<not> changed' \<longrightarrow> \<not> changed \<and> strip_entry st for_compat entry = [entry])"
proof (cases "np_block_entry st \<noteq> Some entry \<and> np_is_insert entry \<and> \<not> for_compat \<and> np_insert_entry st \<noteq> None")
  case False
  have "used + insert_room es \<le> room" using assms by (auto simp: insert_room_def split: if_splits)
  then show ?thesis using False
    by (cases "np_insert_entry st") (auto simp: strip_entry_def intro!: exI[of _ used])
next
  case True
  then obtain own where own: "np_insert_entry st = Some own" by auto
  obtain out d where d: "np_drop_ours own (value_of entry) = (out, d)" by fastforce
  have room: "used + length NP_INSERT_KEY + length out + 1 + insert_room es \<le> room"
    using assms True drop_ours_length[of own entry] insert_entry_length[of entry]
    by (simp add: insert_room_def d)
  have parts: "out = join_fields 58 (foreign_parts own entry)" "d = length (filter (named_by own) (parts (value_of entry)))"
    using d by (simp_all add: np_drop_ours_parts)
  have dropped: "d = 0 \<longleftrightarrow> \<not> (\<exists>p \<in> set (parts (value_of entry)). named_by own p)"
    by (auto simp: parts filter_empty_conv)
  have out: "out = [] \<longleftrightarrow> foreign_parts own entry = []"
    unfolding parts by (rule join_fields_Nil_iff) (simp add: foreign_parts_def)
  show ?thesis
    using True own room dropped out
    by (intro exI[of _ "if d = 0 \<or> out = [] then used else used + length NP_INSERT_KEY + length out + 1"]
        exI[of _ "d \<noteq> 0 \<or> changed"])
      (auto simp: strip_entry_def d[unfolded value_of_def] parts(1))
qed

lemma clean_loop_strips:
  assumes "used + insert_room env \<le> room"
  shows "\<exists>changed'. clean_loop st for_compat room env used clean changed =
      Some (clean @ concat (map (strip_entry st for_compat) env), changed') \<and>
    (\<not> changed' \<longrightarrow> \<not> changed \<and> concat (map (strip_entry st for_compat) env) = env)"
  using assms
proof (induction env arbitrary: used clean changed)
  case (Cons entry es)
  obtain used' changed' where s: "used' + insert_room es \<le> room"
    "clean_loop st for_compat room (entry # es) used clean changed =
     clean_loop st for_compat room es used' (clean @ strip_entry st for_compat entry) changed'"
    "\<not> changed' \<Longrightarrow> \<not> changed \<and> strip_entry st for_compat entry = [entry]"
    using clean_loop_step[OF Cons.prems, of st for_compat clean changed] by blast
  from Cons.IH[OF s(1), of "clean @ strip_entry st for_compat entry" changed'] s(2,3) show ?case by auto
qed simp

lemma without_insert_strips:
  assumes "mem_ok = (\<lambda>_. True)"
  shows "(case np_without_insert mem_ok st (Some env) of
     Passed_on \<Rightarrow> Some (Some env) | Cleaned e \<Rightarrow> Some (Some e) | Overrun \<Rightarrow> None) = Some (Some (stripped st env))"
proof (cases "np_insert_entry st = None \<and> np_block_entry st = None")
  case True
  then show ?thesis by (simp add: np_without_insert_def stripped_def)
next
  case False
  let ?b = "list_ex (has_prefix (cstr ''STEAM_COMPAT_DATA_PATH='')) env"
  obtain changed where "clean_loop st ?b (insert_room env) env 0 [] False = Some (stripped st env, changed)"
    "\<not> changed \<Longrightarrow> stripped st env = env"
    using clean_loop_strips[of 0 env "insert_room env" st ?b "[]" False] False by (auto simp: stripped_def)
  then show ?thesis using False assms by (auto simp: np_without_insert_def Let_def)
qed

text \<open>C28. What a child inherits, when memory lasts: one of the two programs that need the library is given
  the entry that inserts it, if its environment has none; any other child has every entry of ours taken
  out, of the lists that name other libraries too only what is ours; nothing is written out of bounds.\<close>

theorem child_env_spec:
  assumes "mem_ok = (\<lambda>_. True)"
  shows "child_env mem_ok st path (Some env) = Some (Some
    (if \<not> np_target_keeps_insert path then stripped st env
     else case np_insert_entry st of None \<Rightarrow> env
        | Some own \<Rightarrow> if list_ex np_is_insert env then env else env @ [own]))"
proof (cases "np_target_keeps_insert path")
  case True
  then show ?thesis using assms by (auto simp: child_env_def np_with_insert_def Let_def split: option.splits)
next
  case False
  then show ?thesis unfolding child_env_def using without_insert_strips[OF assms, of env st] by simp
qed

definition sample_ours :: ours where
  "sample_ours = \<lparr>np_insert_entry = Some (NP_INSERT_KEY @ cstr ''/np''), np_block_entry = None\<rparr>"

lemma sample_stripped:
  "stripped sample_ours [cstr ''A=1'', NP_INSERT_KEY @ cstr ''/np:/x''] = [cstr ''A=1'', NP_INSERT_KEY @ cstr ''/x'']"
  by (simp add: stripped_def strip_entry_def sample_ours_def np_is_insert_def has_prefix_def NP_INSERT_KEY_def
      cstr_def value_of_def foreign_parts_def named_by_def)

theorem child_env_spec_witness:
  "child_env (\<lambda>_. True) sample_ours (Some (cstr ''/bin/sh'')) (Some [cstr ''A=1'', NP_INSERT_KEY @ cstr ''/np:/x'']) =
    Some (Some [cstr ''A=1'', NP_INSERT_KEY @ cstr ''/x''])"
proof -
  have "\<not> np_target_keeps_insert (Some (cstr ''/bin/sh''))"
    by (simp add: np_target_keeps_insert_def str_rsplit_def str_split_def cstr_def)
  then show ?thesis
    using child_env_spec[OF refl, of sample_ours "Some (cstr ''/bin/sh'')" "[cstr ''A=1'', NP_INSERT_KEY @ cstr ''/np:/x'']"]
      sample_stripped by simp
qed

text \<open>A child that does not need the library does not load it: when memory lasts, no list of libraries
  in its environment names one that was inserted into the client.\<close>

theorem child_without_insert:
  assumes "child_env mem_ok st path (Some env) = Some (Some env')" "mem_ok = (\<lambda>_. True)"
    and "\<not> np_target_keeps_insert path" "np_insert_entry st = Some own"
    and "e \<in> set env'" "np_is_insert e"
  shows "\<not> (\<exists>p \<in> set (parts (value_of e)). named_by own p)"
proof -
  have "env' = stripped st env"
    using assms(1-3) without_insert_strips[OF assms(2), of env st] by (simp add: child_env_def)
  then obtain x b where "e \<in> set (strip_entry st b x)" using assms(4,5) by (auto simp: stripped_def)
  with assms(4,6) have "\<not> (\<exists>p \<in> set (parts (value_of e)). named_by own p) \<or>
      foreign_parts own x \<noteq> [] \<and> e = NP_INSERT_KEY @ join_fields 58 (foreign_parts own x)"
    by (auto simp: strip_entry_def split: if_splits)
  moreover have "set (parts (value_of (NP_INSERT_KEY @ join_fields 58 (foreign_parts own x)))) = set (foreign_parts own x)"
    if ne: "foreign_parts own x \<noteq> []"
  proof -
    have "\<forall>p \<in> set (foreign_parts own x). 58 \<notin> set p"
      by (auto simp: foreign_parts_def dest: str_fields_free)
    from str_fields_join[OF ne this] show ?thesis by (simp add: value_of_def)
  qed
  ultimately show ?thesis by (auto simp: foreign_parts_def)
qed

theorem child_without_insert_witness:
  "\<not> (\<exists>p \<in> set (parts (value_of (NP_INSERT_KEY @ cstr ''/x''))). named_by (NP_INSERT_KEY @ cstr ''/np'') p)"
proof -
  have "\<not> np_target_keeps_insert (Some (cstr ''/bin/sh''))"
    by (simp add: np_target_keeps_insert_def str_rsplit_def str_split_def cstr_def)
  then have env: "child_env (\<lambda>_. True) sample_ours (Some (cstr ''/bin/sh''))
      (Some [cstr ''A=1'', NP_INSERT_KEY @ cstr ''/np:/x'']) = Some (Some [cstr ''A=1'', NP_INSERT_KEY @ cstr ''/x''])"
    using without_insert_strips[OF refl, of "[cstr ''A=1'', NP_INSERT_KEY @ cstr ''/np:/x'']" sample_ours]
      sample_stripped by (simp add: child_env_def)
  show ?thesis
    by (rule child_without_insert[OF env refl])
      (simp_all add: sample_ours_def np_is_insert_def has_prefix_def np_target_keeps_insert_def str_rsplit_def
        str_split_def cstr_def)
qed

section \<open>The client itself\<close>

lemma has_prefix_append [simp]: "has_prefix p (p @ s)"
  by (simp add: has_prefix_def)

lemma insert_key: "env_key (cstr ''DYLD_INSERT_LIBRARIES'') = NP_INSERT_KEY"
  by (simp add: env_key_def NP_INSERT_KEY_def cstr_def)

lemma getenv_append: "c_getenv (env @ es) name = (case c_getenv env name of None \<Rightarrow> c_getenv es name | Some v \<Rightarrow> Some v)"
  by (induction env) (auto simp: c_getenv_def)

lemma getenv_unsetenv: "c_getenv (c_unsetenv env name) name = None"
  by (auto simp: c_getenv_def c_unsetenv_def find_None_iff)

lemma getenv_entry: "c_getenv [env_key name @ v] name = Some v"
  by (simp add: c_getenv_def)

lemma no_insert_iff: "\<not> list_ex np_is_insert env \<longleftrightarrow> c_getenv env (cstr ''DYLD_INSERT_LIBRARIES'') = None"
  by (auto simp: c_getenv_def insert_key np_is_insert_def list_ex_iff find_None_iff)

lemma np_entry_value:
  "np_entry mem_ok env (cstr ''DYLD_INSERT_LIBRARIES'') = Some e \<Longrightarrow>
     \<exists>v. c_getenv env (cstr ''DYLD_INSERT_LIBRARIES'') = Some v \<and> e = NP_INSERT_KEY @ v"
  by (auto simp: np_entry_def NP_INSERT_KEY_def cstr_def split: option.splits if_splits)

text \<open>The calls that start a program, and the environment one of them hands on: the one its hook makes
  where its hook is in place, the one it was given otherwise.\<close>

datatype start_call = Execve | Posix_spawn | Posix_spawnp

fun call_symbol :: "start_call \<Rightarrow> cstring" where
  "call_symbol Execve = cstr ''execve''"
| "call_symbol Posix_spawn = cstr ''posix_spawn''"
| "call_symbol Posix_spawnp = cstr ''posix_spawnp''"

definition spawn_disabled :: "cstring list \<Rightarrow> bool" where
  "spawn_disabled env \<longleftrightarrow> np_hooks_env_lists_label (c_getenv env (cstr ''NOTPROTON_DISABLE'')) (Some (cstr ''spawn''))"

definition in_place :: "(cstring option \<Rightarrow> cstring \<Rightarrow> u64) \<Rightarrow> (u64 \<Rightarrow> int) \<Rightarrow> cstring list \<Rightarrow> start_call \<Rightarrow> bool" where
  "in_place resolver dobby env call \<longleftrightarrow> \<not> spawn_disabled env \<and> np_hook_symbol resolver dobby (call_symbol call) = 1"

definition started_env ::
  "(nat \<Rightarrow> bool) \<Rightarrow> bool \<Rightarrow> ours \<Rightarrow> cstring option \<Rightarrow> cstring list \<Rightarrow> cstring list option option" where
  "started_env mem_ok hooked st path env = (if hooked then child_env mem_ok st path (Some env) else Some (Some env))"

lemma hook_symbol_01: "np_hook_symbol resolver dobby symbol = 0 \<or> np_hook_symbol resolver dobby symbol = 1"
  by (simp add: np_hook_symbol_def Let_def)

lemma all_hooked:
  "np_hook_symbol resolver dobby (cstr ''execve'') + np_hook_symbol resolver dobby (cstr ''posix_spawn'') +
     np_hook_symbol resolver dobby (cstr ''posix_spawnp'') = 3 \<longleftrightarrow>
   (\<forall>call. np_hook_symbol resolver dobby (call_symbol call) = 1)"
proof -
  have calls: "(\<forall>call. P call) \<longleftrightarrow> P Execve \<and> P Posix_spawn \<and> P Posix_spawnp" for P
    using start_call.induct[of P] by blast
  have three: "a + b + c = 3 \<longleftrightarrow> a = 1 \<and> b = 1 \<and> c = 1"
    if "a = 0 \<or> a = 1" "b = 0 \<or> b = 1" "c = 0 \<or> c = 1" for a b c :: nat
    using that by auto
  show ?thesis
    unfolding calls call_symbol.simps by (rule three) (rule hook_symbol_01)+
qed

lemma unsetenv_absent: "c_getenv env name = None \<Longrightarrow> c_unsetenv env name = env"
  by (auto simp: c_getenv_def c_unsetenv_def find_None_iff filter_id_conv)

text \<open>What installing leaves of the environment and remembers of it.\<close>

lemma spawn_installed:
  assumes "np_hooks_spawn_install mem_ok resolver dobby (\<lparr>np_insert_entry = None, np_block_entry = None\<rparr>, env) = (st, env')"
  shows "np_insert_entry st = (if spawn_disabled env then None else np_entry mem_ok env (cstr ''DYLD_INSERT_LIBRARIES''))"
    and "env' = (if (\<forall>call. in_place resolver dobby env call) \<and> np_insert_entry st \<noteq> None
      then c_unsetenv env (cstr ''DYLD_INSERT_LIBRARIES'') else env)"
proof -
  show entry: "np_insert_entry st =
      (if spawn_disabled env then None else np_entry mem_ok env (cstr ''DYLD_INSERT_LIBRARIES''))"
    using assms by (auto simp: np_hooks_spawn_install_def spawn_disabled_def np_remember_ours_def Let_def split: if_splits)
  show "env' = (if (\<forall>call. in_place resolver dobby env call) \<and> np_insert_entry st \<noteq> None
      then c_unsetenv env (cstr ''DYLD_INSERT_LIBRARIES'') else env)"
  proof (cases "spawn_disabled env")
    case True
    then show ?thesis using assms by (simp add: np_hooks_spawn_install_def spawn_disabled_def in_place_def)
  next
    case False
    then have "env' = (if \<forall>call. in_place resolver dobby env call then np_take_insert st env else env)"
      using assms unfolding np_hooks_spawn_install_def spawn_disabled_def prod.case Let_def all_hooked in_place_def
      by (auto split: if_splits)
    then show ?thesis by (auto simp: np_take_insert_def unsetenv_absent)
  qed
qed

text \<open>C31. The client can be started again, by whichever of the three calls, whatever hooks landed,
  whether or not they are disabled and whatever memory there was when they were installed. Installing
  takes the insert out of the environment exactly when all three hooks are in place and it is remembered;
  and a program that needs the library is started with it as it was, through a call whose hook is in
  place, which puts it back, as through one whose hook is not, which hands the environment on as it is.\<close>

theorem insert_survives_restart:
  assumes "np_hooks_spawn_install mem_ok resolver dobby (\<lparr>np_insert_entry = None, np_block_entry = None\<rparr>, env) = (st, env')"
    and "np_target_keeps_insert path" "mem_ok' = (\<lambda>_. True)"
  shows "env' = (if (\<forall>call. in_place resolver dobby env call) \<and> np_insert_entry st \<noteq> None
      then c_unsetenv env (cstr ''DYLD_INSERT_LIBRARIES'') else env) \<and>
    (\<exists>env''. started_env mem_ok' (in_place resolver dobby env call) st path env' = Some (Some env'') \<and>
      c_getenv env'' (cstr ''DYLD_INSERT_LIBRARIES'') = c_getenv env (cstr ''DYLD_INSERT_LIBRARIES''))"
proof -
  let ?name = "cstr ''DYLD_INSERT_LIBRARIES''" and ?all = "\<forall>call. in_place resolver dobby env call"
  note entry = spawn_installed(1)[OF assms(1)] and env' = spawn_installed(2)[OF assms(1)]
  have "\<exists>env''. started_env mem_ok' (in_place resolver dobby env call) st path env' = Some (Some env'') \<and>
      c_getenv env'' ?name = c_getenv env ?name"
  proof (cases "?all \<and> np_insert_entry st \<noteq> None")
    case True
    then obtain e where e: "np_insert_entry st = Some e" "np_entry mem_ok env ?name = Some e"
      using entry by (auto split: if_splits)
    then obtain v where v: "c_getenv env ?name = Some v" "e = NP_INSERT_KEY @ v" using np_entry_value by blast
    have "c_getenv env' ?name = None" using env' True by (simp add: getenv_unsetenv)
    moreover from this have "\<not> list_ex np_is_insert env'" by (simp add: no_insert_iff)
    ultimately show ?thesis
      using e(1) v True assms(2,3) getenv_entry[of ?name v]
      by (simp add: started_env_def child_env_def np_with_insert_def getenv_append insert_key)
  next
    case False
    then have same: "env' = env" using env' by auto
    show ?thesis
    proof (cases "np_insert_entry st")
      case None
      then show ?thesis using assms(2) same by (simp add: started_env_def child_env_def np_with_insert_def)
    next
      case (Some e)
      then obtain v where "c_getenv env ?name = Some v" using entry np_entry_value by (auto split: if_splits)
      then have "list_ex np_is_insert env'" using no_insert_iff[of env] same by auto
      then show ?thesis
        using assms(2) same Some by (simp add: started_env_def child_env_def np_with_insert_def)
    qed
  qed
  with env' show ?thesis by blast
qed

text \<open>Two of the three hooks land, and the third call still starts the client with the insert.\<close>

theorem insert_survives_restart_witness:
  "\<exists>env''. started_env (\<lambda>_. True) False sample_ours (Some (cstr ''/a/steam_osx'')) [NP_INSERT_KEY @ cstr ''/np''] =
      Some (Some env'') \<and>
    c_getenv env'' (cstr ''DYLD_INSERT_LIBRARIES'') =
    c_getenv [NP_INSERT_KEY @ cstr ''/np''] (cstr ''DYLD_INSERT_LIBRARIES'')"
proof -
  let ?env = "[NP_INSERT_KEY @ cstr ''/np'']"
  let ?resolver = "\<lambda>_ symbol. if symbol = cstr ''posix_spawnp'' then 0 else (0x1000 :: u64)"
  have env: "c_getenv ?env (cstr ''DYLD_INSERT_LIBRARIES'') = Some (cstr ''/np'')"
    using getenv_entry[of "cstr ''DYLD_INSERT_LIBRARIES''"] by (simp add: insert_key)
  have other: "c_getenv ?env (cstr ''SDL_JOYSTICK_BLACKLIST_DEVICES'') = None"
    "c_getenv ?env (cstr ''NOTPROTON_DISABLE'') = None"
    by (simp_all add: c_getenv_def) (simp_all add: env_key_def has_prefix_def NP_INSERT_KEY_def cstr_def)
  have third: "np_hook_symbol ?resolver (\<lambda>_. 0) (cstr ''posix_spawnp'') = 0"
    by (simp add: np_hook_symbol_def Let_def)
  have hooks: "np_hook_symbol ?resolver (\<lambda>_. 0) (cstr ''execve'') + np_hook_symbol ?resolver (\<lambda>_. 0) (cstr ''posix_spawn'') \<le> 2"
    using hook_symbol_01[of ?resolver "\<lambda>_. 0" "cstr ''execve''"]
      hook_symbol_01[of ?resolver "\<lambda>_. 0" "cstr ''posix_spawn''"] by auto
  have installed: "np_hooks_spawn_install (\<lambda>_. True) ?resolver (\<lambda>_. 0)
      (\<lparr>np_insert_entry = None, np_block_entry = None\<rparr>, ?env) = (sample_ours, ?env)"
    using env other third hooks
    by (simp add: np_hooks_spawn_install_def np_hooks_env_lists_label_def np_remember_ours_def np_entry_def
        sample_ours_def Let_def) (simp add: NP_INSERT_KEY_def cstr_def)
  have keeps: "np_target_keeps_insert (Some (cstr ''/a/steam_osx''))"
    by (simp add: np_target_keeps_insert_def str_rsplit_def str_split_def cstr_def)
  have not_placed: "in_place ?resolver (\<lambda>_. 0) ?env Posix_spawnp = False"
    using third by (simp add: in_place_def)
  show ?thesis
    using insert_survives_restart[OF installed keeps refl, of Posix_spawnp] unfolding not_placed by blast
qed

end
