(* ===== verification/Shortcuts.thy ===== *)
theory Shortcuts
  imports C_Str Anchor Compat_Probe "HOL-Library.Tree"
begin

text \<open>
  Non-Steam shortcuts, \<^verbatim>\<open>src/dylib/feats/usershortcuts.c\<close>: the layout of the client's shortcut objects
  is read from the code of one of its functions, the table of shortcuts is found by its vtable in the
  user object, and a shortcut is looked up in the client's red-black tree. The tree is in the memory of
  the client, which may hold anything; the lemmas state that the search always stops, and that it is a
  lookup in the search tree the memory represents, when it represents one.
\<close>

section \<open>The layout\<close>

definition SHORTCUTS_TYPE :: cstring where "SHORTCUTS_TYPE = cstr ''14CUserShortcuts''"
definition USER_SCAN_SPAN :: nat where "USER_SCAN_SPAN = 0x10000"
definition SCAN_CHUNK :: nat where "SCAN_CHUNK = 0x1000"
definition NODE_LEFT_OFF :: u64 where "NODE_LEFT_OFF = 0"
definition NODE_RIGHT_OFF :: u64 where "NODE_RIGHT_OFF = 4"
definition NODE_NONE :: u32 where "NODE_NONE = - 1"
definition TREE_DEPTH_MAX :: nat where "TREE_DEPTH_MAX = 64"
definition SHORTCUT_APPID_BIT :: u32 where "SHORTCUT_APPID_BIT = 0x80000000"
definition SHORTCUT_SPAN :: u32 where "SHORTCUT_SPAN = 0x100"
definition PROBE_SPAN :: u64 where "PROBE_SPAN = 0x180"
definition NOTIFY_SPAN :: u64 where "NOTIFY_SPAN = 0x40"
definition NO_REG :: u32 where "NO_REG = 32"
definition MOV_W0_1 :: u32 where "MOV_W0_1 = 0x52800020"

record layout_t =
  l_root :: u32
  l_nodes :: u32
  l_stride :: u32
  l_key :: u32
  l_value :: u32
  l_exe :: u32
  l_remote :: u32

record shortcuts_state =
  g_layout :: layout_t
  g_have_layout :: bool
  g_vptr :: u64
  g_shortcuts_off :: u32
  g_scan_missed :: u64

section \<open>Reading the layout from the code\<close>

definition probe_remote :: "mem \<Rightarrow> u64 \<Rightarrow> u32 option" where
  "probe_remote m notify = first_found (\<lambda>pc. case a64_ldr_uimm (load32 m pc) True of
     Some (rn, rt, off) \<Rightarrow> if rn = 1 then Some off else None | None \<Rightarrow> None) (window notify 16)"

text \<open>The locals of the probe.\<close>

record probe_t =
  pb_l :: layout_t
  pb_nodes_reg :: u32
  pb_node_reg :: u32
  pb_value_reg :: u32
  pb_have_root :: bool
  pb_have_key :: bool
  pb_have_exe :: bool
  pb_last_bl :: u64

definition probe_start :: probe_t where
  "probe_start = \<lparr>pb_l = \<lparr>l_root = 0, l_nodes = 0, l_stride = 0, l_key = 0, l_value = 0, l_exe = 0, l_remote = 0\<rparr>,
     pb_nodes_reg = NO_REG, pb_node_reg = NO_REG, pb_value_reg = NO_REG,
     pb_have_root = False, pb_have_key = False, pb_have_exe = False, pb_last_bl = 0\<rparr>"

text \<open>The load from a register, and its offset, of a word; likewise the additions.\<close>

definition load_of :: "u32 \<Rightarrow> bool \<Rightarrow> u32 \<Rightarrow> (u32 \<times> u32) option" where
  "load_of w wide base = (case a64_ldr_uimm w wide of
     Some (rn, rt, imm) \<Rightarrow> if rn = base then Some (rt, imm) else None | None \<Rightarrow> None)"

definition add_shifted_of :: "u32 \<Rightarrow> u32 \<Rightarrow> (u32 \<times> u32) option" where
  "add_shifted_of w base = (case a64_add_lsl w of
     Some (rd, rn, imm) \<Rightarrow> if rn = base then Some (rd, imm) else None | None \<Rightarrow> None)"

definition add_to_x0 :: "u32 \<Rightarrow> u32 \<Rightarrow> u32 option" where
  "add_to_x0 w base = (case a64_add_imm w of
     Some (rd, rn, imm) \<Rightarrow> if rd = 0 \<and> rn = base then Some imm else None | None \<Rightarrow> None)"

definition stride_of :: "u32 \<Rightarrow> u32" where
  "stride_of imm = (if imm < 32 then push_bit (unat imm) 1 else 0)"

text \<open>One instruction: \<open>Inl\<close> leaves the loop, with the target of the last call.\<close>

definition probe_step :: "u64 \<Rightarrow> u32 \<Rightarrow> probe_t \<Rightarrow> u64 + probe_t" where
  "probe_step pc w s =
     (if \<not> pb_have_root s \<and> load_of w False 0 \<noteq> None
      then Inr (s\<lparr>pb_l := (pb_l s)\<lparr>l_root := snd (the (load_of w False 0))\<rparr>, pb_have_root := True\<rparr>)
      else if pb_nodes_reg s = NO_REG \<and> load_of w True 0 \<noteq> None
      then Inr (s\<lparr>pb_l := (pb_l s)\<lparr>l_nodes := snd (the (load_of w True 0))\<rparr>,
             pb_nodes_reg := fst (the (load_of w True 0))\<rparr>)
      else if pb_node_reg s = NO_REG \<and> pb_nodes_reg s \<noteq> NO_REG \<and> add_shifted_of w (pb_nodes_reg s) \<noteq> None
      then Inr (s\<lparr>pb_l := (pb_l s)\<lparr>l_stride := stride_of (snd (the (add_shifted_of w (pb_nodes_reg s))))\<rparr>,
             pb_node_reg := fst (the (add_shifted_of w (pb_nodes_reg s)))\<rparr>)
      else if pb_node_reg s \<noteq> NO_REG \<and> \<not> pb_have_key s \<and> load_of w False (pb_node_reg s) \<noteq> None
      then Inr (s\<lparr>pb_l := (pb_l s)\<lparr>l_key := snd (the (load_of w False (pb_node_reg s)))\<rparr>, pb_have_key := True\<rparr>)
      else if pb_node_reg s \<noteq> NO_REG \<and> pb_value_reg s = NO_REG \<and> load_of w True (pb_node_reg s) \<noteq> None
      then Inr (s\<lparr>pb_l := (pb_l s)\<lparr>l_value := snd (the (load_of w True (pb_node_reg s)))\<rparr>,
             pb_value_reg := fst (the (load_of w True (pb_node_reg s)))\<rparr>)
      else if pb_value_reg s \<noteq> NO_REG \<and> \<not> pb_have_exe s \<and> add_to_x0 w (pb_value_reg s) \<noteq> None
      then Inr (s\<lparr>pb_l := (pb_l s)\<lparr>l_exe := the (add_to_x0 w (pb_value_reg s))\<rparr>, pb_have_exe := True\<rparr>)
      else if pb_have_exe s \<and> w = MOV_W0_1 then Inl (pb_last_bl s)
      else if pb_have_exe s then Inr (s\<lparr>pb_last_bl := (case a64_bl pc w of Some t \<Rightarrow> t | None \<Rightarrow> pb_last_bl s)\<rparr>)
      else Inr s)"

text \<open>The loop: the locals and \<open>notify\<close> after it.\<close>

fun probe_loop :: "mem \<Rightarrow> u64 list \<Rightarrow> probe_t \<Rightarrow> probe_t \<times> u64" where
  "probe_loop m [] s = (s, 0)"
| "probe_loop m (pc # pcs) s = (case probe_step pc (load32 m pc) s of
     Inl notify \<Rightarrow> (s, notify) | Inr s' \<Rightarrow> probe_loop m pcs s')"

definition layout_fits :: "layout_t \<Rightarrow> bool" where
  "layout_fits l \<longleftrightarrow>
     \<not> (l_stride l < 16 \<or> l_stride l > 64 \<or> l_key l + 4 > l_stride l \<or> l_value l + 8 > l_stride l) \<and>
     \<not> (l_exe l + 8 > SHORTCUT_SPAN \<or> l_remote l + 8 > SHORTCUT_SPAN)"

definition probe_layout :: "mem \<Rightarrow> u64 \<Rightarrow> u64 \<Rightarrow> u64 \<Rightarrow> shortcuts_state \<Rightarrow> bool \<times> shortcuts_state" where
  "probe_layout m set_shortcut_exe text text_sz st =
     (if set_shortcut_exe = 0 then (False, st)
      else
        let (s, notify) = probe_loop m (window set_shortcut_exe (unat (PROBE_SPAN div 4))) probe_start;
            notify = (if notify < text \<or> notify + NOTIFY_SPAN > text + text_sz then 0 else notify)
        in if \<not> pb_have_root s \<or> \<not> pb_have_key s \<or> \<not> pb_have_exe s \<or> notify = 0 then (False, st)
           else case probe_remote m notify of
               None \<Rightarrow> (False, st)
             | Some remote \<Rightarrow>
                 let l = (pb_l s)\<lparr>l_remote := remote\<rparr>
                 in if \<not> layout_fits l then (False, st)
                    else (True, st\<lparr>g_layout := l, g_have_layout := True\<rparr>))"

definition np_usershortcuts_bind :: "mem \<Rightarrow> u64 \<Rightarrow> u64 \<Rightarrow> u64 \<Rightarrow> shortcuts_state \<Rightarrow> bool \<times> shortcuts_state" where
  "np_usershortcuts_bind m mh slide set_shortcut_exe st =
     (let found = (if mh \<noteq> 0 \<and> set_shortcut_exe \<noteq> 0 then np_get_section_containing m mh slide set_shortcut_exe else None);
          (text, text_sz) = (case found of Some s \<Rightarrow> s | None \<Rightarrow> (0, 0));
          st = (if found \<noteq> None then st\<lparr>g_vptr := np_rtti_vptr m mh slide text text_sz SHORTCUTS_TYPE\<rparr> else st);
          (ok, st) = probe_layout m set_shortcut_exe text text_sz st
      in (ok \<and> g_vptr st \<noteq> 0, st))"

section \<open>Finding the table\<close>

text \<open>What \<open>vm_read\<close>, the kernel, says of a range: how much of it was read, if it can be read.\<close>

fun chunk_scan :: "mem \<Rightarrow> u64 \<Rightarrow> u64 \<Rightarrow> nat list \<Rightarrow> nat option" where
  "chunk_scan m vptr at [] = None"
| "chunk_scan m vptr at (i # is) =
     (if load64 m (at + of_nat i) = vptr then Some i else chunk_scan m vptr at is)"

fun find_off_loop :: "(u64 \<Rightarrow> nat \<Rightarrow> nat option) \<Rightarrow> mem \<Rightarrow> u64 \<Rightarrow> u64 \<Rightarrow> nat list \<Rightarrow> u32" where
  "find_off_loop vm_read m vptr user [] = 0"
| "find_off_loop vm_read m vptr user (base # bases) =
     (case vm_read (user + of_nat base) SCAN_CHUNK of
        None \<Rightarrow> 0
      | Some got \<Rightarrow>
          (case chunk_scan m vptr (user + of_nat base) (map (\<lambda>i. 8 * i) [0..<got div 8]) of
             Some i \<Rightarrow> of_nat (base + i)
           | None \<Rightarrow> find_off_loop vm_read m vptr user bases))"

definition find_shortcuts_off :: "(u64 \<Rightarrow> nat \<Rightarrow> nat option) \<Rightarrow> mem \<Rightarrow> u64 \<Rightarrow> u64 \<Rightarrow> u32" where
  "find_shortcuts_off vm_read m vptr user =
     find_off_loop vm_read m vptr user (map (\<lambda>k. k * SCAN_CHUNK) [0..<USER_SCAN_SPAN div SCAN_CHUNK])"

text \<open>The table, 0 for none, and the state after: the offset found, or the user it was not found in.\<close>

definition user_shortcuts ::
  "(u64 \<Rightarrow> nat \<Rightarrow> nat option) \<Rightarrow> mem \<Rightarrow> u64 \<Rightarrow> shortcuts_state \<Rightarrow> u64 \<times> shortcuts_state" where
  "user_shortcuts vm_read m user st =
     (if \<not> np_plausible_ptr user then (0, st)
      else
        let seen = (\<lambda>off st. let shortcuts = user + ucast off
              in if load64 m shortcuts \<noteq> g_vptr st then (0, st) else (shortcuts, st))
        in if g_shortcuts_off st \<noteq> 0 then seen (g_shortcuts_off st) st
           else if g_scan_missed st = user then (0, st)
           else let off = find_shortcuts_off vm_read m (g_vptr st) user
             in if off = 0 then (0, st\<lparr>g_scan_missed := user\<rparr>)
                else seen off (st\<lparr>g_shortcuts_off := off\<rparr>))"

section \<open>The tree\<close>

definition node_at :: "layout_t \<Rightarrow> u64 \<Rightarrow> u32 \<Rightarrow> u64" where
  "node_at l nodes i = nodes + ucast i * ucast (l_stride l)"

text \<open>One round of the search, at a node index: \<open>Inl\<close> is the answer, 0 for none.\<close>

definition tree_step :: "mem \<Rightarrow> layout_t \<Rightarrow> u64 \<Rightarrow> u32 \<Rightarrow> u32 \<Rightarrow> nat \<Rightarrow> u64 + u32" where
  "tree_step m l nodes appid i depth =
     (if i = NODE_NONE then Inl 0
      else if i <s 0 \<or> depth = TREE_DEPTH_MAX then Inl 0
      else
        let node = node_at l nodes i; key = load32 m (node + ucast (l_key l))
        in if key = appid then
             let shortcut = load64 m (node + ucast (l_value l))
             in Inl (if np_plausible_ptr shortcut then shortcut else 0)
           else Inr (load32 m (node + (if key > appid then NODE_LEFT_OFF else NODE_RIGHT_OFF))))"

text \<open>The search from an index. No depth beyond the greatest is reached from one that is not.\<close>

function find_loop :: "mem \<Rightarrow> layout_t \<Rightarrow> u64 \<Rightarrow> u32 \<Rightarrow> u32 \<Rightarrow> nat \<Rightarrow> u64" where
  "find_loop m l nodes appid i depth =
     (if TREE_DEPTH_MAX < depth then 0
      else case tree_step m l nodes appid i depth of
          Inl r \<Rightarrow> r
        | Inr j \<Rightarrow> find_loop m l nodes appid j (depth + 1))"
  by pat_completeness auto
termination
  by (relation "measure (\<lambda>(_, _, _, _, _, depth). Suc TREE_DEPTH_MAX - depth)") auto

declare find_loop.simps [simp del]

definition find_shortcut :: "mem \<Rightarrow> layout_t \<Rightarrow> u64 \<Rightarrow> u32 \<Rightarrow> u64" where
  "find_shortcut m l shortcuts appid =
     (let nodes = load64 m (shortcuts + ucast (l_nodes l)) in
      if \<not> np_plausible_ptr nodes then 0
      else find_loop m l nodes appid (load32 m (shortcuts + ucast (l_root l))) 0)"

section \<open>The question asked\<close>

definition exe_suffix :: "cstring \<Rightarrow> bool" where
  "exe_suffix exe = (case str_rsplit 46 exe of
     None \<Rightarrow> False
   | Some (_, ext) \<Rightarrow> map c_tolower ext = cstr ''exe'' \<or> map c_tolower ext = cstr ''exe\"'')"

text \<open>The answer, and the state after.\<close>

definition np_usershortcuts_runs_exe ::
  "(u64 \<Rightarrow> nat \<Rightarrow> nat option) \<Rightarrow> mem \<Rightarrow> u64 \<Rightarrow> u32 \<Rightarrow> shortcuts_state \<Rightarrow> bool \<times> shortcuts_state" where
  "np_usershortcuts_runs_exe vm_read m user appid st =
     (if appid AND SHORTCUT_APPID_BIT = 0 \<or> \<not> g_have_layout st \<or> g_vptr st = 0 then (False, st)
      else case user_shortcuts vm_read m user st of (shortcuts, st) \<Rightarrow>
        if shortcuts = 0 then (False, st)
        else
          let shortcut = find_shortcut m (g_layout st) shortcuts appid
          in if shortcut = 0 then (False, st)
             else if load64 m (shortcut + ucast (l_remote (g_layout st))) \<noteq> 0 then (False, st)
             else
               let exe = load64 m (shortcut + ucast (l_exe (g_layout st)))
               in if exe = 0 then (False, st)
                  else if \<not> np_plausible_addr exe then (False, st)
                  else (exe_suffix (mem_cstr m exe), st))"

section \<open>The search stops\<close>

text \<open>The rounds as steps between nodes at growing depths.\<close>

inductive search_step :: "mem \<Rightarrow> layout_t \<Rightarrow> u64 \<Rightarrow> u32 \<Rightarrow> u32 \<times> nat \<Rightarrow> u32 \<times> nat \<Rightarrow> bool"
  for m l nodes appid where
  "tree_step m l nodes appid i depth = Inr j \<Longrightarrow> search_step m l nodes appid (i, depth) (j, depth + 1)"

inductive_simps search_step_iff: "search_step m l nodes appid (i, depth) s"

lemma tree_step_deepest: "\<exists>r. tree_step m l nodes appid i TREE_DEPTH_MAX = Inl r"
  by (simp add: tree_step_def)

lemma find_loop_steps:
  assumes "depth \<le> TREE_DEPTH_MAX"
  shows "\<exists>n j r. depth + n \<le> TREE_DEPTH_MAX \<and> (search_step m l nodes appid ^^ n) (i, depth) (j, depth + n) \<and>
    tree_step m l nodes appid j (depth + n) = Inl r \<and> find_loop m l nodes appid i depth = r"
  using assms
proof (induction m l nodes appid i depth rule: find_loop.induct)
  case (1 m l nodes appid i depth)
  show ?case
  proof (cases "tree_step m l nodes appid i depth")
    case (Inl r)
    then have "find_loop m l nodes appid i depth = r" using 1(2) by (simp add: find_loop.simps)
    with Inl 1(2) show ?thesis by (intro exI[of _ "0 :: nat"] exI[of _ i] exI[of _ r]) auto
  next
    case (Inr j)
    then have "depth < TREE_DEPTH_MAX"
      using 1(2) tree_step_deepest[of m l nodes appid i] by (cases "depth = TREE_DEPTH_MAX") auto
    then obtain n k r where n: "Suc depth + n \<le> TREE_DEPTH_MAX"
      "(search_step m l nodes appid ^^ n) (j, Suc depth) (k, Suc depth + n)"
      "tree_step m l nodes appid k (Suc depth + n) = Inl r" "find_loop m l nodes appid j (Suc depth) = r"
      using 1(1)[OF _ Inr] by fastforce
    have "search_step m l nodes appid (i, depth) (j, Suc depth)" using Inr by (simp add: search_step_iff)
    then have "(search_step m l nodes appid ^^ Suc n) (i, depth) (k, Suc depth + n)"
      using n(2) by (rule relpowp_Suc_I2)
    moreover have "find_loop m l nodes appid i depth = r"
      using Inr n(4) 1(2) by (simp add: find_loop.simps[of m l nodes appid i])
    ultimately show ?thesis using n(1,3) by (intro exI[of _ "Suc n"]) auto
  qed
qed

section \<open>The search is a lookup\<close>

text \<open>The tree that the memory holds below a node index, if it holds one: keys with their shortcuts.\<close>

fun represents :: "mem \<Rightarrow> layout_t \<Rightarrow> u64 \<Rightarrow> (u32 \<times> u64) tree \<Rightarrow> u32 \<Rightarrow> bool" where
  "represents m l nodes Leaf i \<longleftrightarrow> i = NODE_NONE"
| "represents m l nodes (Node lt (key, shortcut) rt) i \<longleftrightarrow> \<not> i <s 0 \<and>
     load32 m (node_at l nodes i + ucast (l_key l)) = key \<and>
     load64 m (node_at l nodes i + ucast (l_value l)) = shortcut \<and>
     represents m l nodes lt (load32 m (node_at l nodes i + NODE_LEFT_OFF)) \<and>
     represents m l nodes rt (load32 m (node_at l nodes i + NODE_RIGHT_OFF))"

definition tree_map :: "(u32 \<times> u64) tree \<Rightarrow> u32 \<Rightarrow> u64 option" where
  "tree_map t = map_of (inorder t)"

lemma map_of_sorted_node:
  assumes "sorted_wrt (<) (map fst (xs @ (k, v) # ys))"
  shows "map_of (xs @ (k, v) # ys) a =
    (if a = k then Some v else if a < k then map_of xs a else map_of ys (a :: 'a :: linorder))"
proof -
  have x: "x < k" if "x \<in> fst ` set xs" for x using assms that by (auto simp: sorted_wrt_append)
  have y: "k < y" if "y \<in> fst ` set ys" for y using assms that by (auto simp: sorted_wrt_append)
  have "map_of xs a = None" if "k \<le> a" using x[of a] that unfolding map_of_eq_None_iff by (meson leD)
  moreover have "map_of ys a = None" if "a \<le> k" using y[of a] that unfolding map_of_eq_None_iff by (meson leD)
  ultimately show ?thesis by (auto simp: map_add_def split: option.splits)
qed

lemma find_loop_lookup:
  assumes "represents m l nodes t i" "sorted_wrt (<) (map fst (inorder t))" "depth + height t \<le> TREE_DEPTH_MAX"
  shows "find_loop m l nodes appid i depth =
    (case tree_map t appid of Some s \<Rightarrow> if np_plausible_ptr s then s else 0 | None \<Rightarrow> 0)"
  using assms
proof (induction t arbitrary: i depth)
  case Leaf
  then show ?case by (simp add: find_loop.simps tree_step_def tree_map_def)
next
  case (Node lt kv rt)
  obtain k v where kv: "kv = (k, v)" by (cases kv)
  have i: "i \<noteq> NODE_NONE" "\<not> i <s 0" using Node.prems(1) kv by (auto simp: NODE_NONE_def)
  have d: "depth < TREE_DEPTH_MAX" "Suc depth + height lt \<le> TREE_DEPTH_MAX" "Suc depth + height rt \<le> TREE_DEPTH_MAX"
    using Node.prems(3) by auto
  have sorted: "sorted_wrt (<) (map fst (inorder lt @ (k, v) # inorder rt))" using Node.prems(2) kv by simp
  then have "sorted_wrt (<) (map fst (inorder lt))" "sorted_wrt (<) (map fst (inorder rt))"
    by (auto simp: sorted_wrt_append)
  note ih = Node.IH(1)[OF _ this(1) d(2)] Node.IH(2)[OF _ this(2) d(3)]
  have map: "tree_map \<langle>lt, kv, rt\<rangle> appid = (if appid = k then Some v else if appid < k then tree_map lt appid
      else tree_map rt appid)"
    unfolding tree_map_def using map_of_sorted_node[OF sorted] kv by simp
  have step: "tree_step m l nodes appid i depth =
      (if k = appid then Inl (if np_plausible_ptr v then v else 0)
       else Inr (load32 m (node_at l nodes i + (if k > appid then NODE_LEFT_OFF else NODE_RIGHT_OFF))))"
    using Node.prems(1) kv i d(1) by (simp add: tree_step_def Let_def)
  have sub: "represents m l nodes lt (load32 m (node_at l nodes i + NODE_LEFT_OFF))"
    "represents m l nodes rt (load32 m (node_at l nodes i + NODE_RIGHT_OFF))"
    using Node.prems(1) kv by simp_all
  consider "appid = k" | "appid < k" | "k < appid" by (rule linorder_cases)
  then show ?case
  proof cases
    case 1
    then show ?thesis using d(1) by (simp add: find_loop.simps[of m l nodes k i] step[unfolded 1] map[unfolded 1])
  next
    case 2
    then show ?thesis using d(1) ih(1)[OF sub(1)] by (auto simp add: find_loop.simps[of m l nodes appid i] step map)
  next
    case 3
    then show ?thesis using d(1) ih(2)[OF sub(2)] by (auto simp add: find_loop.simps[of m l nodes appid i] step map)
  qed
qed

section \<open>The layout fits\<close>

text \<open>Offsets read from instructions are small, and the stride is a power of two.\<close>

definition probe_inv :: "probe_t \<Rightarrow> bool" where
  "probe_inv s \<longleftrightarrow> l_key (pb_l s) < 0x10000 \<and> l_value (pb_l s) < 0x10000 \<and> l_exe (pb_l s) < 0x10000"

lemma load_of_bound: "load_of w wide base = Some (rt, imm) \<Longrightarrow> imm < 0x10000"
proof -
  assume "load_of w wide base = Some (rt, imm)"
  then have imm: "imm = (drop_bit 10 w AND 0xFFF) * (if wide then 8 else 4)"
    by (auto simp: load_of_def a64_ldr_uimm_def Let_def split: if_splits)
  have f: "unat (drop_bit 10 w AND 0xFFF) < 0x1000"
    using field12_bound[of 10 w] by (simp add: word_less_nat_alt)
  have "unat ((drop_bit 10 w AND 0xFFF) * (if wide then 8 else 4)) \<le>
      unat (drop_bit 10 w AND 0xFFF) * unat (if wide then 8 else 4 :: u32)"
    by (simp only: unat_word_ariths mod_less_eq_dividend)
  then show ?thesis using f unfolding imm word_less_nat_alt by (cases wide) auto
qed

lemma add_to_x0_bound: "add_to_x0 w base = Some imm \<Longrightarrow> imm < 0x10000"
proof -
  assume "add_to_x0 w base = Some imm"
  then obtain rd rn where "a64_add_imm w = Some (rd, rn, imm)"
    by (auto simp: add_to_x0_def split: option.splits if_splits)
  from add_imm_bound[OF this] show ?thesis by (simp add: word_less_nat_alt)
qed

definition goes_on_ok :: "u64 + probe_t \<Rightarrow> bool" where
  "goes_on_ok r = (case r of Inl _ \<Rightarrow> True | Inr s \<Rightarrow> probe_inv s)"

lemma goes_on_if: "(c \<Longrightarrow> goes_on_ok a) \<Longrightarrow> goes_on_ok b \<Longrightarrow> goes_on_ok (if c then a else b)"
  by simp

lemma probe_step_inv: "probe_inv s \<Longrightarrow> goes_on_ok (probe_step pc w s)"
  unfolding probe_step_def
  by (intro goes_on_if) (auto simp: goes_on_ok_def probe_inv_def dest: load_of_bound add_to_x0_bound)

lemma probe_loop_inv: "probe_inv s \<Longrightarrow> probe_inv (fst (probe_loop m pcs s))"
proof (induction pcs arbitrary: s)
  case (Cons pc pcs)
  then show ?case
    using probe_step_inv[of s pc "load32 m pc"] by (cases "probe_step pc (load32 m pc) s") (auto simp: goes_on_ok_def)
qed simp

lemma probe_start_inv: "probe_inv probe_start"
  by (simp add: probe_inv_def probe_start_def)

lemma u32_add_bound: "x < 0x10000 \<Longrightarrow> \<not> x + k > (y :: u32) \<Longrightarrow> k < 0x10000 \<Longrightarrow> unat x + unat k \<le> unat y"
  by (simp add: word_less_nat_alt word_le_nat_alt not_less unat_word_ariths)

lemma probe_remote_bound: "probe_remote m notify = Some off \<Longrightarrow> off < 0x10000"
proof -
  assume "probe_remote m notify = Some off"
  then have "first_found (\<lambda>pc. map_option snd (load_of (load32 m pc) True 1)) (window notify 16) = Some off"
    unfolding probe_remote_def
    by (rule back_subst[of "\<lambda>f. first_found f _ = _"]) (auto simp: load_of_def split: option.splits)
  from first_found_some[OF this] show ?thesis by (auto dest: load_of_bound)
qed

lemma probe_layout_cases:
  assumes "probe_layout m f text text_sz st = (True, st')"
  obtains s notify remote where "probe_loop m (window f 96) probe_start = (s, notify)"
    "probe_remote m notify = Some remote" "layout_fits ((pb_l s)\<lparr>l_remote := remote\<rparr>)"
    "st' = st\<lparr>g_layout := (pb_l s)\<lparr>l_remote := remote\<rparr>, g_have_layout := True\<rparr>"
proof -
  obtain s n0 where loop: "probe_loop m (window f 96) probe_start = (s, n0)" by fastforce
  then show thesis
    using assms that[of s n0] unfolding probe_layout_def PROBE_SPAN_def
    by (auto simp: Let_def split: if_splits option.splits)
qed

section \<open>Properties\<close>

text \<open>C30. A lookup stops, whatever the memory of the client holds, a tree with cycles included: after at
  most 64 steps from one node to a child it answers.\<close>

theorem shortcut_search_stops:
  "\<exists>n j r. n \<le> TREE_DEPTH_MAX \<and> (search_step m l nodes appid ^^ n) (i, 0) (j, n) \<and>
     tree_step m l nodes appid j n = Inl r \<and> find_loop m l nodes appid i 0 = r"
  using find_loop_steps[of 0 m l nodes appid i] by simp

text \<open>C19. When the memory holds a search tree that is not too high, a shortcut is found exactly when the
  tree has its id, and it is the tree's one; it is not used when it cannot be a pointer.\<close>

theorem shortcut_lookup:
  assumes "np_plausible_ptr nodes" "nodes = load64 m (shortcuts + ucast (l_nodes l))"
    and "represents m l nodes t (load32 m (shortcuts + ucast (l_root l)))"
    and "sorted_wrt (<) (map fst (inorder t))" "height t \<le> TREE_DEPTH_MAX"
  shows "find_shortcut m l shortcuts appid =
    (case tree_map t appid of Some s \<Rightarrow> if np_plausible_ptr s then s else 0 | None \<Rightarrow> 0)"
  using find_loop_lookup[OF assms(3,4), of 0 appid] assms(1,2,5) by (simp add: find_shortcut_def Let_def)

text \<open>C32. A layout that is accepted keeps every access inside the object it is made to: key and value
  inside a node, whose size is between 16 and 64, the two fields of a shortcut inside its first 256
  bytes; no sum of it wraps around.\<close>

theorem probed_layout_fits:
  assumes "probe_layout m f text text_sz st = (True, st')"
  shows "let l = g_layout st' in g_have_layout st' \<and>
    16 \<le> unat (l_stride l) \<and> unat (l_stride l) \<le> 64 \<and>
    unat (l_key l) + 4 \<le> unat (l_stride l) \<and> unat (l_value l) + 8 \<le> unat (l_stride l) \<and>
    unat (l_exe l) + 8 \<le> 256 \<and> unat (l_remote l) + 8 \<le> 256"
proof -
  obtain s notify remote where s: "probe_loop m (window f 96) probe_start = (s, notify)"
    "probe_remote m notify = Some remote" "layout_fits ((pb_l s)\<lparr>l_remote := remote\<rparr>)"
    "st' = st\<lparr>g_layout := (pb_l s)\<lparr>l_remote := remote\<rparr>, g_have_layout := True\<rparr>"
    using probe_layout_cases[OF assms] .
  have inv: "probe_inv s" using probe_loop_inv[OF probe_start_inv, of m "window f 96"] s(1) by simp
  note fit = s(3)[unfolded layout_fits_def SHORTCUT_SPAN_def, simplified]
  have "unat (l_key (pb_l s)) + 4 \<le> unat (l_stride (pb_l s))"
    using u32_add_bound[of "l_key (pb_l s)" "l_stride (pb_l s)" 4] inv fit by (simp add: probe_inv_def)
  moreover have "unat (l_value (pb_l s)) + 8 \<le> unat (l_stride (pb_l s))"
    using u32_add_bound[of "l_value (pb_l s)" "l_stride (pb_l s)" 8] inv fit by (simp add: probe_inv_def)
  moreover have "unat (l_exe (pb_l s)) + 8 \<le> 256"
    using u32_add_bound[of "l_exe (pb_l s)" 256 8] inv fit by (simp add: probe_inv_def)
  moreover have "unat remote + 8 \<le> 256"
    using u32_add_bound[of remote 256 8] probe_remote_bound[OF s(2)] fit by simp
  moreover have "16 \<le> unat (l_stride (pb_l s))" "unat (l_stride (pb_l s)) \<le> 64"
    using fit by (simp_all add: word_less_nat_alt not_less)
  ultimately show ?thesis by (simp add: s(4))
qed

text \<open>The code of a function whose layout is accepted, and a tree of three shortcuts.\<close>

definition sample_setter :: mem where
  "sample_setter = word_mem [(0x1000, 0xB9401008), (0x1004, 0xF9400C09), (0x1008, 0x8B0B152A),
     (0x100C, 0xB940114C), (0x1010, 0xF9400D4D), (0x1014, 0x910081A0), (0x1018, 0x94000010),
     (0x101C, 0x52800020), (0x1058, 0xF9401828)]"

definition sample_l :: layout_t where
  "sample_l = \<lparr>l_root = 16, l_nodes = 24, l_stride = 32, l_key = 16, l_value = 24, l_exe = 32, l_remote = 48\<rparr>"

definition no_shortcuts :: shortcuts_state where
  "no_shortcuts = \<lparr>g_layout = pb_l probe_start, g_have_layout = False, g_vptr = 0, g_shortcuts_off = 0, g_scan_missed = 0\<rparr>"

lemma sample_setter_words:
  "load32 sample_setter 0x1000 = 0xB9401008" "load32 sample_setter 0x1004 = 0xF9400C09"
  "load32 sample_setter 0x1008 = 0x8B0B152A" "load32 sample_setter 0x100C = 0xB940114C"
  "load32 sample_setter 0x1010 = 0xF9400D4D" "load32 sample_setter 0x1014 = 0x910081A0"
  "load32 sample_setter 0x1018 = 0x94000010" "load32 sample_setter 0x101C = 0x52800020"
  "load32 sample_setter 0x1058 = 0xF9401828"
  by (simp_all add: sample_setter_def load32_word_mem)

lemma sample_window:
  "window 0x1000 96 = [0x1000, 0x1004, 0x1008, 0x100C, 0x1010, 0x1014, 0x1018, 0x101C] @
     map (\<lambda>i. 0x1000 + of_nat i * 4) [8..<96]"
proof -
  have "[0..<96] = [0, 1, 2, 3, 4, 5, 6, 7] @ [8 :: nat..<96]"
    using upt_split[of 0 8 96] by (simp add: upt_rec)
  then show ?thesis by (simp add: window_def)
qed

lemma sample_probe:
  "probe_layout sample_setter 0x1000 0x1000 0x1000 no_shortcuts =
     (True, no_shortcuts\<lparr>g_layout := sample_l, g_have_layout := True\<rparr>)"
proof -
  note words = sample_setter_words load_of_def add_shifted_of_def add_to_x0_def a64_ldr_uimm_def a64_add_lsl_def
    a64_add_imm_def a64_bl_def Let_def
  have "\<exists>s. probe_loop sample_setter (window 0x1000 96) probe_start = (s, 0x1058) \<and>
      pb_l s = sample_l\<lparr>l_remote := 0\<rparr> \<and> pb_have_root s \<and> pb_have_key s \<and> pb_have_exe s"
    unfolding sample_window
    by (simp add: probe_step_def words probe_start_def NO_REG_def MOV_W0_1_def stride_of_def sample_l_def)
  moreover have "probe_remote sample_setter 0x1058 = Some 48"
  proof -
    have "window 0x1058 16 = 0x1058 # map (\<lambda>i. 0x1058 + of_nat i * 4) [1..<16]"
      by (simp add: window_def upt_conv_Cons)
    then show ?thesis by (simp add: probe_remote_def words)
  qed
  ultimately show ?thesis
    by (auto simp: probe_layout_def PROBE_SPAN_def NOTIFY_SPAN_def layout_fits_def SHORTCUT_SPAN_def sample_l_def)
qed

theorem probed_layout_fits_witness: "unat (l_key sample_l) + 4 \<le> unat (l_stride sample_l)"
  using probed_layout_fits[OF sample_probe] by (simp add: Let_def)

definition sample_tree :: "(u32 \<times> u64) tree" where
  "sample_tree = Node (Node Leaf (0x80000001, 0x200001000) Leaf) (0x80000005, 0x200002000)
     (Node Leaf (0x80000009, 0x200003000) Leaf)"

definition sample_heap :: mem where
  "sample_heap = word_mem [(0x100000010, 1), (0x100000018, 0), (0x10000001C, 2),
     (0x200000000, 0xFFFFFFFF), (0x200000004, 0xFFFFFFFF), (0x200000010, 0x80000001),
     (0x200000018, 0x00001000), (0x20000001C, 2),
     (0x200000020, 0), (0x200000024, 2), (0x200000030, 0x80000005), (0x200000038, 0x00002000), (0x20000003C, 2),
     (0x200000040, 0xFFFFFFFF), (0x200000044, 0xFFFFFFFF), (0x200000050, 0x80000009),
     (0x200000058, 0x00003000), (0x20000005C, 2)]"

lemma sample_nodes:
  "node_at sample_l 0x200000000 0 = 0x200000000" "node_at sample_l 0x200000000 1 = 0x200000020"
  "node_at sample_l 0x200000000 2 = 0x200000040"
  by (simp_all add: node_at_def sample_l_def)

lemma sample_links:
  "load32 sample_heap 0x200000000 = 0xFFFFFFFF" "load32 sample_heap 0x200000004 = 0xFFFFFFFF"
  "load32 sample_heap 0x200000020 = 0" "load32 sample_heap 0x200000024 = 2"
  "load32 sample_heap 0x200000040 = 0xFFFFFFFF" "load32 sample_heap 0x200000044 = 0xFFFFFFFF"
  "load32 sample_heap 0x200000010 = 0x80000001" "load32 sample_heap 0x200000030 = 0x80000005"
  "load32 sample_heap 0x200000050 = 0x80000009"
  by (simp_all add: sample_heap_def load32_word_mem)

lemma sample_shortcuts:
  "load64 sample_heap 0x200000018 = 0x200001000" "load64 sample_heap 0x200000038 = 0x200002000"
  "load64 sample_heap 0x200000058 = 0x200003000"
  by (simp_all add: sample_heap_def load64_word_mem le64_def)

lemma sample_signs: "\<not> (0 :: u32) <s 0" "\<not> (1 :: u32) <s 0" "\<not> (2 :: u32) <s 0"
  by (simp_all add: word_sless_alt)

lemma sample_represents: "represents sample_heap sample_l 0x200000000 sample_tree 1"
proof -
  have "l_key sample_l = 16" "l_value sample_l = 24" "NODE_NONE = 0xFFFFFFFF"
    by (simp_all add: sample_l_def NODE_NONE_def)
  then show ?thesis
    by (simp add: sample_tree_def NODE_LEFT_OFF_def NODE_RIGHT_OFF_def sample_nodes sample_links sample_shortcuts
        sample_signs)
qed

theorem shortcut_lookup_witness: "find_shortcut sample_heap sample_l 0x100000000 0x80000009 = 0x200003000"
proof -
  have at: "0x200000000 = load64 sample_heap (0x100000000 + ucast (l_nodes sample_l))"
    "load32 sample_heap (0x100000000 + ucast (l_root sample_l)) = 1"
    by (simp_all add: sample_heap_def load32_word_mem load64_word_mem le64_def sample_l_def)
  have tree: "sorted_wrt (<) (map fst (inorder sample_tree))" "height sample_tree = 2"
    "tree_map sample_tree 0x80000009 = Some 0x200003000"
    by (simp_all add: sample_tree_def tree_map_def)
  show ?thesis
    by (rule trans[OF shortcut_lookup[OF _ at(1) _ tree(1)]])
      (simp_all only: at(2) sample_represents tree, simp_all add: np_plausible_ptr_def np_plausible_addr_def TREE_DEPTH_MAX_def)
qed

end
