(* ===== verification/Writer.thy ===== *)
theory Writer
  imports NP_Prelude
begin

text \<open>
  Writers into a buffer of fixed size, as the code has them in two places: the JSON of a prefix's state
  and the messages sent to the client's pages. A writer appends until something does not fit and has
  failed from then on. The locale states what one primitive write promises; the lemmas, proved once,
  say what any composition of such writes does: all of the text, or a failure, and never a byte beyond
  the buffer.
\<close>

locale bounded_writer =
  fixes buf :: "'s \<Rightarrow> u8 list"
    and cap :: "'s \<Rightarrow> nat"
    and ok :: "'s \<Rightarrow> bool"
    and slack :: nat
    and put :: "'a \<Rightarrow> 's \<Rightarrow> 's"
    and bytes :: "'a \<Rightarrow> u8 list"
  assumes put_cap: "cap (put x w) = cap w"
    and put_ok: "ok (put x w) \<longleftrightarrow> ok w \<and> length (buf w) + length (bytes x) + slack \<le> cap w"
    and put_buf: "ok (put x w) \<Longrightarrow> buf (put x w) = buf w @ bytes x"
    and put_room: "length (buf w) + slack \<le> cap w \<Longrightarrow> length (buf (put x w)) + slack \<le> cap w"
begin

definition room :: "'s \<Rightarrow> bool" where
  "room w \<longleftrightarrow> length (buf w) + slack \<le> cap w"

text \<open>A step of the writer writes a text, where at least \<open>k\<close> bytes are written already: all of it, or it
  fails for good; it stays in the buffer in either case.\<close>

definition writes :: "nat \<Rightarrow> ('s \<Rightarrow> 's) \<Rightarrow> u8 list \<Rightarrow> bool" where
  "writes k f s \<longleftrightarrow> (\<forall>w. (ok w \<longrightarrow> room w) \<longrightarrow> (ok w \<longrightarrow> k \<le> length (buf w)) \<longrightarrow>
     cap (f w) = cap w \<and> (room w \<longrightarrow> room (f w)) \<and>
     (ok (f w) \<longleftrightarrow> ok w \<and> length (buf w) + length s + slack \<le> cap w) \<and>
     (ok (f w) \<longrightarrow> buf (f w) = buf w @ s))"

lemma writesD:
  assumes "writes k f s" "ok w \<longrightarrow> room w" "ok w \<longrightarrow> k \<le> length (buf w)"
  shows "cap (f w) = cap w" "room w \<Longrightarrow> room (f w)"
    "ok (f w) \<longleftrightarrow> ok w \<and> length (buf w) + length s + slack \<le> cap w"
    "ok (f w) \<Longrightarrow> buf (f w) = buf w @ s"
  using assms by (auto simp: writes_def)

lemma writes_put: "writes k (put x) (bytes x)"
  by (simp add: writes_def put_cap put_ok put_buf put_room room_def)

lemma writes_id: "writes k (\<lambda>w. w) []"
  by (auto simp: writes_def room_def)

lemma writes_comp:
  assumes f: "writes k f s" and g: "writes k' g t" and le: "k' \<le> k + length s"
  shows "writes k (\<lambda>w. g (f w)) (s @ t)"
  unfolding writes_def
proof (intro allI impI)
  fix w assume w: "ok w \<longrightarrow> room w" "ok w \<longrightarrow> k \<le> length (buf w)"
  note fw = writesD[OF f w]
  have "ok (f w) \<longrightarrow> room (f w)" using fw(2,3) w(1) by auto
  moreover have "ok (f w) \<longrightarrow> k' \<le> length (buf (f w))" using fw(3,4) w(2) le by auto
  ultimately have gw: "cap (g (f w)) = cap (f w)" "room (f w) \<Longrightarrow> room (g (f w))"
    "ok (g (f w)) \<longleftrightarrow> ok (f w) \<and> length (buf (f w)) + length t + slack \<le> cap (f w)"
    "ok (g (f w)) \<Longrightarrow> buf (g (f w)) = buf (f w) @ t"
    using writesD[OF g] by blast+
  have "ok (g (f w)) \<longleftrightarrow> ok w \<and> length (buf w) + length (s @ t) + slack \<le> cap w"
    using gw(3) fw by auto
  moreover have "ok (g (f w)) \<longrightarrow> buf (g (f w)) = buf w @ s @ t"
    using gw(3,4) fw(4) by auto
  ultimately show "cap (g (f w)) = cap w \<and> (room w \<longrightarrow> room (g (f w))) \<and>
      (ok (g (f w)) \<longleftrightarrow> ok w \<and> length (buf w) + length (s @ t) + slack \<le> cap w) \<and>
      (ok (g (f w)) \<longrightarrow> buf (g (f w)) = buf w @ s @ t)"
    using gw(1,2) fw(1,2) by simp
qed

text \<open>A second step that is only taken when the first has not failed, and a loop that leaves off at a
  failure.\<close>

lemma writes_guard:
  assumes f: "writes k f s" and g: "writes k' g t" and le: "k' \<le> k + length s"
  shows "writes k (\<lambda>w. if ok (f w) then g (f w) else f w) (s @ t)"
  unfolding writes_def
proof (intro allI impI)
  fix w assume w: "ok w \<longrightarrow> room w" "ok w \<longrightarrow> k \<le> length (buf w)"
  show "cap (if ok (f w) then g (f w) else f w) = cap w \<and>
      (room w \<longrightarrow> room (if ok (f w) then g (f w) else f w)) \<and>
      ok (if ok (f w) then g (f w) else f w) = (ok w \<and> length (buf w) + length (s @ t) + slack \<le> cap w) \<and>
      (ok (if ok (f w) then g (f w) else f w) \<longrightarrow> buf (if ok (f w) then g (f w) else f w) = buf w @ s @ t)"
  proof (cases "ok (f w)")
    case True
    then show ?thesis using writesD[OF writes_comp[OF assms] w] by simp
  next
    case False
    then show ?thesis using writesD[OF f w] by auto
  qed
qed

lemma writes_loop:
  assumes nil: "\<And>w. loop [] w = w"
    and step: "\<And>x xs w. loop (x # xs) w = (if \<not> ok w then w else loop xs (put x w))"
  shows "writes k (loop xs) (concat (map bytes xs))"
proof (induction xs arbitrary: k)
  case Nil
  then show ?case using writes_id nil by (simp add: writes_def)
next
  case (Cons x xs)
  have "writes k (\<lambda>w. if ok w then loop xs (put x w) else w) ([] @ bytes x @ concat (map bytes xs))"
    using writes_guard[OF writes_id, of 0 "\<lambda>w. loop xs (put x w)" "bytes x @ concat (map bytes xs)" k]
      writes_comp[OF writes_put Cons[of 0], of 0 x] by simp
  moreover have "loop (x # xs) = (\<lambda>w. if ok w then loop xs (put x w) else w)" using step by auto
  ultimately show ?case by simp
qed

text \<open>Steps one after another.\<close>

lemma writes_steps:
  assumes "list_all2 (writes k) fs ss"
  shows "writes k (fold (\<lambda>f. f) fs) (concat ss)"
  using assms
proof (induction fs ss rule: list_all2_induct)
  case Nil
  then show ?case by (simp add: writes_id id_def)
next
  case (Cons f fs s ss)
  have "writes k (\<lambda>w. fold (\<lambda>f. f) fs (f w)) (s @ concat ss)" by (rule writes_comp[OF Cons(1,3)]) simp
  then show ?case by (simp add: comp_def)
qed

text \<open>What it comes to, from an empty buffer.\<close>

lemma writes_result:
  assumes "writes 0 f s" "buf w = []" "ok w \<longrightarrow> slack \<le> cap w"
  shows "ok (f w) \<longleftrightarrow> ok w \<and> length s + slack \<le> cap w" "ok (f w) \<Longrightarrow> buf (f w) = s"
    "slack \<le> cap w \<Longrightarrow> length (buf (f w)) + slack \<le> cap w"
  using writesD[OF assms(1), of w] assms(2,3) by (auto simp: room_def)

end

end
