(* ===== verification/Prefix_State.thy ===== *)
theory Prefix_State
  imports File_Sys Writer
begin

text \<open>
  What the compatibility page says of a game's prefix, \<^verbatim>\<open>src/dylib/feats/prefixstate.c\<close>: where the prefix
  is, the architecture it was made for, the build that ran last, whether it is in use or being rebuilt,
  and the record of this in JSON. The file system and the processes of the machine are the parameter
  \<open>host\<close>; file contents are parsed here.
\<close>

section \<open>The host\<close>

text \<open>
  What the code asks of the system: the content of a file that can be opened, the kind of a path, the
  seconds since a file was written, the device and inode of a path, a server's lock file (its being a
  regular file of this user, and its being locked), whether another process holds a lock file, and whether
  a file can be run.
\<close>

record host =
  h_read :: "cstring \<Rightarrow> u8 list option"
  h_is_dir :: "cstring \<Rightarrow> bool"
  h_is_file :: "cstring \<Rightarrow> bool"
  h_age :: "cstring \<Rightarrow> int option"
  h_ids :: "cstring \<Rightarrow> (nat \<times> nat) option"
  h_lock_file :: "cstring \<Rightarrow> (bool \<times> bool) option"
  h_held :: "cstring \<Rightarrow> bool"
  h_can_run :: "cstring \<Rightarrow> bool"

definition LIBRARIES_MAX :: nat where "LIBRARIES_MAX = 16"
definition LINE_MAX_LEN :: nat where "LINE_MAX_LEN = 2048"
definition FIELD_MAX :: nat where "FIELD_MAX = 256"
definition STARTING_GRACE_SECONDS :: int where "STARTING_GRACE_SECONDS = 30"
definition FINISHED_SHOWN_SECONDS :: int where "FINISHED_SHOWN_SECONDS = 600"
definition MACHINE_AMD64 :: u16 where "MACHINE_AMD64 = 0x8664"
definition MACHINE_ARM64 :: u16 where "MACHINE_ARM64 = 0xaa64"
definition MACHINE_I386 :: u16 where "MACHINE_I386 = 0x014c"
definition PE_OFFSET_MAX :: u32 where "PE_OFFSET_MAX = 0x1000"

section \<open>The libraries\<close>

definition vdf_unescape :: "u8 \<Rightarrow> u8" where
  "vdf_unescape c = (if c = 110 then 10 else if c = 116 then 9 else c)"

definition push_char :: "nat \<Rightarrow> cstring \<Rightarrow> u8 \<Rightarrow> cstring" where
  "push_char cap out c = (if length out + 1 < cap then out @ [c] else out)"

fun vdf_body :: "nat \<Rightarrow> cstring \<Rightarrow> cstring \<Rightarrow> (cstring \<times> cstring) option" where
  "vdf_body cap [] out = None"
| "vdf_body cap (c # r) out =
     (if c = 34 then Some (out, r)
      else if c = 92 then (case r of
          [] \<Rightarrow> vdf_body cap r (push_char cap out c)
        | e # r' \<Rightarrow> vdf_body cap r' (push_char cap out (vdf_unescape e)))
      else vdf_body cap r (push_char cap out c))"

text \<open>The next quoted token of a line, and what follows it.\<close>

definition vdf_token :: "cstring \<Rightarrow> nat \<Rightarrow> (cstring \<times> cstring) option" where
  "vdf_token p cap = (case dropWhile (\<lambda>c. c \<noteq> 34) p of [] \<Rightarrow> None | _ # r \<Rightarrow> vdf_body cap r [])"

definition add_library :: "cstring list \<Rightarrow> cstring \<Rightarrow> cstring list" where
  "add_library libs path =
     (if path = [] \<or> length libs \<ge> LIBRARIES_MAX then libs
      else if path \<in> set libs then libs
      else libs @ [c_copy PATH_MAX path])"

fun library_lines :: "cstring list \<Rightarrow> cstring list \<Rightarrow> cstring list" where
  "library_lines [] libs = libs"
| "library_lines (line # ls) libs = (case vdf_token line FIELD_MAX of
     None \<Rightarrow> library_lines ls libs
   | Some (key, rest) \<Rightarrow>
       if key \<noteq> cstr ''path'' then library_lines ls libs
       else case vdf_token rest PATH_MAX of
           None \<Rightarrow> library_lines ls libs
         | Some (v, _) \<Rightarrow> library_lines ls (add_library libs v))"

text \<open>The lines of a file, as \<^verbatim>\<open>fgets\<close> with a buffer of a size gives them.\<close>

definition file_lines :: "host \<Rightarrow> nat \<Rightarrow> cstring \<Rightarrow> cstring list option" where
  "file_lines h cap path = map_option (\<lambda>content. map c_prefix (fgets_all cap content)) (h_read h path)"

definition read_libraries :: "host \<Rightarrow> cstring \<Rightarrow> cstring list" where
  "read_libraries h steam_root =
     (let vdf = c_copy PATH_MAX (steam_root @ cstr ''/steamapps/libraryfolders.vdf'');
          libs = (case file_lines h LINE_MAX_LEN vdf of None \<Rightarrow> [] | Some ls \<Rightarrow> library_lines ls [])
      in if libs = [] then add_library libs steam_root else libs)"

definition compatdata_path :: "cstring \<Rightarrow> u32 \<Rightarrow> cstring" where
  "compatdata_path lib appid = lib @ cstr ''/steamapps/compatdata/'' @ dec_str (unat appid)"

definition manifest_path :: "cstring \<Rightarrow> u32 \<Rightarrow> cstring" where
  "manifest_path lib appid = lib @ cstr ''/steamapps/appmanifest_'' @ dec_str (unat appid) @ cstr ''.acf''"

definition find_compatdata :: "host \<Rightarrow> u32 \<Rightarrow> cstring list \<Rightarrow> nat \<Rightarrow> cstring option" where
  "find_compatdata h appid libs cap =
     (case find (\<lambda>lib. h_is_file h (c_copy PATH_MAX (manifest_path lib appid))) libs of
        Some lib \<Rightarrow> Some (c_copy cap (compatdata_path lib appid))
      | None \<Rightarrow>
          (case find (\<lambda>lib. h_is_dir h (c_copy PATH_MAX (compatdata_path lib appid @ cstr ''/pfx''))) libs of
             Some lib \<Rightarrow> Some (c_copy cap (compatdata_path lib appid))
           | None \<Rightarrow> None))"

section \<open>The prefix\<close>

text \<open>\<open>pread\<close> of \<open>n\<close> bytes at an offset.\<close>

definition pread :: "u8 list \<Rightarrow> nat \<Rightarrow> nat \<Rightarrow> u8 list option" where
  "pread content at n = (if at + n \<le> length content then Some (take n (drop at content)) else None)"

definition prefix_machine :: "host \<Rightarrow> cstring \<Rightarrow> u16 option" where
  "prefix_machine h compatdata =
     (case h_read h (c_copy PATH_MAX (compatdata @ cstr ''/pfx/drive_c/windows/system32/ntdll.dll'')) of
        None \<Rightarrow> None
      | Some content \<Rightarrow>
          (case pread content 0x3c 4 of
             Some [a, b, c, d] \<Rightarrow>
               if \<not> le32 a b c d < PE_OFFSET_MAX then None
               else (case pread content (unat (le32 a b c d)) 6 of
                   Some [p, e, y, z, lo, hi] \<Rightarrow>
                     if [p, e, y, z] = [80, 69, 0, 0] then Some (le16 lo hi) else None
                 | _ \<Rightarrow> None)
           | _ \<Rightarrow> None))"

definition machine_arch :: "u16 \<Rightarrow> cstring" where
  "machine_arch machine =
     (if machine = MACHINE_AMD64 then cstr ''rosetta''
      else if machine = MACHINE_ARM64 then cstr ''fex''
      else if machine = MACHINE_I386 then cstr ''32-bit'' else [])"

definition chomp :: "cstring \<Rightarrow> cstring" where
  "chomp s = rev (dropWhile (\<lambda>c. c = 10 \<or> c = 13) (rev s))"

text \<open>The build and its display name.\<close>

definition read_build_record :: "host \<Rightarrow> cstring \<Rightarrow> cstring \<times> cstring" where
  "read_build_record h compatdata =
     (case file_lines h FIELD_MAX (c_copy PATH_MAX (compatdata @ cstr ''/notproton-build'')) of
        None \<Rightarrow> ([], [])
      | Some [] \<Rightarrow> ([], [])
      | Some [build] \<Rightarrow> (chomp build, [])
      | Some (build # display # _) \<Rightarrow> (chomp build, chomp display))"

definition tool_fields :: "cstring \<Rightarrow> (cstring \<times> cstring \<times> cstring \<times> cstring) option" where
  "tool_fields line = (case str_split 9 line of None \<Rightarrow> None | Some (name, r) \<Rightarrow>
     (case str_split 9 r of None \<Rightarrow> None | Some (build, r) \<Rightarrow>
      (case str_split 9 r of None \<Rightarrow> None | Some (flavor, display) \<Rightarrow> Some (name, build, flavor, display))))"

fun tool_lines :: "cstring \<Rightarrow> cstring list \<Rightarrow> cstring \<times> cstring \<times> cstring" where
  "tool_lines tool [] = ([], [], [])"
| "tool_lines tool (line # ls) = (case tool_fields (chomp line) of
     None \<Rightarrow> tool_lines tool ls
   | Some (name, build, flavor, display) \<Rightarrow>
       if name \<noteq> tool then tool_lines tool ls
       else (c_copy FIELD_MAX build, c_copy FIELD_MAX flavor, c_copy FIELD_MAX display))"

text \<open>Build, flavor and display name of a tool.\<close>

definition read_tool :: "host \<Rightarrow> cstring \<Rightarrow> cstring \<Rightarrow> cstring \<times> cstring \<times> cstring" where
  "read_tool h support_root tool =
     (if tool = [] then ([], [], [])
      else case file_lines h LINE_MAX_LEN (c_copy PATH_MAX (support_root @ cstr ''/tools'')) of
          None \<Rightarrow> ([], [], []) | Some ls \<Rightarrow> tool_lines tool ls)"

definition hex_digit :: "nat \<Rightarrow> u8" where
  "hex_digit d = (if d < 10 then 48 + of_nat d else 87 + of_nat d)"

function hex_str :: "nat \<Rightarrow> cstring" where
  "hex_str n = (if n < 16 then [hex_digit n] else hex_str (n div 16) @ [hex_digit (n mod 16)])"
  by pat_completeness auto
termination by (relation "measure (\<lambda>n. n)") auto

declare hex_str.simps [simp del]

definition server_running :: "host \<Rightarrow> cstring option \<Rightarrow> cstring \<Rightarrow> bool" where
  "server_running h server_root compatdata = (case server_root of
     None \<Rightarrow> False
   | Some root \<Rightarrow>
       (case h_ids h (c_copy PATH_MAX (compatdata @ cstr ''/pfx'')) of
          None \<Rightarrow> False
        | Some (dev, ino) \<Rightarrow>
            (case h_lock_file h (c_copy PATH_MAX (root @ cstr ''/server-'' @ hex_str dev @ cstr ''-'' @
                hex_str ino @ cstr ''/lock'')) of
               None \<Rightarrow> False
             | Some (ours, held) \<Rightarrow> if \<not> ours then False else held)))"

definition ACTIVE_PHASES :: "cstring list" where
  "ACTIVE_PHASES = [cstr ''setup'', cstr ''copy'', cstr ''finish'']"
definition DONE_PHASES :: "cstring list" where
  "DONE_PHASES = [cstr ''done'', cstr ''done-backup'', cstr ''failed'']"

definition is_phase :: "cstring \<Rightarrow> cstring list \<Rightarrow> bool" where
  "is_phase p phases = list_ex (\<lambda>s. p = s) phases"

text \<open>A file that was written less than some seconds ago.\<close>

definition younger :: "host \<Rightarrow> cstring \<Rightarrow> int \<Rightarrow> bool" where
  "younger h path secs = (case h_age h path of None \<Rightarrow> False | Some age \<Rightarrow> age < secs)"

definition read_rebuild :: "host \<Rightarrow> cstring \<Rightarrow> nat \<Rightarrow> cstring" where
  "read_rebuild h compatdata cap =
     (let path = c_copy PATH_MAX (compatdata @ cstr ''/notproton-rebuild'') in
      case file_lines h FIELD_MAX path of
        None \<Rightarrow> []
      | Some [] \<Rightarrow> []
      | Some (first # rest) \<Rightarrow>
          let pid_text = (case rest of [] \<Rightarrow> [] | p # _ \<Rightarrow> p); line = chomp first in
          if is_phase line DONE_PHASES
          then if younger h path FINISHED_SHOWN_SECONDS then c_copy cap line else []
          else if \<not> is_phase line ACTIVE_PHASES then []
          else
            let held = h_held h (c_copy PATH_MAX (compatdata @ cstr ''/.notproton-rebuild.lock''));
                alive = held \<or> (pid_text = cstr ''0'' @ [10] \<and> younger h path STARTING_GRACE_SECONDS)
            in c_copy cap (if alive then line else cstr ''failed''))"

definition read_app :: "host \<Rightarrow> cstring \<Rightarrow> nat \<Rightarrow> cstring" where
  "read_app h support_root cap =
     (case file_lines h PATH_MAX (c_copy PATH_MAX (support_root @ cstr ''/app-executable'')) of
        None \<Rightarrow> []
      | Some [] \<Rightarrow> []
      | Some (first # _) \<Rightarrow>
          let line = chomp first
          in if has_prefix (cstr ''/'') line \<and> h_can_run h line then c_copy cap line else [])"

section \<open>The state\<close>

record np_prefix_roots =
  steam_root :: cstring
  support_root :: cstring
  server_root :: "cstring option"

record np_prefix_state =
  st_tool :: cstring
  st_tool_build :: cstring
  st_tool_flavor :: cstring
  st_tool_display :: cstring
  st_compatdata :: cstring
  st_has_prefix :: bool
  st_prefix_arch :: cstring
  st_last_build :: cstring
  st_last_display :: cstring
  st_needs_rebuild :: bool
  st_running :: bool
  st_rebuild :: cstring
  st_app :: cstring

definition np_prefix_state :: "host \<Rightarrow> u32 \<Rightarrow> cstring option \<Rightarrow> np_prefix_roots \<Rightarrow> np_prefix_state" where
  "np_prefix_state h appid tool roots =
     (let tool = c_copy FIELD_MAX (case tool of None \<Rightarrow> [] | Some t \<Rightarrow> t);
          libs = read_libraries h (steam_root roots);
          found = find_compatdata h appid libs PATH_MAX;
          compatdata = (case found of None \<Rightarrow> [] | Some cd \<Rightarrow> cd);
          machine = (if found = None then None else prefix_machine h compatdata);
          arch = (case machine of None \<Rightarrow> [] | Some w \<Rightarrow> c_copy 16 (machine_arch w));
          (last_build, last_display) = (if found = None then ([], []) else read_build_record h compatdata);
          rebuild = (if found = None then [] else read_rebuild h compatdata 16);
          running = (found \<noteq> None \<and> server_running h (server_root roots) compatdata);
          (build, flavor, display) = read_tool h (support_root roots) tool;
          flavor = (if flavor \<noteq> cstr ''fex'' \<and> flavor \<noteq> cstr ''rosetta'' then [] else flavor)
      in \<lparr>st_tool = tool, st_tool_build = build, st_tool_flavor = flavor, st_tool_display = display,
          st_compatdata = compatdata, st_has_prefix = (machine \<noteq> None), st_prefix_arch = arch,
          st_last_build = last_build, st_last_display = last_display,
          st_needs_rebuild = (machine \<noteq> None \<and> flavor \<noteq> [] \<and> arch \<noteq> [] \<and> arch \<noteq> flavor),
          st_running = running, st_rebuild = rebuild, st_app = read_app h (support_root roots) PATH_MAX\<rparr>)"

definition np_prefix_rebuilding :: "np_prefix_state \<Rightarrow> bool" where
  "np_prefix_rebuilding st = is_phase (st_rebuild st) ACTIVE_PHASES"

section \<open>The record in JSON\<close>

record json_t =
  js_buf :: cstring
  js_cap :: nat
  js_ok :: bool

definition json_raw :: "cstring \<Rightarrow> json_t \<Rightarrow> json_t" where
  "json_raw s j = (if \<not> js_ok j \<or> length (js_buf j) + length s \<ge> js_cap j then j\<lparr>js_ok := False\<rparr>
     else j\<lparr>js_buf := js_buf j @ s\<rparr>)"

text \<open>A character as it is written: escaped, as four hexadecimal digits, or itself.\<close>

definition json_piece :: "u8 \<Rightarrow> cstring" where
  "json_piece c = (if c = 34 \<or> c = 92 then [92, c]
     else if c < 0x20 then [92, 117, 48, 48] @ [hex_digit (unat c div 16), hex_digit (unat c mod 16)]
     else [c])"

fun json_chars :: "cstring \<Rightarrow> json_t \<Rightarrow> json_t" where
  "json_chars [] j = j"
| "json_chars (c # cs) j = (if \<not> js_ok j then j else json_chars cs (json_raw (json_piece c) j))"

definition json_key :: "cstring \<Rightarrow> json_t \<Rightarrow> json_t" where
  "json_key key j = json_raw key (json_raw (if length (js_buf j) > 1 then [44, 34] else [34]) j)"

definition json_string :: "string \<Rightarrow> cstring \<Rightarrow> json_t \<Rightarrow> json_t" where
  "json_string key v j =
     json_raw [34] (json_chars v (json_raw [34, 58, 34] (json_key (cstr key) j)))"

definition json_bool :: "string \<Rightarrow> bool \<Rightarrow> json_t \<Rightarrow> json_t" where
  "json_bool key v j = json_raw (34 # 58 # cstr (if v then ''true'' else ''false'')) (json_key (cstr key) j)"

text \<open>The length, or -1, and what was written.\<close>

definition np_prefix_state_json :: "u32 \<Rightarrow> np_prefix_state \<Rightarrow> nat \<Rightarrow> int \<times> cstring" where
  "np_prefix_state_json appid st cap =
     (let j = \<lparr>js_buf = [], js_cap = cap, js_ok = (cap > 0)\<rparr>;
          j = json_raw (c_copy 16 (dec_str (unat appid))) (json_raw (123 # 34 # cstr ''appid'' @ [34, 58]) j);
          j = json_string ''tool'' (st_tool st) j;
          j = json_string ''toolDisplay'' (st_tool_display st) j;
          j = json_string ''toolArch'' (st_tool_flavor st) j;
          j = json_bool ''prefix'' (st_has_prefix st) j;
          j = json_string ''prefixArch'' (st_prefix_arch st) j;
          j = json_string ''lastBuild'' (st_last_build st) j;
          j = json_string ''lastDisplay'' (st_last_display st) j;
          j = json_bool ''needsRebuild'' (st_needs_rebuild st) j;
          j = json_bool ''running'' (st_running st) j;
          j = json_string ''rebuild'' (st_rebuild st) j;
          j = json_bool ''app'' (st_app st \<noteq> []) j;
          j = json_raw [125] j
      in (if js_ok j then int (length (js_buf j)) else - 1, js_buf j))"

section \<open>Lemmas: tokens\<close>

text \<open>A token as Steam writes it.\<close>

definition vdf_escape_char :: "u8 \<Rightarrow> cstring" where
  "vdf_escape_char c = (if c = 10 then [92, 110] else if c = 9 then [92, 116]
     else if c = 34 \<or> c = 92 then [92, c] else [c])"

definition vdf_escape :: "cstring \<Rightarrow> cstring" where
  "vdf_escape s = concat (map vdf_escape_char s)"

lemma vdf_body_char:
  "vdf_body cap (vdf_escape_char c @ r) out = vdf_body cap r (push_char cap out c)"
  by (auto simp: vdf_escape_char_def vdf_unescape_def)

lemma vdf_body_escape:
  assumes "length out + length s < cap"
  shows "vdf_body cap (vdf_escape s @ 34 # rest) out = Some (out @ s, rest)"
  using assms
proof (induction s arbitrary: out)
  case (Cons c s)
  then show ?case using vdf_body_char[of cap c "vdf_escape s @ 34 # rest" out]
    by (simp add: vdf_escape_def push_char_def)
qed (simp add: vdf_escape_def)

section \<open>Lemmas: the writer\<close>

interpretation js: bounded_writer js_buf js_cap js_ok "Suc 0" json_raw "\<lambda>s. s"
  by unfold_locales (auto simp: json_raw_def)

definition json_escape :: "cstring \<Rightarrow> cstring" where
  "json_escape v = concat (map json_piece v)"

text \<open>The characters of a value: the same loop over the pieces they are written as.\<close>

fun json_pieces :: "cstring list \<Rightarrow> json_t \<Rightarrow> json_t" where
  "json_pieces [] j = j"
| "json_pieces (p # ps) j = (if \<not> js_ok j then j else json_pieces ps (json_raw p j))"

lemma json_chars_pieces: "json_chars v = json_pieces (map json_piece v)"
proof
  show "json_chars v j = json_pieces (map json_piece v) j" for j by (induction v arbitrary: j) simp_all
qed

lemma writes_chars: "js.writes k (json_chars v) (json_escape v)"
  unfolding json_chars_pieces json_escape_def
  using js.writes_loop[of json_pieces k "map json_piece v"] by simp

text \<open>A member after the first.\<close>

definition member_text :: "string \<Rightarrow> cstring \<Rightarrow> cstring" where
  "member_text key v = [44, 34] @ cstr key @ [34, 58] @ v"

definition string_text :: "cstring \<Rightarrow> cstring" where
  "string_text v = 34 # json_escape v @ [34]"

definition bool_text :: "bool \<Rightarrow> cstring" where
  "bool_text v = cstr (if v then ''true'' else ''false'')"

lemma writes_key: "js.writes 2 (json_key key) ([44, 34] @ key)"
proof -
  have "js.writes 2 (\<lambda>j. json_raw key (json_raw [44, 34] j)) ([44, 34] @ key)"
    by (rule js.writes_comp[OF js.writes_put js.writes_put[of 0]]) simp
  moreover have "json_key key j = json_raw key (json_raw [44, 34] j)" if "js_ok j \<longrightarrow> 2 \<le> length (js_buf j)" for j
    using that by (auto simp: json_key_def json_raw_def)
  ultimately show ?thesis by (simp add: js.writes_def)
qed

lemma writes_string: "js.writes 2 (json_string key v) (member_text key (string_text v))"
proof -
  have "js.writes 2 (\<lambda>j. json_raw [34] (json_chars v (json_raw [34, 58, 34] (json_key (cstr key) j))))
      (((([44, 34] @ cstr key) @ [34, 58, 34]) @ json_escape v) @ [34])"
    by (rule js.writes_comp[OF js.writes_comp[OF js.writes_comp[OF writes_key js.writes_put[of 0]] writes_chars[of 0]] js.writes_put[of 0]])
      simp_all
  then show ?thesis by (simp add: json_string_def[abs_def] member_text_def string_text_def)
qed

lemma writes_bool: "js.writes 2 (json_bool key v) (member_text key (bool_text v))"
proof -
  have "js.writes 2 (\<lambda>j. json_raw (34 # 58 # cstr (if v then ''true'' else ''false'')) (json_key (cstr key) j))
      (([44, 34] @ cstr key) @ 34 # 58 # cstr (if v then ''true'' else ''false''))"
    by (rule js.writes_comp[OF writes_key js.writes_put[of 0]]) simp
  then show ?thesis by (simp add: json_bool_def[abs_def] member_text_def bool_text_def)
qed

definition state_text :: "u32 \<Rightarrow> np_prefix_state \<Rightarrow> cstring" where
  "state_text appid st = 123 # 34 # cstr ''appid'' @ [34, 58] @ dec_str (unat appid) @
     concat (map (\<lambda>(key, v). member_text key v)
       [(''tool'', string_text (st_tool st)), (''toolDisplay'', string_text (st_tool_display st)),
        (''toolArch'', string_text (st_tool_flavor st)), (''prefix'', bool_text (st_has_prefix st)),
        (''prefixArch'', string_text (st_prefix_arch st)), (''lastBuild'', string_text (st_last_build st)),
        (''lastDisplay'', string_text (st_last_display st)), (''needsRebuild'', bool_text (st_needs_rebuild st)),
        (''running'', bool_text (st_running st)), (''rebuild'', string_text (st_rebuild st)),
        (''app'', bool_text (st_app st \<noteq> []))]) @ [125]"

text \<open>A decimal number of 32 bits has at most ten digits.\<close>

lemma appid_text: "c_copy 16 (dec_str (unat (appid :: u32))) = dec_str (unat appid)"
proof -
  have "unat appid < 2 ^ LENGTH(32)" by (rule unsigned_less)
  then have "unat appid < 10 ^ Suc 9" by simp
  from dec_str_length[OF this] show ?thesis by (intro c_copy_fits) simp
qed

definition state_members :: "np_prefix_state \<Rightarrow> (json_t \<Rightarrow> json_t) list" where
  "state_members st =
     [json_string ''tool'' (st_tool st), json_string ''toolDisplay'' (st_tool_display st),
      json_string ''toolArch'' (st_tool_flavor st), json_bool ''prefix'' (st_has_prefix st),
      json_string ''prefixArch'' (st_prefix_arch st), json_string ''lastBuild'' (st_last_build st),
      json_string ''lastDisplay'' (st_last_display st), json_bool ''needsRebuild'' (st_needs_rebuild st),
      json_bool ''running'' (st_running st), json_string ''rebuild'' (st_rebuild st),
      json_bool ''app'' (st_app st \<noteq> [])]"

lemma state_json_writes:
  "js.writes 0 (\<lambda>j. json_raw [125] (fold (\<lambda>f. f) (state_members st)
     (json_raw (c_copy 16 (dec_str (unat appid))) (json_raw (123 # 34 # cstr ''appid'' @ [34, 58]) j))))
   (state_text appid st)"
proof -
  have "list_all2 (js.writes 2) (state_members st)
     [member_text ''tool'' (string_text (st_tool st)), member_text ''toolDisplay'' (string_text (st_tool_display st)),
      member_text ''toolArch'' (string_text (st_tool_flavor st)), member_text ''prefix'' (bool_text (st_has_prefix st)),
      member_text ''prefixArch'' (string_text (st_prefix_arch st)), member_text ''lastBuild'' (string_text (st_last_build st)),
      member_text ''lastDisplay'' (string_text (st_last_display st)),
      member_text ''needsRebuild'' (bool_text (st_needs_rebuild st)), member_text ''running'' (bool_text (st_running st)),
      member_text ''rebuild'' (string_text (st_rebuild st)), member_text ''app'' (bool_text (st_app st \<noteq> []))]"
    by (simp add: state_members_def writes_string writes_bool)
  note members = js.writes_steps[OF this]
  show ?thesis
    using js.writes_comp[OF js.writes_comp[OF js.writes_comp[OF js.writes_put[of 0] js.writes_put[of 0]] members] js.writes_put[of 0],
        of "123 # 34 # cstr ''appid'' @ [34, 58]" "c_copy 16 (dec_str (unat appid))" "[125]"]
    by (simp add: state_text_def appid_text)
qed

lemma state_json_run:
  "np_prefix_state_json appid st cap =
     (let j = json_raw [125] (fold (\<lambda>f. f) (state_members st) (json_raw (c_copy 16 (dec_str (unat appid)))
            (json_raw (123 # 34 # cstr ''appid'' @ [34, 58]) \<lparr>js_buf = [], js_cap = cap, js_ok = (cap > 0)\<rparr>)))
      in (if js_ok j then int (length (js_buf j)) else - 1, js_buf j))"
  by (simp add: np_prefix_state_json_def state_members_def)

section \<open>Lemmas: reading JSON back\<close>

text \<open>A reader of JSON strings: up to the closing quote, with its escapes.\<close>

definition hex_value :: "u8 \<Rightarrow> nat" where
  "hex_value c = (if c < 58 then unat c - 48 else unat c - 87)"

fun json_unescape :: "cstring \<Rightarrow> (cstring \<times> cstring) option" where
  "json_unescape [] = None"
| "json_unescape (c # r) =
     (if c = 34 then Some ([], r)
      else if c \<noteq> 92 then map_option (\<lambda>(s, r). (c # s, r)) (json_unescape r)
      else case r of
          [] \<Rightarrow> None
        | e # r1 \<Rightarrow>
            if e \<noteq> 117 then map_option (\<lambda>(s, r). (e # s, r)) (json_unescape r1)
            else (case r1 of
                z # y # hi # lo # r2 \<Rightarrow>
                  map_option (\<lambda>(s, r). (of_nat (hex_value hi * 16 + hex_value lo) # s, r)) (json_unescape r2)
              | _ \<Rightarrow> None))"

lemma json_unescape_piece:
  "json_unescape (json_piece c @ r) = map_option (\<lambda>(s, r). (c # s, r)) (json_unescape r)"
proof (cases "c < 0x20 \<and> c \<noteq> 34 \<and> c \<noteq> 92")
  case True
  then have n: "unat c < 32" by (simp add: word_less_nat_alt)
  then obtain k where k: "unat c = k" "k < 32" by auto
  have "of_nat (unat c) = c" by simp
  then have c: "c = of_nat k" using k(1) by simp
  have "k \<in> set [0..<32]" using k by simp
  then have "of_nat (hex_value (hex_digit (k div 16)) * 16 + hex_value (hex_digit (k mod 16))) = (of_nat k :: u8)"
    by (simp add: upt_rec hex_value_def hex_digit_def) auto
  then show ?thesis using True by (simp add: json_piece_def k(1) c[symmetric])
next
  case False
  then show ?thesis by (auto simp: json_piece_def)
qed

lemma json_unescape_escape: "json_unescape (json_escape s @ 34 # r) = Some (s, r)"
proof (induction s)
  case (Cons c s)
  then show ?case using json_unescape_piece[of c "json_escape s @ 34 # r"] by (simp add: json_escape_def)
qed (simp add: json_escape_def)

section \<open>Lemmas: what is read\<close>

lemma add_library_wf:
  assumes "distinct libs" "length libs \<le> LIBRARIES_MAX" "[] \<notin> set libs" "length path < PATH_MAX"
  shows "distinct (add_library libs path) \<and> length (add_library libs path) \<le> LIBRARIES_MAX \<and>
    [] \<notin> set (add_library libs path)"
  using assms by (auto simp: add_library_def c_copy_fits)

lemma push_char_length: "length out < cap \<Longrightarrow> length (push_char cap out c) < cap"
  by (simp add: push_char_def)

lemma vdf_body_length: "vdf_body cap p out = Some (v, r) \<Longrightarrow> length out < cap \<Longrightarrow> length v < cap"
proof (induction cap p out rule: vdf_body.induct)
  case (2 cap c p out)
  consider "c = 34" | "c = 92" "p = []" | e p' where "c = 92" "p = e # p'" | "c \<noteq> 34" "c \<noteq> 92" by (cases p) auto
  then show ?case
    by cases (use 2 in \<open>simp_all add: push_char_length\<close>)
qed simp

lemma vdf_token_length: "vdf_token p cap = Some (v, r) \<Longrightarrow> 0 < cap \<Longrightarrow> length v < cap"
  using vdf_body_length[of cap _ "[]" v r] by (auto simp: vdf_token_def split: list.splits)

lemma library_lines_wf:
  assumes "distinct libs" "length libs \<le> LIBRARIES_MAX" "[] \<notin> set libs"
  shows "distinct (library_lines ls libs) \<and> length (library_lines ls libs) \<le> LIBRARIES_MAX \<and>
    [] \<notin> set (library_lines ls libs)"
  using assms
proof (induction ls libs rule: library_lines.induct)
  case (2 line ls libs)
  have "length v < PATH_MAX" if "vdf_token r PATH_MAX = Some (v, r')" for r v r'
    using vdf_token_length[OF that] by (simp add: PATH_MAX_def)
  with 2 show ?case using add_library_wf[OF 2(5-7)] by (auto split: option.splits)
qed simp

lemma phase_length: "is_phase line (ACTIVE_PHASES @ DONE_PHASES) \<Longrightarrow> length line < 16"
  by (auto simp: is_phase_def ACTIVE_PHASES_def DONE_PHASES_def cstr_def)

lemma read_libraries_wf:
  assumes "length (steam_root roots) < PATH_MAX"
  shows "distinct (read_libraries h (steam_root roots)) \<and> length (read_libraries h (steam_root roots)) \<le> LIBRARIES_MAX \<and>
    [] \<notin> set (read_libraries h (steam_root roots))"
proof -
  have "distinct (library_lines ls []) \<and> length (library_lines ls []) \<le> LIBRARIES_MAX \<and> [] \<notin> set (library_lines ls [])" for ls
    by (rule library_lines_wf) simp_all
  moreover have "distinct (add_library [] (steam_root roots)) \<and> length (add_library [] (steam_root roots)) \<le> LIBRARIES_MAX \<and>
      [] \<notin> set (add_library [] (steam_root roots))"
    by (rule add_library_wf) (use assms in simp_all)
  ultimately show ?thesis by (auto simp: read_libraries_def Let_def split: option.splits)
qed

definition rebuild_path :: "cstring \<Rightarrow> cstring" where
  "rebuild_path compatdata = c_copy PATH_MAX (compatdata @ cstr ''/notproton-rebuild'')"

definition rebuild_lock_path :: "cstring \<Rightarrow> cstring" where
  "rebuild_lock_path compatdata = c_copy PATH_MAX (compatdata @ cstr ''/.notproton-rebuild.lock'')"

lemma active_not_done: "\<not> (is_phase line ACTIVE_PHASES \<and> is_phase line DONE_PHASES)"
  by (auto simp: is_phase_def ACTIVE_PHASES_def DONE_PHASES_def cstr_def)

lemma active_phase_fits: "is_phase (c_copy 16 line) ACTIVE_PHASES \<Longrightarrow> is_phase line (ACTIVE_PHASES @ DONE_PHASES) \<Longrightarrow>
    is_phase line ACTIVE_PHASES"
  using phase_length[of line] by (simp add: c_copy_fits)

lemma read_rebuild_active:
  assumes "is_phase (read_rebuild h compatdata 16) ACTIVE_PHASES"
  shows "h_held h (rebuild_lock_path compatdata) \<or> younger h (rebuild_path compatdata) STARTING_GRACE_SECONDS"
proof -
  have empty: "\<not> is_phase [] ACTIVE_PHASES" "\<not> is_phase (c_copy 16 (cstr ''failed'')) ACTIVE_PHASES"
    by (simp_all add: is_phase_def ACTIVE_PHASES_def c_copy_def cstr_def)
  have done_phase: "\<not> is_phase (c_copy 16 line) ACTIVE_PHASES" if "is_phase line DONE_PHASES" for line
    using that phase_length[of line] active_not_done[of line] by (auto simp: c_copy_fits is_phase_def)
  show ?thesis
    using assms empty done_phase
    by (auto simp: read_rebuild_def rebuild_path_def rebuild_lock_path_def Let_def split: option.splits list.splits if_splits)
qed

section \<open>Properties\<close>

text \<open>The record is written whole or not at all: where the text of the state fits with its terminator,
  that text is written and its length is the answer; where it does not, the answer is -1. The buffer is
  never overrun.\<close>

theorem state_json_written:
  "case np_prefix_state_json appid st cap of (n, out) \<Rightarrow>
     (if length (state_text appid st) < cap then n = int (length (state_text appid st)) \<and> out = state_text appid st
      else n = - 1) \<and> (cap = 0 \<or> length out < cap)"
proof -
  let ?j = "\<lparr>js_buf = [], js_cap = cap, js_ok = (cap > 0)\<rparr>"
  note w = js.writes_result[OF state_json_writes[of st appid], of ?j, simplified]
  show ?thesis
    by (cases "cap = 0") (use w in \<open>simp_all add: state_json_run Let_def Suc_le_eq\<close>)
qed

text \<open>A token that Steam wrote is read back: from the quotes on, with the escapes undone, up to the
  quote that closes it, whatever stands before and after.\<close>

theorem vdf_token_roundtrip:
  assumes "34 \<notin> set before" "length s < cap"
  shows "vdf_token (before @ 34 # vdf_escape s @ 34 # rest) cap = Some (s, rest)"
proof -
  have "dropWhile (\<lambda>c. c \<noteq> 34) (before @ 34 # vdf_escape s @ 34 # rest) = 34 # vdf_escape s @ 34 # rest"
    using assms(1) by (subst dropWhile_append2) auto
  then show ?thesis using vdf_body_escape[of "[]" s cap rest] assms(2) by (simp add: vdf_token_def)
qed

theorem vdf_token_roundtrip_witness:
  "vdf_token (9 # 34 # vdf_escape (cstr ''C:'' @ [92] @ cstr ''Games'') @ [34, 9]) 16 =
     Some (cstr ''C:'' @ [92] @ cstr ''Games'', [9])"
  using vdf_token_roundtrip[of "[9]" "cstr ''C:'' @ [92] @ cstr ''Games''" 16 "[9]"] by (simp add: cstr_def)

text \<open>A rebuild is only said to be under way when it is: when the app holds the lock of the prefix, or
  has been started less than thirty seconds ago.\<close>

theorem rebuilding_is_backed:
  assumes "np_prefix_rebuilding (np_prefix_state h appid tool roots)"
  shows "\<exists>cd. find_compatdata h appid (read_libraries h (steam_root roots)) PATH_MAX = Some cd \<and>
    (h_held h (rebuild_lock_path cd) \<or> younger h (rebuild_path cd) STARTING_GRACE_SECONDS)"
proof (cases "find_compatdata h appid (read_libraries h (steam_root roots)) PATH_MAX")
  case None
  then have "st_rebuild (np_prefix_state h appid tool roots) = []"
    by (simp add: np_prefix_state_def Let_def split: prod.splits)
  then show ?thesis
    using assms by (simp add: np_prefix_rebuilding_def is_phase_def ACTIVE_PHASES_def cstr_def)
next
  case (Some cd)
  then have "st_rebuild (np_prefix_state h appid tool roots) = read_rebuild h cd 16"
    by (simp add: np_prefix_state_def Let_def split: prod.splits)
  then show ?thesis using Some read_rebuild_active[of h cd] assms by (auto simp: np_prefix_rebuilding_def)
qed

definition sample_host :: host where
  "sample_host = \<lparr>h_read = (\<lambda>p. if p = rebuild_path (cstr ''/s/steamapps/compatdata/7'') then Some (cstr ''copy'' @ [10]) else None),
     h_is_dir = (\<lambda>_. True), h_is_file = (\<lambda>_. False), h_age = (\<lambda>_. None), h_ids = (\<lambda>_. None),
     h_lock_file = (\<lambda>_. None), h_held = (\<lambda>p. p = rebuild_lock_path (cstr ''/s/steamapps/compatdata/7'')),
     h_can_run = (\<lambda>_. False)\<rparr>"

definition sample_roots :: np_prefix_roots where
  "sample_roots = \<lparr>steam_root = cstr ''/s'', support_root = cstr ''/n'', server_root = None\<rparr>"

lemma sample_compatdata_path: "compatdata_path (cstr ''/s'') 7 = cstr ''/s/steamapps/compatdata/7''"
  by (simp add: compatdata_path_def cstr_def dec_str.simps)

lemma sample_found:
  "find_compatdata sample_host 7 (read_libraries sample_host (steam_root sample_roots)) PATH_MAX =
     Some (cstr ''/s/steamapps/compatdata/7'')"
proof -
  have "h_read sample_host (c_copy PATH_MAX (cstr ''/s'' @ cstr ''/steamapps/libraryfolders.vdf'')) = None"
    by (simp add: sample_host_def rebuild_path_def c_copy_def PATH_MAX_def cstr_def)
  then have libs: "read_libraries sample_host (steam_root sample_roots) = [cstr ''/s'']"
    by (simp add: read_libraries_def file_lines_def add_library_def LIBRARIES_MAX_def sample_roots_def)
      (simp add: c_copy_def PATH_MAX_def cstr_def)
  have "\<not> h_is_file sample_host p" "h_is_dir sample_host p" for p by (simp_all add: sample_host_def)
  then show ?thesis
    unfolding find_compatdata_def libs by (simp add: sample_compatdata_path) (simp add: c_copy_def PATH_MAX_def cstr_def)
qed

lemma sample_rebuilding: "np_prefix_rebuilding (np_prefix_state sample_host 7 None sample_roots)"
proof -
  let ?cd = "cstr ''/s/steamapps/compatdata/7''"
  have "fgets_all FIELD_MAX (cstr ''copy'' @ [10]) = [cstr ''copy'' @ [10]]"
    using fgets_all_lines[of "[cstr ''copy'' @ [10]]" FIELD_MAX] by (simp add: FIELD_MAX_def cstr_def)
  then have lines: "file_lines sample_host FIELD_MAX (rebuild_path ?cd) = Some [cstr ''copy'' @ [10]]"
    by (simp add: file_lines_def sample_host_def c_prefix_def cstr_def)
  have held: "h_held sample_host (rebuild_lock_path ?cd)" by (simp add: sample_host_def)
  have "chomp (cstr ''copy'' @ [10]) = cstr ''copy''" "\<not> is_phase (cstr ''copy'') DONE_PHASES"
    "is_phase (cstr ''copy'') ACTIVE_PHASES" "c_copy 16 (cstr ''copy'') = cstr ''copy''"
    by (simp_all add: chomp_def is_phase_def ACTIVE_PHASES_def DONE_PHASES_def c_copy_def cstr_def)
  then have "read_rebuild sample_host ?cd 16 = cstr ''copy''"
    unfolding read_rebuild_def Let_def
    unfolding rebuild_path_def[symmetric] rebuild_lock_path_def[symmetric] by (simp add: lines held)
  moreover have "st_rebuild (np_prefix_state sample_host 7 None sample_roots) = read_rebuild sample_host ?cd 16"
    using sample_found by (simp add: np_prefix_state_def Let_def split: prod.splits)
  ultimately show ?thesis by (simp add: np_prefix_rebuilding_def is_phase_def ACTIVE_PHASES_def)
qed

theorem rebuilding_is_backed_witness:
  "\<exists>cd. find_compatdata sample_host 7 (read_libraries sample_host (steam_root sample_roots)) PATH_MAX = Some cd \<and>
    (h_held sample_host (rebuild_lock_path cd) \<or> younger sample_host (rebuild_path cd) STARTING_GRACE_SECONDS)"
  by (rule rebuilding_is_backed[OF sample_rebuilding])

end
