(* ===== verification/Mem_Fields.thy ===== *)
theory Mem_Fields
  imports C_Mem
begin

text \<open>
  Fields of structures in the memory of the client: stores of 32 and 64 bits at offsets from a base, what
  they leave of the fields beside them, and a list of fields stored one after another.
\<close>

section \<open>Stores apart\<close>

lemma unat_of_nat_u64: "n < 2 ^ 64 \<Longrightarrow> unat (of_nat n :: u64) = n"
  by (simp add: unsigned_of_nat take_bit_nat_eq_self)

lemma unat_apart:
  assumes "i < b \<or> b + n \<le> i" "i < 2 ^ 32" "b < 2 ^ 32" "n < 2 ^ 32"
  shows "n \<le> unat ((p :: u64) + of_nat i - (p + of_nat b))"
proof -
  have d: "p + of_nat i - (p + of_nat b) = (of_nat i - of_nat b :: u64)" by simp
  have u: "unat (of_nat i :: u64) = i" "unat (of_nat b :: u64) = b"
    using assms(2,3) by (simp_all add: unsigned_of_nat take_bit_nat_eq_self)
  show ?thesis
  proof (cases "b \<le> i")
    case True
    then have "unat (of_nat i - of_nat b :: u64) = i - b" using u by (simp add: unat_sub word_le_nat_alt)
    then show ?thesis using assms(1) True by (simp add: d)
  next
    case False
    then have "unat (of_nat i - of_nat b :: u64) = i + 2 ^ 64 - b"
      using u unat_sub_if'[of "of_nat i :: u64" "of_nat b"] by simp
    then show ?thesis using assms False by (simp add: d)
  qed
qed

lemma load_store_apart:
  assumes "a + 8 \<le> b \<or> b + 8 \<le> a" "a < 2 ^ 31" "b < 2 ^ 31"
  shows "load64 (store64 m (p + of_nat b) v) (p + of_nat a) = load64 m (p + of_nat a)"
    "load64 (store32 m (p + of_nat b) w) (p + of_nat a) = load64 m (p + of_nat a)"
    "load32 (store64 m (p + of_nat b) v) (p + of_nat a) = load32 m (p + of_nat a)"
    "load32 (store32 m (p + of_nat b) w) (p + of_nat a) = load32 m (p + of_nat a)"
proof -
  have "store64 m (p + of_nat b) v (p + of_nat a + of_nat k) = m (p + of_nat a + of_nat k) \<and>
      store32 m (p + of_nat b) w (p + of_nat a + of_nat k) = m (p + of_nat a + of_nat k)" if "k < 8" for k
    using assms that unat_apart[of "a + k" b 8 p]
    by (auto simp: store64_outside store32_outside add.assoc)
  note b = this
  note bytes = b[of 0] b[of 1] b[of 2] b[of 3] b[of 4] b[of 5] b[of 6] b[of 7]
  show "load64 (store64 m (p + of_nat b) v) (p + of_nat a) = load64 m (p + of_nat a)"
    "load64 (store32 m (p + of_nat b) w) (p + of_nat a) = load64 m (p + of_nat a)"
    "load32 (store64 m (p + of_nat b) v) (p + of_nat a) = load32 m (p + of_nat a)"
    "load32 (store32 m (p + of_nat b) w) (p + of_nat a) = load32 m (p + of_nat a)"
    using bytes by (simp_all add: load64_def load32_def add.assoc)
qed

text \<open>A store at an offset in a block touches the block only.\<close>

lemma store_in_block:
  assumes "b + 8 \<le> n" "n < 2 ^ 32" "n \<le> unat (x - p)"
  shows "store64 m (p + of_nat b) v x = m x" "store32 m (p + of_nat b) w x = m x"
proof -
  have b: "unat (of_nat b :: u64) = b" using assms(1,2) by (simp add: unsigned_of_nat take_bit_nat_eq_self)
  have e: "x - (p + of_nat b) = (x - p) - of_nat b" by simp
  have "(of_nat b :: u64) \<le> x - p" using assms b by (simp add: word_le_nat_alt)
  then have "unat (x - (p + of_nat b)) = unat (x - p) - b" unfolding e by (subst unat_sub) (simp_all add: b)
  then show "store64 m (p + of_nat b) v x = m x" "store32 m (p + of_nat b) w x = m x"
    using assms by (simp_all add: store64_outside store32_outside)
qed

section \<open>Lists of fields\<close>

text \<open>Fields one after another read back what was stored, and nothing else in the memory changes.\<close>

datatype field = F32 u32 | F64 u64

fun store_field :: "mem \<Rightarrow> u64 \<Rightarrow> field \<Rightarrow> mem" where
  "store_field m p (F32 v) = store32 m p v"
| "store_field m p (F64 v) = store64 m p v"

fun has_field :: "mem \<Rightarrow> u64 \<Rightarrow> field \<Rightarrow> bool" where
  "has_field m p (F32 v) = (load32 m p = v)"
| "has_field m p (F64 v) = (load64 m p = v)"

fun store_fields :: "u64 \<Rightarrow> (nat \<times> field) list \<Rightarrow> mem \<Rightarrow> mem" where
  "store_fields p [] m = m"
| "store_fields p ((off, v) # fs) m = store_fields p fs (store_field m (p + of_nat off) v)"

lemma store_field_apart:
  assumes "a + 8 \<le> b \<or> b + 8 \<le> a" "a < 2 ^ 31" "b < 2 ^ 31"
  shows "has_field (store_field m (p + of_nat b) v) (p + of_nat a) w = has_field m (p + of_nat a) w"
  by (cases v; cases w) (simp_all add: load_store_apart[OF assms])

lemma store_fields_apart:
  assumes "\<forall>(b, v) \<in> set fs. (a + 8 \<le> b \<or> b + 8 \<le> a) \<and> b < 2 ^ 31" "a < 2 ^ 31"
  shows "has_field (store_fields p fs m) (p + of_nat a) w = has_field m (p + of_nat a) w"
  using assms(1)
proof (induction fs arbitrary: m)
  case (Cons f fs)
  then show ?case using store_field_apart[of a "fst f"] assms(2) by (cases f) auto
qed simp

definition fields_apart :: "nat \<times> field \<Rightarrow> nat \<times> field \<Rightarrow> bool" where
  "fields_apart f g \<longleftrightarrow> fst f + 8 \<le> fst g \<or> fst g + 8 \<le> fst f"

lemma store_fields_read:
  assumes "sorted_wrt fields_apart fs" "\<forall>(b, v) \<in> set fs. b < 2 ^ 31" "(a, w) \<in> set fs"
  shows "has_field (store_fields p fs m) (p + of_nat a) w"
  using assms
proof (induction fs arbitrary: m)
  case (Cons f fs)
  obtain b v where f: "f = (b, v)" by (cases f)
  show ?case
  proof (cases "(a, w) \<in> set fs")
    case True
    then show ?thesis using Cons f by simp
  next
    case False
    then have e: "b = a" "v = w" using Cons.prems(3) f by auto
    have "has_field (store_field m (p + of_nat a) w) (p + of_nat a) w"
      by (cases w) (simp_all add: load32_store32 load64_store64)
    moreover have "\<forall>(b, v) \<in> set fs. (a + 8 \<le> b \<or> b + 8 \<le> a) \<and> b < 2 ^ 31" "a < 2 ^ 31"
      using Cons.prems e f by (fastforce simp: fields_apart_def)+
    ultimately show ?thesis using e f by (simp add: store_fields_apart)
  qed
qed simp

lemma store_fields_block:
  assumes "\<forall>(b, v) \<in> set fs. b + 8 \<le> n" "n < 2 ^ 32" "n \<le> unat (x - p)"
  shows "store_fields p fs m x = m x"
  using assms(1)
proof (induction fs arbitrary: m)
  case (Cons f fs)
  have "store_field m (p + of_nat b) v x = m x" if "b + 8 \<le> n" for b v m
    using store_in_block[OF that assms(2,3)] by (cases v) simp_all
  then show ?case using Cons by (cases f) auto
qed simp

end
