(* ===== verification/Compat_Manager.thy ===== *)
theory Compat_Manager
  imports Compat_Probe Compat_Tools Mem_Fields "HOL-Library.Sublist"
begin

text \<open>
  The tool manager of the client as \<^verbatim>\<open>src/dylib/feats/compat.c\<close> uses it: the functions of the client
  that are called through pointers found at run time, the tools registered into the manager, the manager
  that is remembered. The client's functions are parameters over its memory; each is absent until it was
  resolved.
\<close>

section \<open>The functions of the client\<close>

definition COMPAT_MANAGER_TOOL_ARRAY_OFF :: u64 where "COMPAT_MANAGER_TOOL_ARRAY_OFF = 0x320"
definition COMPAT_MANAGER_TOOL_COUNT_OFF :: u64 where "COMPAT_MANAGER_TOOL_COUNT_OFF = 0x330"
definition COMPAT_TOOL_NAME_OFF :: u64 where "COMPAT_TOOL_NAME_OFF = 0x40"
definition COMPAT_TOOL_DISPLAY_OFF :: u64 where "COMPAT_TOOL_DISPLAY_OFF = 0x50"
definition COMPAT_TOOL_FLAGS_OFF :: u64 where "COMPAT_TOOL_FLAGS_OFF = 0x28"
definition COMPAT_TOOL_FLAG_NO_APP :: u32 where "COMPAT_TOOL_FLAG_NO_APP = 1"
definition COMPAT_PLATFORM_WINDOWS :: u32 where "COMPAT_PLATFORM_WINDOWS = 1"
definition COMPAT_PLATFORM_MACOS :: u32 where "COMPAT_PLATFORM_MACOS = 2"
definition COMPAT_MAPPING_PRIORITY_GLOBAL :: u32 where "COMPAT_MAPPING_PRIORITY_GLOBAL = 75"
definition COMPAT_MAPPING_PRIORITY_APP :: u32 where "COMPAT_MAPPING_PRIORITY_APP = 250"

record client_fns =
  cf_valid_platforms :: "(mem \<Rightarrow> u64 \<Rightarrow> u32 \<Rightarrow> u32) option"
  cf_find_tool :: "(mem \<Rightarrow> u64 \<Rightarrow> u32 \<Rightarrow> u64) option"
  cf_chosen_tool :: "(mem \<Rightarrow> u64 \<Rightarrow> u32 \<Rightarrow> u64) option"
  cf_find_mapping :: "(mem \<Rightarrow> u64 \<Rightarrow> u32 \<Rightarrow> u64) option"
  cf_wildcard :: "(mem \<Rightarrow> u64 \<Rightarrow> u32 \<Rightarrow> u64) option"
  cf_set_mapping :: "(u64 \<Rightarrow> u32 \<Rightarrow> cstring \<Rightarrow> cstring \<Rightarrow> u32 \<Rightarrow> mem \<Rightarrow> mem) option"
  cf_register :: "(u64 \<Rightarrow> u64 \<Rightarrow> mem \<Rightarrow> mem) option"
  cf_free :: "(u64 \<Rightarrow> mem \<Rightarrow> mem) option"

definition np_compat_valid_platforms :: "client_fns \<Rightarrow> mem \<Rightarrow> u64 \<Rightarrow> u32 \<Rightarrow> u32" where
  "np_compat_valid_platforms fns m mgr appid = (case cf_valid_platforms fns of
     None \<Rightarrow> 0 | Some f \<Rightarrow> if mgr = 0 then 0 else f m mgr appid)"

definition np_compat_tool_for_app :: "client_fns \<Rightarrow> mem \<Rightarrow> u64 \<Rightarrow> u32 \<Rightarrow> u64" where
  "np_compat_tool_for_app fns m mgr appid = (case cf_find_tool fns of
     None \<Rightarrow> 0 | Some f \<Rightarrow> if mgr = 0 then 0 else f m mgr appid)"

definition np_compat_chosen_tool :: "client_fns \<Rightarrow> mem \<Rightarrow> u64 \<Rightarrow> u32 \<Rightarrow> u64" where
  "np_compat_chosen_tool fns m mgr appid = (case cf_chosen_tool fns of
     None \<Rightarrow> 0 | Some f \<Rightarrow> if mgr = 0 then 0 else f m mgr appid)"

definition np_compat_would_force :: "client_fns \<Rightarrow> mem \<Rightarrow> u64 \<Rightarrow> u32 \<Rightarrow> bool" where
  "np_compat_would_force fns m mgr appid =
     (if mgr = 0 \<or> appid = 0 then False
      else let platforms = np_compat_valid_platforms fns m mgr appid
        in platforms AND COMPAT_PLATFORM_WINDOWS \<noteq> 0 \<and> platforms AND COMPAT_PLATFORM_MACOS = 0)"

text \<open>The name a mapping entry begins with.\<close>

definition mapping_name :: "mem \<Rightarrow> u64 \<Rightarrow> cstring option" where
  "mapping_name m mapping =
     (if mapping = 0 \<or> load64 m mapping = 0 \<or> m (load64 m mapping) = 0 then None
      else Some (mem_cstr m (load64 m mapping)))"

definition np_compat_app_mapping :: "client_fns \<Rightarrow> mem \<Rightarrow> u64 \<Rightarrow> u32 \<Rightarrow> cstring option" where
  "np_compat_app_mapping fns m mgr appid = (case cf_find_mapping fns of
     None \<Rightarrow> None | Some f \<Rightarrow> if mgr = 0 \<or> appid = 0 then None else mapping_name m (f m mgr appid))"

definition np_compat_wildcard_mapping :: "client_fns \<Rightarrow> mem \<Rightarrow> u64 \<Rightarrow> u32 \<Rightarrow> cstring option" where
  "np_compat_wildcard_mapping fns m mgr appid = (case cf_wildcard fns of
     None \<Rightarrow> None | Some f \<Rightarrow> if mgr = 0 \<or> appid = 0 then None else mapping_name m (f m mgr appid))"

definition np_compat_map_tool :: "client_fns \<Rightarrow> u64 \<Rightarrow> u32 \<Rightarrow> cstring option \<Rightarrow> mem \<Rightarrow> mem" where
  "np_compat_map_tool fns mgr appid name m = (case cf_set_mapping fns of
     None \<Rightarrow> m
   | Some f \<Rightarrow>
       if mgr = 0 then m
       else (case name of
           None \<Rightarrow> m
         | Some s \<Rightarrow> f mgr appid s [] (if appid \<noteq> 0 then COMPAT_MAPPING_PRIORITY_APP
               else COMPAT_MAPPING_PRIORITY_GLOBAL) m))"

section \<open>The tools of the manager\<close>

text \<open>The entry with a name, 0 for none or for a list that cannot be one.\<close>

definition tool_at :: "compat_layout \<Rightarrow> u64 \<Rightarrow> nat \<Rightarrow> u64" where
  "tool_at lay array i = array + of_nat i * np_compat_tool_stride lay"

definition find_tool :: "compat_layout \<Rightarrow> mem \<Rightarrow> tool_list \<Rightarrow> u64 \<Rightarrow> cstring \<Rightarrow> u64" where
  "find_tool lay m tls mgr wanted =
     (let array = load64 m (mgr + COMPAT_MANAGER_TOOL_ARRAY_OFF);
          count = unat (load32 m (mgr + COMPAT_MANAGER_TOOL_COUNT_OFF))
      in if array = 0 \<or> count > np_compat_manager_tools_max tls then 0
         else case find (\<lambda>entry. let name = load64 m (entry + COMPAT_TOOL_NAME_OFF)
               in name \<noteq> 0 \<and> strcmp_eq m name wanted) (map (tool_at lay array) [0..<count]) of
             Some entry \<Rightarrow> entry | None \<Rightarrow> 0)"

text \<open>The first tool of the list that the manager holds.\<close>

fun registered_loop :: "compat_layout \<Rightarrow> mem \<Rightarrow> tool_list \<Rightarrow> u64 \<Rightarrow> tool_entry list \<Rightarrow> u64" where
  "registered_loop lay m tls mgr [] = 0"
| "registered_loop lay m tls mgr (t # ts) =
     (let entry = find_tool lay m tls mgr (te_name t)
      in if entry \<noteq> 0 then entry else registered_loop lay m tls mgr ts)"

definition np_compat_registered_tool :: "compat_layout \<Rightarrow> mem \<Rightarrow> tool_list \<Rightarrow> u64 \<Rightarrow> u64" where
  "np_compat_registered_tool lay m tls mgr =
     (if mgr = 0 then 0
      else if tl_tools tls = [] then find_tool lay m tls mgr TOOL_DIR_NAME
      else registered_loop lay m tls mgr (tl_tools tls))"

section \<open>Registering the tools\<close>

text \<open>The manager that is remembered and the once-only flag; \<open>ms_calls\<close> is the record of the calls made to
  the client: the manager and the name of the tool.\<close>

record manager_state =
  g_manager :: u64
  ms_registered :: bool
  ms_calls :: "(u64 \<times> cstring) list"

definition ENTRY_BUFFER :: nat where "ENTRY_BUFFER = 0x130 + 64"

definition clear_mem :: "mem \<Rightarrow> u64 \<Rightarrow> nat \<Rightarrow> mem" where
  "clear_mem m p n = (\<lambda>a. if unat (a - p) < n then 0 else m a)"

definition tool_field :: "compat_layout \<Rightarrow> u64 \<Rightarrow> u32 \<Rightarrow> u64" where
  "tool_field lay tool off = tool + ucast (np_compat_tool_off lay off)"

text \<open>The entry as it is handed to the client, in a buffer of its own; \<open>at\<close> is where a string of the list
  or a literal lies.\<close>

definition fill_entry :: "compat_layout \<Rightarrow> (cstring \<Rightarrow> u64) \<Rightarrow> tool_entry \<Rightarrow> u64 \<Rightarrow> mem \<Rightarrow> mem" where
  "fill_entry lay at t tool m =
     (let m = clear_mem m tool ENTRY_BUFFER;
          m = store32 m (tool + COMPAT_TOOL_FLAGS_OFF) COMPAT_TOOL_FLAG_NO_APP;
          m = store64 m (tool + COMPAT_TOOL_NAME_OFF) (at (te_name t));
          m = store64 m (tool + COMPAT_TOOL_DISPLAY_OFF) (at (te_display t));
          m = store64 m (tool_field lay tool COMPAT_TOOL_INSTALL_OFF) (at (te_dir t));
          m = store32 m (tool_field lay tool COMPAT_TOOL_APPID_OFF) 0;
          m = store64 m (tool_field lay tool COMPAT_TOOL_FROM_OSLIST_OFF) (at (cstr ''windows''))
      in store64 m (tool_field lay tool COMPAT_TOOL_TO_OSLIST_OFF) (at (cstr ''macos'')))"

text \<open>The strings the client filled in are freed and their pointers cleared.\<close>

definition path_offsets :: "u32 list" where
  "path_offsets = [0x98, 0xA0, 0xA8, 0xD0, 0xD8, 0xE0, 0xE8, 0x118]"

fun free_paths_loop :: "(u64 \<Rightarrow> mem \<Rightarrow> mem) \<Rightarrow> compat_layout \<Rightarrow> u64 \<Rightarrow> u32 list \<Rightarrow> mem \<Rightarrow> mem" where
  "free_paths_loop plat_free lay tool [] m = m"
| "free_paths_loop plat_free lay tool (off # offs) m =
     (let path = tool_field lay tool off;
          m = (if load64 m path \<noteq> 0 then plat_free (load64 m path) m else m)
      in free_paths_loop plat_free lay tool offs (store64 m path 0))"

definition free_tool_paths :: "client_fns \<Rightarrow> compat_layout \<Rightarrow> u64 \<Rightarrow> mem \<Rightarrow> mem" where
  "free_tool_paths fns lay tool m = (case cf_free fns of
     None \<Rightarrow> m | Some plat_free \<Rightarrow> free_paths_loop plat_free lay tool path_offsets m)"

fun register_loop ::
  "client_fns \<Rightarrow> (u64 \<Rightarrow> u64 \<Rightarrow> mem \<Rightarrow> mem) \<Rightarrow> compat_layout \<Rightarrow> (cstring \<Rightarrow> u64) \<Rightarrow> tool_list \<Rightarrow> u64 \<Rightarrow> u64 \<Rightarrow>
     nat \<Rightarrow> tool_entry list \<Rightarrow> manager_state \<times> mem \<Rightarrow> manager_state \<times> mem" where
  "register_loop fns reg lay at tls mgr buffers i [] s = s"
| "register_loop fns reg lay at tls mgr buffers i (t # ts) (st, m) =
     (if find_tool lay m tls mgr (te_name t) \<noteq> 0
      then register_loop fns reg lay at tls mgr buffers (Suc i) ts (st, m)
      else
        let tool = buffers + of_nat (i * ENTRY_BUFFER);
            m = fill_entry lay at t tool m;
            m = reg mgr tool m;
            m = free_tool_paths fns lay tool m
        in register_loop fns reg lay at tls mgr buffers (Suc i) ts
             (st\<lparr>ms_calls := ms_calls st @ [(mgr, te_name t)]\<rparr>, m))"

text \<open>\<open>calloc\<close> gives the address of cleared memory, or 0.\<close>

definition np_compat_register_crossover ::
  "client_fns \<Rightarrow> (nat \<Rightarrow> u64) \<Rightarrow> compat_layout \<Rightarrow> (cstring \<Rightarrow> u64) \<Rightarrow> tool_list \<Rightarrow> u64 \<Rightarrow>
     manager_state \<times> mem \<Rightarrow> manager_state \<times> mem" where
  "np_compat_register_crossover fns calloc lay at tls mgr s = (case s of (st, m) \<Rightarrow>
     let st = (if mgr \<noteq> 0 then st\<lparr>g_manager := mgr\<rparr> else st)
     in case cf_register fns of
          None \<Rightarrow> (st, m)
        | Some reg \<Rightarrow>
            if ms_registered st \<or> mgr = 0 then (st, m)
            else
              let st = st\<lparr>ms_registered := True\<rparr>;
                  n = length (tl_tools tls);
                  buffers = calloc (n * ENTRY_BUFFER)
              in if n \<noteq> 0 \<and> buffers = 0 then (st, m)
                 else register_loop fns reg lay at tls mgr buffers 0 (tl_tools tls)
                   (st, if buffers = 0 then m else clear_mem m buffers (n * ENTRY_BUFFER)))"

section \<open>The tool of an app\<close>

definition app_tool_name :: "client_fns \<Rightarrow> mem \<Rightarrow> manager_state \<Rightarrow> u32 \<Rightarrow> cstring option" where
  "app_tool_name fns m st appid =
     (let tool = np_compat_tool_for_app fns m (g_manager st) appid;
          name = (if tool = 0 then 0 else load64 m (tool + COMPAT_TOOL_NAME_OFF))
      in if name = 0 then None
         else if is_tool_name (mem_cstr m name) then Some (mem_cstr m name) else None)"

definition np_compat_app_runs_tool :: "client_fns \<Rightarrow> mem \<Rightarrow> manager_state \<Rightarrow> u32 \<Rightarrow> bool" where
  "np_compat_app_runs_tool fns m st appid \<longleftrightarrow> app_tool_name fns m st appid \<noteq> None"

definition np_compat_app_tool_dir :: "client_fns \<Rightarrow> mem \<Rightarrow> manager_state \<Rightarrow> tool_list \<Rightarrow> u32 \<Rightarrow> cstring option" where
  "np_compat_app_tool_dir fns m st tls appid = (case app_tool_name fns m st appid of
     None \<Rightarrow> None
   | Some name \<Rightarrow> map_option te_dir (find (\<lambda>t. te_name t = name) (tl_tools tls)))"

definition np_compat_tool_dir :: "cstring option \<Rightarrow> tool_list \<Rightarrow> cstring option" where
  "np_compat_tool_dir home tls =
     (let dir = (case tl_tools tls of
            t # _ \<Rightarrow> c_copy 640 (te_dir t)
          | [] \<Rightarrow> (case tools_dir_path home 512 of
                None \<Rightarrow> [] | Some d \<Rightarrow> c_copy 640 (d @ cstr ''/'' @ TOOL_DIR_NAME)))
      in if dir = [] then None else Some dir)"

section \<open>Registration\<close>

lemma tool_field_nat:
  "tool_field lay tool off = tool + of_nat (unat (np_compat_tool_off lay off))"
  by (simp add: tool_field_def unsigned_word_eqI)

lemma tool_off_in_headroom:
  assumes "g_tool_shift lay \<le> 0x50" "off \<le> 0x118"
  shows "unat (np_compat_tool_off lay off) = (if off < 0x58 then unat off else unat off + unat (g_tool_shift lay))"
    "unat (np_compat_tool_off lay off) + 8 \<le> ENTRY_BUFFER"
proof -
  have b: "unat (g_tool_shift lay) \<le> 80" "unat off \<le> 280"
    using assms by (simp_all add: word_le_nat_alt)
  then have "unat (off + g_tool_shift lay) = unat off + unat (g_tool_shift lay)"
    by (subst unat_add_lem[THEN iffD1]) simp_all
  then show u: "unat (np_compat_tool_off lay off) = (if off < 0x58 then unat off else unat off + unat (g_tool_shift lay))"
    by (simp add: np_compat_tool_off_def compat_offsets)
  show "unat (np_compat_tool_off lay off) + 8 \<le> ENTRY_BUFFER"
    using b unfolding u by (auto simp: ENTRY_BUFFER_def word_less_nat_alt)
qed

definition entry_fields :: "compat_layout \<Rightarrow> (cstring \<Rightarrow> u64) \<Rightarrow> tool_entry \<Rightarrow> (nat \<times> field) list" where
  "entry_fields lay at t = (let off = (\<lambda>ref. unat (np_compat_tool_off lay ref)) in
     [(40, F32 COMPAT_TOOL_FLAG_NO_APP), (64, F64 (at (te_name t))), (80, F64 (at (te_display t))),
      (off COMPAT_TOOL_INSTALL_OFF, F64 (at (te_dir t))), (off COMPAT_TOOL_APPID_OFF, F32 0),
      (off COMPAT_TOOL_FROM_OSLIST_OFF, F64 (at (cstr ''windows''))),
      (off COMPAT_TOOL_TO_OSLIST_OFF, F64 (at (cstr ''macos'')))])"

lemma fill_entry_stores:
  "fill_entry lay at t tool m = store_fields tool (entry_fields lay at t) (clear_mem m tool ENTRY_BUFFER)"
  by (simp add: fill_entry_def entry_fields_def tool_field_nat Let_def COMPAT_TOOL_FLAGS_OFF_def
      COMPAT_TOOL_NAME_OFF_def COMPAT_TOOL_DISPLAY_OFF_def)

lemma entry_fields_apart:
  assumes "g_tool_shift lay \<le> 0x50"
  shows "sorted_wrt fields_apart (entry_fields lay at t)"
    "\<forall>(b, v) \<in> set (entry_fields lay at t). b + 8 \<le> ENTRY_BUFFER"
proof -
  have "unat (g_tool_shift lay) \<le> 80" using assms by (simp add: word_le_nat_alt)
  then show "sorted_wrt fields_apart (entry_fields lay at t)"
    "\<forall>(b, v) \<in> set (entry_fields lay at t). b + 8 \<le> ENTRY_BUFFER"
    by (simp_all add: entry_fields_def tool_off_in_headroom(1)[OF assms] compat_offsets ENTRY_BUFFER_def fields_apart_def)
qed

lemma load64_cleared:
  assumes "k + 8 \<le> n" "n < 2 ^ 32"
  shows "load64 (clear_mem m p n) (p + of_nat k) = 0"
proof -
  have "clear_mem m p n (p + of_nat k + of_nat i) = 0" if "i < 8" for i
  proof -
    have "unat (of_nat (k + i) :: u64) = k + i" using assms that by (intro unat_of_nat_u64) simp
    then show ?thesis using assms(1) that by (simp add: clear_mem_def add.assoc)
  qed
  note b = this
  note bytes = b[of 0] b[of 1] b[of 2] b[of 3] b[of 4] b[of 5] b[of 6] b[of 7]
  show ?thesis using bytes by (simp add: load64_def load32_def add.assoc le32_def le64_def)
qed

text \<open>Where the fields of an entry lie.\<close>

definition entry_offsets :: "compat_layout \<Rightarrow> nat set" where
  "entry_offsets lay = {unat COMPAT_TOOL_FLAGS_OFF, unat COMPAT_TOOL_NAME_OFF, unat COMPAT_TOOL_DISPLAY_OFF} \<union>
     (\<lambda>off. unat (np_compat_tool_off lay off)) ` {COMPAT_TOOL_INSTALL_OFF, COMPAT_TOOL_APPID_OFF,
       COMPAT_TOOL_FROM_OSLIST_OFF, COMPAT_TOOL_TO_OSLIST_OFF}"

lemma fill_entry_zero:
  assumes "g_tool_shift lay \<le> 0x50" "k + 8 \<le> ENTRY_BUFFER" "\<forall>b \<in> entry_offsets lay. k + 8 \<le> b \<or> b + 8 \<le> k"
  shows "load64 (fill_entry lay at t tool m) (tool + of_nat k) = 0"
proof -
  have n: "ENTRY_BUFFER < 2 ^ 31" "ENTRY_BUFFER < 2 ^ 32" by (simp_all add: ENTRY_BUFFER_def)
  have "fst ` set (entry_fields lay at t) = entry_offsets lay"
    by (auto simp: entry_fields_def entry_offsets_def COMPAT_TOOL_FLAGS_OFF_def COMPAT_TOOL_NAME_OFF_def
        COMPAT_TOOL_DISPLAY_OFF_def)
  then have "k + 8 \<le> b \<or> b + 8 \<le> k" "b < 2 ^ 31" if "(b, v) \<in> set (entry_fields lay at t)" for b v
    using assms(3) entry_fields_apart(2)[OF assms(1), of at t] n(1) that by force+
  then have "\<forall>(b, v) \<in> set (entry_fields lay at t). (k + 8 \<le> b \<or> b + 8 \<le> k) \<and> b < 2 ^ 31" by blast
  from store_fields_apart[OF this, of tool "clear_mem m tool ENTRY_BUFFER" "F64 0"] n assms(2)
  show ?thesis using load64_cleared[OF assms(2) n(2)] by (simp add: fill_entry_stores)
qed

lemma free_paths_in_buffer:
  assumes "g_tool_shift lay \<le> 0x50" "\<And>p m. plat_free p m x = m x" "ENTRY_BUFFER \<le> unat (x - tool)"
    "list_all (\<lambda>off. off \<le> 0x118) offs"
  shows "free_paths_loop plat_free lay tool offs m x = m x"
  using assms(4)
proof (induction offs arbitrary: m)
  case (Cons off offs)
  have "ENTRY_BUFFER < 2 ^ 32" by (simp add: ENTRY_BUFFER_def)
  then have "store64 m' (tool_field lay tool off) v x = m' x" for m' v
    unfolding tool_field_nat
    using store_in_block(1)[OF tool_off_in_headroom(2)[OF assms(1)] _ assms(3)] Cons.prems by simp
  then show ?case using Cons assms(2) by (simp add: Let_def)
qed simp

section \<open>Properties\<close>

text \<open>The tools handed to the client, in any number of calls with any memory between them.\<close>

inductive registering :: "tool_list \<Rightarrow> manager_state \<Rightarrow> bool" for tls where
  registering_start: "registering tls \<lparr>g_manager = 0, ms_registered = False, ms_calls = []\<rparr>"
| registering_call: "registering tls st \<Longrightarrow>
    registering tls (fst (np_compat_register_crossover fns calloc lay at tls mgr (st, m)))"

inductive_cases registering_cases: "registering tls st"

lemma subseq_names_distinct: "subseq xs ys \<Longrightarrow> distinct ys \<Longrightarrow> distinct xs"
  by (auto simp: subseq_conv_nths intro: distinct_nthsI)

lemma register_loop_state:
  "\<exists>names. subseq names (map te_name ts) \<and>
     fst (register_loop fns reg lay at tls mgr buffers i ts (st, m)) =
       st\<lparr>ms_calls := ms_calls st @ map (\<lambda>n. (mgr, n)) names\<rparr>"
proof (induction ts arbitrary: i st m)
  case Nil
  then show ?case by (intro exI[of _ "[]"]) simp
next
  case (Cons t ts)
  show ?case
  proof (cases "find_tool lay m tls mgr (te_name t) = 0")
    case False
    with Cons[of "Suc i" st m] show ?thesis by (auto intro: list_emb_Cons)
  next
    case True
    let ?tool = "buffers + of_nat (i * ENTRY_BUFFER)"
    let ?m = "free_tool_paths fns lay ?tool (reg mgr ?tool (fill_entry lay at t ?tool m))"
    obtain names where n: "subseq names (map te_name ts)"
      "fst (register_loop fns reg lay at tls mgr buffers (Suc i) ts (st\<lparr>ms_calls := ms_calls st @ [(mgr, te_name t)]\<rparr>, ?m)) =
        st\<lparr>ms_calls := ms_calls st @ (mgr, te_name t) # map (\<lambda>n. (mgr, n)) names\<rparr>"
      using Cons[of "Suc i" "st\<lparr>ms_calls := ms_calls st @ [(mgr, te_name t)]\<rparr>" ?m] by auto
    then show ?thesis using True by (intro exI[of _ "te_name t # names"]) (simp add: Let_def)
  qed
qed

lemma register_crossover_state:
  "(\<exists>g. fst (np_compat_register_crossover fns calloc lay at tls mgr (st, m)) = st\<lparr>g_manager := g\<rparr>) \<or>
   \<not> ms_registered st \<and> (\<exists>names. subseq names (map te_name (tl_tools tls)) \<and>
     fst (np_compat_register_crossover fns calloc lay at tls mgr (st, m)) =
       st\<lparr>g_manager := mgr, ms_registered := True, ms_calls := ms_calls st @ map (\<lambda>n. (mgr, n)) names\<rparr>)"
proof (cases "mgr = 0 \<or> cf_register fns = None \<or> ms_registered st")
  case True
  then have "fst (np_compat_register_crossover fns calloc lay at tls mgr (st, m)) = st \<or>
    fst (np_compat_register_crossover fns calloc lay at tls mgr (st, m)) = st\<lparr>g_manager := mgr\<rparr>"
    by (auto simp: np_compat_register_crossover_def Let_def split: option.splits)
  moreover have "st = st\<lparr>g_manager := g_manager st\<rparr>" by simp
  ultimately show ?thesis by metis
next
  case False
  then obtain reg where reg: "cf_register fns = Some reg" by auto
  let ?st = "st\<lparr>g_manager := mgr, ms_registered := True\<rparr>"
  let ?n = "length (tl_tools tls)" and ?b = "calloc (length (tl_tools tls) * ENTRY_BUFFER)"
  let ?m = "if ?b = 0 then m else clear_mem m ?b (?n * ENTRY_BUFFER)"
  have "np_compat_register_crossover fns calloc lay at tls mgr (st, m) =
      (if ?n \<noteq> 0 \<and> ?b = 0 then (?st, m)
       else register_loop fns reg lay at tls mgr ?b 0 (tl_tools tls) (?st, ?m))"
    using False reg by (simp add: np_compat_register_crossover_def Let_def)
  moreover obtain names where "subseq names (map te_name (tl_tools tls))"
    "fst (register_loop fns reg lay at tls mgr ?b 0 (tl_tools tls) (?st, ?m)) =
      ?st\<lparr>ms_calls := ms_calls ?st @ map (\<lambda>n. (mgr, n)) names\<rparr>"
    using register_loop_state[of "tl_tools tls" fns reg lay at tls mgr ?b 0 ?st ?m] by blast
  moreover have "?st = st\<lparr>g_manager := mgr, ms_registered := True, ms_calls := ms_calls st @ map (\<lambda>n. (mgr, n)) []\<rparr>"
    by simp
  ultimately show ?thesis using False
    by (intro disjI2 conjI) (auto intro: exI[of _ names] exI[of _ "[]"] simp del: list.map)
qed

text \<open>C13. The tools of the list are handed to the client at most once each, in the order of the list and all
  to the same manager, however often and on whichever managers the client asks.\<close>

theorem tools_registered_once:
  assumes "registering tls st" "tls = np_compat_load_tool_list mem_ok content tools_dir tls'"
  shows "\<exists>mgr names. ms_calls st = map (\<lambda>n. (mgr, n)) names \<and> distinct names \<and>
    subseq names (map te_name (tl_tools tls))"
proof -
  have "\<exists>mgr names. ms_calls st = map (\<lambda>n. (mgr, n)) names \<and> subseq names (map te_name (tl_tools tls)) \<and>
      (ms_registered st \<or> names = [])"
    using assms(1)
  proof (induction rule: registering.induct)
    case registering_start
    then show ?case by (intro exI[of _ 0] exI[of _ "[]"]) simp
  next
    case (registering_call st fns calloc lay at mgr m)
    show ?case
    proof (rule disjE[OF register_crossover_state[of fns calloc lay at tls mgr st m]])
      assume "\<exists>g. fst (np_compat_register_crossover fns calloc lay at tls mgr (st, m)) = st\<lparr>g_manager := g\<rparr>"
      then obtain g where "fst (np_compat_register_crossover fns calloc lay at tls mgr (st, m)) = st\<lparr>g_manager := g\<rparr>" ..
      then show ?case using registering_call.IH by simp
    next
      assume "\<not> ms_registered st \<and> (\<exists>names. subseq names (map te_name (tl_tools tls)) \<and>
        fst (np_compat_register_crossover fns calloc lay at tls mgr (st, m)) =
          st\<lparr>g_manager := mgr, ms_registered := True, ms_calls := ms_calls st @ map (\<lambda>n. (mgr, n)) names\<rparr>)"
      then obtain names where n: "\<not> ms_registered st" "subseq names (map te_name (tl_tools tls))"
        "fst (np_compat_register_crossover fns calloc lay at tls mgr (st, m)) =
          st\<lparr>g_manager := mgr, ms_registered := True, ms_calls := ms_calls st @ map (\<lambda>n. (mgr, n)) names\<rparr>"
        by blast
      then have "ms_calls st = []" using registering_call.IH by auto
      then show ?case using n by (intro exI[of _ mgr] exI[of _ names]) simp
    qed
  qed
  moreover have "distinct (map te_name (tl_tools tls))"
    using load_tool_list_wf assms(2) by (auto simp: tools_wf_def)
  ultimately show ?thesis using subseq_names_distinct by blast
qed

theorem tools_registered_once_witness:
  "\<exists>mgr names. ms_calls (fst (np_compat_register_crossover
      \<lparr>cf_valid_platforms = None, cf_find_tool = None, cf_chosen_tool = None, cf_find_mapping = None, cf_wildcard = None,
        cf_set_mapping = None, cf_register = Some (\<lambda>_ _ m. m), cf_free = None\<rparr> (\<lambda>_. 0x2000) initial_layout (\<lambda>_. 1)
      (np_compat_load_tool_list (\<lambda>_. True) (Some (tool_line sample_tool)) (cstr ''/t'')
        \<lparr>tl_tools = [], tl_cap = 0, tl_present = False\<rparr>) 0x1000
      (\<lparr>g_manager = 0, ms_registered = False, ms_calls = []\<rparr>, \<lambda>_. 0))) = map (\<lambda>n. (mgr, n)) names \<and> distinct names"
  using tools_registered_once[OF registering_call[OF registering_start] refl] by blast



text \<open>Code whose tool entry has grown by 0x100 bytes: LDR W8,[X0,0x160]; CBZ W8,+8; ...; LDR X9,[X0,0x158].\<close>

definition wide_gate :: mem where
  "wide_gate = word_mem [(0x1000, 0xB9416008), (0x1004, 0x34000048), (0x100C, 0xF940AC09)]"

lemma wide_gate_words [sample_eval]:
  "load32 wide_gate 0x1000 = 0xB9416008" "load32 wide_gate 0x1004 = 0x34000048"
  "load32 wide_gate 0x100C = 0xF940AC09"
  by (simp_all add: wide_gate_def load32_word_mem)

lemma wide_layout:
  "np_compat_probe_tool_layout wide_gate 0x1000 0 initial_layout = (True, initial_layout\<lparr>g_tool_shift := 0x100\<rparr>)"
proof -
  have l: "ldr32_from_x0 0xB9416008 = Some (0x160, 8)" by (simp add: ldr32_from_x0_def)
  have c: "cbz32 0x1004 0x34000048 8 = Some 0x100C" by (simp add: cbz32_def)
  have w: "window 0x100C 8 = 0x100C # map (\<lambda>i. 0x100C + of_nat i * 4) [1..<8]"
    by (simp add: window_def upt_conv_Cons)
  have i: "ldr64_from_x0 0xF940AC09 = Some 0x158" by (simp add: ldr64_from_x0_def ldr64_from_def)
  show ?thesis
    by (simp add: np_compat_probe_tool_layout_def sample_eval l c w i probe_oslist_offsets_def compat_offsets)
qed

text \<open>C40. The probe accepts any distance the fields have moved by, but the buffer has room for 0x50 bytes
  more only: there is code it accepts for which filling in the entry writes beyond the buffer, whatever
  the tool.\<close>

theorem wide_layout_overruns:
  "\<exists>code gate lay. np_compat_probe_tool_layout code gate 0 initial_layout = (True, lay) \<and>
     (\<forall>tool t at. \<exists>m x. ENTRY_BUFFER \<le> unat (x - tool) \<and> fill_entry lay at t tool m x \<noteq> m x)"
proof (intro exI conjI allI)
  show "np_compat_probe_tool_layout wide_gate 0x1000 0 initial_layout = (True, initial_layout\<lparr>g_tool_shift := 0x100\<rparr>)"
    by (rule wide_layout)
  fix tool :: u64 and t at
  let ?m = "\<lambda>_ :: u64. NOT (ucast (at (cstr ''macos'') :: u64)) :: u8"
  let ?to = "tool + 0x178"
  show "ENTRY_BUFFER \<le> unat (?to - tool)" by (simp add: ENTRY_BUFFER_def)
  have "tool_field (initial_layout\<lparr>g_tool_shift := 0x100\<rparr>) tool COMPAT_TOOL_TO_OSLIST_OFF = ?to"
    by (simp add: tool_field_def np_compat_tool_off_def compat_offsets)
  then have "fill_entry (initial_layout\<lparr>g_tool_shift := 0x100\<rparr>) at t tool ?m ?to = ucast (at (cstr ''macos''))"
    by (simp add: fill_entry_def Let_def store64_def)
  moreover have "w \<noteq> NOT w" for w :: u8
  proof
    assume "w = NOT w"
    then have "bit w 0 = bit (NOT w) 0" by simp
    then show False by (simp add: bit_not_iff)
  qed
  ultimately show "fill_entry (initial_layout\<lparr>g_tool_shift := 0x100\<rparr>) at t tool ?m ?to \<noteq> ?m ?to" by metis
qed

end
