(* ===== verification/Pb.thy ===== *)
theory Pb
  imports C_Str Writer
begin

text \<open>
  The protobuf writer of \<^verbatim>\<open>src/dylib/feats/compatsvc.c\<close>: messages are written field by field into a
  buffer of fixed size. A reader of the same encoding states what they mean.
\<close>

section \<open>Writing\<close>

definition WIRE_VARINT :: u32 where "WIRE_VARINT = 0"
definition WIRE_BYTES :: u32 where "WIRE_BYTES = 2"

record np_pb =
  pb_buf :: "u8 list"
  pb_cap :: nat
  pb_ok :: bool

definition pb_byte :: "u8 \<Rightarrow> np_pb \<Rightarrow> np_pb" where
  "pb_byte b w = (if length (pb_buf w) \<ge> pb_cap w then w\<lparr>pb_ok := False\<rparr> else w\<lparr>pb_buf := pb_buf w @ [b]\<rparr>)"

text \<open>The loop \<open>do ... while (v && w->ok)\<close>.\<close>

lemma unat_drop7: "drop_bit 7 (v :: u64) \<noteq> 0 \<Longrightarrow> unat (drop_bit 7 v) < unat v"
proof -
  assume "drop_bit 7 v \<noteq> 0"
  then have "v \<noteq> 0" by auto
  then have "0 < unat v" by (simp add: unat_gt_0)
  then show ?thesis by (simp only: unat_drop_bit_eq drop_bit_eq_div) (simp add: unat_div)
qed

function pb_varint :: "u64 \<Rightarrow> np_pb \<Rightarrow> np_pb" where
  "pb_varint v w =
     (let b = ucast (v AND 0x7f) :: u8; v' = drop_bit 7 v;
          w' = pb_byte (if v' \<noteq> 0 then b OR 0x80 else b) w
      in if v' \<noteq> 0 \<and> pb_ok w' then pb_varint v' w' else w')"
  by pat_completeness auto
termination
  by (relation "measure (\<lambda>(v, _). unat v)") (auto simp: unat_drop7)

declare pb_varint.simps [simp del]

definition pb_tag :: "u32 \<Rightarrow> u32 \<Rightarrow> np_pb \<Rightarrow> np_pb" where
  "pb_tag field wire w = pb_varint (push_bit 3 (ucast field) OR ucast wire) w"

fun pb_bytes :: "u8 list \<Rightarrow> np_pb \<Rightarrow> np_pb" where
  "pb_bytes [] w = w"
| "pb_bytes (b # bs) w = (if \<not> pb_ok w then w else pb_bytes bs (pb_byte b w))"

definition pb_blob :: "u32 \<Rightarrow> u8 list \<Rightarrow> np_pb \<Rightarrow> np_pb" where
  "pb_blob field bs w = pb_bytes bs (pb_varint (of_nat (length bs)) (pb_tag field WIRE_BYTES w))"

definition pb_string :: "u32 \<Rightarrow> cstring option \<Rightarrow> np_pb \<Rightarrow> np_pb" where
  "pb_string field str w = (case str of None \<Rightarrow> w | Some s \<Rightarrow> pb_blob field s w)"

definition pb_bool :: "u32 \<Rightarrow> bool \<Rightarrow> np_pb \<Rightarrow> np_pb" where
  "pb_bool field b w = pb_varint (if b then 1 else 0) (pb_tag field WIRE_VARINT w)"

section \<open>What is written\<close>

interpretation pb: bounded_writer pb_buf pb_cap pb_ok 0 pb_byte "\<lambda>b. [b]"
  by unfold_locales (auto simp: pb_byte_def)

function varint :: "u64 \<Rightarrow> u8 list" where
  "varint v = (if drop_bit 7 v \<noteq> 0 then (ucast (v AND 0x7f) OR 0x80) # varint (drop_bit 7 v) else [ucast (v AND 0x7f)])"
  by pat_completeness auto
termination
  by (relation "measure unat") (auto simp: unat_drop7)

declare varint.simps [simp del]

lemma writes_varint: "pb.writes k (pb_varint v) (varint v)"
proof (induction v arbitrary: k rule: varint.induct)
  case (1 v)
  let ?b = "ucast (v AND 0x7f) :: u8"
  show ?case
  proof (cases "drop_bit 7 v = 0")
    case True
    then have "pb_varint v = pb_byte ?b" by (simp add: fun_eq_iff pb_varint.simps[of v])
    then show ?thesis using True pb.writes_put[of k ?b] by (simp add: varint.simps[of v])
  next
    case False
    have "pb.writes k (\<lambda>w. if pb_ok (pb_byte (?b OR 0x80) w)
          then pb_varint (drop_bit 7 v) (pb_byte (?b OR 0x80) w) else pb_byte (?b OR 0x80) w)
        ([?b OR 0x80] @ varint (drop_bit 7 v))"
      by (rule pb.writes_guard[OF pb.writes_put 1[OF False, of 0]]) simp
    moreover have "pb_varint v w = (if pb_ok (pb_byte (?b OR 0x80) w)
        then pb_varint (drop_bit 7 v) (pb_byte (?b OR 0x80) w) else pb_byte (?b OR 0x80) w)" for w
      using False by (simp add: pb_varint.simps[of v] Let_def)
    ultimately show ?thesis using False by (simp add: varint.simps[of v])
  qed
qed

definition tag_bytes :: "u32 \<Rightarrow> u32 \<Rightarrow> u8 list" where
  "tag_bytes field wire = varint (push_bit 3 (ucast field) OR ucast wire)"

definition blob_bytes :: "u32 \<Rightarrow> u8 list \<Rightarrow> u8 list" where
  "blob_bytes field bs = tag_bytes field WIRE_BYTES @ varint (of_nat (length bs)) @ bs"

definition bool_bytes :: "u32 \<Rightarrow> bool \<Rightarrow> u8 list" where
  "bool_bytes field b = tag_bytes field WIRE_VARINT @ varint (if b then 1 else 0)"

lemma writes_tag: "pb.writes k (pb_tag field wire) (tag_bytes field wire)"
  using writes_varint[of k] by (simp add: pb_tag_def[abs_def] tag_bytes_def)

lemma writes_bytes: "pb.writes k (pb_bytes bs) bs"
  using pb.writes_loop[of pb_bytes k bs] by simp

lemma writes_blob: "pb.writes k (pb_blob field bs) (blob_bytes field bs)"
proof -
  have "pb.writes k (\<lambda>w. pb_bytes bs (pb_varint (of_nat (length bs)) (pb_tag field WIRE_BYTES w)))
      ((tag_bytes field WIRE_BYTES @ varint (of_nat (length bs))) @ bs)"
    by (rule pb.writes_comp[OF pb.writes_comp[OF writes_tag writes_varint[of 0]] writes_bytes[of 0]]) simp_all
  then show ?thesis by (simp add: pb_blob_def[abs_def] blob_bytes_def)
qed

lemma writes_pb_string:
  "pb.writes k (pb_string field str) (case str of None \<Rightarrow> [] | Some s \<Rightarrow> blob_bytes field s)"
  by (cases str) (simp_all add: pb_string_def[abs_def] pb.writes_id writes_blob)

lemma writes_pb_bool: "pb.writes k (pb_bool field b) (bool_bytes field b)"
proof -
  have "pb.writes k (\<lambda>w. pb_varint (if b then 1 else 0) (pb_tag field WIRE_VARINT w))
      (tag_bytes field WIRE_VARINT @ varint (if b then 1 else 0))"
    by (rule pb.writes_comp[OF writes_tag writes_varint[of 0]]) simp
  then show ?thesis by (simp add: pb_bool_def[abs_def] bool_bytes_def)
qed


section \<open>Reading\<close>

text \<open>What the encoding means: a message is a list of numbered fields, each a number or bytes.\<close>

datatype pb_field = Number u32 u64 | Bytes u32 "u8 list"

fun field_bytes :: "pb_field \<Rightarrow> u8 list" where
  "field_bytes (Number field v) = tag_bytes field WIRE_VARINT @ varint v"
| "field_bytes (Bytes field bs) = blob_bytes field bs"

fun read_varint :: "u8 list \<Rightarrow> (u64 \<times> u8 list) option" where
  "read_varint [] = None"
| "read_varint (b # r) =
     (if b AND 0x80 = 0 then Some (ucast (b AND 0x7f), r)
      else map_option (\<lambda>(v, r). (ucast (b AND 0x7f) OR push_bit 7 v, r)) (read_varint r))"

definition read_field :: "u8 list \<Rightarrow> (pb_field \<times> u8 list) option" where
  "read_field bs = (case read_varint bs of
     None \<Rightarrow> None
   | Some (tag, r) \<Rightarrow>
       (case read_varint r of
          None \<Rightarrow> None
        | Some (v, r) \<Rightarrow>
            if tag AND 7 = ucast WIRE_VARINT then Some (Number (ucast (drop_bit 3 tag)) v, r)
            else if tag AND 7 = ucast WIRE_BYTES \<and> unat v \<le> length r
            then Some (Bytes (ucast (drop_bit 3 tag)) (take (unat v) r), drop (unat v) r)
            else None))"

lemma read_varint_shorter: "read_varint bs = Some (v, r) \<Longrightarrow> length r < length bs"
  by (induction bs arbitrary: v) (auto split: if_splits)

lemma read_field_shorter: "read_field bs = Some (f, r) \<Longrightarrow> length r < length bs"
  by (auto simp: read_field_def less_imp_diff_less dest!: read_varint_shorter split: option.splits if_splits)

function read_message :: "u8 list \<Rightarrow> pb_field list option" where
  "read_message bs = (if bs = [] then Some [] else case read_field bs of
     None \<Rightarrow> None | Some (f, r) \<Rightarrow> map_option ((#) f) (read_message r))"
  by pat_completeness auto
termination
  by (relation "measure length") (auto dest: read_field_shorter)

declare read_message.simps [simp del]

text \<open>The low seven bits of a number, as a byte and back.\<close>

lemma low_byte: "(ucast (v AND 0x7f :: u64) :: u8) = of_nat (unat v mod 128)"
  "(of_nat (unat v mod 128) :: u64) = take_bit 7 v"
proof -
  have t: "take_bit 7 v = of_nat (unat v mod 128)"
    by (simp add: word_unat_eq_iff take_bit_eq_mod unat_mod_distrib unsigned_of_nat take_bit_nat_eq_self)
  then show "(of_nat (unat v mod 128) :: u64) = take_bit 7 v" by simp
  have "(0x7f :: u64) = mask 7" by (simp add: mask_eq_exp_minus_1)
  then have "v AND 0x7f = take_bit 7 v" by (simp only: take_bit_eq_mask)
  then show "(ucast (v AND 0x7f :: u64) :: u8) = of_nat (unat v mod 128)"
    by (simp add: t word_unat_eq_iff unsigned_ucast_eq unsigned_of_nat take_bit_nat_eq_self)
qed

lemma read_varint_varint: "read_varint (varint v @ r) = Some (v, r)"
proof (induction v rule: varint.induct)
  case (1 v)
  have c: "unat v mod 128 < 128" by simp
  note low = low7[OF c] low_byte[of v]
  have join: "take_bit 7 v OR push_bit 7 (drop_bit 7 v) = v"
  proof (rule bit_word_eqI)
    fix n assume "n < LENGTH(64)"
    then show "bit (take_bit 7 v OR push_bit 7 (drop_bit 7 v)) n = bit v n"
      by (cases "n < 7") (simp_all add: bit_simps)
  qed
  show ?case
  proof (cases "drop_bit 7 v = 0")
    case True
    then have "take_bit 7 v = v" using join by simp
    then show ?thesis using True low by (simp add: varint.simps[of v])
  next
    case False
    then show ?thesis using 1[OF False] low join by (simp add: varint.simps[of v])
  qed
qed

lemma tag_parts:
  assumes "wire = WIRE_VARINT \<or> wire = WIRE_BYTES"
  shows "(push_bit 3 (ucast field) OR ucast wire :: u64) AND 7 = ucast wire"
    "ucast (drop_bit 3 (push_bit 3 (ucast field) OR ucast wire :: u64)) = (field :: u32)"
proof -
  have low: "bit wire n \<Longrightarrow> n < 3" for n
    using assms nat_bit_less[of 2 3 n]
    by (auto simp: WIRE_VARINT_def WIRE_BYTES_def bit_simps bit_numeral_rec(1) split: nat.splits
        dest: bit_imp_le_length)
  have p7: "(7 :: u64) = mask 3" by (simp add: mask_eq_exp_minus_1)
  show "(push_bit 3 (ucast field) OR ucast wire :: u64) AND 7 = ucast wire"
    unfolding p7 by (rule bit_word_eqI) (auto simp: bit_simps dest: low)
  show "ucast (drop_bit 3 (push_bit 3 (ucast field) OR ucast wire :: u64)) = (field :: u32)"
    by (rule bit_word_eqI) (auto simp: bit_simps dest: low)
qed

definition field_ok :: "pb_field \<Rightarrow> bool" where
  "field_ok f = (case f of Number _ _ \<Rightarrow> True | Bytes _ bs \<Rightarrow> length bs < 2 ^ 64)"

lemma read_field_bytes: "field_ok f \<Longrightarrow> read_field (field_bytes f @ r) = Some (f, r)"
proof (cases f)
  case (Number field v)
  then show ?thesis
    using tag_parts[of WIRE_VARINT field]
    by (simp add: read_field_def tag_bytes_def read_varint_varint)
next
  case (Bytes field bs)
  assume "field_ok f"
  then have "unat (of_nat (length bs) :: u64) = length bs"
    by (simp add: Bytes field_ok_def unsigned_of_nat take_bit_nat_eq_self)
  then show ?thesis
    using tag_parts[of WIRE_BYTES field] Bytes
    by (simp add: read_field_def blob_bytes_def tag_bytes_def read_varint_varint WIRE_BYTES_def WIRE_VARINT_def)
qed

lemma read_message_fields: "list_all field_ok fs \<Longrightarrow> read_message (concat (map field_bytes fs)) = Some fs"
proof (induction fs)
  case Nil
  then show ?case by (simp add: read_message.simps)
next
  case (Cons f fs)
  then have f: "read_field (field_bytes f @ concat (map field_bytes fs)) = Some (f, concat (map field_bytes fs))"
    by (simp add: read_field_bytes)
  from read_field_shorter[OF f] have "field_bytes f @ concat (map field_bytes fs) \<noteq> []" by auto
  with f Cons show ?case by (subst read_message.simps) simp
qed

end
