(* ===== verification/Web_Ui.thy ===== *)
theory Web_Ui
  imports A64 Macho Compat_Probe Mem_Fields
begin

text \<open>
  The routes served to the pages of the client, \<^verbatim>\<open>src/dylib/feats/webui.c\<close>: finding the registry of
  routes and the parser in the client's code, borrowing the job class of a route it serves, registering
  routes, and the one handler that serves them all. The client's functions are parameters, called by
  address; they may change the memory.
\<close>

section \<open>Decoding\<close>

definition sign_extend :: "u32 \<Rightarrow> nat \<Rightarrow> u32" where
  "sign_extend v n = (if v AND push_bit (n - 1) 1 \<noteq> 0 then v - push_bit n 1 else v)"

definition ui_bl_target :: "u32 \<Rightarrow> u64 \<Rightarrow> u64 option" where
  "ui_bl_target insn pc =
     (if insn AND 0xFC000000 \<noteq> 0x94000000 then None
      else Some (pc + 4 * scast (sign_extend (insn AND 0x03FFFFFF) 26)))"

definition adrp_add_target :: "u64 \<Rightarrow> u32 \<Rightarrow> u32 \<Rightarrow> u64" where
  "adrp_add_target pc first second =
     (if first AND 0x9F000000 \<noteq> 0x90000000 then 0
      else let reg = first AND 0x1F;
               imm = sign_extend (push_bit 2 (drop_bit 5 first AND 0x7FFFF) OR (drop_bit 29 first AND 3)) 21;
               page = (pc AND NOT 0xFFF) + push_bit 12 (scast imm)
           in if second AND 0xFF800000 \<noteq> 0x91000000 then 0
              else if second AND 0x1F \<noteq> reg \<or> drop_bit 5 second AND 0x1F \<noteq> reg then 0
              else page + ucast (drop_bit 10 second AND 0xFFF))"

text \<open>The target of a branch, and whether it is conditional; 0 for no branch.\<close>

definition branch_target :: "u32 \<Rightarrow> u64 \<Rightarrow> u64 \<times> bool" where
  "branch_target insn pc =
     (if insn AND 0xFC000000 = 0x14000000 then (pc + 4 * scast (sign_extend (insn AND 0x03FFFFFF) 26), False)
      else if insn AND 0xFF000010 = 0x54000000 \<or> insn AND 0x7F000000 = 0x34000000
      then (pc + 4 * scast (sign_extend (drop_bit 5 insn AND 0x7FFFF) 19), True)
      else if insn AND 0x7F000000 = 0x36000000
      then (pc + 4 * scast (sign_extend (drop_bit 5 insn AND 0x3FFF) 14), True)
      else (0, False))"

section \<open>State\<close>

definition ACCESSOR_LOOKBACK :: nat where "ACCESSOR_LOOKBACK = 12"
definition MIN_SITES :: nat where "MIN_SITES = 4"
definition FN_SPAN_MAX :: u64 where "FN_SPAN_MAX = 0x400"
definition VT_SLOTS :: nat where "VT_SLOTS = 24"
definition VT_RUN_MIN :: nat where "VT_RUN_MIN = 8"
definition MAX_ROUTES :: nat where "MAX_ROUTES = 8"
definition REGISTRY_MAP_OFF :: u64 where "REGISTRY_MAP_OFF = 96"
definition MAP_ELEMENTS_OFF :: u64 where "MAP_ELEMENTS_OFF = 48"
definition MAP_BOUND_OFF :: u64 where "MAP_BOUND_OFF = 72"
definition ROUTE_STRIDE :: u64 where "ROUTE_STRIDE = 48"
definition REGISTRY_BROADCASTER_OFF :: u64 where "REGISTRY_BROADCASTER_OFF = 24"
definition MSG_NEW_OFF :: u64 where "MSG_NEW_OFF = 24"
definition ELEM_DESCRIPTOR_OFF :: u64 where "ELEM_DESCRIPTOR_OFF = 8"
definition ELEM_FLAGS_OFF :: u64 where "ELEM_FLAGS_OFF = 16"
definition DESC_FACTORY :: u64 where "DESC_FACTORY = 2"
definition RESULT_FAIL :: int where "RESULT_FAIL = 2"

text \<open>A route: its name, its handler, the virtual functions of its jobs, and the job factory in its
  descriptor, given by number.\<close>

record 'h np_route =
  rt_name :: cstring
  rt_handler :: 'h
  rt_vtable :: "u64 list"
  rt_factory :: nat

record 'h webui_state =
  g_registry :: u64
  g_register_fn :: u64
  g_send_response :: u64
  g_parse :: u64
  g_text_base :: u64
  g_text_end :: u64
  g_const_base :: u64
  g_const_end :: u64
  g_text_seg_base :: u64
  g_text_seg_size :: u64
  g_notify_slot :: "nat option"
  notify_worked_out :: bool
  g_routes :: "'h np_route list"
  g_stock_factory :: u64
  g_clone :: "u64 list"
  g_route_flags :: u64

text \<open>The functions of the client, by address; and the addresses of our own table of routes, job handler and
  job factories.\<close>

record webui_client =
  wc_accessor :: "u64 \<Rightarrow> mem \<Rightarrow> u64 \<times> mem"
  wc_parse :: "u64 \<Rightarrow> u64 \<Rightarrow> u8 list \<Rightarrow> mem \<Rightarrow> int \<times> mem"
  wc_new :: "u64 \<Rightarrow> mem \<Rightarrow> u64 \<times> mem"
  wc_job :: "u64 \<Rightarrow> u64 \<Rightarrow> u64 \<Rightarrow> mem \<Rightarrow> u64 \<times> mem"
  wc_send :: "u64 \<Rightarrow> u64 \<Rightarrow> u64 \<Rightarrow> mem \<Rightarrow> mem"
  wc_register :: "u64 \<Rightarrow> u64 \<Rightarrow> cstring \<times> u64 \<times> u64 \<times> u64 \<times> u64 \<Rightarrow> mem \<Rightarrow> int \<times> mem"
  wc_notify :: "u64 \<Rightarrow> u64 \<Rightarrow> cstring \<Rightarrow> u64 \<Rightarrow> mem \<Rightarrow> int \<times> mem"
  wc_routes_va :: u64
  wc_job_handler_va :: u64
  wc_job_factory_va :: "nat \<Rightarrow> u64"

definition SIZEOF_ROUTE :: u64 where "SIZEOF_ROUTE = 272"
definition ROUTE_VTABLE_OFF :: u64 where "ROUTE_VTABLE_OFF = 64"

text \<open>\<open>&g_routes[i].vtable[2]\<close>.\<close>

definition route_vptr :: "webui_client \<Rightarrow> nat \<Rightarrow> u64" where
  "route_vptr cl i = wc_routes_va cl + of_nat i * SIZEOF_ROUTE + ROUTE_VTABLE_OFF + 16"

definition ui_in_text :: "'h webui_state \<Rightarrow> u64 \<Rightarrow> bool" where
  "ui_in_text st va \<longleftrightarrow> g_text_base st \<noteq> 0 \<and> va \<ge> g_text_base st \<and> va < g_text_end st \<and> va AND 3 = 0"

section \<open>The registry\<close>

text \<open>The last call before a call, as far as the lookback and the code go.\<close>

fun accessor_before :: "mem \<Rightarrow> u64 \<Rightarrow> u64 \<Rightarrow> nat list \<Rightarrow> u64" where
  "accessor_before m text_base pc [] = 0"
| "accessor_before m text_base pc (back # bs) =
     (let at = pc - 4 * of_nat back in
      if at < text_base then 0
      else case ui_bl_target (load32 m at) at of
          Some accessor \<Rightarrow> accessor
        | None \<Rightarrow> accessor_before m text_base pc bs)"

fun accessor_loop :: "mem \<Rightarrow> u64 \<Rightarrow> u64 \<Rightarrow> u64 list \<Rightarrow> u64 \<times> nat \<times> nat \<times> nat \<Rightarrow> u64 \<times> nat \<times> nat \<times> nat" where
  "accessor_loop m register_fn text_base [] s = s"
| "accessor_loop m register_fn text_base (pc # pcs) (winner, agree, disagree, silent) =
     (if ui_bl_target (load32 m pc) pc \<noteq> Some register_fn
      then accessor_loop m register_fn text_base pcs (winner, agree, disagree, silent)
      else let accessor = accessor_before m text_base pc [1..<Suc ACCESSOR_LOOKBACK] in
        accessor_loop m register_fn text_base pcs
          (if accessor = 0 then (winner, agree, disagree, silent + 1)
           else if winner = 0 then (accessor, 1, disagree, silent)
           else if accessor = winner then (winner, agree + 1, disagree, silent)
           else (winner, agree, disagree + 1, silent)))"

definition find_accessor :: "mem \<Rightarrow> u64 \<Rightarrow> u64 \<Rightarrow> u64 \<Rightarrow> u64" where
  "find_accessor m register_fn text_base text_size =
     (let fin = text_base + text_size in
      case accessor_loop m register_fn text_base (scan_pcs 4 text_base fin) (0, 0, 0, 0) of
        (winner, agree, disagree, silent) \<Rightarrow>
          if disagree \<noteq> 0 then 0
          else if agree < MIN_SITES then 0
          else if winner < text_base \<or> winner \<ge> fin then 0
          else winner)"

text \<open>The calls of a function whose answer is tested by its lowest bit: the target of the only one.\<close>

definition find_parse :: "mem \<Rightarrow> u64 \<Rightarrow> u64" where
  "find_parse m dispatch_fn =
     (case filter (\<lambda>pc. ui_bl_target (load32 m pc) pc \<noteq> None \<and> load32 m (pc + 4) AND 0xFFF8001F = 0x36000000)
         (scan_pcs 8 dispatch_fn (dispatch_fn + FN_SPAN_MAX)) of
       [pc] \<Rightarrow> the (ui_bl_target (load32 m pc) pc)
     | _ \<Rightarrow> 0)"

definition np_webui_init ::
  "webui_client \<Rightarrow> u64 \<Rightarrow> u64 \<Rightarrow> u64 \<Rightarrow> u64 \<Rightarrow> u64 \<Rightarrow> 'h webui_state \<times> mem \<Rightarrow> bool \<times> 'h webui_state \<times> mem" where
  "np_webui_init cl mh slide register_fn dispatch_fn send_response s = (case s of (st, m) \<Rightarrow>
     if mh = 0 \<or> register_fn = 0 \<or> dispatch_fn = 0 \<or> send_response = 0 then (False, st, m)
     else case np_get_section_containing m mh slide register_fn of
         None \<Rightarrow> (False, st, m)
       | Some (text_base, text_size) \<Rightarrow>
     let st = st\<lparr>g_text_base := text_base, g_text_end := text_base + text_size\<rparr>
     in case np_find_segment m mh slide (cstr ''__DATA_CONST'') of
         None \<Rightarrow> (False, st, m)
       | Some (const_base, const_size) \<Rightarrow>
     let st = st\<lparr>g_const_base := const_base, g_const_end := const_base + const_size\<rparr>;
         st = (case np_find_segment m mh slide (cstr ''__TEXT'') of
             None \<Rightarrow> st
           | Some (base, len) \<Rightarrow> st\<lparr>g_text_seg_base := base, g_text_seg_size := len\<rparr>);
         accessor = find_accessor m register_fn text_base text_size
     in if accessor = 0 then (False, st, m)
        else case wc_accessor cl accessor m of (registry, m) \<Rightarrow>
          if \<not> np_plausible_ptr registry then (False, st, m)
          else (True, st\<lparr>g_registry := registry, g_register_fn := register_fn,
                  g_send_response := send_response, g_parse := find_parse m dispatch_fn\<rparr>, m))"

definition np_webui_parse_into :: "webui_client \<Rightarrow> 'h webui_state \<Rightarrow> u64 \<Rightarrow> u8 list \<Rightarrow> mem \<Rightarrow> bool \<times> mem" where
  "np_webui_parse_into cl st message bytes m =
     (if g_parse st = 0 \<or> message = 0 then (False, m)
      else case wc_parse cl (g_parse st) message bytes m of (rc, m) \<Rightarrow> (odd rc, m))"

text \<open>The first call of the register function is the lookup; the only call of it in the dispatcher.\<close>

definition np_webui_lookup_site :: "mem \<Rightarrow> u64 \<Rightarrow> u64 \<Rightarrow> u64" where
  "np_webui_lookup_site m register_fn dispatch_fn =
     (if register_fn = 0 \<or> dispatch_fn = 0 then 0
      else case first_found (\<lambda>pc. ui_bl_target (load32 m pc) pc) (scan_pcs 1 register_fn (register_fn + FN_SPAN_MAX)) of
          None \<Rightarrow> 0
        | Some lookup \<Rightarrow>
            if lookup = 0 then 0
            else case filter (\<lambda>pc. ui_bl_target (load32 m pc) pc = Some lookup)
                (scan_pcs 1 dispatch_fn (dispatch_fn + FN_SPAN_MAX)) of
              [site] \<Rightarrow> site | _ \<Rightarrow> 0)"

section \<open>The routes of the client\<close>

text \<open>The printable name of a slot, where it has one of up to 127 characters.\<close>

definition route_at :: "mem \<Rightarrow> u64 \<Rightarrow> nat \<Rightarrow> cstring option" where
  "route_at m elements i =
     (let name = load64 m (elements + of_nat i * ROUTE_STRIDE) in
      if name < 0x100000000 \<or> name \<ge> 0x800000000000 then None
      else let bytes = map (\<lambda>k. m (name + of_nat k)) [0..<128];
               s = takeWhile (\<lambda>c. 0x20 \<le> c \<and> c \<le> 0x7e) bytes
           in if length s < 128 \<and> bytes ! length s = 0 \<and> s \<noteq> [] then Some s else None)"

definition walk_routes :: "'h webui_state \<Rightarrow> mem \<Rightarrow> (u64 \<times> nat) option" where
  "walk_routes st m =
     (if g_registry st = 0 then None
      else let rmap = g_registry st + REGISTRY_MAP_OFF;
               elements = load64 m (rmap + MAP_ELEMENTS_OFF);
               bound = sint (load32 m (rmap + MAP_BOUND_OFF))
           in if \<not> np_plausible_ptr elements \<or> bound \<le> 0 \<or> bound > 4096 then None
              else Some (elements, nat bound))"

section \<open>The job class of a served route\<close>

text \<open>Does a function call a target, as far as its branches reach?\<close>

fun fn_calls_loop :: "mem \<Rightarrow> u64 \<Rightarrow> u64 list \<Rightarrow> u64 \<Rightarrow> bool" where
  "fn_calls_loop m target [] furthest = False"
| "fn_calls_loop m target (pc # pcs) furthest =
     (let insn = load32 m pc in
      if ui_bl_target insn pc = Some target then True
      else case branch_target insn pc of (branch, cond) \<Rightarrow>
        if branch \<noteq> 0 then
          if \<not> cond \<and> pc \<ge> furthest then False
          else fn_calls_loop m target pcs (if branch > furthest then branch else furthest)
        else if (insn = 0xD65F03C0 \<or> insn AND 0xFFFFFC1F = 0xD61F0000) \<and> pc \<ge> furthest then False
        else fn_calls_loop m target pcs furthest)"

definition fn_calls :: "mem \<Rightarrow> u64 \<Rightarrow> u64 \<Rightarrow> bool" where
  "fn_calls m fn target = fn_calls_loop m target (scan_pcs 1 fn (fn + FN_SPAN_MAX)) fn"

definition vslot :: "mem \<Rightarrow> u64 \<Rightarrow> nat \<Rightarrow> u64" where
  "vslot m vptr n = load64 m (vptr + 8 * of_nat n)"

definition vtable_run :: "'h webui_state \<Rightarrow> mem \<Rightarrow> u64 \<Rightarrow> nat" where
  "vtable_run st m vptr = length (takeWhile (\<lambda>n. ui_in_text st (vslot m vptr n)) [0..<VT_SLOTS])"

definition handler_slot :: "'h webui_state \<Rightarrow> mem \<Rightarrow> u64 \<Rightarrow> nat \<Rightarrow> nat option" where
  "handler_slot st m vptr run =
     (case filter (\<lambda>i. fn_calls m (vslot m vptr i) (g_send_response st)) [0..<run] of
       [i] \<Rightarrow> Some i | _ \<Rightarrow> None)"

fun factory_loop :: "'h webui_state \<Rightarrow> mem \<Rightarrow> u64 list \<Rightarrow> (u64 \<times> nat \<times> nat) option" where
  "factory_loop st m [] = None"
| "factory_loop st m (pc # pcs) =
     (let cand = adrp_add_target pc (load32 m pc) (load32 m (pc + 4)) in
      if cand = 0 \<or> cand < g_const_base st + 16 then factory_loop st m pcs
      else if cand + 8 * of_nat VT_SLOTS \<ge> g_const_end st then factory_loop st m pcs
      else let run = vtable_run st m cand in
        if run < VT_RUN_MIN then factory_loop st m pcs
        else case handler_slot st m cand run of
            None \<Rightarrow> factory_loop st m pcs
          | Some slot \<Rightarrow> Some (cand, slot, run))"

definition vtable_from_factory :: "'h webui_state \<Rightarrow> mem \<Rightarrow> u64 \<Rightarrow> (u64 \<times> nat \<times> nat) option" where
  "vtable_from_factory st m factory =
     (let ctor = (case first_found (\<lambda>pc. ui_bl_target (load32 m pc) pc) (scan_pcs 1 factory (factory + FN_SPAN_MAX)) of
          None \<Rightarrow> 0 | Some c \<Rightarrow> c)
      in if \<not> ui_in_text st ctor then None
         else factory_loop st m (scan_pcs 8 ctor (ctor + FN_SPAN_MAX)))"

text \<open>The clone: the two entries ahead of slot 0, and the virtual functions with ours in the handler slot.\<close>

fun borrow_loop :: "webui_client \<Rightarrow> mem \<Rightarrow> u64 \<Rightarrow> nat list \<Rightarrow> 'h webui_state \<Rightarrow> bool \<times> 'h webui_state" where
  "borrow_loop cl m elements [] st = (False, st)"
| "borrow_loop cl m elements (i # is) st =
     (if route_at m elements i = None then borrow_loop cl m elements is st
      else let elem = elements + of_nat i * ROUTE_STRIDE;
               desc = load64 m (elem + ELEM_DESCRIPTOR_OFF)
        in if \<not> np_plausible_ptr desc then borrow_loop cl m elements is st
           else let factory = load64 m (desc + 8 * DESC_FACTORY) in
             if \<not> ui_in_text st factory then borrow_loop cl m elements is st
             else case vtable_from_factory st m factory of
                 None \<Rightarrow> borrow_loop cl m elements is st
               | Some (vptr, slot, run) \<Rightarrow>
                   (True, st\<lparr>g_clone := (map (\<lambda>k. load64 m (vptr - 16 + 8 * of_nat k)) [0..<2 + run])
                       [2 + slot := wc_job_handler_va cl],
                     g_stock_factory := factory, g_route_flags := load64 m (elem + ELEM_FLAGS_OFF)\<rparr>))"

definition borrow_from_served_route :: "webui_client \<Rightarrow> mem \<Rightarrow> 'h webui_state \<Rightarrow> bool \<times> 'h webui_state" where
  "borrow_from_served_route cl m st = (case walk_routes st m of
     None \<Rightarrow> (False, st) | Some (elements, bound) \<Rightarrow> borrow_loop cl m elements [0..<bound] st)"

section \<open>Serving routes\<close>

text \<open>The client makes a job through the factory of the route; the job's class says which route it is.\<close>

definition build_job :: "webui_client \<Rightarrow> 'h webui_state \<Rightarrow> nat \<Rightarrow> u64 \<Rightarrow> u64 \<Rightarrow> mem \<Rightarrow> u64 \<times> mem" where
  "build_job cl st route dispatcher arg m = (case wc_job cl (g_stock_factory st) dispatcher arg m of (job, m) \<Rightarrow>
     (job, if job \<noteq> 0 then store64 m job (route_vptr cl route) else m))"

fun handler_loop :: "webui_client \<Rightarrow> u64 \<Rightarrow> nat \<Rightarrow> 'h np_route list \<Rightarrow> 'h option" where
  "handler_loop cl job_vptr i [] = None"
| "handler_loop cl job_vptr i (r # rs) =
     (if route_vptr cl i \<noteq> job_vptr then handler_loop cl job_vptr (Suc i) rs else Some (rt_handler r))"

definition job_handler ::
  "webui_client \<Rightarrow> ('h \<Rightarrow> u64 \<Rightarrow> u64 \<Rightarrow> mem \<Rightarrow> int \<times> mem) \<Rightarrow> 'h webui_state \<Rightarrow> u64 \<Rightarrow> u64 \<Rightarrow> mem \<Rightarrow> mem" where
  "job_handler cl run st job ctx m =
     (let request = load64 m (ctx + 8); response = load64 m (ctx + 16); job_vptr = load64 m job
      in case (case handler_loop cl job_vptr 0 (g_routes st) of
            None \<Rightarrow> (RESULT_FAIL, m) | Some h \<Rightarrow> run h request response m) of
          (result, m) \<Rightarrow> wc_send cl (g_send_response st) job ctx (store32 m ctx (of_int result)))"

definition np_webui_register_route ::
  "webui_client \<Rightarrow> cstring \<Rightarrow> u64 \<Rightarrow> u64 \<Rightarrow> 'h \<Rightarrow> 'h webui_state \<times> mem \<Rightarrow> bool \<times> 'h webui_state \<times> mem" where
  "np_webui_register_route cl name request_vptr response_vptr handler s = (case s of (st, m) \<Rightarrow>
     if g_registry st = 0 \<or> g_register_fn st = 0 then (False, st, m)
     else if \<not> np_plausible_ptr request_vptr \<or> \<not> np_plausible_ptr response_vptr then (False, st, m)
     else if length (g_routes st) \<ge> MAX_ROUTES then (False, st, m)
     else case (if g_clone st = [] then borrow_from_served_route cl m st else (True, st)) of (borrowed, st) \<Rightarrow>
       if \<not> borrowed then (False, st, m)
       else
         let request_new = load64 m (request_vptr + MSG_NEW_OFF);
             response_new = load64 m (response_vptr + MSG_NEW_OFF)
         in if \<not> ui_in_text st request_new \<or> \<not> ui_in_text st response_new then (False, st, m)
            else
              let n = length (g_routes st);
                  route = \<lparr>rt_name = name, rt_handler = handler, rt_vtable = g_clone st, rt_factory = n\<rparr>
              in case wc_register cl (g_register_fn st) (g_registry st)
                     (name, wc_job_factory_va cl n, g_route_flags st, request_new, response_new) m of
                   (rc, m) \<Rightarrow>
                     if rc \<noteq> 1 then (False, st, m) else (True, st\<lparr>g_routes := g_routes st @ [route]\<rparr>, m))"

section \<open>Notifications\<close>

definition find_literal :: "'h webui_state \<Rightarrow> mem \<Rightarrow> cstring \<Rightarrow> u64" where
  "find_literal st m s =
     (if g_text_seg_base st = 0 then 0
      else case find (\<lambda>k. list_all (\<lambda>j. m (g_text_seg_base st + of_nat (k + j)) = (s @ [0]) ! j) [0..<length s + 1])
          [0..<unat (g_text_seg_size st) - length s] of
        Some k \<Rightarrow> g_text_seg_base st + of_nat k | None \<Rightarrow> 0)"

fun task_loop :: "mem \<Rightarrow> u64 \<Rightarrow> u64 list \<Rightarrow> bool" where
  "task_loop m task_name [] = False"
| "task_loop m task_name (pc # pcs) =
     (let insn = load32 m pc in
      if insn = 0xD65F03C0 then False
      else if adrp_add_target pc insn (load32 m (pc + 4)) = task_name then True
      else task_loop m task_name pcs)"

definition notify_slot :: "'h webui_state \<Rightarrow> mem \<Rightarrow> u64 \<Rightarrow> u64 \<Rightarrow> nat option" where
  "notify_slot st m vtable task_name =
     find (\<lambda>slot. let fn = vslot m vtable slot in
        ui_in_text st fn \<and> task_loop m task_name (scan_pcs 8 fn (fn + FN_SPAN_MAX))) [0..<VT_SLOTS]"

definition np_webui_new_message :: "webui_client \<Rightarrow> 'h webui_state \<Rightarrow> u64 \<Rightarrow> mem \<Rightarrow> u64 \<times> mem" where
  "np_webui_new_message cl st vptr m =
     (if \<not> np_plausible_ptr vptr then (0, m)
      else let new_fn = load64 m (vptr + MSG_NEW_OFF) in
        if \<not> ui_in_text st new_fn then (0, m) else wc_new cl new_fn m)"

definition np_webui_notify ::
  "webui_client \<Rightarrow> cstring \<Rightarrow> u64 \<Rightarrow> 'h webui_state \<times> mem \<Rightarrow> bool \<times> 'h webui_state \<times> mem" where
  "np_webui_notify cl name message s = (case s of (st, m) \<Rightarrow>
     if g_registry st = 0 \<or> \<not> np_plausible_ptr message then (False, st, m)
     else
       let transport = load64 m (g_registry st + REGISTRY_BROADCASTER_OFF);
           vtable = (if np_plausible_ptr transport then load64 m transport else 0)
       in if \<not> np_plausible_ptr vtable then (False, st, m)
          else if g_notify_slot st = None \<and> notify_worked_out st then (False, st, m)
          else
            let st = (if g_notify_slot st \<noteq> None then st
                  else st\<lparr>notify_worked_out := True, g_notify_slot :=
                    (let task = find_literal st m (cstr ''ThreadedBroadcastNotification'') in
                     if task \<noteq> 0 then notify_slot st m vtable task else None)\<rparr>)
            in case g_notify_slot st of
                 None \<Rightarrow> (False, st, m)
               | Some slot \<Rightarrow>
                   let send = vslot m vtable slot in
                   if \<not> ui_in_text st send then (False, st, m)
                   else case wc_notify cl send transport name message m of (rc, m) \<Rightarrow> (rc = 1, st, m))"

section \<open>Lemmas\<close>

lemma route_vptr_inj:
  assumes "i \<le> MAX_ROUTES" "j \<le> MAX_ROUTES" "route_vptr cl i = route_vptr cl j"
  shows "i = j"
proof -
  have u: "unat (of_nat k * SIZEOF_ROUTE :: u64) = k * 272" if "k \<le> MAX_ROUTES" for k
  proof -
    have "(of_nat k * SIZEOF_ROUTE :: u64) = of_nat (k * 272)" by (simp add: SIZEOF_ROUTE_def)
    moreover have "unat (of_nat (k * 272) :: u64) = k * 272"
      by (rule unat_of_nat_u64) (use that in \<open>simp add: MAX_ROUTES_def\<close>)
    ultimately show ?thesis by presburger
  qed
  have "(of_nat i * SIZEOF_ROUTE :: u64) = of_nat j * SIZEOF_ROUTE" using assms(3) by (simp add: route_vptr_def)
  then have "i * 272 = j * 272" using u[OF assms(1)] u[OF assms(2)] by metis
  then show ?thesis by simp
qed

lemma handler_loop_route:
  assumes "k \<le> i" "i < k + length rs" "k + length rs \<le> MAX_ROUTES"
  shows "handler_loop cl (route_vptr cl i) k rs = Some (rt_handler (rs ! (i - k)))"
  using assms
proof (induction rs arbitrary: k)
  case (Cons r rs)
  show ?case
  proof (cases "k = i")
    case False
    then have "route_vptr cl k \<noteq> route_vptr cl i" using Cons.prems route_vptr_inj[of k i cl] by auto
    then show ?thesis using Cons.IH[of "Suc k"] Cons.prems False by (simp add: nth_Cons' Suc_diff_le)
  qed simp
qed simp

text \<open>The clone of a job's virtual functions has ours in one of its slots, and fits its array; every route
  has that clone and the factory of its own number.\<close>

definition clone_wf :: "webui_client \<Rightarrow> u64 list \<Rightarrow> bool" where
  "clone_wf cl clone \<longleftrightarrow> clone = [] \<or>
     (\<exists>slot. 2 + slot < length clone \<and> clone ! (2 + slot) = wc_job_handler_va cl) \<and>
     2 + VT_RUN_MIN \<le> length clone \<and> length clone \<le> 2 + VT_SLOTS"

definition routes_wf :: "webui_client \<Rightarrow> 'h webui_state \<Rightarrow> bool" where
  "routes_wf cl st \<longleftrightarrow> length (g_routes st) \<le> MAX_ROUTES \<and> clone_wf cl (g_clone st) \<and>
     (\<forall>i < length (g_routes st). rt_factory (g_routes st ! i) = i \<and> rt_vtable (g_routes st ! i) = g_clone st) \<and>
     (g_routes st = [] \<or> g_clone st \<noteq> [])"

lemma vtable_run_le: "vtable_run st m vptr \<le> VT_SLOTS"
  using length_takeWhile_le[of _ "[0..<VT_SLOTS]"] by (simp add: vtable_run_def)

lemma handler_slot_less:
  assumes "handler_slot st m vptr run = Some slot"
  shows "slot < run"
proof -
  let ?fs = "filter (\<lambda>i. fn_calls m (vslot m vptr i) (g_send_response st)) [0..<run]"
  have "?fs = [slot]" using assms by (auto simp: handler_slot_def split: list.splits)
  then have "slot \<in> set ?fs" by (simp only: list.set_intros)
  then show ?thesis by simp
qed

lemma factory_loop_some:
  "factory_loop st m pcs = Some (vptr, slot, run) \<Longrightarrow> slot < run \<and> VT_RUN_MIN \<le> run \<and> run \<le> VT_SLOTS"
  by (induction pcs) (auto simp: Let_def vtable_run_le dest: handler_slot_less split: if_splits option.splits)

lemma vtable_from_factory_some:
  "vtable_from_factory st m factory = Some (vptr, slot, run) \<Longrightarrow> slot < run \<and> VT_RUN_MIN \<le> run \<and> run \<le> VT_SLOTS"
  by (auto simp: vtable_from_factory_def Let_def dest: factory_loop_some split: if_splits)

lemma borrow_loop_clone:
  assumes "borrow_loop cl m elements is st = (ok, st')"
  shows "g_routes st' = g_routes st \<and> g_registry st' = g_registry st \<and> g_register_fn st' = g_register_fn st \<and>
    (if ok then clone_wf cl (g_clone st') \<and> g_clone st' \<noteq> [] else st' = st)"
  using assms
proof (induction "is" arbitrary: st)
  case (Cons i "is")
  let ?elem = "elements + of_nat i * ROUTE_STRIDE"
  let ?factory = "load64 m (load64 m (?elem + ELEM_DESCRIPTOR_OFF) + 8 * DESC_FACTORY)"
  show ?case
  proof (cases "route_at m elements i = None \<or> \<not> np_plausible_ptr (load64 m (?elem + ELEM_DESCRIPTOR_OFF)) \<or>
      \<not> ui_in_text st ?factory \<or> vtable_from_factory st m ?factory = None")
    case True
    then have "borrow_loop cl m elements (i # is) st = borrow_loop cl m elements is st"
      by (auto simp: Let_def)
    then show ?thesis using Cons.IH[of st] Cons.prems by presburger
  next
    case False
    then obtain vptr slot run name where v: "vtable_from_factory st m ?factory = Some (vptr, slot, run)"
      "route_at m elements i = Some name" by auto
    note r = vtable_from_factory_some[OF v(1)]
    have "clone_wf cl ((map (\<lambda>k. load64 m (vptr - 16 + 8 * of_nat k)) [0..<2 + run])[2 + slot := wc_job_handler_va cl])"
      unfolding clone_wf_def using r by (intro disjI2 conjI exI[of _ slot]) simp_all
    moreover have "borrow_loop cl m elements (i # is) st = (True,
        st\<lparr>g_clone := (map (\<lambda>k. load64 m (vptr - 16 + 8 * of_nat k)) [0..<2 + run])[2 + slot := wc_job_handler_va cl],
          g_stock_factory := ?factory, g_route_flags := load64 m (?elem + ELEM_FLAGS_OFF)\<rparr>)"
      using False v by (simp add: Let_def)
    ultimately show ?thesis using Cons.prems by auto
  qed
qed simp

lemma borrow_clone:
  assumes "borrow_from_served_route cl m st = (ok, st')"
  shows "g_routes st' = g_routes st \<and> g_registry st' = g_registry st \<and> g_register_fn st' = g_register_fn st \<and>
    (if ok then clone_wf cl (g_clone st') \<and> g_clone st' \<noteq> [] else st' = st)"
  using assms borrow_loop_clone by (fastforce simp: borrow_from_served_route_def split: option.splits)

lemma register_route_cases:
  assumes "np_webui_register_route cl name request_vptr response_vptr handler (st, m) = (ok, st', m')"
  obtains "\<not> ok" "m' = m" "st' = st"
  | b where "\<not> ok" "m' = m" "g_clone st = []" "length (g_routes st) < MAX_ROUTES"
      "borrow_from_served_route cl m st = (b, st')"
  | st1 rc where "length (g_routes st) < MAX_ROUTES" "g_registry st \<noteq> 0" "g_register_fn st \<noteq> 0"
      "if g_clone st = [] then borrow_from_served_route cl m st = (True, st1) else st1 = st"
      "wc_register cl (g_register_fn st1) (g_registry st1)
         (name, wc_job_factory_va cl (length (g_routes st)), g_route_flags st1,
          load64 m (request_vptr + MSG_NEW_OFF), load64 m (response_vptr + MSG_NEW_OFF)) m = (rc, m')"
      "ok = (rc = 1)"
      "st' = (if rc \<noteq> 1 then st1 else st1\<lparr>g_routes := g_routes st1 @
         [\<lparr>rt_name = name, rt_handler = handler, rt_vtable = g_clone st1, rt_factory = length (g_routes st1)\<rparr>]\<rparr>)"
proof (cases "g_registry st = 0 \<or> g_register_fn st = 0 \<or> \<not> np_plausible_ptr request_vptr \<or>
    \<not> np_plausible_ptr response_vptr \<or> length (g_routes st) \<ge> MAX_ROUTES")
  case True
  then have "np_webui_register_route cl name request_vptr response_vptr handler (st, m) = (False, st, m)"
    by (elim disjE) (simp_all add: np_webui_register_route_def)
  then show ?thesis using assms by (intro that(1)) simp_all
next
  case False
  obtain b st1 where b: "(if g_clone st = [] then borrow_from_served_route cl m st else (True, st)) = (b, st1)"
    by (cases "if g_clone st = [] then borrow_from_served_route cl m st else (True, st)")
  have n: "g_routes st1 = g_routes st"
    using b borrow_clone[of cl m st b st1] by (auto split: if_splits)
  let ?new = "load64 m (request_vptr + MSG_NEW_OFF)" and ?new' = "load64 m (response_vptr + MSG_NEW_OFF)"
  show ?thesis
  proof (cases "b \<and> ui_in_text st1 ?new \<and> ui_in_text st1 ?new'")
    case True
    obtain rc m1 where r: "wc_register cl (g_register_fn st1) (g_registry st1)
        (name, wc_job_factory_va cl (length (g_routes st1)), g_route_flags st1, ?new, ?new') m = (rc, m1)"
      by (cases "wc_register cl (g_register_fn st1) (g_registry st1)
        (name, wc_job_factory_va cl (length (g_routes st1)), g_route_flags st1, ?new, ?new') m")
    then show ?thesis using False True assms b n
      by (intro that(3)[of st1 rc]) (auto simp: np_webui_register_route_def Let_def split: if_splits)
  next
    case no: False
    then have "\<not> b \<or> \<not> ui_in_text st1 ?new \<or> \<not> ui_in_text st1 ?new'" by blast
    then have "np_webui_register_route cl name request_vptr response_vptr handler (st, m) = (False, st1, m)"
      using False b by (elim disjE) (simp_all add: np_webui_register_route_def Let_def)
    then show ?thesis using assms False b that(1,2) by (cases "g_clone st = []") simp_all
  qed
qed

section \<open>Properties\<close>

text \<open>What happens to the routes: the client's code is looked through once or more, routes are registered,
  pages are notified, the client does as it likes with its memory.\<close>

inductive serving :: "webui_client \<Rightarrow> 'h webui_state \<Rightarrow> bool" for cl where
  serving_start: "g_routes st = [] \<Longrightarrow> g_clone st = [] \<Longrightarrow> serving cl st"
| serving_init: "serving cl st \<Longrightarrow>
    serving cl (fst (snd (np_webui_init cl mh slide register_fn dispatch_fn send_response (st, m))))"
| serving_route: "serving cl st \<Longrightarrow>
    serving cl (fst (snd (np_webui_register_route cl name request_vptr response_vptr handler (st, m))))"
| serving_notify: "serving cl st \<Longrightarrow> serving cl (fst (snd (np_webui_notify cl name message (st, m))))"

lemma init_routes:
  "let st' = fst (snd (np_webui_init cl mh slide register_fn dispatch_fn send_response (st, m)))
   in g_routes st' = g_routes st \<and> g_clone st' = g_clone st"
  by (simp add: np_webui_init_def Let_def split: option.split prod.split)

lemma notify_routes:
  "let st' = fst (snd (np_webui_notify cl name message (st, m)))
   in g_routes st' = g_routes st \<and> g_clone st' = g_clone st"
  by (simp add: np_webui_notify_def Let_def split: option.split prod.split)

lemma routes_wf_cong: "g_routes st' = g_routes st \<Longrightarrow> g_clone st' = g_clone st \<Longrightarrow> routes_wf cl st' = routes_wf cl st"
  by (simp add: routes_wf_def)

lemma routes_wf_borrowed:
  assumes "routes_wf cl st" "g_clone st = []" "borrow_from_served_route cl m st = (b, st')"
  shows "routes_wf cl st'" "b \<Longrightarrow> g_clone st' \<noteq> []" "g_routes st' = []"
proof -
  have r: "g_routes st = []" using assms(1,2) by (auto simp: routes_wf_def)
  note c = borrow_clone[OF assms(3)]
  show "routes_wf cl st'"
  proof (cases b)
    case True
    then show ?thesis using c r by (simp add: routes_wf_def)
  next
    case False
    then show ?thesis using c assms(1) by simp
  qed
  show "b \<Longrightarrow> g_clone st' \<noteq> []" "g_routes st' = []" using c r by auto
qed

lemma routes_wf_register:
  assumes wf: "routes_wf cl st"
    and r: "np_webui_register_route cl name request_vptr response_vptr handler (st, m) = (ok, st', m')"
  shows "routes_wf cl st'"
proof (cases rule: register_route_cases[OF r])
  case 1
  then show ?thesis using wf by simp
next
  case (2 b)
  then show ?thesis using routes_wf_borrowed[OF wf] by simp
next
  case (3 st1 rc)
  have st1: "routes_wf cl st1 \<and> g_clone st1 \<noteq> [] \<and> length (g_routes st1) < MAX_ROUTES"
  proof (cases "g_clone st = []")
    case True
    with 3(4) have "borrow_from_served_route cl m st = (True, st1)" by simp
    from routes_wf_borrowed[OF wf True this] show ?thesis by (simp add: MAX_ROUTES_def)
  next
    case False
    with 3(4) have "st1 = st" by simp
    then show ?thesis using wf False 3(1) by simp
  qed
  then show ?thesis unfolding 3(7) by (auto simp: routes_wf_def nth_append less_Suc_eq)
qed

text \<open>C23. However often the page service is set up and routes are registered, there are never more routes
  than room, each route has the job factory of its own number and a copy of the virtual functions of a
  class of the client, and one slot of those, inside the array, is the handler of the project.\<close>

theorem routes_stay_wf:
  assumes "serving cl st"
  shows "routes_wf cl st"
  using assms
proof (induction rule: serving.induct)
  case (serving_start st)
  then show ?case by (simp add: routes_wf_def clone_wf_def)
next
  case (serving_init st mh slide register_fn dispatch_fn send_response m)
  then show ?case using init_routes[of cl mh slide register_fn dispatch_fn send_response st m]
    unfolding Let_def by (metis routes_wf_cong)
next
  case (serving_route st name request_vptr response_vptr handler m)
  then show ?case using routes_wf_register[OF serving_route.IH]
    by (cases "np_webui_register_route cl name request_vptr response_vptr handler (st, m)") auto
next
  case (serving_notify st name message m)
  then show ?case using notify_routes[of cl name message st m] unfolding Let_def by (metis routes_wf_cong)
qed

definition sample_client :: webui_client where
  "sample_client = \<lparr>wc_accessor = (\<lambda>_ m. (0x200000000, m)), wc_parse = (\<lambda>_ _ _ m. (1, m)), wc_new = (\<lambda>_ m. (0x300000000, m)),
     wc_job = (\<lambda>_ _ _ m. (0x400000000, m)), wc_send = (\<lambda>_ _ _ m. m), wc_register = (\<lambda>_ _ _ m. (1, m)),
     wc_notify = (\<lambda>_ _ _ _ m. (1, m)), wc_routes_va = 0x500000000, wc_job_handler_va = 0x600000000,
     wc_job_factory_va = (\<lambda>i. 0x600000100 + of_nat i * 0x40)\<rparr>"

definition sample_ui :: "nat webui_state" where
  "sample_ui = \<lparr>g_registry = 0, g_register_fn = 0, g_send_response = 0, g_parse = 0, g_text_base = 0, g_text_end = 0,
     g_const_base = 0, g_const_end = 0, g_text_seg_base = 0, g_text_seg_size = 0, g_notify_slot = None,
     notify_worked_out = False, g_routes = [], g_stock_factory = 0, g_clone = [], g_route_flags = 0\<rparr>"

theorem routes_stay_wf_witness:
  "routes_wf sample_client (fst (snd (np_webui_register_route sample_client (cstr ''R#1'') 0x100000000 0x100000100 7
     (fst (snd (np_webui_init sample_client 0x1000 0 0x2000 0x3000 0x4000 (sample_ui, \<lambda>_. 0))), \<lambda>_. 0))))"
  by (intro routes_stay_wf serving_route serving_init serving_start) (simp_all add: sample_ui_def)

text \<open>C9. A job the client makes for a route is handled by the handler of that route and by no other, with
  the request and the response of the call, and its result is what the client is sent.\<close>

theorem job_reaches_its_handler:
  assumes "length (g_routes st) \<le> MAX_ROUTES" "i < length (g_routes st)"
    and "build_job cl st i dispatcher arg m = (job, m1)" "job \<noteq> 0" "load64 m2 job = load64 m1 job"
  shows "job_handler cl run st job ctx m2 =
    (case run (rt_handler (g_routes st ! i)) (load64 m2 (ctx + 8)) (load64 m2 (ctx + 16)) m2 of
       (result, m3) \<Rightarrow> wc_send cl (g_send_response st) job ctx (store32 m3 ctx (of_int result)))"
proof -
  have "load64 m1 job = route_vptr cl i"
    using assms(3,4) by (auto simp: build_job_def load64_store64 split: prod.splits)
  then have "handler_loop cl (load64 m2 job) 0 (g_routes st) = Some (rt_handler (g_routes st ! i))"
    using handler_loop_route[of 0 i "g_routes st" cl] assms(1,2,5) by simp
  then show ?thesis by (simp add: job_handler_def)
qed

theorem job_reaches_its_handler_witness:
  "job_handler sample_client (\<lambda>h req resp m. (int h, m))
     (sample_ui\<lparr>g_routes := [\<lparr>rt_name = [], rt_handler = 5, rt_vtable = [], rt_factory = 0\<rparr>,
        \<lparr>rt_name = [], rt_handler = 1, rt_vtable = [], rt_factory = 1\<rparr>]\<rparr>) 0x400000000 0x700000000
     (store64 (\<lambda>_. 0) 0x400000000 (route_vptr sample_client 1)) =
   store32 (store64 (\<lambda>_. 0) 0x400000000 (route_vptr sample_client 1)) 0x700000000 1"
  using job_reaches_its_handler[of "sample_ui\<lparr>g_routes := [\<lparr>rt_name = [], rt_handler = 5, rt_vtable = [], rt_factory = 0\<rparr>,
        \<lparr>rt_name = [], rt_handler = 1, rt_vtable = [], rt_factory = 1\<rparr>]\<rparr>" 1 sample_client 0 0 "\<lambda>_. 0" "0x400000000"
      "store64 (\<lambda>_. 0) 0x400000000 (route_vptr sample_client 1)"
      "store64 (\<lambda>_. 0) 0x400000000 (route_vptr sample_client 1)" "\<lambda>h req resp m. (int h, m)" "0x700000000"]
  by (simp add: MAX_ROUTES_def build_job_def sample_client_def)

text \<open>What a registration of the client calls before, 0 where nothing is called near it.\<close>

definition site_accessor :: "mem \<Rightarrow> u64 \<Rightarrow> u64 \<Rightarrow> u64" where
  "site_accessor m text_base pc = accessor_before m text_base pc [1..<Suc ACCESSOR_LOOKBACK]"

lemma accessor_loop_disagree:
  "accessor_loop m register_fn text_base pcs (winner, agree, disagree, silent) = (w, a, d, s) \<Longrightarrow> disagree \<le> d"
  by (induction pcs arbitrary: winner agree disagree silent)
    (auto simp: Let_def split: if_splits, meson Suc_leD)

lemma accessor_loop_votes:
  assumes "accessor_loop m register_fn text_base pcs (winner, agree, 0, silent) = (w, a, 0, s)"
    "winner = 0 \<Longrightarrow> agree = 0"
  defines "sites \<equiv> filter (\<lambda>pc. ui_bl_target (load32 m pc) pc = Some register_fn) pcs"
  shows "(winner = 0 \<or> w = winner) \<and>
    (\<forall>pc \<in> set sites. site_accessor m text_base pc = 0 \<or> site_accessor m text_base pc = w) \<and>
    a = agree + length (filter (\<lambda>pc. site_accessor m text_base pc \<noteq> 0) sites)"
  using assms(1,2) unfolding sites_def
proof (induction pcs arbitrary: winner agree silent)
  case (Cons pc pcs)
  let ?acc = "site_accessor m text_base pc"
  show ?case
  proof (cases "ui_bl_target (load32 m pc) pc = Some register_fn")
    case False
    then show ?thesis using Cons.IH[of winner agree silent] Cons.prems by simp
  next
    case True
    have step: "accessor_loop m register_fn text_base (pc # pcs) (winner, agree, 0, silent) =
      accessor_loop m register_fn text_base pcs
        (if ?acc = 0 then (winner, agree, 0, silent + 1)
         else if winner = 0 then (?acc, 1, 0, silent)
         else if ?acc = winner then (winner, agree + 1, 0, silent)
         else (winner, agree, 1, silent))"
      using True by (simp add: site_accessor_def)
    consider "?acc = 0" | "?acc \<noteq> 0" "winner = 0" | "?acc \<noteq> 0" "winner \<noteq> 0" "?acc = winner"
      | "?acc \<noteq> 0" "winner \<noteq> 0" "?acc \<noteq> winner" by blast
    then show ?thesis
    proof cases
      case 1
      then show ?thesis using Cons.IH[of winner agree "silent + 1"] Cons.prems True step by simp
    next
      case 2
      then show ?thesis using Cons.IH[of ?acc 1 silent] Cons.prems True step by auto
    next
      case 3
      then show ?thesis using Cons.IH[of winner "agree + 1" silent] Cons.prems True step by auto
    next
      case 4
      then have "accessor_loop m register_fn text_base pcs (winner, agree, 1, silent) = (w, a, 0, s)"
        using Cons.prems step by simp
      then show ?thesis using accessor_loop_disagree[of m register_fn text_base pcs winner agree 1 silent] by auto
    qed
  qed
qed auto

text \<open>The registry's accessor is believed only when at least four registrations of the client call it just
  before, and none calls anything else; it lies in the code that was searched.\<close>

theorem accessor_is_unanimous:
  assumes "find_accessor m register_fn text_base text_size = accessor" "accessor \<noteq> 0"
  defines "sites \<equiv> filter (\<lambda>pc. ui_bl_target (load32 m pc) pc = Some register_fn)
    (scan_pcs 4 text_base (text_base + text_size))"
  shows "text_base \<le> accessor \<and> accessor < text_base + text_size \<and>
    list_all (\<lambda>pc. site_accessor m text_base pc \<in> {0, accessor}) sites \<and>
    4 \<le> length (filter (\<lambda>pc. site_accessor m text_base pc = accessor) sites)"
proof -
  obtain w a d s where l: "accessor_loop m register_fn text_base (scan_pcs 4 text_base (text_base + text_size)) (0, 0, 0, 0)
      = (w, a, d, s)" by (metis prod_cases4)
  then have w: "d = 0" "MIN_SITES \<le> a" "w = accessor" "text_base \<le> w" "w < text_base + text_size"
    using assms(1,2) by (auto simp: find_accessor_def Let_def not_less not_le split: if_splits)
  note v = accessor_loop_votes[OF l[unfolded w(1)], folded sites_def, simplified]
  have "filter (\<lambda>pc. site_accessor m text_base pc \<noteq> 0) sites = filter (\<lambda>pc. site_accessor m text_base pc = accessor) sites"
    using v assms(2) w(3) by (intro filter_cong) auto
  then show ?thesis using v w by (auto simp: list_all_iff MIN_SITES_def)
qed

text \<open>Four registrations, each after a call of the accessor.\<close>

definition sample_code :: mem where
  "sample_code = word_mem [(0x1000, 0x94000010), (0x1004, 0x94000010), (0x1008, 0x9400000E), (0x100C, 0x9400000E),
     (0x1010, 0x9400000C), (0x1014, 0x9400000C), (0x1018, 0x9400000A), (0x101C, 0x9400000A)]"

lemma sample_accessor: "find_accessor sample_code 0x1044 0x1000 0x50 = 0x1040"
proof -
  have w: "load32 sample_code p = (case map_of [(0x1000, 0x94000010), (0x1004, 0x94000010), (0x1008, 0x9400000E),
      (0x100C, 0x9400000E), (0x1010, 0x9400000C), (0x1014, 0x9400000C), (0x1018, 0x9400000A), (0x101C, 0x9400000A)] p
      of None \<Rightarrow> 0 | Some w \<Rightarrow> w)" if "take_bit 2 p = 0" for p
    using that by (simp add: sample_code_def load32_word_mem)
  have pcs: "scan_pcs 4 0x1000 0x1050 = [0x1000, 0x1004, 0x1008, 0x100C, 0x1010, 0x1014, 0x1018, 0x101C, 0x1020, 0x1024,
      0x1028, 0x102C, 0x1030, 0x1034, 0x1038, 0x103C, 0x1040, 0x1044, 0x1048, 0x104C]"
    by (simp add: scan_pcs_def upt_rec)
  have twelve: "[1..<Suc ACCESSOR_LOOKBACK] = [1, 2, 3, 4, 5, 6, 7, 8, 9, 10, 11, 12]"
    by (simp add: ACCESSOR_LOOKBACK_def upt_rec)
  have none: "ui_bl_target 0 p = None" for p by (simp add: ui_bl_target_def)
  have some: "ui_bl_target 0x94000010 0x1000 = Some 0x1040" "ui_bl_target 0x94000010 0x1004 = Some 0x1044"
    "ui_bl_target 0x9400000E 0x1008 = Some 0x1040" "ui_bl_target 0x9400000E 0x100C = Some 0x1044"
    "ui_bl_target 0x9400000C 0x1010 = Some 0x1040" "ui_bl_target 0x9400000C 0x1014 = Some 0x1044"
    "ui_bl_target 0x9400000A 0x1018 = Some 0x1040" "ui_bl_target 0x9400000A 0x101C = Some 0x1044"
    by (simp_all add: ui_bl_target_def sign_extend_def)
  have ws: "load32 sample_code 0x1000 = 0x94000010"
    "load32 sample_code 0x1004 = 0x94000010"
    "load32 sample_code 0x1008 = 0x9400000e"
    "load32 sample_code 0x100C = 0x9400000e"
    "load32 sample_code 0x1010 = 0x9400000c"
    "load32 sample_code 0x1014 = 0x9400000c"
    "load32 sample_code 0x1018 = 0x9400000a"
    "load32 sample_code 0x101C = 0x9400000a"
    "load32 sample_code 0x1020 = 0x0"
    "load32 sample_code 0x1024 = 0x0"
    "load32 sample_code 0x1028 = 0x0"
    "load32 sample_code 0x102C = 0x0"
    "load32 sample_code 0x1030 = 0x0"
    "load32 sample_code 0x1034 = 0x0"
    "load32 sample_code 0x1038 = 0x0"
    "load32 sample_code 0x103C = 0x0"
    "load32 sample_code 0x1040 = 0x0"
    "load32 sample_code 0x1044 = 0x0"
    "load32 sample_code 0x1048 = 0x0"
    "load32 sample_code 0x104C = 0x0"
    by (simp_all add: w)
  have acc: "accessor_before sample_code 0x1000 0x1004 [1..<Suc ACCESSOR_LOOKBACK] = 0x1040"
    "accessor_before sample_code 0x1000 0x100C [1..<Suc ACCESSOR_LOOKBACK] = 0x1040"
    "accessor_before sample_code 0x1000 0x1014 [1..<Suc ACCESSOR_LOOKBACK] = 0x1040"
    "accessor_before sample_code 0x1000 0x101C [1..<Suc ACCESSOR_LOOKBACK] = 0x1040"
    unfolding twelve by (simp_all add: ws some)
  have "accessor_loop sample_code 0x1044 0x1000 (scan_pcs 4 0x1000 0x1050) (0, 0, 0, 0) = (0x1040, 4, 0, 0)"
    unfolding pcs by (simp add: ws none some acc[unfolded One_nat_def] del: accessor_before.simps upt_Suc)
  then show ?thesis by (simp add: find_accessor_def MIN_SITES_def)
qed

theorem accessor_is_unanimous_witness:
  "list_all (\<lambda>pc. site_accessor sample_code 0x1000 pc \<in> {0, 0x1040})
     (filter (\<lambda>pc. ui_bl_target (load32 sample_code pc) pc = Some 0x1044) (scan_pcs 4 0x1000 0x1050))"
  using accessor_is_unanimous[OF sample_accessor] by simp

end
