(* ===== verification/Defaults.thy ===== *)
theory Defaults
  imports Compat_Tools Writer
begin

text \<open>
  The default compatibility settings, \<^verbatim>\<open>src/dylib/feats/defaults.c\<close>: which settings and values there are,
  the texts that are taken, and the files they are kept in, one for each kind of runner and one more for
  each version that has its own.
\<close>

section \<open>The settings\<close>

definition NP_DEFAULTS_ROSETTA :: u32 where "NP_DEFAULTS_ROSETTA = 0"
definition NP_DEFAULTS_FEX :: u32 where "NP_DEFAULTS_FEX = 1"
definition NP_DEFAULTS_TEXT_MAX :: nat where "NP_DEFAULTS_TEXT_MAX = 1024"

definition ROSETTA :: u32 where "ROSETTA = push_bit (unat NP_DEFAULTS_ROSETTA) 1"
definition FEX :: u32 where "FEX = push_bit (unat NP_DEFAULTS_FEX) 1"

definition g_bools :: "cstring list" where "g_bools = map cstr [''0'', ''1'']"
definition g_backends :: "cstring list" where "g_backends = map cstr [''dxmt'', ''dxvk'', ''wined3d'']"
definition g_d3dmetal :: "cstring list" where "g_d3dmetal = map cstr [''d3dmetal'']"
definition g_factors :: "cstring list" where "g_factors = map cstr [''1.5'', ''1.72'', ''2.0'', ''3.0'']"
definition g_fps :: "cstring list" where "g_fps = map cstr [''30'', ''40'', ''60'', ''120'', ''144'']"

definition FACTOR_PREFIX :: cstring where "FACTOR_PREFIX = cstr ''d3d11.metalSpatialUpscaleFactor=''"
definition FPS_PREFIX :: cstring where "FPS_PREFIX = cstr ''d3d11.preferredMaxFrameRate=''"

record setting =
  se_key :: cstring
  se_runners :: u32
  se_prefix :: cstring
  se_values :: "cstring list"
  se_rosetta_values :: "cstring list"

definition mk_setting :: "string \<Rightarrow> u32 \<Rightarrow> cstring \<Rightarrow> cstring list \<Rightarrow> cstring list \<Rightarrow> setting" where
  "mk_setting key runners pre vals ros = \<lparr>se_key = cstr key, se_runners = runners, se_prefix = pre, se_values = vals,
     se_rosetta_values = ros\<rparr>"

definition g_settings :: "setting list" where
  "g_settings =
     [mk_setting ''CX_GRAPHICS_BACKEND'' (ROSETTA OR FEX) [] g_backends g_d3dmetal,
      mk_setting ''MTL_HUD_ENABLED'' (ROSETTA OR FEX) [] g_bools [],
      mk_setting ''D3DM_ENABLE_METALFX'' ROSETTA [] g_bools [],
      mk_setting ''DXMT_ENABLE_NVEXT'' (ROSETTA OR FEX) [] g_bools [],
      mk_setting ''ROSETTA_ADVERTISE_AVX'' ROSETTA [] g_bools [],
      mk_setting ''WINEMSYNC'' (ROSETTA OR FEX) [] g_bools [],
      mk_setting ''NOTPROTON_RETINA'' (ROSETTA OR FEX) [] g_bools [],
      mk_setting ''DXMT_METALFX_SPATIAL_SWAPCHAIN'' (ROSETTA OR FEX) [] g_bools [],
      mk_setting ''DXMT_CONFIG'' (ROSETTA OR FEX) FACTOR_PREFIX g_factors [],
      mk_setting ''NOTPROTON_RAW_CONTROLLERS'' (ROSETTA OR FEX) [] g_bools [],
      mk_setting ''NOTPROTON_DISABLE_HIDRAW'' (ROSETTA OR FEX) [] g_bools [],
      mk_setting ''FEX_X87REDUCEDPRECISION'' FEX [] g_bools []]"

definition runner_name :: "u32 \<Rightarrow> cstring" where
  "runner_name runner = (if runner = NP_DEFAULTS_ROSETTA then cstr ''rosetta'' else cstr ''fex'')"

text \<open>The clauses of \<^verbatim>\<open>DXMT_CONFIG\<close>, between semicolons: a scale factor, a frame rate, or both.\<close>

function dxmt_loop :: "cstring \<Rightarrow> bool \<Rightarrow> bool \<Rightarrow> bool" where
  "dxmt_loop v seen_factor seen_fps =
     (if v = [] then seen_factor \<or> seen_fps
      else
        let clause = takeWhile (\<lambda>c. c \<noteq> 59) v;
            rest = drop (length clause + 1) v
        in if clause = [] then False
           else if length clause > length FACTOR_PREFIX \<and> has_prefix FACTOR_PREFIX clause then
             if seen_factor \<or> drop (length FACTOR_PREFIX) clause \<notin> set g_factors then False
             else dxmt_loop rest True seen_fps
           else if length clause > length FPS_PREFIX \<and> has_prefix FPS_PREFIX clause then
             if seen_fps \<or> drop (length FPS_PREFIX) clause \<notin> set g_fps then False
             else dxmt_loop rest seen_factor True
           else False)"
  by pat_completeness auto
termination
  by (relation "measure (\<lambda>(v, _). length v)") auto

declare dxmt_loop.simps [simp del]

definition valid_dxmt_config :: "cstring \<Rightarrow> bool" where
  "valid_dxmt_config v = (if v = [] \<or> hd v = 59 \<or> last v = 59 then False else dxmt_loop v False False)"

definition valid_value :: "setting \<Rightarrow> u32 \<Rightarrow> cstring \<Rightarrow> bool" where
  "valid_value s runner v =
     (if se_key s = cstr ''DXMT_CONFIG'' then valid_dxmt_config v
      else let pre = length (se_prefix s) in
        if length v \<le> pre \<or> \<not> has_prefix (se_prefix s) v then False
        else drop pre v \<in> set (se_values s) \<or>
          runner = NP_DEFAULTS_ROSETTA \<and> drop pre v \<in> set (se_rosetta_values s))"

definition setting_index :: "u32 \<Rightarrow> cstring \<Rightarrow> nat option" where
  "setting_index runner key =
     (if runner > NP_DEFAULTS_FEX then None
      else find (\<lambda>i. key = se_key (g_settings ! i) \<and> se_runners (g_settings ! i) AND push_bit (unat runner) 1 \<noteq> 0)
        [0..<length g_settings])"

section \<open>Texts\<close>

text \<open>The lines of a text that are taken, in order, and how many are not; empty lines are passed over. \<open>seen\<close>
  are the settings taken already.\<close>

definition line_setting :: "u32 \<Rightarrow> nat list \<Rightarrow> cstring \<Rightarrow> (nat \<times> cstring \<times> cstring) option" where
  "line_setting runner seen line = (case str_split 61 line of
     None \<Rightarrow> None
   | Some (key, v) \<Rightarrow> (case setting_index runner key of
       None \<Rightarrow> None
     | Some i \<Rightarrow>
         if i \<in> set seen \<or> \<not> valid_value (g_settings ! i) runner v then None else Some (i, key, v)))"

fun each_line_loop :: "u32 \<Rightarrow> cstring list \<Rightarrow> nat list \<Rightarrow> nat \<times> (cstring \<times> cstring) list" where
  "each_line_loop runner [] seen = (0, [])"
| "each_line_loop runner (line # lines) seen =
     (if line = [] then each_line_loop runner lines seen
      else case line_setting runner seen line of
          None \<Rightarrow> (case each_line_loop runner lines seen of (bad, kvs) \<Rightarrow> (bad + 1, kvs))
        | Some (i, kv) \<Rightarrow> (case each_line_loop runner lines (i # seen) of (bad, kvs) \<Rightarrow> (bad, kv # kvs)))"

definition each_line :: "u32 \<Rightarrow> cstring \<Rightarrow> nat \<times> (cstring \<times> cstring) list" where
  "each_line runner s = each_line_loop runner (str_fields 10 s) []"

record np_text =
  tx_buf :: cstring
  tx_size :: nat
  tx_ok :: bool

definition put :: "cstring \<Rightarrow> np_text \<Rightarrow> np_text" where
  "put s t = (if \<not> tx_ok t \<or> length (tx_buf t) + length s \<ge> tx_size t then t\<lparr>tx_ok := False\<rparr>
     else t\<lparr>tx_buf := tx_buf t @ s\<rparr>)"

fun put_line :: "cstring \<times> cstring \<Rightarrow> np_text \<Rightarrow> np_text" where
  "put_line (key, v) t = put [10] (put v (put [61] (put key t)))"

definition checked_body :: "u32 \<Rightarrow> cstring option \<Rightarrow> nat \<Rightarrow> cstring option" where
  "checked_body runner src sz = (case src of
     None \<Rightarrow> None
   | Some s \<Rightarrow>
       if length s > NP_DEFAULTS_TEXT_MAX then None
       else case each_line runner s of (bad, kvs) \<Rightarrow>
         if bad \<noteq> 0 then None
         else let t = fold put_line kvs \<lparr>tx_buf = [], tx_size = sz, tx_ok = True\<rparr> in
           if tx_ok t then Some (tx_buf t) else None)"

section \<open>Files\<close>

definition OVERRIDE_PREFIX :: cstring where "OVERRIDE_PREFIX = cstr ''defaults-override-''"

definition defaults_path :: "cstring option \<Rightarrow> u32 \<Rightarrow> nat \<Rightarrow> cstring" where
  "defaults_path home runner sz =
     np_support_path sz (case home of None \<Rightarrow> [] | Some h \<Rightarrow> h)
       (c_copy 32 (cstr ''defaults-'' @ runner_name runner))"

definition build_path :: "cstring option \<Rightarrow> cstring \<Rightarrow> u32 \<Rightarrow> nat \<Rightarrow> cstring" where
  "build_path home build runner sz =
     np_support_path sz (case home of None \<Rightarrow> [] | Some h \<Rightarrow> h)
       (c_copy (NP_BUILD_ID_MAX + 32) (OVERRIDE_PREFIX @ build @ cstr ''-'' @ runner_name runner))"

text \<open>What is in the way is removed, a directory too if it is empty.\<close>

definition clear_path :: "disk \<Rightarrow> cstring \<Rightarrow> fs \<Rightarrow> fs" where
  "clear_path dk path fs = (case sys_unlink dk path fs of
     (Unlink_refused, fs) \<Rightarrow> sys_rmdir dk path fs | (_, fs) \<Rightarrow> fs)"

text \<open>The text goes to a file beside, which takes the place of the other when it is whole.\<close>

definition write_locked :: "disk \<Rightarrow> cstring \<Rightarrow> cstring \<Rightarrow> fs \<Rightarrow> bool \<times> fs" where
  "write_locked dk path body fs =
     (let tmp = c_copy PATH_MAX (path @ cstr ''.new'');
          fs = clear_path dk tmp fs
      in if map_of fs tmp \<noteq> None \<or> \<not> dk_create dk tmp then (False, fs)
         else
           let fs = AList.update tmp (File (take (dk_written dk tmp) body)) fs
           in if length body \<le> dk_written dk tmp \<and> dk_sync dk tmp \<and> dk_close dk tmp \<and>
                 dk_rename dk path \<and> map_of fs path \<noteq> Some Dir
              then (True, AList.update path (File body) (AList.delete tmp fs))
              else (False, snd (sys_unlink dk tmp fs)))"

definition remove_locked :: "disk \<Rightarrow> cstring \<Rightarrow> fs \<Rightarrow> bool \<times> fs" where
  "remove_locked dk path fs = (case sys_unlink dk path fs of
     (Unlink_refused, fs) \<Rightarrow> (False, fs) | (_, fs) \<Rightarrow> (True, fs))"

definition save_file :: "disk \<Rightarrow> cstring \<Rightarrow> u32 \<Rightarrow> cstring option \<Rightarrow> fs \<Rightarrow> bool \<times> fs" where
  "save_file dk path runner src fs = (case checked_body runner src (NP_DEFAULTS_TEXT_MAX + 1) of
     None \<Rightarrow> (False, fs) | Some body \<Rightarrow> write_locked dk path body fs)"

definition np_defaults_save :: "disk \<Rightarrow> cstring option \<Rightarrow> u32 \<Rightarrow> cstring option \<Rightarrow> fs \<Rightarrow> bool \<times> fs" where
  "np_defaults_save dk home runner src fs =
     (if runner > NP_DEFAULTS_FEX then (False, fs)
      else save_file dk (defaults_path home runner PATH_MAX) runner src fs)"

definition np_defaults_save_build ::
  "disk \<Rightarrow> cstring option \<Rightarrow> cstring \<Rightarrow> u32 \<Rightarrow> cstring option \<Rightarrow> fs \<Rightarrow> bool \<times> fs" where
  "np_defaults_save_build dk home build runner src fs =
     (if runner > NP_DEFAULTS_FEX then (False, fs)
      else if \<not> np_is_build_id build then (False, fs)
      else save_file dk (build_path home build runner PATH_MAX) runner src fs)"

text \<open>A file that is not there or empty gives no lines; one that cannot be read, or is too long, is refused.\<close>

definition read_lines :: "disk \<Rightarrow> cstring \<Rightarrow> u32 \<Rightarrow> fs \<Rightarrow> np_text \<Rightarrow> bool \<times> np_text" where
  "read_lines dk path runner fs t = (case np_read_whole_file dk path fs of
     None \<Rightarrow> (case map_of fs path of
         None \<Rightarrow> (True, t)
       | Some (File content) \<Rightarrow> (content = [], t)
       | Some Dir \<Rightarrow> (False, t))
   | Some content \<Rightarrow>
       let ok = length content \<le> NP_DEFAULTS_TEXT_MAX;
           t = (if ok then fold put_line (snd (each_line runner content)) t else t)
       in (ok \<and> tx_ok t, t))"

definition override_build :: "u32 \<Rightarrow> cstring \<Rightarrow> cstring option" where
  "override_build runner name =
     (let suffix = c_copy 16 (cstr ''-'' @ runner_name runner);
          n = length name; pre = length OVERRIDE_PREFIX; suf = length suffix
      in if n \<le> pre + suf \<or> \<not> has_prefix OVERRIDE_PREFIX name \<or> drop (n - suf) name \<noteq> suffix then None
         else if n - pre - suf > NP_BUILD_ID_MAX then None
         else let build = take (n - pre - suf) (drop pre name) in
           if np_is_build_id build then Some build else None)"

text \<open>\<open>entries\<close> is what the folder holds; \<open>mem_ok\<close> whether there is memory for that many names.\<close>

fun override_builds :: "(nat \<Rightarrow> bool) \<Rightarrow> u32 \<Rightarrow> cstring list \<Rightarrow> nat \<Rightarrow> cstring list \<Rightarrow> cstring list option" where
  "override_builds mem_ok runner [] cap builds = Some builds"
| "override_builds mem_ok runner (name # names) cap builds = (case override_build runner name of
     None \<Rightarrow> override_builds mem_ok runner names cap builds
   | Some build \<Rightarrow>
       let full = length builds = cap; cap' = (if cap \<noteq> 0 then 2 * cap else 16)
       in if full \<and> \<not> mem_ok cap' then None
          else override_builds mem_ok runner names (if full then cap' else cap) (builds @ [build]))"

fun remove_builds :: "disk \<Rightarrow> cstring option \<Rightarrow> u32 \<Rightarrow> cstring list \<Rightarrow> bool \<times> fs \<Rightarrow> bool \<times> fs" where
  "remove_builds dk home runner [] s = s"
| "remove_builds dk home runner (build # builds) (ok, fs) =
     (let path = build_path home build runner PATH_MAX in
      if is_regular fs path
      then case remove_locked dk path fs of (r, fs) \<Rightarrow> remove_builds dk home runner builds (ok \<and> r, fs)
      else remove_builds dk home runner builds (ok, fs))"

definition remove_overrides_locked ::
  "disk \<Rightarrow> (nat \<Rightarrow> bool) \<Rightarrow> cstring option \<Rightarrow> cstring list \<Rightarrow> u32 \<Rightarrow> fs \<Rightarrow> bool \<times> fs" where
  "remove_overrides_locked dk mem_ok home entries runner fs = (case override_builds mem_ok runner entries 0 [] of
     None \<Rightarrow> (False, fs) | Some builds \<Rightarrow> remove_builds dk home runner builds (True, fs))"

text \<open>\<open>list_dir\<close> is what a folder holds when it can be opened.\<close>

definition open_folder_of :: "(cstring \<Rightarrow> cstring list option) \<Rightarrow> cstring \<Rightarrow> cstring list option" where
  "open_folder_of list_dir family = (case str_rsplit 47 (c_copy PATH_MAX family) of
     None \<Rightarrow> None | Some (dir, _) \<Rightarrow> list_dir dir)"

definition np_defaults_apply_build ::
  "disk \<Rightarrow> (nat \<Rightarrow> bool) \<Rightarrow> cstring option \<Rightarrow> (cstring \<Rightarrow> cstring list option) \<Rightarrow> cstring \<Rightarrow> u32 \<Rightarrow> fs \<Rightarrow> int \<times> fs" where
  "np_defaults_apply_build dk mem_ok home list_dir build runner fs =
     (if runner > NP_DEFAULTS_FEX \<or> \<not> np_is_build_id build then (0, fs)
      else
        let own = build_path home build runner PATH_MAX; family = defaults_path home runner PATH_MAX;
            t = \<lparr>tx_buf = [], tx_size = NP_DEFAULTS_TEXT_MAX + 1, tx_ok = True\<rparr>
        in case open_folder_of list_dir family of
             None \<Rightarrow> (0, fs)
           | Some entries \<Rightarrow>
        (case read_lines dk (if is_regular fs own then own else family) runner fs t of (ok, t) \<Rightarrow>
           if \<not> ok then (0, fs)
           else case write_locked dk family (tx_buf t) fs of (ok, fs) \<Rightarrow>
             if \<not> ok then (0, fs)
             else case remove_overrides_locked dk mem_ok home entries runner fs of
               (ok, fs) \<Rightarrow> (if ok then 1 else - 1, fs)))"

definition np_defaults_read :: "disk \<Rightarrow> cstring option \<Rightarrow> u32 \<Rightarrow> nat \<Rightarrow> fs \<Rightarrow> bool \<times> cstring" where
  "np_defaults_read dk home runner sz fs =
     (if sz = 0 \<or> runner > NP_DEFAULTS_FEX then (False, [])
      else case read_lines dk (defaults_path home runner PATH_MAX) runner fs
          \<lparr>tx_buf = [], tx_size = sz, tx_ok = True\<rparr> of
        (ok, t) \<Rightarrow> if ok then (True, tx_buf t) else (False, []))"

definition np_defaults_read_build ::
  "disk \<Rightarrow> cstring option \<Rightarrow> cstring \<Rightarrow> u32 \<Rightarrow> nat \<Rightarrow> fs \<Rightarrow> int \<times> cstring" where
  "np_defaults_read_build dk home build runner sz fs =
     (if sz = 0 \<or> runner > NP_DEFAULTS_FEX \<or> \<not> np_is_build_id build then (- 1, [])
      else
        let path = build_path home build runner PATH_MAX
        in if \<not> is_regular fs path then (0, [])
           else case read_lines dk path runner fs \<lparr>tx_buf = [], tx_size = sz, tx_ok = True\<rparr> of
             (ok, t) \<Rightarrow> if ok then (1, tx_buf t) else (- 1, []))"

section \<open>Lemmas\<close>

interpretation dt: bounded_writer tx_buf tx_size tx_ok "Suc 0" put "\<lambda>s. s"
  by unfold_locales (auto simp: put_def)

definition kv_text :: "cstring \<times> cstring \<Rightarrow> cstring" where
  "kv_text kv = fst kv @ 61 # snd kv"

definition kvs_text :: "(cstring \<times> cstring) list \<Rightarrow> cstring" where
  "kvs_text kvs = concat (map (\<lambda>kv. kv_text kv @ [10]) kvs)"

lemma writes_line: "dt.writes k (put_line kv) (kv_text kv @ [10])"
proof (cases kv)
  case (Pair key v)
  have "dt.writes k (\<lambda>t. put [10] (put v (put [61] (put key t)))) (((key @ [61]) @ v) @ [10])"
    by (rule dt.writes_comp[OF dt.writes_comp[OF dt.writes_comp[OF dt.writes_put dt.writes_put[of 0]]
          dt.writes_put[of 0]] dt.writes_put[of 0]]) simp_all
  moreover have "put_line kv = (\<lambda>t. put [10] (put v (put [61] (put key t))))" by (simp add: Pair fun_eq_iff)
  ultimately show ?thesis by (simp add: Pair kv_text_def)
qed

lemma writes_lines: "dt.writes k (fold put_line kvs) (kvs_text kvs)"
proof (induction kvs arbitrary: k)
  case Nil
  then show ?case using dt.writes_id by (simp add: kvs_text_def id_def)
next
  case (Cons kv kvs)
  have "dt.writes k (\<lambda>t. fold put_line kvs (put_line kv t)) ((kv_text kv @ [10]) @ kvs_text kvs)"
    by (rule dt.writes_comp[OF writes_line Cons[of 0]]) simp
  then show ?case by (simp add: kvs_text_def comp_def)
qed

text \<open>Lines that are taken: each a setting of the runner that was not taken before, with a value of its.\<close>

fun kvs_ok :: "u32 \<Rightarrow> (cstring \<times> cstring) list \<Rightarrow> nat list \<Rightarrow> bool" where
  "kvs_ok runner [] seen = True"
| "kvs_ok runner ((key, v) # kvs) seen = (case setting_index runner key of
     None \<Rightarrow> False
   | Some i \<Rightarrow> i \<notin> set seen \<and> valid_value (g_settings ! i) runner v \<and> 61 \<notin> set key \<and> 10 \<notin> set (key @ v) \<and>
       kvs_ok runner kvs (i # seen))"

lemma line_setting_some:
  "line_setting runner seen line = Some (i, key, v) \<longleftrightarrow> str_split 61 line = Some (key, v) \<and>
     setting_index runner key = Some i \<and> i \<notin> set seen \<and> valid_value (g_settings ! i) runner v"
  by (auto simp: line_setting_def split: option.splits)

lemma each_line_taken:
  assumes "each_line_loop runner lines seen = (bad, kvs)" "\<forall>l \<in> set lines. 10 \<notin> set l"
  shows "kvs_ok runner kvs seen"
  using assms
proof (induction lines arbitrary: seen bad kvs)
  case (Cons line lines)
  show ?case
  proof (cases "line = [] \<or> line_setting runner seen line = None")
    case True
    then show ?thesis using Cons by (auto split: prod.splits if_splits)
  next
    case False
    then obtain i key v where l: "line_setting runner seen line = Some (i, key, v)" by auto
    obtain b k where r: "each_line_loop runner lines (i # seen) = (b, k)" by fastforce
    have "10 \<notin> set (key @ v)" "61 \<notin> set key"
      using l str_split_some[of 61 line key v] Cons.prems(2) by (auto simp: line_setting_some)
    moreover have "kvs = (key, v) # k" "kvs_ok runner k (i # seen)"
      using l False r Cons.prems Cons.IH[OF r] by auto
    ultimately show ?thesis using l by (simp add: line_setting_some)
  qed
qed simp

lemma str_fields_chars: "l \<in> set (str_fields sep s) \<Longrightarrow> sep \<notin> set l"
  by (induction s arbitrary: l rule: str_fields.induct) (auto split: list.splits if_splits)

lemma each_line_ok: "each_line runner s = (bad, kvs) \<Longrightarrow> kvs_ok runner kvs []"
  unfolding each_line_def by (erule each_line_taken) (blast dest: str_fields_chars)

lemma str_fields_kvs: "kvs_ok runner kvs seen \<Longrightarrow> str_fields 10 (kvs_text kvs) = map kv_text kvs @ [[]]"
proof (induction kvs arbitrary: seen)
  case (Cons kv kvs)
  obtain key v where kv: "kv = (key, v)" by (cases kv)
  from Cons.prems obtain i where "10 \<notin> set (kv_text kv)" "kvs_ok runner kvs (i # seen)"
    by (auto simp: kv kv_text_def split: option.splits)
  then show ?case using Cons.IH str_fields_split[of 10 "kv_text kv" "kvs_text kvs"]
    by (simp add: kvs_text_def)
qed (simp add: kvs_text_def)

lemma each_line_loop_kvs: "kvs_ok runner kvs seen \<Longrightarrow> each_line_loop runner (map kv_text kvs @ [[]]) seen = (0, kvs)"
proof (induction kvs arbitrary: seen)
  case (Cons kv kvs)
  obtain key v where kv: "kv = (key, v)" by (cases kv)
  from Cons.prems obtain i where i: "setting_index runner key = Some i" "i \<notin> set seen"
    "valid_value (g_settings ! i) runner v" "61 \<notin> set key" "kvs_ok runner kvs (i # seen)"
    by (auto simp: kv split: option.splits)
  then have "line_setting runner seen (kv_text kv) = Some (i, key, v)"
    by (simp add: line_setting_some kv kv_text_def str_split_append)
  then show ?case using Cons.IH[OF i(5)] by (simp add: kv kv_text_def)
qed simp

lemma each_line_kvs: "kvs_ok runner kvs [] \<Longrightarrow> each_line runner (kvs_text kvs) = (0, kvs)"
  by (simp add: each_line_def str_fields_kvs each_line_loop_kvs)

lemma put_lines:
  assumes "tx_ok (fold put_line kvs \<lparr>tx_buf = [], tx_size = sz, tx_ok = True\<rparr>)" "0 < sz"
  shows "tx_buf (fold put_line kvs \<lparr>tx_buf = [], tx_size = sz, tx_ok = True\<rparr>) = kvs_text kvs"
    "length (kvs_text kvs) < sz"
  using dt.writes_result[OF writes_lines[of 0 kvs], of "\<lparr>tx_buf = [], tx_size = sz, tx_ok = True\<rparr>"] assms
  by simp_all

lemma put_lines_fit:
  assumes "length (kvs_text kvs) < sz"
  shows "fold put_line kvs \<lparr>tx_buf = [], tx_size = sz, tx_ok = True\<rparr> =
    \<lparr>tx_buf = kvs_text kvs, tx_size = sz, tx_ok = True\<rparr>"
proof -
  have "dt.writes 0 (fold put_line kvs) (kvs_text kvs)" by (rule writes_lines)
  note r = dt.writesD[OF this, of "\<lparr>tx_buf = [], tx_size = sz, tx_ok = True\<rparr>"]
  show ?thesis using r assms by (intro np_text.equality) (simp_all add: dt.room_def)
qed

lemma checked_body_some:
  assumes "checked_body runner src sz = Some body" "0 < sz"
  obtains s kvs where "src = Some s" "each_line runner s = (0, kvs)" "kvs_ok runner kvs []" "body = kvs_text kvs"
    "length body < sz"
proof -
  from assms(1) obtain s where s: "src = Some s" by (auto simp: checked_body_def split: option.splits)
  obtain bad kvs where l: "each_line runner s = (bad, kvs)" by fastforce
  let ?t = "fold put_line kvs \<lparr>tx_buf = [], tx_size = sz, tx_ok = True\<rparr>"
  have "bad = 0" "tx_ok ?t" "body = tx_buf ?t"
    using assms(1) s l by (auto simp: checked_body_def Let_def split: if_splits)
  then show ?thesis using that[of s kvs] s l each_line_ok[OF l] put_lines[of kvs sz] assms(2) by simp
qed

lemma write_locked_ok:
  assumes "write_locked dk path body fs = (True, fs')"
  shows "map_of fs' path = Some (File body)"
  using assms by (auto simp: write_locked_def Let_def update_conv split: if_splits)

lemma clear_path_other: "p \<noteq> q \<Longrightarrow> map_of (clear_path dk p fs) q = map_of fs q"
  using sys_unlink_other[of p q dk fs] sys_rmdir_other[of p q dk]
  by (auto simp: clear_path_def split: prod.split unlink_result.split)

lemma write_locked_cases:
  defines "tmp path \<equiv> c_copy PATH_MAX (path @ cstr ''.new'')"
  assumes w: "write_locked dk path body fs = (ok, fs')" and q: "q \<noteq> tmp path"
  shows "map_of fs' q = (if ok \<and> q = path then Some (File body) else map_of fs q)"
proof -
  let ?tmp = "tmp path"
  let ?fs1 = "clear_path dk ?tmp fs"
  let ?fs2 = "AList.update ?tmp (File (take (dk_written dk ?tmp) body)) ?fs1"
  have other: "map_of ?fs1 q = map_of fs q" using q by (simp add: clear_path_other)
  then have "map_of ?fs2 q = map_of fs q" "map_of (AList.delete ?tmp ?fs2) q = map_of fs q"
    "map_of (snd (sys_unlink dk ?tmp ?fs2)) q = map_of fs q"
    using q by (simp_all add: sys_unlink_other update_conv AList.delete_conv)
  moreover have "write_locked dk path body fs =
     (if map_of ?fs1 ?tmp \<noteq> None \<or> \<not> dk_create dk ?tmp then (False, ?fs1)
      else if length body \<le> dk_written dk ?tmp \<and> dk_sync dk ?tmp \<and> dk_close dk ?tmp \<and>
           dk_rename dk path \<and> map_of ?fs2 path \<noteq> Some Dir
        then (True, AList.update path (File body) (AList.delete ?tmp ?fs2))
        else (False, snd (sys_unlink dk ?tmp ?fs2)))"
    unfolding write_locked_def tmp_def Let_def ..
  ultimately show ?thesis using w other by (auto simp: update_conv split: if_splits)
qed

section \<open>Samples\<close>

definition sample_disk :: disk where
  "sample_disk = \<lparr>dk_open = \<lambda>_. True, dk_create = \<lambda>_. True, dk_unlink = \<lambda>_. True, dk_rmdir = \<lambda>_. True,
     dk_rename = \<lambda>_. True, dk_sync = \<lambda>_. True, dk_close = \<lambda>_. True, dk_written = \<lambda>_. 4096\<rparr>"

definition sample_home :: "cstring option" where "sample_home = Some (cstr ''/h'')"

definition fex_file :: cstring where
  "fex_file = cstr ''/h/Library/Application Support/notproton/defaults-fex''"

definition own_file :: cstring where
  "own_file = cstr ''/h/Library/Application Support/notproton/defaults-override-26.0-fex''"

definition plain_text :: cstring where "plain_text = cstr ''WINEMSYNC=1'' @ [10]"

definition mixed_text :: cstring where "mixed_text = cstr ''X=2'' @ [10] @ cstr ''WINEMSYNC=1''"

lemma sample_paths_fex:
  "defaults_path sample_home 1 PATH_MAX = fex_file" "build_path sample_home (cstr ''26.0'') 1 PATH_MAX = own_file"
  by code_simp+

lemma sample_save:
  "np_defaults_save sample_disk sample_home 1 (Some (cstr ''WINEMSYNC=1'')) [] = (True, [(fex_file, File (plain_text))])"
  by code_simp

lemma sample_lines:
  "each_line 1 mixed_text = (1, [(cstr ''WINEMSYNC'', cstr ''1'')])"
  "each_line 1 plain_text = (0, [(cstr ''WINEMSYNC'', cstr ''1'')])"
  "length mixed_text = 15" "length plain_text = 12" "mixed_text \<noteq> []" "plain_text \<noteq> []"
  "put_line (cstr ''WINEMSYNC'', cstr ''1'') \<lparr>tx_buf = [], tx_size = 1025, tx_ok = True\<rparr> =
     \<lparr>tx_buf = plain_text, tx_size = 1025, tx_ok = True\<rparr>"
  "dk_open sample_disk p" "dk_unlink sample_disk p"
  by code_simp+

lemma sample_whole:
  "read_lines sample_disk p 1 [(p, File mixed_text)] \<lparr>tx_buf = [], tx_size = 1025, tx_ok = True\<rparr> =
     (True, \<lparr>tx_buf = plain_text, tx_size = 1025, tx_ok = True\<rparr>)"
  "read_lines sample_disk p 1 [(p, File plain_text)] \<lparr>tx_buf = [], tx_size = 1025, tx_ok = True\<rparr> =
     (True, \<lparr>tx_buf = plain_text, tx_size = 1025, tx_ok = True\<rparr>)"
  unfolding read_lines_def np_read_whole_file_def np_read_file_max_def
  by (simp_all add: sample_lines NP_READ_CEILING_def NP_DEFAULTS_TEXT_MAX_def del: put_line.simps)

lemma sample_read:
  "np_defaults_read sample_disk sample_home 1 1025 [(fex_file, File (mixed_text))] =
     (True, plain_text)"
  by (simp add: np_defaults_read_def sample_paths_fex sample_whole NP_DEFAULTS_FEX_def)

lemma sample_override:
  "np_is_build_id (cstr ''26.0'')" "fex_file \<noteq> own_file"
  "open_folder_of (\<lambda>_. Some [cstr ''defaults-override-26.0-fex'']) fex_file = Some [cstr ''defaults-override-26.0-fex'']"
  "write_locked sample_disk fex_file (plain_text) [(own_file, File (plain_text))] =
    (True, [(own_file, File (plain_text)), (fex_file, File (plain_text))])"
  "override_builds (\<lambda>_. True) 1 [cstr ''defaults-override-26.0-fex''] 0 [] = Some [cstr ''26.0'']"
  "override_build 1 (cstr ''defaults-override-26.0-fex'') = Some (cstr ''26.0'')"
  by code_simp+

lemma sample_apply:
  "np_defaults_apply_build sample_disk (\<lambda>_. True) sample_home (\<lambda>_. Some [cstr ''defaults-override-26.0-fex'']) (cstr ''26.0'') 1
     [(own_file, File (plain_text))] = (1, [(fex_file, File (plain_text))])"
  using sample_override
  by (simp add: np_defaults_apply_build_def sample_paths_fex sample_whole NP_DEFAULTS_FEX_def
      NP_DEFAULTS_TEXT_MAX_def is_regular_def remove_overrides_locked_def remove_locked_def sys_unlink_def sample_lines del: put_line.simps)

section \<open>Properties\<close>

text \<open>C20. Settings that were saved are read back: exactly those of the text given, in its order, whatever was
  in the file before.\<close>

theorem saved_settings_read_back:
  assumes "np_defaults_save dk home runner (Some s) fs = (True, fs')" "\<And>p. dk_open dk p" "NP_DEFAULTS_TEXT_MAX < sz"
  shows "fst (np_defaults_read dk home runner sz fs') \<and>
    each_line runner (snd (np_defaults_read dk home runner sz fs')) = each_line runner s"
proof -
  let ?path = "defaults_path home runner PATH_MAX"
  have runner: "\<not> runner > NP_DEFAULTS_FEX" and save: "save_file dk ?path runner (Some s) fs = (True, fs')"
    using assms(1) by (auto simp: np_defaults_save_def split: if_splits)
  then obtain body where body: "checked_body runner (Some s) (NP_DEFAULTS_TEXT_MAX + 1) = Some body"
    and w: "write_locked dk ?path body fs = (True, fs')"
    by (auto simp: save_file_def split: option.splits)
  obtain kvs where kvs: "each_line runner s = (0, kvs)" "kvs_ok runner kvs []" "body = kvs_text kvs"
    "length body < NP_DEFAULTS_TEXT_MAX + 1"
    by (rule checked_body_some[OF body]) (simp_all add: NP_DEFAULTS_TEXT_MAX_def)
  have kept: "map_of fs' ?path = Some (File body)" by (rule write_locked_ok[OF w])
  have re: "each_line runner body = (0, kvs)" using each_line_kvs[OF kvs(2)] kvs(3) by simp
  have "read_lines dk ?path runner fs' \<lparr>tx_buf = [], tx_size = sz, tx_ok = True\<rparr> =
      (True, \<lparr>tx_buf = body, tx_size = sz, tx_ok = True\<rparr>)"
  proof (cases "body = []")
    case True
    then show ?thesis using kept by (simp add: read_lines_def np_read_whole_file_def np_read_file_max_def)
  next
    case False
    have "length body < sz" using kvs(4) assms(3) by simp
    then have "fold put_line kvs \<lparr>tx_buf = [], tx_size = sz, tx_ok = True\<rparr> =
        \<lparr>tx_buf = body, tx_size = sz, tx_ok = True\<rparr>"
      using put_lines_fit kvs(3) by simp
    moreover have "np_read_whole_file dk ?path fs' = Some body"
      using False kept assms(2) kvs(4)
      by (simp add: np_read_whole_file_def np_read_file_max_def NP_READ_CEILING_def NP_DEFAULTS_TEXT_MAX_def)
    ultimately show ?thesis using kvs(4) re by (simp add: read_lines_def Let_def)
  qed
  then show ?thesis using runner assms(3) re kvs(1) by (simp add: np_defaults_read_def)
qed

theorem saved_settings_read_back_witness:
  "each_line 1 (snd (np_defaults_read sample_disk sample_home 1 1025 [(fex_file, File (plain_text))])) =
     each_line 1 (cstr ''WINEMSYNC=1'')"
  using saved_settings_read_back[OF sample_save, of 1025] by (simp add: sample_disk_def NP_DEFAULTS_TEXT_MAX_def)

text \<open>Whatever a settings file holds, the text that is read from it has only lines that are settings of
  the runner with a value of theirs, none twice.\<close>

theorem read_settings_valid:
  assumes "np_defaults_read dk home runner sz fs = (True, out)"
  shows "\<exists>kvs. out = kvs_text kvs \<and> kvs_ok runner kvs [] \<and> each_line runner out = (0, kvs) \<and> length out < sz"
proof -
  have sz: "0 < sz" using assms by (auto simp: np_defaults_read_def split: if_splits)
  obtain t where r: "read_lines dk (defaults_path home runner PATH_MAX) runner fs
      \<lparr>tx_buf = [], tx_size = sz, tx_ok = True\<rparr> = (True, t)" "out = tx_buf t"
    using assms by (auto simp: np_defaults_read_def split: if_splits prod.splits)
  show ?thesis
  proof (cases "np_read_whole_file dk (defaults_path home runner PATH_MAX) fs")
    case None
    then have "out = []" using r by (auto simp: read_lines_def split: option.splits node.splits)
    then show ?thesis using sz each_line_kvs[of runner "[]"] by (intro exI[of _ "[]"]) (simp add: kvs_text_def)
  next
    case (Some content)
    obtain bad kvs where l: "each_line runner content = (bad, kvs)" by fastforce
    have ok: "tx_ok (fold put_line kvs \<lparr>tx_buf = [], tx_size = sz, tx_ok = True\<rparr>)"
      "out = tx_buf (fold put_line kvs \<lparr>tx_buf = [], tx_size = sz, tx_ok = True\<rparr>)"
      using r Some l by (auto simp: read_lines_def Let_def split: if_splits)
    then show ?thesis using put_lines[OF ok(1) sz] each_line_ok[OF l] each_line_kvs by (intro exI[of _ kvs]) auto
  qed
qed

theorem read_settings_valid_witness:
  "\<exists>kvs. plain_text = kvs_text kvs \<and> kvs_ok 1 kvs []"
  using read_settings_valid[OF sample_read] by blast

text \<open>C10. Saving is all or nothing: when it succeeds the file has the whole checked text, otherwise what it had;
  and no other file changes, but for the one beside it that the text was prepared in.\<close>

theorem save_all_or_nothing:
  assumes "np_defaults_save dk home runner src fs = (ok, fs')"
    and "path = defaults_path home runner PATH_MAX" "tmp = c_copy PATH_MAX (path @ cstr ''.new'')" "q \<noteq> tmp"
  shows "if ok \<and> q = path
    then \<exists>body. checked_body runner src (NP_DEFAULTS_TEXT_MAX + 1) = Some body \<and> map_of fs' q = Some (File body)
    else map_of fs' q = map_of fs q"
proof (cases "runner > NP_DEFAULTS_FEX \<or> checked_body runner src (NP_DEFAULTS_TEXT_MAX + 1) = None")
  case True
  then have "\<not> ok \<and> fs' = fs" using assms(1) by (auto simp: np_defaults_save_def save_file_def split: if_splits)
  then show ?thesis by simp
next
  case False
  then obtain body where body: "checked_body runner src (NP_DEFAULTS_TEXT_MAX + 1) = Some body" by auto
  then have "write_locked dk path body fs = (ok, fs')"
    using False assms(1,2) by (simp add: np_defaults_save_def save_file_def)
  from write_locked_cases[OF this] show ?thesis using assms(3,4) body by auto
qed

theorem save_all_or_nothing_witness:
  "map_of [(fex_file, File (plain_text))] (cstr ''/other'') = map_of [] (cstr ''/other'')"
  using save_all_or_nothing[OF sample_save refl refl, of "cstr ''/other''"] unfolding sample_paths_fex
  by (simp add: fex_file_def cstr_def c_copy_def PATH_MAX_def)

lemma remove_builds_stays: "\<not> is_regular fs p \<Longrightarrow> \<not> is_regular (snd (remove_builds dk home runner builds (ok, fs))) p"
proof (induction builds arbitrary: ok fs)
  case (Cons build builds)
  let ?path = "build_path home build runner PATH_MAX"
  have "\<not> is_regular (snd (remove_locked dk ?path fs)) p"
    using Cons.prems sys_unlink_other[of ?path p dk fs] sys_unlink_own[of dk p fs]
    by (cases "?path = p") (auto simp: is_regular_def remove_locked_def split: prod.split unlink_result.split option.splits node.splits)
  then show ?case using Cons by (auto simp: Let_def split: prod.split)
qed simp

lemma remove_builds_ok: "fst (remove_builds dk home runner builds (ok, fs)) \<Longrightarrow> ok"
  by (induction builds arbitrary: ok fs) (force simp: Let_def split: if_splits prod.splits)+

lemma remove_builds_gone:
  assumes "fst (remove_builds dk home runner builds (ok, fs))" "build \<in> set builds"
  shows "\<not> is_regular (snd (remove_builds dk home runner builds (ok, fs))) (build_path home build runner PATH_MAX)"
  using assms
proof (induction builds arbitrary: ok fs)
  case (Cons b builds)
  let ?path = "build_path home b runner PATH_MAX"
  obtain r fs1 where r: "remove_locked dk ?path fs = (r, fs1)" by fastforce
  have step: "remove_builds dk home runner (b # builds) (ok, fs) =
      remove_builds dk home runner builds (if is_regular fs ?path then (ok \<and> r, fs1) else (ok, fs))"
    by (simp add: r)
  have "\<not> is_regular (if is_regular fs ?path then fs1 else fs) ?path"
  proof (cases "is_regular fs ?path")
    case True
    then have "fst (remove_builds dk home runner builds (ok \<and> r, fs1))" using Cons.prems(1) step by simp
    then have r by (blast dest: remove_builds_ok)
    then show ?thesis using r
      by (auto simp: remove_locked_def is_regular_def sys_unlink_def AList.delete_conv
          split: prod.splits unlink_result.splits option.splits node.splits if_splits)
  qed simp
  then show ?case using Cons step remove_builds_stays[of _ ?path dk home runner builds]
    by (cases "build = b"; cases "is_regular fs ?path") auto
qed simp

lemma override_builds_all:
  assumes "override_builds mem_ok runner names cap builds = Some bs"
  shows "set builds \<subseteq> set bs \<and> (\<forall>name \<in> set names. \<forall>b. override_build runner name = Some b \<longrightarrow> b \<in> set bs)"
  using assms
proof (induction names arbitrary: cap builds)
  case (Cons name names)
  show ?case
  proof (cases "override_build runner name")
    case None
    then show ?thesis using Cons by simp
  next
    case (Some build)
    let ?cap = "if length builds = cap then (if cap \<noteq> 0 then 2 * cap else 16) else cap"
    have "override_builds mem_ok runner names ?cap (builds @ [build]) = Some bs"
      using Cons.prems Some by (auto simp: Let_def split: if_splits)
    from Cons.IH[OF this] show ?thesis using Some by auto
  qed
qed simp

text \<open>The files of the versions are none of the files of all versions, unless the home directory is so long
  that the paths are cut off.\<close>

lemma take_eq_le: "take n xs = take n ys \<Longrightarrow> k \<le> n \<Longrightarrow> take k xs = take k ys"
  by (metis min.absorb1 take_take)

lemma family_path_apart:
  assumes "length (case home of None \<Rightarrow> [] | Some h \<Rightarrow> h) \<le> 900"
  shows "defaults_path home runner PATH_MAX \<noteq> build_path home b runner' PATH_MAX"
proof
  let ?h = "case home of None \<Rightarrow> [] | Some h \<Rightarrow> h"
  let ?base = "cstr ''/Library/Application Support/notproton'' @ cstr ''/''"
  let ?f = "c_copy 32 (cstr ''defaults-'' @ runner_name runner)"
  let ?b = "c_copy (NP_BUILD_ID_MAX + 32) (OVERRIDE_PREFIX @ b @ cstr ''-'' @ runner_name runner')"
  assume "defaults_path home runner PATH_MAX = build_path home b runner' PATH_MAX"
  moreover have "?f \<noteq> []" by (simp add: c_copy_def cstr_def)
  moreover have "?b \<noteq> []" by (simp add: c_copy_def cstr_def OVERRIDE_PREFIX_def NP_BUILD_ID_MAX_def)
  ultimately have "take 1023 ((?h @ ?base) @ ?f) = take 1023 ((?h @ ?base) @ ?b)"
    unfolding defaults_path_def build_path_def np_support_path_def by (simp add: c_copy_def PATH_MAX_def)
  then have "take (1023 - length (?h @ ?base)) ?f = take (1023 - length (?h @ ?base)) ?b"
    unfolding take_append by simp
  moreover have "10 \<le> 1023 - length (?h @ ?base)" using assms by (simp add: cstr_def)
  ultimately have "take 10 ?f = take 10 ?b" by (rule take_eq_le)
  moreover have "take 10 ?f ! 9 \<in> {114, 102}"
    by (simp add: c_copy_def cstr_def runner_name_def)
  moreover have "take 10 ?b ! 9 = 111"
    by (simp add: c_copy_def cstr_def OVERRIDE_PREFIX_def NP_BUILD_ID_MAX_def)
  ultimately show False by auto
qed

lemma remove_builds_other:
  assumes "\<And>b. q \<noteq> build_path home b runner PATH_MAX"
  shows "map_of (snd (remove_builds dk home runner builds (ok, fs))) q = map_of fs q"
proof (induction builds arbitrary: ok fs)
  case (Cons b builds)
  have "map_of (snd (remove_locked dk (build_path home b runner PATH_MAX) fs)) q = map_of fs q"
    using sys_unlink_other[OF assms[THEN not_sym], of dk b fs]
    by (auto simp: remove_locked_def split: prod.split unlink_result.split)
  then show ?case using Cons by (auto simp: Let_def split: prod.split)
qed simp

text \<open>When the settings of a version were made the settings of all, the file of all versions holds the
  settings that version had (its own, or the ones it shared), and no listed version has a file of its
  own any more.\<close>

theorem applied_to_every_version:
  assumes "np_defaults_apply_build dk mem_ok home list_dir build runner fs = (1, fs')"
    and "family = defaults_path home runner PATH_MAX" "own = build_path home build runner PATH_MAX"
    and "length (case home of None \<Rightarrow> [] | Some h \<Rightarrow> h) \<le> 900"
    and "open_folder_of list_dir family = Some entries" "name \<in> set entries" "override_build runner name = Some b"
  shows "\<not> is_regular fs' (build_path home b runner PATH_MAX) \<and>
    (\<exists>t. read_lines dk (if is_regular fs own then own else family) runner fs
        \<lparr>tx_buf = [], tx_size = NP_DEFAULTS_TEXT_MAX + 1, tx_ok = True\<rparr> = (True, t) \<and>
      map_of fs' family = Some (File (tx_buf t)))"
proof -
  let ?t = "\<lparr>tx_buf = [], tx_size = NP_DEFAULTS_TEXT_MAX + 1, tx_ok = True\<rparr>"
  obtain t fs1 where t: "read_lines dk (if is_regular fs own then own else family) runner fs ?t = (True, t)"
    and w: "write_locked dk family (tx_buf t) fs = (True, fs1)"
    and r: "remove_overrides_locked dk mem_ok home entries runner fs1 = (True, fs')"
    using assms(1-3,5) by (auto simp: np_defaults_apply_build_def Let_def split: if_splits prod.splits)
  obtain bs where bs: "override_builds mem_ok runner entries 0 [] = Some bs"
    "remove_builds dk home runner bs (True, fs1) = (True, fs')"
    using r by (auto simp: remove_overrides_locked_def split: option.splits)
  have "b \<in> set bs" using override_builds_all[OF bs(1)] assms(6,7) by auto
  then have "\<not> is_regular fs' (build_path home b runner PATH_MAX)"
    using remove_builds_gone[of dk home runner bs True fs1 b] bs(2) by simp
  moreover have "map_of (snd (remove_builds dk home runner bs (True, fs1))) family = map_of fs1 family"
    unfolding assms(2) by (rule remove_builds_other[OF family_path_apart[OF assms(4)]])
  then have "map_of fs' family = Some (File (tx_buf t))" using bs(2) write_locked_ok[OF w] by simp
  ultimately show ?thesis using t by blast
qed

theorem applied_to_every_version_witness:
  "\<not> is_regular [(fex_file, File (plain_text))] own_file"
  using applied_to_every_version[OF sample_apply refl refl _ _ _ sample_override(6)] sample_override(3)
  by (simp add: sample_paths_fex) (simp add: sample_home_def cstr_def)

end
