(* ===== verification/Compat_Svc.thy ===== *)
theory Compat_Svc
  imports Compat_Manager Prefix_State Pb Web_Ui Anchor Defaults
begin

text \<open>
  The service behind the compatibility page, \<^verbatim>\<open>src/dylib/feats/compatsvc.c\<close>: the list of tools an app is
  offered, the choice of one, the state of an app's prefix and its rebuild, the default settings; and
  the registration of these routes. File contents and locks of other processes are parameters.
\<close>

section \<open>Constants\<close>

definition ROUTE_GET_COMPAT_TOOLS :: cstring where "ROUTE_GET_COMPAT_TOOLS = cstr ''CompatManager.GetCompatTools#1''"
definition ROUTE_SPECIFY_COMPAT_TOOL :: cstring where "ROUTE_SPECIFY_COMPAT_TOOL = cstr ''CompatManager.SpecifyCompatTool#1''"
definition ROUTE_NOTIFY_STATE_CHANGED :: cstring where "ROUTE_NOTIFY_STATE_CHANGED = cstr ''CompatManager.NotifyStateChanged#1''"
definition ROUTE_PREFIX_STATE :: cstring where "ROUTE_PREFIX_STATE = cstr ''NotProton.PrefixState#1''"
definition ROUTE_REBUILD :: cstring where "ROUTE_REBUILD = cstr ''NotProton.RebuildPrefix#1''"
definition ROUTE_BACKUP_REBUILD :: cstring where "ROUTE_BACKUP_REBUILD = cstr ''NotProton.BackupAndRebuildPrefix#1''"
definition ROUTE_OPEN_LOG :: cstring where "ROUTE_OPEN_LOG = cstr ''NotProton.OpenPrefixLog#1''"
definition ROUTE_SET_DEFAULTS :: cstring where "ROUTE_SET_DEFAULTS = cstr ''NotProton.SetDefaults#1''"
definition ROUTE_SET_TOOL_DEFAULTS :: cstring where "ROUTE_SET_TOOL_DEFAULTS = cstr ''NotProton.SetToolDefaults#1''"
definition ROUTE_APPLY_TOOL_DEFAULTS :: cstring where "ROUTE_APPLY_TOOL_DEFAULTS = cstr ''NotProton.ApplyToolDefaults#1''"

definition TYPE_GET_REQUEST :: cstring where "TYPE_GET_REQUEST = cstr ''37CCompatManager_GetCompatTools_Request''"
definition TYPE_GET_RESPONSE :: cstring where "TYPE_GET_RESPONSE = cstr ''38CCompatManager_GetCompatTools_Response''"
definition TYPE_SPECIFY_REQUEST :: cstring where "TYPE_SPECIFY_REQUEST = cstr ''40CCompatManager_SpecifyCompatTool_Request''"
definition TYPE_SPECIFY_RESPONSE :: cstring where "TYPE_SPECIFY_RESPONSE = cstr ''41CCompatManager_SpecifyCompatTool_Response''"
definition TYPE_STATE_CHANGED :: cstring where "TYPE_STATE_CHANGED = cstr ''40CCompatManager_StateChanged_Notification''"

definition REQ_HAS_BITS_OFF :: u64 where "REQ_HAS_BITS_OFF = 16"
definition REQ_APPID_OFF :: u64 where "REQ_APPID_OFF = 24"
definition REQ_HAS_APPID :: u32 where "REQ_HAS_APPID = 1"
definition SPECIFY_TOOL_NAME_OFF :: u64 where "SPECIFY_TOOL_NAME_OFF = 24"
definition SPECIFY_APPID_OFF :: u64 where "SPECIFY_APPID_OFF = 32"
definition SPECIFY_HAS_APPID :: u32 where "SPECIFY_HAS_APPID = 2"

definition RESULT_OK :: int where "RESULT_OK = 1"
definition RESULT_IS_A_TOOL :: int where "RESULT_IS_A_TOOL = 128"
definition NP_COMPATSVC_PARTLY_APPLIED :: int where "NP_COMPATSVC_PARTLY_APPLIED = 129"

definition TOOL_NAME :: u32 where "TOOL_NAME = 1"
definition TOOL_DISPLAY_NAME :: u32 where "TOOL_DISPLAY_NAME = 2"
definition TOOL_IS_DEFAULT :: u32 where "TOOL_IS_DEFAULT = 3"
definition TOOL_IS_ACTIVE :: u32 where "TOOL_IS_ACTIVE = 4"
definition TOOL_IS_LEGACY :: u32 where "TOOL_IS_LEGACY = 5"
definition TOOL_IS_INCOMPATIBLE :: u32 where "TOOL_IS_INCOMPATIBLE = 6"
definition RESP_TOOLS :: u32 where "RESP_TOOLS = 1"
definition RESP_SELECTED :: u32 where "RESP_SELECTED = 3"
definition RESP_DEFAULT :: u32 where "RESP_DEFAULT = 4"
definition TOOL_MAX :: nat where "TOOL_MAX = 512"
definition PLATFORMS_UNSCOPED :: u32 where "PLATFORMS_UNSCOPED = COMPAT_PLATFORM_WINDOWS"
definition NP_COMPAT_TOOL_NONE :: cstring where "NP_COMPAT_TOOL_NONE = cstr ''notproton.none''"
definition TOOL_NONE_LABEL :: cstring where "TOOL_NONE_LABEL = cstr ''No Compatibility Tool''"
definition STATE_JSON_MAX :: nat where "STATE_JSON_MAX = 2048"

definition COMPAT_TOOL_GATE_FLAGS_OFF :: u64 where "COMPAT_TOOL_GATE_FLAGS_OFF = 0x24"
definition COMPAT_TOOL_GATE_HIDDEN :: u32 where "COMPAT_TOOL_GATE_HIDDEN = 1"
definition COMPAT_TOOL_PRIORITY_OFF :: u64 where "COMPAT_TOOL_PRIORITY_OFF = 0x38"
definition COMPAT_TOOL_PLATFORM_OFF :: u32 where "COMPAT_TOOL_PLATFORM_OFF = 0x80"

section \<open>The tools an app is offered\<close>

definition pb_tool :: "u32 \<Rightarrow> cstring \<Rightarrow> cstring option \<Rightarrow> bool \<Rightarrow> bool \<Rightarrow> np_pb \<Rightarrow> np_pb" where
  "pb_tool resp_field name display is_active is_incompatible w =
     (let t = \<lparr>pb_buf = [], pb_cap = TOOL_MAX, pb_ok = True\<rparr>;
          t = pb_string TOOL_NAME (Some name) t;
          t = pb_string TOOL_DISPLAY_NAME display t;
          t = pb_bool TOOL_IS_DEFAULT False t;
          t = pb_bool TOOL_IS_ACTIVE is_active t;
          t = pb_bool TOOL_IS_LEGACY False t;
          t = pb_bool TOOL_IS_INCOMPATIBLE is_incompatible t
      in if pb_ok t then pb_blob resp_field (pb_buf t) w else w\<lparr>pb_ok := False\<rparr>)"

definition offered :: "compat_layout \<Rightarrow> mem \<Rightarrow> u64 \<Rightarrow> u32 \<Rightarrow> bool \<Rightarrow> bool" where
  "offered lay m tool platforms bypass =
     (let converts_from = load32 m (tool_field lay tool COMPAT_TOOL_PLATFORM_OFF);
          gate = load32 m (tool + COMPAT_TOOL_GATE_FLAGS_OFF)
      in if platforms AND converts_from = 0 then False
         else if gate AND COMPAT_TOOL_GATE_HIDDEN \<noteq> 0 \<and> \<not> bypass then False else True)"

text \<open>A string in the memory of the client by the pointer to it, absent for the null pointer.\<close>

definition opt_cstr :: "mem \<Rightarrow> u64 \<Rightarrow> cstring option" where
  "opt_cstr m p = (if p = 0 then None else Some (mem_cstr m p))"

definition tool_name :: "mem \<Rightarrow> u64 \<Rightarrow> cstring option" where
  "tool_name m tool = (if tool = 0 then None else opt_cstr m (load64 m (tool + COMPAT_TOOL_NAME_OFF)))"

definition priority :: "mem \<Rightarrow> u64 \<Rightarrow> int" where
  "priority m tool = sint (load32 m (tool + COMPAT_TOOL_PRIORITY_OFF))"

fun best_priority :: "mem \<Rightarrow> u64 list \<Rightarrow> int \<Rightarrow> int" where
  "best_priority m [] best = best"
| "best_priority m (tool # ts) best = best_priority m ts (if priority m tool > best then priority m tool else best)"

fun list_tools :: "compat_layout \<Rightarrow> mem \<Rightarrow> u32 \<Rightarrow> bool \<Rightarrow> cstring option \<Rightarrow> int \<Rightarrow> u64 list \<Rightarrow> np_pb \<Rightarrow> np_pb" where
  "list_tools lay m platforms bypass active best [] w = w"
| "list_tools lay m platforms bypass active best (tool # ts) w =
     (if \<not> offered lay m tool platforms bypass then list_tools lay m platforms bypass active best ts w
      else case tool_name m tool of
          None \<Rightarrow> list_tools lay m platforms bypass active best ts w
        | Some name \<Rightarrow>
            let prio = priority m tool;
                w = pb_tool RESP_TOOLS name (opt_cstr m (load64 m (tool + COMPAT_TOOL_DISPLAY_OFF)))
                  (active = Some name) (best \<noteq> 0 \<and> prio \<noteq> best \<and> prio > 0) w
            in if \<not> pb_ok w then w else list_tools lay m platforms bypass active best ts w)"

definition request_appid :: "mem \<Rightarrow> u64 \<Rightarrow> u32" where
  "request_appid m request =
     (if load32 m (request + REQ_HAS_BITS_OFF) AND REQ_HAS_APPID \<noteq> 0 then load32 m (request + REQ_APPID_OFF) else 0)"

text \<open>The answer to a request: a result on its own, or a message for the client's parser.\<close>

datatype answer = Answer int | Reply "u8 list"

text \<open>What the reply is made of, once the manager's list can be read.\<close>

record offer =
  of_tools :: "u64 list"
  of_platforms :: u32
  of_bypass :: bool
  of_active :: "cstring option"
  of_chosen :: "cstring option"
  of_fallback :: "cstring option"

definition tools_body :: "compat_layout \<Rightarrow> mem \<Rightarrow> u32 \<Rightarrow> offer \<Rightarrow> np_pb" where
  "tools_body lay m appid ofr =
     (let best = best_priority m (of_tools ofr) 0;
          holds_none = (of_chosen ofr = Some NP_COMPAT_TOOL_NONE);
          w = \<lparr>pb_buf = [], pb_cap = (length (of_tools ofr) + 3) * TOOL_MAX, pb_ok = True\<rparr>;
          w = list_tools lay m (of_platforms ofr) (of_bypass ofr) (of_active ofr) best (of_tools ofr) w
      in if \<not> pb_ok w then w
         else
           let w = (if appid \<noteq> 0 \<and> (of_fallback ofr \<noteq> None \<or> holds_none)
                 then pb_tool RESP_TOOLS NP_COMPAT_TOOL_NONE (Some TOOL_NONE_LABEL) holds_none False w else w)
           in if \<not> pb_ok w then w
              else pb_string RESP_DEFAULT (of_fallback ofr)
                (pb_string RESP_SELECTED (Some (case of_chosen ofr of None \<Rightarrow> [] | Some c \<Rightarrow> c)) w))"

definition tools_offer ::
  "client_fns \<Rightarrow> compat_layout \<Rightarrow> tool_list \<Rightarrow> u64 \<Rightarrow> u32 \<Rightarrow> mem \<Rightarrow> int + offer" where
  "tools_offer fns lay tls mgr appid m =
     (let array = load64 m (mgr + COMPAT_MANAGER_TOOL_ARRAY_OFF);
          count = unat (load32 m (mgr + COMPAT_MANAGER_TOOL_COUNT_OFF))
      in if array = 0 \<or> count > np_compat_manager_tools_max tls then Inl RESULT_FAIL
         else
           let tools = map (tool_at lay array) [0..<count];
               bypass = (m (mgr + ucast (g_enabled_off lay) + 2) \<noteq> 0)
           in if appid \<noteq> 0 \<and> \<not> bypass \<and>
                 list_ex (\<lambda>tool. load32 m (tool_field lay tool COMPAT_TOOL_APPID_OFF) = appid) tools
              then Inl RESULT_IS_A_TOOL
              else Inr \<lparr>of_tools = tools,
                of_platforms = (if appid \<noteq> 0 then np_compat_valid_platforms fns m mgr appid else PLATFORMS_UNSCOPED),
                of_bypass = bypass,
                of_active = tool_name m (np_compat_tool_for_app fns m mgr appid),
                of_chosen = (if appid \<noteq> 0 then np_compat_app_mapping fns m mgr appid
                  else tool_name m (np_compat_chosen_tool fns m mgr 0)),
                of_fallback = (case np_compat_wildcard_mapping fns m mgr appid of
                    Some f \<Rightarrow> Some f
                  | None \<Rightarrow> if appid = 0 \<or> np_compat_would_force fns m mgr appid
                      then tool_name m (np_compat_registered_tool lay m tls mgr) else None)\<rparr>)"

definition tools_answer ::
  "client_fns \<Rightarrow> (nat \<Rightarrow> bool) \<Rightarrow> compat_layout \<Rightarrow> tool_list \<Rightarrow> u64 \<Rightarrow> u64 \<Rightarrow> mem \<Rightarrow> answer" where
  "tools_answer fns mem_ok lay tls mgr request m =
     (let appid = request_appid m request in
      if mgr = 0 then Answer RESULT_OK
      else case tools_offer fns lay tls mgr appid m of
          Inl r \<Rightarrow> Answer r
        | Inr ofr \<Rightarrow>
            if \<not> mem_ok ((length (of_tools ofr) + 3) * TOOL_MAX) then Answer RESULT_FAIL
            else let w = tools_body lay m appid ofr in if pb_ok w then Reply (pb_buf w) else Answer RESULT_FAIL)"

definition get_compat_tools ::
  "webui_client \<Rightarrow> 'h webui_state \<Rightarrow> client_fns \<Rightarrow> (nat \<Rightarrow> bool) \<Rightarrow> compat_layout \<Rightarrow> tool_list \<Rightarrow> u64 \<Rightarrow> u64 \<Rightarrow> u64 \<Rightarrow>
     mem \<Rightarrow> int \<times> mem" where
  "get_compat_tools cl ui fns mem_ok lay tls mgr request response m =
     (case tools_answer fns mem_ok lay tls mgr request m of
        Answer r \<Rightarrow> (r, m)
      | Reply body \<Rightarrow> (case np_webui_parse_into cl ui response body m of
          (ok, m) \<Rightarrow> (if ok then RESULT_OK else RESULT_FAIL, m)))"

section \<open>Choosing a tool\<close>

definition string_field :: "mem \<Rightarrow> u64 \<Rightarrow> cstring" where
  "string_field m field =
     (let str = load64 m field AND NOT 1 in
      if str = 0 then []
      else if sint (m (str + 23)) < 0 then mem_cstr m (load64 m str) else mem_cstr m str)"

definition specify_appid :: "mem \<Rightarrow> u64 \<Rightarrow> u32" where
  "specify_appid m request =
     (if load32 m (request + REQ_HAS_BITS_OFF) AND SPECIFY_HAS_APPID \<noteq> 0
      then load32 m (request + SPECIFY_APPID_OFF) else 0)"

definition specify_compat_tool :: "client_fns \<Rightarrow> u64 \<Rightarrow> u64 \<Rightarrow> mem \<Rightarrow> int \<times> mem" where
  "specify_compat_tool fns mgr request m =
     (let appid = specify_appid m request; tool = string_field m (request + SPECIFY_TOOL_NAME_OFF) in
      if mgr = 0 then (RESULT_FAIL, m)
      else (RESULT_OK, np_compat_map_tool fns mgr appid (Some tool) m))"

section \<open>The prefix of an app\<close>

record svc_env =
  sv_home :: "cstring option"
  sv_uid :: nat
  sv_tmpdir :: "cstring option"
  sv_host :: host

definition read_state :: "svc_env \<Rightarrow> client_fns \<Rightarrow> u64 \<Rightarrow> u32 \<Rightarrow> mem \<Rightarrow> np_prefix_state option" where
  "read_state env fns mgr appid m = (case sv_home env of
     None \<Rightarrow> None
   | Some home \<Rightarrow>
       if appid = 0 \<or> mgr = 0 then None
       else
         let steam = c_copy PATH_MAX (home @ cstr ''/Library/Application Support/Steam'');
             support = c_copy PATH_MAX (home @ cstr ''/Library/Application Support/notproton'');
             server = c_copy PATH_MAX (cstr ''/tmp/.wine-'' @ dec_str (sv_uid env));
             roots = \<lparr>steam_root = steam, support_root = support, server_root = Some server\<rparr>
         in Some (np_prefix_state (sv_host env) appid (tool_name m (np_compat_tool_for_app fns m mgr appid)) roots))"

definition answer_json :: "webui_client \<Rightarrow> 'h webui_state \<Rightarrow> u64 \<Rightarrow> cstring \<Rightarrow> mem \<Rightarrow> int \<times> mem" where
  "answer_json cl ui response json m =
     (let w = pb_string RESP_DEFAULT (Some json) \<lparr>pb_buf = [], pb_cap = STATE_JSON_MAX + 8, pb_ok = True\<rparr> in
      if \<not> pb_ok w then (RESULT_FAIL, m)
      else case np_webui_parse_into cl ui response (pb_buf w) m of
          (ok, m) \<Rightarrow> (if ok then RESULT_OK else RESULT_FAIL, m))"

definition prefix_state ::
  "svc_env \<Rightarrow> webui_client \<Rightarrow> 'h webui_state \<Rightarrow> client_fns \<Rightarrow> u64 \<Rightarrow> u64 \<Rightarrow> u64 \<Rightarrow> mem \<Rightarrow> int \<times> mem" where
  "prefix_state env cl ui fns mgr request response m =
     (let appid = request_appid m request in
      case read_state env fns mgr appid m of
        None \<Rightarrow> (RESULT_FAIL, m)
      | Some st \<Rightarrow> (case np_prefix_state_json appid st STATE_JSON_MAX of
          (n, json) \<Rightarrow> if n < 0 then (RESULT_FAIL, m) else answer_json cl ui response json m))"

text \<open>The environment and the arguments of a child that inherits nothing of the client.\<close>

definition detached_env :: "svc_env \<Rightarrow> cstring list" where
  "detached_env env =
     [c_copy (PATH_MAX + 8) (cstr ''HOME='' @ (case sv_home env of None \<Rightarrow> cstr ''/'' | Some h \<Rightarrow> h)),
      c_copy (PATH_MAX + 8) (cstr ''TMPDIR='' @ (case sv_tmpdir env of None \<Rightarrow> cstr ''/tmp'' | Some t \<Rightarrow> t)),
      cstr ''PATH=/usr/bin:/bin:/usr/sbin:/sbin'']"

text \<open>What the rebuild does to the world: it takes a lock, writes a record, starts a process with its
  arguments and environment, takes the record back, lets go of the lock.\<close>

datatype rebuild_event = Lock cstring | Record cstring | Spawn "cstring list" "cstring list" | Remove cstring | Unlock

datatype lock_try = Locked | Would_block | Lock_error

fun claim_loop :: "(nat \<Rightarrow> lock_try) \<Rightarrow> nat \<Rightarrow> nat \<Rightarrow> bool" where
  "claim_loop tries i 0 = (tries i = Locked)"
| "claim_loop tries i (Suc n) = (case tries i of
     Locked \<Rightarrow> True | Lock_error \<Rightarrow> False | Would_block \<Rightarrow> claim_loop tries (Suc i) n)"

record rebuild_world =
  rb_lock_opens :: bool
  rb_tries :: "nat \<Rightarrow> lock_try"
  rb_recorded :: bool
  rb_runs :: "cstring list \<Rightarrow> bool"

definition REBUILD_SCRIPT :: cstring where
  "REBUILD_SCRIPT = cstr ''log=$1; shift; '' @ [34] @ cstr ''$0'' @ [34] @ cstr '' --rebuild-prefix '' @ [34] @ cstr ''$@'' @ [34] @
     cstr '' >> '' @ [34] @ cstr ''$log'' @ [34] @ cstr '' 2>&1 < /dev/null &''"

definition rebuild_argv :: "np_prefix_state \<Rightarrow> bool \<Rightarrow> cstring list" where
  "rebuild_argv st keep_backup =
     [cstr ''/bin/sh'', cstr ''-c'', REBUILD_SCRIPT, st_app st,
      c_copy PATH_MAX (st_compatdata st @ cstr ''/notproton-run.log''), st_compatdata st,
      st_tool st, st_tool_build st, st_tool_flavor st, cstr (if keep_backup then ''keep-backup'' else ''discard-backup'')]"

definition json_error :: "string \<Rightarrow> cstring" where
  "json_error why = [123] @ quoted (cstr ''error'') @ [58] @ quoted (cstr why) @ [125]"

definition json_done :: "string \<Rightarrow> cstring" where
  "json_done what = [123] @ quoted (cstr what) @ cstr '':true'' @ [125]"

text \<open>Why a rebuild is refused, if it is.\<close>

definition rebuild_refused :: "np_prefix_state \<Rightarrow> string option" where
  "rebuild_refused st =
     (if \<not> st_needs_rebuild st then Some ''none''
      else if np_prefix_rebuilding st then Some ''busy''
      else if st_running st then Some ''running''
      else if st_app st = [] then Some ''app'' else None)"

definition rebuild_steps :: "svc_env \<Rightarrow> rebuild_world \<Rightarrow> np_prefix_state \<Rightarrow> bool \<Rightarrow> cstring \<times> rebuild_event list" where
  "rebuild_steps env rb st keep_backup = (case rebuild_refused st of
     Some why \<Rightarrow> (c_copy 64 (json_error why), [])
   | None \<Rightarrow>
       let lock_path = c_copy PATH_MAX (st_compatdata st @ cstr ''/.notproton-rebuild.lock'');
           status = c_copy PATH_MAX (st_compatdata st @ cstr ''/notproton-rebuild'');
           argv = rebuild_argv st keep_backup
       in if \<not> rb_lock_opens rb \<or> \<not> claim_loop (rb_tries rb) 0 10 then (json_error ''busy'', [])
          else if \<not> rb_recorded rb then (c_copy 64 (json_error ''spawn''), [Lock lock_path, Unlock])
          else if \<not> rb_runs rb argv
          then (c_copy 64 (json_error ''spawn''),
            [Lock lock_path, Record status, Spawn argv (detached_env env), Remove status, Unlock])
          else (c_copy 64 (json_done ''started''),
            [Lock lock_path, Record status, Spawn argv (detached_env env), Unlock]))"

definition start_rebuild ::
  "svc_env \<Rightarrow> rebuild_world \<Rightarrow> webui_client \<Rightarrow> 'h webui_state \<Rightarrow> client_fns \<Rightarrow> u64 \<Rightarrow> u64 \<Rightarrow> u64 \<Rightarrow> bool \<Rightarrow> mem \<Rightarrow>
     (int \<times> mem) \<times> rebuild_event list" where
  "start_rebuild env rb cl ui fns mgr request response keep_backup m =
     (let appid = request_appid m request in
      case read_state env fns mgr appid m of
        None \<Rightarrow> ((RESULT_FAIL, m), [])
      | Some st \<Rightarrow> (case rebuild_steps env rb st keep_backup of
          (json, events) \<Rightarrow> (answer_json cl ui response json m, events)))"

definition open_prefix_log ::
  "svc_env \<Rightarrow> (cstring \<Rightarrow> bool) \<Rightarrow> (cstring list \<Rightarrow> bool) \<Rightarrow> webui_client \<Rightarrow> 'h webui_state \<Rightarrow> client_fns \<Rightarrow> u64 \<Rightarrow> u64 \<Rightarrow> u64 \<Rightarrow>
     mem \<Rightarrow> int \<times> mem" where
  "open_prefix_log env readable runs cl ui fns mgr request response m =
     (case read_state env fns mgr (request_appid m request) m of
        None \<Rightarrow> (RESULT_FAIL, m)
      | Some st \<Rightarrow>
          if st_compatdata st = [] then (RESULT_FAIL, m)
          else
            let log = c_copy PATH_MAX (st_compatdata st @ cstr ''/notproton-run.log'');
                argv = [cstr ''/bin/sh'', cstr ''-c'', cstr ''/usr/bin/open -t '' @ [34] @ cstr ''$0'' @ [34] @ cstr '' &'', log]
            in answer_json cl ui response (if readable log \<and> runs argv then json_done ''opened'' else json_error ''log'') m)"

section \<open>The default settings\<close>

definition set_defaults :: "disk \<Rightarrow> cstring option \<Rightarrow> mem \<Rightarrow> u64 \<Rightarrow> fs \<Rightarrow> int \<times> fs" where
  "set_defaults dk home m request fs =
     (case np_defaults_save dk home (specify_appid m request)
         (Some (string_field m (request + SPECIFY_TOOL_NAME_OFF))) fs of
       (ok, fs) \<Rightarrow> (if ok then RESULT_OK else RESULT_FAIL, fs))"

text \<open>The build and the runner of an installed tool.\<close>

definition tool_build :: "tool_list \<Rightarrow> cstring \<Rightarrow> nat \<Rightarrow> nat \<Rightarrow> (cstring \<times> u32) option" where
  "tool_build tls tool n cap = (case np_compat_tool_by_name tls (Some tool) n of
     Some (name, build, display, fex) \<Rightarrow>
       if length build < cap then Some (c_copy cap build, if fex then NP_DEFAULTS_FEX else NP_DEFAULTS_ROSETTA) else None
   | None \<Rightarrow> None)"

definition set_tool_defaults :: "disk \<Rightarrow> cstring option \<Rightarrow> tool_list \<Rightarrow> mem \<Rightarrow> u64 \<Rightarrow> fs \<Rightarrow> int \<times> fs" where
  "set_tool_defaults dk home tls m request fs =
     (let txt = string_field m (request + SPECIFY_TOOL_NAME_OFF);
          n = length (takeWhile (\<lambda>c. c \<noteq> 10) txt)
      in case tool_build tls txt n (NP_BUILD_ID_MAX + 1) of
           None \<Rightarrow> (RESULT_FAIL, fs)
         | Some (build, runner) \<Rightarrow>
             (case np_defaults_save_build dk home build runner (Some (drop (n + 1) txt)) fs of
               (ok, fs) \<Rightarrow> (if ok then RESULT_OK else RESULT_FAIL, fs)))"

definition apply_tool_defaults ::
  "disk \<Rightarrow> (nat \<Rightarrow> bool) \<Rightarrow> cstring option \<Rightarrow> (cstring \<Rightarrow> cstring list option) \<Rightarrow> tool_list \<Rightarrow> mem \<Rightarrow> u64 \<Rightarrow> fs \<Rightarrow> int \<times> fs" where
  "apply_tool_defaults dk mem_ok home list_dir tls m request fs =
     (let tool = string_field m (request + SPECIFY_TOOL_NAME_OFF) in
      case tool_build tls tool (length tool) (NP_BUILD_ID_MAX + 1) of
        None \<Rightarrow> (RESULT_FAIL, fs)
      | Some (build, runner) \<Rightarrow> (case np_defaults_apply_build dk mem_ok home list_dir build runner fs of
          (d, fs) \<Rightarrow> (if d > 0 then RESULT_OK else if d < 0 then NP_COMPATSVC_PARTLY_APPLIED else RESULT_FAIL, fs)))"

section \<open>Routes\<close>

datatype route_handler = Get_compat_tools | Specify_compat_tool | Set_defaults | Set_tool_defaults | Apply_tool_defaults
  | Prefix_state | Rebuild_prefix | Backup_and_rebuild_prefix | Open_prefix_log

datatype routes_state = NP_COMPATSVC_UNTRIED | NP_COMPATSVC_READY | NP_COMPATSVC_ABSENT

record svc_state =
  g_state_changed :: u64
  svc_routes :: routes_state

definition np_compatsvc_state_changed ::
  "webui_client \<Rightarrow> svc_state \<Rightarrow> 'h webui_state \<times> mem \<Rightarrow> 'h webui_state \<times> mem" where
  "np_compatsvc_state_changed cl svc s =
     (if g_state_changed svc = 0 then s else snd (np_webui_notify cl ROUTE_NOTIFY_STATE_CHANGED (g_state_changed svc) s))"

text \<open>Routes one after another, until one is refused.\<close>

fun register_routes :: "webui_client \<Rightarrow> u64 \<Rightarrow> u64 \<Rightarrow> (cstring \<times> 'h) list \<Rightarrow> 'h webui_state \<times> mem \<Rightarrow> 'h webui_state \<times> mem" where
  "register_routes cl request response [] s = s"
| "register_routes cl request response ((name, h) # rs) s =
     (case np_webui_register_route cl name request response h s of
        (ok, s) \<Rightarrow> if ok then register_routes cl request response rs s else s)"

definition specify_routes :: "(cstring \<times> route_handler) list" where
  "specify_routes = [(ROUTE_SET_DEFAULTS, Set_defaults), (ROUTE_SET_TOOL_DEFAULTS, Set_tool_defaults),
     (ROUTE_APPLY_TOOL_DEFAULTS, Apply_tool_defaults)]"

definition prefix_routes :: "(cstring \<times> route_handler) list" where
  "prefix_routes = [(ROUTE_PREFIX_STATE, Prefix_state), (ROUTE_REBUILD, Rebuild_prefix),
     (ROUTE_BACKUP_REBUILD, Backup_and_rebuild_prefix), (ROUTE_OPEN_LOG, Open_prefix_log)]"

definition np_compatsvc_register ::
  "webui_client \<Rightarrow> u64 \<Rightarrow> u64 \<Rightarrow> u64 \<Rightarrow> u64 \<Rightarrow> svc_state \<times> route_handler webui_state \<times> mem \<Rightarrow>
     svc_state \<times> route_handler webui_state \<times> mem" where
  "np_compatsvc_register cl mh slide text_base text_size s = (case s of (svc, ui, m) \<Rightarrow>
     if svc_routes svc \<noteq> NP_COMPATSVC_UNTRIED \<or> g_registry ui = 0 then (svc, ui, m)
     else
       let request = np_rtti_vptr m mh slide text_base text_size TYPE_GET_REQUEST;
           response = np_rtti_vptr m mh slide text_base text_size TYPE_GET_RESPONSE
       in if request = 0 \<or> response = 0 then (svc\<lparr>svc_routes := NP_COMPATSVC_ABSENT\<rparr>, ui, m)
       else case np_webui_register_route cl ROUTE_GET_COMPAT_TOOLS request response Get_compat_tools (ui, m) of (_, ui, m) \<Rightarrow>
       let specify_request = np_rtti_vptr m mh slide text_base text_size TYPE_SPECIFY_REQUEST;
           specify_response = np_rtti_vptr m mh slide text_base text_size TYPE_SPECIFY_RESPONSE
       in if specify_request = 0 \<or> specify_response = 0 then (svc\<lparr>svc_routes := NP_COMPATSVC_ABSENT\<rparr>, ui, m)
       else case np_webui_register_route cl ROUTE_SPECIFY_COMPAT_TOOL specify_request specify_response
           Specify_compat_tool (ui, m) of (_, ui, m) \<Rightarrow>
       case register_routes cl specify_request specify_response specify_routes (ui, m) of (ui, m) \<Rightarrow>
       case register_routes cl request response prefix_routes (ui, m) of (ui, m) \<Rightarrow>
       let notification = np_rtti_vptr m mh slide text_base text_size TYPE_STATE_CHANGED
       in case (if notification \<noteq> 0 then np_webui_new_message cl ui notification m else (0, m)) of (msg, m) \<Rightarrow>
         (svc\<lparr>svc_routes := NP_COMPATSVC_READY, g_state_changed := msg\<rparr>, ui, m))"

section \<open>Lemmas: the reply\<close>

definition msg_bytes :: "pb_field list \<Rightarrow> u8 list" where
  "msg_bytes fs = concat (map field_bytes fs)"

definition opt_field :: "u32 \<Rightarrow> cstring option \<Rightarrow> pb_field list" where
  "opt_field f str = (case str of None \<Rightarrow> [] | Some s \<Rightarrow> [Bytes f s])"

type_synonym item = "cstring \<times> cstring option \<times> bool \<times> bool"

definition bool_field :: "u32 \<Rightarrow> bool \<Rightarrow> pb_field" where
  "bool_field f b = Number f (if b then 1 else 0)"

fun item_fields :: "item \<Rightarrow> pb_field list" where
  "item_fields (name, display, active, incompatible) =
     Bytes TOOL_NAME name # opt_field TOOL_DISPLAY_NAME display @
     [bool_field TOOL_IS_DEFAULT False, bool_field TOOL_IS_ACTIVE active, bool_field TOOL_IS_LEGACY False,
      bool_field TOOL_IS_INCOMPATIBLE incompatible]"

definition tool_fields_of :: "item list \<Rightarrow> pb_field list" where
  "tool_fields_of its = map (\<lambda>it. Bytes RESP_TOOLS (msg_bytes (item_fields it))) its"

lemma msg_bytes_simps [simp]:
  "msg_bytes [] = []" "msg_bytes (f # fs) = field_bytes f @ msg_bytes fs" "msg_bytes (fs @ gs) = msg_bytes fs @ msg_bytes gs"
  by (simp_all add: msg_bytes_def)

lemma writes_opt: "pb.writes k (pb_string f str) (msg_bytes (opt_field f str))"
  using writes_pb_string[of k f str] by (simp add: opt_field_def split: option.splits)

lemma writes_flag: "pb.writes k (pb_bool f b) (field_bytes (bool_field f b))"
  using writes_pb_bool[of k f b] by (simp add: bool_field_def bool_bytes_def)

lemma pb_tool_eq:
  "pb_tool f name display active incompatible w =
     (let item = msg_bytes (item_fields (name, display, active, incompatible))
      in if length item \<le> TOOL_MAX then pb_blob f item w else w\<lparr>pb_ok := False\<rparr>)"
proof -
  let ?fs = "[pb_string TOOL_NAME (Some name), pb_string TOOL_DISPLAY_NAME display, pb_bool TOOL_IS_DEFAULT False,
    pb_bool TOOL_IS_ACTIVE active, pb_bool TOOL_IS_LEGACY False, pb_bool TOOL_IS_INCOMPATIBLE incompatible]"
  let ?bs = "[msg_bytes (opt_field TOOL_NAME (Some name)), msg_bytes (opt_field TOOL_DISPLAY_NAME display),
    field_bytes (bool_field TOOL_IS_DEFAULT False), field_bytes (bool_field TOOL_IS_ACTIVE active),
    field_bytes (bool_field TOOL_IS_LEGACY False), field_bytes (bool_field TOOL_IS_INCOMPATIBLE incompatible)]"
  let ?w = "\<lparr>pb_buf = [], pb_cap = TOOL_MAX, pb_ok = True\<rparr>"
  have item: "concat ?bs = msg_bytes (item_fields (name, display, active, incompatible))"
    by (simp add: opt_field_def)
  have "pb.writes 0 (fold (\<lambda>f. f) ?fs) (concat ?bs)"
    by (rule pb.writes_steps) (simp add: writes_opt writes_flag)
  from pb.writes_result[OF this, of ?w]
  have "pb_ok (fold (\<lambda>f. f) ?fs ?w) \<longleftrightarrow> length (concat ?bs) \<le> TOOL_MAX"
    "pb_ok (fold (\<lambda>f. f) ?fs ?w) \<Longrightarrow> pb_buf (fold (\<lambda>f. f) ?fs ?w) = concat ?bs"
    by simp_all
  then show ?thesis unfolding item pb_tool_def Let_def by simp
qed

definition items_of :: "compat_layout \<Rightarrow> mem \<Rightarrow> u32 \<Rightarrow> bool \<Rightarrow> cstring option \<Rightarrow> int \<Rightarrow> u64 list \<Rightarrow> item list" where
  "items_of lay m platforms bypass active best tools = concat (map (\<lambda>tool.
     if \<not> offered lay m tool platforms bypass then []
     else case tool_name m tool of
         None \<Rightarrow> []
       | Some name \<Rightarrow> [(name, opt_cstr m (load64 m (tool + COMPAT_TOOL_DISPLAY_OFF)), active = Some name,
           best \<noteq> 0 \<and> priority m tool \<noteq> best \<and> priority m tool > 0)]) tools)"

definition offered_items :: "compat_layout \<Rightarrow> mem \<Rightarrow> offer \<Rightarrow> item list" where
  "offered_items lay m ofr = items_of lay m (of_platforms ofr) (of_bypass ofr) (of_active ofr)
     (best_priority m (of_tools ofr) 0) (of_tools ofr)"

definition none_items :: "u32 \<Rightarrow> offer \<Rightarrow> item list" where
  "none_items appid ofr =
     (if appid \<noteq> 0 \<and> (of_fallback ofr \<noteq> None \<or> of_chosen ofr = Some NP_COMPAT_TOOL_NONE)
      then [(NP_COMPAT_TOOL_NONE, Some TOOL_NONE_LABEL, of_chosen ofr = Some NP_COMPAT_TOOL_NONE, False)] else [])"

definition reply_fields :: "compat_layout \<Rightarrow> mem \<Rightarrow> u32 \<Rightarrow> offer \<Rightarrow> pb_field list" where
  "reply_fields lay m appid ofr = tool_fields_of (offered_items lay m ofr @ none_items appid ofr) @
     Bytes RESP_SELECTED (case of_chosen ofr of None \<Rightarrow> [] | Some c \<Rightarrow> c) # opt_field RESP_DEFAULT (of_fallback ofr)"

text \<open>A step on the reply: when it is still good, it has written these fields, each of bounded length.\<close>

definition pb_step :: "np_pb \<Rightarrow> np_pb \<Rightarrow> pb_field list \<Rightarrow> bool" where
  "pb_step w w' fs \<longleftrightarrow> pb_cap w' = pb_cap w \<and> length (pb_buf w') \<le> pb_cap w' \<and>
     (pb_ok w' \<longrightarrow> pb_ok w \<and> pb_buf w' = pb_buf w @ msg_bytes fs)"

lemma pb_step_trans: "pb_step w w' fs \<Longrightarrow> pb_step w' w'' gs \<Longrightarrow> pb_step w w'' (fs @ gs)"
  by (auto simp: pb_step_def)

lemma pb_step_writes:
  assumes "pb.writes 0 f (msg_bytes fs)" "length (pb_buf w) \<le> pb_cap w"
  shows "pb_step w (f w) fs"
  using pb.writesD[OF assms(1), of w] assms(2) by (auto simp: pb_step_def pb.room_def)

lemma pb_step_tool:
  assumes "length (pb_buf w) \<le> pb_cap w"
  shows "pb_step w (pb_tool RESP_TOOLS name display active incompatible w) (tool_fields_of [(name, display, active, incompatible)])"
proof -
  let ?item = "msg_bytes (item_fields (name, display, active, incompatible))"
  have "pb.writes 0 (pb_blob RESP_TOOLS ?item) (msg_bytes (tool_fields_of [(name, display, active, incompatible)]))"
    using writes_blob[of 0 RESP_TOOLS ?item] by (simp add: tool_fields_of_def)
  from pb_step_writes[OF this assms] show ?thesis
    using assms by (auto simp: pb_tool_eq Let_def pb_step_def simp del: item_fields.simps)
qed

lemma tool_fields_of_append: "tool_fields_of (its @ its') = tool_fields_of its @ tool_fields_of its'"
  by (simp add: tool_fields_of_def)

lemma pb_step_refl: "length (pb_buf w) \<le> pb_cap w \<Longrightarrow> pb_step w w []"
  by (simp add: pb_step_def)

lemma list_tools_step:
  assumes "length (pb_buf w) \<le> pb_cap w"
  shows "pb_step w (list_tools lay m platforms bypass active best ts w)
    (tool_fields_of (items_of lay m platforms bypass active best ts))"
  using assms
proof (induction ts arbitrary: w)
  case Nil
  then show ?case by (simp add: pb_step_refl items_of_def tool_fields_of_def)
next
  case (Cons tool ts)
  let ?items = "items_of lay m platforms bypass active best"
  show ?case
  proof (cases "offered lay m tool platforms bypass \<and> tool_name m tool \<noteq> None")
    case False
    then have "list_tools lay m platforms bypass active best (tool # ts) w = list_tools lay m platforms bypass active best ts w"
      "?items (tool # ts) = ?items ts"
      by (auto simp: items_of_def)
    then show ?thesis using Cons by simp
  next
    case True
    then obtain name where name: "offered lay m tool platforms bypass" "tool_name m tool = Some name" by auto
    let ?d = "opt_cstr m (load64 m (tool + COMPAT_TOOL_DISPLAY_OFF))"
    let ?i = "best \<noteq> 0 \<and> priority m tool \<noteq> best \<and> priority m tool > 0"
    let ?w = "pb_tool RESP_TOOLS name ?d (active = Some name) ?i w"
    have items: "?items (tool # ts) = [(name, ?d, active = Some name, ?i)] @ ?items ts"
      using name by (simp add: items_of_def)
    have run: "list_tools lay m platforms bypass active best (tool # ts) w =
        (if \<not> pb_ok ?w then ?w else list_tools lay m platforms bypass active best ts ?w)"
      using name by (simp add: Let_def)
    have step: "pb_step w ?w (tool_fields_of [(name, ?d, active = Some name, ?i)])"
      by (rule pb_step_tool[OF Cons.prems])
    then have "pb_step ?w (list_tools lay m platforms bypass active best ts ?w) (tool_fields_of (?items ts))"
      by (intro Cons.IH) (simp add: pb_step_def)
    from pb_step_trans[OF step this] step show ?thesis
      unfolding items tool_fields_of_append run by (auto simp: pb_step_def)
  qed
qed

lemma tools_body_step:
  "pb_step \<lparr>pb_buf = [], pb_cap = (length (of_tools ofr) + 3) * TOOL_MAX, pb_ok = True\<rparr> (tools_body lay m appid ofr)
     (reply_fields lay m appid ofr)"
proof -
  let ?w = "\<lparr>pb_buf = [], pb_cap = (length (of_tools ofr) + 3) * TOOL_MAX, pb_ok = True\<rparr>"
  let ?l = "list_tools lay m (of_platforms ofr) (of_bypass ofr) (of_active ofr)
    (best_priority m (of_tools ofr) 0) (of_tools ofr) ?w"
  let ?n = "if appid \<noteq> 0 \<and> (of_fallback ofr \<noteq> None \<or> of_chosen ofr = Some NP_COMPAT_TOOL_NONE)
    then pb_tool RESP_TOOLS NP_COMPAT_TOOL_NONE (Some TOOL_NONE_LABEL) (of_chosen ofr = Some NP_COMPAT_TOOL_NONE) False ?l else ?l"
  let ?sel = "Some (case of_chosen ofr of None \<Rightarrow> [] | Some c \<Rightarrow> c)"
  let ?e = "pb_string RESP_DEFAULT (of_fallback ofr) (pb_string RESP_SELECTED ?sel ?n)"
  have l: "pb_step ?w ?l (tool_fields_of (offered_items lay m ofr))"
    unfolding offered_items_def by (rule list_tools_step) simp
  have n: "pb_step ?l ?n (tool_fields_of (none_items appid ofr))"
    using pb_step_tool[of ?l] pb_step_refl[of ?l] l
    by (auto simp: none_items_def pb_step_def[of ?w] tool_fields_of_def)
  have "pb.writes 0 (\<lambda>w. pb_string RESP_DEFAULT (of_fallback ofr) (pb_string RESP_SELECTED ?sel w))
      (msg_bytes (opt_field RESP_SELECTED ?sel) @ msg_bytes (opt_field RESP_DEFAULT (of_fallback ofr)))"
    by (rule pb.writes_comp[OF writes_opt writes_opt[of 0]]) simp
  then have e: "pb_step ?n ?e (opt_field RESP_SELECTED ?sel @ opt_field RESP_DEFAULT (of_fallback ofr))"
    using n by (intro pb_step_writes) (simp_all add: pb_step_def)
  have "tools_body lay m appid ofr = (if \<not> pb_ok ?l then ?l else if \<not> pb_ok ?n then ?n else ?e)"
    by (simp only: tools_body_def Let_def)
  moreover have "reply_fields lay m appid ofr = tool_fields_of (offered_items lay m ofr) @ tool_fields_of (none_items appid ofr) @
      opt_field RESP_SELECTED ?sel @ opt_field RESP_DEFAULT (of_fallback ofr)"
    by (simp add: reply_fields_def tool_fields_of_append opt_field_def)
  moreover have "pb_step ?w ?n (tool_fields_of (offered_items lay m ofr) @ tool_fields_of (none_items appid ofr))"
    by (rule pb_step_trans[OF l n])
  moreover have "pb_step ?w ?e (tool_fields_of (offered_items lay m ofr) @ tool_fields_of (none_items appid ofr) @
      opt_field RESP_SELECTED ?sel @ opt_field RESP_DEFAULT (of_fallback ofr))"
    using pb_step_trans[OF l pb_step_trans[OF n e]] by simp
  ultimately show ?thesis using l by (auto simp: pb_step_def)
qed

lemma field_in_msg: "f \<in> set fs \<Longrightarrow> length (field_bytes f) \<le> length (msg_bytes fs)"
  by (induction fs) auto

lemma fields_ok:
  assumes "length (msg_bytes fs) < 2 ^ 64"
  shows "list_all field_ok fs"
proof -
  have "field_ok f" if "f \<in> set fs" for f
  proof (cases f)
    case (Bytes n bs)
    then have "length bs \<le> length (field_bytes f)" by (simp add: blob_bytes_def)
    then show ?thesis using field_in_msg[OF that] assms Bytes by (simp add: field_ok_def)
  qed (simp add: field_ok_def)
  then show ?thesis by (simp add: list_all_iff)
qed

section \<open>Lemmas: routes\<close>

lemma register_routes_wf:
  "routes_wf cl ui \<Longrightarrow> register_routes cl request response rs (ui, m) = (ui', m') \<Longrightarrow> routes_wf cl ui'"
proof (induction rs arbitrary: ui m)
  case (Cons r rs)
  obtain name h where r: "r = (name, h)" by (cases r)
  obtain ok ui1 m1 where one: "np_webui_register_route cl name request response h (ui, m) = (ok, ui1, m1)"
    by (metis prod_cases3)
  have wf: "routes_wf cl ui1" by (rule routes_wf_register[OF Cons.prems(1) one])
  then show ?case using Cons.IH[OF wf, of m1] Cons.prems(2) one r by (cases ok) auto
qed simp

lemma compatsvc_register_wf:
  assumes "routes_wf cl ui"
  shows "routes_wf cl (fst (snd (np_compatsvc_register cl mh slide text_base text_size (svc, ui, m))))"
proof -
  let ?vptr = "\<lambda>m t. np_rtti_vptr m mh slide text_base text_size t"
  show ?thesis
  proof (cases "svc_routes svc \<noteq> NP_COMPATSVC_UNTRIED \<or> g_registry ui = 0 \<or>
      ?vptr m TYPE_GET_REQUEST = 0 \<or> ?vptr m TYPE_GET_RESPONSE = 0")
    case True
    then show ?thesis using assms by (auto simp: np_compatsvc_register_def Let_def)
  next
    case False
    let ?req = "?vptr m TYPE_GET_REQUEST" and ?resp = "?vptr m TYPE_GET_RESPONSE"
    obtain ok1 ui1 m1 where r1: "np_webui_register_route cl ROUTE_GET_COMPAT_TOOLS ?req ?resp Get_compat_tools (ui, m) =
        (ok1, ui1, m1)" by (metis prod_cases3)
    have w1: "routes_wf cl ui1" by (rule routes_wf_register[OF assms r1])
    let ?sreq = "?vptr m1 TYPE_SPECIFY_REQUEST" and ?sresp = "?vptr m1 TYPE_SPECIFY_RESPONSE"
    show ?thesis
    proof (cases "?sreq = 0 \<or> ?sresp = 0")
      case True
      then show ?thesis using False r1 w1 by (auto simp: np_compatsvc_register_def Let_def)
    next
      case no: False
      obtain ok2 ui2 m2 where r2: "np_webui_register_route cl ROUTE_SPECIFY_COMPAT_TOOL ?sreq ?sresp Specify_compat_tool (ui1, m1) =
          (ok2, ui2, m2)" by (metis prod_cases3)
      obtain ui3 m3 where r3: "register_routes cl ?sreq ?sresp specify_routes (ui2, m2) = (ui3, m3)" by fastforce
      obtain ui4 m4 where r4: "register_routes cl ?req ?resp prefix_routes (ui3, m3) = (ui4, m4)" by fastforce
      have "routes_wf cl ui2" by (rule routes_wf_register[OF w1 r2])
      from register_routes_wf[OF register_routes_wf[OF this r3] r4] have "routes_wf cl ui4" .
      then show ?thesis using False no r1 r2 r3 r4
        by (simp add: np_compatsvc_register_def Let_def split: prod.split)
    qed
  qed
qed

section \<open>Properties\<close>

text \<open>C8. A reply that is built reads back, as a message of the page's interface, to exactly what was meant:
  a field for each tool offered, in the order of the manager, one for the choice of no tool where it is
  offered, the tool chosen and the one the app falls back on; each tool's entry reads back to its name,
  its label and its flags, and the reply stays in the room allocated for it.\<close>

theorem reply_reads_back:
  assumes "tools_answer fns mem_ok lay tls mgr request m = Reply body"
  shows "\<exists>ofr. tools_offer fns lay tls mgr (request_appid m request) m = Inr ofr \<and>
    read_message body = Some (reply_fields lay m (request_appid m request) ofr) \<and>
    list_all (\<lambda>it. read_message (msg_bytes (item_fields it)) = Some (item_fields it))
      (offered_items lay m ofr @ none_items (request_appid m request) ofr) \<and>
    length body \<le> (length (of_tools ofr) + 3) * TOOL_MAX"
proof -
  let ?appid = "request_appid m request"
  obtain ofr where ofr: "tools_offer fns lay tls mgr ?appid m = Inr ofr"
    using assms by (auto simp: tools_answer_def Let_def split: if_splits sum.splits)
  have body: "pb_ok (tools_body lay m ?appid ofr)" "body = pb_buf (tools_body lay m ?appid ofr)"
    using assms ofr by (auto simp: tools_answer_def Let_def split: if_splits)
  note step = tools_body_step[of ofr lay m ?appid]
  have bytes: "body = msg_bytes (reply_fields lay m ?appid ofr)" and room: "length body \<le> (length (of_tools ofr) + 3) * TOOL_MAX"
    using step body by (auto simp: pb_step_def)
  have "length (of_tools ofr) < 2 ^ 32"
    using ofr unsigned_less[of "load32 m (mgr + COMPAT_MANAGER_TOOL_COUNT_OFF)"]
    by (auto simp: tools_offer_def Let_def split: if_splits)
  then have small: "length (msg_bytes (reply_fields lay m ?appid ofr)) < 2 ^ 64"
    using room bytes by (simp add: TOOL_MAX_def)
  have items: "read_message (msg_bytes (item_fields it)) = Some (item_fields it)"
    if "it \<in> set (offered_items lay m ofr @ none_items ?appid ofr)" for it
  proof -
    have "Bytes RESP_TOOLS (msg_bytes (item_fields it)) \<in> set (reply_fields lay m ?appid ofr)"
      using that by (auto simp: reply_fields_def tool_fields_of_def)
    from field_in_msg[OF this] have "length (msg_bytes (item_fields it)) < 2 ^ 64"
      using small by (simp add: blob_bytes_def del: item_fields.simps)
    from read_message_fields[OF fields_ok[OF this]] show ?thesis by (simp add: msg_bytes_def)
  qed
  have "read_message body = Some (reply_fields lay m ?appid ofr)"
    using read_message_fields[OF fields_ok[OF small]] bytes by (simp add: msg_bytes_def)
  then show ?thesis using ofr room items by (auto simp: list_all_iff simp del: item_fields.simps)
qed

text \<open>A manager with one tool, whose name is a, asked about no app in particular.\<close>

definition sample_mgr :: mem where
  "sample_mgr = word_mem [(0x1320, 0x2000), (0x1330, 1), (0x2040, 0x4000), (0x2080, 1), (0x4000, 97)]"

definition no_fns :: client_fns where
  "no_fns = \<lparr>cf_valid_platforms = None, cf_find_tool = None, cf_chosen_tool = None, cf_find_mapping = None, cf_wildcard = None,
     cf_set_mapping = None, cf_register = None, cf_free = None\<rparr>"

definition no_tools :: tool_list where
  "no_tools = \<lparr>tl_tools = [], tl_cap = 0, tl_present = False\<rparr>"

definition sample_offer :: offer where
  "sample_offer = \<lparr>of_tools = [0x2000], of_platforms = 1, of_bypass = False, of_active = None, of_chosen = None,
     of_fallback = None\<rparr>"

lemma sample_mgr_words:
  "load64 sample_mgr 0x1320 = 0x2000" "load32 sample_mgr 0x1330 = 1" "load64 sample_mgr 0x2040 = 0x4000"
  "load32 sample_mgr 0x2080 = 1" "load32 sample_mgr 0x2024 = 0" "load64 sample_mgr 0x2050 = 0"
  "load32 sample_mgr 0x2038 = 0" "load32 sample_mgr 0x3010 = 0" "sample_mgr 0x17B2 = 0"
  "sample_mgr 0x4000 = 97" "sample_mgr 0x4001 = 0"
  by (simp_all add: sample_mgr_def load32_word_mem load64_word_mem le64_def) (simp_all add: word_mem_def)

lemma sample_mgr_name: "mem_cstr sample_mgr 0x4000 = [97]"
  by (rule mem_cstr_strcmp) (simp_all add: sample_mgr_words)

lemma sample_mgr_tool:
  "tool_name sample_mgr 0x2000 = Some [97]" "offered initial_layout sample_mgr 0x2000 1 False"
  "opt_cstr sample_mgr (load64 sample_mgr (0x2000 + COMPAT_TOOL_DISPLAY_OFF)) = None" "priority sample_mgr 0x2000 = 0"
  by (simp_all add: tool_name_def opt_cstr_def sample_mgr_words sample_mgr_name COMPAT_TOOL_NAME_OFF_def offered_def
      tool_field_def np_compat_tool_off_def COMPAT_TOOL_PLATFORM_OFF_def COMPAT_TOOL_INSTALL_OFF_def
      COMPAT_TOOL_GATE_FLAGS_OFF_def initial_layout_def COMPAT_TOOL_DISPLAY_OFF_def priority_def COMPAT_TOOL_PRIORITY_OFF_def)

lemma sample_mgr_offer: "tools_offer no_fns initial_layout no_tools 0x1000 0 sample_mgr = Inr sample_offer"
proof -
  have "find_tool initial_layout sample_mgr no_tools 0x1000 TOOL_DIR_NAME = 0"
    by (simp add: find_tool_def sample_mgr_words tool_at_def COMPAT_MANAGER_TOOL_ARRAY_OFF_def
        COMPAT_MANAGER_TOOL_COUNT_OFF_def COMPAT_TOOL_NAME_OFF_def TOOL_DIR_NAME_def cstr_def no_tools_def)
  then show ?thesis
    by (simp add: tools_offer_def sample_mgr_words COMPAT_MANAGER_TOOL_ARRAY_OFF_def COMPAT_MANAGER_TOOL_COUNT_OFF_def
        np_compat_manager_tools_max_def COMPAT_MANAGER_TOOLS_HEADROOM_def initial_layout_def compat_offsets tool_at_def
        np_compat_tool_for_app_def np_compat_chosen_tool_def np_compat_wildcard_mapping_def np_compat_registered_tool_def
        no_fns_def no_tools_def tool_name_def sample_offer_def PLATFORMS_UNSCOPED_def COMPAT_PLATFORM_WINDOWS_def)
qed

lemma sample_mgr_body:
  "tools_body initial_layout sample_mgr 0 sample_offer = \<lparr>pb_buf = [10, 11, 10, 1, 97, 24, 0, 32, 0, 40, 0, 48, 0, 26, 0],
     pb_cap = 2048, pb_ok = True\<rparr>"
proof -
  have "pb_string RESP_DEFAULT None (pb_string RESP_SELECTED (Some [])
      (pb_tool RESP_TOOLS [97] None False False \<lparr>pb_buf = [], pb_cap = 2048, pb_ok = True\<rparr>)) =
    \<lparr>pb_buf = [10, 11, 10, 1, 97, 24, 0, 32, 0, 40, 0, 48, 0, 26, 0], pb_cap = 2048, pb_ok = True\<rparr>"
    "pb_ok (pb_tool RESP_TOOLS [97] None False False \<lparr>pb_buf = [], pb_cap = 2048, pb_ok = True\<rparr>)"
    by code_simp+
  then show ?thesis
    by (simp add: tools_body_def sample_offer_def sample_mgr_tool TOOL_MAX_def Let_def)
qed

theorem reply_reads_back_witness:
  "read_message [10, 11, 10, 1, 97, 24, 0, 32, 0, 40, 0, 48, 0, 26, 0] =
     Some (reply_fields initial_layout sample_mgr 0 sample_offer)"
proof -
  have "request_appid sample_mgr 0x3000 = 0"
    by (simp add: request_appid_def sample_mgr_words REQ_HAS_BITS_OFF_def)
  then have "tools_answer no_fns (\<lambda>_. True) initial_layout no_tools 0x1000 0x3000 sample_mgr =
      Reply [10, 11, 10, 1, 97, 24, 0, 32, 0, 40, 0, 48, 0, 26, 0]"
    by (simp add: tools_answer_def sample_mgr_offer sample_mgr_body)
  from reply_reads_back[OF this] show ?thesis
    using \<open>request_appid sample_mgr 0x3000 = 0\<close> sample_mgr_offer by auto
qed

text \<open>C37. A rebuild is started only for an app that needs one, has the helper app and neither a server nor a
  rebuild running, and only under the lock of the prefix, which is let go of at the end; the page is
  told so exactly when the process did start, and otherwise the record of the rebuild is taken back.\<close>

theorem rebuild_only_under_lock:
  "case rebuild_steps env rb st keep_backup of (json, events) \<Rightarrow>
     if \<exists>argv e. Spawn argv e \<in> set events
     then st_needs_rebuild st \<and> \<not> np_prefix_rebuilding st \<and> \<not> st_running st \<and> st_app st \<noteq> [] \<and>
       claim_loop (rb_tries rb) 0 10 \<and>
       hd events = Lock (c_copy PATH_MAX (st_compatdata st @ cstr ''/.notproton-rebuild.lock'')) \<and> last events = Unlock \<and>
       (if rb_runs rb (rebuild_argv st keep_backup) then json = c_copy 64 (json_done ''started'')
        else Remove (c_copy PATH_MAX (st_compatdata st @ cstr ''/notproton-rebuild'')) \<in> set events \<and>
          json = c_copy 64 (json_error ''spawn''))
     else \<exists>why. json = c_copy 64 (json_error why) \<or> json = json_error why"
  by (auto simp: rebuild_steps_def rebuild_refused_def Let_def split: if_splits option.splits)

text \<open>C39. The page service has room for eight routes and registers nine: from a client that serves none of
  them yet, no run of the registration ends with all nine served.\<close>

definition page_routes :: "cstring list" where
  "page_routes = ROUTE_GET_COMPAT_TOOLS # ROUTE_SPECIFY_COMPAT_TOOL # map fst specify_routes @ map fst prefix_routes"

lemma page_routes_distinct: "distinct page_routes" "length page_routes = 9"
  by (simp_all add: page_routes_def specify_routes_def prefix_routes_def cstr_def
      ROUTE_GET_COMPAT_TOOLS_def ROUTE_SPECIFY_COMPAT_TOOL_def ROUTE_SET_DEFAULTS_def ROUTE_SET_TOOL_DEFAULTS_def
      ROUTE_APPLY_TOOL_DEFAULTS_def ROUTE_PREFIX_STATE_def ROUTE_REBUILD_def ROUTE_BACKUP_REBUILD_def ROUTE_OPEN_LOG_def)

theorem one_route_too_many:
  assumes "routes_wf cl ui" "g_routes ui = []"
  shows "\<not> set page_routes \<subseteq> set (map rt_name (g_routes (fst (snd
    (np_compatsvc_register cl mh slide text_base text_size (svc, ui, m))))))"
proof
  let ?rs = "g_routes (fst (snd (np_compatsvc_register cl mh slide text_base text_size (svc, ui, m))))"
  assume "set page_routes \<subseteq> set (map rt_name ?rs)"
  then have "card (set page_routes) \<le> card (set (map rt_name ?rs))" by (intro card_mono) simp_all
  also have "\<dots> \<le> length ?rs" using card_length[of "map rt_name ?rs"] by simp
  also have "\<dots> \<le> 8" using compatsvc_register_wf[OF assms(1)] by (auto simp: routes_wf_def MAX_ROUTES_def)
  finally show False using page_routes_distinct distinct_card[of page_routes] by simp
qed

definition fresh_ui :: "route_handler webui_state" where
  "fresh_ui = \<lparr>g_registry = 0x200000000, g_register_fn = 0x100000040, g_send_response = 0x100000080, g_parse = 0,
     g_text_base = 0x100000000, g_text_end = 0x100001000, g_const_base = 0, g_const_end = 0, g_text_seg_base = 0,
     g_text_seg_size = 0, g_notify_slot = None, notify_worked_out = False, g_routes = [], g_stock_factory = 0,
     g_clone = [], g_route_flags = 0\<rparr>"

theorem one_route_too_many_witness:
  "\<not> set page_routes \<subseteq> set (map rt_name (g_routes (fst (snd
     (np_compatsvc_register sample_client 0x100000000 0 0x100000000 0x1000
       (\<lparr>g_state_changed = 0, svc_routes = NP_COMPATSVC_UNTRIED\<rparr>, fresh_ui, \<lambda>_. 0))))))"
  by (rule one_route_too_many) (simp_all add: fresh_ui_def routes_wf_def clone_wf_def)

end
