(* ===== verification/Hook_Compat.thy ===== *)
theory Hook_Compat
  imports Compat_Svc Shortcuts Hooks
begin

text \<open>
  The hooks on the client's tool manager, \<^verbatim>\<open>src/dylib/hooks/hook_compat.c\<close>: the manager is switched on and
  given the tools, an app that only runs on Windows gets one by default, a tool that was downloaded is
  redirected to the local one. The originals are parameters, absent when a hook did not land.
\<close>

section \<open>The manager\<close>

definition hook_CCompatManager_Init ::
  "(u64 \<Rightarrow> u64 \<Rightarrow> mem \<Rightarrow> u64 \<times> mem) option \<Rightarrow> compat_layout \<Rightarrow> u64 \<Rightarrow> u64 \<Rightarrow> mem \<Rightarrow> u64 \<times> mem" where
  "hook_CCompatManager_Init orig lay self arg1 m = (case orig of
     None \<Rightarrow> (0, m)
   | Some f \<Rightarrow> (case f self arg1 m of (ret, m) \<Rightarrow> (ret, np_compat_force_enable lay self m)))"

definition hook_CCompatManager_BIsEnabled ::
  "(u64 \<Rightarrow> u32 \<Rightarrow> mem \<Rightarrow> bool \<times> mem) option \<Rightarrow> client_fns \<Rightarrow> (nat \<Rightarrow> u64) \<Rightarrow> compat_layout \<Rightarrow> (cstring \<Rightarrow> u64) \<Rightarrow> tool_list \<Rightarrow>
     u64 \<Rightarrow> u32 \<Rightarrow> manager_state \<times> mem \<Rightarrow> bool \<times> manager_state \<times> mem" where
  "hook_CCompatManager_BIsEnabled orig fns calloc lay at tls self appid s = (case s of (st, m) \<Rightarrow>
     (case orig of
        None \<Rightarrow> (False, st, m)
      | Some f \<Rightarrow>
          (case np_compat_register_crossover fns calloc lay at tls self (st, np_compat_force_enable lay self m) of
             (st, m) \<Rightarrow> (case f self appid m of (ret, m) \<Rightarrow> (ret, st, m)))))"

text \<open>The functions found at install time; \<open>plat_free\<close> is what \<^verbatim>\<open>dlsym\<close> found.\<close>

definition np_hooks_compat_set_helpers ::
  "(u64 \<Rightarrow> u64 \<Rightarrow> mem \<Rightarrow> mem) option \<Rightarrow> (u64 \<Rightarrow> mem \<Rightarrow> mem) option \<Rightarrow> (mem \<Rightarrow> u64 \<Rightarrow> u32 \<Rightarrow> u32) option \<Rightarrow>
     (mem \<Rightarrow> u64 \<Rightarrow> u32 \<Rightarrow> u64) option \<Rightarrow> (u64 \<Rightarrow> u32 \<Rightarrow> cstring \<Rightarrow> cstring \<Rightarrow> u32 \<Rightarrow> mem \<Rightarrow> mem) option \<Rightarrow>
     (mem \<Rightarrow> u64 \<Rightarrow> u32 \<Rightarrow> u64) option \<Rightarrow> (mem \<Rightarrow> u64 \<Rightarrow> u32 \<Rightarrow> u64) option \<Rightarrow> client_fns \<Rightarrow> client_fns" where
  "np_hooks_compat_set_helpers yld_register_tool plat_free get_valid_platforms find_tool_for_target_app
       set_compat_tool_mapping find_mapping get_wildcard_mapping fns =
     fns\<lparr>cf_register := yld_register_tool, cf_free := plat_free, cf_valid_platforms := get_valid_platforms,
        cf_find_tool := find_tool_for_target_app, cf_set_mapping := set_compat_tool_mapping,
        cf_find_mapping := find_mapping, cf_wildcard := get_wildcard_mapping\<rparr>"

definition np_hooks_compat_publish_originals :: "(mem \<Rightarrow> u64 \<Rightarrow> u32 \<Rightarrow> u64) option \<Rightarrow> client_fns \<Rightarrow> client_fns" where
  "np_hooks_compat_publish_originals orig fns = fns\<lparr>cf_chosen_tool := orig\<rparr>"

section \<open>The tool of an app\<close>

definition hook_FindToolForTargetApp ::
  "(mem \<Rightarrow> u64 \<Rightarrow> u32 \<Rightarrow> u64) option \<Rightarrow> client_fns \<Rightarrow> compat_layout \<Rightarrow> tool_list \<Rightarrow> u64 \<Rightarrow> u32 \<Rightarrow> mem \<Rightarrow> u64" where
  "hook_FindToolForTargetApp orig fns lay tls self appid m = (case orig of
     None \<Rightarrow> 0
   | Some f \<Rightarrow>
       let tool = f m self appid in
       if tool \<noteq> 0 \<or> appid = 0 then tool
       else if np_compat_app_mapping fns m self appid = Some NP_COMPAT_TOOL_NONE then 0
       else if \<not> np_compat_would_force fns m self appid then 0
       else np_compat_registered_tool lay m tls self)"

text \<open>\<open>appid\<close> and \<open>fallback\<close> are pointers.\<close>

definition hook_WindowsOnlyLookup ::
  "(mem \<Rightarrow> u64 \<Rightarrow> u64 \<Rightarrow> u64 \<Rightarrow> u64) option \<Rightarrow> (u64 \<Rightarrow> nat \<Rightarrow> nat option) \<Rightarrow> compat_layout \<Rightarrow> u64 \<Rightarrow> u64 \<Rightarrow> u64 \<Rightarrow> u64 \<Rightarrow>
     shortcuts_state \<Rightarrow> mem \<Rightarrow> u64 \<times> shortcuts_state" where
  "hook_WindowsOnlyLookup orig vm_read lay mgr table appid fallback sc m = (case orig of
     None \<Rightarrow> (if fallback \<noteq> 0 then ucast (m fallback) else 0, sc)
   | Some f \<Rightarrow>
       let found = f m table appid fallback in
       if (ucast found :: u32) \<noteq> 0 \<or> appid = 0 then (found, sc)
       else if \<not> np_compat_is_windows_only_table lay mgr table then (found, sc)
       else case np_usershortcuts_runs_exe vm_read m (np_compat_user m mgr) (load32 m appid) sc of
           (runs, sc) \<Rightarrow> (if runs then 1 else 0, sc))"

definition hook_InternalSpecifyCompatTool ::
  "(u64 \<Rightarrow> u64 \<Rightarrow> cstring \<Rightarrow> u64 \<Rightarrow> int \<Rightarrow> mem \<Rightarrow> u64 \<times> mem) option \<Rightarrow> webui_client \<Rightarrow> svc_state \<Rightarrow> u64 \<Rightarrow> u64 \<Rightarrow> cstring \<Rightarrow> u64 \<Rightarrow> int \<Rightarrow>
     'h webui_state \<times> mem \<Rightarrow> u64 \<times> 'h webui_state \<times> mem" where
  "hook_InternalSpecifyCompatTool orig cl svc self appid name config prio s = (case s of (ui, m) \<Rightarrow>
     (case orig of
        None \<Rightarrow> (0, ui, m)
      | Some f \<Rightarrow> (case f self appid name config prio m of
          (result, m) \<Rightarrow> (result, np_compatsvc_state_changed cl svc (ui, m)))))"

section \<open>Instructions of the client\<close>

text \<open>The registers of the client at an instruction.\<close>

type_synonym arm64_ctx = "nat \<Rightarrow> u64"

definition instrument_oslist_override_gate :: "arm64_ctx \<Rightarrow> arm64_ctx" where
  "instrument_oslist_override_gate x = (if x 0 \<noteq> 0 then x else x(0 := 1))"

definition TOOL_VERSION_OFF :: u64 where "TOOL_VERSION_OFF = 0x04"
definition TOOL_COMMANDLINE_OFF :: u64 where "TOOL_COMMANDLINE_OFF = 0x18"
definition TOOL_DEPENDENCY_OFF :: u64 where "TOOL_DEPENDENCY_OFF = 0x20"

definition np_compat_tool_commandline :: cstring where
  "np_compat_tool_commandline = cstr ''/run %verb%''"

text \<open>\<open>at\<close> is where a string lies in our memory.\<close>

definition redirect_tool :: "compat_layout \<Rightarrow> (cstring \<Rightarrow> u64) \<Rightarrow> cstring \<Rightarrow> u64 \<Rightarrow> mem \<Rightarrow> mem" where
  "redirect_tool lay at dir tool m =
     (let m = store32 m (tool + TOOL_VERSION_OFF) 2;
          m = store32 m (tool + TOOL_DEPENDENCY_OFF) 0;
          m = store32 m (tool_field lay tool COMPAT_TOOL_APPID_OFF) 0;
          m = store64 m (tool_field lay tool COMPAT_TOOL_INSTALL_OFF) (at dir)
      in store64 m (tool + TOOL_COMMANDLINE_OFF) (at np_compat_tool_commandline))"

definition instrument_resolver_local_redirect ::
  "compat_layout \<Rightarrow> (cstring \<Rightarrow> u64) \<Rightarrow> cstring option \<Rightarrow> tool_list \<Rightarrow> arm64_ctx \<Rightarrow> mem \<Rightarrow> mem" where
  "instrument_resolver_local_redirect lay at home tls x m =
     (let tool = x 0 in
      if tool = 0 \<or> \<not> np_plausible_ptr tool then m
      else if load32 m (tool_field lay tool COMPAT_TOOL_APPID_OFF) = 0 then m
      else case np_compat_tool_dir home tls of None \<Rightarrow> m | Some dir \<Rightarrow> redirect_tool lay at dir tool m)"

section \<open>Ending an app\<close>

text \<open>The result, and the processes that were sent a signal.\<close>

definition hook_TerminateProcessByPid :: "(int \<Rightarrow> int) option \<Rightarrow> (int \<Rightarrow> bool) \<Rightarrow> int \<Rightarrow> int \<times> int list" where
  "hook_TerminateProcessByPid orig kill pid =
     (let ret = (case orig of None \<Rightarrow> 0 | Some f \<Rightarrow> f pid) in
      if ret = 0 \<and> pid > 0 then if kill pid then (1, [pid]) else (ret, []) else (ret, []))"

section \<open>The table of hooks\<close>

definition compat_entry :: "string \<Rightarrow> np_patch_mode \<Rightarrow> np_patch_entry" where
  "compat_entry label mode = \<lparr>pe_label = cstr label, pe_signature = Some (cstr label), pe_address = 0,
     pe_mode = mode, pe_optional = False\<rparr>"

definition np_hooks_compat_defs :: "np_patch_entry list" where
  "np_hooks_compat_defs =
     [compat_entry ''CCompatManager::Init'' NP_PATCH_REPLACE,
      compat_entry ''CCompatManager::BIsCompatibilityToolEnabled'' NP_PATCH_REPLACE,
      compat_entry ''CCompatManager::FindToolForTargetApp'' NP_PATCH_REPLACE,
      compat_entry ''CCompatManager::WindowsOnlyLookup'' NP_PATCH_REPLACE,
      compat_entry ''CCompatManager::InternalSpecifyCompatTool'' NP_PATCH_REPLACE,
      compat_entry ''CCompatManager::GetOSListOverrideForApp.oslist_gate'' NP_PATCH_PREHOOK,
      compat_entry ''CCompatManager::ResolveCompatToolForApp.local_redirect'' NP_PATCH_PREHOOK,
      compat_entry ''CAppManager::TerminateProcessByPid'' NP_PATCH_REPLACE]"

section \<open>Lemmas\<close>

lemma find_tool_some:
  assumes "find_tool lay m tls mgr wanted = entry" "entry \<noteq> 0"
  shows "\<exists>i < unat (load32 m (mgr + COMPAT_MANAGER_TOOL_COUNT_OFF)).
    entry = tool_at lay (load64 m (mgr + COMPAT_MANAGER_TOOL_ARRAY_OFF)) i \<and>
    strcmp_eq m (load64 m (entry + COMPAT_TOOL_NAME_OFF)) wanted"
proof -
  let ?hit = "\<lambda>entry. let name = load64 m (entry + COMPAT_TOOL_NAME_OFF) in name \<noteq> 0 \<and> strcmp_eq m name wanted"
  let ?tools = "map (tool_at lay (load64 m (mgr + COMPAT_MANAGER_TOOL_ARRAY_OFF)))
    [0..<unat (load32 m (mgr + COMPAT_MANAGER_TOOL_COUNT_OFF))]"
  have "find ?hit ?tools = Some entry"
    using assms by (auto simp: find_tool_def Let_def split: if_splits option.splits)
  then have "?hit entry" "entry \<in> set ?tools" by (auto simp: find_Some_iff)
  then show ?thesis by (auto simp: Let_def)
qed

text \<open>The names a tool of the manager may have to be ours.\<close>

definition our_names :: "tool_list \<Rightarrow> cstring list" where
  "our_names tls = (if tl_tools tls = [] then [TOOL_DIR_NAME] else map te_name (tl_tools tls))"

lemma registered_tool_some:
  assumes "np_compat_registered_tool lay m tls mgr = entry" "entry \<noteq> 0"
  shows "\<exists>name \<in> set (our_names tls). find_tool lay m tls mgr name = entry"
proof -
  have loop: "registered_loop lay m tls mgr ts = entry \<Longrightarrow> \<exists>t \<in> set ts. find_tool lay m tls mgr (te_name t) = entry" for ts
    using assms(2) by (induction ts) (auto simp: Let_def split: if_splits)
  show ?thesis using assms loop[of "tl_tools tls"]
    by (auto simp: np_compat_registered_tool_def our_names_def split: if_splits)
qed

text \<open>The entries of a manager, none where its list cannot be one, and those of them that are ours: by the
  order of our list, and of the manager's where two have the same name.\<close>

definition manager_tools :: "compat_layout \<Rightarrow> mem \<Rightarrow> tool_list \<Rightarrow> u64 \<Rightarrow> u64 list" where
  "manager_tools lay m tls mgr =
     (let array = load64 m (mgr + COMPAT_MANAGER_TOOL_ARRAY_OFF);
          count = unat (load32 m (mgr + COMPAT_MANAGER_TOOL_COUNT_OFF))
      in if mgr = 0 \<or> array = 0 \<or> count > np_compat_manager_tools_max tls then []
         else map (tool_at lay array) [0..<count])"

definition tool_named :: "mem \<Rightarrow> cstring \<Rightarrow> u64 \<Rightarrow> bool" where
  "tool_named m name entry \<longleftrightarrow> load64 m (entry + COMPAT_TOOL_NAME_OFF) \<noteq> 0 \<and>
     strcmp_eq m (load64 m (entry + COMPAT_TOOL_NAME_OFF)) name"

definition our_tools :: "compat_layout \<Rightarrow> mem \<Rightarrow> tool_list \<Rightarrow> u64 \<Rightarrow> u64 list" where
  "our_tools lay m tls mgr = concat (map (\<lambda>name. filter (tool_named m name) (manager_tools lay m tls mgr)) (our_names tls))"

lemma find_tool_entries:
  assumes "mgr \<noteq> 0"
  shows "find_tool lay m tls mgr name = (case filter (tool_named m name) (manager_tools lay m tls mgr) of [] \<Rightarrow> 0 | e # _ \<Rightarrow> e)"
proof -
  have first: "(case find P es of Some e \<Rightarrow> e | None \<Rightarrow> 0) = (case filter P es of [] \<Rightarrow> 0 | e # _ \<Rightarrow> e)" for P and es :: "u64 list"
    by (induction es) auto
  show ?thesis
    unfolding find_tool_def tool_named_def[abs_def] manager_tools_def Let_def using assms by (simp add: first del: upt_Suc)
qed

lemma registered_tool_entries:
  assumes "mgr \<noteq> 0" "0 \<notin> set (manager_tools lay m tls mgr)"
  shows "np_compat_registered_tool lay m tls mgr = (case our_tools lay m tls mgr of [] \<Rightarrow> 0 | e # _ \<Rightarrow> e)"
proof -
  let ?hits = "\<lambda>name. filter (tool_named m name) (manager_tools lay m tls mgr)"
  note entries = find_tool_entries[OF assms(1)]
  have "0 \<notin> set (?hits name)" for name using assms(2) by auto
  then have nonzero: "e \<noteq> 0" if "?hits name = e # es" for name e es using that by (metis list.set_intros(1))
  have "registered_loop lay m tls mgr ts =
      (case concat (map ?hits (map te_name ts)) of [] \<Rightarrow> 0 | e # _ \<Rightarrow> e)" for ts
  proof (induction ts)
    case (Cons t ts)
    then show ?case using nonzero[of "te_name t"]
      by (cases "?hits (te_name t)") (simp_all add: Let_def entries)
  qed simp
  then show ?thesis
    using assms(1) by (simp add: np_compat_registered_tool_def our_tools_def our_names_def entries)
qed

definition redirect_fields :: "compat_layout \<Rightarrow> (cstring \<Rightarrow> u64) \<Rightarrow> cstring \<Rightarrow> (nat \<times> field) list" where
  "redirect_fields lay at dir = (let off = (\<lambda>ref. unat (np_compat_tool_off lay ref)) in
     [(4, F32 2), (32, F32 0), (off COMPAT_TOOL_APPID_OFF, F32 0), (off COMPAT_TOOL_INSTALL_OFF, F64 (at dir)),
      (24, F64 (at np_compat_tool_commandline))])"

lemma redirect_tool_stores: "redirect_tool lay at dir tool m = store_fields tool (redirect_fields lay at dir) m"
  by (simp add: redirect_tool_def redirect_fields_def tool_field_nat Let_def TOOL_VERSION_OFF_def TOOL_DEPENDENCY_OFF_def
      TOOL_COMMANDLINE_OFF_def)

lemma tool_off_grown:
  assumes "g_tool_shift lay < 0x40000000" "off = 0x58 \<or> off = 0x60"
  shows "unat (np_compat_tool_off lay off) = unat off + unat (g_tool_shift lay)"
proof -
  have "unat (g_tool_shift lay) < 0x40000000" using assms(1) by (simp add: word_less_nat_alt)
  then have "unat (off + g_tool_shift lay) = unat off + unat (g_tool_shift lay)"
    using assms(2) by (subst unat_add_lem[THEN iffD1]) auto
  then show ?thesis using assms(2) by (auto simp: np_compat_tool_off_def compat_offsets)
qed

lemma redirect_fields_apart:
  assumes "g_tool_shift lay < 0x40000000"
  shows "sorted_wrt fields_apart (redirect_fields lay at dir)" "\<forall>(b, v) \<in> set (redirect_fields lay at dir). b < 2 ^ 31"
proof -
  have "unat (g_tool_shift lay) < 0x40000000" using assms by (simp add: word_less_nat_alt)
  then show "sorted_wrt fields_apart (redirect_fields lay at dir)" "\<forall>(b, v) \<in> set (redirect_fields lay at dir). b < 2 ^ 31"
    by (simp_all add: redirect_fields_def compat_offsets tool_off_grown[OF assms] fields_apart_def)
qed

section \<open>Properties\<close>

text \<open>C25. A tool by default, on every branch: what the client resolved is kept where it resolved a tool, for
  no app, for an app that is set to use none and for one that does not run on Windows only. In every other
  case (an app that can run on Windows and not on macOS, and no tool resolved) the answer is the first
  tool of the project's list the manager holds, and none where it holds none of them; a tool that was put
  in is always one of the manager's with a name of the list.\<close>

theorem default_tool_policy:
  assumes "answer = hook_FindToolForTargetApp (Some f) fns lay tls self appid m"
    and "windows_only \<longleftrightarrow> np_compat_valid_platforms fns m self appid AND COMPAT_PLATFORM_WINDOWS \<noteq> 0 \<and>
      np_compat_valid_platforms fns m self appid AND COMPAT_PLATFORM_MACOS = 0"
  shows "(f m self appid \<noteq> 0 \<or> appid = 0 \<or> np_compat_app_mapping fns m self appid = Some NP_COMPAT_TOOL_NONE \<or>
      \<not> windows_only \<longrightarrow> answer = f m self appid) \<and>
    (f m self appid = 0 \<and> appid \<noteq> 0 \<and> np_compat_app_mapping fns m self appid \<noteq> Some NP_COMPAT_TOOL_NONE \<and>
      windows_only \<and> 0 \<notin> set (manager_tools lay m tls self) \<longrightarrow>
      answer = (case our_tools lay m tls self of [] \<Rightarrow> 0 | e # _ \<Rightarrow> e)) \<and>
    (answer \<noteq> f m self appid \<longrightarrow>
      (\<exists>i < unat (load32 m (self + COMPAT_MANAGER_TOOL_COUNT_OFF)).
         answer = tool_at lay (load64 m (self + COMPAT_MANAGER_TOOL_ARRAY_OFF)) i) \<and>
      (\<exists>name \<in> set (our_names tls). strcmp_eq m (load64 m (answer + COMPAT_TOOL_NAME_OFF)) name))"
proof (intro conjI impI)
  have self: "self \<noteq> 0" if windows_only
    using that assms(2) by (auto simp: np_compat_valid_platforms_def split: option.splits)
  have force: "np_compat_would_force fns m self appid \<longleftrightarrow> appid \<noteq> 0 \<and> windows_only"
    using self unfolding np_compat_would_force_def Let_def assms(2)[symmetric] by auto
  show "answer = f m self appid"
    if "f m self appid \<noteq> 0 \<or> appid = 0 \<or> np_compat_app_mapping fns m self appid = Some NP_COMPAT_TOOL_NONE \<or> \<not> windows_only"
    using that assms(1) force by (auto simp: hook_FindToolForTargetApp_def Let_def)
  show "answer = (case our_tools lay m tls self of [] \<Rightarrow> 0 | e # _ \<Rightarrow> e)"
    if "f m self appid = 0 \<and> appid \<noteq> 0 \<and> np_compat_app_mapping fns m self appid \<noteq> Some NP_COMPAT_TOOL_NONE \<and>
      windows_only \<and> 0 \<notin> set (manager_tools lay m tls self)"
    using that assms(1) force self registered_tool_entries[of self lay m tls]
    by (simp add: hook_FindToolForTargetApp_def)
  assume "answer \<noteq> f m self appid"
  then have r: "np_compat_registered_tool lay m tls self = answer" "answer \<noteq> 0"
    using assms(1) by (auto simp: hook_FindToolForTargetApp_def Let_def split: if_splits)
  from registered_tool_some[OF this] obtain name where
    n: "name \<in> set (our_names tls)" "find_tool lay m tls self name = answer" by blast
  note some = find_tool_some[OF n(2) r(2)]
  then show "\<exists>i < unat (load32 m (self + COMPAT_MANAGER_TOOL_COUNT_OFF)).
      answer = tool_at lay (load64 m (self + COMPAT_MANAGER_TOOL_ARRAY_OFF)) i" by blast
  from some n(1) show "\<exists>name \<in> set (our_names tls). strcmp_eq m (load64 m (answer + COMPAT_TOOL_NAME_OFF)) name"
    by blast
qed

text \<open>A tool that was downloaded is redirected to the local one in every field the launch reads, and only
  once: it counts as local from then on, and is left alone.\<close>

theorem redirected_tool_is_local:
  assumes "g_tool_shift lay < 0x40000000" "np_compat_tool_dir home tls = Some dir" "np_plausible_ptr (x 0)" "x 0 \<noteq> 0"
    and "load32 m (tool_field lay (x 0) COMPAT_TOOL_APPID_OFF) \<noteq> 0"
    and "m' = instrument_resolver_local_redirect lay at home tls x m"
  shows "has_field m' (x 0 + TOOL_VERSION_OFF) (F32 2) \<and> has_field m' (x 0 + TOOL_DEPENDENCY_OFF) (F32 0) \<and>
    has_field m' (x 0 + TOOL_COMMANDLINE_OFF) (F64 (at np_compat_tool_commandline)) \<and>
    has_field m' (tool_field lay (x 0) COMPAT_TOOL_INSTALL_OFF) (F64 (at dir)) \<and>
    has_field m' (tool_field lay (x 0) COMPAT_TOOL_APPID_OFF) (F32 0) \<and>
    instrument_resolver_local_redirect lay at home tls x m' = m'"
proof -
  have m': "m' = store_fields (x 0) (redirect_fields lay at dir) m"
    using assms by (simp add: instrument_resolver_local_redirect_def redirect_tool_stores)
  have r: "has_field m' (x 0 + of_nat a) w" if "(a, w) \<in> set (redirect_fields lay at dir)" for a w
    unfolding m' by (rule store_fields_read[OF redirect_fields_apart[OF assms(1)] that])
  have c: "x 0 + TOOL_VERSION_OFF = x 0 + of_nat 4" "x 0 + TOOL_DEPENDENCY_OFF = x 0 + of_nat 32"
    "x 0 + TOOL_COMMANDLINE_OFF = x 0 + of_nat 24"
    by (simp_all add: TOOL_VERSION_OFF_def TOOL_DEPENDENCY_OFF_def TOOL_COMMANDLINE_OFF_def)
  have "has_field m' (tool_field lay (x 0) COMPAT_TOOL_APPID_OFF) (F32 0)"
    unfolding tool_field_nat by (rule r) (simp add: redirect_fields_def)
  then have "instrument_resolver_local_redirect lay at home tls x m' = m'"
    by (simp add: instrument_resolver_local_redirect_def Let_def)
  then show ?thesis unfolding c tool_field_nat
    by (intro conjI r) (simp_all add: redirect_fields_def)
qed

theorem redirected_tool_is_local_witness:
  "instrument_resolver_local_redirect initial_layout (\<lambda>s. of_nat (length s)) (Some (cstr ''/h'')) no_tools (\<lambda>_. 0x200000000)
     (instrument_resolver_local_redirect initial_layout (\<lambda>s. of_nat (length s)) (Some (cstr ''/h'')) no_tools (\<lambda>_. 0x200000000) (\<lambda>_. 1)) =
   instrument_resolver_local_redirect initial_layout (\<lambda>s. of_nat (length s)) (Some (cstr ''/h'')) no_tools (\<lambda>_. 0x200000000) (\<lambda>_. 1)"
proof -
  obtain dir where "np_compat_tool_dir (Some (cstr ''/h'')) no_tools = Some dir"
    by (simp add: np_compat_tool_dir_def no_tools_def tools_dir_path_def c_copy_def cstr_def)
  moreover have "load32 (\<lambda>_. 1) p \<noteq> 0" for p
    by (simp add: load32_def le32_def)
  ultimately show ?thesis
    using redirected_tool_is_local[OF _ _ _ _ _ refl, of initial_layout "Some (cstr ''/h'')" no_tools dir "\<lambda>_. 0x200000000"
        "\<lambda>_. 1" "\<lambda>s. of_nat (length s)"]
    by (simp add: initial_layout_def np_plausible_ptr_def np_plausible_addr_def)
qed

text \<open>An app that only runs on Windows, and a manager that holds a tool of the project's name at 0x2000.\<close>

definition windows_mgr :: mem where
  "windows_mgr = word_mem [(0x1320, 0x2000), (0x1330, 1), (0x2040, 0x4000), (0x4000, 0x70746F6E), (0x4004, 0x6F746F72), (0x4008, 0x6E)]"

lemma windows_mgr_words:
  "load64 windows_mgr 0x1320 = 0x2000" "load32 windows_mgr 0x1330 = 1" "load64 windows_mgr 0x2040 = 0x4000"
  "strcmp_eq windows_mgr 0x4000 TOOL_DIR_NAME"
  by (simp_all add: windows_mgr_def load32_word_mem load64_word_mem le64_def)
    (simp add: word_mem_def TOOL_DIR_NAME_def cstr_def)

lemma windows_mgr_tools:
  "manager_tools initial_layout windows_mgr no_tools 0x1000 = [0x2000]"
  "our_tools initial_layout windows_mgr no_tools 0x1000 = [0x2000]"
proof -
  show t: "manager_tools initial_layout windows_mgr no_tools 0x1000 = [0x2000]"
    by (simp add: manager_tools_def windows_mgr_words tool_at_def COMPAT_MANAGER_TOOL_ARRAY_OFF_def
        COMPAT_MANAGER_TOOL_COUNT_OFF_def np_compat_manager_tools_max_def COMPAT_MANAGER_TOOLS_HEADROOM_def)
  have "tool_named windows_mgr TOOL_DIR_NAME 0x2000"
    by (simp add: tool_named_def COMPAT_TOOL_NAME_OFF_def windows_mgr_words)
  moreover have "tl_tools no_tools = []" by (simp add: no_tools_def)
  ultimately show "our_tools initial_layout windows_mgr no_tools 0x1000 = [0x2000]"
    by (simp add: our_tools_def our_names_def t)
qed

theorem default_tool_policy_witness:
  "hook_FindToolForTargetApp (Some (\<lambda>_ _ _. 0)) (no_fns\<lparr>cf_valid_platforms := Some (\<lambda>_ _ _. 1)\<rparr>) initial_layout no_tools 0x1000 70
      windows_mgr = 0x2000 \<and>
   hook_FindToolForTargetApp (Some (\<lambda>_ _ _. 0)) (no_fns\<lparr>cf_valid_platforms := Some (\<lambda>_ _ _. 3)\<rparr>) initial_layout no_tools 0x1000 70
      windows_mgr = 0"
proof
  show "hook_FindToolForTargetApp (Some (\<lambda>_ _ _. 0)) (no_fns\<lparr>cf_valid_platforms := Some (\<lambda>_ _ _. 1)\<rparr>) initial_layout no_tools
      0x1000 70 windows_mgr = 0x2000"
    using default_tool_policy[OF refl refl, of "\<lambda>_ _ _. 0" windows_mgr "0x1000" 70
        "no_fns\<lparr>cf_valid_platforms := Some (\<lambda>_ _ _. 1)\<rparr>" initial_layout no_tools]
    by (simp add: windows_mgr_tools np_compat_app_mapping_def np_compat_valid_platforms_def no_fns_def
        COMPAT_PLATFORM_WINDOWS_def COMPAT_PLATFORM_MACOS_def)
  show "hook_FindToolForTargetApp (Some (\<lambda>_ _ _. 0)) (no_fns\<lparr>cf_valid_platforms := Some (\<lambda>_ _ _. 3)\<rparr>) initial_layout no_tools
      0x1000 70 windows_mgr = 0"
    using default_tool_policy[OF refl refl, of "\<lambda>_ _ _. 0" windows_mgr "0x1000" 70
        "no_fns\<lparr>cf_valid_platforms := Some (\<lambda>_ _ _. 3)\<rparr>" initial_layout no_tools]
    by (simp add: np_compat_app_mapping_def np_compat_valid_platforms_def no_fns_def
        COMPAT_PLATFORM_WINDOWS_def COMPAT_PLATFORM_MACOS_def)
qed

end
