(* ===== verification/Launch.thy ===== *)
theory Launch
  imports Compat_Manager Hooks Macho
begin

text \<open>
  Launch options, \<^verbatim>\<open>src/dylib/hooks/hook_launch.c\<close>: a command line that runs a tool is handed to a shell
  as one argument, and the backslashes of a game's arguments are doubled. A reader of the shell's
  quoting states what the command lines mean.
\<close>

section \<open>Handing a command line to a shell\<close>

text \<open>The characters written for a string: a quote in it ends the quotes, is escaped, and opens them again.\<close>

fun quote_loop :: "cstring \<Rightarrow> u8 list" where
  "quote_loop [] = []"
| "quote_loop (c # s) = (if c = 39 then [39, 92, 39, 39] @ quote_loop s else c # quote_loop s)"

definition np_quote :: "cstring \<Rightarrow> u8 list" where
  "np_quote s = [39] @ quote_loop s @ [39]"

text \<open>The room allocated and the bytes written there; \<open>rest_given\<close> is whether the caller wants the rest of the
  line back.\<close>

definition np_launch_shell ::
  "(nat \<Rightarrow> bool) \<Rightarrow> cstring option \<Rightarrow> cstring option \<Rightarrow> int \<Rightarrow> bool \<Rightarrow> (nat \<times> u8 list) option" where
  "np_launch_shell malloc_ok cmd shell most rest_given = (case cmd of
     None \<Rightarrow> None
   | Some c \<Rightarrow>
       if most \<noteq> - 1 \<or> rest_given \<or> \<not> np_compat_runs_tool c then None
       else
         let lead = (case shell of None \<Rightarrow> cstr ''/bin/sh -c '' | Some _ \<Rightarrow> []);
             cap = length lead + 4 * length c + 3 + (case shell of None \<Rightarrow> 0 | Some sh \<Rightarrow> 4 * length sh + 3) + 1
         in if \<not> malloc_ok cap then None
            else Some (cap, lead @ (case shell of None \<Rightarrow> [] | Some sh \<Rightarrow> np_quote sh @ [32]) @ np_quote c @ [0]))"

text \<open>\<open>orig\<close> is the client's parser.\<close>

definition np_hook_parse_shell ::
  "(cstring option \<Rightarrow> int \<Rightarrow> bool \<Rightarrow> 'r) \<Rightarrow> (nat \<Rightarrow> bool) \<Rightarrow> cstring option \<Rightarrow> cstring option \<Rightarrow> int \<Rightarrow> bool \<Rightarrow> 'r" where
  "np_hook_parse_shell orig malloc_ok shell cmd most rest_given =
     (case np_launch_shell malloc_ok cmd shell most rest_given of
        None \<Rightarrow> orig cmd most rest_given
      | Some (cap, wrapped) \<Rightarrow> orig (Some (c_prefix wrapped)) most rest_given)"

section \<open>Arguments with backslashes\<close>

text \<open>In place, from the end: \<open>len\<close> characters are left to read, \<open>out\<close> is where the last was written.\<close>

fun double_loop :: "nat \<Rightarrow> nat \<Rightarrow> u8 list \<Rightarrow> u8 list" where
  "double_loop 0 out s = s"
| "double_loop (Suc len) out s =
     (let c = s ! len; out = out - 1; s = s[out := c]
      in if c = 92 then let out = out - 1 in double_loop len out (s[out := c]) else double_loop len out s)"

definition np_double_backslashes :: "u8 list \<Rightarrow> nat \<Rightarrow> nat \<Rightarrow> u8 list" where
  "np_double_backslashes s len extra = double_loop len (len + extra) (s[len + extra := 0])"

fun np_count_backslashes :: "cstring \<Rightarrow> nat" where
  "np_count_backslashes [] = 0"
| "np_count_backslashes (c # s) = (if c = 92 then 1 else 0) + np_count_backslashes s"

record launch_state =
  orig_parse_shell :: u64
  np_shell_wrapped :: bool
  plat_realloc :: u64

text \<open>\<open>args\<close> is the pointer to the arguments, which may be null, and so may be the string there; \<open>realloc\<close> is
  the client's, from the bytes of a block to those of a longer one.\<close>

definition np_hook_vr_support ::
  "(u64 \<Rightarrow> u32 \<Rightarrow> mem \<times> cstring option option \<Rightarrow> u64 \<times> mem \<times> cstring option option) option \<Rightarrow>
     (u8 list \<Rightarrow> nat \<Rightarrow> u8 list option) \<Rightarrow> client_fns \<Rightarrow> manager_state \<Rightarrow> launch_state \<Rightarrow> u64 \<Rightarrow> u32 \<Rightarrow>
     mem \<times> cstring option option \<Rightarrow> u64 \<times> mem \<times> cstring option option" where
  "np_hook_vr_support orig realloc fns st ls self appid s = (case orig of
     None \<Rightarrow> (0, s)
   | Some f \<Rightarrow> (case f self appid s of (ret, m, args) \<Rightarrow>
       (case args of
          Some (Some str) \<Rightarrow>
            if \<not> np_shell_wrapped ls \<or> \<not> np_compat_app_runs_tool fns m st appid then (ret, m, args)
            else let extra = np_count_backslashes str in
              if extra = 0 then (ret, m, args)
              else (case (if plat_realloc ls \<noteq> 0 then realloc (str @ [0]) (length str + extra + 1) else None) of
                  None \<Rightarrow> (ret, m, args)
                | Some buf \<Rightarrow> (ret, m, Some (Some (c_prefix (np_double_backslashes buf (length str) extra)))))
        | _ \<Rightarrow> (ret, m, args))))"

section \<open>Installation\<close>

definition NP_PARSE_SYM_POSIX :: cstring where
  "NP_PARSE_SYM_POSIX =
     cstr ''_Z28V_ParseShellCommandLinePOSIXPKcR10CUtlVectorI10CUtlString10CUtlMemoryIS2_EEiPS0_''"

definition np_hooks_launch_defs :: "np_patch_entry list" where
  "np_hooks_launch_defs =
     [\<lparr>pe_label = cstr ''LaunchBuilder::SteamVRSupportCheck'', pe_signature = Some (cstr ''LaunchBuilder::SteamVRSupportCheck''),
       pe_address = 0, pe_mode = NP_PATCH_REPLACE, pe_optional = False\<rparr>]"

definition np_hooks_launch_count :: "launch_state \<Rightarrow> nat" where
  "np_hooks_launch_count ls = (if np_shell_wrapped ls then length np_hooks_launch_defs else 0)"

text \<open>\<open>dlsym\<close> answers 0 for a name that is not there; \<open>hook_va\<close> is where our parser lies.\<close>

definition np_hooks_launch_install ::
  "cstring option \<Rightarrow> (cstring \<Rightarrow> u64) \<Rightarrow> (u64 \<Rightarrow> bool) \<Rightarrow> u64 \<Rightarrow> u64 \<Rightarrow> u64 \<Rightarrow> u64 \<Rightarrow> launch_state \<times> mem \<Rightarrow>
     launch_state \<times> mem" where
  "np_hooks_launch_install disabled dlsym mprotect_rw pagesize hook_va mh slide s = (case s of (ls, m) \<Rightarrow>
     if np_hooks_env_lists_label disabled (Some (cstr ''launch'')) then (ls, m)
     else
       let ls = ls\<lparr>orig_parse_shell := dlsym NP_PARSE_SYM_POSIX\<rparr>
       in if orig_parse_shell ls = 0 then (ls, m)
          else case np_rebind_import mprotect_rw pagesize m mh slide (cstr ''_'' @ NP_PARSE_SYM_POSIX) hook_va of
            (m, rebound) \<Rightarrow>
              (ls\<lparr>np_shell_wrapped := (case rebound of None \<Rightarrow> False | Some n \<Rightarrow> 0 < n),
                 plat_realloc := dlsym (cstr ''Plat_Realloc'')\<rparr>, m))"

section \<open>What a shell reads\<close>

text \<open>The words of a line: inside single quotes every character stands for itself, a backslash outside makes
  the next one stand for itself, blanks separate words. \<open>cur\<close> is the word being read, if one is.\<close>

datatype sh_mode = Plain | Quoted | Escaped

definition sh_word :: "cstring option \<Rightarrow> cstring" where
  "sh_word cur = (case cur of None \<Rightarrow> [] | Some w \<Rightarrow> w)"

fun sh_read :: "sh_mode \<Rightarrow> cstring option \<Rightarrow> cstring \<Rightarrow> cstring list option" where
  "sh_read mode cur [] = (case mode of
     Plain \<Rightarrow> Some (case cur of None \<Rightarrow> [] | Some w \<Rightarrow> [w]) | _ \<Rightarrow> None)"
| "sh_read mode cur (c # r) = (case mode of
     Quoted \<Rightarrow> if c = 39 then sh_read Plain cur r else sh_read Quoted (Some (sh_word cur @ [c])) r
   | Escaped \<Rightarrow> sh_read Plain (Some (sh_word cur @ [c])) r
   | Plain \<Rightarrow>
       if c = 39 then sh_read Quoted (Some (sh_word cur)) r
       else if c = 92 then sh_read Escaped (Some (sh_word cur)) r
       else if c = 32 then (case cur of
           None \<Rightarrow> sh_read Plain None r
         | Some w \<Rightarrow> map_option ((#) w) (sh_read Plain None r))
       else sh_read Plain (Some (sh_word cur @ [c])) r)"

lemma sh_read_quote_loop: "sh_read Quoted (Some w) (quote_loop s @ 39 # r) = sh_read Plain (Some (w @ s)) r"
  by (induction s arbitrary: w) (simp_all add: sh_word_def)

lemma sh_read_quote: "sh_read Plain None (np_quote s @ r) = sh_read Plain (Some s) r"
  using sh_read_quote_loop[of "[]" s r] by (simp add: np_quote_def sh_word_def)

lemma quote_bounds: "length (quote_loop s) \<le> 4 * length s" "length (np_quote s) \<le> 4 * length s + 2"
proof -
  show "length (quote_loop s) \<le> 4 * length s" by (induction s) auto
  then show "length (np_quote s) \<le> 4 * length s + 2" by (simp add: np_quote_def)
qed

lemma quote_string: "c_string s \<Longrightarrow> 0 \<notin> set (np_quote s)"
proof -
  have "0 \<notin> set s \<Longrightarrow> 0 \<notin> set (quote_loop s)" by (induction s) auto
  then show "c_string s \<Longrightarrow> 0 \<notin> set (np_quote s)" by (simp add: np_quote_def c_string_def)
qed

lemma c_prefix_end: "0 \<notin> set s \<Longrightarrow> c_prefix (s @ 0 # r) = s"
  unfolding c_prefix_def by (induction s) auto

section \<open>Doubling\<close>

definition doubled :: "cstring \<Rightarrow> cstring" where
  "doubled s = concat (map (\<lambda>c. if c = 92 then [92, 92] else [c]) s)"

lemma doubled_simps [simp]:
  "doubled [] = []" "doubled (c # s) = (if c = 92 then [92, 92] else [c]) @ doubled s"
  "doubled (s @ r) = doubled s @ doubled r"
  by (simp_all add: doubled_def)

lemma count_append [simp]: "np_count_backslashes (s @ r) = np_count_backslashes s + np_count_backslashes r"
  by (induction s) simp_all

lemma doubled_length: "length (doubled s) = length s + np_count_backslashes s"
  by (induction s) auto

lemma doubled_string: "c_string s \<Longrightarrow> 0 \<notin> set (doubled s)"
  by (auto simp: doubled_def c_string_def split: if_splits)

text \<open>The characters are written behind those that are still to be read, and fill the block exactly.\<close>

lemma double_loop_doubles:
  assumes "out = len + np_count_backslashes (take len s)" "out \<le> length s"
  shows "double_loop len out s = doubled (take len s) @ drop out s"
  using assms
proof (induction len arbitrary: out s)
  case (Suc len)
  have len: "len < length s" using Suc.prems by simp
  then have t: "take (Suc len) s = take len s @ [s ! len]" by (rule take_Suc_conv_app_nth)
  show ?case
  proof (cases "s ! len = 92")
    case True
    let ?k = "len + np_count_backslashes (take len s)"
    let ?s = "s[out - 1 := 92, out - 1 - 1 := 92]"
    have out: "out = Suc (Suc ?k)" using Suc.prems(1) True by (simp add: t)
    then have keep: "take len ?s = take len s" by simp
    have d: "drop ?k ?s = 92 # 92 # drop out s"
      using out Suc.prems(2) by (simp add: Cons_nth_drop_Suc[symmetric] nth_list_update)
    have "double_loop len ?k ?s = doubled (take len ?s) @ drop ?k ?s"
      by (rule Suc.IH) (use out Suc.prems(2) keep in simp_all)
    then show ?thesis using True out d keep by (simp add: t Let_def)
  next
    case False
    let ?k = "len + np_count_backslashes (take len s)"
    let ?s = "s[out - 1 := s ! len]"
    have out: "out = Suc ?k" using Suc.prems(1) False by (simp add: t)
    then have keep: "take len ?s = take len s" by simp
    have d: "drop ?k ?s = s ! len # drop out s"
      using out Suc.prems(2) by (simp add: Cons_nth_drop_Suc[symmetric])
    have "double_loop len ?k ?s = doubled (take len ?s) @ drop ?k ?s"
      by (rule Suc.IH) (use out Suc.prems(2) keep in simp_all)
    then show ?thesis using False out d keep by (simp add: t Let_def)
  qed
qed simp

lemma double_backslashes_block:
  assumes "length buf = length s + np_count_backslashes s + 1" "take (length s) buf = s"
  shows "np_double_backslashes buf (length s) (np_count_backslashes s) = doubled s @ [0]"
proof -
  let ?n = "length s + np_count_backslashes s"
  have t: "take (length s) (buf[?n := 0]) = s" using assms(2) by simp
  have "drop ?n (buf[?n := 0]) = [0]"
    using assms(1) by (intro nth_equalityI) (auto simp: nth_list_update)
  then show ?thesis
    using double_loop_doubles[of ?n "length s" "buf[?n := 0]"] assms(1) t by (simp add: np_double_backslashes_def)
qed

lemma sh_read_doubled:
  assumes "39 \<notin> set s"
  shows "sh_read Plain cur (doubled s) = Some (case str_fields 32 s of f # fs \<Rightarrow>
    (case cur of None \<Rightarrow> filter (\<lambda>w. w \<noteq> []) (f # fs) | Some w \<Rightarrow> (w @ f) # filter (\<lambda>w. w \<noteq> []) fs))"
  using assms
proof (induction s arbitrary: cur)
  case Nil
  then show ?case by (cases cur) simp_all
next
  case (Cons c s)
  obtain f fs where f: "str_fields 32 s = f # fs" using str_fields_not_Nil by (meson neq_Nil_conv)
  show ?case using Cons f by (cases cur) (auto simp: sh_word_def)
qed

section \<open>Properties\<close>

text \<open>C14. A command line that is wrapped fits the room allocated for it, and the shell reads from it exactly
  the words meant: the shell to run (by default with -c) and the command line, whole and unchanged.\<close>

theorem wrapped_launch_reads_back:
  assumes "np_launch_shell malloc_ok (Some cmd) shell most rest_given = Some (cap, block)"
    and "c_string cmd" "\<And>sh. shell = Some sh \<Longrightarrow> c_string sh"
  shows "length block \<le> cap \<and> np_compat_runs_tool cmd \<and>
    sh_read Plain None (c_prefix block) =
      Some ((case shell of None \<Rightarrow> [cstr ''/bin/sh'', cstr ''-c''] | Some sh \<Rightarrow> [sh]) @ [cmd])"
proof -
  have b: "np_compat_runs_tool cmd" using assms(1) by (simp add: np_launch_shell_def split: if_splits)
  let ?pre = "case shell of None \<Rightarrow> cstr ''/bin/sh -c '' | Some sh \<Rightarrow> np_quote sh @ [32]"
  have block: "block = (?pre @ np_quote cmd) @ [0]"
    using assms(1) by (auto simp: np_launch_shell_def Let_def split: if_splits option.splits)
  have cap: "cap = (case shell of None \<Rightarrow> 11 | Some sh \<Rightarrow> 4 * length sh + 3) + 4 * length cmd + 4"
    using assms(1) by (auto simp: np_launch_shell_def Let_def cstr_def split: if_splits option.splits)
  have "0 \<notin> set ?pre" using assms(3) quote_string by (auto simp: cstr_def split: option.split)
  then have c: "c_prefix block = ?pre @ np_quote cmd"
    unfolding block by (intro c_prefix_end) (simp add: quote_string[OF assms(2)])
  have "sh_read Plain None (?pre @ np_quote cmd) =
      Some ((case shell of None \<Rightarrow> [cstr ''/bin/sh'', cstr ''-c''] | Some sh \<Rightarrow> [sh]) @ [cmd])"
    using sh_read_quote[of cmd "[]"] sh_read_quote
    by (cases shell) (simp_all add: cstr_def sh_word_def)
  moreover have "length block \<le> cap"
    using quote_bounds(2)[of cmd] quote_bounds(2)[of "the shell"] unfolding block cap
    by (cases shell) (simp_all add: cstr_def)
  ultimately show ?thesis using b c by simp
qed

text \<open>The arguments of a game that runs under a tool are replaced by ones from which the shell reads the
  words of the original, backslashes included, when the client's allocator grows the block; in every
  other case they stay as they were.\<close>

theorem arguments_keep_backslashes:
  assumes "\<And>b n b'. realloc b n = Some b' \<Longrightarrow> length b \<le> n \<Longrightarrow> length b' = n \<and> take (length b) b' = b"
    and "f self appid s = (ret, m, Some (Some str))" "c_string str" "39 \<notin> set str"
  shows "\<exists>str'. np_hook_vr_support (Some f) realloc fns st ls self appid s = (ret, m, Some (Some str')) \<and>
    (if np_shell_wrapped ls \<and> np_compat_app_runs_tool fns m st appid \<and> plat_realloc ls \<noteq> 0 \<and>
        realloc (str @ [0]) (length str + np_count_backslashes str + 1) \<noteq> None
     then sh_read Plain None str' = Some (filter (\<lambda>w. w \<noteq> []) (str_fields 32 str))
     else str' = str)"
proof -
  let ?n = "np_count_backslashes str"
  have words: "sh_read Plain None (doubled str) = Some (filter (\<lambda>w. w \<noteq> []) (str_fields 32 str))"
    using sh_read_doubled[OF assms(4), of None] str_fields_not_Nil[of 32 str] by (auto split: list.split)
  have none: "doubled str = str" if "?n = 0"
  proof -
    have "np_count_backslashes x = 0 \<Longrightarrow> doubled x = x" for x by (induction x) (auto split: if_splits)
    then show ?thesis using that by simp
  qed
  show ?thesis
  proof (cases "np_shell_wrapped ls \<and> np_compat_app_runs_tool fns m st appid \<and> plat_realloc ls \<noteq> 0 \<and> ?n \<noteq> 0 \<and>
      realloc (str @ [0]) (length str + ?n + 1) \<noteq> None")
    case True
    then obtain buf where buf: "realloc (str @ [0]) (length str + ?n + 1) = Some buf" by auto
    then have b: "length buf = length str + ?n + 1" "take (length str + 1) buf = str @ [0]" using assms(1) by force+
    have "take (length str) buf = take (length str) (take (length str + 1) buf)" by simp
    then have "take (length str) buf = str" unfolding b(2) by simp
    then have "np_double_backslashes buf (length str) ?n = doubled str @ [0]"
      by (rule double_backslashes_block[OF b(1)])
    then have "c_prefix (np_double_backslashes buf (length str) ?n) = doubled str"
      using c_prefix_end[OF doubled_string[OF assms(3)], of "[]"] by simp
    then have "np_hook_vr_support (Some f) realloc fns st ls self appid s = (ret, m, Some (Some (doubled str)))"
      using True buf assms(2) by (simp add: np_hook_vr_support_def)
    then show ?thesis using words True by (intro exI[of _ "doubled str"]) simp
  next
    case False
    then have "np_hook_vr_support (Some f) realloc fns st ls self appid s = (ret, m, Some (Some str))"
      using assms(2) by (auto simp: np_hook_vr_support_def Let_def)
    then show ?thesis using words none False by (intro exI[of _ str]) auto
  qed
qed

definition tool_cmd :: cstring where
  "tool_cmd = [39] @ cstr ''/h/compatibilitytools.d/notproton'' @ [39] @ cstr ''/run go''"

theorem wrapped_launch_reads_back_witness:
  "sh_read Plain None (c_prefix (cstr ''/bin/sh -c '' @ np_quote tool_cmd @ [0])) =
     Some [cstr ''/bin/sh'', cstr ''-c'', tool_cmd]"
proof -
  have "runs_tool_at (drop 3 tool_cmd)"
    by (simp add: runs_tool_at_def tool_cmd_def cstr_def TOOL_DIR_NAME_def has_prefix_def is_name_char_def
        c_upper_def c_lower_def c_digit_def)
  moreover have "3 < length tool_cmd" by (simp add: tool_cmd_def cstr_def)
  ultimately have "np_compat_runs_tool tool_cmd" by (auto simp: np_compat_runs_tool_def list_ex_iff)
  then have l: "np_launch_shell (\<lambda>_. True) (Some tool_cmd) None (- 1) False =
      Some (length (cstr ''/bin/sh -c '') + 4 * length tool_cmd + 3 + 0 + 1,
        cstr ''/bin/sh -c '' @ np_quote tool_cmd @ [0])"
    by (simp add: np_launch_shell_def Let_def)
  have "c_string tool_cmd" by (simp add: tool_cmd_def cstr_def c_string_def)
  from wrapped_launch_reads_back[OF l this] show ?thesis by (simp del: sh_read.simps)
qed

text \<open>A memory with a tool at 0x2000 whose name is ours, a client that finds it for every app, and an allocator
  that always grows a block.\<close>

definition tool_mem :: mem where
  "tool_mem = word_mem [(0x2040, 0x4000), (0x4000, 0x70746F6E), (0x4004, 0x6F746F72), (0x4008, 0x6E)]"

definition finding :: client_fns where
  "finding = \<lparr>cf_valid_platforms = None, cf_find_tool = Some (\<lambda>_ _ _. 0x2000), cf_chosen_tool = None, cf_find_mapping = None,
     cf_wildcard = None, cf_set_mapping = None, cf_register = None, cf_free = None\<rparr>"

definition growing :: "u8 list \<Rightarrow> nat \<Rightarrow> u8 list option" where
  "growing b n = Some (take n (b @ replicate n 7))"

lemma growing_keeps: "growing b n = Some b' \<Longrightarrow> length b \<le> n \<Longrightarrow> length b' = n \<and> take (length b) b' = b"
  by (auto simp: growing_def)

lemma tool_mem_runs:
  "np_compat_app_runs_tool finding tool_mem \<lparr>g_manager = 0x1000, ms_registered = True, ms_calls = []\<rparr> 70"
proof -
  have "load64 tool_mem 0x2040 = 0x4000" "strcmp_eq tool_mem 0x4000 (cstr ''notproton'')"
    by (simp_all add: tool_mem_def load64_word_mem le64_def) (simp add: word_mem_def cstr_def)
  then have "load64 tool_mem 0x2040 = 0x4000" "mem_cstr tool_mem 0x4000 = cstr ''notproton''"
    by (auto intro!: mem_cstr_strcmp simp: cstr_def)
  moreover have "is_tool_name (cstr ''notproton'')" by code_simp
  ultimately show ?thesis
    by (simp add: np_compat_app_runs_tool_def app_tool_name_def np_compat_tool_for_app_def finding_def COMPAT_TOOL_NAME_OFF_def)
qed

text \<open>The arguments \<^verbatim>\<open>a\b c\<close>.\<close>

theorem arguments_keep_backslashes_witness:
  "\<exists>str'. np_hook_vr_support (Some (\<lambda>_ _ (m, _). (1, m, Some (Some [97, 92, 98, 32, 99])))) growing finding
      \<lparr>g_manager = 0x1000, ms_registered = True, ms_calls = []\<rparr>
      \<lparr>orig_parse_shell = 1, np_shell_wrapped = True, plat_realloc = 2\<rparr> 0 70 (tool_mem, None) =
      (1, tool_mem, Some (Some str')) \<and> sh_read Plain None str' = Some [[97, 92, 98], [99]]"
  using arguments_keep_backslashes[where realloc = growing and f = "\<lambda>_ _ (m, _). (1, m, Some (Some [97, 92, 98, 32, 99]))"
      and self = 0 and appid = 70 and s = "(tool_mem, None)" and ret = 1 and m = tool_mem and str = "[97, 92, 98, 32, 99]"
      and fns = finding and st = "\<lparr>g_manager = 0x1000, ms_registered = True, ms_calls = []\<rparr>"
      and ls = "\<lparr>orig_parse_shell = 1, np_shell_wrapped = True, plat_realloc = 2\<rparr>", OF growing_keeps] tool_mem_runs
  by (simp add: c_string_def growing_def)

end
