(* ===== verification/Page_Patch.thy ===== *)
theory Page_Patch
  imports C_Str
begin

text \<open>
  The rewriting of the client's pages, \<^verbatim>\<open>src/dylib/feats/webpatch.c\<close>: patterns with captured names and
  marks that stand for texts, counting the matches of a pattern, which of the gates are applied, and the
  rewriting itself. The gates, texts of JavaScript, are tables given to the definitions.
\<close>

section \<open>Patterns\<close>

definition NP_CAP_MAX :: nat where "NP_CAP_MAX = 12"
definition NP_GATE_PAGE :: nat where "NP_GATE_PAGE = 2"

record np_gate =
  ga_find :: cstring
  ga_replace :: cstring
  ga_expect :: nat
  ga_optional :: nat

definition is_ident_char :: "u8 \<Rightarrow> bool" where
  "is_ident_char c \<longleftrightarrow> c_lower c \<or> c_upper c \<or> c_digit c \<or> c = 95 \<or> c = 36"

text \<open>Which capture a character of a pattern stands for: 1 to 8, or 19 to 22 for the others.\<close>

definition cap_index :: "u8 \<Rightarrow> nat option" where
  "cap_index c =
     (if 1 \<le> c \<and> c \<le> 8 then Some (unat c - 1)
      else if 19 \<le> c \<and> c \<le> 22 then Some (unat c - 19 + 8) else None)"

type_synonym caps = "cstring option list"

text \<open>\<open>mk\<close> is the text a mark stands for. The position behind the match and the captures, if there is one.\<close>

fun match_loop :: "(u8 \<Rightarrow> cstring option) \<Rightarrow> u8 list \<Rightarrow> cstring \<Rightarrow> nat \<Rightarrow> caps \<Rightarrow> (nat \<times> caps) option" where
  "match_loop mk src [] s caps = Some (s, caps)"
| "match_loop mk src (f # fs) s caps = (case mk f of
     Some str \<Rightarrow>
       if s + length str > length src \<or> take (length str) (drop s src) \<noteq> str then None
       else match_loop mk src fs (s + length str) caps
   | None \<Rightarrow> (case cap_index f of
       None \<Rightarrow> if s \<ge> length src \<or> src ! s \<noteq> f then None else match_loop mk src fs (s + 1) caps
     | Some ci \<Rightarrow>
         if s \<ge> length src \<or> c_digit (src ! s) then None
         else let run = length (takeWhile is_ident_char (drop s src)) in
           if run = 0 then None
           else (case caps ! ci of
               Some str \<Rightarrow>
                 if run \<noteq> length str \<or> take run (drop s src) \<noteq> str then None
                 else match_loop mk src fs (s + run) caps
             | None \<Rightarrow> match_loop mk src fs (s + run) (caps[ci := Some (take run (drop s src))]))))"

definition first_char :: "cstring \<Rightarrow> u8" where
  "first_char s = (case s of [] \<Rightarrow> 0 | c # _ \<Rightarrow> c)"

text \<open>How much of the source a pattern matches at a position, and its captures; none for a match of nothing.\<close>

definition match_at :: "(u8 \<Rightarrow> cstring option) \<Rightarrow> u8 list \<Rightarrow> nat \<Rightarrow> cstring \<Rightarrow> (nat \<times> caps) option" where
  "match_at mk src pos pat =
     (if cap_index (first_char pat) = None \<and> mk (first_char pat) = None \<and> src ! pos \<noteq> first_char pat then None
      else if cap_index (first_char pat) \<noteq> None \<and> pos \<noteq> 0 \<and> (is_ident_char (src ! (pos - 1)) \<or> src ! (pos - 1) = 46)
      then None
      else case match_loop mk src pat pos (replicate NP_CAP_MAX None) of
          None \<Rightarrow> None
        | Some (s, caps) \<Rightarrow> if s - pos = 0 then None else Some (s - pos, caps))"

text \<open>The characters a match of a pattern may begin with.\<close>

definition mark_start :: "(u8 \<Rightarrow> cstring option) \<Rightarrow> cstring \<Rightarrow> u8 \<Rightarrow> bool" where
  "mark_start mk pat c \<longleftrightarrow>
     (if mk (first_char pat) \<noteq> None then True
      else if cap_index (first_char pat) \<noteq> None then is_ident_char c \<and> \<not> c_digit c
      else c = first_char pat)"

section \<open>Counting\<close>

text \<open>\<^verbatim>\<open>memmem\<close> from a position on.\<close>

definition memmem_from :: "u8 list \<Rightarrow> nat \<Rightarrow> u8 list \<Rightarrow> nat option" where
  "memmem_from src i pat = find (\<lambda>j. take (length pat) (drop j src) = pat) [i..<Suc (length src - length pat)]"

definition literal_prefix :: "(u8 \<Rightarrow> cstring option) \<Rightarrow> cstring \<Rightarrow> cstring" where
  "literal_prefix mk pat = takeWhile (\<lambda>c. cap_index c = None \<and> mk c = None) pat"

lemma match_at_positive: "match_at mk src pos pat = Some (used, caps) \<Longrightarrow> 0 < used"
  by (auto simp: match_at_def split: if_splits option.splits prod.splits)

lemma memmem_from_some:
  assumes "memmem_from src i pat = Some j"
  shows "i \<le> j" "take (length pat) (drop j src) = pat" "\<And>k. i \<le> k \<Longrightarrow> k < j \<Longrightarrow> take (length pat) (drop k src) \<noteq> pat"
proof -
  obtain n where n: "n < length [i..<Suc (length src - length pat)]" "j = [i..<Suc (length src - length pat)] ! n"
    "take (length pat) (drop j src) = pat"
    "\<forall>k < n. take (length pat) (drop ([i..<Suc (length src - length pat)] ! k) src) \<noteq> pat"
    using assms by (auto simp: memmem_from_def find_Some_iff simp del: upt_Suc)
  then have j: "j = i + n" by (simp del: upt_Suc)
  then show "i \<le> j" "take (length pat) (drop j src) = pat" using n(3) by simp_all
  fix k assume k: "i \<le> k" "k < j"
  then have "k - i < n" "[i..<Suc (length src - length pat)] ! (k - i) = k" using j n(1) by (simp_all del: upt_Suc)
  then show "take (length pat) (drop k src) \<noteq> pat" using n(4) by metis
qed

function count_loop :: "(u8 \<Rightarrow> cstring option) \<Rightarrow> u8 list \<Rightarrow> cstring \<Rightarrow> cstring \<Rightarrow> nat \<Rightarrow> nat" where
  "count_loop mk src pat lit i =
     (if i \<ge> length src then 0
      else case (if lit \<noteq> [] then memmem_from src i lit else Some i) of
          None \<Rightarrow> 0
        | Some j \<Rightarrow> (case match_at mk src j pat of
            Some (used, _) \<Rightarrow> Suc (count_loop mk src pat lit (j + used))
          | None \<Rightarrow> count_loop mk src pat lit (j + 1)))"
  by pat_completeness auto
termination
  by (relation "measure (\<lambda>(mk, src, pat, lit, i). length src - i)")
    (auto dest!: memmem_from_some(1) match_at_positive split: if_splits)

declare count_loop.simps [simp del]

definition count_matches :: "(u8 \<Rightarrow> cstring option) \<Rightarrow> u8 list \<Rightarrow> cstring \<Rightarrow> nat" where
  "count_matches mk src pat = count_loop mk src pat (literal_prefix mk pat) 0"

section \<open>The output\<close>

text \<open>A growing buffer; \<open>realloc_ok\<close> says which sizes can be had.\<close>

record np_out =
  ou_buf :: "u8 list"
  ou_cap :: nat

function grow_to :: "nat \<Rightarrow> nat \<Rightarrow> nat" where
  "grow_to need want = (if want = 0 \<or> need \<le> want then want else grow_to need (want * 2))"
  by pat_completeness auto
termination by (relation "measure (\<lambda>(need, want). need - want)") auto

declare grow_to.simps [simp del]

definition out_reserve :: "(nat \<Rightarrow> bool) \<Rightarrow> nat \<Rightarrow> np_out \<Rightarrow> np_out option" where
  "out_reserve realloc_ok extra ob =
     (if length (ou_buf ob) + extra + 1 \<le> ou_cap ob then Some ob
      else let want = grow_to (length (ou_buf ob) + extra + 1) (if ou_cap ob \<noteq> 0 then ou_cap ob else 1024)
        in if realloc_ok want then Some (ob\<lparr>ou_cap := want\<rparr>) else None)"

definition out_put :: "(nat \<Rightarrow> bool) \<Rightarrow> u8 list \<Rightarrow> np_out \<Rightarrow> np_out option" where
  "out_put realloc_ok bs ob = map_option (\<lambda>ob. ob\<lparr>ou_buf := ou_buf ob @ bs\<rparr>) (out_reserve realloc_ok (length bs) ob)"

fun out_expand :: "(nat \<Rightarrow> bool) \<Rightarrow> (u8 \<Rightarrow> cstring option) \<Rightarrow> cstring \<Rightarrow> caps \<Rightarrow> np_out \<Rightarrow> np_out option" where
  "out_expand realloc_ok mk [] caps ob = Some ob"
| "out_expand realloc_ok mk (r # rs) caps ob =
     (case (case mk r of
         Some str \<Rightarrow> out_put realloc_ok str ob
       | None \<Rightarrow> (case cap_index r of
           None \<Rightarrow> out_put realloc_ok [r] ob
         | Some ci \<Rightarrow> (case caps ! ci of None \<Rightarrow> None | Some str \<Rightarrow> out_put realloc_ok str ob))) of
        None \<Rightarrow> None | Some ob \<Rightarrow> out_expand realloc_ok mk rs caps ob)"

section \<open>Which gates are applied\<close>

record np_ui_shape =
  sh_name :: cstring
  sh_probe :: cstring
  sh_gates :: "np_gate list"

text \<open>The tables of the source: the shapes of the compatibility page with their gates, the fixes (the last two
  are the filter for apps that run natively), the gates of the library filter (the last two are its
  toolbar), the names the component barrel has to have, the script put ahead of the page.\<close>

record page_tables =
  tb_shapes :: "np_ui_shape list"
  tb_fixes :: "np_gate list"
  tb_library :: "np_gate list"
  tb_barrel :: "cstring list"
  tb_runs_exe_js :: cstring

text \<open>A table that may be on only where each gate is found as often as it expects.\<close>

definition found_as_expected :: "(u8 \<Rightarrow> cstring option) \<Rightarrow> u8 list \<Rightarrow> np_gate \<Rightarrow> bool" where
  "found_as_expected mk src g \<longleftrightarrow> count_matches mk src (ga_find g) = ga_expect g"

text \<open>Outer None: the source carries two shapes.\<close>

fun choose_shape ::
  "(u8 \<Rightarrow> cstring option) \<Rightarrow> u8 list \<Rightarrow> np_ui_shape list \<Rightarrow> np_ui_shape option \<Rightarrow> np_ui_shape option option" where
  "choose_shape mk src [] shape = Some shape"
| "choose_shape mk src (sh # shs) shape =
     (if count_matches mk src (sh_probe sh) = 0 then choose_shape mk src shs shape
      else if shape \<noteq> None then None else choose_shape mk src shs (Some sh))"

definition np_webpatch_has_shape :: "(u8 \<Rightarrow> cstring option) \<Rightarrow> page_tables \<Rightarrow> u8 list \<Rightarrow> bool" where
  "np_webpatch_has_shape mk tb src = list_ex (\<lambda>sh. count_matches mk src (sh_probe sh) > 0) (tb_shapes tb)"

text \<open>Which fixes are on, and the list of platforms: \<open>native k\<close> is what the helper answers the k-th time it is
  run, once for each of the two filters that is found.\<close>

definition fixes_on ::
  "(u8 \<Rightarrow> cstring option) \<Rightarrow> (nat \<Rightarrow> cstring option) \<Rightarrow> np_gate list \<Rightarrow> u8 list \<Rightarrow> bool list \<times> cstring option" where
  "fixes_on mk native fixes src =
     (let on = map (found_as_expected mk src) fixes;
          mac = length fixes - 2; mac' = length fixes - 1;
          js = (if on ! mac' then native (if on ! mac then 1 else 0) else if on ! mac then native 0 else None)
      in if js = None \<and> (on ! mac \<or> on ! mac') then (on[mac := False, mac' := False], js) else (on, js))"

fun library_loop :: "(u8 \<Rightarrow> cstring option) \<Rightarrow> u8 list \<Rightarrow> nat \<Rightarrow> np_gate list \<Rightarrow> nat \<Rightarrow> bool list option" where
  "library_loop mk src n [] i = Some []"
| "library_loop mk src n (g # gs) i =
     (let on = found_as_expected mk src g in
      if on \<or> i = n - 2 \<or> i = n - 1 then map_option ((#) on) (library_loop mk src n gs (i + 1)) else None)"

text \<open>The gates of the library filter that are on, when it is applied: exactly one of the two toolbars.\<close>

definition library_on :: "(u8 \<Rightarrow> cstring option) \<Rightarrow> u8 list \<Rightarrow> np_gate list \<Rightarrow> bool \<Rightarrow> np_gate list" where
  "library_on mk src gates wanted =
     (if \<not> wanted then []
      else case library_loop mk src (length gates) gates 0 of
          None \<Rightarrow> []
        | Some on \<Rightarrow>
            if on ! (length gates - 2) = on ! (length gates - 1) then []
            else map fst (filter snd (zip gates on)))"

text \<open>The braces around an occurrence of the first name, with every name between them: where they begin, and
  how long they are. The search goes 16384 characters each way.\<close>

definition barrel_open :: "u8 list \<Rightarrow> nat \<Rightarrow> nat" where
  "barrel_open s at = at - length (takeWhile (\<lambda>c. c \<noteq> 123 \<and> c \<noteq> 125) (take 16384 (rev (take at s))))"

definition barrel_close :: "u8 list \<Rightarrow> nat \<Rightarrow> nat" where
  "barrel_close s at = at + length (takeWhile (\<lambda>c. c \<noteq> 125) (take 16384 (drop at s)))"

definition barrel_has :: "u8 list \<Rightarrow> cstring \<Rightarrow> bool" where
  "barrel_has part name \<longleftrightarrow>
     memmem_from part 0 (c_copy 16 ([123] @ name @ cstr '':()=>'')) \<noteq> None \<or>
     memmem_from part 0 (c_copy 16 ([44] @ name @ cstr '':()=>'')) \<noteq> None"

lemma memmem_from_bound:
  assumes "memmem_from src i pat = Some j"
  shows "length src - j < Suc (length src) - i"
proof -
  have "j < Suc (length src - length pat)"
    using assms by (auto simp: memmem_from_def find_Some_iff simp del: upt_Suc)
  then show ?thesis using memmem_from_some(1)[OF assms] by linarith
qed

function barrel_loop :: "cstring list \<Rightarrow> u8 list \<Rightarrow> cstring \<Rightarrow> nat \<Rightarrow> (nat \<times> nat) option" where
  "barrel_loop names s anchor i = (case memmem_from s i anchor of
     None \<Rightarrow> None
   | Some at \<Rightarrow>
       let op = barrel_open s at; cl = barrel_close s at in
       if op = 0 \<or> s ! (op - 1) \<noteq> 123 \<or> cl \<ge> length s \<or> s ! cl \<noteq> 125 then barrel_loop names s anchor (at + 1)
       else if list_all (barrel_has (take (cl - op + 1) (drop (op - 1) s))) names then Some (op - 1, cl - op + 2)
       else barrel_loop names s anchor (at + 1))"
  by pat_completeness auto
termination
  by (relation "measure (\<lambda>(names, s, anchor, i). Suc (length s) - i)")
    (auto dest: memmem_from_bound)

declare barrel_loop.simps [simp del]

definition find_barrel :: "cstring list \<Rightarrow> u8 list \<Rightarrow> (nat \<times> nat) option" where
  "find_barrel names s = barrel_loop names s (c_copy 16 (hd names @ cstr '':()=>'')) 0"

text \<open>The gates of the settings page are on together, and only where the barrel has what the page takes.\<close>

definition settle_page :: "cstring list \<Rightarrow> np_gate list \<Rightarrow> u8 list \<Rightarrow> bool list \<Rightarrow> bool list" where
  "settle_page names gates s on =
     (let page = map snd (filter (\<lambda>(g, _). ga_optional g = NP_GATE_PAGE) (zip gates on));
          out = list_ex (\<lambda>b. b) page \<and> (list_ex Not page \<or> find_barrel names s = None)
      in if out then map2 (\<lambda>g b. b \<and> ga_optional g \<noteq> NP_GATE_PAGE) gates on else on)"

text \<open>The gates to apply, in the order they are tried, and what is put ahead of the page; with it the name of
  the shape that was found.\<close>

definition np_webpatch_plan ::
  "(u8 \<Rightarrow> cstring option) \<Rightarrow> (nat \<Rightarrow> cstring option) \<Rightarrow> page_tables \<Rightarrow> u8 list \<Rightarrow>
     (np_gate list \<times> cstring option) option \<times> cstring option" where
  "np_webpatch_plan mk native tb src = (case choose_shape mk src (tb_shapes tb) None of
     None \<Rightarrow> (None, None)
   | Some shape \<Rightarrow>
       (case fixes_on mk native (tb_fixes tb) src of (on, js) \<Rightarrow>
          let mac = length (tb_fixes tb) - 2; mac' = length (tb_fixes tb) - 1;
              fixes = map fst (filter snd (zip (tb_fixes tb) on));
              library = library_on mk src (tb_library tb) (on ! mac \<or> on ! mac')
          in (case shape of
               None \<Rightarrow> if \<not> list_ex (\<lambda>b. b) on then (None, None) else (Some (fixes @ library, js), None)
             | Some sh \<Rightarrow>
                 let gate_on = map (found_as_expected mk src) (sh_gates sh) in
                 if list_ex (\<lambda>(g, b). \<not> b \<and> ga_optional g = 0) (zip (sh_gates sh) gate_on) then (None, Some (sh_name sh))
                 else
                   let gate_on = settle_page (tb_barrel tb) (sh_gates sh) src gate_on
                   in (Some (map fst (filter snd (zip (sh_gates sh) gate_on)) @ fixes @ library, js), Some (sh_name sh)))))"

section \<open>Rewriting\<close>

fun first_hit ::
  "(u8 \<Rightarrow> cstring option) \<Rightarrow> u8 list \<Rightarrow> nat \<Rightarrow> np_gate list \<Rightarrow> (np_gate \<times> nat \<times> caps) option" where
  "first_hit mk src i [] = None"
| "first_hit mk src i (g # gs) = (case match_at mk src i (ga_find g) of
     Some (used, caps) \<Rightarrow> Some (g, used, caps) | None \<Rightarrow> first_hit mk src i gs)"

lemma first_hit_some:
  "first_hit mk src i gs = Some (g, used, caps) \<Longrightarrow> g \<in> set gs \<and> match_at mk src i (ga_find g) = Some (used, caps)"
  by (induction gs) (auto split: option.splits)

lemma first_hit_positive: "first_hit mk src i gs = Some (g, used, caps) \<Longrightarrow> 0 < used"
  by (blast dest: first_hit_some match_at_positive)

definition can_start :: "(u8 \<Rightarrow> cstring option) \<Rightarrow> np_gate list \<Rightarrow> u8 \<Rightarrow> bool" where
  "can_start mk gates c = list_ex (\<lambda>g. mark_start mk (ga_find g) c) gates"

lemma plain_shorter: "i < length src \<Longrightarrow> takeWhile P (drop i src) \<noteq> [] \<Longrightarrow>
    length src - (i + length (takeWhile P (drop i src))) < length src - i"
  by (simp add: diff_less_mono2)

function patch_loop ::
  "(nat \<Rightarrow> bool) \<Rightarrow> (u8 \<Rightarrow> cstring option) \<Rightarrow> np_gate list \<Rightarrow> u8 list \<Rightarrow> nat \<Rightarrow> np_out \<Rightarrow> np_out option" where
  "patch_loop realloc_ok mk gates src i ob =
     (if i \<ge> length src then Some ob
      else
        let plain = length (takeWhile (\<lambda>c. \<not> can_start mk gates c) (drop i src)) in
        if plain > 0 then (case out_put realloc_ok (take plain (drop i src)) ob of
            None \<Rightarrow> None | Some ob \<Rightarrow> patch_loop realloc_ok mk gates src (i + plain) ob)
        else case first_hit mk src i gates of
            None \<Rightarrow> (case out_put realloc_ok [src ! i] ob of
                None \<Rightarrow> None | Some ob \<Rightarrow> patch_loop realloc_ok mk gates src (i + 1) ob)
          | Some (g, used, caps) \<Rightarrow> (case out_expand realloc_ok mk (ga_replace g) caps ob of
                None \<Rightarrow> None | Some ob \<Rightarrow> patch_loop realloc_ok mk gates src (i + used) ob))"
  by pat_completeness auto
termination
  by (relation "measure (\<lambda>(realloc_ok, mk, gates, src, i, ob). length src - i)")
    (auto simp: plain_shorter not_le dest: first_hit_positive)

declare patch_loop.simps [simp del]

definition np_webpatch_transform ::
  "(nat \<Rightarrow> bool) \<Rightarrow> (u8 \<Rightarrow> cstring option) \<Rightarrow> (nat \<Rightarrow> cstring option) \<Rightarrow> page_tables \<Rightarrow> u8 list \<Rightarrow>
     u8 list option \<times> cstring option" where
  "np_webpatch_transform realloc_ok mk native tb src = (case np_webpatch_plan mk native tb src of
     (None, name) \<Rightarrow> (None, name)
   | (Some (gates, js), name) \<Rightarrow>
       let ob = \<lparr>ou_buf = [], ou_cap = 0\<rparr>;
           ob = (case js of
               None \<Rightarrow> Some ob
             | Some js \<Rightarrow> (case out_put realloc_ok js ob of
                 None \<Rightarrow> None | Some ob \<Rightarrow> out_put realloc_ok (tb_runs_exe_js tb) ob))
       in ((case ob of
              None \<Rightarrow> None
            | Some ob \<Rightarrow> (case patch_loop realloc_ok mk gates src 0 ob of
                None \<Rightarrow> None | Some ob \<Rightarrow> map_option ou_buf (out_reserve realloc_ok 0 ob))), name))"

section \<open>Which files are pages\<close>

definition inside_steamui :: "cstring \<Rightarrow> cstring option" where
  "inside_steamui path = (case memmem_from path 0 (cstr ''/steamui/'') of
     Some at \<Rightarrow> Some (drop (at + 9) path)
   | None \<Rightarrow> if has_prefix (cstr ''steamui/'') path then Some (drop 8 path) else None)"

definition np_webpatch_should_patch :: "cstring option \<Rightarrow> bool" where
  "np_webpatch_should_patch path = (case path of
     None \<Rightarrow> False
   | Some p \<Rightarrow>
       if \<not> has_suffix p (cstr ''.js'') then False
       else case inside_steamui p of
           None \<Rightarrow> False
         | Some rest \<Rightarrow> \<not> has_prefix (cstr ''localization/'') rest \<and> \<not> has_prefix (cstr ''libraries/'') rest)"

end
