(* ===== verification/Page_Rewrite.thy ===== *)
theory Page_Rewrite
  imports Page_Patch
begin

text \<open>
  What the rewriting of pages means: a match is its pattern with the captures put in, the counts and the
  rewriting are those of a scan that tries every position, and a page is rewritten by gates that are
  found exactly as often as they expect.
\<close>

section \<open>Matches\<close>

text \<open>A pattern, or what replaces it, with its marks and captures put in.\<close>

fun expand :: "(u8 \<Rightarrow> cstring option) \<Rightarrow> cstring \<Rightarrow> caps \<Rightarrow> cstring option" where
  "expand mk [] caps = Some []"
| "expand mk (r # rs) caps =
     (case (case mk r of Some str \<Rightarrow> Some str | None \<Rightarrow> (case cap_index r of None \<Rightarrow> Some [r] | Some ci \<Rightarrow> caps ! ci)) of
        None \<Rightarrow> None | Some str \<Rightarrow> map_option ((@) str) (expand mk rs caps))"

lemma cap_index_bound: "cap_index c = Some ci \<Longrightarrow> ci < NP_CAP_MAX"
  by (auto simp: cap_index_def NP_CAP_MAX_def word_le_nat_alt split: if_splits)

text \<open>A capture keeps the name it was first given, a name that is as long as can be.\<close>

definition capture_ok :: "cstring \<Rightarrow> bool" where
  "capture_ok t \<longleftrightarrow> t \<noteq> [] \<and> list_all is_ident_char t \<and> \<not> c_digit (hd t)"

lemma match_loop_facts:
  assumes "match_loop mk src pat s caps = Some (s', caps')" "length caps = NP_CAP_MAX" "s \<le> length src"
    and "list_all (\<lambda>c. \<forall>t. c = Some t \<longrightarrow> capture_ok t) caps"
  shows "s \<le> s' \<and> s' \<le> length src \<and> length caps' = NP_CAP_MAX \<and>
    list_all (\<lambda>c. \<forall>t. c = Some t \<longrightarrow> capture_ok t) caps' \<and>
    (\<forall>ci < NP_CAP_MAX. caps ! ci \<noteq> None \<longrightarrow> caps' ! ci = caps ! ci) \<and>
    expand mk pat caps' = Some (take (s' - s) (drop s src))"
  using assms
proof (induction pat arbitrary: s caps)
  case (Cons f fs)
  have piece: "take n (drop s src) @ take (s' - (s + n)) (drop (s + n) src) = take (s' - s) (drop s src)"
    if "s + n \<le> s'" for n
  proof -
    have "take (n + (s' - (s + n))) (drop s src) = take n (drop s src) @ take (s' - (s + n)) (drop n (drop s src))"
      by (rule take_add)
    moreover have "n + (s' - (s + n)) = s' - s" using that by simp
    ultimately show ?thesis by (simp add: add.commute)
  qed
  show ?case
  proof (cases "mk f")
    case (Some str)
    then have str: "s + length str \<le> length src" "take (length str) (drop s src) = str"
      and rest: "match_loop mk src fs (s + length str) caps = Some (s', caps')"
      using Cons.prems(1) by (auto split: if_splits)
    from Cons.IH[OF rest Cons.prems(2) str(1) Cons.prems(4)] show ?thesis
      using Some str(2) piece[of "length str"] by auto
  next
    case None
    note mark = None
    show ?thesis
    proof (cases "cap_index f")
      case None
      then have c: "s < length src" "src ! s = f" and rest: "match_loop mk src fs (s + 1) caps = Some (s', caps')"
        using Cons.prems(1) mark by (auto split: if_splits)
      then have "s + 1 \<le> length src" "take 1 (drop s src) = [f]" by (simp_all add: take_Suc hd_drop_conv_nth)
      with Cons.IH[OF rest Cons.prems(2) _ Cons.prems(4)] show ?thesis
        using mark None piece[of 1] by auto
    next
      case (Some ci)
      let ?run = "length (takeWhile is_ident_char (drop s src))"
      let ?name = "take ?run (drop s src)"
      have ci: "ci < NP_CAP_MAX" using cap_index_bound[OF Some] .
      have s: "s < length src" "\<not> c_digit (src ! s)" "?run \<noteq> 0"
        using Cons.prems(1) mark Some by (auto simp: Let_def split: if_splits)
      have run: "s + ?run \<le> length src" using length_takeWhile_le[of is_ident_char "drop s src"] s(1) by simp
      have name: "?name = takeWhile is_ident_char (drop s src)" by (simp add: takeWhile_eq_take[symmetric])
      have "hd (takeWhile is_ident_char (drop s src)) = hd (drop s src)"
        using s(3) by (cases "drop s src") auto
      then have ok: "capture_ok ?name"
        using s unfolding name capture_ok_def
        by (auto simp: list_all_iff hd_drop_conv_nth dest: set_takeWhileD)
      show ?thesis
      proof (cases "caps ! ci")
        case None
        let ?caps = "caps[ci := Some ?name]"
        have rest: "match_loop mk src fs (s + ?run) ?caps = Some (s', caps')"
          using Cons.prems(1) mark Some None s by (simp add: Let_def)
        have oks: "list_all (\<lambda>c. \<forall>t. c = Some t \<longrightarrow> capture_ok t) ?caps"
          using Cons.prems(4) ok by (auto simp: list_all_iff dest!: set_update_subset_insert[THEN subsetD])
        from Cons.IH[OF rest _ run oks] Cons.prems(2)
        have ih: "s + ?run \<le> s' \<and> s' \<le> length src \<and> length caps' = NP_CAP_MAX \<and>
            list_all (\<lambda>c. \<forall>t. c = Some t \<longrightarrow> capture_ok t) caps' \<and>
            (\<forall>cj < NP_CAP_MAX. ?caps ! cj \<noteq> None \<longrightarrow> caps' ! cj = ?caps ! cj) \<and>
            expand mk fs caps' = Some (take (s' - (s + ?run)) (drop (s + ?run) src))" by simp
        then have "caps' ! ci = Some ?name" using ci Cons.prems(2) by simp
        moreover have "\<forall>cj < NP_CAP_MAX. caps ! cj \<noteq> None \<longrightarrow> caps' ! cj = caps ! cj"
        proof (intro allI impI)
          fix cj assume cj: "cj < NP_CAP_MAX" "caps ! cj \<noteq> None"
          then have "?caps ! cj = caps ! cj" using None by (cases "ci = cj") simp_all
          then show "caps' ! cj = caps ! cj" using ih cj by simp
        qed
        moreover have "?name @ take (s' - (s + ?run)) (drop (s + ?run) src) = take (s' - s) (drop s src)"
          using ih by (intro piece) simp
        moreover have "s \<le> s'" using ih by simp
        ultimately show ?thesis using ih mark Some by (simp del: take_drop drop_drop)
      next
        case cap: (Some str)
        then have str: "?name = str" and rest: "match_loop mk src fs (s + ?run) caps = Some (s', caps')"
          using Cons.prems(1) mark Some s by (auto simp: Let_def split: if_splits)
        from Cons.IH[OF rest Cons.prems(2) run Cons.prems(4)] show ?thesis
          using mark Some cap ci str piece[of ?run] by auto
      qed
    qed
  qed
qed simp

lemma match_at_facts:
  assumes "match_at mk src pos pat = Some (used, caps)" "pos \<le> length src"
  shows "0 < used \<and> pos + used \<le> length src \<and> expand mk pat caps = Some (take used (drop pos src)) \<and>
    list_all (\<lambda>c. \<forall>t. c = Some t \<longrightarrow> capture_ok t) caps"
proof -
  obtain s where m: "match_loop mk src pat pos (replicate NP_CAP_MAX None) = Some (s, caps)" "used = s - pos" "s - pos \<noteq> 0"
    using assms(1) by (auto simp: match_at_def split: if_splits option.splits)
  from match_loop_facts[OF m(1) _ assms(2)] m(2,3) show ?thesis
    by (auto simp: list_all_iff)
qed

text \<open>A match begins with a character its pattern may begin with, and with the literal text the pattern begins
  with.\<close>

lemma match_at_start:
  assumes "match_at mk src pos pat = Some r" "pos < length src"
  shows "mark_start mk pat (src ! pos)"
proof -
  obtain s caps where m: "match_loop mk src pat pos (replicate NP_CAP_MAX None) = Some (s, caps)"
    using assms(1) by (auto simp: match_at_def split: if_splits option.splits)
  show ?thesis
  proof (cases "mk (first_char pat) \<noteq> None \<or> cap_index (first_char pat) = None")
    case True
    then show ?thesis using assms(1) by (auto simp: match_at_def mark_start_def split: if_splits)
  next
    case False
    then have "pat \<noteq> []" by (auto simp: first_char_def cap_index_def)
    then obtain f fs where pat: "pat = f # fs" by (cases pat) auto
    then have "\<not> c_digit (src ! pos)" "takeWhile is_ident_char (drop pos src) \<noteq> []"
      using m False by (auto simp: first_char_def Let_def split: if_splits)
    then show ?thesis using assms(2) False
      by (cases "drop pos src") (auto simp: mark_start_def Cons_nth_drop_Suc[symmetric] split: if_splits)
  qed
qed

lemma match_loop_literal:
  assumes "match_loop mk src pat s caps = Some r" "s \<le> length src"
  shows "take (length (literal_prefix mk pat)) (drop s src) = literal_prefix mk pat"
  using assms
proof (induction pat arbitrary: s)
  case (Cons f fs)
  show ?case
  proof (cases "cap_index f = None \<and> mk f = None")
    case True
    then have "s < length src" "src ! s = f" "match_loop mk src fs (s + 1) caps = Some r"
      using Cons.prems(1) by (auto split: if_splits)
    then show ?thesis using Cons.IH[of "s + 1"] True
      by (simp add: literal_prefix_def Cons_nth_drop_Suc[symmetric])
  qed (auto simp: literal_prefix_def)
qed (simp add: literal_prefix_def)

lemma match_at_literal:
  assumes "match_at mk src pos pat = Some r" "pos \<le> length src"
  shows "take (length (literal_prefix mk pat)) (drop pos src) = literal_prefix mk pat"
proof -
  obtain s caps where "match_loop mk src pat pos (replicate NP_CAP_MAX None) = Some (s, caps)"
    using assms(1) by (auto simp: match_at_def split: if_splits option.splits)
  from match_loop_literal[OF this assms(2)] show ?thesis .
qed

section \<open>Counting\<close>

text \<open>The matches of a pattern, one behind the other, trying every position.\<close>

function matches_from :: "(u8 \<Rightarrow> cstring option) \<Rightarrow> u8 list \<Rightarrow> cstring \<Rightarrow> nat \<Rightarrow> (nat \<times> nat) list" where
  "matches_from mk src pat i =
     (if i \<ge> length src then []
      else case match_at mk src i pat of
          Some (used, _) \<Rightarrow> (i, used) # matches_from mk src pat (i + used)
        | None \<Rightarrow> matches_from mk src pat (i + 1))"
  by pat_completeness auto
termination
  by (relation "measure (\<lambda>(mk, src, pat, i). length src - i)") (auto dest: match_at_positive)

declare matches_from.simps [simp del]

lemma matches_from_skip:
  assumes "i \<le> j" "\<And>k. i \<le> k \<Longrightarrow> k < j \<Longrightarrow> k < length src \<Longrightarrow> match_at mk src k pat = None"
  shows "matches_from mk src pat i = matches_from mk src pat j"
  using assms
proof (induction "j - i" arbitrary: i)
  case (Suc n)
  show ?case
  proof (cases "i < length src")
    case True
    then have "matches_from mk src pat i = matches_from mk src pat (i + 1)"
      using Suc.prems(2)[of i] Suc.hyps(2) by (simp add: matches_from.simps[of mk src pat i])
    also have "\<dots> = matches_from mk src pat j"
      using Suc.hyps(2) by (intro Suc.hyps(1) Suc.prems(2)) simp_all
    finally show ?thesis .
  next
    case False
    then show ?thesis using Suc.prems(1) by (simp add: matches_from.simps)
  qed
qed simp

lemma memmem_from_none:
  assumes "memmem_from src i pat = None" "pat \<noteq> []" "i \<le> k"
  shows "take (length pat) (drop k src) \<noteq> pat"
proof
  assume t: "take (length pat) (drop k src) = pat"
  from arg_cong[OF t, of length] have "length pat \<le> length src - k" by simp
  moreover have "0 < length pat" using assms(2) by simp
  ultimately have "k < Suc (length src - length pat)" by linarith
  then have "k \<in> set [i..<Suc (length src - length pat)]" using assms(3) by (simp del: upt_Suc)
  then show False using assms(1) t by (auto simp: memmem_from_def find_None_iff simp del: upt_Suc)
qed

lemma no_literal_no_match:
  assumes "take (length lit) (drop k src) \<noteq> lit" "lit = literal_prefix mk pat" "k \<le> length src"
  shows "match_at mk src k pat = None"
proof (rule ccontr)
  assume "match_at mk src k pat \<noteq> None"
  then obtain r where "match_at mk src k pat = Some r" by blast
  from match_at_literal[OF this assms(3)] show False using assms(1,2) by simp
qed

lemma count_loop_matches:
  assumes "lit = literal_prefix mk pat"
  shows "count_loop mk src pat lit i = length (matches_from mk src pat i)"
  using assms
proof (induction mk src pat lit i rule: count_loop.induct)
  case (1 mk src pat lit i)
  show ?case
  proof (cases "i < length src")
    case False
    then show ?thesis by (simp add: count_loop.simps[of mk src pat lit i] matches_from.simps[of mk src pat i])
  next
    case True
    let ?next = "if lit \<noteq> [] then memmem_from src i lit else Some i"
    show ?thesis
    proof (cases ?next)
      case None
      then have lit: "lit \<noteq> []" "memmem_from src i lit = None" by (auto split: if_splits)
      have "match_at mk src k pat = None" if "i \<le> k" "k < length src" for k
        using no_literal_no_match[OF memmem_from_none[OF lit(2,1) that(1)] "1.prems"] that(2) by simp
      then have "matches_from mk src pat i = matches_from mk src pat (length src)"
        using True by (intro matches_from_skip) auto
      moreover have "count_loop mk src pat lit i = 0"
        unfolding count_loop.simps[of mk src pat lit i] None using True by simp
      ultimately show ?thesis by (simp only: matches_from.simps[of mk src pat "length src"] order.refl if_True list.size)
    next
      case (Some j)
      then have ij: "i \<le> j" by (auto dest: memmem_from_some(1) split: if_splits)
      have "match_at mk src k pat = None" if "i \<le> k" "k < j" "k < length src" for k
      proof (cases "lit = []")
        case False
        then have "memmem_from src i lit = Some j" using Some by simp
        from no_literal_no_match[OF memmem_from_some(3)[OF this that(1,2)] "1.prems"] show ?thesis
          using that(3) by simp
      qed (use Some that in simp)
      then have skip: "matches_from mk src pat i = matches_from mk src pat j" by (rule matches_from_skip[OF ij])
      have j: "j < length src"
      proof (cases "lit = []")
        case False
        then have "memmem_from src i lit = Some j" using Some by simp
        from memmem_from_some(2)[OF this] False show ?thesis by (cases "j < length src") auto
      qed (use Some True in simp)
      have i: "\<not> length src \<le> i" and j': "\<not> length src \<le> j" using True j by simp_all
      have step: "count_loop mk src pat lit i = (case match_at mk src j pat of
          Some (used, _) \<Rightarrow> Suc (count_loop mk src pat lit (j + used)) | None \<Rightarrow> count_loop mk src pat lit (j + 1))"
        unfolding count_loop.simps[of mk src pat lit i] if_not_P[OF i] Some by (simp only: option.case)
      have ref: "matches_from mk src pat j = (case match_at mk src j pat of
          Some (used, _) \<Rightarrow> (j, used) # matches_from mk src pat (j + used) | None \<Rightarrow> matches_from mk src pat (j + 1))"
        unfolding matches_from.simps[of mk src pat j] if_not_P[OF j'] by (rule refl)
      show ?thesis
      proof (cases "match_at mk src j pat")
        case None
        from 1(1)[OF i Some None "1.prems"] show ?thesis unfolding skip step ref None by simp
      next
        case hit: (Some r)
        obtain used caps where r: "r = (used, caps)" by (cases r)
        from 1(2)[OF i Some hit r[symmetric] "1.prems"] show ?thesis unfolding skip step ref hit r by simp
      qed
    qed
  qed
qed

section \<open>Rewriting\<close>

text \<open>At every position the first gate that matches there is applied; a character where none does stays.\<close>

function rewrite :: "(u8 \<Rightarrow> cstring option) \<Rightarrow> np_gate list \<Rightarrow> u8 list \<Rightarrow> nat \<Rightarrow> u8 list option" where
  "rewrite mk gates src i =
     (if i \<ge> length src then Some []
      else case first_hit mk src i gates of
          None \<Rightarrow> map_option ((#) (src ! i)) (rewrite mk gates src (i + 1))
        | Some (g, used, caps) \<Rightarrow> (case expand mk (ga_replace g) caps of
            None \<Rightarrow> None | Some str \<Rightarrow> map_option ((@) str) (rewrite mk gates src (i + used))))"
  by pat_completeness auto
termination
  by (relation "measure (\<lambda>(mk, gates, src, i). length src - i)") (auto dest: first_hit_positive)

declare rewrite.simps [simp del]

lemma first_hit_none:
  assumes "\<not> can_start mk gates (src ! i)" "i < length src"
  shows "first_hit mk src i gates = None"
proof (cases "first_hit mk src i gates")
  case (Some r)
  then obtain g used caps where "r = (g, used, caps)" by (cases r)
  with Some first_hit_some have "g \<in> set gates" "match_at mk src i (ga_find g) = Some (used, caps)" by blast+
  then show ?thesis using assms match_at_start[of mk src i "ga_find g"] by (auto simp: can_start_def list_ex_iff)
qed simp

lemma rewrite_plain:
  assumes "i + n \<le> length src" "\<And>k. i \<le> k \<Longrightarrow> k < i + n \<Longrightarrow> \<not> can_start mk gates (src ! k)"
  shows "rewrite mk gates src i = map_option ((@) (take n (drop i src))) (rewrite mk gates src (i + n))"
  using assms
proof (induction n arbitrary: i)
  case 0
  then show ?case by (cases "rewrite mk gates src i") simp_all
next
  case (Suc n)
  then have "rewrite mk gates src i = map_option ((#) (src ! i)) (rewrite mk gates src (i + 1))"
    using first_hit_none[of mk gates src i] by (simp add: rewrite.simps[of mk gates src i])
  also have "rewrite mk gates src (i + 1) =
      map_option ((@) (take n (drop (i + 1) src))) (rewrite mk gates src (i + 1 + n))"
    using Suc.prems by (intro Suc.IH) simp_all
  finally show ?case using Suc.prems(1)
    by (simp add: option.map_comp comp_def Cons_nth_drop_Suc[symmetric] add.commute)
qed

lemma out_put_buf: "out_put r bs ob = Some ob' \<Longrightarrow> ou_buf ob' = ou_buf ob @ bs"
  by (auto simp: out_put_def out_reserve_def Let_def split: if_splits)

text \<open>Memory that is always there.\<close>

definition memory_there :: "(nat \<Rightarrow> bool) \<Rightarrow> bool" where
  "memory_there r \<longleftrightarrow> (\<forall>n. r n)"

lemma out_put_ok: "memory_there r \<Longrightarrow> \<exists>ob'. out_put r bs ob = Some ob'"
  by (simp add: out_put_def out_reserve_def Let_def memory_there_def)

lemma out_expand_buf:
  "out_expand r mk rs caps ob = Some ob' \<Longrightarrow> \<exists>str. expand mk rs caps = Some str \<and> ou_buf ob' = ou_buf ob @ str"
proof (induction rs arbitrary: ob)
  case (Cons c rs)
  let ?piece = "case mk c of Some str \<Rightarrow> Some str
    | None \<Rightarrow> (case cap_index c of None \<Rightarrow> Some [c] | Some ci \<Rightarrow> caps ! ci)"
  obtain str ob1 where s: "?piece = Some str" "out_put r str ob = Some ob1" "out_expand r mk rs caps ob1 = Some ob'"
    using Cons.prems by (auto split: option.splits)
  then show ?case using Cons.IH[OF s(3)] out_put_buf[OF s(2)] by auto
qed simp

lemma out_expand_ok:
  assumes "memory_there r" "expand mk rs caps = Some str"
  shows "\<exists>ob'. out_expand r mk rs caps ob = Some ob'"
  using assms(2)
proof (induction rs arbitrary: ob str)
  case (Cons c rs)
  let ?piece = "case mk c of Some str \<Rightarrow> Some str
    | None \<Rightarrow> (case cap_index c of None \<Rightarrow> Some [c] | Some ci \<Rightarrow> caps ! ci)"
  obtain t u where t: "?piece = Some t" "expand mk rs caps = Some u"
    using Cons.prems by (auto split: option.splits)
  obtain ob1 where "out_put r t ob = Some ob1" using out_put_ok[OF assms(1)] by blast
  moreover from t(1) have "out_expand r mk (c # rs) caps ob =
      (case out_put r t ob of None \<Rightarrow> None | Some ob \<Rightarrow> out_expand r mk rs caps ob)"
    by (auto split: option.splits)
  ultimately show ?case using Cons.IH[OF t(2)] by simp
qed simp

lemma patch_loop_rewrites:
  "(\<forall>ob'. patch_loop r mk gates src i ob = Some ob' \<longrightarrow>
      (\<exists>str. rewrite mk gates src i = Some str \<and> ou_buf ob' = ou_buf ob @ str)) \<and>
   (memory_there r \<longrightarrow> rewrite mk gates src i \<noteq> None \<longrightarrow> patch_loop r mk gates src i ob \<noteq> None)"
proof (induction r mk gates src i ob rule: patch_loop.induct)
  case (1 r mk gates src i ob)
  let ?plain = "length (takeWhile (\<lambda>c. \<not> can_start mk gates c) (drop i src))"
  show ?case
  proof (cases "i < length src")
    case False
    then show ?thesis by (simp add: patch_loop.simps rewrite.simps)
  next
    case i: True
    then have i': "\<not> length src \<le> i" by simp
    show ?thesis
    proof (cases "?plain > 0")
      case plain: True
      have "i + ?plain \<le> length src" using length_takeWhile_le[of _ "drop i src"] i
        by (metis add.commute le_diff_conv2 length_drop less_imp_le)
      moreover have "\<not> can_start mk gates (src ! k)" if "i \<le> k" "k < i + ?plain" for k
      proof -
        have "k - i < ?plain" using that by simp
        then have "\<not> can_start mk gates (drop i src ! (k - i))"
          by (metis nth_mem set_takeWhileD takeWhile_nth)
        then show ?thesis using that(1) i by simp
      qed
      ultimately have rw: "rewrite mk gates src i =
          map_option ((@) (take ?plain (drop i src))) (rewrite mk gates src (i + ?plain))"
        by (rule rewrite_plain)
      have step: "patch_loop r mk gates src i ob = (case out_put r (take ?plain (drop i src)) ob of
          None \<Rightarrow> None | Some ob \<Rightarrow> patch_loop r mk gates src (i + ?plain) ob)"
        using i plain by (simp add: patch_loop.simps[of r mk gates src i ob] Let_def del: length_greater_0_conv)
      show ?thesis
      proof (cases "out_put r (take ?plain (drop i src)) ob")
        case None
        then show ?thesis using step out_put_ok[of r "take ?plain (drop i src)" ob] by auto
      next
        case (Some ob1)
        show ?thesis using 1(1)[OF i' refl plain Some] out_put_buf[OF Some] unfolding step rw Some by auto
      qed
    next
      case plain: False
      show ?thesis
      proof (cases "first_hit mk src i gates")
        case None
        have step: "patch_loop r mk gates src i ob = (case out_put r [src ! i] ob of
            None \<Rightarrow> None | Some ob \<Rightarrow> patch_loop r mk gates src (i + 1) ob)"
          using i plain None by (simp add: patch_loop.simps[of r mk gates src i ob] Let_def del: length_greater_0_conv)
        have rw: "rewrite mk gates src i = map_option ((#) (src ! i)) (rewrite mk gates src (i + 1))"
          using i None by (simp add: rewrite.simps[of mk gates src i])
        show ?thesis
        proof (cases "out_put r [src ! i] ob")
          case None
          then show ?thesis using step out_put_ok[of r "[src ! i]" ob] by auto
        next
          case (Some ob1)
          show ?thesis using 1(2)[OF i' refl plain \<open>first_hit mk src i gates = None\<close> Some] out_put_buf[OF Some]
            unfolding step rw Some by auto
        qed
      next
        case hit: (Some h)
        obtain g used caps where h: "h = (g, used, caps)" by (cases h)
        have step: "patch_loop r mk gates src i ob = (case out_expand r mk (ga_replace g) caps ob of
            None \<Rightarrow> None | Some ob \<Rightarrow> patch_loop r mk gates src (i + used) ob)"
          using i plain hit h by (simp add: patch_loop.simps[of r mk gates src i ob] Let_def del: length_greater_0_conv)
        have rw: "rewrite mk gates src i = (case expand mk (ga_replace g) caps of
            None \<Rightarrow> None | Some str \<Rightarrow> map_option ((@) str) (rewrite mk gates src (i + used)))"
          using i hit h by (simp add: rewrite.simps[of mk gates src i])
        show ?thesis
        proof (cases "out_expand r mk (ga_replace g) caps ob")
          case None
          then show ?thesis using step rw out_expand_ok[of r mk "ga_replace g" caps _ ob] by (auto split: option.splits)
        next
          case (Some ob1)
          obtain str where "expand mk (ga_replace g) caps = Some str" "ou_buf ob1 = ou_buf ob @ str"
            using out_expand_buf[OF Some] by blast
          then show ?thesis using 1(3)[OF i' refl plain hit h[symmetric] refl Some] unfolding step rw Some by auto
        qed
      qed
    qed
  qed
qed

text \<open>A replacement whose captures all stand in its pattern can always be put in.\<close>

definition captures_bound :: "(u8 \<Rightarrow> cstring option) \<Rightarrow> np_gate \<Rightarrow> bool" where
  "captures_bound mk g \<longleftrightarrow> list_all (\<lambda>c. mk c \<noteq> None \<or> cap_index c = None \<or> c \<in> set (ga_find g)) (ga_replace g)"

lemma expand_some_iff:
  "expand mk rs caps \<noteq> None \<longleftrightarrow> list_all (\<lambda>c. mk c = None \<longrightarrow> (\<forall>ci. cap_index c = Some ci \<longrightarrow> caps ! ci \<noteq> None)) rs"
  by (induction rs) (auto split: option.splits)

lemma rewrite_total:
  assumes "list_all (captures_bound mk) gates"
  shows "rewrite mk gates src i \<noteq> None"
proof (induction "length src - i" arbitrary: i rule: less_induct)
  case less
  show ?case
  proof (cases "i < length src")
    case False
    then show ?thesis by (simp add: rewrite.simps)
  next
    case True
    show ?thesis
    proof (cases "first_hit mk src i gates")
      case None
      moreover have "rewrite mk gates src (i + 1) \<noteq> None" using True by (intro less) simp
      ultimately show ?thesis using True by (simp add: rewrite.simps[of mk gates src i])
    next
      case (Some h)
      obtain g used caps where h: "h = (g, used, caps)" by (cases h)
      from first_hit_some[OF Some[unfolded h]]
      have g: "g \<in> set gates" and m: "match_at mk src i (ga_find g) = Some (used, caps)" by simp_all
      from match_at_facts[OF m] True have "0 < used" "expand mk (ga_find g) caps \<noteq> None" by simp_all
      moreover from this(2) g assms have "expand mk (ga_replace g) caps \<noteq> None"
        unfolding expand_some_iff captures_bound_def list_all_iff by (metis option.discI)
      then obtain str where "expand mk (ga_replace g) caps = Some str" by blast
      moreover have "rewrite mk gates src (i + used) \<noteq> None" using True calculation(1) by (intro less) simp
      ultimately show ?thesis using True Some h by (simp add: rewrite.simps[of mk gates src i])
    qed
  qed
qed

lemma rewrite_same:
  assumes "list_all (\<lambda>g. ga_replace g = ga_find g) gates"
  shows "rewrite mk gates src i = Some (drop i src)"
proof (induction "length src - i" arbitrary: i rule: less_induct)
  case less
  show ?case
  proof (cases "i < length src")
    case False
    then show ?thesis by (simp add: rewrite.simps)
  next
    case True
    show ?thesis
    proof (cases "first_hit mk src i gates")
      case None
      moreover have "rewrite mk gates src (i + 1) = Some (drop (i + 1) src)" using True by (intro less) simp
      ultimately show ?thesis using True by (simp add: rewrite.simps[of mk gates src i] Cons_nth_drop_Suc)
    next
      case (Some h)
      obtain g used caps where h: "h = (g, used, caps)" by (cases h)
      from first_hit_some[OF Some[unfolded h]]
      have g: "g \<in> set gates" and m: "match_at mk src i (ga_find g) = Some (used, caps)" by simp_all
      from match_at_facts[OF m] True
      have u: "0 < used" "expand mk (ga_find g) caps = Some (take used (drop i src))" by simp_all
      have "rewrite mk gates src (i + used) = Some (drop (i + used) src)" using True u(1) by (intro less) simp
      moreover have "ga_replace g = ga_find g" using g assms by (simp add: list_all_iff)
      moreover have "take used (drop i src) @ drop (i + used) src = drop i src"
        by (metis append_take_drop_id drop_drop add.commute)
      ultimately show ?thesis using True Some h u(2) by (simp add: rewrite.simps[of mk gates src i])
    qed
  qed
qed

section \<open>Which gates\<close>

lemma choose_shape_filter:
  "choose_shape mk src shs shape =
     (case (case shape of None \<Rightarrow> [] | Some sh \<Rightarrow> [sh]) @ filter (\<lambda>sh. count_matches mk src (sh_probe sh) \<noteq> 0) shs of
        [] \<Rightarrow> Some None | [sh] \<Rightarrow> Some (Some sh) | _ \<Rightarrow> None)"
  by (induction shs arbitrary: shape) (auto split: option.splits list.splits)

lemma fixes_on_found:
  assumes "fixes_on mk native fixes src = (on, js)"
  shows "length on = length fixes \<and> (\<forall>k < length fixes. on ! k \<longrightarrow> found_as_expected mk src (fixes ! k))"
  using assms by (auto simp: fixes_on_def Let_def nth_list_update split: if_splits)

lemma library_loop_found:
  assumes "library_loop mk src n gs i = Some on"
  shows "on = map (found_as_expected mk src) gs"
  using assms by (induction gs arbitrary: i on) (auto simp: Let_def split: if_splits)

lemma library_on_found: "g \<in> set (library_on mk src gates wanted) \<Longrightarrow> found_as_expected mk src g"
  by (auto simp: library_on_def set_zip dest!: library_loop_found sym[of "Some _"] split: if_splits option.splits)

lemma settle_page_found:
  assumes "length on = length gates"
  shows "length (settle_page names gates s on) = length gates"
    and "k < length gates \<Longrightarrow> settle_page names gates s on ! k \<Longrightarrow> on ! k"
  using assms by (auto simp: settle_page_def Let_def split: if_splits)

lemma plan_applies_found:
  assumes "np_webpatch_plan mk native tb src = (Some (gates, js), name)" "g \<in> set gates"
  shows "found_as_expected mk src g"
proof -
  obtain shape on js' where s: "choose_shape mk src (tb_shapes tb) None = Some shape"
    "fixes_on mk native (tb_fixes tb) src = (on, js')"
    using assms(1) by (auto simp: np_webpatch_plan_def split: option.splits prod.splits)
  let ?fixes = "map fst (filter snd (zip (tb_fixes tb) on))"
  let ?lib = "library_on mk src (tb_library tb)"
  have fixed: "found_as_expected mk src h" if "h \<in> set ?fixes" for h
    using fixes_on_found[OF s(2)] that by (auto simp: set_zip)
  show ?thesis
  proof (cases shape)
    case None
    then have "gates = ?fixes @ ?lib (on ! (length (tb_fixes tb) - 2) \<or> on ! (length (tb_fixes tb) - 1))"
      using assms(1) s by (auto simp: np_webpatch_plan_def Let_def split: if_splits)
    then show ?thesis using assms(2) fixed library_on_found[of g mk src "tb_library tb"] by auto
  next
    case (Some sh)
    let ?on = "settle_page (tb_barrel tb) (sh_gates sh) src (map (found_as_expected mk src) (sh_gates sh))"
    have "gates = map fst (filter snd (zip (sh_gates sh) ?on)) @ ?fixes @
        ?lib (on ! (length (tb_fixes tb) - 2) \<or> on ! (length (tb_fixes tb) - 1))"
      using Some assms(1) s by (auto simp: np_webpatch_plan_def Let_def split: if_splits)
    moreover have "found_as_expected mk src h" if "h \<in> set (map fst (filter snd (zip (sh_gates sh) ?on)))" for h
    proof -
      from that obtain k where k: "k < length (sh_gates sh)" "?on ! k" "h = sh_gates sh ! k" by (auto simp: set_zip)
      from settle_page_found(2)[OF _ k(1,2)] k(1) have "map (found_as_expected mk src) (sh_gates sh) ! k" by simp
      then show ?thesis using k by simp
    qed
    ultimately show ?thesis using assms(2) fixed library_on_found[of g mk src "tb_library tb"] by auto
  qed
qed

lemma takeWhile_hit:
  "length (takeWhile P xs) < length xs \<Longrightarrow> \<not> P (xs ! length (takeWhile P xs))"
  by (rule nth_length_takeWhile)

text \<open>What the search for the barrel finds: text from one brace to the next that closes, with every name in it.\<close>

lemma barrel_loop_facts:
  assumes "barrel_loop names s anchor i = Some (off, n)"
  shows "off + n \<le> length s \<and> 2 \<le> n \<and> s ! off = 123 \<and> s ! (off + n - 1) = 125 \<and>
    list_all (barrel_has (take (n - 1) (drop off s))) names"
  using assms
proof (induction names s anchor i rule: barrel_loop.induct)
  case (1 names s anchor i)
  obtain at where at: "memmem_from s i anchor = Some at"
    using "1.prems" by (subst (asm) barrel_loop.simps) (auto split: option.splits)
  let ?op = "barrel_open s at" and ?cl = "barrel_close s at"
  note unf = barrel_loop.simps[of names s anchor i] at option.case Let_def
  show ?case
  proof (cases "?op = 0 \<or> s ! (?op - 1) \<noteq> 123 \<or> ?cl \<ge> length s \<or> s ! ?cl \<noteq> 125")
    case True
    from "1.prems"[unfolded unf if_P[OF True]] show ?thesis
      by (rule "1.IH"(1)[OF at refl refl True])
  next
    case bad: False
    show ?thesis
    proof (cases "list_all (barrel_has (take (?cl - ?op + 1) (drop (?op - 1) s))) names")
      case False
      from "1.prems"[unfolded unf if_not_P[OF bad] if_not_P[OF False]] show ?thesis
        by (rule "1.IH"(2)[OF at refl refl bad False])
    next
      case True
      have "?op \<le> at" "at \<le> ?cl" by (simp_all add: barrel_open_def barrel_close_def)
      moreover from "1.prems"[unfolded unf if_not_P[OF bad] if_P[OF True]] have "off = ?op - 1" "n = ?cl - ?op + 2"
        by simp_all
      ultimately show ?thesis using bad True by auto
    qed
  qed
qed

lemma transform_parts:
  assumes "np_webpatch_plan mk native tb src = (Some (gates, js), name)"
  shows "snd (np_webpatch_transform r mk native tb src) = name"
    and "fst (np_webpatch_transform r mk native tb src) \<noteq> None \<Longrightarrow>
      fst (np_webpatch_transform r mk native tb src) =
        map_option ((@) (case js of None \<Rightarrow> [] | Some js \<Rightarrow> js @ tb_runs_exe_js tb)) (rewrite mk gates src 0)"
proof -
  show "snd (np_webpatch_transform r mk native tb src) = name"
    using assms by (simp add: np_webpatch_transform_def Let_def)
  assume "fst (np_webpatch_transform r mk native tb src) \<noteq> None"
  then show "fst (np_webpatch_transform r mk native tb src) =
      map_option ((@) (case js of None \<Rightarrow> [] | Some js \<Rightarrow> js @ tb_runs_exe_js tb)) (rewrite mk gates src 0)"
    using assms patch_loop_rewrites[of r mk gates src 0]
    by (fastforce simp: np_webpatch_transform_def Let_def out_reserve_def dest!: out_put_buf split: option.splits if_splits)
qed

lemma transform_made:
  assumes "np_webpatch_plan mk native tb src = (Some (gates, js), name)" "rewrite mk gates src 0 \<noteq> None"
  shows "fst (np_webpatch_transform (\<lambda>_. True) mk native tb src) \<noteq> None"
proof -
  have m: "memory_there (\<lambda>_. True)" by (simp add: memory_there_def)
  obtain ob where ob: "(case js of None \<Rightarrow> Some \<lparr>ou_buf = [], ou_cap = 0\<rparr>
     | Some js \<Rightarrow> (case out_put (\<lambda>_. True) js \<lparr>ou_buf = [], ou_cap = 0\<rparr> of
         None \<Rightarrow> None | Some ob \<Rightarrow> out_put (\<lambda>_. True) (tb_runs_exe_js tb) ob)) = Some ob"
  proof (cases js)
    case (Some t)
    obtain ob1 where "out_put (\<lambda>_. True) t \<lparr>ou_buf = [], ou_cap = 0\<rparr> = Some ob1" using out_put_ok[OF m] by blast
    moreover obtain ob where "out_put (\<lambda>_. True) (tb_runs_exe_js tb) ob1 = Some ob" using out_put_ok[OF m] by blast
    ultimately show ?thesis using that Some by simp
  qed simp
  obtain ob' where "patch_loop (\<lambda>_. True) mk gates src 0 ob = Some ob'"
    using patch_loop_rewrites[of "\<lambda>_. True" mk gates src 0 ob] m assms(2) by blast
  then show ?thesis using assms(1) ob by (simp add: np_webpatch_transform_def Let_def out_reserve_def)
qed

section \<open>Properties\<close>

text \<open>C4. Rewriting a page is the scan that tries the gates at every position: with memory there the output is
  the platform list with its script, where there is one, and then the source with every match, found from the left,
  replaced by the first gate that matches there; and where memory is short, the output is that or none at all.
  Passing over the characters no pattern begins with changes nothing.\<close>

theorem patch_is_rewrite:
  assumes "np_webpatch_plan mk native tb src = (Some (gates, js), name)"
  shows "let out = map_option ((@) (case js of None \<Rightarrow> [] | Some js \<Rightarrow> js @ tb_runs_exe_js tb)) (rewrite mk gates src 0) in
      np_webpatch_transform (\<lambda>_. True) mk native tb src = (out, name) \<and>
      (np_webpatch_transform mem mk native tb src = (out, name) \<or>
       np_webpatch_transform mem mk native tb src = (None, name))"
proof -
  let ?out = "map_option ((@) (case js of None \<Rightarrow> [] | Some js \<Rightarrow> js @ tb_runs_exe_js tb)) (rewrite mk gates src 0)"
  note parts = transform_parts[OF assms]
  have each: "np_webpatch_transform r mk native tb src = (?out, name) \<or> np_webpatch_transform r mk native tb src = (None, name)"
    for r using parts(1)[of r] parts(2)[of r] by (cases "fst (np_webpatch_transform r mk native tb src)") (simp_all add: prod_eq_iff)
  have "np_webpatch_transform (\<lambda>_. True) mk native tb src = (?out, name)"
    using each[of "\<lambda>_. True"] transform_made[OF assms] by (cases "rewrite mk gates src 0") auto
  then show ?thesis using each[of mem] by simp
qed

text \<open>A page with one gate, which takes the name in front of a bracket.\<close>

definition sample_gate :: np_gate where
  "sample_gate = \<lparr>ga_find = [1, 40], ga_replace = [40, 1], ga_expect = 2, ga_optional = 0\<rparr>"

definition sample_tables :: page_tables where
  "sample_tables = \<lparr>
     tb_shapes = [\<lparr>sh_name = [117], sh_probe = [59], sh_gates = [sample_gate]\<rparr>],
     tb_fixes = [\<lparr>ga_find = [35], ga_replace = [], ga_expect = 1, ga_optional = 0\<rparr>,
       \<lparr>ga_find = [38], ga_replace = [], ga_expect = 1, ga_optional = 0\<rparr>],
     tb_library = [], tb_barrel = [[66]], tb_runs_exe_js = []\<rparr>"

lemma sample_plan:
  "np_webpatch_plan (\<lambda>_. None) (\<lambda>_. None) sample_tables [102, 40, 103, 40, 59] =
     (Some ([sample_gate], None), Some [117])"
  by code_simp

theorem patch_is_rewrite_witness:
  "np_webpatch_transform (\<lambda>_. True) (\<lambda>_. None) (\<lambda>_. None) sample_tables [102, 40, 103, 40, 59] =
     (Some [40, 102, 40, 103, 59], Some [117])"
proof -
  have "rewrite (\<lambda>_. None) [sample_gate] [102, 40, 103, 40, 59] 0 = Some [40, 102, 40, 103, 59]"
    by code_simp
  with patch_is_rewrite[OF sample_plan, of "\<lambda>_. True"] show ?thesis by (simp add: Let_def)
qed

text \<open>C21. Counting the matches of a pattern by jumping to the text it begins with counts the matches of the scan that
  tries every position, one behind the other.\<close>

theorem counts_are_matches: "count_matches mk src pat = length (matches_from mk src pat 0)"
  unfolding count_matches_def by (rule count_loop_matches[OF refl])

text \<open>C22. What a pattern matches is the pattern read with its captures put in, text that is not empty and lies in the
  source; and every capture is the name of an identifier, not empty and not beginning with a digit.\<close>

theorem match_reads_back:
  assumes "match_at mk src pos pat = Some (used, caps)" "pos \<le> length src"
  shows "0 < used \<and> pos + used \<le> length src \<and> expand mk pat caps = Some (take used (drop pos src)) \<and>
    list_all (\<lambda>c. \<forall>t. c = Some t \<longrightarrow> capture_ok t) caps"
  by (rule match_at_facts[OF assms])

theorem match_reads_back_witness:
  "expand (\<lambda>_. None) [1, 46, 1] (Some [97, 98] # replicate 11 None) = Some [97, 98, 46, 97, 98]"
proof -
  have "match_at (\<lambda>_. None) [97, 98, 46, 97, 98, 59] 0 [1, 46, 1] = Some (5, Some [97, 98] # replicate 11 None)"
    by code_simp
  from match_reads_back[OF this] show ?thesis by simp
qed

text \<open>The gates a page is rewritten by are each found in it exactly as often as they expect.\<close>

theorem applied_gates_are_found:
  assumes "np_webpatch_plan mk native tb src = (Some (gates, js), name)" "g \<in> set gates"
  shows "count_matches mk src (ga_find g) = ga_expect g"
  using plan_applies_found[OF assms] by (simp add: found_as_expected_def)

theorem applied_gates_are_found_witness:
  "count_matches (\<lambda>_. None) [102, 40, 103, 40, 59] (ga_find sample_gate) = 2"
  using applied_gates_are_found[OF sample_plan, of sample_gate] by (simp add: sample_gate_def)

text \<open>C12. A page is rewritten only when it carries at most one shape of the compatibility page, and when it carries
  one, only when every gate of that shape which is required is found exactly as often as it expects.\<close>

theorem one_shape_and_whole:
  assumes "np_webpatch_transform mem mk native tb src = (Some out, name)"
  shows "case filter (\<lambda>sh. 0 < count_matches mk src (sh_probe sh)) (tb_shapes tb) of
      [] \<Rightarrow> name = None
    | [sh] \<Rightarrow> name = Some (sh_name sh) \<and>
        list_all (\<lambda>g. ga_optional g = 0 \<longrightarrow> count_matches mk src (ga_find g) = ga_expect g) (sh_gates sh)
    | _ \<Rightarrow> False"
proof -
  obtain gates js where plan: "np_webpatch_plan mk native tb src = (Some (gates, js), name)"
    using assms by (auto simp: np_webpatch_transform_def Let_def split: prod.splits option.splits)
  then obtain shape where shape: "choose_shape mk src (tb_shapes tb) None = Some shape"
    by (auto simp: np_webpatch_plan_def split: option.splits)
  show ?thesis
  proof (cases shape)
    case None
    then have "name = None" using plan shape
      by (auto simp: np_webpatch_plan_def Let_def split: prod.splits if_splits)
    moreover have "filter (\<lambda>sh. 0 < count_matches mk src (sh_probe sh)) (tb_shapes tb) = []"
      using shape None by (simp add: choose_shape_filter split: list.splits)
    ultimately show ?thesis by simp
  next
    case (Some sh)
    then have "filter (\<lambda>sh. 0 < count_matches mk src (sh_probe sh)) (tb_shapes tb) = [sh]"
      using shape by (simp add: choose_shape_filter split: list.splits)
    moreover have "name = Some (sh_name sh)"
      "\<not> list_ex (\<lambda>(g, b). \<not> b \<and> ga_optional g = 0) (zip (sh_gates sh) (map (found_as_expected mk src) (sh_gates sh)))"
      using plan shape Some by (auto simp: np_webpatch_plan_def Let_def split: prod.splits if_splits)
    ultimately show ?thesis
      by (auto simp: list_ex_iff list_all_iff zip_map2 zip_same_conv_map found_as_expected_def)
  qed
qed

theorem one_shape_and_whole_witness:
  "0 < count_matches (\<lambda>_. None) [102, 40, 103, 40, 59] [59]"
proof -
  have t: "np_webpatch_transform (\<lambda>_. True) (\<lambda>_. None) (\<lambda>_. None) sample_tables [102, 40, 103, 40, 59] =
      (Some [40, 102, 40, 103, 59], Some [117])" by code_simp
  from one_shape_and_whole[OF t] show ?thesis by (auto simp: sample_tables_def split: if_splits)
qed

text \<open>The gates of the settings page are applied together or not at all: where one of them stays on, all were
  found, and so was the text between braces that names every component the page takes.\<close>

theorem page_gates_together:
  assumes "k < length gates" "length on = length gates"
    and "settle_page names gates src on ! k" "ga_optional (gates ! k) = NP_GATE_PAGE"
  shows "settle_page names gates src on = on \<and> (\<forall>j < length gates. ga_optional (gates ! j) = NP_GATE_PAGE \<longrightarrow> on ! j) \<and>
    (\<exists>off n. find_barrel names src = Some (off, n) \<and> off + n \<le> length src \<and> src ! off = 123 \<and>
      src ! (off + n - 1) = 125 \<and> list_all (barrel_has (take (n - 1) (drop off src))) names)"
proof -
  have "on ! k" using settle_page_found(2)[OF assms(2,1,3)] .
  then have ex: "list_ex (\<lambda>b. b) (map snd (filter (\<lambda>(g, _). ga_optional g = NP_GATE_PAGE) (zip gates on)))"
    using assms by (auto simp: list_ex_iff in_set_zip) 
  have no: "settle_page names gates src on = on \<and> \<not> list_ex Not (map snd (filter (\<lambda>(g, _). ga_optional g = NP_GATE_PAGE) (zip gates on)))
      \<and> find_barrel names src \<noteq> None"
    using assms ex by (auto simp: settle_page_def Let_def split: if_splits)
  then obtain off n where b: "find_barrel names src = Some (off, n)" by auto
  moreover have "\<forall>j < length gates. ga_optional (gates ! j) = NP_GATE_PAGE \<longrightarrow> on ! j"
    using no assms(2) by (force simp: list_ex_iff in_set_zip)
  ultimately show ?thesis using no barrel_loop_facts[OF b[unfolded find_barrel_def]] by auto
qed

theorem page_gates_together_witness:
  "find_barrel [[66]] (cstr ''{B:()=>1}'') \<noteq> None"
proof -
  have "settle_page [[66]] [\<lparr>ga_find = [66], ga_replace = [], ga_expect = 1, ga_optional = 2\<rparr>] (cstr ''{B:()=>1}'') [True] ! 0"
    by code_simp
  from page_gates_together[OF _ _ this] show ?thesis by (auto simp: NP_GATE_PAGE_def)
qed

text \<open>Gates whose replacements use no capture their patterns lack are always applied to the end of a page, and
  gates that put back what they match leave the page as it is.\<close>

theorem rewriting_is_total:
  "(list_all (captures_bound mk) gates \<longrightarrow> patch_loop (\<lambda>_. True) mk gates src i ob \<noteq> None) \<and>
   (list_all (\<lambda>g. ga_replace g = ga_find g) gates \<longrightarrow>
      map_option ou_buf (patch_loop (\<lambda>_. True) mk gates src i ob) = Some (ou_buf ob @ drop i src))"
proof -
  have m: "memory_there (\<lambda>_. True)" by (simp add: memory_there_def)
  note pl = patch_loop_rewrites[of "\<lambda>_. True" mk gates src i ob]
  show ?thesis using pl m rewrite_total[of mk gates src i] rewrite_same[of gates mk src i] by auto
qed

theorem rewriting_is_total_witness:
  "patch_loop (\<lambda>_. True) (\<lambda>_. None) [sample_gate] [102, 40] 0 \<lparr>ou_buf = [], ou_cap = 0\<rparr> \<noteq> None"
  using rewriting_is_total[of "\<lambda>_. None" "[sample_gate]" "[102, 40]" 0 "\<lparr>ou_buf = [], ou_cap = 0\<rparr>"]
  by (simp add: captures_bound_def sample_gate_def)

end
