(* ===== verification/Ceg.thy ===== *)
theory Ceg
  imports File_Sys Pe A64 Spawn
begin

text \<open>
  Games whose executable the client customizes (CEG), \<^verbatim>\<open>src/dylib/feats/ceg.c\<close>: the identifiers in an
  executable, the layout of the client's download job, the table of apps, and the service calls that are
  run by a compatibility tool and answered through files. What a child process does, and when, is given to
  the definitions.
\<close>

section \<open>Identifiers in an executable\<close>

definition NP_CEG_CALL_OK :: u32 where "NP_CEG_CALL_OK = 1"
definition NP_CEG_CALL_NO_MODULE :: u32 where "NP_CEG_CALL_NO_MODULE = 2"
definition NP_CEG_CALL_FAILED :: u32 where "NP_CEG_CALL_FAILED = 12"
definition NP_CEG_CALL_TOO_BIG :: u32 where "NP_CEG_CALL_TOO_BIG = 15"

definition NP_CEG_CALL_TIMEOUT_S :: nat where "NP_CEG_CALL_TIMEOUT_S = 300"
definition NP_CEG_EXE_MAX :: nat where "NP_CEG_EXE_MAX = 256 * 2 ^ 20"

record np_ceg_guids =
  gd_drm :: "u8 list"
  gd_split :: "u8 list"
  gd_merge :: "u8 list"

definition read_guid :: "np_pe_view \<Rightarrow> cstring \<Rightarrow> u8 list option" where
  "read_guid pe name = (case np_pe_rcdata pe name of
     None \<Rightarrow> None
   | Some (at, sz) \<Rightarrow> if sz \<noteq> 16 then None else Some (take 16 (drop at (pe_p pe))))"

text \<open>An identifier that is not there is sixteen zeros, except the first, without which there are none.\<close>

definition guid_or_zero :: "u8 list option \<Rightarrow> u8 list" where
  "guid_or_zero g = (case g of None \<Rightarrow> replicate 16 0 | Some bs \<Rightarrow> bs)"

definition np_ceg_guids_from_image :: "u8 list \<Rightarrow> np_ceg_guids option" where
  "np_ceg_guids_from_image img = (case np_pe_open img of
     None \<Rightarrow> None
   | Some pe \<Rightarrow> (case read_guid pe (cstr ''STEAM_GUIDD'') of
       None \<Rightarrow> None
     | Some drm \<Rightarrow> Some \<lparr>gd_drm = drm, gd_split = guid_or_zero (read_guid pe (cstr ''STEAM_SPLIT_GUID'')),
         gd_merge = guid_or_zero (read_guid pe (cstr ''STEAM_MINSTANCE''))\<rparr>))"

definition np_ceg_read_guids :: "disk \<Rightarrow> cstring \<Rightarrow> fs \<Rightarrow> np_ceg_guids option" where
  "np_ceg_read_guids dk exe fs = (case np_read_file_max dk exe NP_CEG_EXE_MAX fs of
     None \<Rightarrow> None | Some img \<Rightarrow> np_ceg_guids_from_image img)"

section \<open>The layout of the download job\<close>

record np_ceg_job_layout =
  jl_appid :: u32
  jl_flags :: u32
  jl_guids :: u32
  jl_path :: u32

definition np_ceg_job_baseline :: np_ceg_job_layout where
  "np_ceg_job_baseline = \<lparr>jl_appid = 364, jl_flags = 392, jl_guids = 424, jl_path = 472\<rparr>"

definition NP_CEG_FLAG_PROTON_BIT :: u32 where "NP_CEG_FLAG_PROTON_BIT = 7"

definition reg_bit :: "u32 \<Rightarrow> u32" where
  "reg_bit r = push_bit (unat r) 1"

text \<open>\<open>bases\<close> has a bit for each register that holds the job. Whether the next word tests the bit of a flag just
  loaded is \<open>tests_flag\<close>.\<close>

definition tests_flag :: "u32 \<Rightarrow> u32 list \<Rightarrow> bool" where
  "tests_flag rt ws = (case ws of [] \<Rightarrow> False | w # _ \<Rightarrow> (case a64_tbz w of
     None \<Rightarrow> False | Some (rd, b) \<Rightarrow> rd = rt \<and> b = NP_CEG_FLAG_PROTON_BIT))"

fun probe_fields :: "u32 \<Rightarrow> u32 \<Rightarrow> u32 \<Rightarrow> u32 \<Rightarrow> u32 list \<Rightarrow> u32 \<times> u32 \<times> u32" where
  "probe_fields bases appid flags path [] = (appid, flags, path)"
| "probe_fields bases appid flags path (w # ws) =
     (if appid \<noteq> 0 \<and> flags \<noteq> 0 \<and> path \<noteq> 0 then (appid, flags, path)
      else if a64_bl 0 w \<noteq> None \<or> w = 0xD65F03C0 then (appid, flags, path)
      else case a64_mov w of
          Some (rd, rn) \<Rightarrow>
            probe_fields (if bases AND reg_bit rn \<noteq> 0 then bases OR reg_bit rd else bases) appid flags path ws
        | None \<Rightarrow> (case a64_ldrb_uimm w of
          Some (rn, rt, off) \<Rightarrow>
            probe_fields (bases AND NOT (reg_bit rt)) appid
              (if flags = 0 \<and> bases AND reg_bit rn \<noteq> 0 \<and> tests_flag rt ws then off else flags) path ws
        | None \<Rightarrow> (case a64_ldr_uimm w True of
          Some (rn, rt, off) \<Rightarrow>
            probe_fields (bases AND NOT (reg_bit rt)) appid flags
              (if path = 0 \<and> bases AND reg_bit rn \<noteq> 0 then off else path) ws
        | None \<Rightarrow> (case a64_ldr_uimm w False of
          Some (rn, rt, off) \<Rightarrow>
            probe_fields (bases AND NOT (reg_bit rt))
              (if appid = 0 \<and> bases AND reg_bit rn \<noteq> 0 then off else appid) flags path ws
        | None \<Rightarrow> probe_fields bases appid flags path ws))))"

definition np_ceg_probe_job_layout :: "u32 list \<Rightarrow> np_ceg_job_layout option" where
  "np_ceg_probe_job_layout code = (case probe_fields (reg_bit 0) 0 0 0 code of (appid, flags, path) \<Rightarrow>
     if appid = 0 \<or> flags = 0 \<or> path = 0 then None
     else
       let shift = path - jl_path np_ceg_job_baseline in
       if appid - jl_appid np_ceg_job_baseline \<noteq> shift \<or> flags - jl_flags np_ceg_job_baseline \<noteq> shift then None
       else Some \<lparr>jl_appid = appid, jl_flags = flags, jl_guids = jl_guids np_ceg_job_baseline + shift, jl_path = path\<rparr>)"

section \<open>The table of apps\<close>

record np_ceg_app =
  ap_appid :: u32
  ap_tool :: cstring
  ap_install :: cstring
  ap_library :: cstring

definition NP_CEG_APPS :: nat where "NP_CEG_APPS = 16"

definition no_app :: np_ceg_app where
  "no_app = \<lparr>ap_appid = 0, ap_tool = [], ap_install = [], ap_library = []\<rparr>"

text \<open>The state of the file: the table and its ring counter, the directory of the client, the environment that
  was kept, the group of a call that runs, whether the client is stopping, the files of the call that runs.\<close>

record ceg_state =
  g_apps :: "np_ceg_app list"
  g_next_app :: u32
  g_client_dir :: cstring
  g_env :: "cstring list option"
  g_call_pgid :: nat
  g_stopping :: bool
  g_active_in :: cstring
  g_active_out :: cstring

definition ceg_start :: ceg_state where
  "ceg_start = \<lparr>g_apps = replicate NP_CEG_APPS no_app, g_next_app = 0, g_client_dir = [], g_env = None,
     g_call_pgid = 0, g_stopping = False, g_active_in = [], g_active_out = []\<rparr>"

fun index_of :: "(np_ceg_app \<Rightarrow> bool) \<Rightarrow> np_ceg_app list \<Rightarrow> nat option" where
  "index_of P [] = None"
| "index_of P (a # as) = (if P a then Some 0 else map_option Suc (index_of P as))"

definition slot_for :: "u32 \<Rightarrow> ceg_state \<Rightarrow> nat \<times> ceg_state" where
  "slot_for appid st = (case index_of (\<lambda>a. ap_appid a = appid) (g_apps st) of
     Some i \<Rightarrow> (i, st)
   | None \<Rightarrow>
       let i = unat (g_next_app st) mod NP_CEG_APPS
       in (i, st\<lparr>g_next_app := g_next_app st + 1, g_apps := (g_apps st)[i := no_app\<lparr>ap_appid := appid\<rparr>]\<rparr>))"

definition np_ceg_note_tool :: "u32 \<Rightarrow> cstring option \<Rightarrow> ceg_state \<Rightarrow> ceg_state" where
  "np_ceg_note_tool appid tool_dir st =
     (if appid = 0 then st
      else case slot_for appid st of (i, st) \<Rightarrow>
        st\<lparr>g_apps := (g_apps st)[i := (g_apps st ! i)\<lparr>
          ap_tool := c_copy 1024 (case tool_dir of None \<Rightarrow> [] | Some d \<Rightarrow> d), ap_install := [], ap_library := []\<rparr>]\<rparr>)"

definition np_ceg_tool_for_app :: "u32 \<Rightarrow> nat \<Rightarrow> ceg_state \<Rightarrow> cstring option" where
  "np_ceg_tool_for_app appid sz st =
     map_option (\<lambda>a. c_copy sz (ap_tool a))
       (find (\<lambda>a. appid \<noteq> 0 \<and> ap_appid a = appid \<and> ap_tool a \<noteq> []) (g_apps st))"

text \<open>Where a string first occurs in another.\<close>

definition c_strstr :: "cstring \<Rightarrow> cstring \<Rightarrow> nat option" where
  "c_strstr s pat = find (\<lambda>i. has_prefix pat (drop i s)) [0..<Suc (length s)]"

text \<open>The parts of the path of an executable: the library, and the directory of the game in it.\<close>

definition app_dirs :: "cstring \<Rightarrow> (cstring \<times> cstring) option" where
  "app_dirs exe = (case c_strstr exe (cstr ''/steamapps/common/'') of
     None \<Rightarrow> None
   | Some at \<Rightarrow> (case str_split 47 (drop (at + 18) exe) of
       None \<Rightarrow> None
     | Some (name, _) \<Rightarrow>
         if name = [] then None
         else Some (take (at + 18 + length name) exe, take at exe @ cstr ''/steamapps'')))"

definition np_ceg_note_app :: "u32 \<Rightarrow> cstring option \<Rightarrow> ceg_state \<Rightarrow> bool \<times> ceg_state" where
  "np_ceg_note_app appid exe st = (case Option.bind exe app_dirs of
     None \<Rightarrow> (False, st)
   | Some (install, library) \<Rightarrow>
       (case index_of (\<lambda>a. appid \<noteq> 0 \<and> ap_appid a = appid \<and> ap_tool a \<noteq> []) (g_apps st) of
          None \<Rightarrow> (False, st)
        | Some i \<Rightarrow> (True, st\<lparr>g_apps := (g_apps st)[i := (g_apps st ! i)\<lparr>
            ap_install := c_copy 1024 install, ap_library := c_copy 1024 library\<rparr>]\<rparr>)))"

definition find_app :: "u32 \<Rightarrow> ceg_state \<Rightarrow> np_ceg_app option" where
  "find_app appid st =
     find (\<lambda>a. appid \<noteq> 0 \<and> ap_appid a = appid \<and> ap_tool a \<noteq> [] \<and> ap_install a \<noteq> []) (g_apps st)"

section \<open>The environment of a call\<close>

text \<open>\<open>env\<close> is the copy of the environment, absent where there was no memory for it.\<close>

definition np_ceg_snapshot_env :: "cstring list option \<Rightarrow> ceg_state \<Rightarrow> ceg_state" where
  "np_ceg_snapshot_env env st = (if g_env st = None then st\<lparr>g_env := env\<rparr> else st)"

definition np_ceg_set_service :: "cstring option \<Rightarrow> ceg_state \<Rightarrow> ceg_state" where
  "np_ceg_set_service client_dir st =
     st\<lparr>g_client_dir := c_copy 1024 (case client_dir of None \<Rightarrow> [] | Some d \<Rightarrow> d)\<rparr>"

definition np_game_identity :: "cstring list" where
  "np_game_identity = [cstr ''SteamGameId='', cstr ''SteamAppId='']"

definition call_vars :: "np_ceg_app \<Rightarrow> cstring \<Rightarrow> cstring list" where
  "call_vars app client = map (c_copy 1100)
     [cstr ''STEAM_COMPAT_APP_ID='' @ dec_str (unat (ap_appid app)),
      cstr ''STEAM_COMPAT_DATA_PATH='' @ ap_library app @ cstr ''/compatdata/'' @ dec_str (unat (ap_appid app)),
      cstr ''STEAM_COMPAT_INSTALL_PATH='' @ ap_install app,
      cstr ''STEAM_COMPAT_CLIENT_INSTALL_PATH='' @ client,
      cstr ''STEAM_COMPAT_LIBRARY_PATHS='' @ ap_library app,
      cstr ''STEAM_COMPAT_TOOL_PATHS='' @ ap_tool app,
      cstr ''STEAM_COMPAT_PROTON=1'',
      cstr ''PROTON_HIDE_PROCESS_WINDOW=1'']"

text \<open>The key of an entry, up to its \<^verbatim>\<open>=\<close>.\<close>

definition entry_key :: "cstring \<Rightarrow> cstring" where
  "entry_key e = takeWhile (\<lambda>c. c \<noteq> 61) e @ [61]"

definition call_env :: "np_ceg_app \<Rightarrow> cstring \<Rightarrow> cstring list \<Rightarrow> cstring list" where
  "call_env app client env =
     (let vars = call_vars app client in
      filter (\<lambda>e. \<not> list_ex (\<lambda>v. has_prefix (entry_key v) e) vars \<and> \<not> list_ex (\<lambda>k. has_prefix k e) np_game_identity) env @
      vars)"

section \<open>Waiting for a child\<close>

text \<open>What a look at the child shows, and what waiting for its end gives.\<close>

datatype wait_obs = Gone | Still | No_child | Interrupted | Wait_error

datatype exit_status = Exited nat | Signaled

datatype reap_obs = Reaped exit_status | Reap_no_child | Reap_interrupted | Reap_error

datatype signal = SIGTERM | SIGKILL

definition NP_RUN_FAILED :: int where "NP_RUN_FAILED = - 1"
definition NP_RUN_UNKNOWN :: int where "NP_RUN_UNKNOWN = - 2"

text \<open>An answer is none while the looks given do not decide.\<close>

fun reap :: "reap_obs list \<Rightarrow> (int + exit_status) option" where
  "reap [] = None"
| "reap (r # rs) = (case r of
     Reaped s \<Rightarrow> Some (Inr s)
   | Reap_no_child \<Rightarrow> Some (Inl NP_RUN_UNKNOWN)
   | Reap_interrupted \<Rightarrow> reap rs
   | Reap_error \<Rightarrow> Some (Inl NP_RUN_FAILED))"

datatype wait_end = Ended | Lost int | Killed bool

text \<open>Each look comes with the time and whether the client is stopping, which are read behind it.\<close>

fun wait_loop :: "nat \<Rightarrow> (wait_obs \<times> nat \<times> bool) list \<Rightarrow> wait_end option" where
  "wait_loop deadline [] = None"
| "wait_loop deadline ((look, now, stopping) # looks) = (case look of
     Gone \<Rightarrow> Some Ended
   | No_child \<Rightarrow> Some (Lost NP_RUN_UNKNOWN)
   | Wait_error \<Rightarrow> Some (Lost NP_RUN_FAILED)
   | _ \<Rightarrow> if stopping \<or> now > deadline then Some (Killed stopping) else wait_loop deadline looks)"

definition wait_for_helper ::
  "nat \<Rightarrow> (wait_obs \<times> nat \<times> bool) list \<Rightarrow> reap_obs list \<Rightarrow> (int \<times> signal list) option" where
  "wait_for_helper start looks reaps = (case wait_loop (start + NP_CEG_CALL_TIMEOUT_S) looks of
     None \<Rightarrow> None
   | Some (Lost rc) \<Rightarrow> Some (rc, [])
   | Some (Killed stopping) \<Rightarrow> map_option (\<lambda>_. (NP_RUN_FAILED, [SIGTERM, SIGKILL])) (reap reaps)
   | Some Ended \<Rightarrow> map_option (\<lambda>r. (case r of
         Inl rc \<Rightarrow> rc | Inr (Exited code) \<Rightarrow> int code | Inr Signaled \<Rightarrow> NP_RUN_FAILED, [])) (reap reaps))"

section \<open>A service call\<close>

text \<open>A child: whether its attributes and the process were made, how it ends, what it leaves of the files.\<close>

record helper_run =
  hr_attr :: bool
  hr_pid :: nat
  hr_start :: nat
  hr_looks :: "(wait_obs \<times> nat \<times> bool) list"
  hr_reaps :: "reap_obs list"
  hr_fs :: fs

text \<open>\<open>helper\<close> is what becomes of a process started with arguments and an environment in a directory; a process
  number is never 0. The result is none where the child is still waited for.\<close>

definition set_call_pgid :: "nat \<Rightarrow> ceg_state \<Rightarrow> ceg_state" where
  "set_call_pgid pgid st = st\<lparr>g_call_pgid := pgid\<rparr>"

definition run_in_prefix ::
  "(cstring list \<Rightarrow> cstring list \<Rightarrow> cstring \<Rightarrow> fs \<Rightarrow> helper_run) \<Rightarrow> bool \<Rightarrow> np_ceg_app \<Rightarrow> cstring list \<Rightarrow>
     ceg_state \<Rightarrow> fs \<Rightarrow> (int \<times> signal list \<times> ceg_state \<times> fs) option" where
  "run_in_prefix helper calloc_ok app argv st fs = (case g_env st of
     None \<Rightarrow> Some (NP_RUN_FAILED, [], st, fs)
   | Some env \<Rightarrow>
       if \<not> calloc_ok then Some (NP_RUN_FAILED, [], st, fs)
       else let h = helper argv (call_env app (g_client_dir st) env) (g_client_dir st) fs in
         if \<not> hr_attr h \<or> hr_pid h = 0 then Some (NP_RUN_FAILED, [], st, fs)
         else
           let st = set_call_pgid (hr_pid h) st
           in map_option (\<lambda>(rc, sigs). (rc, sigs, set_call_pgid 0 st, hr_fs h))
                (wait_for_helper (hr_start h) (hr_looks h) (hr_reaps h)))"

definition sys_mkdir :: "disk \<Rightarrow> cstring \<Rightarrow> fs \<Rightarrow> bool \<times> fs" where
  "sys_mkdir dk path fs = (case map_of fs path of
     Some _ \<Rightarrow> (True, fs)
   | None \<Rightarrow> if dk_create dk path then (True, AList.update path Dir fs) else (False, fs))"

definition place_module :: "disk \<Rightarrow> cstring \<Rightarrow> u8 list \<Rightarrow> fs \<Rightarrow> bool \<times> fs" where
  "place_module dk dll module fs =
     (if np_read_file_max dk dll (length module) fs = Some module then (True, fs)
      else np_write_file_new dk dll module fs)"

record call_paths =
  cp_legacy :: cstring
  cp_dll :: cstring
  cp_in :: cstring
  cp_out :: cstring

definition call_paths_of :: "cstring \<Rightarrow> u32 \<Rightarrow> u32 \<Rightarrow> call_paths" where
  "call_paths_of client crc callid =
     (let legacy = c_copy 1100 (client @ cstr ''/legacycompat'') in
      \<lparr>cp_legacy = legacy,
       cp_dll = c_copy 1200 (legacy @ cstr ''/servicecall_'' @ dec_str (unat crc) @ cstr ''.dll''),
       cp_in = c_copy 1200 (legacy @ cstr ''/servicecall_'' @ dec_str (unat callid) @ cstr ''.in''),
       cp_out = c_copy 1200 (legacy @ cstr ''/servicecall_'' @ dec_str (unat callid) @ cstr ''.out'')\<rparr>)"

definition call_argv :: "np_ceg_app \<Rightarrow> cstring \<Rightarrow> u32 \<Rightarrow> u32 \<Rightarrow> u32 \<Rightarrow> u32 \<Rightarrow> cstring list" where
  "call_argv app legacy crc fn callid max_out =
     [c_copy 1200 (ap_tool app @ cstr ''/run''), cstr ''run'', c_copy 1200 (legacy @ cstr ''/SteamService.exe''),
      cstr ''/runfunc'', dec_str (unat crc), dec_str (unat fn), dec_str (unat callid), dec_str (unat max_out)]"

record call_result =
  cr_result :: u32
  cr_out :: "u8 list option"
  cr_size :: u32
  cr_signals :: "signal list"

definition call_failed :: call_result where
  "call_failed = \<lparr>cr_result = NP_CEG_CALL_FAILED, cr_out = None, cr_size = 0, cr_signals = []\<rparr>"

text \<open>What the files show once the child ended.\<close>

definition call_output :: "disk \<Rightarrow> cstring \<Rightarrow> u32 \<Rightarrow> int \<Rightarrow> fs \<Rightarrow> call_result" where
  "call_output dk out_path max_out status fs =
     (if status \<noteq> 0 \<and> status \<noteq> NP_RUN_UNKNOWN then call_failed
      else case map_of fs out_path of
          Some (File content) \<Rightarrow>
            if length content > unat max_out then call_failed\<lparr>cr_result := NP_CEG_CALL_TOO_BIG\<rparr>
            else if length content > 0 then
              (case np_read_file_max dk out_path (unat max_out) fs of
                 None \<Rightarrow> call_failed
               | Some buf \<Rightarrow> call_failed\<lparr>cr_result := NP_CEG_CALL_OK, cr_out := Some buf, cr_size := of_nat (length buf)\<rparr>)
            else call_failed\<lparr>cr_result := NP_CEG_CALL_OK\<rparr>
        | _ \<Rightarrow> call_failed)"

text \<open>The files of the call that runs.\<close>

definition call_begins :: "call_paths \<Rightarrow> ceg_state \<Rightarrow> ceg_state" where
  "call_begins cp st = st\<lparr>g_active_in := cp_in cp, g_active_out := cp_out cp\<rparr>"

definition call_ends :: "disk \<Rightarrow> call_paths \<Rightarrow> ceg_state \<Rightarrow> fs \<Rightarrow> ceg_state \<times> fs" where
  "call_ends dk cp st fs =
     (st\<lparr>g_active_in := [], g_active_out := []\<rparr>,
      snd (sys_unlink dk (cp_out cp) (snd (sys_unlink dk (cp_in cp) fs))))"

text \<open>The work between the lock of the calls and the cleaning up behind it.\<close>

definition call_body ::
  "disk \<Rightarrow> (cstring list \<Rightarrow> cstring list \<Rightarrow> cstring \<Rightarrow> fs \<Rightarrow> helper_run) \<Rightarrow> bool \<Rightarrow> np_ceg_app \<Rightarrow> call_paths \<Rightarrow>
     u8 list \<Rightarrow> cstring list \<Rightarrow> u8 list \<Rightarrow> u32 \<Rightarrow> ceg_state \<Rightarrow> fs \<Rightarrow> (call_result \<times> ceg_state \<times> fs) option" where
  "call_body dk helper calloc_ok app cp module argv inp max_out st fs =
     (if g_stopping st then Some (call_failed, st, fs)
      else case sys_mkdir dk (cp_legacy cp) fs of
        (False, fs) \<Rightarrow> Some (call_failed, st, fs)
      | (True, fs) \<Rightarrow>
          let st = call_begins cp st in
          (case place_module dk (cp_dll cp) module fs of
             (False, fs) \<Rightarrow> Some (call_failed, st, fs)
           | (True, fs) \<Rightarrow>
               let fs = snd (sys_unlink dk (cp_out cp) fs) in
               (case np_write_file_new dk (cp_in cp) inp fs of
                  (False, fs) \<Rightarrow> Some (call_failed, st, fs)
                | (True, fs) \<Rightarrow> map_option (\<lambda>(status, sigs, st, fs).
                    ((call_output dk (cp_out cp) max_out status fs)\<lparr>cr_signals := sigs\<rparr>, st, fs))
                    (run_in_prefix helper calloc_ok app argv st fs))))"

definition np_ceg_service_call ::
  "disk \<Rightarrow> (cstring list \<Rightarrow> cstring list \<Rightarrow> cstring \<Rightarrow> fs \<Rightarrow> helper_run) \<Rightarrow> bool \<Rightarrow> u8 list \<Rightarrow> u32 \<Rightarrow> u32 \<Rightarrow> u32 \<Rightarrow> u32 \<Rightarrow>
     u8 list \<Rightarrow> u32 \<Rightarrow> ceg_state \<Rightarrow> fs \<Rightarrow> (call_result \<times> ceg_state \<times> fs) option" where
  "np_ceg_service_call dk helper calloc_ok module crc appid fn callid inp max_out st fs = (case find_app appid st of
     None \<Rightarrow> Some (call_failed, st, fs)
   | Some app \<Rightarrow>
       if g_client_dir st = [] then Some (call_failed, st, fs)
       else
         let cp = call_paths_of (g_client_dir st) crc callid;
             argv = call_argv app (cp_legacy cp) crc fn callid max_out
         in map_option (\<lambda>(r, st, fs). (r, call_ends dk cp st fs))
              (call_body dk helper calloc_ok app cp module argv inp max_out st fs))"

section \<open>Stopping\<close>

text \<open>The process group that is killed, if one runs. A call that runs meanwhile sees the flag in its looks.\<close>

definition np_ceg_stop :: "disk \<Rightarrow> ceg_state \<Rightarrow> fs \<Rightarrow> nat option \<times> ceg_state \<times> fs" where
  "np_ceg_stop dk st fs =
     (let st = st\<lparr>g_stopping := True\<rparr>;
          fs = (if g_active_in st \<noteq> [] then snd (sys_unlink dk (g_active_in st) fs) else fs);
          fs = (if g_active_out st \<noteq> [] then snd (sys_unlink dk (g_active_out st) fs) else fs)
      in (if g_call_pgid st > 0 then Some (g_call_pgid st) else None, st, fs))"

end
