(* ===== verification/Ceg_Facts.thy ===== *)
theory Ceg_Facts
  imports Ceg
begin

text \<open>
  What \<open>Ceg\<close> is relied on for: an accepted layout of the download job keeps its fields apart, the table of apps
  names each app once and keeps the last sixteen, a child is started with its files in place, in an
  environment of its own, and what a call answers is what that child wrote.
\<close>

section \<open>The layout of the download job\<close>

lemma ldrb_uimm_bound: "a64_ldrb_uimm w = Some (rn, rt, off) \<Longrightarrow> off < 0x1000"
  using field12_bound[of 10 w] by (auto simp: a64_ldrb_uimm_def split: if_splits)

lemma ldr_uimm_bound:
  assumes "a64_ldr_uimm w wide = Some (rn, rt, off)"
  shows "off \<le> 0x7FF8"
proof -
  let ?f = "drop_bit 10 w AND 0xFFF :: u32"
  have f: "unat ?f < 0x1000" using field12_bound[of 10 w] by (simp add: word_less_nat_alt)
  then have "unat (?f * (if wide then 8 else 4)) = unat ?f * (if wide then 8 else 4)"
    by (cases wide) (simp_all add: unat_word_ariths)
  moreover have "off = ?f * (if wide then 8 else 4)"
    using assms by (auto simp: a64_ldr_uimm_def Let_def split: if_splits)
  ultimately show ?thesis using f by (cases wide) (simp_all add: word_le_nat_alt)
qed

lemma probe_fields_bound:
  assumes "probe_fields bases appid flags path code = (a, f, p)" "appid \<le> 0x7FF8" "flags \<le> 0x7FF8" "path \<le> 0x7FF8"
  shows "a \<le> 0x7FF8 \<and> f \<le> 0x7FF8 \<and> p \<le> 0x7FF8"
  using assms
proof (induction code arbitrary: bases appid flags path)
  case (Cons w ws)
  show ?case
  proof (cases "(appid \<noteq> 0 \<and> flags \<noteq> 0 \<and> path \<noteq> 0) \<or> a64_bl 0 w \<noteq> None \<or> w = 0xD65F03C0")
    case True
    then show ?thesis using Cons.prems by (auto split: if_splits)
  next
    case False
    then have go: "probe_fields bases appid flags path (w # ws) = (case a64_mov w of
          Some (rd, rn) \<Rightarrow>
            probe_fields (if bases AND reg_bit rn \<noteq> 0 then bases OR reg_bit rd else bases) appid flags path ws
        | None \<Rightarrow> (case a64_ldrb_uimm w of
          Some (rn, rt, off) \<Rightarrow>
            probe_fields (bases AND NOT (reg_bit rt)) appid
              (if flags = 0 \<and> bases AND reg_bit rn \<noteq> 0 \<and> tests_flag rt ws then off else flags) path ws
        | None \<Rightarrow> (case a64_ldr_uimm w True of
          Some (rn, rt, off) \<Rightarrow>
            probe_fields (bases AND NOT (reg_bit rt)) appid flags
              (if path = 0 \<and> bases AND reg_bit rn \<noteq> 0 then off else path) ws
        | None \<Rightarrow> (case a64_ldr_uimm w False of
          Some (rn, rt, off) \<Rightarrow>
            probe_fields (bases AND NOT (reg_bit rt))
              (if appid = 0 \<and> bases AND reg_bit rn \<noteq> 0 then off else appid) flags path ws
        | None \<Rightarrow> probe_fields bases appid flags path ws))))" by auto
    have small: "off \<le> 0x7FF8" if "a64_ldrb_uimm w = Some (rn, rt, off)" for rn rt off
      using ldrb_uimm_bound[OF that] by (simp add: word_le_nat_alt word_less_nat_alt)
    show ?thesis
    proof (cases "a64_mov w")
      case (Some m)
      then show ?thesis using Cons.prems Cons.IH unfolding go by (cases m) simp
    next
      case None
      note mov = None
      show ?thesis
      proof (cases "a64_ldrb_uimm w")
        case (Some b)
        then obtain rn rt off where b: "b = (rn, rt, off)" by (cases b)
        have "probe_fields (bases AND NOT (reg_bit rt)) appid
            (if flags = 0 \<and> bases AND reg_bit rn \<noteq> 0 \<and> tests_flag rt ws then off else flags) path ws = (a, f, p)"
          using Cons.prems(1) mov Some b unfolding go by simp
        from Cons.IH[OF this] show ?thesis using small[OF Some[unfolded b]] Cons.prems(2-) by simp
      next
        case None
        note byte = None
        show ?thesis
        proof (cases "a64_ldr_uimm w True")
          case (Some b)
          then obtain rn rt off where b: "b = (rn, rt, off)" by (cases b)
          have "probe_fields (bases AND NOT (reg_bit rt)) appid flags
              (if path = 0 \<and> bases AND reg_bit rn \<noteq> 0 then off else path) ws = (a, f, p)"
            using Cons.prems(1) mov byte Some b unfolding go by simp
          from Cons.IH[OF this] show ?thesis using ldr_uimm_bound[OF Some[unfolded b]] Cons.prems(2-) by simp
        next
          case None
          note wide = None
          show ?thesis
          proof (cases "a64_ldr_uimm w False")
            case (Some b)
            then obtain rn rt off where b: "b = (rn, rt, off)" by (cases b)
            have "probe_fields (bases AND NOT (reg_bit rt))
                (if appid = 0 \<and> bases AND reg_bit rn \<noteq> 0 then off else appid) flags path ws = (a, f, p)"
              using Cons.prems(1) mov byte wide Some b unfolding go by simp
            from Cons.IH[OF this] show ?thesis using ldr_uimm_bound[OF Some[unfolded b]] Cons.prems(2-) by simp
          next
            case None
            then show ?thesis using Cons.prems Cons.IH mov byte wide unfolding go by simp
          qed
        qed
      qed
    qed
  qed
qed simp

section \<open>The table of apps\<close>

definition app_fits :: "np_ceg_app \<Rightarrow> bool" where
  "app_fits a \<longleftrightarrow> length (ap_tool a) < 1024 \<and> length (ap_install a) < 1024 \<and> length (ap_library a) < 1024 \<and>
     (ap_install a \<noteq> [] \<longrightarrow> ap_tool a \<noteq> [])"

definition apps_wf :: "np_ceg_app list \<Rightarrow> bool" where
  "apps_wf as \<longleftrightarrow> length as = NP_CEG_APPS \<and> list_all app_fits as \<and>
     (\<forall>i < length as. \<forall>j < length as. ap_appid (as ! i) = ap_appid (as ! j) \<longrightarrow> ap_appid (as ! i) \<noteq> 0 \<longrightarrow> i = j)"

definition ceg_wf :: "ceg_state \<Rightarrow> bool" where
  "ceg_wf st \<longleftrightarrow> apps_wf (g_apps st) \<and> length (g_client_dir st) < 1024"

text \<open>Whatever is called, in whatever order.\<close>

inductive ceg_reach :: "ceg_state \<Rightarrow> bool" where
  starts: "ceg_reach ceg_start"
| notes_tool: "ceg_reach st \<Longrightarrow> ceg_reach (np_ceg_note_tool appid dir st)"
| notes_app: "ceg_reach st \<Longrightarrow> ceg_reach (snd (np_ceg_note_app appid exe st))"
| keeps_env: "ceg_reach st \<Longrightarrow> ceg_reach (np_ceg_snapshot_env env st)"
| sets_service: "ceg_reach st \<Longrightarrow> ceg_reach (np_ceg_set_service dir st)"
| calls: "ceg_reach st \<Longrightarrow>
    np_ceg_service_call dk helper ok module crc appid fn callid inp max_out st fs = Some (r, st', fs') \<Longrightarrow> ceg_reach st'"
| stops: "ceg_reach st \<Longrightarrow> np_ceg_stop dk st fs = (pgid, st', fs') \<Longrightarrow> ceg_reach st'"

lemma index_of_some: "index_of P as = Some i \<Longrightarrow> i < length as \<and> P (as ! i)"
  by (induction as arbitrary: i) (auto split: if_splits)

lemma index_of_none: "index_of P as = None \<longleftrightarrow> \<not> list_ex P as"
  by (induction as) auto

lemma no_app_fits: "app_fits no_app"
  by (simp add: app_fits_def no_app_def)

lemma apps_wf_update:
  assumes "apps_wf as" "app_fits a" "i < length as"
    and "\<And>j. j < length as \<Longrightarrow> j \<noteq> i \<Longrightarrow> ap_appid (as ! j) = ap_appid a \<Longrightarrow> ap_appid a = 0"
  shows "apps_wf (as[i := a])"
  using assms unfolding apps_wf_def
  by (auto simp: list_all_length nth_list_update)

lemma apps_wf_same:
  assumes "apps_wf as" "app_fits a" "i < length as" "ap_appid a = ap_appid (as ! i)"
  shows "apps_wf (as[i := a])"
proof (rule apps_wf_update[OF assms(1-3)])
  fix j
  assume "j < length as" "j \<noteq> i" "ap_appid (as ! j) = ap_appid a"
  then show "ap_appid a = 0" using assms(1,3,4) unfolding apps_wf_def by metis
qed

lemma slot_for_facts:
  assumes "ceg_wf st" "appid \<noteq> 0" "slot_for appid st = (i, st')"
  shows "ceg_wf st' \<and> i < NP_CEG_APPS \<and> ap_appid (g_apps st' ! i) = appid"
proof (cases "index_of (\<lambda>a. ap_appid a = appid) (g_apps st)")
  case (Some k)
  then show ?thesis using assms index_of_some[OF Some] by (auto simp: slot_for_def ceg_wf_def apps_wf_def)
next
  case None
  let ?i = "unat (g_next_app st) mod NP_CEG_APPS"
  have len: "length (g_apps st) = NP_CEG_APPS" using assms(1) by (simp add: ceg_wf_def apps_wf_def)
  have i: "?i < NP_CEG_APPS" by (simp add: NP_CEG_APPS_def)
  have "apps_wf ((g_apps st)[?i := no_app\<lparr>ap_appid := appid\<rparr>])"
    using assms(1) None len i
    by (intro apps_wf_update) (auto simp: ceg_wf_def index_of_none list_ex_length app_fits_def no_app_def)
  then show ?thesis using assms None len i by (auto simp: slot_for_def Let_def ceg_wf_def)
qed

lemma note_tool_wf:
  assumes "ceg_wf st"
  shows "ceg_wf (np_ceg_note_tool appid dir st)"
proof (cases "appid = 0")
  case False
  obtain i st' where s: "slot_for appid st = (i, st')" by (cases "slot_for appid st")
  from slot_for_facts[OF assms False s] have wf: "ceg_wf st'" "i < length (g_apps st')"
    by (simp_all add: ceg_wf_def apps_wf_def)
  then have "app_fits ((g_apps st' ! i)\<lparr>ap_tool := c_copy 1024 d, ap_install := [], ap_library := []\<rparr>)" for d
    by (simp add: app_fits_def c_copy_length)
  with wf apps_wf_same[of "g_apps st'"] False s show ?thesis by (simp add: np_ceg_note_tool_def ceg_wf_def)
qed (simp add: np_ceg_note_tool_def assms)

lemma note_app_wf:
  assumes "ceg_wf st"
  shows "ceg_wf (snd (np_ceg_note_app appid exe st))"
proof (cases "snd (np_ceg_note_app appid exe st) = st")
  case False
  then obtain i install library where i: "index_of (\<lambda>a. appid \<noteq> 0 \<and> ap_appid a = appid \<and> ap_tool a \<noteq> []) (g_apps st) = Some i"
    and st': "snd (np_ceg_note_app appid exe st) = st\<lparr>g_apps := (g_apps st)[i := (g_apps st ! i)\<lparr>
            ap_install := c_copy 1024 install, ap_library := c_copy 1024 library\<rparr>]\<rparr>"
    by (auto simp: np_ceg_note_app_def split: option.splits)
  from index_of_some[OF i] have k: "i < length (g_apps st)" "ap_tool (g_apps st ! i) \<noteq> []" by simp_all
  then have "app_fits ((g_apps st ! i)\<lparr>ap_install := c_copy 1024 install, ap_library := c_copy 1024 library\<rparr>)"
    using assms by (simp add: app_fits_def c_copy_length ceg_wf_def apps_wf_def list_all_length)
  with k assms apps_wf_same[of "g_apps st"] show ?thesis by (simp add: st' ceg_wf_def)
qed (simp add: assms)

lemma run_in_prefix_state:
  "run_in_prefix helper ok app argv st fs = Some (rc, sigs, st', fs') \<Longrightarrow> g_apps st' = g_apps st \<and> g_client_dir st' = g_client_dir st
     \<and> g_active_in st' = g_active_in st \<and> g_active_out st' = g_active_out st"
  by (auto simp: run_in_prefix_def set_call_pgid_def Let_def split: option.splits if_splits)

lemma call_body_state:
  assumes "call_body dk helper ok app cp module argv inp max_out st fs = Some (r, st', fs')"
  shows "g_apps st' = g_apps st \<and> g_client_dir st' = g_client_dir st"
  using assms
  by (auto simp: call_body_def call_begins_def Let_def dest!: run_in_prefix_state split: if_splits prod.splits bool.splits)

lemma service_call_state:
  assumes "np_ceg_service_call dk helper ok module crc appid fn callid inp max_out st fs = Some (r, st', fs')"
  shows "g_apps st' = g_apps st \<and> g_client_dir st' = g_client_dir st"
  using assms
  by (auto simp: np_ceg_service_call_def call_ends_def Let_def dest!: call_body_state split: option.splits if_splits)

lemma ceg_reach_wf: "ceg_reach st \<Longrightarrow> ceg_wf st"
proof (induction rule: ceg_reach.induct)
  case starts
  then show ?case by (simp add: ceg_start_def ceg_wf_def apps_wf_def list_all_length no_app_fits) (simp add: no_app_def)
next
  case (keeps_env st env)
  then show ?case by (simp add: np_ceg_snapshot_env_def ceg_wf_def)
next
  case (sets_service st dir)
  then show ?case by (simp add: np_ceg_set_service_def ceg_wf_def c_copy_length)
next
  case (calls st dk helper ok module crc appid fn callid inp max_out fs r st' fs')
  then show ?case using service_call_state[OF calls.hyps(2)] by (simp add: ceg_wf_def)
next
  case (stops st dk fs pgid st' fs')
  then show ?case by (auto simp: np_ceg_stop_def ceg_wf_def Let_def)
qed (simp_all add: note_tool_wf note_app_wf)

text \<open>The ring: the app in slot \<open>i\<close> with a tool, and the counter \<open>k\<close> slots past the one behind it.\<close>

definition ring_holds :: "u32 \<Rightarrow> cstring \<Rightarrow> nat \<Rightarrow> nat \<Rightarrow> ceg_state \<Rightarrow> bool" where
  "ring_holds appid t i k st \<longleftrightarrow> ceg_wf st \<and> i < NP_CEG_APPS \<and> ap_appid (g_apps st ! i) = appid \<and>
     ap_tool (g_apps st ! i) = t \<and> unat (g_next_app st) mod NP_CEG_APPS = (i + 1 + k) mod NP_CEG_APPS"

lemma next_app_mod: "unat (n + 1 :: u32) mod NP_CEG_APPS = (unat n + 1) mod NP_CEG_APPS"
proof -
  have "unat (n + 1) = (unat n + 1) mod 4294967296" by (simp add: unat_word_ariths)
  moreover have "(16 :: nat) dvd 4294967296" by simp
  ultimately show ?thesis by (simp add: NP_CEG_APPS_def mod_mod_cancel)
qed

lemma ring_holds_step:
  assumes "ring_holds appid t i k st" "b \<noteq> appid" "k < 15"
  shows "\<exists>k' \<le> Suc k. ring_holds appid t i k' (np_ceg_note_tool b d st)"
proof (cases "b = 0")
  case True
  then show ?thesis using assms(1) by (intro exI[of _ k]) (simp add: np_ceg_note_tool_def)
next
  case b: False
  have wf: "ceg_wf (np_ceg_note_tool b d st)" using assms(1) by (simp add: ring_holds_def note_tool_wf)
  show ?thesis
  proof (cases "index_of (\<lambda>a. ap_appid a = b) (g_apps st)")
    case (Some j)
    then have "j \<noteq> i" using index_of_some[OF Some] assms(1,2) by (auto simp: ring_holds_def)
    then show ?thesis using assms(1) wf b Some
      by (intro exI[of _ k]) (simp add: ring_holds_def np_ceg_note_tool_def slot_for_def)
  next
    case None
    let ?j = "unat (g_next_app st) mod NP_CEG_APPS"
    have j: "?j = (i + 1 + k) mod 16" "i < 16" using assms(1) by (simp_all add: ring_holds_def NP_CEG_APPS_def)
    have "?j \<noteq> i"
    proof (cases "i + 1 + k < 16")
      case False
      then have "(i + 1 + k) mod 16 = i + 1 + k - 16" using j(2) assms(3) by (simp add: mod_if)
      then show ?thesis using j assms(3) False by simp
    qed (simp add: j(1))
    moreover have "(unat (g_next_app st) + 1) mod NP_CEG_APPS = (i + 1 + Suc k) mod NP_CEG_APPS"
      using assms(1) unfolding ring_holds_def by (metis add_Suc_right add.commute plus_1_eq_Suc mod_Suc_eq)
    ultimately show ?thesis using assms(1) wf b None
      by (intro exI[of _ "Suc k"]) (simp add: ring_holds_def np_ceg_note_tool_def slot_for_def Let_def next_app_mod)
  qed
qed

lemma ring_holds_fold:
  assumes "ring_holds appid t i k st" "\<forall>(b, _) \<in> set others. b \<noteq> appid" "k + length others \<le> 15"
  shows "\<exists>k. ring_holds appid t i k (fold (\<lambda>(b, d). np_ceg_note_tool b d) others st)"
  using assms
proof (induction others arbitrary: k st)
  case (Cons o1 others)
  obtain b d where o1: "o1 = (b, d)" by (cases o1)
  then have "b \<noteq> appid" "k < 15" using Cons.prems(2,3) by auto
  from ring_holds_step[OF Cons.prems(1) this] obtain k' where
    "k' \<le> Suc k" "ring_holds appid t i k' (np_ceg_note_tool b d st)" by blast
  then show ?case using Cons.IH[of k'] Cons.prems(2,3) o1 by simp
qed auto

lemma find_unique:
  assumes "i < length xs" "P (xs ! i)" "\<And>j. j < length xs \<Longrightarrow> P (xs ! j) \<Longrightarrow> j = i"
  shows "find P xs = Some (xs ! i)"
proof (cases "find P xs")
  case None
  then show ?thesis using assms(1,2) by (auto simp: find_None_iff in_set_conv_nth)
next
  case (Some y)
  then obtain j where "j < length xs" "P (xs ! j)" "y = xs ! j" by (auto simp: find_Some_iff)
  then show ?thesis using Some assms(3) by auto
qed

lemma ring_holds_found:
  assumes "ring_holds appid t i k st" "appid \<noteq> 0" "t \<noteq> []"
  shows "np_ceg_tool_for_app appid sz st = Some (c_copy sz t)"
proof -
  have "find (\<lambda>a. appid \<noteq> 0 \<and> ap_appid a = appid \<and> ap_tool a \<noteq> []) (g_apps st) = Some (g_apps st ! i)"
    using assms by (intro find_unique) (auto simp: ring_holds_def ceg_wf_def apps_wf_def)
  then show ?thesis using assms(1) by (simp add: np_ceg_tool_for_app_def ring_holds_def)
qed

lemma note_tool_ring:
  assumes "ceg_wf st" "appid \<noteq> 0" "\<not> list_ex (\<lambda>a. ap_appid a = appid) (g_apps st)"
  shows "\<exists>i. ring_holds appid (c_copy 1024 t) i 0 (np_ceg_note_tool appid (Some t) st)"
proof -
  let ?i = "unat (g_next_app st) mod NP_CEG_APPS"
  have none: "index_of (\<lambda>a. ap_appid a = appid) (g_apps st) = None" using assms(3) by (simp add: index_of_none)
  have i: "?i < length (g_apps st)" "?i < NP_CEG_APPS" using assms(1) by (simp_all add: ceg_wf_def apps_wf_def NP_CEG_APPS_def)
  have "ring_holds appid (c_copy 1024 t) ?i 0 (np_ceg_note_tool appid (Some t) st)"
    using note_tool_wf[OF assms(1), of appid "Some t"] assms(2) none i
    by (simp add: ring_holds_def np_ceg_note_tool_def slot_for_def Let_def next_app_mod mod_Suc_eq)
  then show ?thesis by blast
qed

section \<open>The environment of a call\<close>

lemma entry_key_ends:
  assumes "61 \<notin> set k"
  shows "entry_key (env_key k @ v) = env_key k"
proof -
  have "takeWhile (\<lambda>c. c \<noteq> 61) (k @ 61 # v) = k" using assms by (subst takeWhile_tail) (auto intro: takeWhile_eq_all_conv[THEN iffD2])
  then show ?thesis by (simp add: entry_key_def env_key_def cstr_def)
qed

lemma one_key:
  assumes "has_prefix (env_key a) e" "has_prefix (env_key b) e" "61 \<notin> set a" "61 \<notin> set b"
  shows "a = b"
proof -
  have k: "takeWhile (\<lambda>c. c \<noteq> 61) e = n" if "has_prefix (env_key n) e" "61 \<notin> set n" for n
  proof -
    from that(1) obtain r where "e = n @ 61 # r" by (auto simp: has_prefix_iff env_key_def cstr_def)
    then show ?thesis using that(2) by (auto simp: takeWhile_eq_all_conv intro: takeWhile_tail[THEN trans])
  qed
  from k[OF assms(1,3)] k[OF assms(2,4)] show ?thesis by simp
qed

text \<open>The variables of a call as names with values, as they are when nothing is cut.\<close>

definition call_pairs :: "np_ceg_app \<Rightarrow> cstring \<Rightarrow> (cstring \<times> cstring) list" where
  "call_pairs app client =
     [(cstr ''STEAM_COMPAT_APP_ID'', dec_str (unat (ap_appid app))),
      (cstr ''STEAM_COMPAT_DATA_PATH'', ap_library app @ cstr ''/compatdata/'' @ dec_str (unat (ap_appid app))),
      (cstr ''STEAM_COMPAT_INSTALL_PATH'', ap_install app),
      (cstr ''STEAM_COMPAT_CLIENT_INSTALL_PATH'', client),
      (cstr ''STEAM_COMPAT_LIBRARY_PATHS'', ap_library app),
      (cstr ''STEAM_COMPAT_TOOL_PATHS'', ap_tool app),
      (cstr ''STEAM_COMPAT_PROTON'', cstr ''1''),
      (cstr ''PROTON_HIDE_PROCESS_WINDOW'', cstr ''1'')]"

lemma u32_text: "length (dec_str (unat (n :: u32))) \<le> 10"
proof -
  have "unat n < 2 ^ LENGTH(32)" by (rule unsigned_less)
  then have "unat n < 10 ^ Suc 9" by simp
  from dec_str_length[OF this] show ?thesis by simp
qed

lemma call_vars_pairs:
  assumes "app_fits app" "length client < 1024"
  shows "call_vars app client = map (\<lambda>(k, v). env_key k @ v) (call_pairs app client)"
  using assms u32_text[of "ap_appid app"]
  by (simp add: call_vars_def call_pairs_def app_fits_def env_key_def c_copy_fits cstr_def)

lemma call_pairs_keys: "\<forall>(k, v) \<in> set (call_pairs app client). 61 \<notin> set k"
  by (simp add: call_pairs_def cstr_def)

lemma find_filter: "(\<And>x. P x \<Longrightarrow> Q x) \<Longrightarrow> find P (filter Q xs) = find P xs"
  by (induction xs) auto

lemma getenv_pairs:
  assumes "\<forall>(k, v) \<in> set kvs. 61 \<notin> set k" "61 \<notin> set name"
  shows "c_getenv (map (\<lambda>(k, v). env_key k @ v) kvs) name = map_of kvs name"
  using assms(1)
proof (induction kvs)
  case (Cons kv kvs)
  obtain k v where kv: "kv = (k, v)" by (cases kv)
  have own: "has_prefix (env_key k) (env_key k @ v)" by (simp add: has_prefix_def)
  have "has_prefix (env_key name) (env_key k @ v) \<longleftrightarrow> name = k"
    using one_key[OF _ own assms(2)] Cons.prems own kv by auto
  then show ?case using Cons kv by (simp add: c_getenv_def)
qed (simp add: c_getenv_def)

lemma getenv_none: "(\<And>e. e \<in> set env \<Longrightarrow> \<not> has_prefix (env_key name) e) \<Longrightarrow> c_getenv env name = None"
  by (auto simp: c_getenv_def find_None_iff)

text \<open>The entries that stay are those of no variable and no identity.\<close>

lemma entry_stays:
  assumes "app_fits app" "length client < 1024" "61 \<notin> set name" "has_prefix (env_key name) e"
  shows "(\<not> list_ex (\<lambda>v. has_prefix (entry_key v) e) (call_vars app client) \<and>
      \<not> list_ex (\<lambda>k. has_prefix k e) np_game_identity) \<longleftrightarrow>
    map_of (call_pairs app client) name = None \<and> name \<noteq> cstr ''SteamGameId'' \<and> name \<noteq> cstr ''SteamAppId''"
proof -
  have same: "has_prefix (env_key k) e \<longleftrightarrow> k = name" if "61 \<notin> set k" for k
    using one_key[OF _ assms(4) that assms(3)] assms(4) by auto
  have "list_ex (\<lambda>v. has_prefix (entry_key v) e) (call_vars app client) \<longleftrightarrow> name \<in> fst ` set (call_pairs app client)"
    unfolding call_vars_pairs[OF assms(1,2)] list_ex_iff
    using call_pairs_keys[of app client] same by (force simp: entry_key_ends)
  moreover have "list_ex (\<lambda>k. has_prefix k e) np_game_identity \<longleftrightarrow>
      has_prefix (env_key (cstr ''SteamGameId'')) e \<or> has_prefix (env_key (cstr ''SteamAppId'')) e"
    by (simp add: np_game_identity_def env_key_def cstr_def)
  moreover have "61 \<notin> set (cstr ''SteamGameId'')" "61 \<notin> set (cstr ''SteamAppId'')" by (simp_all add: cstr_def)
  ultimately show ?thesis using same by (auto simp: map_of_eq_None_iff)
qed

section \<open>Files\<close>

lemma mkdir_other: "p \<noteq> q \<Longrightarrow> map_of (snd (sys_mkdir dk p fs)) q = map_of fs q"
  by (simp add: sys_mkdir_def update_conv split: option.split)

lemma write_new_other:
  assumes "path \<noteq> q"
  shows "map_of (snd (np_write_file_new dk path bs fs)) q = map_of fs q"
proof -
  obtain u fs1 where u: "sys_unlink dk path fs = (u, fs1)" by (cases "sys_unlink dk path fs")
  then have "map_of fs1 q = map_of fs q" using sys_unlink_other[OF assms, of dk fs] by simp
  then show ?thesis using assms u
    by (auto simp: np_write_file_new_def update_conv sys_unlink_other Let_def split: unlink_result.splits)
qed

lemma write_new_ok:
  assumes "np_write_file_new dk path bs fs = (True, fs')"
  shows "map_of fs' path = Some (File bs)"
  using assms by (auto simp: np_write_file_new_def update_conv Let_def split: prod.splits unlink_result.splits if_splits)

lemma place_module_ok:
  assumes "place_module dk dll module fs = (True, fs')"
  shows "map_of fs' dll = Some (File module)"
  using assms write_new_ok[of dk dll module fs fs']
  by (auto simp: place_module_def np_read_file_max_def split: if_splits option.splits node.splits)

lemma place_module_other: "dll \<noteq> q \<Longrightarrow> map_of (snd (place_module dk dll module fs)) q = map_of fs q"
  by (simp add: place_module_def write_new_other)

text \<open>The files of a call have names of their own.\<close>

lemma call_paths_whole:
  assumes "length client < 1024"
  shows "call_paths_of client crc callid =
    \<lparr>cp_legacy = client @ cstr ''/legacycompat'',
     cp_dll = client @ cstr ''/legacycompat'' @ cstr ''/servicecall_'' @ dec_str (unat crc) @ cstr ''.dll'',
     cp_in = client @ cstr ''/legacycompat'' @ cstr ''/servicecall_'' @ dec_str (unat callid) @ cstr ''.in'',
     cp_out = client @ cstr ''/legacycompat'' @ cstr ''/servicecall_'' @ dec_str (unat callid) @ cstr ''.out''\<rparr>"
  using assms u32_text[of crc] u32_text[of callid]
  by (simp add: call_paths_of_def c_copy_fits cstr_def Let_def)

lemma call_paths_apart:
  assumes "length client < 1024" "cp = call_paths_of client crc callid"
  shows "cp_dll cp \<noteq> cp_in cp" "cp_dll cp \<noteq> cp_out cp" "cp_in cp \<noteq> cp_out cp"
proof -
  have "last (cp_dll cp) = 108" "last (cp_in cp) = 110" "last (cp_out cp) = 116"
    unfolding assms(2) call_paths_whole[OF assms(1)] by (simp_all add: cstr_def)
  then show "cp_dll cp \<noteq> cp_in cp" "cp_dll cp \<noteq> cp_out cp" "cp_in cp \<noteq> cp_out cp" by auto
qed

text \<open>What a child that is started finds.\<close>

lemma call_body_runs:
  assumes "call_body dk helper ok app cp module argv inp max_out st fs = Some (r, st', fs')"
    and "cr_result r = NP_CEG_CALL_OK"
    and "cp_dll cp \<noteq> cp_in cp" "cp_dll cp \<noteq> cp_out cp"
  shows "\<exists>fs1 status sigs st2. map_of fs1 (cp_dll cp) = Some (File module) \<and> map_of fs1 (cp_in cp) = Some (File inp) \<and>
    run_in_prefix helper ok app argv (call_begins cp st) fs1 = Some (status, sigs, st2, fs') \<and>
    r = (call_output dk (cp_out cp) max_out status fs')\<lparr>cr_signals := sigs\<rparr>"
proof -
  have failed: "cr_result call_failed \<noteq> NP_CEG_CALL_OK"
    by (simp add: call_failed_def NP_CEG_CALL_OK_def NP_CEG_CALL_FAILED_def)
  obtain fs1 fs2 fs4 where f: "sys_mkdir dk (cp_legacy cp) fs = (True, fs1)"
    "place_module dk (cp_dll cp) module fs1 = (True, fs2)"
    "np_write_file_new dk (cp_in cp) inp (snd (sys_unlink dk (cp_out cp) fs2)) = (True, fs4)"
    and run: "map_option (\<lambda>(status, sigs, st, fs).
        ((call_output dk (cp_out cp) max_out status fs)\<lparr>cr_signals := sigs\<rparr>, st, fs))
        (run_in_prefix helper ok app argv (call_begins cp st) fs4) = Some (r, st', fs')"
    using assms(1,2) failed by (auto simp: call_body_def Let_def split: if_splits prod.splits bool.splits)
  have "map_of fs4 (cp_dll cp) = map_of (snd (sys_unlink dk (cp_out cp) fs2)) (cp_dll cp)"
    using write_new_other[OF assms(3)[symmetric], of dk inp "snd (sys_unlink dk (cp_out cp) fs2)"] f(3) by simp
  also have "\<dots> = map_of fs2 (cp_dll cp)" using sys_unlink_other[OF assms(4)[symmetric]] by simp
  finally have "map_of fs4 (cp_dll cp) = Some (File module)" using place_module_ok[OF f(2)] by simp
  moreover from run obtain status sigs st2 where
    "run_in_prefix helper ok app argv (call_begins cp st) fs4 = Some (status, sigs, st2, fs')"
    "r = (call_output dk (cp_out cp) max_out status fs')\<lparr>cr_signals := sigs\<rparr>" by auto
  ultimately show ?thesis using write_new_ok[OF f(3)] by blast
qed

lemma distinct_nonzero:
  assumes "\<forall>i < length as. \<forall>j < length as. ap_appid (as ! i) = ap_appid (as ! j) \<longrightarrow> ap_appid (as ! i) \<noteq> 0 \<longrightarrow> i = j"
  shows "distinct (filter (\<lambda>n. n \<noteq> 0) (map ap_appid as))"
  using assms
proof (induction as)
  case (Cons a as)
  have "distinct (filter (\<lambda>n. n \<noteq> 0) (map ap_appid as))"
    using Cons.prems by (intro Cons.IH) (metis Suc_less_eq length_Cons nat.inject nth_Cons_Suc)
  moreover have "ap_appid a = 0 \<or> ap_appid a \<notin> set (map ap_appid as)"
    using Cons.prems by (force simp: in_set_conv_nth)
  ultimately show ?case by auto
qed simp

text \<open>A successful output is the file, in its bounds.\<close>

lemma call_not_ok: "cr_result call_failed \<noteq> NP_CEG_CALL_OK" "NP_CEG_CALL_TOO_BIG \<noteq> NP_CEG_CALL_OK"
  by (simp_all add: call_failed_def NP_CEG_CALL_OK_def NP_CEG_CALL_FAILED_def NP_CEG_CALL_TOO_BIG_def)

lemma call_output_ok:
  assumes "cr_result (call_output dk out_path max_out status fs) = NP_CEG_CALL_OK"
  shows "(status = 0 \<or> status = NP_RUN_UNKNOWN) \<and> (\<exists>content. map_of fs out_path = Some (File content) \<and>
    length content \<le> unat max_out \<and>
    cr_out (call_output dk out_path max_out status fs) = (if content = [] then None else Some content) \<and>
    unat (cr_size (call_output dk out_path max_out status fs)) = length content)"
proof -
  have u: "unat (of_nat (length c) :: u32) = length c" if "length c \<le> unat max_out" for c :: "u8 list"
    using that unat_u32_less[of max_out] by (simp add: unsigned_of_nat take_bit_nat_eq_self)
  show ?thesis using assms call_not_ok u
    by (auto simp: call_output_def np_read_file_max_def call_failed_def split: if_splits option.splits node.splits)
qed

lemma run_in_prefix_other:
  assumes "run_in_prefix helper ok app argv st fs = Some (rc, sigs, st', fs')"
    and "\<forall>argv env cwd fs. map_of (hr_fs (helper argv env cwd fs)) q = map_of fs q"
  shows "map_of fs' q = map_of fs q"
  using assms by (auto simp: run_in_prefix_def Let_def split: option.splits if_splits)

lemma call_body_other:
  assumes "call_body dk helper ok app cp module argv inp max_out st fs = Some (r, st', fs')"
    and "q \<notin> {cp_legacy cp, cp_dll cp, cp_in cp, cp_out cp}"
    and "\<forall>argv env cwd fs. map_of (hr_fs (helper argv env cwd fs)) q = map_of fs q"
  shows "map_of fs' q = map_of fs q"
proof -
  obtain b1 fs1 where d: "sys_mkdir dk (cp_legacy cp) fs = (b1, fs1)" by (cases "sys_mkdir dk (cp_legacy cp) fs")
  obtain b2 fs2 where p: "place_module dk (cp_dll cp) module fs1 = (b2, fs2)" by (cases "place_module dk (cp_dll cp) module fs1")
  let ?fs3 = "snd (sys_unlink dk (cp_out cp) fs2)"
  obtain b4 fs4 where w: "np_write_file_new dk (cp_in cp) inp ?fs3 = (b4, fs4)" by (cases "np_write_file_new dk (cp_in cp) inp ?fs3")
  have same: "map_of fs1 q = map_of fs q" "map_of fs2 q = map_of fs1 q" "map_of fs4 q = map_of fs2 q"
    using mkdir_other[of "cp_legacy cp" q dk fs] place_module_other[of "cp_dll cp" q dk module fs1]
      write_new_other[of "cp_in cp" q dk inp ?fs3] sys_unlink_other[of "cp_out cp" q dk fs2] d p w assms(2) by auto
  show ?thesis using assms(1) d p w same run_in_prefix_other[OF _ assms(3)]
    by (auto simp: call_body_def Let_def split: if_splits bool.splits)
qed

section \<open>Properties\<close>

text \<open>An accepted layout of the download job keeps its fields where they are to each other: the three identifiers
  end where the path begins, behind the flags and the number of the app, and all of it lies in 32 KB with no
  wrap-around.\<close>

theorem job_fields_apart:
  assumes "np_ceg_probe_job_layout code = Some lay"
  shows "0 < jl_appid lay \<and> unat (jl_flags lay) = unat (jl_appid lay) + 28 \<and>
    unat (jl_guids lay) = unat (jl_flags lay) + 32 \<and> unat (jl_path lay) = unat (jl_guids lay) + 48 \<and>
    unat (jl_path lay) + 8 \<le> 2 ^ 15"
proof -
  obtain a f p where pf: "probe_fields (reg_bit 0) 0 0 0 code = (a, f, p)" by (cases "probe_fields (reg_bit 0) 0 0 0 code")
  from probe_fields_bound[OF pf] have b: "a \<le> 0x7FF8" "f \<le> 0x7FF8" "p \<le> 0x7FF8" by simp_all
  from assms pf have l: "a \<noteq> 0" "a - 364 = p - 472" "f - 392 = p - 472"
    "lay = \<lparr>jl_appid = a, jl_flags = f, jl_guids = 424 + (p - 472), jl_path = p\<rparr>"
    by (auto simp: np_ceg_probe_job_layout_def np_ceg_job_baseline_def Let_def split: if_splits)
  have a: "unat a \<le> 0x7FF8" using b(1) by (simp add: word_le_nat_alt)
  have "p = a + 108" using l(2) by (simp add: algebra_simps)
  moreover from this have "f = a + 28" "424 + (p - 472) = 60 + a" using l(3) by (simp_all add: algebra_simps)
  moreover have "unat (a + 108) = unat a + 108" "unat (a + 28) = unat a + 28" "unat (60 + a) = unat a + 60"
    using a by (simp_all add: unat_word_ariths)
  moreover have "unat p \<le> 0x7FF8" using b(3) by (simp add: word_le_nat_alt)
  ultimately show ?thesis using l(1,4) by (simp add: word_gt_0)
qed

theorem job_fields_apart_witness:
  "np_ceg_probe_job_layout [0xB9416C01, 0x39462002, 0x36380002, 0xF940EC03] \<noteq> None"
proof -
  have "np_ceg_probe_job_layout [0xB9416C01, 0x39462002, 0x36380002, 0xF940EC03] = Some np_ceg_job_baseline" by code_simp
  from job_fields_apart[OF this] show ?thesis by code_simp
qed

text \<open>Whatever is called in whatever order, the table has sixteen apps, no app twice, every path in its buffer, and
  an app has a directory only where it has a tool.\<close>

theorem app_table_wf:
  assumes "ceg_reach st"
  shows "length (g_apps st) = NP_CEG_APPS \<and> list_all app_fits (g_apps st) \<and>
    distinct (filter (\<lambda>n. n \<noteq> 0) (map ap_appid (g_apps st)))"
  using ceg_reach_wf[OF assms] distinct_nonzero[of "g_apps st"] unfolding ceg_wf_def apps_wf_def by blast

theorem app_table_wf_witness:
  "length (g_apps (np_ceg_note_tool 70 (Some [47]) ceg_start)) = NP_CEG_APPS"
  using app_table_wf[OF notes_tool[OF starts]] by blast

text \<open>The tool noted for an app that was not in the table is found for it until sixteen more tools were noted.\<close>

theorem noted_tool_found:
  assumes "ceg_reach st" "appid \<noteq> 0" "\<not> list_ex (\<lambda>a. ap_appid a = appid) (g_apps st)" "dir \<noteq> []"
    and "\<forall>(b, _) \<in> set others. b \<noteq> appid" "length others < NP_CEG_APPS"
  shows "np_ceg_tool_for_app appid sz
      (fold (\<lambda>(b, d). np_ceg_note_tool b d) others (np_ceg_note_tool appid (Some dir) st)) =
    Some (c_copy sz (c_copy 1024 dir))"
proof -
  obtain i where r: "ring_holds appid (c_copy 1024 dir) i 0 (np_ceg_note_tool appid (Some dir) st)"
    using note_tool_ring[OF ceg_reach_wf[OF assms(1)] assms(2,3)] by blast
  obtain k where "ring_holds appid (c_copy 1024 dir) i k
      (fold (\<lambda>(b, d). np_ceg_note_tool b d) others (np_ceg_note_tool appid (Some dir) st))"
    using ring_holds_fold[OF r assms(5)] assms(6) by (auto simp: NP_CEG_APPS_def)
  moreover have "c_copy 1024 dir \<noteq> []" using assms(4) by (simp add: c_copy_def)
  ultimately show ?thesis using ring_holds_found assms(2) by blast
qed

theorem noted_tool_found_witness:
  "np_ceg_tool_for_app 70 1024 (np_ceg_note_tool 71 None (np_ceg_note_tool 70 (Some [47, 116]) ceg_start)) = Some [47, 116]"
  using noted_tool_found[OF starts, of 70 "[47, 116]" "[(71, None)]" 1024]
  by (simp add: ceg_start_def no_app_def NP_CEG_APPS_def c_copy_def list_ex_iff)

text \<open>C24. A name in the environment of a call has the value of the call where it is one of the variables of the
  call, none where it names the game, and that of the environment kept everywhere else.\<close>

theorem call_environment:
  assumes "app_fits app" "length client < 1024" "61 \<notin> set name"
  shows "c_getenv (call_env app client env) name =
    (case map_of (call_pairs app client) name of
       Some v \<Rightarrow> Some v
     | None \<Rightarrow> if name = cstr ''SteamGameId'' \<or> name = cstr ''SteamAppId'' then None else c_getenv env name)"
proof -
  let ?keep = "\<lambda>e. \<not> list_ex (\<lambda>v. has_prefix (entry_key v) e) (call_vars app client) \<and> \<not> list_ex (\<lambda>k. has_prefix k e) np_game_identity"
  have vars: "c_getenv (call_vars app client) name = map_of (call_pairs app client) name"
    using getenv_pairs[OF call_pairs_keys assms(3)] by (simp add: call_vars_pairs[OF assms(1,2)])
  note stays = entry_stays[OF assms]
  show ?thesis
  proof (cases "map_of (call_pairs app client) name = None \<and> name \<noteq> cstr ''SteamGameId'' \<and> name \<noteq> cstr ''SteamAppId''")
    case True
    have "find (has_prefix (env_key name)) (filter ?keep env) = find (has_prefix (env_key name)) env"
      using stays True by (intro find_filter) blast
    then have "c_getenv (filter ?keep env) name = c_getenv env name" by (simp add: c_getenv_def)
    then show ?thesis using True vars by (simp add: call_env_def Let_def getenv_append split: option.split)
  next
    case False
    have "c_getenv (filter ?keep env) name = None" using stays False by (intro getenv_none) auto
    then show ?thesis using False vars by (auto simp: call_env_def Let_def getenv_append split: option.split)
  qed
qed

text \<open>C16. A call that succeeds ran the tool of the app, in an environment of the call, with the module and the input in
  their files; it ended well or was not there any more to wait for; and the answer is what it left in the file for
  the output, no longer than was asked for.\<close>

theorem call_answers_output:
  assumes "np_ceg_service_call dk helper ok module crc appid fn callid inp max_out st fs = Some (r, st', fs')"
    and "cr_result r = NP_CEG_CALL_OK" "ceg_reach st"
  shows "\<exists>app env fs1 h status content. find_app appid st = Some app \<and> g_env st = Some env \<and>
    (let cp = call_paths_of (g_client_dir st) crc callid in
      map_of fs1 (cp_dll cp) = Some (File module) \<and> map_of fs1 (cp_in cp) = Some (File inp) \<and>
      h = helper (call_argv app (cp_legacy cp) crc fn callid max_out) (call_env app (g_client_dir st) env) (g_client_dir st) fs1 \<and>
      wait_for_helper (hr_start h) (hr_looks h) (hr_reaps h) = Some (status, cr_signals r) \<and>
      (status = 0 \<or> status = NP_RUN_UNKNOWN) \<and> map_of (hr_fs h) (cp_out cp) = Some (File content)) \<and>
    length content \<le> unat max_out \<and> cr_out r = (if content = [] then None else Some content) \<and> unat (cr_size r) = length content"
proof -
  let ?cp = "call_paths_of (g_client_dir st) crc callid"
  obtain app where app: "find_app appid st = Some app"
    using assms(1,2) call_not_ok by (cases "find_app appid st") (auto simp: np_ceg_service_call_def)
  let ?argv = "call_argv app (cp_legacy ?cp) crc fn callid max_out"
  obtain st1 fs2 where body: "call_body dk helper ok app ?cp module ?argv inp max_out st fs = Some (r, st1, fs2)"
    using assms(1,2) app call_not_ok by (auto simp: np_ceg_service_call_def Let_def split: if_splits)
  have cl: "length (g_client_dir st) < 1024" using ceg_reach_wf[OF assms(3)] by (simp add: ceg_wf_def)
  from call_body_runs[OF body assms(2) call_paths_apart(1)[OF cl refl] call_paths_apart(2)[OF cl refl]]
  obtain fs1 status sigs st2 where f: "map_of fs1 (cp_dll ?cp) = Some (File module)" "map_of fs1 (cp_in ?cp) = Some (File inp)"
    and run: "run_in_prefix helper ok app ?argv (call_begins ?cp st) fs1 = Some (status, sigs, st2, fs2)"
    and r: "r = (call_output dk (cp_out ?cp) max_out status fs2)\<lparr>cr_signals := sigs\<rparr>" by blast
  from call_output_ok[of dk "cp_out ?cp" max_out status fs2] assms(2) r
  obtain content where good: "status = 0 \<or> status = NP_RUN_UNKNOWN" and c: "map_of fs2 (cp_out ?cp) = Some (File content)"
    "length content \<le> unat max_out" "cr_out r = (if content = [] then None else Some content)" "unat (cr_size r) = length content"
    by auto
  from good have "status \<noteq> NP_RUN_FAILED" by (auto simp: NP_RUN_FAILED_def NP_RUN_UNKNOWN_def)
  with run obtain env h where h: "g_env st = Some env" "h = helper ?argv (call_env app (g_client_dir st) env) (g_client_dir st) fs1"
    "wait_for_helper (hr_start h) (hr_looks h) (hr_reaps h) = Some (status, sigs)" "hr_fs h = fs2"
    by (auto simp: run_in_prefix_def call_begins_def Let_def split: option.splits if_splits)
  have "cr_signals r = sigs" using r by simp
  then show ?thesis using app h f good c by (auto simp: Let_def)
qed

text \<open>A game under \<^verbatim>\<open>/l\<close> with a tool, and a child that writes one byte.\<close>

definition sample_ceg :: ceg_state where
  "sample_ceg = snd (np_ceg_note_app 70 (Some (cstr ''/l/steamapps/common/g/a''))
     (np_ceg_note_tool 70 (Some (cstr ''/t'')) (np_ceg_set_service (Some (cstr ''/c''))
       (np_ceg_snapshot_env (Some []) ceg_start))))"

definition sample_helper :: "cstring list \<Rightarrow> cstring list \<Rightarrow> cstring \<Rightarrow> fs \<Rightarrow> helper_run" where
  "sample_helper argv env cwd fs =
     \<lparr>hr_attr = True, hr_pid = 5, hr_start = 0, hr_looks = [(Still, 1, False), (Gone, 2, False)],
      hr_reaps = [Reaped (Exited 0)], hr_fs = AList.update (cstr ''/c/legacycompat/servicecall_2.out'') (File [120]) fs\<rparr>"

definition sample_ceg_disk :: disk where
  "sample_ceg_disk = \<lparr>dk_open = \<lambda>_. True, dk_create = \<lambda>_. True, dk_unlink = \<lambda>_. True, dk_rmdir = \<lambda>_. True,
     dk_rename = \<lambda>_. True, dk_sync = \<lambda>_. True, dk_close = \<lambda>_. True, dk_written = \<lambda>_. 100\<rparr>"

lemma sample_ceg_reach: "ceg_reach sample_ceg"
  unfolding sample_ceg_def by (intro notes_app notes_tool sets_service keeps_env starts)

lemma sample_call:
  "map_option (\<lambda>(r, _, _). cr_result r)
     (np_ceg_service_call sample_ceg_disk sample_helper True [9] 1 70 3 2 [8] 4 sample_ceg []) = Some NP_CEG_CALL_OK"
  by code_simp

theorem call_answers_output_witness:
  "\<exists>app env. find_app 70 sample_ceg = Some app \<and> g_env sample_ceg = Some env"
proof -
  from sample_call obtain r st' fs' where
    c: "np_ceg_service_call sample_ceg_disk sample_helper True [9] 1 70 3 2 [8] 4 sample_ceg [] = Some (r, st', fs')"
      "cr_result r = NP_CEG_CALL_OK" by auto
  from call_answers_output[OF c sample_ceg_reach] show ?thesis by blast
qed

theorem call_environment_witness:
  "c_getenv (call_env no_app [47] [cstr ''SteamAppId=70'', cstr ''HOME=/h'']) (cstr ''SteamAppId'') = None \<and>
   c_getenv (call_env no_app [47] [cstr ''SteamAppId=70'', cstr ''HOME=/h'']) (cstr ''STEAM_COMPAT_PROTON'') = Some [49]"
proof -
  have n: "61 \<notin> set (cstr ''SteamAppId'')" "61 \<notin> set (cstr ''STEAM_COMPAT_PROTON'')" by (simp_all add: cstr_def)
  show ?thesis
    using call_environment[OF no_app_fits, of "[47]", OF _ n(1)] call_environment[OF no_app_fits, of "[47]", OF _ n(2)]
    by (simp add: call_pairs_def cstr_def)
qed

text \<open>C29. A call leaves nothing behind: where files can be removed, its input and its output are gone, no call is
  recorded as running, and of the other files only the directory and the module of the call may have changed,
  unless the child changed them.\<close>

theorem call_leaves_nothing:
  assumes "np_ceg_service_call dk helper ok module crc appid fn callid inp max_out st fs = Some (r, st', fs')"
    and "find_app appid st \<noteq> None" "g_client_dir st \<noteq> []" "\<And>p. dk_unlink dk p"
    and "cp = call_paths_of (g_client_dir st) crc callid"
  shows "\<not> is_regular fs' (cp_in cp) \<and> \<not> is_regular fs' (cp_out cp) \<and> g_active_in st' = [] \<and> g_active_out st' = [] \<and>
    (\<forall>q. q \<notin> {cp_legacy cp, cp_dll cp, cp_in cp, cp_out cp} \<longrightarrow>
      (\<forall>argv env cwd fs. map_of (hr_fs (helper argv env cwd fs)) q = map_of fs q) \<longrightarrow> map_of fs' q = map_of fs q)"
proof -
  obtain app st1 fs1 where body: "call_body dk helper ok app cp module (call_argv app (cp_legacy cp) crc fn callid max_out)
      inp max_out st fs = Some (r, st1, fs1)"
    and ends: "(st', fs') = call_ends dk cp st1 fs1"
    using assms(1-3,5) by (auto simp: np_ceg_service_call_def Let_def)
  have gone: "\<not> is_regular (snd (sys_unlink dk p fs)) p" for p fs
    using assms(4) by (auto simp: sys_unlink_def is_regular_def AList.delete_conv split: option.splits node.splits)
  have keeps: "is_regular (snd (sys_unlink dk p fs)) q \<Longrightarrow> is_regular fs q" for p q fs
    using sys_unlink_other[of p q dk fs] sys_unlink_own[of dk p fs]
    by (cases "p = q"; cases "map_of fs q") (auto simp: is_regular_def)
  have "map_of fs' q = map_of fs q"
    if "q \<notin> {cp_legacy cp, cp_dll cp, cp_in cp, cp_out cp}"
      "\<forall>argv env cwd fs. map_of (hr_fs (helper argv env cwd fs)) q = map_of fs q" for q
  proof -
    have "map_of fs1 q = map_of fs q" by (rule call_body_other[OF body that])
    moreover have "cp_in cp \<noteq> q" "cp_out cp \<noteq> q" using that(1) by auto
    ultimately show ?thesis using ends by (simp add: call_ends_def sys_unlink_other)
  qed
  then show ?thesis using ends gone keeps[of "cp_out cp" _ "cp_in cp"] by (auto simp: call_ends_def)
qed

theorem call_leaves_nothing_witness:
  "\<exists>r st' fs'. np_ceg_service_call sample_ceg_disk sample_helper True [9] 1 70 3 2 [8] 4 sample_ceg [] = Some (r, st', fs') \<and>
     \<not> is_regular fs' (cp_out (call_paths_of (g_client_dir sample_ceg) 1 2))"
proof -
  from sample_call obtain r st' fs' where
    c: "np_ceg_service_call sample_ceg_disk sample_helper True [9] 1 70 3 2 [8] 4 sample_ceg [] = Some (r, st', fs')" by auto
  have a: "find_app 70 sample_ceg \<noteq> None" "g_client_dir sample_ceg \<noteq> []" by code_simp+
  have "dk_unlink sample_ceg_disk p" for p by (simp add: sample_ceg_disk_def)
  from call_leaves_nothing[OF c a this refl] c show ?thesis by blast
qed

text \<open>A child is not waited for beyond its time: once a look comes past the deadline or while the client stops, and
  the child can be reaped, the wait is over; it fails when the child had to be killed, which it is with both
  signals.\<close>

theorem helper_wait_ends:
  assumes "(look, now, stopping) \<in> set looks" "stopping \<or> now > start + NP_CEG_CALL_TIMEOUT_S"
    and "list_ex (\<lambda>r. r \<noteq> Reap_interrupted) reaps"
  shows "\<exists>rc sigs. wait_for_helper start looks reaps = Some (rc, sigs) \<and> (sigs = [] \<or> sigs = [SIGTERM, SIGKILL] \<and> rc = NP_RUN_FAILED)"
proof -
  have "wait_loop d ls \<noteq> None" if "(look, now, stopping) \<in> set ls" "stopping \<or> now > d" for ls d
    using that by (induction ls) (auto split: wait_obs.splits)
  then have w: "wait_loop (start + NP_CEG_CALL_TIMEOUT_S) looks \<noteq> None" using assms(1,2) by blast
  have r: "reap reaps \<noteq> None" using assms(3) by (induction reaps) (auto split: reap_obs.splits)
  show ?thesis using w r by (auto simp: wait_for_helper_def split: wait_end.splits)
qed

theorem helper_wait_ends_witness:
  "\<exists>rc sigs. wait_for_helper 10 [(Still, 11, False), (Still, 311, False)] [Reap_interrupted, Reaped Signaled] = Some (rc, sigs)"
  using helper_wait_ends[of Still 311 False "[(Still, 11, False), (Still, 311, False)]" 10 "[Reap_interrupted, Reaped Signaled]"]
  by (auto simp: NP_CEG_CALL_TIMEOUT_S_def)

end
