(* ===== verification/Hook_Ceg.thy ===== *)
theory Hook_Ceg
  imports Ceg_Facts Compat_Manager Shortcuts
begin

text \<open>
  The hooks on the jobs and service calls of customized games, \<^verbatim>\<open>src/dylib/hooks/hook_ceg.c\<close>, over the memory
  of the client. The functions of the client, its allocator among them, are parameters.
\<close>

section \<open>Bytes in memory\<close>

definition load_bytes :: "mem \<Rightarrow> u64 \<Rightarrow> nat \<Rightarrow> u8 list" where
  "load_bytes m p n = map (\<lambda>i. m (p + of_nat i)) [0..<n]"

definition store_bytes :: "mem \<Rightarrow> u64 \<Rightarrow> u8 list \<Rightarrow> mem" where
  "store_bytes m p bs = (\<lambda>a. if unat (a - p) < length bs then bs ! unat (a - p) else m a)"

section \<open>The download job\<close>

definition JOB_FLAGS_PROTON :: u32 where "JOB_FLAGS_PROTON = 140"
definition JOB_FLAGS_KEEP :: u32 where "JOB_FLAGS_KEEP = 0x10"
definition JOB_PROBE_INSNS :: nat where "JOB_PROBE_INSNS = 32"

text \<open>The layout of the job, once it is known, whether the service hook is in place, the getter of the allocator.\<close>

record hook_ceg_state =
  g_job :: "np_ceg_job_layout option"
  g_service_ready :: bool
  g_mem :: u64

definition np_hooks_ceg_probe_job :: "mem \<Rightarrow> u64 \<Rightarrow> hook_ceg_state \<Rightarrow> hook_ceg_state" where
  "np_hooks_ceg_probe_job m extract_guids hs =
     hs\<lparr>g_job := (if extract_guids = 0 then None
       else np_ceg_probe_job_layout (map (\<lambda>i. load32 m (extract_guids + 4 * of_nat i)) [0..<JOB_PROBE_INSNS]))\<rparr>"

definition np_hooks_ceg_service_installed :: "hook_ceg_state \<Rightarrow> hook_ceg_state" where
  "np_hooks_ceg_service_installed hs = hs\<lparr>g_service_ready := True\<rparr>"

text \<open>\<open>x1\<close> is the register the hooked function has the app in.\<close>

definition instrument_RequestCustomBinary ::
  "client_fns \<Rightarrow> mem \<Rightarrow> manager_state \<Rightarrow> tool_list \<Rightarrow> u64 \<Rightarrow> ceg_state \<Rightarrow> ceg_state" where
  "instrument_RequestCustomBinary fns m mst tls x1 st =
     np_ceg_note_tool (ucast x1) (np_compat_app_tool_dir fns m mst tls (ucast x1)) st"

definition guid_bytes :: "np_ceg_guids \<Rightarrow> u8 list" where
  "guid_bytes g = gd_drm g @ gd_split g @ gd_merge g"

definition hook_ExtractGUIDs ::
  "(u64 \<Rightarrow> mem \<Rightarrow> mem) option \<Rightarrow> disk \<Rightarrow> fs \<Rightarrow> hook_ceg_state \<Rightarrow> u64 \<Rightarrow> ceg_state \<Rightarrow> mem \<Rightarrow> ceg_state \<times> mem" where
  "hook_ExtractGUIDs orig dk fs hs job st m =
     (let native = (case orig of None \<Rightarrow> m | Some f \<Rightarrow> f job m) in
      case g_job hs of
        None \<Rightarrow> (st, native)
      | Some lay \<Rightarrow>
          let appid = load32 m (job + ucast (jl_appid lay));
              path_ptr = load64 m (job + ucast (jl_path lay));
              path = (if np_plausible_addr path_ptr then Some (mem_cstr m path_ptr) else None);
              tool = np_ceg_tool_for_app appid 1024 st;
              tool = (if tool \<noteq> None \<and> \<not> g_service_ready hs then None else tool)
          in (case (path, tool) of
                (Some exe, Some _) \<Rightarrow>
                  (case np_ceg_read_guids dk exe fs of
                     None \<Rightarrow> (st, native)
                   | Some guids \<Rightarrow>
                       (case np_ceg_note_app appid (Some exe) st of
                          (False, st) \<Rightarrow> (st, native)
                        | (True, st) \<Rightarrow>
                            let m = store_bytes m (job + ucast (jl_guids lay)) (guid_bytes guids);
                                flags = job + ucast (jl_flags lay);
                                was = load32 m flags
                            in (st, store32 m flags (JOB_FLAGS_PROTON OR (was AND JOB_FLAGS_KEEP)))))
              | _ \<Rightarrow> (st, native)))"

section \<open>Modules of the service\<close>

definition ITEM_MGR_OFF :: u64 where "ITEM_MGR_OFF = 0xE0"
definition ITEM_RESULT_OFF :: u64 where "ITEM_RESULT_OFF = 0xE8"
definition ITEM_CRC_OFF :: u64 where "ITEM_CRC_OFF = 0xEC"
definition ITEM_APPID_OFF :: u64 where "ITEM_APPID_OFF = 0xF4"
definition ITEM_FN_OFF :: u64 where "ITEM_FN_OFF = 0xF8"
definition ITEM_CALLID_OFF :: u64 where "ITEM_CALLID_OFF = 0xFC"
definition ITEM_IN_OFF :: u64 where "ITEM_IN_OFF = 0x100"
definition ITEM_IN_SIZE_OFF :: u64 where "ITEM_IN_SIZE_OFF = 0x108"
definition ITEM_OUT_OFF :: u64 where "ITEM_OUT_OFF = 0x110"
definition ITEM_OUT_SIZE_OFF :: u64 where "ITEM_OUT_SIZE_OFF = 0x118"
definition ITEM_FLAGS_OFF :: u64 where "ITEM_FLAGS_OFF = 0x11C"
definition CALL_FLAG_PROTON :: u32 where "CALL_FLAG_PROTON = 8"

definition MGR_TREE_ROOT_OFF :: u64 where "MGR_TREE_ROOT_OFF = 0x20"
definition MGR_TREE_COUNT_OFF :: u64 where "MGR_TREE_COUNT_OFF = 0x2C"
definition MGR_TREE_NODES_OFF :: u64 where "MGR_TREE_NODES_OFF = 0x38"
definition NODE_STRIDE :: u64 where "NODE_STRIDE = 32"
definition NODE_KEY_OFF :: u64 where "NODE_KEY_OFF = 16"
definition NODE_VALUE_OFF :: u64 where "NODE_VALUE_OFF = 24"
definition MODULE_SIZE_OFF :: u64 where "MODULE_SIZE_OFF = 44"
definition MODULE_DATA_OFF :: u64 where "MODULE_DATA_OFF = 48"

text \<open>The data of the module at a node, and its sz.\<close>

definition module_at :: "mem \<Rightarrow> u64 \<Rightarrow> (u64 \<times> u32) option" where
  "module_at m node =
     (let module = load64 m (node + NODE_VALUE_OFF) in
      if \<not> np_plausible_ptr module then None
      else
        let data = load64 m (module + MODULE_DATA_OFF); sz = load32 m (module + MODULE_SIZE_OFF)
        in if np_plausible_addr data \<and> sz \<noteq> 0 then Some (data, sz) else None)"

text \<open>\<open>hops\<close> is how many more nodes are looked at; an index is a signed number.\<close>

fun module_loop :: "mem \<Rightarrow> u64 \<Rightarrow> u32 \<Rightarrow> u32 \<Rightarrow> nat \<Rightarrow> u32 \<Rightarrow> (u64 \<times> u32) option" where
  "module_loop m nodes count crc 0 idx = None"
| "module_loop m nodes count crc (Suc hops) idx =
     (if sint idx < 0 \<or> sint idx \<ge> sint count \<or> \<not> np_plausible_ptr nodes then None
      else
        let node = nodes + ucast idx * NODE_STRIDE; key = load32 m (node + NODE_KEY_OFF)
        in if key = crc then module_at m node
           else module_loop m nodes count crc hops (load32 m (node + (if key > crc then 0 else 4))))"

definition find_module :: "mem \<Rightarrow> u64 \<Rightarrow> u32 \<Rightarrow> (u64 \<times> u32) option" where
  "find_module m mgr crc =
     module_loop m (load64 m (mgr + MGR_TREE_NODES_OFF)) (load32 m (mgr + MGR_TREE_COUNT_OFF)) crc 64
       (load32 m (mgr + MGR_TREE_ROOT_OFF))"

section \<open>The allocator of the client\<close>

definition MEM_VT_ALLOC :: u64 where "MEM_VT_ALLOC = 16"
definition MEM_VT_FREE :: u64 where "MEM_VT_FREE = 32"

text \<open>The getter at an address, and the functions found in the allocator's table.\<close>

record steam_fns =
  sf_getter :: "u64 \<Rightarrow> mem \<Rightarrow> u64"
  sf_alloc :: "u64 \<Rightarrow> u64 \<Rightarrow> u64 \<Rightarrow> mem \<Rightarrow> u64 \<times> mem"
  sf_free :: "u64 \<Rightarrow> u64 \<Rightarrow> u64 \<Rightarrow> mem \<Rightarrow> mem"

definition steam_alloc :: "steam_fns \<Rightarrow> hook_ceg_state \<Rightarrow> u64 \<Rightarrow> mem \<Rightarrow> u64 \<times> mem" where
  "steam_alloc sf hs sz m =
     (let obj = (if g_mem hs \<noteq> 0 then sf_getter sf (g_mem hs) m else 0)
      in if obj = 0 then (0, m) else sf_alloc sf (load64 m (load64 m obj + MEM_VT_ALLOC)) obj sz m)"

definition steam_free :: "steam_fns \<Rightarrow> hook_ceg_state \<Rightarrow> u64 \<Rightarrow> mem \<Rightarrow> mem" where
  "steam_free sf hs p m =
     (let obj = (if p \<noteq> 0 \<and> g_mem hs \<noteq> 0 then sf_getter sf (g_mem hs) m else 0)
      in if obj = 0 then m else sf_free sf (load64 m (load64 m obj + MEM_VT_FREE)) obj p m)"

section \<open>A service call\<close>

definition finish_call :: "steam_fns \<Rightarrow> hook_ceg_state \<Rightarrow> u64 \<Rightarrow> u32 \<Rightarrow> mem \<Rightarrow> u64 \<times> mem" where
  "finish_call sf hs item result m =
     (let m = store32 m (item + ITEM_RESULT_OFF) result;
          m = steam_free sf hs (load64 m (item + ITEM_IN_OFF)) m
      in (1, store64 m (item + ITEM_IN_OFF) 0))"

text \<open>\<open>helper\<close> is what becomes of the process a call starts; none while the call runs.\<close>

definition hook_ThreadProcess ::
  "(u64 \<Rightarrow> mem \<Rightarrow> u64 \<times> mem) option \<Rightarrow> steam_fns \<Rightarrow> hook_ceg_state \<Rightarrow> disk \<Rightarrow>
     (cstring list \<Rightarrow> cstring list \<Rightarrow> cstring \<Rightarrow> fs \<Rightarrow> helper_run) \<Rightarrow> bool \<Rightarrow> u64 \<Rightarrow> ceg_state \<Rightarrow> fs \<Rightarrow> mem \<Rightarrow> (u64 \<times> ceg_state \<times> fs \<times> mem) option" where
  "hook_ThreadProcess orig sf hs dk helper calloc_ok item st fs m =
     (let flags = load32 m (item + ITEM_FLAGS_OFF);
          no_output = (\<lambda>m. store32 (store64 m (item + ITEM_OUT_OFF) 0) (item + ITEM_OUT_SIZE_OFF) 0)
      in if flags AND CALL_FLAG_PROTON = 0 then
           (case orig of
              Some f \<Rightarrow> (case f item m of (r, m) \<Rightarrow> Some (r, st, fs, m))
            | None \<Rightarrow> (case finish_call sf hs item NP_CEG_CALL_FAILED (no_output m) of (r, m) \<Rightarrow> Some (r, st, fs, m)))
         else
           let max_out = load32 m (item + ITEM_OUT_SIZE_OFF);
               m = no_output m;
               mgr = load64 m (item + ITEM_MGR_OFF);
               crc = load32 m (item + ITEM_CRC_OFF);
               appid = load32 m (item + ITEM_APPID_OFF)
           in (case (if np_plausible_ptr mgr then find_module m mgr crc else None) of
                 None \<Rightarrow> (case finish_call sf hs item NP_CEG_CALL_NO_MODULE m of (r, m) \<Rightarrow> Some (r, st, fs, m))
               | Some (module, sz) \<Rightarrow>
                   (case np_ceg_service_call dk helper calloc_ok (load_bytes m module (unat sz)) crc appid (load32 m (item + ITEM_FN_OFF))
                       (load32 m (item + ITEM_CALLID_OFF))
                       (load_bytes m (load64 m (item + ITEM_IN_OFF)) (unat (load32 m (item + ITEM_IN_SIZE_OFF))))
                       max_out st fs of
                      None \<Rightarrow> None
                    | Some (r, st, fs) \<Rightarrow>
                        (case (if cr_result r = NP_CEG_CALL_OK then cr_out r else None) of
                           None \<Rightarrow> (case finish_call sf hs item (cr_result r) m of (ret, m) \<Rightarrow> Some (ret, st, fs, m))
                         | Some out \<Rightarrow>
                             if cr_size r = 0 then (case finish_call sf hs item (cr_result r) m of (ret, m) \<Rightarrow> Some (ret, st, fs, m))
                             else (case steam_alloc sf hs (ucast (cr_size r)) m of (copy, m) \<Rightarrow>
                               if copy = 0 then
                                 (case finish_call sf hs item NP_CEG_CALL_FAILED m of (ret, m) \<Rightarrow> Some (ret, st, fs, m))
                               else
                                 let m = store_bytes m copy out;
                                     m = store64 m (item + ITEM_OUT_OFF) copy;
                                     m = store32 m (item + ITEM_OUT_SIZE_OFF) (cr_size r)
                                 in (case finish_call sf hs item (cr_result r) m of (ret, m) \<Rightarrow> Some (ret, st, fs, m)))))))"

section \<open>Binding the service\<close>

text \<open>The target of the third call, where what it returns has a function taken from its table behind it.\<close>

fun getter_loop :: "mem \<Rightarrow> u64 list \<Rightarrow> nat \<Rightarrow> u64" where
  "getter_loop m [] calls = 0"
| "getter_loop m (at # ats) calls = (case a64_bl at (load32 m at) of
     None \<Rightarrow> getter_loop m ats calls
   | Some target \<Rightarrow>
       if calls + 1 \<noteq> 3 then getter_loop m ats (calls + 1)
       else (case (a64_ldr_uimm (load32 m (at + 8)) True, a64_ldr_uimm (load32 m (at + 12)) True) of
           (Some (rn, rt, off), Some (rn2, rt2, off2)) \<Rightarrow>
             if rn = 0 \<and> off = 0 \<and> rn2 = rt \<and> ucast off2 = MEM_VT_FREE then target else 0
         | _ \<Rightarrow> 0))"

definition allocator_getter :: "mem \<Rightarrow> u64 \<Rightarrow> u64" where
  "allocator_getter m thread_process = getter_loop m (map (\<lambda>i. thread_process + 4 * of_nat i) [0..<64]) 0"

text \<open>The C library's name of the directory a path lies in.\<close>

definition c_dirname :: "cstring \<Rightarrow> cstring" where
  "c_dirname p =
     (let slash = (\<lambda>c. c = 47);
          strip = (\<lambda>s. rev (dropWhile slash (rev s)));
          body = strip p;
          lead = rev (dropWhile (Not \<circ> slash) (rev body))
      in if p = [] then [46]
         else if body = [] then [47]
         else if lead = [] then [46]
         else if strip lead = [] then [47] else strip lead)"

definition np_hooks_ceg_bind_service ::
  "mem \<Rightarrow> cstring option \<Rightarrow> u64 \<Rightarrow> hook_ceg_state \<Rightarrow> ceg_state \<Rightarrow> bool \<times> hook_ceg_state \<times> ceg_state" where
  "np_hooks_ceg_bind_service m image_path thread_process hs st =
     (let dir = c_copy 1024 (case image_path of None \<Rightarrow> [] | Some p \<Rightarrow> p);
          getter = (if thread_process \<noteq> 0 then allocator_getter m thread_process else 0)
      in if getter = 0 \<or> dir = [] then (False, hs, st)
         else (True, hs\<lparr>g_mem := getter\<rparr>, np_ceg_set_service (Some (c_dirname dir)) st))"

section \<open>Installation\<close>

definition np_hooks_ceg_defs :: "np_patch_entry list" where
  "np_hooks_ceg_defs =
     [\<lparr>pe_label = cstr ''CDRM::RequestCustomBinary'', pe_signature = Some (cstr ''CDRM::RequestCustomBinary''),
       pe_address = 0, pe_mode = NP_PATCH_PREHOOK, pe_optional = True\<rparr>,
      \<lparr>pe_label = cstr ''CClientDRMDownloadJob::ExtractGUIDsFromFile'',
       pe_signature = Some (cstr ''CClientDRMDownloadJob::ExtractGUIDsFromFile''),
       pe_address = 0, pe_mode = NP_PATCH_REPLACE, pe_optional = True\<rparr>,
      \<lparr>pe_label = cstr ''CDRM::OnDRMDownloadJobFinish'', pe_signature = Some (cstr ''CDRM::OnDRMDownloadJobFinish''),
       pe_address = 0, pe_mode = NP_PATCH_PREHOOK, pe_optional = True\<rparr>]"

definition np_hooks_ceg_service_defs :: "np_patch_entry list" where
  "np_hooks_ceg_service_defs =
     [\<lparr>pe_label = cstr ''CWorkItemFunctionCall::ThreadProcess'',
       pe_signature = Some (cstr ''CWorkItemFunctionCall::ThreadProcess''),
       pe_address = 0, pe_mode = NP_PATCH_REPLACE, pe_optional = True\<rparr>]"

definition np_hooks_ceg_count :: nat where "np_hooks_ceg_count = length np_hooks_ceg_defs"
definition np_hooks_ceg_service_count :: nat where "np_hooks_ceg_service_count = length np_hooks_ceg_service_defs"

section \<open>The tree of modules\<close>

text \<open>The tree the memory holds below an index: the checksums with their nodes.\<close>

fun holds_modules :: "mem \<Rightarrow> u64 \<Rightarrow> u32 \<Rightarrow> (u32 \<times> u64) tree \<Rightarrow> u32 \<Rightarrow> bool" where
  "holds_modules m nodes count Leaf i \<longleftrightarrow> sint i < 0 \<or> sint i \<ge> sint count"
| "holds_modules m nodes count (Node lt (key, node) rt) i \<longleftrightarrow> 0 \<le> sint i \<and> sint i < sint count \<and>
     node = nodes + ucast i * NODE_STRIDE \<and> load32 m (node + NODE_KEY_OFF) = key \<and>
     holds_modules m nodes count lt (load32 m node) \<and> holds_modules m nodes count rt (load32 m (node + 4))"

lemma module_loop_lookup:
  assumes "holds_modules m nodes count t i" "sorted_wrt (<) (map fst (inorder t))" "height t < hops" "np_plausible_ptr nodes"
  shows "module_loop m nodes count crc hops i = (case tree_map t crc of None \<Rightarrow> None | Some node \<Rightarrow> module_at m node)"
  using assms(1-3)
proof (induction t arbitrary: i hops)
  case Leaf
  then show ?case by (cases hops) (auto simp: tree_map_def)
next
  case (Node lt kv rt)
  obtain k node where kv: "kv = (k, node)" by (cases kv)
  obtain hops' where hops: "hops = Suc hops'" using Node.prems(3) by (cases hops) auto
  have sorted: "sorted_wrt (<) (map fst (inorder lt @ (k, node) # inorder rt))" using Node.prems(2) kv by simp
  then have "sorted_wrt (<) (map fst (inorder lt))" "sorted_wrt (<) (map fst (inorder rt))"
    by (auto simp: sorted_wrt_append)
  note ih = Node.IH(1)[OF _ this(1)] Node.IH(2)[OF _ this(2)]
  have lookup: "tree_map \<langle>lt, kv, rt\<rangle> crc = (if crc = k then Some node else if crc < k then tree_map lt crc else tree_map rt crc)"
    unfolding tree_map_def using map_of_sorted_node[OF sorted] kv by simp
  have step: "module_loop m nodes count crc hops i = (if k = crc then module_at m node
      else module_loop m nodes count crc hops' (load32 m (node + (if k > crc then 0 else 4))))"
    using Node.prems(1) kv hops assms(4) by (auto simp: Let_def)
  have sub: "holds_modules m nodes count lt (load32 m node)" "holds_modules m nodes count rt (load32 m (node + 4))"
    using Node.prems(1)[unfolded kv holds_modules.simps] by blast+
  consider "crc = k" | "crc < k" | "k < crc" by (rule linorder_cases)
  then show ?case
  proof cases
    case 2
    then show ?thesis unfolding step lookup using ih(1)[OF sub(1), of hops'] Node.prems(3) hops by auto
  next
    case 3
    then show ?thesis unfolding step lookup using ih(2)[OF sub(2), of hops'] Node.prems(3) hops by auto
  next
    case 1
    then show ?thesis unfolding step lookup by simp
  qed
qed

section \<open>The job that is filled\<close>

lemma read_guid_length: "read_guid pe name = Some g \<Longrightarrow> length g = 16"
  using rcdata_in_file[of pe name] by (fastforce simp: read_guid_def split: option.splits if_splits prod.splits)

lemma guid_or_zero_length: "length (guid_or_zero (read_guid pe name)) = 16"
  by (cases "read_guid pe name") (simp_all add: guid_or_zero_def read_guid_length)

lemma read_guids_length: "np_ceg_read_guids dk exe fs = Some g \<Longrightarrow> length (guid_bytes g) = 48"
  by (auto simp: np_ceg_read_guids_def np_ceg_guids_from_image_def guid_bytes_def read_guid_length guid_or_zero_length
      split: option.splits)

lemma load_stored_bytes:
  assumes "length bs < 2 ^ 64"
  shows "load_bytes (store_bytes m p bs) p (length bs) = bs"
  using assms by (auto simp: load_bytes_def store_bytes_def unat_of_nat_u64 intro: nth_equalityI)

lemma ucast_of_nat: "(ucast (x :: u32) :: u64) = of_nat (unat x)"
  by (rule word_unat_eq_iff[THEN iffD2]) (simp add: unat_ucast_u32_u64 unsigned_of_nat take_bit_nat_eq_self)

lemma found_in: "a \<in> set as \<Longrightarrow> P a \<Longrightarrow> find P as \<noteq> None"
  by (auto simp: find_None_iff)

lemma note_app_found:
  assumes "np_ceg_tool_for_app appid sz st \<noteq> None" "app_dirs exe \<noteq> None"
  shows "\<exists>st'. np_ceg_note_app appid (Some exe) st = (True, st') \<and> find_app appid st' \<noteq> None"
proof -
  let ?P = "\<lambda>a. appid \<noteq> 0 \<and> ap_appid a = appid \<and> ap_tool a \<noteq> []"
  obtain install library where d: "app_dirs exe = Some (install, library)" using assms(2) by auto
  then obtain at name r where "str_split 47 (drop (at + 18) exe) = Some (name, r)" "name \<noteq> []"
    "install = take (at + 18 + length name) exe"
    by (auto simp: app_dirs_def simp del: drop_eq_Nil take_eq_Nil split: option.split_asm prod.split_asm if_split_asm)
  moreover from str_split_some[OF this(1)] this(2) have "exe \<noteq> []" by auto
  ultimately have "install \<noteq> []" by simp
  then have ne: "c_copy 1024 install \<noteq> []" by (simp add: c_copy_def)
  have "list_ex ?P (g_apps st)" using assms(1) by (auto simp: np_ceg_tool_for_app_def find_None_iff list_ex_iff)
  then have "index_of ?P (g_apps st) \<noteq> None" unfolding index_of_none by simp
  then obtain i where i: "index_of ?P (g_apps st) = Some i" by blast
  let ?a = "(g_apps st ! i)\<lparr>ap_install := c_copy 1024 install, ap_library := c_copy 1024 library\<rparr>"
  have "i < length (g_apps st)" "?P (g_apps st ! i)" using index_of_some[OF i] by simp_all
  then have "?a \<in> set ((g_apps st)[i := ?a])" "?P ?a" "ap_install ?a \<noteq> []" using ne by (simp_all add: set_update_memI)
  then have "find_app appid (st\<lparr>g_apps := (g_apps st)[i := ?a]\<rparr>) \<noteq> None"
    using found_in[of ?a "(g_apps st)[i := ?a]"] by (simp add: find_app_def)
  moreover have "np_ceg_note_app appid (Some exe) st = (True, st\<lparr>g_apps := (g_apps st)[i := ?a]\<rparr>)"
    using d i by (simp add: np_ceg_note_app_def)
  ultimately show ?thesis by blast
qed

lemma fill_job:
  assumes "length bs = 48" "unat g = unat f + 32" "unat g < 2 ^ 15"
    and "m2 = store32 (store_bytes m (job + ucast g) bs) (job + ucast f) v"
  shows "load_bytes m2 (job + ucast g) 48 = bs" "load32 m2 (job + ucast f) = v"
    and "48 \<le> unat (x - (job + ucast g)) \<Longrightarrow> 4 \<le> unat (x - (job + ucast f)) \<Longrightarrow> m2 x = m x"
proof -
  let ?m1 = "store_bytes m (job + ucast g) bs"
  have "m2 (job + ucast g + of_nat i) = ?m1 (job + ucast g + of_nat i)" if "i < 48" for i
  proof -
    have "4 \<le> unat (job + of_nat (unat g + i) - (job + of_nat (unat f)))"
      using assms(2,3) that by (intro unat_apart) auto
    then show ?thesis unfolding assms(4) by (intro store32_outside) (simp add: ucast_of_nat add.assoc)
  qed
  then have "load_bytes m2 (job + ucast g) 48 = load_bytes ?m1 (job + ucast g) 48" by (simp add: load_bytes_def)
  then show "load_bytes m2 (job + ucast g) 48 = bs" using load_stored_bytes[of bs m "job + ucast g"] assms(1) by simp
  show "load32 m2 (job + ucast f) = v" by (simp add: assms(4) load32_store32)
  assume "48 \<le> unat (x - (job + ucast g))" "4 \<le> unat (x - (job + ucast f))"
  then show "m2 x = m x" using assms(1) by (simp add: assms(4) store32_outside store_bytes_def)
qed

lemma fill_job_flags:
  assumes "length bs = 48" "unat g = unat f + 32" "unat g < 2 ^ 15"
  shows "load32 (store_bytes m (job + ucast g) bs) (job + ucast f) = load32 m (job + ucast f)"
proof -
  have "store_bytes m (job + ucast g) bs (job + ucast f + of_nat i) = m (job + ucast f + of_nat i)" if "i < 4" for i
  proof -
    have "48 \<le> unat (job + of_nat (unat f + i) - (job + of_nat (unat g)))"
      using assms(2,3) that by (intro unat_apart) auto
    then have "48 \<le> unat (job + ucast f + of_nat i - (job + ucast g))" by (simp add: ucast_of_nat add.assoc)
    then show ?thesis using assms(1) by (simp add: store_bytes_def)
  qed
  note b = this
  from b[of 0] b[of 1] b[of 2] b[of 3] show ?thesis by (simp add: load32_def)
qed

section \<open>Properties\<close>

text \<open>Where the manager's modules are a search tree of at most 63 levels, a module is found by its checksum exactly
  when the tree has it, and then with the data and the size of its node.\<close>

theorem module_lookup:
  assumes "holds_modules m (load64 m (mgr + MGR_TREE_NODES_OFF)) (load32 m (mgr + MGR_TREE_COUNT_OFF)) t
      (load32 m (mgr + MGR_TREE_ROOT_OFF))"
    and "sorted_wrt (<) (map fst (inorder t))" "height t < 64" "np_plausible_ptr (load64 m (mgr + MGR_TREE_NODES_OFF))"
  shows "find_module m mgr crc = (case tree_map t crc of None \<Rightarrow> None | Some node \<Rightarrow> module_at m node)"
  unfolding find_module_def by (rule module_loop_lookup[OF assms])

text \<open>A manager with one module, whose checksum is 7.\<close>

definition sample_modules :: mem where
  "sample_modules = word_mem
     [(0x100000020, 0), (0x10000002C, 1), (0x100000038, 0), (0x10000003C, 2),
      (0x200000000, 0xFFFFFFFF), (0x200000004, 0xFFFFFFFF), (0x200000010, 7), (0x200000018, 0x1000), (0x20000001C, 2),
      (0x20000102C, 5), (0x200001030, 0x2000), (0x200001034, 2)]"

theorem module_lookup_witness: "find_module sample_modules 0x100000000 7 = Some (0x200002000, 5)"
proof -
  let ?t = "\<langle>\<langle>\<rangle>, (7, 0x200000000), \<langle>\<rangle>\<rangle> :: (u32 \<times> u64) tree"
  have at: "load64 sample_modules (0x100000000 + MGR_TREE_NODES_OFF) = 0x200000000"
    "load32 sample_modules (0x100000000 + MGR_TREE_COUNT_OFF) = 1" "load32 sample_modules (0x100000000 + MGR_TREE_ROOT_OFF) = 0"
    by (simp_all add: sample_modules_def load32_word_mem load64_word_mem le64_def MGR_TREE_NODES_OFF_def
        MGR_TREE_COUNT_OFF_def MGR_TREE_ROOT_OFF_def)
  have "holds_modules sample_modules 0x200000000 1 ?t 0"
    by (simp add: sample_modules_def load32_word_mem NODE_KEY_OFF_def NODE_STRIDE_def)
  moreover have "module_at sample_modules 0x200000000 = Some (0x200002000, 5)"
    by (simp add: module_at_def sample_modules_def load32_word_mem load64_word_mem le64_def NODE_VALUE_OFF_def
        MODULE_DATA_OFF_def MODULE_SIZE_OFF_def np_plausible_ptr_def np_plausible_addr_def Let_def)
  ultimately show ?thesis
    using module_lookup[where m = sample_modules and mgr = "0x100000000" and t = ?t and crc = 7, unfolded at]
    by (simp add: tree_map_def np_plausible_ptr_def np_plausible_addr_def)
qed

text \<open>C17. With the layout of the job known, the service bound, and a tool noted for its app, a job whose executable has
  identifiers is filled in: the three identifiers and the flags of a tool, which keep the one bit there is to keep;
  the app and the path stay as they were, like every other byte; and the app can be called for from then on.\<close>

theorem download_job_filled:
  assumes "np_ceg_probe_job_layout code = Some lay" "g_job hs = Some lay" "g_service_ready hs"
    and "load32 m (job + ucast (jl_appid lay)) = appid" "load64 m (job + ucast (jl_path lay)) = ptr" "np_plausible_addr ptr"
    and "np_ceg_tool_for_app appid 1024 st \<noteq> None" "np_ceg_read_guids dk (mem_cstr m ptr) fs = Some g"
    and "app_dirs (mem_cstr m ptr) \<noteq> None"
  shows "\<exists>st' m'. hook_ExtractGUIDs orig dk fs hs job st m = (st', m') \<and> find_app appid st' \<noteq> None \<and>
    load_bytes m' (job + ucast (jl_guids lay)) 48 = guid_bytes g \<and>
    load32 m' (job + ucast (jl_flags lay)) = 140 OR (load32 m (job + ucast (jl_flags lay)) AND 0x10) \<and>
    (\<forall>x. 48 \<le> unat (x - (job + ucast (jl_guids lay))) \<longrightarrow> 4 \<le> unat (x - (job + ucast (jl_flags lay))) \<longrightarrow> m' x = m x)"
proof -
  from note_app_found[OF assms(7,9)] obtain st' where
    n: "np_ceg_note_app appid (Some (mem_cstr m ptr)) st = (True, st')" "find_app appid st' \<noteq> None" by blast
  obtain tool where t: "np_ceg_tool_for_app appid 1024 st = Some tool" using assms(7) by blast
  from job_fields_apart[OF assms(1)] have off: "unat (jl_guids lay) = unat (jl_flags lay) + 32" "unat (jl_guids lay) < 2 ^ 15"
    by simp_all
  let ?m1 = "store_bytes m (job + ucast (jl_guids lay)) (guid_bytes g)"
  have "load32 ?m1 (job + ucast (jl_flags lay)) = load32 m (job + ucast (jl_flags lay))"
    by (rule fill_job_flags[OF read_guids_length[OF assms(8)] off])
  then have h: "hook_ExtractGUIDs orig dk fs hs job st m = (st', store32 ?m1 (job + ucast (jl_flags lay))
      (JOB_FLAGS_PROTON OR (load32 m (job + ucast (jl_flags lay)) AND JOB_FLAGS_KEEP)))"
    using assms n t by (simp add: hook_ExtractGUIDs_def Let_def)
  from fill_job[OF read_guids_length[OF assms(8)] off refl] n(2) h show ?thesis
    by (auto simp: JOB_FLAGS_PROTON_def JOB_FLAGS_KEEP_def)
qed

text \<open>An executable whose first identifier is the bytes 1 to 16, and a job for it.\<close>

definition sample_exe :: "u8 list" where
  "sample_exe =
     [77, 90] @ replicate 58 0 @ [64, 0, 0, 0, 80, 69, 0, 0, 0, 0, 1] @ replicate 13 0 @ [120, 0, 0, 0, 11, 1]
     @ replicate 90 0 @ [3] @ replicate 20 0 @ [16] @ replicate 14 0 @ [128, 0, 0, 0, 0, 16, 0, 0, 128, 0, 0,
     0, 248] @ replicate 33 0 @ [1, 0, 10, 0, 0, 0, 24, 0, 0, 128] @ replicate 12 0 @ [1, 0, 0, 0, 88, 0, 0,
     128, 48, 0, 0, 128] @ replicate 14 0 @ [1, 0, 9, 4, 0, 0, 72, 0, 0, 0, 112, 16, 0, 0, 16] @ replicate 11
     0 @ [11, 0, 83, 0, 84, 0, 69, 0, 65, 0, 77, 0, 95, 0, 71, 0, 85, 0, 73, 0, 68, 0, 68, 0, 1, 2, 3, 4, 5,
     6, 7, 8, 9, 10, 11, 12, 13, 14, 15, 16]"

definition sample_job_mem :: mem where
  "sample_job_mem = word_mem
     [(0x30000016C, 70), (0x3000001D8, 0), (0x3000001DC, 4),
      (0x400000000, 0x732F6C2F), (0x400000004, 0x6D616574), (0x400000008, 0x73707061), (0x40000000C, 0x6D6F632F),
      (0x400000010, 0x2F6E6F6D), (0x400000014, 0x00612F67)]"

definition sample_games :: fs where
  "sample_games = [(cstr ''/l/steamapps/common/g/a'', File sample_exe)]"

lemma sample_guids:
  "np_ceg_read_guids sample_ceg_disk (cstr ''/l/steamapps/common/g/a'') sample_games \<noteq> None"
proof -
  have g: "np_ceg_guids_from_image sample_exe \<noteq> None" by code_simp
  have n: "length sample_exe = 376" by (simp add: sample_exe_def)
  have "np_read_file_max sample_ceg_disk (cstr ''/l/steamapps/common/g/a'') NP_CEG_EXE_MAX sample_games = Some sample_exe"
    using n by (simp add: np_read_file_max_def sample_ceg_disk_def sample_games_def NP_CEG_EXE_MAX_def del: length_0_conv)
  then show ?thesis using g by (simp add: np_ceg_read_guids_def)
qed

lemma sample_job_path: "mem_cstr sample_job_mem 0x400000000 = cstr ''/l/steamapps/common/g/a''"
proof (rule mem_cstr_strcmp)
  show "strcmp_eq sample_job_mem 0x400000000 (cstr ''/l/steamapps/common/g/a'')"
    by (simp add: sample_job_mem_def word_mem_def cstr_def)
qed (simp_all add: cstr_def)

theorem download_job_filled_witness:
  "\<exists>st' m'. hook_ExtractGUIDs None sample_ceg_disk sample_games
       \<lparr>g_job = Some np_ceg_job_baseline, g_service_ready = True, g_mem = 0\<rparr> 0x300000000 sample_ceg sample_job_mem = (st', m') \<and>
     find_app 70 st' \<noteq> None \<and> load32 m' (0x300000000 + 392) = 140"
proof -
  let ?hs = "\<lparr>g_job = Some np_ceg_job_baseline, g_service_ready = True, g_mem = 0\<rparr>"
  have l: "np_ceg_probe_job_layout [0xB9416C01, 0x39462002, 0x36380002, 0xF940EC03] = Some np_ceg_job_baseline" by code_simp
  have off: "ucast (jl_appid np_ceg_job_baseline) = (364 :: u64)" "ucast (jl_flags np_ceg_job_baseline) = (392 :: u64)"
    "ucast (jl_path np_ceg_job_baseline) = (472 :: u64)" by (simp_all add: np_ceg_job_baseline_def)
  have m: "load32 sample_job_mem (0x300000000 + 364) = 70" "load64 sample_job_mem (0x300000000 + 472) = 0x400000000"
    "load32 sample_job_mem (0x300000000 + 392) = 0"
    by (simp_all add: sample_job_mem_def load32_word_mem load64_word_mem le64_def)
  have p: "np_plausible_addr 0x400000000" by (simp add: np_plausible_addr_def)
  have t: "np_ceg_tool_for_app 70 1024 sample_ceg \<noteq> None" "app_dirs (mem_cstr sample_job_mem 0x400000000) \<noteq> None"
    unfolding sample_job_path by code_simp+
  obtain g where g: "np_ceg_read_guids sample_ceg_disk (mem_cstr sample_job_mem 0x400000000) sample_games = Some g"
    using sample_guids unfolding sample_job_path by blast
  have "g_job ?hs = Some np_ceg_job_baseline" "g_service_ready ?hs" by simp_all
  from download_job_filled[OF l this m(1)[folded off] m(2)[folded off] p t(1) g t(2), of None, unfolded off] m(3)
  show ?thesis by auto
qed

end
