(* ===== verification/Page_Inputs.thy ===== *)
theory Page_Inputs
  imports Compat_Tools Writer Page_Patch
begin

text \<open>
  What a page is told, \<^verbatim>\<open>src/dylib/feats/webpatch.c\<close>: the texts that the marks of a pattern stand for, written
  as JavaScript from the names of the tools, the saved settings and the builds. Every text of a thread is
  a field of its inputs; where there is no memory for one, or for the inputs, it stays unset.
\<close>

section \<open>The inputs of a thread\<close>

datatype input_name =
  IN_FALLBACK_TOOL | IN_FEX_TOOLS | IN_DEFAULTS | IN_BUILDS | IN_READY | IN_FEATS | IN_VARS | IN_OUR_TOOLS

type_synonym inputs = "input_name \<Rightarrow> cstring option"

definition NP_UNREAD_DEFAULTS :: cstring where "NP_UNREAD_DEFAULTS = cstr ''{rosetta:null,fex:null}''"
definition NP_TOOL_NAME_MAX :: nat where "NP_TOOL_NAME_MAX = 128"
definition NP_WEBPATCH_FEX_TOOLS_MAX :: nat where "NP_WEBPATCH_FEX_TOOLS_MAX = 16"
definition NP_WEBPATCH_BUILDS_MAX :: nat where "NP_WEBPATCH_BUILDS_MAX = 32"

fun g_unset :: "input_name \<Rightarrow> cstring" where
  "g_unset IN_FALLBACK_TOOL = []"
| "g_unset IN_FEX_TOOLS = cstr ''[]''"
| "g_unset IN_DEFAULTS = NP_UNREAD_DEFAULTS"
| "g_unset IN_BUILDS = cstr ''[]''"
| "g_unset IN_READY = cstr ''{}''"
| "g_unset IN_FEATS = cstr ''[]''"
| "g_unset IN_VARS = cstr ''[]''"
| "g_unset IN_OUR_TOOLS = cstr ''[]''"

text \<open>Which memory there is: for the inputs of the thread, and for a text to be put into one of them.\<close>

record page_mem =
  pm_inputs :: bool
  pm_text :: "input_name \<Rightarrow> bool"

definition set_input :: "page_mem \<Rightarrow> input_name \<Rightarrow> cstring option \<Rightarrow> inputs \<Rightarrow> inputs" where
  "set_input pm which str inp = (if pm_inputs pm then inp(which := str) else inp)"

definition input_text :: "input_name \<Rightarrow> inputs \<Rightarrow> cstring" where
  "input_text which inp = (case inp which of None \<Rightarrow> g_unset which | Some str \<Rightarrow> str)"

text \<open>Which names a page may be told.\<close>

definition is_page_tool :: "cstring \<Rightarrow> bool" where
  "is_page_tool name \<longleftrightarrow> length name < NP_TOOL_NAME_MAX \<and> list_all (\<lambda>c. is_ident_char c \<or> c = 46 \<or> c = 45) name"

definition np_webpatch_set_fallback_tool :: "page_mem \<Rightarrow> cstring option \<Rightarrow> inputs \<Rightarrow> inputs" where
  "np_webpatch_set_fallback_tool pm name =
     set_input pm IN_FALLBACK_TOOL (case name of None \<Rightarrow> None
       | Some n \<Rightarrow> if is_page_tool n \<and> pm_text pm IN_FALLBACK_TOOL then Some n else None)"

section \<open>Writing JavaScript\<close>

record np_js =
  nj_buf :: cstring
  nj_size :: nat
  nj_ok :: bool

definition js_alloc :: "bool \<Rightarrow> nat \<Rightarrow> np_js" where
  "js_alloc mem_ok sz = \<lparr>nj_buf = [], nj_size = (if mem_ok then sz else 0), nj_ok = mem_ok\<rparr>"

definition js_done :: "np_js \<Rightarrow> cstring option" where
  "js_done j = (if nj_ok j then Some (nj_buf j) else None)"

definition js_put :: "cstring \<Rightarrow> np_js \<Rightarrow> np_js" where
  "js_put str j = (if \<not> nj_ok j \<or> length (nj_buf j) + length str \<ge> nj_size j then j\<lparr>nj_ok := False\<rparr>
     else j\<lparr>nj_buf := nj_buf j @ str\<rparr>)"

interpretation nj: bounded_writer nj_buf nj_size nj_ok "Suc 0" js_put "\<lambda>s. s"
  by unfold_locales (auto simp: js_put_def)

text \<open>An entry of a list, behind a comma where the list has one already.\<close>

definition js_comma :: "np_js \<Rightarrow> np_js" where
  "js_comma j = (if nj_ok j \<and> last (nj_buf j) \<noteq> 91 then js_put [44] j else j)"

definition js_quoted :: "cstring \<Rightarrow> np_js \<Rightarrow> np_js" where
  "js_quoted str j = js_put [34] (js_put str (js_put [34] j))"

fun fex_loop :: "cstring option list \<Rightarrow> np_js \<Rightarrow> np_js" where
  "fex_loop [] j = j"
| "fex_loop (n # ns) j = (case n of
     None \<Rightarrow> fex_loop ns j
   | Some name \<Rightarrow>
       if name = [] \<or> \<not> is_page_tool name then fex_loop ns j
       else fex_loop ns (js_quoted name (js_comma j)))"

text \<open>\<open>names\<close> may be null, and so may each of them.\<close>

definition np_webpatch_set_fex_tools :: "page_mem \<Rightarrow> cstring option list option \<Rightarrow> inputs \<Rightarrow> inputs" where
  "np_webpatch_set_fex_tools pm names =
     (let ns = (case names of None \<Rightarrow> [] | Some ns \<Rightarrow> take NP_WEBPATCH_FEX_TOOLS_MAX ns);
          sz = 3 + sum_list (map (\<lambda>n. 3 + (case n of None \<Rightarrow> 0 | Some s \<Rightarrow> length s)) ns)
      in set_input pm IN_FEX_TOOLS (js_done (js_put [93] (fex_loop ns (js_put [91] (js_alloc (pm_text pm IN_FEX_TOOLS) sz))))))"

section \<open>Settings\<close>

definition is_setting_key :: "cstring \<Rightarrow> bool" where
  "is_setting_key s \<longleftrightarrow> s \<noteq> [] \<and> list_all (\<lambda>c. c_upper c \<or> c_digit c \<or> c = 95) s"

definition is_setting_value :: "cstring \<Rightarrow> bool" where
  "is_setting_value s \<longleftrightarrow> list_all (\<lambda>c. is_ident_char c \<or> c = 46 \<or> c = 61) s"

definition js_setting :: "bool \<Rightarrow> cstring \<Rightarrow> cstring \<Rightarrow> np_js \<Rightarrow> np_js" where
  "js_setting first k v j =
     (let j = (if first then j else js_put [44] j)
      in js_put [34] (js_put v (js_put [34, 58, 34] (js_put k (js_put [34] j)))))"

text \<open>The lines of a text; what is behind the last newline is one too, unless it is empty.\<close>

fun settings_loop :: "cstring list \<Rightarrow> bool \<Rightarrow> np_js \<Rightarrow> np_js" where
  "settings_loop [] first j = j"
| "settings_loop (l # ls) first j = (case str_split 61 l of
     None \<Rightarrow> settings_loop ls first j
   | Some (k, v) \<Rightarrow>
       if is_setting_key k \<and> is_setting_value v then settings_loop ls False (js_setting first k v j)
       else settings_loop ls first j)"

definition js_settings :: "cstring option \<Rightarrow> np_js \<Rightarrow> np_js" where
  "js_settings lines j = (case lines of
     None \<Rightarrow> js_put (cstr ''null'') j
   | Some s \<Rightarrow> js_put [125] (settings_loop (str_fields 10 s) True (js_put [123] j)))"

definition np_webpatch_set_defaults :: "page_mem \<Rightarrow> cstring option \<Rightarrow> cstring option \<Rightarrow> inputs \<Rightarrow> inputs" where
  "np_webpatch_set_defaults pm rosetta fex =
     (let len = (\<lambda>t. case t of None \<Rightarrow> 0 | Some s \<Rightarrow> length s);
          j = js_alloc (pm_text pm IN_DEFAULTS) (32 + 3 * (len rosetta + len fex));
          j = js_settings rosetta (js_put (cstr ''{rosetta:'') j);
          j = js_put (cstr ''}'') (js_settings fex (js_put (cstr '',fex:'') j))
      in set_input pm IN_DEFAULTS (js_done j))"

section \<open>Builds\<close>

record np_webpatch_build =
  wb_tool :: "cstring option"
  wb_build :: "cstring option"
  wb_label :: "cstring option"
  wb_fex :: bool
  wb_override :: "cstring option"

definition is_label :: "cstring option \<Rightarrow> bool" where
  "is_label s \<longleftrightarrow> (case s of None \<Rightarrow> False | Some t \<Rightarrow> t \<noteq> [] \<and> list_all (\<lambda>c. \<not> (c < 0x20 \<or> c = 34 \<or> c = 92)) t)"

text \<open>A build that can be shown, by its tool, its number and its label.\<close>

definition shown_build :: "np_webpatch_build \<Rightarrow> (cstring \<times> cstring \<times> cstring) option" where
  "shown_build b = (case (wb_tool b, wb_build b, wb_label b) of
     (Some t, Some n, Some l) \<Rightarrow>
       if t = [] \<or> \<not> is_page_tool t \<or> \<not> np_is_build_id n \<or> \<not> is_label (Some l) then None else Some (t, n, l)
   | _ \<Rightarrow> None)"

definition js_build :: "np_webpatch_build \<Rightarrow> cstring \<times> cstring \<times> cstring \<Rightarrow> np_js \<Rightarrow> np_js" where
  "js_build b tnl j = (case tnl of (t, n, l) \<Rightarrow>
     let j = js_put t (js_put (cstr ''{id:'' @ [34]) (js_comma j));
         j = js_put n (js_put ([34] @ cstr '',build:'' @ [34]) j);
         j = js_put (if wb_fex b then [34] @ cstr '',runner:'' @ [34] @ cstr ''fex'' @ [34] @ cstr '',label:'' @ [34]
               else [34] @ cstr '',runner:'' @ [34] @ cstr ''rosetta'' @ [34] @ cstr '',label:'' @ [34]) j;
         j = js_put ([34] @ cstr '',override:'') (js_put l j)
     in js_put (cstr ''}'') (js_settings (wb_override b) j))"

fun builds_loop :: "np_webpatch_build list \<Rightarrow> np_js \<Rightarrow> np_js" where
  "builds_loop [] j = j"
| "builds_loop (b # bs) j = (case shown_build b of
     None \<Rightarrow> builds_loop bs j | Some tnl \<Rightarrow> builds_loop bs (js_build b tnl j))"

definition opt_length :: "cstring option \<Rightarrow> nat" where
  "opt_length s = (case s of None \<Rightarrow> 0 | Some t \<Rightarrow> length t)"

definition build_room :: "np_webpatch_build \<Rightarrow> nat" where
  "build_room b = 64 + opt_length (wb_tool b) + opt_length (wb_build b) + opt_length (wb_label b) +
     (case wb_override b of None \<Rightarrow> 4 | Some s \<Rightarrow> 3 * length s + 8)"

definition np_webpatch_set_builds :: "page_mem \<Rightarrow> np_webpatch_build list option \<Rightarrow> inputs \<Rightarrow> inputs" where
  "np_webpatch_set_builds pm builds =
     (let bs = (case builds of None \<Rightarrow> [] | Some bs \<Rightarrow> take NP_WEBPATCH_BUILDS_MAX bs);
          sz = 3 + sum_list (map build_room bs)
      in set_input pm IN_BUILDS (js_done (js_put [93] (builds_loop bs (js_put [91] (js_alloc (pm_text pm IN_BUILDS) sz))))))"

section \<open>What a thread keeps\<close>

text \<open>Its inputs; whether the features and the variants were read or given, and which of them were given; the builds
  of the tools, with their architectures, that variants are offered for.\<close>

record page_thread =
  th_inputs :: inputs
  g_feat_ready_done :: bool
  g_feat_pinned :: bool
  g_var_done :: bool
  g_var_pinned :: bool
  g_var_tools :: "(cstring \<times> cstring \<times> cstring) list"

text \<open>The loop over the tools, each a name, a build and an architecture.\<close>

type_synonym tool_build = "cstring option \<times> cstring option \<times> cstring option"

fun page_builds_loop :: "tool_build list \<Rightarrow> (cstring \<times> cstring \<times> cstring) list \<Rightarrow> (cstring \<times> cstring \<times> cstring) list" where
  "page_builds_loop [] tv = tv"
| "page_builds_loop ((name, build, arch) # ts) tv =
     (if length tv \<ge> NP_WEBPATCH_BUILDS_MAX then tv
      else case (name, build) of
          (Some n, Some b) \<Rightarrow>
            if n = [] \<or> b = [] \<or> \<not> is_page_tool n \<or> \<not> is_page_tool b then page_builds_loop ts tv
            else page_builds_loop ts (tv @ [(c_copy NP_TOOL_NAME_MAX n, c_copy NP_TOOL_NAME_MAX b,
              c_copy NP_TOOL_NAME_MAX (case arch of None \<Rightarrow> [] | Some a \<Rightarrow> a))])
        | _ \<Rightarrow> page_builds_loop ts tv)"

fun our_loop :: "cstring list \<Rightarrow> bool \<Rightarrow> np_js \<Rightarrow> np_js" where
  "our_loop [] first j = j"
| "our_loop (n # ns) first j = our_loop ns False (js_quoted n (if first then j else js_put [44] j))"

definition np_webpatch_set_tool_builds :: "page_mem \<Rightarrow> tool_build list \<Rightarrow> page_thread \<Rightarrow> page_thread" where
  "np_webpatch_set_tool_builds pm tools th =
     (let tv = page_builds_loop tools [];
          j = js_alloc (pm_text pm IN_OUR_TOOLS) (length tv * (NP_TOOL_NAME_MAX + 3) + 3);
          j = js_put [93] (our_loop (map fst tv) True (js_put [91] j))
      in th\<lparr>g_var_tools := tv, g_var_done := g_var_pinned th \<and> g_var_done th,
            th_inputs := set_input pm IN_OUR_TOOLS (js_done j) (th_inputs th)\<rparr>)"

text \<open>The features and the variants can be given, and are not read from the machine from then on.\<close>

definition given_text :: "page_mem \<Rightarrow> input_name \<Rightarrow> cstring option \<Rightarrow> inputs \<Rightarrow> inputs" where
  "given_text pm which str inp = set_input pm which
     (if pm_text pm which then Some (case str of None \<Rightarrow> g_unset which | Some x \<Rightarrow> x) else None) inp"

definition np_webpatch_set_features :: "page_mem \<Rightarrow> cstring option \<Rightarrow> cstring option \<Rightarrow> page_thread \<Rightarrow> page_thread" where
  "np_webpatch_set_features pm ready rows th =
     th\<lparr>th_inputs := given_text pm IN_FEATS rows (given_text pm IN_READY ready (th_inputs th)),
        g_feat_ready_done := True, g_feat_pinned := True\<rparr>"

definition np_webpatch_set_variants :: "page_mem \<Rightarrow> cstring option \<Rightarrow> page_thread \<Rightarrow> page_thread" where
  "np_webpatch_set_variants pm rows th =
     th\<lparr>th_inputs := given_text pm IN_VARS rows (th_inputs th), g_var_done := True, g_var_pinned := True\<rparr>"

text \<open>What is given lasts, what was read is read again for the next page.\<close>

definition forget_read :: "page_thread \<Rightarrow> page_thread" where
  "forget_read th = th\<lparr>g_feat_ready_done := g_feat_pinned th \<and> g_feat_ready_done th,
     g_var_done := g_var_pinned th \<and> g_var_done th\<rparr>"

section \<open>Marks\<close>

text \<open>\<open>feats\<close> and \<open>vars\<close> read the features and the variants of the machine; they run when a mark first needs
  them.\<close>

definition marker_text ::
  "(page_thread \<Rightarrow> page_thread) \<Rightarrow> (page_thread \<Rightarrow> page_thread) \<Rightarrow> u8 \<Rightarrow> page_thread \<Rightarrow>
     cstring option \<times> page_thread" where
  "marker_text feats vars c th =
     (if c = 17 then (Some (input_text IN_FALLBACK_TOOL (th_inputs th)), th)
      else if c = 18 then (Some (input_text IN_FEX_TOOLS (th_inputs th)), th)
      else if c = 23 then (Some (input_text IN_DEFAULTS (th_inputs th)), th)
      else if c = 24 then (Some (input_text IN_BUILDS (th_inputs th)), th)
      else if c = 28 then (Some (input_text IN_OUR_TOOLS (th_inputs th)), th)
      else if c = 25 \<or> c = 26 then
        let th = (if g_feat_ready_done th then th else feats th)
        in (Some (input_text (if c = 25 then IN_READY else IN_FEATS) (th_inputs th)), th)
      else if c = 27 then
        let th = (if g_var_done th then th else vars th)
        in (Some (input_text IN_VARS (th_inputs th)), th)
      else (None, th))"

end
