(* ===== verification/Page_Input_Facts.thy ===== *)
theory Page_Input_Facts
  imports Page_Inputs
begin

text \<open>
  What the inputs of a page are: the text for the saved settings, the lists of tools and the builds are the
  lists they are meant to be, in the room the code reserves for them, whatever the settings and names are.
\<close>

section \<open>Writes that fit\<close>

definition js_ext :: "cstring \<Rightarrow> np_js \<Rightarrow> np_js" where
  "js_ext s j = j\<lparr>nj_buf := nj_buf j @ s\<rparr>"

lemma js_ext_simps [simp]:
  "nj_buf (js_ext s j) = nj_buf j @ s" "nj_size (js_ext s j) = nj_size j" "nj_ok (js_ext s j) = nj_ok j"
  "js_ext t (js_ext s j) = js_ext (s @ t) j" "js_ext [] j = j"
  by (simp_all add: js_ext_def)

lemma js_put_fits: "nj_ok j \<Longrightarrow> length (nj_buf j) + length s < nj_size j \<Longrightarrow> js_put s j = js_ext s j"
  by (simp add: js_put_def js_ext_def)

lemma js_alloc_ok [simp]: "nj_ok (js_alloc True n)" "nj_size (js_alloc True n) = n" "nj_buf (js_alloc True n) = []"
  by (simp_all add: js_alloc_def)

lemma js_put_failed: "\<not> nj_ok j \<Longrightarrow> \<not> nj_ok (js_put s j)"
  by (simp add: js_put_def)

text \<open>A list with commas, written entry by entry.\<close>

fun more_items :: "bool \<Rightarrow> cstring list \<Rightarrow> cstring" where
  "more_items first [] = []"
| "more_items first (x # xs) = (if first then x else 44 # x) @ more_items False xs"

lemma more_items_join: "more_items True xs = join_fields 44 xs"
proof (cases xs)
  case (Cons x ys)
  have "join_fields 44 (x # ys) = x @ more_items False ys" for x
    by (induction ys arbitrary: x) simp_all
  then show ?thesis using Cons by simp
qed simp

definition js_quote :: "cstring \<Rightarrow> cstring" where
  "js_quote s = [34] @ s @ [34]"

lemma js_quoted_fits:
  "nj_ok j \<Longrightarrow> length (nj_buf j) + length s + 2 < nj_size j \<Longrightarrow> js_quoted s j = js_ext (js_quote s) j"
  by (simp add: js_quote_def js_put_fits js_quoted_def js_quote_def)

lemma js_comma_fits:
  assumes "nj_ok j" "length (nj_buf j) + 1 < nj_size j" "(last (nj_buf j) = 91) = first"
  shows "js_comma j = js_ext (if first then [] else [44]) j"
  using assms by (auto simp: js_comma_def js_put_fits)

section \<open>Lists of tools\<close>

definition fex_names :: "cstring option list \<Rightarrow> cstring list" where
  "fex_names ns = filter (\<lambda>n. n \<noteq> [] \<and> is_page_tool n) (List.map_filter (\<lambda>n. n) ns)"

definition opt_room :: "cstring option \<Rightarrow> nat" where
  "opt_room n = 3 + (case n of None \<Rightarrow> 0 | Some s \<Rightarrow> length s)"

lemma fex_names_Cons:
  "fex_names (n # ns) = (case n of Some s \<Rightarrow> if s = [] \<or> \<not> is_page_tool s then fex_names ns else s # fex_names ns
     | None \<Rightarrow> fex_names ns)"
  by (auto simp: fex_names_def map_filter_simps split: option.splits)

lemma fex_loop_fits:
  assumes "nj_ok j" "nj_buf j \<noteq> []" "(last (nj_buf j) = 91) = first"
    "length (nj_buf j) + sum_list (map opt_room ns) < nj_size j"
  shows "fex_loop ns j = js_ext (more_items first (map js_quote (fex_names ns))) j"
  using assms
proof (induction ns arbitrary: j first)
  case (Cons n ns)
  show ?case
  proof (cases "\<exists>s. n = Some s \<and> s \<noteq> [] \<and> is_page_tool s")
    case True
    then obtain s where s: "n = Some s" "s \<noteq> []" "is_page_tool s" by auto
    have "opt_room n = 3 + length s" by (simp add: opt_room_def s)
    then have room: "length (nj_buf j) + (3 + length s) + sum_list (map opt_room ns) < nj_size j"
      using Cons.prems(4) by simp
    have c: "js_comma j = js_ext (if first then [] else [44]) j"
      by (rule js_comma_fits) (use Cons.prems room in auto)
    have q: "js_quoted s (js_comma j) = js_ext (js_quote s) (js_ext (if first then [] else [44]) j)"
      unfolding c by (rule js_quoted_fits) (use Cons.prems room in auto)
    have "fex_loop ns (js_quoted s (js_comma j)) =
        js_ext (more_items False (map js_quote (fex_names ns))) (js_quoted s (js_comma j))"
      by (rule Cons.IH) (use Cons.prems room q in \<open>auto simp: js_quote_def\<close>)
    then show ?thesis using s q by (simp add: fex_names_Cons)
  next
    case False
    then have "fex_loop (n # ns) j = fex_loop ns j" "fex_names (n # ns) = fex_names ns"
      by (auto simp: fex_names_Cons split: option.splits)
    then show ?thesis using Cons.IH[of j first] Cons.prems by simp
  qed
qed (simp add: fex_names_def map_filter_simps)

lemma our_loop_fits:
  assumes "nj_ok j" "length (nj_buf j) + sum_list (map (\<lambda>n. 3 + length n) ns) < nj_size j"
  shows "our_loop ns first j = js_ext (more_items first (map js_quote ns)) j"
  using assms
proof (induction ns arbitrary: j first)
  case (Cons n ns)
  have p: "(if first then j else js_put [44] j) = js_ext (if first then [] else [44]) j"
    using Cons.prems by (simp add: js_put_fits)
  have q: "js_quoted n (if first then j else js_put [44] j) = js_ext (js_quote n) (js_ext (if first then [] else [44]) j)"
    unfolding p by (rule js_quoted_fits) (use Cons.prems in auto)
  have "our_loop ns False (js_quoted n (if first then j else js_put [44] j)) =
      js_ext (more_items False (map js_quote ns)) (js_quoted n (if first then j else js_put [44] j))"
    by (rule Cons.IH) (use Cons.prems q in \<open>auto simp: js_quote_def\<close>)
  then show ?case using q by simp
qed simp

definition js_list :: "cstring list \<Rightarrow> cstring" where
  "js_list xs = [91] @ join_fields 44 xs @ [93]"

lemma more_items_quoted_length: "length (more_items first (map js_quote ns)) \<le> sum_list (map (\<lambda>n. 3 + length n) ns)"
  by (induction ns arbitrary: first) (auto simp: js_quote_def le_Suc_eq trans_le_add2)

lemma fex_names_room: "sum_list (map (\<lambda>n. 3 + length n) (fex_names ns)) \<le> sum_list (map opt_room ns)"
  by (induction ns) (auto simp: fex_names_Cons fex_names_def map_filter_simps opt_room_def split: option.splits)

lemma fex_tools_text:
  assumes "pm_inputs pm" "pm_text pm IN_FEX_TOOLS"
  shows "np_webpatch_set_fex_tools pm names inp IN_FEX_TOOLS =
    Some (js_list (map js_quote (fex_names (case names of None \<Rightarrow> [] | Some ns \<Rightarrow> take NP_WEBPATCH_FEX_TOOLS_MAX ns))))"
proof -
  define ns where "ns = (case names of None \<Rightarrow> [] | Some ns \<Rightarrow> take NP_WEBPATCH_FEX_TOOLS_MAX ns)"
  define j where "j = js_put [91] (js_alloc True (3 + sum_list (map opt_room ns)))"
  have j: "j = js_ext [91] (js_alloc True (3 + sum_list (map opt_room ns)))"
    unfolding j_def by (rule js_put_fits) simp_all
  have l: "fex_loop ns j = js_ext (more_items True (map js_quote (fex_names ns))) j"
    by (rule fex_loop_fits) (simp_all add: j)
  have "length (more_items True (map js_quote (fex_names ns))) \<le> sum_list (map opt_room ns)"
    using more_items_quoted_length fex_names_room le_trans by blast
  then have "js_put [93] (fex_loop ns j) = js_ext [93] (fex_loop ns j)"
    unfolding l by (intro js_put_fits) (simp_all add: j)
  then show ?thesis
    using assms l by (simp add: np_webpatch_set_fex_tools_def Let_def set_input_def j_def[symmetric]
      ns_def[symmetric] opt_room_def[abs_def, symmetric] j js_done_def js_list_def more_items_join)
qed

section \<open>Settings\<close>

definition setting_of :: "cstring \<Rightarrow> (cstring \<times> cstring) option" where
  "setting_of l = (case str_split 61 l of None \<Rightarrow> None
     | Some (k, v) \<Rightarrow> if is_setting_key k \<and> is_setting_value v then Some (k, v) else None)"

definition settings_of :: "cstring \<Rightarrow> (cstring \<times> cstring) list" where
  "settings_of s = List.map_filter setting_of (str_fields 10 s)"

definition setting_js :: "cstring \<times> cstring \<Rightarrow> cstring" where
  "setting_js kv = js_quote (fst kv) @ [58] @ js_quote (snd kv)"

definition settings_js :: "cstring option \<Rightarrow> cstring" where
  "settings_js s = (case s of None \<Rightarrow> cstr ''null''
     | Some t \<Rightarrow> [123] @ join_fields 44 (map setting_js (settings_of t)) @ [125])"

lemma settings_loop_Cons:
  "settings_loop (l # ls) first j = (case setting_of l of None \<Rightarrow> settings_loop ls first j
     | Some (k, v) \<Rightarrow> settings_loop ls False (js_setting first k v j))"
  by (auto simp: setting_of_def split: option.splits)

lemma setting_of_length: "setting_of l = Some (k, v) \<Longrightarrow> length l = length k + length v + 1 \<and> 1 \<le> length k"
  by (auto simp: setting_of_def is_setting_key_def Suc_le_eq dest!: str_split_some(1) split: option.splits if_splits)

lemma js_setting_fits:
  assumes "nj_ok j" "length (nj_buf j) + length k + length v + (if first then 5 else 6) < nj_size j"
  shows "js_setting first k v j = js_ext ((if first then [] else [44]) @ setting_js (k, v)) j"
  using assms by (cases first) (simp_all add: js_setting_def Let_def js_put_fits setting_js_def js_quote_def)

lemma settings_length:
  "ls \<noteq> [] \<Longrightarrow> length (more_items first (map setting_js (List.map_filter setting_of ls))) \<le>
     3 * length (join_fields 10 ls) + (if first then 0 else 3)"
proof (induction ls arbitrary: first)
  case (Cons l ls)
  show ?case
  proof (cases "ls = []")
    case True
    then show ?thesis
      by (cases "setting_of l") (auto simp: map_filter_simps setting_js_def js_quote_def dest!: setting_of_length)
  next
    case False
    then obtain g gs where ls: "ls = g # gs" by (cases ls) auto
    have j: "length (join_fields 10 (l # ls)) = length l + 1 + length (join_fields 10 ls)" by (simp add: ls)
    show ?thesis
    proof (cases "setting_of l")
      case None
      then have "List.map_filter setting_of (l # ls) = List.map_filter setting_of ls"
        by (simp add: map_filter_simps)
      then show ?thesis using Cons.IH[OF False, of first] j by (auto split: if_splits)
    next
      case (Some kv)
      obtain k v where kv: "kv = (k, v)" by (cases kv)
      then have "List.map_filter setting_of (l # ls) = (k, v) # List.map_filter setting_of ls"
        using Some by (simp add: map_filter_simps)
      then show ?thesis
        using Cons.IH[OF False, of False] setting_of_length[of l k v] Some kv j
        by (simp add: setting_js_def js_quote_def)
    qed
  qed
qed simp

lemma settings_loop_fits:
  assumes "nj_ok j" "ls \<noteq> [] \<longrightarrow> length (nj_buf j) + 3 * length (join_fields 10 ls) + (if first then 0 else 3) < nj_size j"
  shows "settings_loop ls first j = js_ext (more_items first (map setting_js (List.map_filter setting_of ls))) j"
  using assms
proof (induction ls arbitrary: j first)
  case (Cons l ls)
  have j: "length (join_fields 10 (l # ls)) = length l + (if ls = [] then 0 else 1 + length (join_fields 10 ls))"
    by (cases ls) auto
  note room = Cons.prems(2)[simplified j, simplified]
  show ?case
  proof (cases "setting_of l")
    case None
    have "settings_loop ls first j = js_ext (more_items first (map setting_js (List.map_filter setting_of ls))) j"
      by (rule Cons.IH) (use Cons.prems(1) room in \<open>auto split: if_splits\<close>)
    then show ?thesis using None by (simp add: settings_loop_Cons map_filter_simps del: settings_loop.simps)
  next
    case (Some kv)
    obtain k v where kv: "kv = (k, v)" by (cases kv)
    note len = setting_of_length[OF Some[unfolded kv]]
    define e where "e = (if first then [] else [44]) @ setting_js (k, v)"
    have e: "length e \<le> 3 * length l + (if first then 0 else 3) \<and> length e + 3 \<le> 3 * length l + 3 + (if first then 0 else 3)"
      using len by (auto simp: e_def setting_js_def js_quote_def)
    have s: "js_setting first k v j = js_ext e j" unfolding e_def
      by (rule js_setting_fits) (use Cons.prems(1) room len in \<open>auto split: if_splits\<close>)
    have "settings_loop ls False (js_ext e j) =
        js_ext (more_items False (map setting_js (List.map_filter setting_of ls))) (js_ext e j)"
      by (rule Cons.IH) (use Cons.prems(1) room e in \<open>auto split: if_splits\<close>)
    then show ?thesis
      using Some kv s by (simp add: settings_loop_Cons map_filter_simps e_def del: settings_loop.simps)
  qed
qed (simp add: map_filter_simps)

lemma settings_js_length: "length (settings_js s) \<le> 3 * opt_length s + 4"
proof (cases s)
  case (Some t)
  have "length (more_items True (map setting_js (List.map_filter setting_of (str_fields 10 t)))) \<le> 3 * length t"
    using settings_length[of "str_fields 10 t" True] by (simp add: join_fields_str_fields)
  then show ?thesis using Some by (simp add: settings_js_def settings_of_def more_items_join[symmetric] opt_length_def)
qed (simp add: settings_js_def cstr_def)

lemma js_settings_fits:
  assumes "nj_ok j" "length (nj_buf j) + 3 * opt_length s + 4 < nj_size j"
  shows "js_settings s j = js_ext (settings_js s) j"
proof (cases s)
  case None
  then show ?thesis using assms by (simp add: js_settings_def settings_js_def js_put_fits cstr_def opt_length_def)
next
  case (Some t)
  define m where "m = more_items True (map setting_js (List.map_filter setting_of (str_fields 10 t)))"
  have m: "length m \<le> 3 * length t"
    using settings_length[of "str_fields 10 t" True] by (simp add: join_fields_str_fields m_def)
  have room: "length (nj_buf j) + 3 * length t + 4 < nj_size j" using assms(2) Some by (simp add: opt_length_def)
  have o: "js_put [123] j = js_ext [123] j" by (rule js_put_fits) (use assms(1) room in auto)
  have l: "settings_loop (str_fields 10 t) True (js_ext [123] j) = js_ext m (js_ext [123] j)"
    unfolding m_def by (rule settings_loop_fits) (use assms(1) room in \<open>auto simp: join_fields_str_fields\<close>)
  have c: "js_put [125] (js_ext (123 # m) j) = js_ext (123 # m @ [125]) j"
    using js_put_fits[of "js_ext (123 # m) j" "[125]"] assms(1) room m by simp
  have "settings_js s = 123 # m @ [125]" by (simp add: Some settings_js_def settings_of_def m_def more_items_join)
  then show ?thesis using o l c by (simp add: Some js_settings_def)
qed

definition defaults_js :: "cstring option \<Rightarrow> cstring option \<Rightarrow> cstring" where
  "defaults_js rosetta fex = cstr ''{rosetta:'' @ settings_js rosetta @ cstr '',fex:'' @ settings_js fex @ cstr ''}''"

lemma defaults_text:
  assumes "pm_inputs pm" "pm_text pm IN_DEFAULTS"
  shows "np_webpatch_set_defaults pm rosetta fex inp = inp(IN_DEFAULTS := Some (defaults_js rosetta fex))"
proof -
  define room where "room = 32 + 3 * (opt_length rosetta + opt_length fex)"
  define j where "j = js_alloc True room"
  have j: "nj_ok j" "nj_size j = room" "nj_buf j = []" by (simp_all add: j_def)
  note len = settings_js_length[of rosetta] settings_js_length[of fex]
  have "js_put (cstr ''{rosetta:'') j = js_ext (cstr ''{rosetta:'') j"
    by (rule js_put_fits) (simp_all add: j room_def cstr_def)
  moreover have "js_settings rosetta (js_ext (cstr ''{rosetta:'') j) = js_ext (settings_js rosetta) (js_ext (cstr ''{rosetta:'') j)"
    by (rule js_settings_fits) (simp_all add: j room_def cstr_def)
  moreover have "js_put (cstr '',fex:'') (js_ext (cstr ''{rosetta:'' @ settings_js rosetta) j) =
      js_ext (cstr '',fex:'') (js_ext (cstr ''{rosetta:'' @ settings_js rosetta) j)"
    by (rule js_put_fits) (use len in \<open>simp_all add: j room_def cstr_def\<close>)
  moreover have "js_settings fex (js_ext (cstr ''{rosetta:'' @ settings_js rosetta @ cstr '',fex:'') j) =
      js_ext (settings_js fex) (js_ext (cstr ''{rosetta:'' @ settings_js rosetta @ cstr '',fex:'') j)"
    by (rule js_settings_fits) (use len in \<open>simp_all add: j room_def cstr_def\<close>)
  moreover have "js_put (cstr ''}'') (js_ext (cstr ''{rosetta:'' @ settings_js rosetta @ cstr '',fex:'' @ settings_js fex) j) =
      js_ext (cstr ''}'') (js_ext (cstr ''{rosetta:'' @ settings_js rosetta @ cstr '',fex:'' @ settings_js fex) j)"
    by (rule js_put_fits) (use len in \<open>simp_all add: j room_def cstr_def\<close>)
  ultimately have "js_done (js_put (cstr ''}'') (js_settings fex (js_put (cstr '',fex:'') (js_settings rosetta
      (js_put (cstr ''{rosetta:'') j))))) = Some (defaults_js rosetta fex)"
    by (simp add: js_done_def j defaults_js_def)
  then show ?thesis
    using assms by (simp add: np_webpatch_set_defaults_def set_input_def Let_def j_def room_def opt_length_def)
qed

section \<open>Builds\<close>

definition build_js :: "np_webpatch_build \<Rightarrow> cstring \<times> cstring \<times> cstring \<Rightarrow> cstring" where
  "build_js b tnl = (case tnl of (t, n, l) \<Rightarrow>
     cstr ''{id:'' @ js_quote t @ cstr '',build:'' @ js_quote n @ cstr '',runner:'' @
     js_quote (if wb_fex b then cstr ''fex'' else cstr ''rosetta'') @ cstr '',label:'' @ js_quote l @
     cstr '',override:'' @ settings_js (wb_override b) @ cstr ''}'')"

definition builds_shown :: "np_webpatch_build list \<Rightarrow> cstring list" where
  "builds_shown bs = List.map_filter (\<lambda>b. map_option (build_js b) (shown_build b)) bs"

lemma shown_build_lengths:
  "shown_build b = Some (t, n, l) \<Longrightarrow> build_room b = 64 + length t + length n + length l +
     (case wb_override b of None \<Rightarrow> 4 | Some s \<Rightarrow> 3 * length s + 8)"
  by (auto simp: shown_build_def build_room_def opt_length_def split: option.splits if_splits)

lemma build_js_length:
  assumes "shown_build b = Some (t, n, l)"
  shows "length (build_js b (t, n, l)) + 11 \<le> build_room b"
proof -
  have "length (settings_js (wb_override b)) + 4 \<le> (case wb_override b of None \<Rightarrow> 4 | Some s \<Rightarrow> 3 * length s + 8) + 4"
    using settings_js_length[of "wb_override b"] by (auto simp: opt_length_def settings_js_def cstr_def split: option.splits)
  then show ?thesis
    using shown_build_lengths[OF assms] by (simp add: build_js_def js_quote_def cstr_def)
qed

lemma js_put_ext:
  "nj_ok j \<Longrightarrow> length (nj_buf j) + length t + length s < nj_size j \<Longrightarrow> js_put s (js_ext t j) = js_ext (t @ s) j"
  using js_put_fits[of "js_ext t j" s] by simp

lemma cstr_len: "length (cstr s) = length s"
  by (simp add: cstr_def)

definition build_head :: "np_webpatch_build \<Rightarrow> cstring \<times> cstring \<times> cstring \<Rightarrow> cstring" where
  "build_head b tnl = (case tnl of (t, n, l) \<Rightarrow>
     cstr ''{id:'' @ js_quote t @ cstr '',build:'' @ js_quote n @ cstr '',runner:'' @
     js_quote (if wb_fex b then cstr ''fex'' else cstr ''rosetta'') @ cstr '',label:'' @ js_quote l @ cstr '',override:'')"

lemma js_build_head_fits:
  assumes "nj_ok j" "length (nj_buf j) + length c + length t + length n + length l + 60 < nj_size j"
  shows "js_put ([34] @ cstr '',override:'') (js_put l (js_put (if wb_fex b
       then [34] @ cstr '',runner:'' @ [34] @ cstr ''fex'' @ [34] @ cstr '',label:'' @ [34]
       else [34] @ cstr '',runner:'' @ [34] @ cstr ''rosetta'' @ [34] @ cstr '',label:'' @ [34])
     (js_put n (js_put ([34] @ cstr '',build:'' @ [34]) (js_put t (js_put (cstr ''{id:'' @ [34]) (js_ext c j)))))))
     = js_ext (c @ build_head b (t, n, l)) j"
  using assms by (cases "wb_fex b") (simp_all add: js_put_ext cstr_len build_head_def js_quote_def)

lemma js_build_fits:
  assumes "nj_ok j" "(last (nj_buf j) = 91) = first" "shown_build b = Some (t, n, l)"
    "length (nj_buf j) + build_room b < nj_size j"
  shows "js_build b (t, n, l) j = js_ext ((if first then [] else [44]) @ build_js b (t, n, l)) j"
proof -
  define c where "c = (if first then [] else [44 :: u8])"
  note r = shown_build_lengths[OF assms(3)]
  have room: "length (nj_buf j) + length c + length t + length n + length l + 60 < nj_size j"
    "length (nj_buf j) + length c + length (build_js b (t, n, l)) < nj_size j"
    using assms(4) r build_js_length[OF assms(3)] by (auto simp: c_def split: option.splits)
  have comma: "js_comma j = js_ext c j" unfolding c_def
    by (rule js_comma_fits) (use assms r in \<open>auto split: option.splits\<close>)
  have head: "build_js b (t, n, l) = build_head b (t, n, l) @ settings_js (wb_override b) @ cstr ''}''"
    by (simp add: build_js_def build_head_def)
  have hl: "length (build_head b (t, n, l)) = length t + length n + length l + (if wb_fex b then 47 else 51)"
    by (simp add: build_head_def js_quote_def cstr_len)
  have s: "js_settings (wb_override b) (js_ext (c @ build_head b (t, n, l)) j) =
      js_ext (settings_js (wb_override b)) (js_ext (c @ build_head b (t, n, l)) j)"
    by (rule js_settings_fits) (use assms(1,4) r hl in \<open>auto simp: c_def opt_length_def split: option.splits if_splits\<close>)
  have e: "js_put (cstr ''}'') (js_ext ((c @ build_head b (t, n, l)) @ settings_js (wb_override b)) j) =
      js_ext (((c @ build_head b (t, n, l)) @ settings_js (wb_override b)) @ cstr ''}'') j"
    by (rule js_put_ext) (use assms(1) room(2) head in simp_all)
  show ?thesis
    using js_build_head_fits[OF assms(1) room(1), of b] s e
    by (simp add: js_build_def Let_def comma head c_def[symmetric])
qed

lemma last_build_js: "last (c @ build_js b tnl) = 125" "build_js b tnl \<noteq> [] \<Longrightarrow> last (build_js b tnl) = 125"
  by (cases tnl; simp add: build_js_def cstr_def last_append)+

lemma builds_loop_fits:
  assumes "nj_ok j" "nj_buf j \<noteq> []" "(last (nj_buf j) = 91) = first"
    "length (nj_buf j) + sum_list (map build_room bs) < nj_size j"
  shows "builds_loop bs j = js_ext (more_items first (builds_shown bs)) j"
  using assms
proof (induction bs arbitrary: j first)
  case (Cons b bs)
  show ?case
  proof (cases "shown_build b")
    case None
    then show ?thesis using Cons.IH[of j first] Cons.prems by (simp add: builds_shown_def map_filter_simps)
  next
    case (Some tnl)
    obtain t n l where tnl: "tnl = (t, n, l)" by (cases tnl)
    have f: "js_build b (t, n, l) j = js_ext ((if first then [] else [44]) @ build_js b (t, n, l)) j"
      by (rule js_build_fits) (use Cons.prems Some tnl in auto)
    have "builds_loop bs (js_build b (t, n, l) j) = js_ext (more_items False (builds_shown bs)) (js_build b (t, n, l) j)"
      by (rule Cons.IH) (use Cons.prems build_js_length[OF Some[unfolded tnl]] last_build_js in \<open>auto simp: f\<close>)
    then show ?thesis using Some tnl f by (simp add: builds_shown_def map_filter_simps)
  qed
qed (simp add: builds_shown_def map_filter_simps)

lemma more_builds_length: "length (more_items first (builds_shown bs)) \<le> sum_list (map build_room bs)"
proof (induction bs arbitrary: first)
  case (Cons b bs)
  show ?case
  proof (cases "shown_build b")
    case (Some tnl)
    obtain t n l where tnl: "tnl = (t, n, l)" by (cases tnl)
    have "builds_shown (b # bs) = build_js b (t, n, l) # builds_shown bs"
      using Some tnl by (simp add: builds_shown_def map_filter_simps)
    then show ?thesis using Cons.IH[of False] build_js_length[OF Some[unfolded tnl]] by simp
  next
    case None
    then show ?thesis using Cons.IH[of first] by (simp add: builds_shown_def map_filter_simps)
  qed
qed (simp add: builds_shown_def map_filter_simps)

lemma builds_text:
  assumes "pm_inputs pm" "pm_text pm IN_BUILDS"
  shows "np_webpatch_set_builds pm (Some bs) inp =
    inp(IN_BUILDS := Some (js_list (builds_shown (take NP_WEBPATCH_BUILDS_MAX bs))))"
proof -
  define ns where "ns = take NP_WEBPATCH_BUILDS_MAX bs"
  define j where "j = js_put [91] (js_alloc True (3 + sum_list (map build_room ns)))"
  have j: "j = js_ext [91] (js_alloc True (3 + sum_list (map build_room ns)))"
    unfolding j_def by (rule js_put_fits) simp_all
  have l: "builds_loop ns j = js_ext (more_items True (builds_shown ns)) j"
    by (rule builds_loop_fits) (simp_all add: j)
  have "js_put [93] (builds_loop ns j) = js_ext [93] (builds_loop ns j)"
    unfolding l using more_builds_length[of True ns] by (intro js_put_fits) (simp_all add: j)
  then show ?thesis
    using assms l by (simp add: np_webpatch_set_builds_def Let_def set_input_def j_def[symmetric]
      ns_def[symmetric] j js_done_def js_list_def more_items_join)
qed

section \<open>The tools a page knows as ours\<close>

fun told_tool :: "cstring \<times> cstring \<times> cstring \<Rightarrow> bool" where
  "told_tool (n, b, a) \<longleftrightarrow> n \<noteq> [] \<and> b \<noteq> [] \<and> is_page_tool n \<and> is_page_tool b \<and> length a < NP_TOOL_NAME_MAX"

lemma page_builds_loop_wf:
  "length tv \<le> NP_WEBPATCH_BUILDS_MAX \<Longrightarrow> list_all told_tool tv \<Longrightarrow>
   length (page_builds_loop ts tv) \<le> NP_WEBPATCH_BUILDS_MAX \<and> list_all told_tool (page_builds_loop ts tv)"
proof (induction ts arbitrary: tv)
  case (Cons t ts)
  obtain name build arch where t: "t = (name, build, arch)" by (cases t)
  show ?case
  proof (cases "length tv < NP_WEBPATCH_BUILDS_MAX \<and> (\<exists>n b. name = Some n \<and> build = Some b \<and> n \<noteq> [] \<and> b \<noteq> [] \<and>
      is_page_tool n \<and> is_page_tool b)")
    case True
    then obtain n b where nb: "name = Some n" "build = Some b" "n \<noteq> []" "b \<noteq> []" "is_page_tool n" "is_page_tool b"
      by auto
    define e where "e = (n, b, c_copy NP_TOOL_NAME_MAX (case arch of None \<Rightarrow> [] | Some a \<Rightarrow> a))"
    have whole: "c_copy NP_TOOL_NAME_MAX n = n" "c_copy NP_TOOL_NAME_MAX b = b"
      using nb(5,6) by (simp_all add: is_page_tool_def c_copy_fits)
    have "page_builds_loop (t # ts) tv = page_builds_loop ts (tv @ [e])"
      using True nb by (simp add: t e_def whole)
    moreover have "told_tool e" using nb by (simp add: e_def c_copy_length NP_TOOL_NAME_MAX_def)
    ultimately have "page_builds_loop (t # ts) tv = page_builds_loop ts (tv @ [e])" "told_tool e" by blast+
    then show ?thesis using Cons.IH[of "tv @ [e]"] Cons.prems True by simp
  next
    case False
    then have "page_builds_loop (t # ts) tv = page_builds_loop ts tv \<or> page_builds_loop (t # ts) tv = tv"
      by (auto simp: t split: option.splits)
    then show ?thesis using Cons.IH[OF Cons.prems] Cons.prems by (elim disjE) simp_all
  qed
qed simp

lemma our_tools_text:
  assumes "pm_inputs pm" "pm_text pm IN_OUR_TOOLS"
  shows "th_inputs (np_webpatch_set_tool_builds pm tools th) IN_OUR_TOOLS =
    Some (js_list (map (\<lambda>t. js_quote (fst t)) (g_var_tools (np_webpatch_set_tool_builds pm tools th))))"
proof -
  define tv where "tv = page_builds_loop tools []"
  define ns where "ns = map fst tv"
  have "list_all told_tool tv" using page_builds_loop_wf[of "[]" tools] by (simp add: tv_def)
  then have short: "sum_list (map (\<lambda>n. 3 + length n) ns) \<le> length ns * (NP_TOOL_NAME_MAX + 2)"
    unfolding ns_def by (induction tv) (auto simp: is_page_tool_def)
  define j where "j = js_alloc True (length tv * (NP_TOOL_NAME_MAX + 3) + 3)"
  have j: "nj_ok j" "nj_buf j = []" "nj_size j = length ns * (NP_TOOL_NAME_MAX + 3) + 3"
    by (simp_all add: j_def ns_def)
  have o: "js_put [91] j = js_ext [91] j" by (rule js_put_fits) (simp_all add: j)
  have l: "our_loop ns True (js_ext [91] j) = js_ext (more_items True (map js_quote ns)) (js_ext [91] j)"
    by (rule our_loop_fits) (use short j in \<open>simp_all add: algebra_simps\<close>)
  have "js_put [93] (js_ext ([91] @ more_items True (map js_quote ns)) j) =
      js_ext (([91] @ more_items True (map js_quote ns)) @ [93]) j"
    by (rule js_put_ext) (use short j more_items_quoted_length[of True ns] in \<open>simp_all add: algebra_simps\<close>)
  then have "js_put [93] (our_loop (map fst tv) True (js_put [91] j)) = js_ext (js_list (map js_quote ns)) j"
    using l by (simp add: o ns_def[symmetric] js_list_def more_items_join)
  then show ?thesis
    using assms j by (simp add: np_webpatch_set_tool_builds_def Let_def set_input_def tv_def[symmetric]
      j_def[symmetric] js_done_def ns_def comp_def)
qed

end
