(* ===== verification/Compat_Page.thy ===== *)
theory Compat_Page
  imports Page_Input_Facts Defaults
begin

text \<open>
  What is put into the inputs of a thread before a page is rewritten, \<^verbatim>\<open>src/dylib/feats/compatpage.c\<close>: the names
  of the tools, and for a page of the settings the saved settings and those of each build. The tools are those
  of \<open>Compat_Tools\<close>, the settings those of \<open>Defaults\<close>.
\<close>

section \<open>Publishing\<close>

text \<open>The builds a page is told, in the order of the tools; one whose settings cannot be read is left out.\<close>

definition tool_settings :: "disk \<Rightarrow> cstring option \<Rightarrow> fs \<Rightarrow> tool_info \<Rightarrow> np_webpatch_build option" where
  "tool_settings dk home fs t = (case t of (name, build, display, fex) \<Rightarrow>
     (case np_defaults_read_build dk home build (if fex then NP_DEFAULTS_FEX else NP_DEFAULTS_ROSETTA)
         (NP_DEFAULTS_TEXT_MAX + 1) fs of
        (has, own) \<Rightarrow>
          if has < 0 then None
          else Some \<lparr>wb_tool = Some name, wb_build = Some build, wb_label = Some display, wb_fex = fex,
                     wb_override = (if has > 0 then Some own else None)\<rparr>))"

text \<open>\<open>mem_ok\<close>: the texts of the builds can be allocated.\<close>

definition publish_defaults ::
  "disk \<Rightarrow> bool \<Rightarrow> page_mem \<Rightarrow> cstring option \<Rightarrow> tool_list \<Rightarrow> fs \<Rightarrow> inputs \<Rightarrow> inputs" where
  "publish_defaults dk mem_ok pm home tls fs inp =
     (let (ok, rosetta) = np_defaults_read dk home NP_DEFAULTS_ROSETTA (NP_DEFAULTS_TEXT_MAX + 1) fs;
          (ok', fex) = np_defaults_read dk home NP_DEFAULTS_FEX (NP_DEFAULTS_TEXT_MAX + 1) fs;
          tools = np_compat_tools tls NP_WEBPATCH_BUILDS_MAX;
          got = ok \<and> ok' \<and> (tools = [] \<or> mem_ok);
          builds = (if mem_ok then List.map_filter (tool_settings dk home fs) tools else []);
          inp = (if got then np_webpatch_set_defaults pm (Some rosetta) (Some fex) inp
                 else np_webpatch_set_defaults pm None None inp)
      in np_webpatch_set_builds pm (Some builds) inp)"

definition given_tools :: "(cstring \<times> cstring \<times> cstring) list \<Rightarrow> tool_build list" where
  "given_tools ts = map (\<lambda>(n, b, a). (Some n, Some b, Some a)) ts"

text \<open>\<open>has_shape\<close>: the source carries the settings page.\<close>

definition np_compatpage_publish ::
  "disk \<Rightarrow> bool \<Rightarrow> page_mem \<Rightarrow> cstring option \<Rightarrow> tool_list \<Rightarrow> fs \<Rightarrow> bool \<Rightarrow> page_thread \<Rightarrow> page_thread" where
  "np_compatpage_publish dk mem_ok pm home tls fs has_shape th =
     (let inp = np_webpatch_set_fallback_tool pm (Some (np_compat_fallback_tool_name tls)) (th_inputs th);
          inp = np_webpatch_set_fex_tools pm (Some (map Some (np_compat_fex_tools tls NP_WEBPATCH_FEX_TOOLS_MAX))) inp;
          th = np_webpatch_set_tool_builds pm (given_tools (np_compat_tool_builds tls NP_WEBPATCH_BUILDS_MAX))
                 (th\<lparr>th_inputs := inp\<rparr>)
      in if has_shape then th\<lparr>th_inputs := publish_defaults dk mem_ok pm home tls fs (th_inputs th)\<rparr> else th)"

section \<open>Saved settings on the page\<close>

text \<open>Every setting has a name a page takes, and so has every value but one with two clauses, which has a semicolon.\<close>

lemma setting_index_key: "setting_index runner key = Some i \<Longrightarrow> i < length g_settings \<and> key = se_key (g_settings ! i)"
  by (auto simp: setting_index_def find_Some_iff split: if_splits)

lemma settings_keys: "list_all (\<lambda>s. is_setting_key (se_key s)) g_settings"
  by code_simp

lemma settings_values:
  "list_all (\<lambda>s. se_key s = cstr ''DXMT_CONFIG'' \<or> se_prefix s = [] \<and>
     list_all (\<lambda>v. is_setting_value v \<and> 59 \<notin> set v) (se_values s @ se_rosetta_values s)) g_settings"
  by code_simp

lemma clause_values:
  "list_all is_setting_value (FACTOR_PREFIX # FPS_PREFIX # g_factors @ g_fps)"
  by code_simp

lemma is_setting_value_append: "is_setting_value (a @ b) \<longleftrightarrow> is_setting_value a \<and> is_setting_value b"
  by (simp add: is_setting_value_def)

lemma is_setting_value_no_semicolon: "is_setting_value v \<Longrightarrow> 59 \<notin> set v"
  by (auto simp: is_setting_value_def list_all_iff is_ident_char_def c_lower_def c_upper_def c_digit_def)

lemma dxmt_clauses: "dxmt_loop v a b \<Longrightarrow> 59 \<notin> set v \<Longrightarrow> v \<noteq> [] \<Longrightarrow> is_setting_value v"
proof -
  assume d: "dxmt_loop v a b" and v: "59 \<notin> set v" "v \<noteq> []"
  have tw: "takeWhile (\<lambda>c. c \<noteq> 59) v = v" using v by (auto simp: takeWhile_eq_all_conv)
  have "has_prefix FACTOR_PREFIX v \<and> drop (length FACTOR_PREFIX) v \<in> set g_factors \<or>
      has_prefix FPS_PREFIX v \<and> drop (length FPS_PREFIX) v \<in> set g_fps"
    using d[unfolded dxmt_loop.simps[of v a b] Let_def tw] v(2) by (auto split: if_splits)
  then obtain p r where "v = p @ r" "is_setting_value p" "is_setting_value r"
    using clause_values by (auto simp: list_all_iff has_prefix_iff)
  then show ?thesis by (simp add: is_setting_value_append)
qed

lemma valid_setting_told:
  assumes "setting_index runner key = Some i" "valid_value (g_settings ! i) runner v"
  shows "is_setting_key key" "is_setting_value v \<longleftrightarrow> 59 \<notin> set v"
proof -
  note i = setting_index_key[OF assms(1)]
  then have s: "g_settings ! i \<in> set g_settings" by simp
  then show "is_setting_key key" using settings_keys i by (simp add: list_all_iff)
  show "is_setting_value v \<longleftrightarrow> 59 \<notin> set v"
  proof (cases "se_key (g_settings ! i) = cstr ''DXMT_CONFIG''")
    case True
    then show ?thesis
      using assms(2) dxmt_clauses[of v False False] is_setting_value_no_semicolon
      by (auto simp: valid_value_def valid_dxmt_config_def split: if_splits)
  next
    case False
    have "se_prefix (g_settings ! i) = [] \<and>
        list_all (\<lambda>v. is_setting_value v \<and> 59 \<notin> set v) (se_values (g_settings ! i) @ se_rosetta_values (g_settings ! i))"
      using settings_values s False unfolding list_all_iff by blast
    then show ?thesis using assms(2) False by (auto simp: valid_value_def list_all_iff split: if_splits)
  qed
qed

lemma setting_of_kv: "61 \<notin> set k \<Longrightarrow> setting_of (kv_text (k, v)) =
    (if is_setting_key k \<and> is_setting_value v then Some (k, v) else None)"
  by (simp add: setting_of_def kv_text_def str_split_append)

lemma settings_of_saved:
  assumes "kvs_ok runner kvs seen"
  shows "settings_of (kvs_text kvs) = filter (\<lambda>(k, v). 59 \<notin> set v) kvs"
proof -
  have "List.map_filter setting_of (map kv_text kvs @ [[]]) = filter (\<lambda>(k, v). 59 \<notin> set v) kvs"
    using assms
  proof (induction runner kvs seen rule: kvs_ok.induct)
    case (2 runner key v kvs seen)
    then obtain i where i: "setting_index runner key = Some i" "valid_value (g_settings ! i) runner v" "61 \<notin> set key"
      "kvs_ok runner kvs (i # seen)" "i \<notin> set seen"
      by (auto split: option.splits)
    then show ?case
      using 2 valid_setting_told[OF i(1,2)] by (simp add: map_filter_simps setting_of_kv del: kvs_ok.simps)
  qed (simp add: map_filter_simps setting_of_def str_split_def)
  then show ?thesis using str_fields_kvs[OF assms] by (simp add: settings_of_def)
qed

lemma set_builds_other: "w \<noteq> IN_BUILDS \<Longrightarrow> np_webpatch_set_builds pm bs inp w = inp w"
  by (simp add: np_webpatch_set_builds_def set_input_def Let_def)

text \<open>A file of saved settings with one line, a configuration of DXMT with two clauses.\<close>

definition two_clauses :: cstring where
  "two_clauses = cstr ''DXMT_CONFIG=d3d11.metalSpatialUpscaleFactor=1.5;d3d11.preferredMaxFrameRate=60'' @ [10]"

definition rosetta_file :: cstring where
  "rosetta_file = cstr ''/h/Library/Application Support/notproton/defaults-rosetta''"

lemma two_clauses_line:
  "each_line 0 two_clauses = (0, [(cstr ''DXMT_CONFIG'', cstr ''d3d11.metalSpatialUpscaleFactor=1.5;d3d11.preferredMaxFrameRate=60'')])"
  "put_line (cstr ''DXMT_CONFIG'', cstr ''d3d11.metalSpatialUpscaleFactor=1.5;d3d11.preferredMaxFrameRate=60'')
     \<lparr>tx_buf = [], tx_size = 1025, tx_ok = True\<rparr> = \<lparr>tx_buf = two_clauses, tx_size = 1025, tx_ok = True\<rparr>"
  "length two_clauses = 79" "two_clauses \<noteq> []" "rosetta_file \<noteq> fex_file" "fex_file \<noteq> rosetta_file"
  "defaults_path sample_home 0 PATH_MAX = rosetta_file"
  "defaults_js (Some two_clauses) (Some []) = cstr ''{rosetta:{},fex:{}}''"
  by code_simp+

lemma two_clauses_read:
  "np_defaults_read sample_disk sample_home 0 1025 [(rosetta_file, File two_clauses)] = (True, two_clauses)"
  "np_defaults_read sample_disk sample_home 1 1025 [(rosetta_file, File two_clauses)] = (True, [])"
  unfolding np_defaults_read_def read_lines_def np_read_whole_file_def np_read_file_max_def
  by (simp_all add: two_clauses_line sample_lines sample_paths_fex NP_READ_CEILING_def NP_DEFAULTS_TEXT_MAX_def
      NP_DEFAULTS_FEX_def del: put_line.simps)

definition no_page_tools :: tool_list where "no_page_tools = \<lparr>tl_tools = [], tl_cap = 0, tl_present = False\<rparr>"

definition plenty :: page_mem where "plenty = \<lparr>pm_inputs = True, pm_text = \<lambda>_. True\<rparr>"

section \<open>Properties\<close>

text \<open>C11. The settings a page is told are those that were saved, in their order, but for a configuration of
  DXMT with two clauses, which is left out.\<close>

theorem saved_settings_told:
  assumes "np_defaults_read dk home NP_DEFAULTS_ROSETTA (NP_DEFAULTS_TEXT_MAX + 1) fs = (True, rosetta)"
    and "np_defaults_read dk home NP_DEFAULTS_FEX (NP_DEFAULTS_TEXT_MAX + 1) fs = (True, fex)"
    and "pm_inputs pm" "pm_text pm IN_DEFAULTS" "mem_ok"
  shows "publish_defaults dk mem_ok pm home tls fs inp IN_DEFAULTS = Some (defaults_js (Some rosetta) (Some fex)) \<and>
    settings_of rosetta = filter (\<lambda>(k, v). 59 \<notin> set v) (snd (each_line NP_DEFAULTS_ROSETTA rosetta)) \<and>
    settings_of fex = filter (\<lambda>(k, v). 59 \<notin> set v) (snd (each_line NP_DEFAULTS_FEX fex))"
proof -
  obtain kvs where r: "rosetta = kvs_text kvs" "kvs_ok NP_DEFAULTS_ROSETTA kvs []"
    "each_line NP_DEFAULTS_ROSETTA rosetta = (0, kvs)"
    using read_settings_valid[OF assms(1)] by auto
  obtain kvs' where f: "fex = kvs_text kvs'" "kvs_ok NP_DEFAULTS_FEX kvs' []" "each_line NP_DEFAULTS_FEX fex = (0, kvs')"
    using read_settings_valid[OF assms(2)] by auto
  have "publish_defaults dk mem_ok pm home tls fs inp IN_DEFAULTS = Some (defaults_js (Some rosetta) (Some fex))"
    using assms by (simp add: publish_defaults_def defaults_text set_builds_other)
  then show ?thesis
    using settings_of_saved[OF r(2)] settings_of_saved[OF f(2)] r(1,3) f(1,3) by simp
qed

text \<open>There it is left out: the page is told of no saved setting, though the file holds one.\<close>

theorem saved_settings_told_witness:
  "publish_defaults sample_disk True plenty sample_home no_page_tools [(rosetta_file, File two_clauses)] (\<lambda>_. None) IN_DEFAULTS =
     Some (cstr ''{rosetta:{},fex:{}}'') \<and>
   snd (each_line 0 two_clauses) \<noteq> []"
  using saved_settings_told[of sample_disk sample_home "[(rosetta_file, File two_clauses)]" two_clauses "[]" plenty True
      no_page_tools "\<lambda>_. None"]
  by (simp add: two_clauses_read two_clauses_line plenty_def NP_DEFAULTS_TEXT_MAX_def NP_DEFAULTS_ROSETTA_def NP_DEFAULTS_FEX_def)

end
