(* ===== verification/Plugin_Rows.thy ===== *)
theory Plugin_Rows
  imports Page_Inputs Conf
begin

text \<open>
  The rows of the page that plugin descriptors declare, \<^verbatim>\<open>src/dylib/feats/webpatch.c\<close>: the writer of
  JavaScript strings, numbers and lists, and \<open>feat_build\<close>, which reads the descriptors and writes what is
  ready and what each row shows.
\<close>

section \<open>The machine\<close>

text \<open>What the code asks the machine: the home directory, whether the records can be allocated, the numbers of
  the C library (\<open>ph_number n d\<close> is \<open>d\<close> printed with \<open>n\<close> digits), directories, the kind of a path with its links
  followed or not, and what a file holds.\<close>

datatype file_kind = Regular | Directory | Other_kind

record page_host =
  ph_home :: "cstring option"
  ph_calloc :: bool
  ph_realloc :: "nat \<Rightarrow> bool"
  ph_mem :: page_mem
  ph_strtod :: "cstring \<Rightarrow> real option"
  ph_number :: "nat \<Rightarrow> real \<Rightarrow> cstring"
  ph_dir :: "cstring \<Rightarrow> cstring list option"
  ph_stat :: "cstring \<Rightarrow> file_kind option"
  ph_lstat :: "cstring \<Rightarrow> file_kind option"
  ph_read :: "cstring \<Rightarrow> u8 list option"

definition NP_FEAT_DIR :: cstring where "NP_FEAT_DIR = cstr ''Library/Application Support/notproton/plugins''"

definition resolve_home_path :: "nat \<Rightarrow> cstring \<Rightarrow> cstring \<Rightarrow> cstring option" where
  "resolve_home_path bufsz home rel =
     (let fit = (\<lambda>p. if length p < bufsz then Some p else None) in
      if rel = [] then None
      else if has_prefix (cstr ''/'') rel then fit rel
      else
        let rel = (if has_prefix (cstr ''~/'') rel then drop 2 rel
                   else if has_prefix (cstr ''$HOME/'') rel then drop 6 rel else rel)
        in fit (home @ cstr ''/'' @ rel))"

definition feat_exists :: "page_host \<Rightarrow> cstring \<Rightarrow> cstring \<Rightarrow> bool" where
  "feat_exists h home rel = (case resolve_home_path 2048 home rel of
     None \<Rightarrow> False | Some path \<Rightarrow> ph_stat h path = Some Regular)"

text \<open>The records a directory of descriptors gave, in order; the sink takes every one.\<close>

definition taken_records :: "conf_event list \<Rightarrow> np_conf_rec list" where
  "taken_records evs = List.map_filter (\<lambda>e. case e of Conf_record r \<Rightarrow> Some r | _ \<Rightarrow> None) evs"

definition feat_load :: "page_host \<Rightarrow> cstring \<Rightarrow> np_conf_rec list" where
  "feat_load h home =
     (let dir = home @ cstr ''/'' @ NP_FEAT_DIR in
      if length dir \<ge> 2048 then []
      else taken_records (np_conf_read_dir (ph_strtod h) (ph_read h) (ph_dir h dir) dir [] NP_CONF_PLUGIN
        (Some (\<lambda>evs rec detail. (None, detail)))))"

section \<open>Writing JavaScript\<close>

type_synonym out_step = "np_out \<Rightarrow> np_out option"

text \<open>One write after another, until one fails.\<close>

primrec steps :: "out_step list \<Rightarrow> out_step" where
  "steps [] ob = Some ob"
| "steps (f # fs) ob = (case f ob of None \<Rightarrow> None | Some ob \<Rightarrow> steps fs ob)"

definition js_escape :: "(nat \<Rightarrow> bool) \<Rightarrow> u8 \<Rightarrow> out_step" where
  "js_escape r c =
     (if c = 34 \<or> c = 92 then steps [out_put r [92], out_put r [c]]
      else if c < 0x20 then steps [] else out_put r [c])"

definition out_jsstrn :: "(nat \<Rightarrow> bool) \<Rightarrow> cstring \<Rightarrow> nat \<Rightarrow> out_step" where
  "out_jsstrn r v n = steps ([out_put r [34]] @ map (js_escape r) (c_prefix (take n v)) @ [out_put r [34]])"

definition out_jsstr :: "(nat \<Rightarrow> bool) \<Rightarrow> cstring \<Rightarrow> out_step" where
  "out_jsstr r v = out_jsstrn r v (length v)"

text \<open>The shortest of two texts that reads back as the number.\<close>

definition out_num :: "page_host \<Rightarrow> cstring \<Rightarrow> cstring \<Rightarrow> out_step" where
  "out_num h key v ob =
     (let d = conf_dbl (ph_strtod h) v;
          num = key @ ph_number h 15 d;
          num = (if 0 < length num \<and> length num < 64 \<and> conf_dbl (ph_strtod h) (ph_number h 15 d) \<noteq> d
                 then key @ ph_number h 17 d else num)
      in if 0 < length num \<and> length num < 64 then out_put (ph_realloc h) num ob else None)"

definition out_take :: "np_out \<Rightarrow> cstring option" where
  "out_take ob = (if ou_cap ob = 0 then None else Some (c_prefix (ou_buf ob)))"

text \<open>The values of a field, with a comma between them.\<close>

fun comma_steps :: "(nat \<Rightarrow> bool) \<Rightarrow> bool \<Rightarrow> ('a \<Rightarrow> out_step list) \<Rightarrow> 'a list \<Rightarrow> out_step list" where
  "comma_steps r wrote item [] = []"
| "comma_steps r wrote item (x # xs) = (if wrote then [out_put r [44]] else []) @ item x @ comma_steps r True item xs"

definition values_of :: "np_conf_rec \<Rightarrow> cstring \<Rightarrow> cstring list" where
  "values_of rec field = map snd (filter (\<lambda>(n, _). n = field) (fields_from rec 0))"

definition feat_put_list :: "(nat \<Rightarrow> bool) \<Rightarrow> cstring \<Rightarrow> np_conf_rec \<Rightarrow> cstring \<Rightarrow> out_step" where
  "feat_put_list r key rec field =
     (if np_conf_get rec field = None then steps []
      else steps ([out_put r key] @ comma_steps r False (\<lambda>v. [out_jsstr r v]) (values_of rec field) @ [out_put r [93]]))"

section \<open>Rows\<close>

text \<open>Whether what a row requires is there, and the first that is.\<close>

definition feat_requires :: "page_host \<Rightarrow> cstring \<Rightarrow> np_conf_rec \<Rightarrow> bool \<times> cstring" where
  "feat_requires h home rec =
     (let reqs = values_of rec (cstr ''requires'') in
      case find (feat_exists h home) reqs of
        Some v \<Rightarrow> (True, (case resolve_home_path 2048 home v of None \<Rightarrow> [] | Some p \<Rightarrow> p))
      | None \<Rightarrow> (reqs = [], []))"

definition feat_item :: "nat \<Rightarrow> np_conf_rec \<Rightarrow> bool \<Rightarrow> cstring" where
  "feat_item i rec ok = (if i \<noteq> 0 then [44] else []) @ [34] @ rc_id rec @ [34, 58] @ (if ok then [49] else [48])"

definition got :: "np_conf_rec \<Rightarrow> string \<Rightarrow> cstring option" where
  "got rec n = np_conf_get rec (cstr n)"

definition or_else :: "cstring option \<Rightarrow> cstring \<Rightarrow> cstring" where
  "or_else v d = (case v of None \<Rightarrow> d | Some x \<Rightarrow> x)"

definition put_field :: "(nat \<Rightarrow> bool) \<Rightarrow> string \<Rightarrow> cstring \<Rightarrow> out_step list" where
  "put_field r key v = [out_put r (cstr key), out_jsstr r v]"

definition put_given :: "(nat \<Rightarrow> bool) \<Rightarrow> string \<Rightarrow> cstring option \<Rightarrow> out_step list" where
  "put_given r key v = (case v of None \<Rightarrow> [] | Some x \<Rightarrow> put_field r key x)"

definition choice_steps :: "(nat \<Rightarrow> bool) \<Rightarrow> cstring \<Rightarrow> out_step list" where
  "choice_steps r v = (case np_conf_choice v of (vlen, lab) \<Rightarrow>
     [out_put r (cstr ''{v:''), out_jsstrn r v vlen, out_put r (cstr '',l:''),
      (case lab of Some l \<Rightarrow> out_jsstr r l | None \<Rightarrow> out_jsstrn r v vlen), out_put r [125]])"

definition num_given :: "page_host \<Rightarrow> string \<Rightarrow> cstring option \<Rightarrow> out_step list" where
  "num_given h key v = (case v of None \<Rightarrow> [] | Some x \<Rightarrow> [out_num h (cstr key) x])"

text \<open>The values a row can take: the declared choices, or the numbers of a slider. A slider that has no choices has
  a least and a greatest number: the schema of the records requires both.\<close>

definition range_steps :: "page_host \<Rightarrow> np_conf_rec \<Rightarrow> out_step list" where
  "range_steps h rec =
     (let r = ph_realloc h in
      if got rec ''choice'' \<noteq> None then
        [out_put r (cstr '',ch:['')] @ comma_steps r False (choice_steps r) (values_of rec (cstr ''choice'')) @
        [out_put r [93]] @ put_given r '',df:'' (got rec ''default'')
      else if got rec ''type'' = Some (cstr ''slider'') then
        [out_num h (cstr '',mn:'') (or_else (got rec ''min'') []), out_num h (cstr '',mx:'') (or_else (got rec ''max'') [])] @
        num_given h '',st:'' (got rec ''step'') @ num_given h '',df:'' (got rec ''default'') @
        put_given r '',sf:'' (got rec ''suffix'')
      else [])"

definition feat_row :: "page_host \<Rightarrow> np_conf_rec \<Rightarrow> cstring \<Rightarrow> out_step list" where
  "feat_row h rec resolved =
     (let r = ph_realloc h in
      put_field r ''{k:'' (rc_id rec) @
      put_field r '',l:'' (or_else (got rec ''label'') []) @
      put_field r '',on:'' (or_else (got rec ''on'') (cstr ''1'')) @
      put_field r '',off:'' (or_else (got rec ''off'') []) @
      put_field r '',dep:'' (or_else (got rec ''depends'') []) @
      put_field r '',d:'' (or_else (got rec ''description'') []) @
      [feat_put_list r (cstr '',dn:['') rec (cstr ''description_on''),
       feat_put_list r (cstr '',ev:['') rec (cstr ''env''), feat_put_list r (cstr '',tl:['') rec (cstr ''tools'')] @
      (if resolved \<noteq> [] \<and> got rec ''inject'' = Some (cstr ''1'') then put_field r '',rq:'' resolved else []) @
      (if got rec ''stage'' \<noteq> None \<or> got rec ''overrides'' \<noteq> None then [out_put r (cstr '',rn:1'')] else []) @
      put_given r '',ty:'' (got rec ''type'') @ range_steps h rec @ [out_put r [125]])"

text \<open>The loop over the records, with the two texts that are written side by side.\<close>

fun feat_loop :: "page_host \<Rightarrow> cstring \<Rightarrow> nat \<Rightarrow> np_conf_rec list \<Rightarrow> np_out \<times> np_out \<Rightarrow> (np_out \<times> np_out) option" where
  "feat_loop h home i [] s = Some s"
| "feat_loop h home i (rec # recs) s = (case (s, feat_requires h home rec) of ((ready, rows), (ok, resolved)) \<Rightarrow>
     let item = feat_item i rec ok in
     if length item \<ge> NP_CONF_ID_MAX + 32 then None
     else case out_put (ph_realloc h) item ready of
         None \<Rightarrow> None
       | Some ready \<Rightarrow>
           (case steps ((if i \<noteq> 0 then [out_put (ph_realloc h) [44]] else []) @ feat_row h rec resolved) rows of
              None \<Rightarrow> None
            | Some rows \<Rightarrow> feat_loop h home (i + 1) recs (ready, rows)))"

definition feat_texts :: "page_host \<Rightarrow> cstring \<Rightarrow> np_conf_rec list \<Rightarrow> (np_out \<times> np_out) option" where
  "feat_texts h home recs =
     (let r = ph_realloc h; ob = \<lparr>ou_buf = [], ou_cap = 0\<rparr> in
      case (out_put r [123] ob, out_put r [91] ob) of
        (Some ready, Some rows) \<Rightarrow>
          (case feat_loop h home 0 recs (ready, rows) of
             None \<Rightarrow> None
           | Some (ready, rows) \<Rightarrow>
               (case (out_put r [125] ready, out_put r [93] rows) of
                  (Some ready, Some rows) \<Rightarrow> Some (ready, rows) | _ \<Rightarrow> None))
      | _ \<Rightarrow> None)"

definition feat_build :: "page_host \<Rightarrow> page_thread \<Rightarrow> page_thread" where
  "feat_build h th =
     (let pm = ph_mem h;
          unset = set_input pm IN_FEATS None (set_input pm IN_READY None (th_inputs th));
          th = th\<lparr>g_feat_ready_done := True, th_inputs := unset\<rparr>
      in case ph_home h of
          None \<Rightarrow> th
        | Some home \<Rightarrow>
            if \<not> ph_calloc h then th
            else case feat_texts h home (feat_load h home) of
                None \<Rightarrow> th
              | Some (ready, rows) \<Rightarrow>
                  th\<lparr>th_inputs := set_input pm IN_FEATS (out_take rows) (set_input pm IN_READY (out_take ready) unset)\<rparr>)"

end
