(* ===== verification/Variants.thy ===== *)
theory Variants
  imports Plugin_Rows
begin

text \<open>
  Runner variants, \<^verbatim>\<open>src/dylib/feats/webpatch.c\<close>: trees of files that are merged into a runner at launch.
  Which of them the page offers for which tool: those that land somewhere in the runner, and replace neither
  the files of the Steam bridge, nor the files of Wine where no build is named, nor programs only Apple can
  sign.
\<close>

section \<open>Variants\<close>

definition NP_VAR_STR :: nat where "NP_VAR_STR = 192"
definition var_depth :: nat where "var_depth = 16"

text \<open>The builds and the removes, packed one behind another in the source, are lists.\<close>

record np_var =
  vr_name :: cstring
  vr_label :: cstring
  vr_variant :: cstring
  vr_src :: cstring
  vr_dst :: cstring
  vr_builds :: "cstring list"
  vr_removes :: "cstring list"

text \<open>A packed list ends at the first text that is empty.\<close>

definition packed :: "cstring list \<Rightarrow> cstring list" where
  "packed xs = takeWhile (\<lambda>x. x \<noteq> []) xs"

definition var_has :: "cstring list \<Rightarrow> cstring \<Rightarrow> bool" where
  "var_has xs want = (want \<in> set (packed xs))"

fun var_fields :: "cstring \<Rightarrow> (cstring \<times> cstring) list \<Rightarrow> np_var \<Rightarrow> np_var option" where
  "var_fields home [] v = Some v"
| "var_fields home ((n, val) # fs) v =
     (if n = cstr ''label'' then var_fields home fs (v\<lparr>vr_label := c_copy NP_VAR_STR val\<rparr>)
      else if n = cstr ''variant'' then var_fields home fs (v\<lparr>vr_variant := c_copy NP_VAR_STR val\<rparr>)
      else if n = cstr ''src'' then (case resolve_home_path 1024 home val of
          None \<Rightarrow> None | Some p \<Rightarrow> var_fields home fs (v\<lparr>vr_src := p\<rparr>))
      else if n = cstr ''dst'' then var_fields home fs (v\<lparr>vr_dst := c_copy NP_VAR_STR val\<rparr>)
      else if n = cstr ''build'' then var_fields home fs (v\<lparr>vr_builds := vr_builds v @ [val]\<rparr>)
      else if n = cstr ''remove'' then var_fields home fs (v\<lparr>vr_removes := vr_removes v @ [val]\<rparr>)
      else var_fields home fs v)"

text \<open>A record whose source is no path is refused.\<close>

definition var_take :: "cstring \<Rightarrow> np_conf_rec \<Rightarrow> np_var option" where
  "var_take home rec = (case var_fields home (fields_from rec 0)
       \<lparr>vr_name = c_copy NP_VAR_STR (rc_id rec), vr_label = [], vr_variant = [], vr_src = [], vr_dst = [],
        vr_builds = [], vr_removes = []\<rparr> of
     None \<Rightarrow> None
   | Some v \<Rightarrow>
       let v = (if vr_label v = [] then v\<lparr>vr_label := c_copy NP_VAR_STR (vr_name v)\<rparr> else v)
       in Some (if vr_variant v = [] then v\<lparr>vr_variant := c_copy NP_VAR_STR (vr_name v)\<rparr> else v))"

definition var_load :: "page_host \<Rightarrow> cstring \<Rightarrow> np_var list" where
  "var_load h home =
     (let dir = np_support_path 2048 home (cstr ''variants'');
          snk = (\<lambda>evs rec detail. ((if var_take home rec = None then Some NP_CONF_LIMIT else None), detail))
      in List.map_filter (var_take home)
           (taken_records (np_conf_read_dir (ph_strtod h) (ph_read h) (ph_dir h dir) dir [] NP_CONF_VARIANT (Some snk))))"

section \<open>Paths\<close>

definition var_arch_of :: "cstring \<Rightarrow> cstring option" where
  "var_arch_of dir = find (\<lambda>a. has_prefix a dir \<and> (drop (length a) dir = [] \<or> hd (drop (length a) dir) = 45))
     [cstr ''x86_64'', cstr ''aarch64'', cstr ''i386'', cstr ''arm64ec'']"

definition var_is_dir :: "page_host \<Rightarrow> cstring \<Rightarrow> bool" where
  "var_is_dir h path \<longleftrightarrow> ph_stat h path = Some Directory"

definition dot_entry :: "cstring \<Rightarrow> bool" where
  "dot_entry name \<longleftrightarrow> has_prefix [46] name"

text \<open>A path with no empty segment and no dot.\<close>

definition var_norm :: "nat \<Rightarrow> cstring \<Rightarrow> cstring \<Rightarrow> cstring" where
  "var_norm bufsz a b =
     c_copy bufsz (join_fields 47 (filter (\<lambda>s. s \<noteq> [] \<and> s \<noteq> [46]) (str_fields 47 (c_copy 2048 (a @ [47] @ b)))))"

text \<open>Comparisons that do not tell letters apart by their case.\<close>

definition same_letters :: "cstring \<Rightarrow> cstring \<Rightarrow> bool" where
  "same_letters a b \<longleftrightarrow> map c_tolower a = map c_tolower b"

definition var_wine_path :: "cstring \<Rightarrow> bool" where
  "var_wine_path p = list_ex (\<lambda>s. same_letters (take (length s) p) s)
     [cstr ''bin/'', cstr ''share/wine/'', cstr ''lib/wine/'', cstr ''lib64/wine/'']"

definition bridge_files :: "cstring list" where
  "bridge_files = concat (map (\<lambda>s. map (\<lambda>f. c_copy 256 (cstr ''lib/wine/'' @ s @ [45] @ f))
       [cstr ''windows/ntdll.dll'', cstr ''windows/lsteamclient.dll'', cstr ''unix/ntdll.so'',
        cstr ''unix/lsteamclient.so''])
     [cstr ''x86_64'', cstr ''i386'', cstr ''aarch64'', cstr ''arm64ec''])"

definition var_bridge_path :: "cstring \<Rightarrow> cstring option" where
  "var_bridge_path land = find (same_letters land) bridge_files"

section \<open>Walks through a tree\<close>

text \<open>\<open>k\<close> is how many levels are left: a walk that begins with 17 leaves off where the depth is over 16.\<close>

primrec var_holds_file :: "nat \<Rightarrow> page_host \<Rightarrow> cstring \<Rightarrow> bool" where
  "var_holds_file 0 h dir = False"
| "var_holds_file (Suc k) h dir = (case ph_dir h dir of
     None \<Rightarrow> False
   | Some names \<Rightarrow> list_ex (\<lambda>name.
       let path = dir @ [47] @ name in
       if dot_entry name \<or> length path \<ge> 2048 then False
       else case ph_lstat h path of
           Some Regular \<Rightarrow> True | Some Directory \<Rightarrow> var_holds_file k h path | _ \<Rightarrow> False) names)"

fun first_some :: "('a \<Rightarrow> 'b option) \<Rightarrow> 'a list \<Rightarrow> 'b option" where
  "first_some f [] = None"
| "first_some f (x # xs) = (case f x of Some y \<Rightarrow> Some y | None \<Rightarrow> first_some f xs)"

text \<open>The three walks of the source differ in what they ask of a file they find: \<open>test\<close>, given its path in the tree.\<close>

definition tree_path :: "cstring \<Rightarrow> cstring \<Rightarrow> cstring" where
  "tree_path rel name = rel @ (if rel \<noteq> [] then [47] else []) @ name"

definition tree_dir :: "cstring \<Rightarrow> cstring \<Rightarrow> cstring" where
  "tree_dir src rel = src @ (if rel \<noteq> [] then [47] else []) @ rel"

primrec var_walk :: "nat \<Rightarrow> page_host \<Rightarrow> cstring \<Rightarrow> (cstring \<Rightarrow> cstring option) \<Rightarrow> cstring \<Rightarrow> cstring option" where
  "var_walk 0 h src test rel = None"
| "var_walk (Suc k) h src test rel = (case ph_dir h (c_copy 2048 (tree_dir src rel)) of
     None \<Rightarrow> None
   | Some names \<Rightarrow> first_some (\<lambda>name.
       if dot_entry name \<or> length (tree_path rel name) \<ge> 2048 then None
       else case ph_lstat h (c_copy 4096 (src @ [47] @ tree_path rel name)) of
           Some Directory \<Rightarrow> var_walk k h src test (tree_path rel name)
         | Some Regular \<Rightarrow> test (tree_path rel name)
         | _ \<Rightarrow> None) names)"

definition in_runner :: "cstring \<Rightarrow> cstring \<Rightarrow> cstring" where
  "in_runner runner land = runner @ cstr ''/CrossOver/'' @ land"

definition var_wine_hit :: "page_host \<Rightarrow> np_var \<Rightarrow> cstring \<Rightarrow> cstring option" where
  "var_wine_hit h v runner = var_walk (var_depth + 1) h (vr_src v) (\<lambda>path.
     let land = var_norm 2048 (vr_dst v) path in
     if \<not> var_wine_path land then None
     else if ph_stat h (c_copy 4096 (in_runner runner land)) = Some Regular then Some (c_copy 2048 land) else None) []"

definition var_bridge_walk :: "page_host \<Rightarrow> np_var \<Rightarrow> cstring option" where
  "var_bridge_walk h v = var_walk (var_depth + 1) h (vr_src v) (\<lambda>path.
     map_option (c_copy 2048) (var_bridge_path (var_norm 2048 (vr_dst v) path))) []"

text \<open>What is removed counts as what is replaced.\<close>

definition var_bridge_hit :: "page_host \<Rightarrow> np_var \<Rightarrow> cstring option" where
  "var_bridge_hit h v =
     (let nd = var_norm 2048 (vr_dst v) [] in
      case first_some (\<lambda>r. map_option (c_copy 2048) (var_bridge_path (var_norm 2048 nd r))) (packed (vr_removes v)) of
        Some hit \<Rightarrow> Some hit | None \<Rightarrow> var_bridge_walk h v)"

definition macho_magics :: "u8 list list" where
  "macho_magics = [[0xcf, 0xfa, 0xed, 0xfe], [0xfe, 0xed, 0xfa, 0xcf], [0xce, 0xfa, 0xed, 0xfe], [0xfe, 0xed, 0xfa, 0xce],
     [0xbe, 0xba, 0xfe, 0xca], [0xca, 0xfe, 0xba, 0xbe]]"

definition var_macho_restricted :: "page_host \<Rightarrow> cstring \<Rightarrow> bool" where
  "var_macho_restricted h path = (case ph_read h path of
     None \<Rightarrow> False
   | Some content \<Rightarrow> length content > 4 \<and> take 4 content \<in> set macho_magics \<and>
       memmem_from content 0 (cstr ''<key>com.apple.developer.'') \<noteq> None)"

definition var_apple_hit :: "page_host \<Rightarrow> np_var \<Rightarrow> cstring \<Rightarrow> cstring option" where
  "var_apple_hit h v runner = var_walk (var_depth + 1) h (vr_src v) (\<lambda>path.
     let land = var_norm 2048 (vr_dst v) path; spot = c_copy 4096 (in_runner runner land) in
     if ph_stat h spot = Some Regular \<and> var_macho_restricted h spot then Some (c_copy 2048 land) else None) []"

section \<open>Where a variant fits\<close>

record fit_state =
  ft_lands :: bool
  ft_named :: bool
  ft_matched :: bool

definition fit_entry :: "page_host \<Rightarrow> np_var \<Rightarrow> cstring \<Rightarrow> cstring \<Rightarrow> cstring \<Rightarrow> fit_state \<Rightarrow> fit_state" where
  "fit_entry h v runner arch name ft =
     (let path = vr_src v @ [47] @ name in
      if dot_entry name \<or> length path \<ge> 2048 then ft
      else case ph_lstat h path of
          Some Regular \<Rightarrow>
            let spot = in_runner runner (vr_dst v) in
            if length spot < 2048 \<and> var_is_dir h spot then ft\<lparr>ft_lands := True\<rparr> else ft
        | Some Directory \<Rightarrow>
            if \<not> var_holds_file (var_depth + 1) h path then ft
            else
              let spot = in_runner runner (vr_dst v @ [47] @ name);
                  here = length spot < 2048 \<and> var_is_dir h spot;
                  ft = (if here then ft\<lparr>ft_lands := True\<rparr> else ft)
              in (case var_arch_of name of
                    None \<Rightarrow> ft
                  | Some a \<Rightarrow> ft\<lparr>ft_named := True, ft_matched := ft_matched ft \<or> here \<and> a = arch\<rparr>)
        | _ \<Rightarrow> ft)"

definition remove_lands :: "page_host \<Rightarrow> np_var \<Rightarrow> cstring \<Rightarrow> cstring \<Rightarrow> bool" where
  "remove_lands h v runner r =
     (let spot = in_runner runner (vr_dst v @ [47] @ r) in length spot < 2048 \<and> ph_lstat h spot \<noteq> None)"

definition var_fits :: "page_host \<Rightarrow> np_var \<Rightarrow> cstring \<Rightarrow> cstring \<Rightarrow> bool" where
  "var_fits h v runner arch = (case ph_dir h (vr_src v) of
     None \<Rightarrow> False
   | Some names \<Rightarrow>
       let ft = fold (fit_entry h v runner arch) names \<lparr>ft_lands = False, ft_named = False, ft_matched = False\<rparr>;
           lands = ft_lands ft \<or> list_ex (remove_lands h v runner) (packed (vr_removes v))
       in lands \<and> (\<not> ft_named ft \<or> ft_matched ft))"

section \<open>The rows\<close>

definition var_offered :: "page_host \<Rightarrow> cstring \<Rightarrow> np_var \<Rightarrow> cstring \<times> cstring \<times> cstring \<Rightarrow> bool" where
  "var_offered h runners v t = (case t of (tool, build, arch) \<Rightarrow>
     let runner = runners @ cstr ''/crossover-'' @ build in
     \<not> (packed (vr_builds v) \<noteq> [] \<and> \<not> var_has (vr_builds v) build) \<and> length runner < 2048 \<and>
     var_fits h v runner arch \<and>
     \<not> (packed (vr_builds v) = [] \<and> var_wine_hit h v runner \<noteq> None) \<and>
     var_apple_hit h v runner = None)"

definition var_tools_max :: nat where "var_tools_max = NP_WEBPATCH_BUILDS_MAX * (NP_TOOL_NAME_MAX + 3) + 1"

fun var_tools :: "page_host \<Rightarrow> cstring \<Rightarrow> np_var \<Rightarrow> (cstring \<times> cstring \<times> cstring) list \<Rightarrow> bool \<Rightarrow> cstring \<Rightarrow> cstring" where
  "var_tools h runners v [] fits tools = tools"
| "var_tools h runners v (t # ts) fits tools =
     (if var_offered h runners v t
      then var_tools h runners v ts True
        (tools @ c_copy (var_tools_max - length tools) ((if fits then [44] else []) @ [34] @ fst t @ [34]))
      else var_tools h runners v ts fits tools)"

definition var_shown :: "page_host \<Rightarrow> np_var \<Rightarrow> bool" where
  "var_shown h v \<longleftrightarrow> \<not> (packed (vr_removes v) = [] \<and> \<not> var_holds_file (var_depth + 1) h (vr_src v)) \<and>
     var_bridge_hit h v = None"

definition var_row :: "page_host \<Rightarrow> cstring \<Rightarrow> (cstring \<times> cstring \<times> cstring) list \<Rightarrow> np_var \<Rightarrow> out_step list" where
  "var_row h runners ts v =
     (let r = ph_realloc h in
      put_field r ''{k:'' (vr_name v) @ put_field r '',l:'' (vr_label v) @ put_field r '',v:'' (vr_variant v) @
      [out_put r (cstr '',t:[''), out_put r (var_tools h runners v ts False []), out_put r (cstr '']}'')])"

fun var_loop :: "page_host \<Rightarrow> cstring \<Rightarrow> (cstring \<times> cstring \<times> cstring) list \<Rightarrow> bool \<Rightarrow> np_var list \<Rightarrow> out_step" where
  "var_loop h runners ts wrote [] rows = Some rows"
| "var_loop h runners ts wrote (v # vs) rows =
     (if \<not> var_shown h v then var_loop h runners ts wrote vs rows
      else case steps ((if wrote then [out_put (ph_realloc h) [44]] else []) @ var_row h runners ts v) rows of
          None \<Rightarrow> None | Some rows \<Rightarrow> var_loop h runners ts True vs rows)"

definition var_texts :: "page_host \<Rightarrow> cstring \<Rightarrow> (cstring \<times> cstring \<times> cstring) list \<Rightarrow> np_out option" where
  "var_texts h home ts = steps [out_put (ph_realloc h) [91],
     var_loop h (np_support_path 2048 home (cstr ''runners'')) ts False (var_load h home),
     out_put (ph_realloc h) [93]] \<lparr>ou_buf = [], ou_cap = 0\<rparr>"

definition var_build :: "page_host \<Rightarrow> page_thread \<Rightarrow> page_thread" where
  "var_build h th =
     (let unset = set_input (ph_mem h) IN_VARS None (th_inputs th);
          th = th\<lparr>g_var_done := True, th_inputs := unset\<rparr>
      in case ph_home h of
          None \<Rightarrow> th
        | Some home \<Rightarrow>
            if \<not> ph_calloc h then th
            else case var_texts h home (g_var_tools th) of
                None \<Rightarrow> th
              | Some rows \<Rightarrow> th\<lparr>th_inputs := set_input (ph_mem h) IN_VARS (out_take rows) unset\<rparr>)"

text \<open>The text of a mark on a machine.\<close>

definition page_mark :: "page_host \<Rightarrow> u8 \<Rightarrow> page_thread \<Rightarrow> cstring option \<times> page_thread" where
  "page_mark h = marker_text (feat_build h) (var_build h)"

end
