(* ===== verification/Variant_Facts.thy ===== *)
theory Variant_Facts
  imports Variants Page_Input_Facts
begin

text \<open>
  What the rows of plugins and variants are relied on for: a string of a descriptor is one JavaScript string on
  the page, whatever it holds; a variant is offered for a tool exactly when every file of its tree that the walk
  reaches keeps off the files that must not be replaced; the text of a mark does not depend on the marks before.
\<close>

section \<open>JavaScript strings\<close>

text \<open>The string a text begins with, and what is behind it.\<close>

fun js_chars :: "u8 list \<Rightarrow> (cstring \<times> u8 list) option" where
  "js_chars [] = None"
| "js_chars (c # s) =
     (if c = 34 then Some ([], s)
      else if c = 92 then (case s of [] \<Rightarrow> None | d # r \<Rightarrow> map_option (map_prod ((#) d) id) (js_chars r))
      else if c < 0x20 then None
      else map_option (map_prod ((#) c) id) (js_chars s))"

definition js_string :: "u8 list \<Rightarrow> (cstring \<times> u8 list) option" where
  "js_string s = (case s of c # r \<Rightarrow> if c = 34 then js_chars r else None | [] \<Rightarrow> None)"

definition escaped :: "u8 \<Rightarrow> cstring" where
  "escaped c = (if c = 34 \<or> c = 92 then [92, c] else if c < 0x20 then [] else [c])"

definition js_str :: "cstring \<Rightarrow> cstring" where
  "js_str v = [34] @ concat (map escaped v) @ [34]"

lemma js_chars_escaped:
  "js_chars (concat (map escaped v) @ 34 # rest) = Some (filter (\<lambda>c. \<not> c < 0x20) v, rest)"
  by (induction v) (auto simp: escaped_def)

lemma js_string_reads: "js_string (js_str v @ rest) = Some (filter (\<lambda>c. \<not> c < 0x20) v, rest)"
  by (simp add: js_string_def js_str_def js_chars_escaped)

text \<open>A step writes a text: all of it, where it does not fail, and it fails only for want of memory.\<close>

definition emits :: "out_step \<Rightarrow> cstring \<Rightarrow> bool" where
  "emits f s \<longleftrightarrow> (\<forall>ob ob'. f ob = Some ob' \<longrightarrow> ou_buf ob' = ou_buf ob @ s)"

definition succeeds :: "out_step \<Rightarrow> bool" where
  "succeeds f \<longleftrightarrow> (\<forall>ob. f ob \<noteq> None)"

lemma emitsD: "emits f s \<Longrightarrow> f ob = Some ob' \<Longrightarrow> ou_buf ob' = ou_buf ob @ s"
  by (simp add: emits_def)

lemma emits_put: "emits (out_put r s) s"
  by (auto simp: emits_def out_put_def out_reserve_def Let_def split: option.splits)

lemma succeeds_put: "(\<And>n. r n) \<Longrightarrow> succeeds (out_put r s)"
  by (simp add: succeeds_def out_put_def out_reserve_def Let_def)

lemma emits_steps: "list_all2 emits fs ss \<Longrightarrow> emits (steps fs) (concat ss)"
proof (induction fs ss rule: list_all2_induct)
  case (Cons f fs s ss)
  have "ou_buf ob' = ou_buf ob @ concat (s # ss)" if r: "steps (f # fs) ob = Some ob'" for ob ob'
  proof -
    obtain ob1 where ob1: "f ob = Some ob1" "steps fs ob1 = Some ob'" using r by (cases "f ob") auto
    show ?thesis using emitsD[OF Cons(1) ob1(1)] emitsD[OF Cons(3) ob1(2)] by simp
  qed
  then show ?case unfolding emits_def by blast
qed (simp add: emits_def)

lemma succeeds_steps: "list_all succeeds fs \<Longrightarrow> succeeds (steps fs)"
proof (induction fs)
  case (Cons f fs)
  then show ?case by (auto simp: succeeds_def split: option.splits)
qed (simp add: succeeds_def)

lemma emits_escape: "emits (js_escape r c) (escaped c)"
proof -
  have two: "emits (steps [out_put r [92], out_put r [c]]) (concat [[92], [c]])"
    by (rule emits_steps) (simp add: emits_put)
  have none: "emits (steps []) []" by (simp add: emits_def)
  show ?thesis
    using two none emits_put[of r "[c]"] unfolding js_escape_def escaped_def
    by (cases "c = 34 \<or> c = 92"; cases "c < 0x20") simp_all
qed

lemma emits_jsstrn: "emits (out_jsstrn r v n) (js_str (c_prefix (take n v)))"
proof -
  have "list_all2 emits ([out_put r [34]] @ map (js_escape r) (c_prefix (take n v)) @ [out_put r [34]])
      ([[34]] @ map escaped (c_prefix (take n v)) @ [[34]])"
    by (intro list_all2_appendI) (simp_all add: emits_put emits_escape list_all2_map1 list_all2_map2 list.rel_refl)
  from emits_steps[OF this] show ?thesis by (simp add: out_jsstrn_def js_str_def)
qed

lemma succeeds_jsstrn: "(\<And>n. r n) \<Longrightarrow> succeeds (out_jsstrn r v n)"
  unfolding out_jsstrn_def by (rule succeeds_steps) (auto simp: list_all_iff js_escape_def intro!: succeeds_steps succeeds_put)

text \<open>C15. Whatever a descriptor says, its text is one string on the page, of the characters that are no control
  characters, and what follows it is outside of the string.\<close>

theorem descriptor_stays_string:
  assumes "out_jsstr r v ob = Some ob'" "0 \<notin> set v"
  shows "\<exists>s. ou_buf ob' = ou_buf ob @ s \<and> (\<forall>rest. js_string (s @ rest) = Some (filter (\<lambda>c. \<not> c < 0x20) v, rest))"
proof -
  have "c_prefix (take (length v) v) = v" using assms(2) by (auto simp: c_prefix_def takeWhile_eq_all_conv)
  then have "ou_buf ob' = ou_buf ob @ js_str v"
    using emitsD[OF emits_jsstrn[of r v "length v"]] assms(1) by (simp add: out_jsstr_def)
  then show ?thesis using js_string_reads by blast
qed

theorem descriptor_stays_string_witness:
  "\<exists>s. ou_buf (the (out_jsstr (\<lambda>_. True) [34, 59, 92, 10, 65] \<lparr>ou_buf = [91], ou_cap = 1024\<rparr>)) = [91] @ s \<and>
     js_string (s @ [93]) = Some ([34, 59, 92, 65], [93])"
proof -
  have "out_jsstr (\<lambda>_. True) [34, 59, 92, 10, 65] \<lparr>ou_buf = [91], ou_cap = 1024\<rparr> =
      Some \<lparr>ou_buf = [91, 34, 92, 34, 59, 92, 92, 65, 34], ou_cap = 1024\<rparr>"
    by code_simp
  from descriptor_stays_string[OF this] this show ?thesis by fastforce
qed

section \<open>Walks\<close>

text \<open>The files a walk comes to: through directories, past no entry that begins with a dot and no path that is
  too long, at most \<open>k\<close> levels deep.\<close>

inductive tree_file :: "page_host \<Rightarrow> cstring \<Rightarrow> nat \<Rightarrow> cstring \<Rightarrow> cstring \<Rightarrow> bool" for h src where
  here: "ph_dir h (c_copy 2048 (tree_dir src rel)) = Some names \<Longrightarrow> name \<in> set names \<Longrightarrow> \<not> dot_entry name \<Longrightarrow>
    length (tree_path rel name) < 2048 \<Longrightarrow>
    ph_lstat h (c_copy 4096 (src @ [47] @ tree_path rel name)) = Some Regular \<Longrightarrow>
    tree_file h src (Suc k) rel (tree_path rel name)"
| below: "ph_dir h (c_copy 2048 (tree_dir src rel)) = Some names \<Longrightarrow> name \<in> set names \<Longrightarrow> \<not> dot_entry name \<Longrightarrow>
    length (tree_path rel name) < 2048 \<Longrightarrow>
    ph_lstat h (c_copy 4096 (src @ [47] @ tree_path rel name)) = Some Directory \<Longrightarrow>
    tree_file h src k (tree_path rel name) p \<Longrightarrow> tree_file h src (Suc k) rel p"

inductive_cases tree_file_0E: "tree_file h src 0 rel p"
inductive_cases tree_file_SucE: "tree_file h src (Suc k) rel p"

lemma first_some_none: "first_some f xs = None \<longleftrightarrow> (\<forall>x \<in> set xs. f x = None)"
  by (induction xs) (auto split: option.splits)

lemma first_some_some: "first_some f xs = Some y \<Longrightarrow> \<exists>x \<in> set xs. f x = Some y"
  by (induction xs) (auto split: option.splits)

lemma var_walk_none: "var_walk k h src test rel = None \<longleftrightarrow> (\<forall>p. tree_file h src k rel p \<longrightarrow> test p = None)"
proof (induction k arbitrary: rel)
  case 0
  then show ?case by (auto elim: tree_file_0E)
next
  case (Suc k)
  show ?case
  proof (cases "ph_dir h (c_copy 2048 (tree_dir src rel))")
    case None
    then show ?thesis by (auto elim: tree_file_SucE)
  next
    case (Some names)
    define one where "one = (\<lambda>name. if dot_entry name \<or> length (tree_path rel name) \<ge> 2048 then None
       else case ph_lstat h (c_copy 4096 (src @ [47] @ tree_path rel name)) of
           Some Directory \<Rightarrow> var_walk k h src test (tree_path rel name)
         | Some Regular \<Rightarrow> test (tree_path rel name) | _ \<Rightarrow> None)"
    have w: "var_walk (Suc k) h src test rel = None \<longleftrightarrow> (\<forall>name \<in> set names. one name = None)"
      using Some by (simp add: first_some_none one_def)
    have "(\<forall>name \<in> set names. one name = None) \<longleftrightarrow> (\<forall>p. tree_file h src (Suc k) rel p \<longrightarrow> test p = None)"
    proof
      assume n: "\<forall>name \<in> set names. one name = None"
      show "\<forall>p. tree_file h src (Suc k) rel p \<longrightarrow> test p = None"
      proof (intro allI impI)
        fix p assume "tree_file h src (Suc k) rel p"
        then show "test p = None"
          by (rule tree_file_SucE) (use n Some Suc in \<open>force simp: one_def\<close>)+
      qed
    next
      assume t: "\<forall>p. tree_file h src (Suc k) rel p \<longrightarrow> test p = None"
      show "\<forall>name \<in> set names. one name = None"
        using t Suc tree_file.here[OF Some] tree_file.below[OF Some]
        by (force simp: one_def not_le split: option.splits file_kind.splits)
    qed
    then show ?thesis using w by simp
  qed
qed

text \<open>A tree that holds a file: the same walk, along full paths.\<close>

inductive holds_file :: "page_host \<Rightarrow> nat \<Rightarrow> cstring \<Rightarrow> bool" for h where
  file_here: "ph_dir h dir = Some names \<Longrightarrow> name \<in> set names \<Longrightarrow> \<not> dot_entry name \<Longrightarrow> length (dir @ [47] @ name) < 2048 \<Longrightarrow>
    ph_lstat h (dir @ [47] @ name) = Some Regular \<Longrightarrow> holds_file h (Suc k) dir"
| file_below: "ph_dir h dir = Some names \<Longrightarrow> name \<in> set names \<Longrightarrow> \<not> dot_entry name \<Longrightarrow> length (dir @ [47] @ name) < 2048 \<Longrightarrow>
    ph_lstat h (dir @ [47] @ name) = Some Directory \<Longrightarrow> holds_file h k (dir @ [47] @ name) \<Longrightarrow> holds_file h (Suc k) dir"

inductive_simps holds_file_0 [simp]: "holds_file h 0 dir"
inductive_simps holds_file_Suc: "holds_file h (Suc k) dir"

lemma var_holds_file_iff: "var_holds_file k h dir \<longleftrightarrow> holds_file h k dir"
proof (induction k arbitrary: dir)
  case (Suc k)
  have one: "(let path = dir @ [47] @ name in if dot_entry name \<or> length path \<ge> 2048 then False
       else case ph_lstat h path of Some Regular \<Rightarrow> True | Some Directory \<Rightarrow> var_holds_file k h path | _ \<Rightarrow> False) \<longleftrightarrow>
     \<not> dot_entry name \<and> length (dir @ [47] @ name) < 2048 \<and> (ph_lstat h (dir @ [47] @ name) = Some Regular \<or>
       ph_lstat h (dir @ [47] @ name) = Some Directory \<and> holds_file h k (dir @ [47] @ name))" for name
    by (simp add: Let_def Suc not_le split: option.split file_kind.split)
  show ?case
    by (simp only: var_holds_file.simps one holds_file_Suc list_ex_iff split: option.split) auto
qed simp

section \<open>Where a variant fits\<close>

definition lands_dir :: "page_host \<Rightarrow> np_var \<Rightarrow> cstring \<Rightarrow> cstring \<Rightarrow> bool" where
  "lands_dir h v runner rel \<longleftrightarrow> (let spot = in_runner runner rel in length spot < 2048 \<and> var_is_dir h spot)"

text \<open>The entries of the top of a tree that count: the files, and the directories that hold one.\<close>

definition top_file :: "page_host \<Rightarrow> np_var \<Rightarrow> cstring \<Rightarrow> bool" where
  "top_file h v name \<longleftrightarrow> \<not> dot_entry name \<and> length (vr_src v @ [47] @ name) < 2048 \<and>
     ph_lstat h (vr_src v @ [47] @ name) = Some Regular"

definition top_dir :: "page_host \<Rightarrow> np_var \<Rightarrow> cstring \<Rightarrow> bool" where
  "top_dir h v name \<longleftrightarrow> \<not> dot_entry name \<and> length (vr_src v @ [47] @ name) < 2048 \<and>
     ph_lstat h (vr_src v @ [47] @ name) = Some Directory \<and> holds_file h (var_depth + 1) (vr_src v @ [47] @ name)"

definition dir_lands :: "page_host \<Rightarrow> np_var \<Rightarrow> cstring \<Rightarrow> cstring \<Rightarrow> bool" where
  "dir_lands h v runner name \<longleftrightarrow> top_dir h v name \<and> lands_dir h v runner (vr_dst v @ [47] @ name)"

lemma fit_entry_iff:
  "ft_lands (fit_entry h v runner arch name ft) \<longleftrightarrow>
     ft_lands ft \<or> top_file h v name \<and> lands_dir h v runner (vr_dst v) \<or> dir_lands h v runner name"
  "ft_named (fit_entry h v runner arch name ft) \<longleftrightarrow> ft_named ft \<or> top_dir h v name \<and> var_arch_of name \<noteq> None"
  "ft_matched (fit_entry h v runner arch name ft) \<longleftrightarrow>
     ft_matched ft \<or> dir_lands h v runner name \<and> var_arch_of name = Some arch"
  by (auto simp: fit_entry_def top_file_def top_dir_def dir_lands_def lands_dir_def Let_def var_holds_file_iff not_le
      split: option.splits file_kind.splits)

lemma fit_entries_land:
  "ft_lands (fold (fit_entry h v runner arch) names ft) \<longleftrightarrow> ft_lands ft \<or>
     (\<exists>n \<in> set names. top_file h v n \<and> lands_dir h v runner (vr_dst v) \<or> dir_lands h v runner n)"
  by (induction names arbitrary: ft) (auto simp: fit_entry_iff(1))

lemma fit_entries_named:
  "ft_named (fold (fit_entry h v runner arch) names ft) \<longleftrightarrow> ft_named ft \<or>
     (\<exists>n \<in> set names. top_dir h v n \<and> var_arch_of n \<noteq> None)"
  by (induction names arbitrary: ft) (auto simp: fit_entry_iff(2))

lemma fit_entries_matched:
  "ft_matched (fold (fit_entry h v runner arch) names ft) \<longleftrightarrow> ft_matched ft \<or>
     (\<exists>n \<in> set names. dir_lands h v runner n \<and> var_arch_of n = Some arch)"
  by (induction names arbitrary: ft) (auto simp: fit_entry_iff(3))

lemmas fit_entries = fit_entries_land fit_entries_named fit_entries_matched

text \<open>Something lands, and where a directory is named for an architecture, one for the architecture of the runner
  lands.\<close>

definition fits_runner :: "page_host \<Rightarrow> np_var \<Rightarrow> cstring list \<Rightarrow> cstring \<Rightarrow> cstring \<Rightarrow> bool" where
  "fits_runner h v names runner arch \<longleftrightarrow>
     ((\<exists>n \<in> set names. top_file h v n \<and> lands_dir h v runner (vr_dst v) \<or> dir_lands h v runner n) \<or>
      (\<exists>r \<in> set (packed (vr_removes v)). remove_lands h v runner r)) \<and>
     ((\<exists>n \<in> set names. top_dir h v n \<and> var_arch_of n \<noteq> None) \<longrightarrow>
      (\<exists>n \<in> set names. dir_lands h v runner n \<and> var_arch_of n = Some arch))"

lemma var_fits_iff:
  "var_fits h v runner arch \<longleftrightarrow> (\<exists>names. ph_dir h (vr_src v) = Some names \<and> fits_runner h v names runner arch)"
proof (cases "ph_dir h (vr_src v)")
  case (Some names)
  show ?thesis
    by (simp only: var_fits_def Some option.case Let_def fit_entries fit_state.simps list_ex_iff fits_runner_def
        option.inject ex_simps simp_thms) auto
qed (simp add: var_fits_def)

section \<open>What is offered\<close>

lemma var_bridge_path_none: "var_bridge_path land = None \<longleftrightarrow> (\<forall>b \<in> set bridge_files. \<not> same_letters land b)"
  by (auto simp: var_bridge_path_def find_None_iff)

definition tree_of :: "page_host \<Rightarrow> np_var \<Rightarrow> cstring \<Rightarrow> bool" where
  "tree_of h v p \<longleftrightarrow> tree_file h (vr_src v) (var_depth + 1) [] p"

text \<open>Where a file of the tree is put, below the top of the runner.\<close>

definition lands_at :: "np_var \<Rightarrow> cstring \<Rightarrow> cstring" where
  "lands_at v p = var_norm 2048 (vr_dst v) p"

definition on_bridge :: "cstring \<Rightarrow> bool" where
  "on_bridge land \<longleftrightarrow> (\<exists>b \<in> set bridge_files. same_letters land b)"

definition replaces :: "page_host \<Rightarrow> cstring \<Rightarrow> cstring \<Rightarrow> bool" where
  "replaces h runner land \<longleftrightarrow> ph_stat h (c_copy 4096 (in_runner runner land)) = Some Regular"

lemma bridge_hit_none:
  "var_bridge_hit h v = None \<longleftrightarrow> (\<forall>r \<in> set (packed (vr_removes v)). \<not> on_bridge (var_norm 2048 (var_norm 2048 (vr_dst v) []) r)) \<and>
     (\<forall>p. tree_of h v p \<longrightarrow> \<not> on_bridge (lands_at v p))"
proof -
  have "var_bridge_hit h v = None \<longleftrightarrow> first_some (\<lambda>r. map_option (c_copy 2048)
      (var_bridge_path (var_norm 2048 (var_norm 2048 (vr_dst v) []) r))) (packed (vr_removes v)) = None \<and>
      var_bridge_walk h v = None"
    by (simp add: var_bridge_hit_def Let_def split: option.split)
  then show ?thesis
    unfolding first_some_none var_bridge_walk_def var_walk_none
    by (auto simp: var_bridge_path_none on_bridge_def tree_of_def lands_at_def)
qed

lemma wine_hit_none:
  "var_wine_hit h v runner = None \<longleftrightarrow> (\<forall>p. tree_of h v p \<longrightarrow> \<not> (var_wine_path (lands_at v p) \<and> replaces h runner (lands_at v p)))"
  by (auto simp: var_wine_hit_def var_walk_none Let_def tree_of_def lands_at_def replaces_def simp del: var_walk.simps)

lemma apple_hit_none:
  "var_apple_hit h v runner = None \<longleftrightarrow> (\<forall>p. tree_of h v p \<longrightarrow> \<not> (replaces h runner (lands_at v p) \<and>
     var_macho_restricted h (c_copy 4096 (in_runner runner (lands_at v p)))))"
  by (auto simp: var_apple_hit_def var_walk_none Let_def tree_of_def lands_at_def replaces_def simp del: var_walk.simps)

text \<open>C7. A variant is offered for a tool exactly when it has something to put or remove, keeps off every file of
  the Steam bridge, whatever the case of its letters, fits the runner and its architecture, replaces no program
  only Apple can sign, and either names the build of the tool or names none and replaces no file of Wine. The
  files judged are those the page's walk reaches: regular files at most 17 levels below the source, by names
  that do not begin with a dot and along paths of less than 2048 bytes. A file that lies beyond is not judged
  here, and a variant that has one is offered as if it had not.\<close>

theorem variant_offered_iff:
  "var_shown h v \<and> var_offered h runners v (tool, build, arch) \<longleftrightarrow>
     (let runner = runners @ cstr ''/crossover-'' @ build; builds = packed (vr_builds v); removes = packed (vr_removes v) in
      (removes \<noteq> [] \<or> holds_file h 17 (vr_src v)) \<and>
      (\<forall>r \<in> set removes. \<not> on_bridge (var_norm 2048 (var_norm 2048 (vr_dst v) []) r)) \<and>
      (\<forall>p. tree_of h v p \<longrightarrow> \<not> on_bridge (lands_at v p)) \<and>
      length runner < 2048 \<and>
      (\<exists>names. ph_dir h (vr_src v) = Some names \<and> fits_runner h v names runner arch) \<and>
      (\<forall>p. tree_of h v p \<longrightarrow> \<not> (replaces h runner (lands_at v p) \<and>
         var_macho_restricted h (c_copy 4096 (in_runner runner (lands_at v p))))) \<and>
      (build \<in> set builds \<or>
       builds = [] \<and> (\<forall>p. tree_of h v p \<longrightarrow> \<not> (var_wine_path (lands_at v p) \<and> replaces h runner (lands_at v p)))))"
  unfolding var_shown_def var_offered_def Let_def prod.case var_fits_iff bridge_hit_none wine_hit_none apple_hit_none
    var_holds_file_iff var_has_def
  by (auto simp: var_depth_def)

text \<open>A tree of one file, offered for a runner that has the directory it lands in.\<close>

definition sample_host :: page_host where
  "sample_host = \<lparr>ph_home = None, ph_calloc = True, ph_realloc = \<lambda>_. True, ph_mem = \<lparr>pm_inputs = True, pm_text = \<lambda>_. True\<rparr>,
     ph_strtod = \<lambda>_. None, ph_number = \<lambda>_ _. [],
     ph_dir = (\<lambda>d. if d = cstr ''/v'' then Some [cstr ''a.dll''] else None),
     ph_stat = (\<lambda>p. if p = cstr ''/r/crossover-26/CrossOver/lib'' then Some Directory else None),
     ph_lstat = (\<lambda>p. if p = cstr ''/v/a.dll'' then Some Regular else None), ph_read = \<lambda>_. None\<rparr>"

definition sample_var :: np_var where
  "sample_var = \<lparr>vr_name = cstr ''dxmt'', vr_label = cstr ''DXMT'', vr_variant = cstr ''dxmt'', vr_src = cstr ''/v'',
     vr_dst = cstr ''lib'', vr_builds = [], vr_removes = []\<rparr>"

theorem variant_offered_iff_witness:
  "tree_of sample_host sample_var (cstr ''a.dll'') \<and>
   \<not> on_bridge (lands_at sample_var (cstr ''a.dll'')) \<and> holds_file sample_host 17 (cstr ''/v'')"
proof -
  have "var_shown sample_host sample_var \<and>
      var_offered sample_host (cstr ''/r'') sample_var (cstr ''np'', cstr ''26'', cstr ''i386'')"
    by code_simp
  moreover have "packed (vr_removes sample_var) = []" "vr_src sample_var = cstr ''/v''"
    by (simp_all add: sample_var_def packed_def)
  moreover have "tree_of sample_host sample_var (cstr ''a.dll'')"
  proof -
    have "tree_file sample_host (cstr ''/v'') (Suc 16) [] (tree_path [] (cstr ''a.dll''))"
      by (rule tree_file.here[of _ _ _ "[cstr ''a.dll'']"]) code_simp+
    then show ?thesis by (simp add: tree_of_def tree_path_def var_depth_def sample_var_def)
  qed
  ultimately show ?thesis
    using variant_offered_iff[of sample_host sample_var "cstr ''/r''" "cstr ''np''" "cstr ''26''" "cstr ''i386''"]
    unfolding Let_def by simp
qed

section \<open>The rows of the variants\<close>

text \<open>The text of a row, with the tools the variant is offered for.\<close>

definition tools_text :: "page_host \<Rightarrow> cstring \<Rightarrow> np_var \<Rightarrow> (cstring \<times> cstring \<times> cstring) list \<Rightarrow> cstring" where
  "tools_text h runners v ts = join_fields 44 (map (\<lambda>t. js_quote (fst t)) (filter (var_offered h runners v) ts))"

definition row_text :: "page_host \<Rightarrow> cstring \<Rightarrow> (cstring \<times> cstring \<times> cstring) list \<Rightarrow> np_var \<Rightarrow> cstring" where
  "row_text h runners ts v = cstr ''{k:'' @ js_str (c_prefix (vr_name v)) @ cstr '',l:'' @ js_str (c_prefix (vr_label v)) @
     cstr '',v:'' @ js_str (c_prefix (vr_variant v)) @ cstr '',t:['' @ tools_text h runners v ts @ cstr '']}''"

definition fits_tools :: "nat \<Rightarrow> (cstring \<times> cstring \<times> cstring) list \<Rightarrow> bool" where
  "fits_tools room ts \<longleftrightarrow> sum_list (map (\<lambda>t. 3 + length (fst t)) ts) < room"

lemma var_tools_more:
  "length tools + sum_list (map (\<lambda>t. 3 + length (fst t)) ts) < var_tools_max \<Longrightarrow>
   var_tools h runners v ts fits tools =
     tools @ more_items (\<not> fits) (map (\<lambda>t. js_quote (fst t)) (filter (var_offered h runners v) ts))"
proof (induction ts arbitrary: fits tools)
  case (Cons t ts)
  show ?case
  proof (cases "var_offered h runners v t")
    case True
    define e where "e = (if fits then [44] else []) @ [34] @ fst t @ [34]"
    have e: "length e \<le> 3 + length (fst t)" by (simp add: e_def)
    have whole: "c_copy (var_tools_max - length tools) e = e"
      by (rule c_copy_fits) (use Cons.prems e in simp)
    have "var_tools h runners v (t # ts) fits tools = var_tools h runners v ts True (tools @ e)"
      using True whole by (simp add: e_def)
    also have "\<dots> = (tools @ e) @ more_items (\<not> True) (map (\<lambda>t. js_quote (fst t)) (filter (var_offered h runners v) ts))"
      by (rule Cons.IH) (use Cons.prems e in simp)
    moreover have "e = (if fits then [44] else []) @ js_quote (fst t)" by (simp add: e_def js_quote_def)
    ultimately show ?thesis using True by simp
  next
    case False
    then show ?thesis using Cons.IH[of tools fits] Cons.prems by simp
  qed
qed simp

text \<open>The tools of a thread fit: there are at most 32, with names of less than 128 characters.\<close>

lemma told_tools_room:
  assumes "list_all told_tool ts" "length ts \<le> NP_WEBPATCH_BUILDS_MAX"
  shows "sum_list (map (\<lambda>t. 3 + length (fst t)) ts) < var_tools_max"
proof -
  have "sum_list (map (\<lambda>t. 3 + length (fst t)) ts) \<le> length ts * (NP_TOOL_NAME_MAX + 3)"
    using assms(1) by (induction ts) (auto simp: is_page_tool_def)
  also have "\<dots> \<le> NP_WEBPATCH_BUILDS_MAX * (NP_TOOL_NAME_MAX + 3)" using assms(2) by simp
  finally show ?thesis by (simp add: var_tools_max_def)
qed

lemma var_tools_text:
  assumes "list_all told_tool ts" "length ts \<le> NP_WEBPATCH_BUILDS_MAX"
  shows "var_tools h runners v ts False [] = tools_text h runners v ts"
  using var_tools_more[of "[]" ts h runners v False] told_tools_room[OF assms] by (simp add: tools_text_def more_items_join)

lemma emits_field: "list_all2 emits (put_field r key v) [cstr key, js_str (c_prefix v)]"
  using emits_jsstrn[of r v "length v"] by (simp add: put_field_def emits_put out_jsstr_def)

lemma emits_row:
  assumes "list_all told_tool ts" "length ts \<le> NP_WEBPATCH_BUILDS_MAX"
  shows "emits (steps (var_row h runners ts v)) (row_text h runners ts v)"
proof -
  have "list_all2 emits (var_row h runners ts v)
      ([cstr ''{k:'', js_str (c_prefix (vr_name v))] @ [cstr '',l:'', js_str (c_prefix (vr_label v))] @
       [cstr '',v:'', js_str (c_prefix (vr_variant v))] @ [cstr '',t:['', tools_text h runners v ts, cstr '']}''])"
    unfolding var_row_def Let_def var_tools_text[OF assms]
    by (intro list_all2_appendI emits_field) (simp add: emits_put)
  from emits_steps[OF this] show ?thesis by (simp add: row_text_def)
qed

lemma steps_append: "steps (fs @ gs) ob = (case steps fs ob of None \<Rightarrow> None | Some ob \<Rightarrow> steps gs ob)"
  by (induction fs arbitrary: ob) (auto split: option.splits)

lemma emits_loop:
  assumes "list_all told_tool ts" "length ts \<le> NP_WEBPATCH_BUILDS_MAX"
  shows "emits (var_loop h runners ts wrote vs) (more_items (\<not> wrote) (map (row_text h runners ts) (filter (var_shown h) vs)))"
proof (induction vs arbitrary: wrote)
  case Nil
  then show ?case by (simp add: emits_def)
next
  case (Cons v vs)
  show ?case
  proof (cases "var_shown h v")
    case False
    then have "var_loop h runners ts wrote (v # vs) = var_loop h runners ts wrote vs" by (simp add: fun_eq_iff)
    then show ?thesis using Cons[of wrote] False by simp
  next
    case True
    let ?one = "(if wrote then [out_put (ph_realloc h) [44]] else []) @ [steps (var_row h runners ts v)]"
    have l: "var_loop h runners ts wrote (v # vs) = steps (?one @ [var_loop h runners ts True vs])"
      using True by (simp add: fun_eq_iff steps_append split: option.split)
    have "list_all2 emits (?one @ [var_loop h runners ts True vs])
        ((if wrote then [[44]] else []) @ [row_text h runners ts v] @
         [more_items False (map (row_text h runners ts) (filter (var_shown h) vs))])"
      using emits_row[OF assms] Cons[of True] by (auto simp: emits_put)
    from emits_steps[OF this] have "emits (var_loop h runners ts wrote (v # vs)) (concat ((if wrote then [[44]] else []) @
        [row_text h runners ts v] @ [more_items False (map (row_text h runners ts) (filter (var_shown h) vs))]))"
      by (simp only: l)
    then show ?thesis using True by (cases wrote) (simp_all del: var_loop.simps)
  qed
qed

lemma succeeds_loop: "(\<And>n. ph_realloc h n) \<Longrightarrow> succeeds (var_loop h runners ts wrote vs)"
proof (induction vs arbitrary: wrote)
  case Nil
  then show ?case by (simp add: succeeds_def)
next
  case (Cons v vs)
  have "succeeds (steps ((if wrote then [out_put (ph_realloc h) [44]] else []) @ var_row h runners ts v))"
    by (rule succeeds_steps) (auto simp: Let_def var_row_def put_field_def out_jsstr_def Cons.prems intro!: succeeds_put succeeds_jsstrn)
  then show ?case using Cons.IH[OF Cons.prems] by (auto simp: succeeds_def split: option.splits)
qed

lemma variants_text:
  assumes "list_all told_tool ts" "length ts \<le> NP_WEBPATCH_BUILDS_MAX" "var_texts h home ts = Some rows"
  shows "ou_buf rows = js_list (map (row_text h (np_support_path 2048 home (cstr ''runners'')) ts)
    (filter (var_shown h) (var_load h home)))"
proof -
  have "list_all2 emits [out_put (ph_realloc h) [91],
     var_loop h (np_support_path 2048 home (cstr ''runners'')) ts False (var_load h home), out_put (ph_realloc h) [93]]
     [[91], more_items (\<not> False) (map (row_text h (np_support_path 2048 home (cstr ''runners'')) ts)
        (filter (var_shown h) (var_load h home))), [93]]"
    using emits_loop[OF assms(1,2), of h "np_support_path 2048 home (cstr ''runners'')" False "var_load h home"]
    by (simp add: emits_put)
  from emitsD[OF emits_steps[OF this] assms(3)[unfolded var_texts_def]]
  show ?thesis by (simp add: js_list_def more_items_join)
qed

text \<open>The rows of the page are those of the variants that are shown, each with the tools it is offered for.\<close>

theorem variants_told:
  assumes "list_all told_tool ts" "length ts \<le> NP_WEBPATCH_BUILDS_MAX" "\<And>n. ph_realloc h n"
  shows "\<exists>rows. var_texts h home ts = Some rows \<and>
    ou_buf rows = js_list (map (row_text h (np_support_path 2048 home (cstr ''runners'')) ts)
      (filter (var_shown h) (var_load h home)))"
proof -
  have "succeeds (steps [out_put (ph_realloc h) [91],
      var_loop h (np_support_path 2048 home (cstr ''runners'')) ts False (var_load h home), out_put (ph_realloc h) [93]])"
    by (rule succeeds_steps) (auto intro!: succeeds_put succeeds_loop assms(3))
  then obtain rows where "var_texts h home ts = Some rows" unfolding succeeds_def var_texts_def by blast
  then show ?thesis using variants_text[OF assms(1,2)] by blast
qed

section \<open>Marks\<close>

text \<open>Reading the features leaves the other inputs, and so does reading the variants; neither depends on the other.\<close>

lemma set_input_other: "w \<noteq> which \<Longrightarrow> set_input pm which s inp w = inp w"
  by (simp add: set_input_def)

lemma set_input_own: "set_input pm which s inp which = (if pm_inputs pm then s else inp which)"
  by (simp add: set_input_def)

lemma input_text_cong: "inp w = inp' w \<Longrightarrow> input_text w inp = input_text w inp'"
  by (simp add: input_text_def)

lemma feat_build_keeps:
  "g_feat_ready_done (feat_build h th)" "g_var_done (feat_build h th) = g_var_done th"
  "g_var_tools (feat_build h th) = g_var_tools th"
  "w \<noteq> IN_READY \<Longrightarrow> w \<noteq> IN_FEATS \<Longrightarrow> th_inputs (feat_build h th) w = th_inputs th w"
  by (simp_all add: feat_build_def Let_def set_input_other split: option.split)

lemma var_build_keeps:
  "g_var_done (var_build h th)" "g_feat_ready_done (var_build h th) = g_feat_ready_done th"
  "g_var_tools (var_build h th) = g_var_tools th"
  "w \<noteq> IN_VARS \<Longrightarrow> th_inputs (var_build h th) w = th_inputs th w"
  by (simp_all add: var_build_def Let_def set_input_other split: option.split)

lemma feat_build_own:
  assumes "\<And>w. w = IN_READY \<or> w = IN_FEATS \<Longrightarrow> th_inputs th w = th_inputs th' w" "w = IN_READY \<or> w = IN_FEATS"
  shows "th_inputs (feat_build h th) w = th_inputs (feat_build h th') w"
  using assms(2) assms(1)[of IN_READY] assms(1)[of IN_FEATS]
  by (auto simp: feat_build_def Let_def set_input_def split: option.split)

lemma var_build_own:
  assumes "th_inputs th IN_VARS = th_inputs th' IN_VARS" "g_var_tools th = g_var_tools th'"
  shows "th_inputs (var_build h th) IN_VARS = th_inputs (var_build h th') IN_VARS"
  using assms by (auto simp: var_build_def Let_def set_input_def split: option.split)

text \<open>What has been read once a mark was asked for, by the mark.\<close>

definition settle :: "page_host \<Rightarrow> u8 \<Rightarrow> page_thread \<Rightarrow> page_thread" where
  "settle h c th = (if (c = 25 \<or> c = 26) \<and> \<not> g_feat_ready_done th then feat_build h th
     else if c = 27 \<and> \<not> g_var_done th then var_build h th else th)"

lemma page_mark_settle: "snd (page_mark h c th) = settle h c th"
  by (simp add: page_mark_def marker_text_def settle_def Let_def)

definition mark_input :: "u8 \<Rightarrow> input_name option" where
  "mark_input c = map_of [(17, IN_FALLBACK_TOOL), (18, IN_FEX_TOOLS), (23, IN_DEFAULTS), (24, IN_BUILDS), (28, IN_OUR_TOOLS),
     (25, IN_READY), (26, IN_FEATS), (27, IN_VARS)] c"

lemma page_mark_input: "fst (page_mark h c th) = map_option (\<lambda>w. input_text w (th_inputs (settle h c th))) (mark_input c)"
  by (simp add: page_mark_def marker_text_def settle_def mark_input_def Let_def)

lemma settle_inputs:
  assumes "mark_input c = Some w"
  shows "th_inputs (settle h c (settle h d th)) w = th_inputs (settle h c th) w"
proof -
  consider "c = 25 \<or> c = 26" "w = IN_READY \<or> w = IN_FEATS" | "c = 27" "w = IN_VARS"
    | "c \<noteq> 25 \<and> c \<noteq> 26 \<and> c \<noteq> 27" "w \<noteq> IN_READY \<and> w \<noteq> IN_FEATS \<and> w \<noteq> IN_VARS"
    using assms by (auto simp: mark_input_def split: if_splits)
  then show ?thesis
  proof cases
    case 1
    have v: "th_inputs (feat_build h (var_build h th)) w = th_inputs (feat_build h th) w"
      by (rule feat_build_own) (use 1 var_build_keeps(4) in auto)
    show ?thesis using 1 v by (auto simp: settle_def feat_build_keeps var_build_keeps)
  next
    case 2
    have v: "th_inputs (var_build h (feat_build h th)) IN_VARS = th_inputs (var_build h th) IN_VARS"
      by (rule var_build_own) (simp_all add: feat_build_keeps)
    show ?thesis using 2 v by (simp add: settle_def feat_build_keeps var_build_keeps)
  next
    case 3
    then show ?thesis by (simp add: settle_def feat_build_keeps var_build_keeps)
  qed
qed

lemma mark_text_settled: "fst (page_mark h c (snd (page_mark h d th))) = fst (page_mark h c th)"
proof (cases "mark_input c")
  case (Some w)
  show ?thesis
    using settle_inputs[OF Some] by (simp add: page_mark_settle page_mark_input Some input_text_def)
qed (simp add: page_mark_input)

text \<open>C27. The text of a mark is a function of the mark: it does not depend on which marks were asked for before
  it, nor in which order, though the first one that needs the features or the variants reads them.\<close>

theorem marks_settled: "fst (page_mark h c (fold (\<lambda>d t. snd (page_mark h d t)) ds th)) = fst (page_mark h c th)"
  by (induction ds arbitrary: th) (simp_all add: mark_text_settled)

end
