(* ===== verification/Ntdll_Detour.thy ===== *)
theory Ntdll_Detour
  imports C_Mem
begin

text \<open>
  The detours put into the Windows loader of the runner, \<^verbatim>\<open>src/ntdll-patch/detour.c\<close> and its 32-bit
  counterpart \<^verbatim>\<open>src/ntdll-patch/detour32.c\<close>: when the client's library is loaded, each of its exports
  that the bridge library has as well is made to jump there. The two sources share their code but for the
  width of addresses and some offsets, so the shared part is stated for addresses of any width. The
  functions of the loader are parameters that may change the memory.
\<close>

section \<open>Reading images\<close>

type_synonym 'a mem_of = "'a word \<Rightarrow> u8"

definition rd16 :: "'a::len mem_of \<Rightarrow> 'a word \<Rightarrow> u16" where
  "rd16 m p = le16 (m p) (m (p + 1))"

definition rd32 :: "'a::len mem_of \<Rightarrow> 'a word \<Rightarrow> u32" where
  "rd32 m p = le32 (m p) (m (p + 1)) (m (p + 2)) (m (p + 3))"

definition wr32 :: "'a::len mem_of \<Rightarrow> 'a word \<Rightarrow> u32 \<Rightarrow> 'a mem_of" where
  "wr32 m p v = (\<lambda>x. if unat (x - p) < 4 then ucast (drop_bit (8 * unat (x - p)) v) else m x)"

text \<open>\<open>dir\<close> is where the headers say where the exports are: 136 bytes into them, 120 in a 32-bit image.\<close>

definition nt_headers :: "'a::len mem_of \<Rightarrow> 'a word \<Rightarrow> 'a word" where
  "nt_headers m md = md + ucast (rd32 m (md + 60))"

definition export_of :: "nat \<Rightarrow> 'a::len mem_of \<Rightarrow> 'a word \<Rightarrow> 'a word" where
  "export_of dir m md =
     (let rva = rd32 m (nt_headers m md + of_nat dir) in if rva = 0 then 0 else md + ucast rva)"

text \<open>Two texts in memory; the comparison ends only where one of them does.\<close>

partial_function (option) name_eq :: "'a::len mem_of \<Rightarrow> 'a word \<Rightarrow> 'a word \<Rightarrow> bool option" where
  "name_eq m a b = (if m a \<noteq> 0 \<and> m a = m b then name_eq m (a + 1) (b + 1) else Some (m a = m b))"

text \<open>The names, the functions and the ordinals of the exports.\<close>

type_synonym 'a tables = "'a word \<times> 'a word \<times> 'a word"

definition export_tables :: "'a::len mem_of \<Rightarrow> 'a word \<Rightarrow> 'a word \<Rightarrow> 'a tables" where
  "export_tables m md e = (md + ucast (rd32 m (e + 32)), md + ucast (rd32 m (e + 28)), md + ucast (rd32 m (e + 36)))"

definition name_at :: "'a::len mem_of \<Rightarrow> 'a word \<Rightarrow> 'a tables \<Rightarrow> nat \<Rightarrow> 'a word" where
  "name_at m md tb i = (case tb of (names, funcs, ords) \<Rightarrow> md + ucast (rd32 m (names + 4 * of_nat i)))"

definition func_at :: "'a::len mem_of \<Rightarrow> 'a word \<Rightarrow> 'a tables \<Rightarrow> nat \<Rightarrow> 'a word" where
  "func_at m md tb i = (case tb of (names, funcs, ords) \<Rightarrow>
     md + ucast (rd32 m (funcs + 4 * ucast (rd16 m (ords + 2 * of_nat i)))))"

fun find_export_loop :: "'a::len mem_of \<Rightarrow> 'a word \<Rightarrow> 'a tables \<Rightarrow> 'a word \<Rightarrow> nat list \<Rightarrow> 'a word option" where
  "find_export_loop m md tb want [] = Some 0"
| "find_export_loop m md tb want (i # is) = (case name_eq m (name_at m md tb i) want of
     None \<Rightarrow> None
   | Some eq \<Rightarrow> if eq then Some (func_at m md tb i) else find_export_loop m md tb want is)"

definition find_named_export :: "nat \<Rightarrow> 'a::len mem_of \<Rightarrow> 'a word \<Rightarrow> 'a word \<Rightarrow> 'a word option" where
  "find_named_export dir m md want =
     (let e = export_of dir m md in
      if e = 0 then Some 0
      else find_export_loop m md (export_tables m md e) want [0..<unat (rd32 m (e + 24))])"

section \<open>Rewriting the exports\<close>

text \<open>How many names there are is read before each turn; what is written may lie anywhere.\<close>

function trampoline_loop ::
  "nat \<Rightarrow> ('a::len mem_of \<Rightarrow> 'a word \<Rightarrow> 'a word \<Rightarrow> 'a mem_of) \<Rightarrow> 'a word \<Rightarrow> 'a word \<Rightarrow> 'a word \<Rightarrow> 'a tables \<Rightarrow> nat \<Rightarrow>
     'a mem_of \<Rightarrow> 'a mem_of option" where
  "trampoline_loop dir jump lsteam sc se tb i m =
     (if i < unat (rd32 m (se + 24)) then
        (case find_named_export dir m lsteam (name_at m sc tb i) of
           None \<Rightarrow> None
         | Some tgt \<Rightarrow>
             trampoline_loop dir jump lsteam sc se tb (i + 1) (if tgt \<noteq> 0 then jump m (func_at m sc tb i) tgt else m))
      else Some m)"
  by pat_completeness auto
termination
proof (relation "measure (\<lambda>(_, _, _, _, _, _, i, _). 2 ^ 32 - i)", goal_cases)
  case (2 dir jump lsteam sc se tb i m tgt)
  have "unat (rd32 m (se + 24)) < 2 ^ 32" using unsigned_less[of "rd32 m (se + 24)"] by simp
  then show ?case using 2 by simp
qed simp

declare trampoline_loop.simps [simp del]

definition rewrite_exports ::
  "nat \<Rightarrow> ('a::len mem_of \<Rightarrow> 'a word \<Rightarrow> 'a word \<Rightarrow> 'a mem_of) \<Rightarrow> 'a word \<Rightarrow> 'a word \<Rightarrow> 'a mem_of \<Rightarrow> 'a mem_of option option" where
  "rewrite_exports dir jump sc lsteam m =
     (let se = export_of dir m sc in
      if se = 0 then Some None
      else map_option Some (trampoline_loop dir jump lsteam sc se (export_tables m sc se) 0 m))"

section \<open>The loader\<close>

text \<open>The functions of the loader and the kernel: whether they succeed, what they give, and the memory then. A
  library is found or loaded by its name; protecting gives the protection there was.\<close>

definition name_lsteam :: "u16 list" where
  "name_lsteam = map (\<lambda>c. ucast (c :: u8)) (cstr ''lsteamclient.dll'')"

record ('m, 'p) loader =
  ld_get_dll_handle :: "'m \<Rightarrow> 'p \<Rightarrow> u16 list \<Rightarrow> 'p \<Rightarrow> u32 \<times> 'p \<times> 'm"
  ld_load_dll :: "'m \<Rightarrow> 'p \<Rightarrow> u16 list \<Rightarrow> 'p \<Rightarrow> u32 \<times> 'p \<times> 'm"
  ld_protect :: "'m \<Rightarrow> 'p \<Rightarrow> 'p \<Rightarrow> u32 \<Rightarrow> u32 \<times> u32 \<times> 'm"

definition resolve_lsteam :: "('a::len mem_of, 'a word) loader \<Rightarrow> 'a mem_of \<Rightarrow> 'a word \<Rightarrow> 'a word \<times> 'a mem_of" where
  "resolve_lsteam c m load_path = (case ld_get_dll_handle c m load_path name_lsteam 0 of
     (st, h, m) \<Rightarrow>
       if st = 0 \<and> h \<noteq> 0 then (h, m)
       else case ld_load_dll c m load_path name_lsteam h of
           (st, h, m) \<Rightarrow> if st = 0 \<and> h \<noteq> 0 then (h, m) else (0, m))"

text \<open>A wide text in memory, letters lowered, against a name.\<close>

definition lower16 :: "u16 \<Rightarrow> u16" where
  "lower16 ch = (if 65 \<le> ch \<and> ch \<le> 90 then ch + 32 else ch)"

fun wide_is :: "'a::len mem_of \<Rightarrow> 'a word \<Rightarrow> cstring \<Rightarrow> bool" where
  "wide_is m p [] \<longleftrightarrow> rd16 m p = 0"
| "wide_is m p (c # cs) \<longleftrightarrow> lower16 (rd16 m p) = ucast c \<and> wide_is m (p + 2) cs"

section \<open>The 64-bit detour\<close>

definition DIR64 :: nat where "DIR64 = 136"
definition DIR32 :: nat where "DIR32 = 120"

definition rd64 :: "mem \<Rightarrow> u64 \<Rightarrow> u64" where
  "rd64 m p = load64 m p"

definition write_jump :: "mem \<Rightarrow> u64 \<Rightarrow> u64 \<Rightarrow> mem" where
  "write_jump m src tgt =
     (let m = m(src := 0x48, src + 1 := 0xB8); m = store64 m (src + 2) tgt in m(src + 10 := 0xFF, src + 11 := 0xE0))"

definition write_true_stub :: "mem \<Rightarrow> u64 \<Rightarrow> mem" where
  "write_true_stub m src =
     m(src := 0xB8, src + 1 := 1, src + 2 := 0, src + 3 := 0, src + 4 := 0, src + 5 := 0xC3)"

definition setup_trampolines :: "(mem, u64) loader \<Rightarrow> mem \<Rightarrow> u64 \<Rightarrow> u64 \<Rightarrow> mem option" where
  "setup_trampolines c m sc64 lsteam =
     (let snt = nt_headers m sc64; sz = ucast (rd32 m (snt + 80)) in
      case ld_protect c m sc64 sz 0x40 of
        (st, _, m) \<Rightarrow>
          if st \<noteq> 0 then Some m
          else case rewrite_exports DIR64 write_jump sc64 lsteam m of
              None \<Rightarrow> None
            | Some None \<Rightarrow> Some m
            | Some (Some m) \<Rightarrow>
                let entry = rd32 m (snt + 40)
                in Some (if entry \<noteq> 0 then write_true_stub m (sc64 + ucast entry) else m))"

definition wm_is_sc64 :: "mem \<Rightarrow> u64 \<Rightarrow> bool" where
  "wm_is_sc64 m wm = (let nm = rd64 m (wm + 0x60) in nm \<noteq> 0 \<and> wide_is m nm (cstr ''steamclient64.dll''))"

definition LDR_DONT_RESOLVE_REFS :: u32 where "LDR_DONT_RESOLVE_REFS = 2"

definition detour_build_module :: "(mem, u64) loader \<Rightarrow> mem \<Rightarrow> u64 \<Rightarrow> u64 \<Rightarrow> mem option" where
  "detour_build_module c m wm load_path =
     (if wm = 0 \<or> \<not> wm_is_sc64 m wm then Some m
      else
        let sc64 = rd64 m (wm + 0x30) in
        if sc64 = 0 then Some m
        else case resolve_lsteam c m load_path of
            (lsteam, m) \<Rightarrow>
              if lsteam = 0 then Some m
              else case setup_trampolines c m sc64 lsteam of
                  None \<Rightarrow> None
                | Some m \<Rightarrow> Some (wr32 m (wm + 0x68) (rd32 m (wm + 0x68) OR LDR_DONT_RESOLVE_REFS)))"

section \<open>The 32-bit detour\<close>

text \<open>The arguments of the loader's function that is detoured are on its stack, at offsets that depend on the
  build; opening and reading the file of the image are parameters. A read gives the bytes it got.\<close>

type_synonym mem32 = "u32 \<Rightarrow> u8"

record file_calls =
  fc_open :: "mem32 \<Rightarrow> u16 list \<Rightarrow> u32 \<times> u32"
  fc_read :: "u32 \<Rightarrow> nat \<Rightarrow> nat \<Rightarrow> u8 list"

record stack_slots =
  FLAGS_SLOT :: u32
  LOAD_PATH_SLOT :: u32
  FLAGS_BIT :: u32

definition write_jump32 :: "mem32 \<Rightarrow> u32 \<Rightarrow> u32 \<Rightarrow> mem32" where
  "write_jump32 m src tgt =
     (let m = m(src := 0xB8); m = wr32 m (src + 1) tgt in m(src + 5 := 0xFF, src + 6 := 0xE0))"

definition setup_trampolines32 :: "(mem32, u32) loader \<Rightarrow> mem32 \<Rightarrow> u32 \<Rightarrow> u32 \<Rightarrow> mem32 option" where
  "setup_trampolines32 c m sc lsteam =
     (let snt = nt_headers m sc; lnt = nt_headers m lsteam; sz = rd32 m (snt + 80) in
      case ld_protect c m sc sz 0x40 of
        (st, _, m) \<Rightarrow>
          if st \<noteq> 0 then Some m
          else case rewrite_exports DIR32 write_jump32 sc lsteam m of
              None \<Rightarrow> None
            | Some None \<Rightarrow> Some m
            | Some (Some m) \<Rightarrow>
                let s = rd32 m (snt + 40); l = rd32 m (lnt + 40)
                in Some (if s \<noteq> 0 \<and> l \<noteq> 0 then write_jump32 m (sc + s) (lsteam + l) else m))"

text \<open>The path of the image as the kernel names it, in a buffer of \<open>room\<close> characters.\<close>

definition nt_name_of :: "mem32 \<Rightarrow> u32 \<Rightarrow> nat \<Rightarrow> u16 list option" where
  "nt_name_of m wm room =
     (let full = wm + 0x24; src = rd32 m (full + 4); n = unat (rd16 m full) div 2 in
      if src = 0 \<or> n < 2 \<or> n + 4 > room \<or> rd16 m src = 92 then None
      else Some ([92, 63, 63, 92] @ map (\<lambda>i. rd16 m (src + 2 * of_nat i)) [0..<n]))"

fun write_bytes :: "mem32 \<Rightarrow> u32 \<Rightarrow> u8 list \<Rightarrow> mem32" where
  "write_bytes m p [] = m"
| "write_bytes m p (b # bs) = write_bytes (m(p := b)) (p + 1) bs"

definition restore_image_base :: "(mem32, u32) loader \<Rightarrow> file_calls \<Rightarrow> mem32 \<Rightarrow> u32 \<Rightarrow> u32 \<Rightarrow> mem32" where
  "restore_image_base c fc m wm md =
     (let at_base = nt_headers m md + 52 in
      case nt_name_of m wm 320 of
        None \<Rightarrow> m
      | Some path \<Rightarrow> (case ld_protect c m md 0x1000 4 of
          (st, old, m) \<Rightarrow>
            if st \<noteq> 0 then m
            else case fc_open fc m path of
                (st, file) \<Rightarrow>
                  let m = (if st = 0 then write_bytes m at_base (take 4 (fc_read fc file (unat (at_base - md)) 4)) else m)
                  in case ld_protect c m md 0x1000 old of (_, _, m) \<Rightarrow> m))"

definition basename_is :: "mem32 \<Rightarrow> u32 \<Rightarrow> string \<Rightarrow> bool" where
  "basename_is m wm want = (let nm = rd32 m (wm + 0x30) in nm \<noteq> 0 \<and> wide_is m nm (cstr want))"

definition LDR_DONT_CALL_DLLMAIN :: u32 where "LDR_DONT_CALL_DLLMAIN = 0x20000000"

definition detour_build_module32 ::
  "(mem32, u32) loader \<Rightarrow> file_calls \<Rightarrow> stack_slots \<Rightarrow> mem32 \<Rightarrow> u32 \<Rightarrow> u32 \<Rightarrow> mem32 option" where
  "detour_build_module32 c fc sl m wm fp =
     (if wm = 0 then Some m
      else
        let is_client = basename_is m wm ''steamclient.dll'' in
        if \<not> is_client \<and> \<not> basename_is m wm ''gameoverlayrenderer.dll'' then Some m
        else
          let sc = rd32 m (wm + 0x18) in
          if sc = 0 then Some m
          else case resolve_lsteam c m (rd32 m (fp + LOAD_PATH_SLOT sl)) of
              (lsteam, m) \<Rightarrow>
                if lsteam = 0 then Some m
                else case setup_trampolines32 c m sc lsteam of
                    None \<Rightarrow> None
                  | Some m \<Rightarrow>
                      if is_client then
                        let m = wr32 m (wm + 0x34) (rd32 m (wm + 0x34) OR LDR_DONT_RESOLVE_REFS);
                            m = wr32 m (fp + FLAGS_SLOT sl) (rd32 m (fp + FLAGS_SLOT sl) OR FLAGS_BIT sl)
                        in Some (restore_image_base c fc m wm sc)
                      else Some (wr32 m (wm + 0x34) (rd32 m (wm + 0x34) OR LDR_DONT_CALL_DLLMAIN)))"

section \<open>Names\<close>

fun has_str :: "'a::len mem_of \<Rightarrow> 'a word \<Rightarrow> cstring \<Rightarrow> bool" where
  "has_str m p [] \<longleftrightarrow> m p = 0"
| "has_str m p (c # cs) \<longleftrightarrow> m p = c \<and> c \<noteq> 0 \<and> has_str m (p + 1) cs"

lemma name_eq_str: "has_str m a s \<Longrightarrow> has_str m b t \<Longrightarrow> name_eq m a b = Some (s = t)"
proof (induction s arbitrary: a b t)
  case Nil
  then show ?case by (cases t) (auto simp: name_eq.simps[of m a b])
next
  case (Cons c s)
  show ?case
  proof (cases t)
    case Nil
    then show ?thesis using Cons.prems by (simp add: name_eq.simps[of m a b])
  next
    case (Cons d u)
    then show ?thesis
      using Cons.prems Cons.IH[of "a + 1" "b + 1" u] \<open>has_str m a (c # s)\<close> \<open>has_str m b t\<close>
      by (auto simp: name_eq.simps[of m a b])
  qed
qed

text \<open>The exports of an image, in the order of their names; the tables are where they were found.\<close>

definition exports ::
  "nat \<Rightarrow> 'a::len mem_of \<Rightarrow> 'a word \<Rightarrow> 'a word \<Rightarrow> 'a tables \<Rightarrow> (cstring \<times> 'a word) list \<Rightarrow> bool" where
  "exports dir m md e tb es \<longleftrightarrow> e \<noteq> 0 \<and> export_of dir m md = e \<and> export_tables m md e = tb \<and>
     unat (rd32 m (e + 24)) = length es \<and>
     (\<forall>i < length es. has_str m (name_at m md tb i) (fst (es ! i)) \<and> func_at m md tb i = snd (es ! i))"

lemma find_export_loop_map:
  assumes "\<forall>i \<in> set is. has_str m (name_at m md tb i) (fst (es ! i)) \<and> func_at m md tb i = snd (es ! i)"
    and "has_str m want w"
  shows "find_export_loop m md tb want is = Some (case map_of (map (\<lambda>i. es ! i) is) w of None \<Rightarrow> 0 | Some a \<Rightarrow> a)"
  using assms(1)
proof (induction "is")
  case (Cons i "is")
  have "name_eq m (name_at m md tb i) want = Some (fst (es ! i) = w)"
    by (rule name_eq_str) (use Cons.prems assms(2) in auto)
  then show ?case using Cons by (cases "es ! i") auto
qed simp

lemma find_named_export_map:
  assumes "exports dir m md e tb es" "has_str m want w"
  shows "find_named_export dir m md want = Some (case map_of es w of None \<Rightarrow> 0 | Some a \<Rightarrow> a)"
proof -
  have "map (\<lambda>i. es ! i) [0..<length es] = es" by (rule map_nth)
  then show ?thesis
    using assms find_export_loop_map[of "[0..<length es]" m md tb es want w]
    by (simp add: find_named_export_def exports_def)
qed

section \<open>Jumps\<close>

text \<open>The bytes from an address, those of the exports, and two memories that agree off some bytes.\<close>

definition span :: "nat \<Rightarrow> 'a::len word \<Rightarrow> 'a word set" where
  "span n p = {x. unat (x - p) < n}"

definition spans :: "nat \<Rightarrow> (cstring \<times> 'a::len word) list \<Rightarrow> 'a word set" where
  "spans n es = (\<Union>p \<in> snd ` set es. span n p)"

definition off :: "'a::len word set \<Rightarrow> 'a mem_of \<Rightarrow> 'a mem_of \<Rightarrow> bool" where
  "off W m m' \<longleftrightarrow> (\<forall>x. x \<notin> W \<longrightarrow> m' x = m x)"

text \<open>The stubs of two exports have no byte in common, and writing stubs leaves what the exports are.\<close>

definition spans_apart :: "nat \<Rightarrow> (cstring \<times> 'a::len word) list \<Rightarrow> bool" where
  "spans_apart n es \<longleftrightarrow> (\<forall>j < length es. \<forall>k < length es. j \<noteq> k \<longrightarrow> span n (snd (es ! j)) \<inter> span n (snd (es ! k)) = {})"

definition exports_stay ::
  "nat \<Rightarrow> nat \<Rightarrow> 'a::len mem_of \<Rightarrow> 'a word \<Rightarrow> (cstring \<times> 'a word) list \<Rightarrow> 'a word \<Rightarrow> (cstring \<times> 'a word) list \<Rightarrow> bool" where
  "exports_stay dir n m sc ses lsteam les \<longleftrightarrow> (\<exists>se tb le tb'. \<forall>m'. off (spans n ses) m m' \<longrightarrow>
     exports dir m' sc se tb ses \<and> exports dir m' lsteam le tb' les)"

text \<open>What a jump is relied on for: it is there once it was written, it depends on its own bytes only, and writing
  it changes no others.\<close>

locale stub_writer =
  fixes jump :: "'a::len mem_of \<Rightarrow> 'a word \<Rightarrow> 'a word \<Rightarrow> 'a mem_of"
    and len :: nat
    and jump_at :: "'a mem_of \<Rightarrow> 'a word \<Rightarrow> 'a word \<Rightarrow> bool"
  assumes jump_there: "jump_at (jump m p t) p t"
    and jump_only: "len \<le> unat (x - p) \<Longrightarrow> jump m p t x = m x"
    and jump_reads: "(\<And>x. unat (x - p) < len \<Longrightarrow> m x = m' x) \<Longrightarrow> jump_at m p t = jump_at m' p t"
begin

text \<open>The first \<open>i\<close> exports are rewritten, the others are as they were.\<close>

definition rewritten ::
  "'a mem_of \<Rightarrow> (cstring \<times> 'a word) list \<Rightarrow> (cstring \<times> 'a word) list \<Rightarrow> nat \<Rightarrow> 'a mem_of \<Rightarrow> bool" where
  "rewritten m0 ses les i m \<longleftrightarrow> off (spans len ses) m0 m \<and>
     (\<forall>j < length ses. case map_of les (fst (ses ! j)) of
        Some t \<Rightarrow> if j < i then jump_at m (snd (ses ! j)) t else \<forall>x \<in> span len (snd (ses ! j)). m x = m0 x
      | None \<Rightarrow> \<forall>x \<in> span len (snd (ses ! j)). m x = m0 x)"

lemma stub_apart_jump: "x \<in> span len p \<Longrightarrow> span len p \<inter> span len q = {} \<Longrightarrow> jump m q t x = m x"
proof -
  assume "x \<in> span len p" "span len p \<inter> span len q = {}"
  then have "x \<notin> span len q" by blast
  then show ?thesis using jump_only[of x q] by (simp add: span_def not_less)
qed

lemma rewritten_step:
  assumes r: "rewritten m0 ses les i m" and i: "i < length ses"
    and apart: "\<And>j k. j < length ses \<Longrightarrow> k < length ses \<Longrightarrow> j \<noteq> k \<Longrightarrow> span len (snd (ses ! j)) \<inter> span len (snd (ses ! k)) = {}"
    and m': "m' = (case map_of les (fst (ses ! i)) of None \<Rightarrow> m | Some t \<Rightarrow> jump m (snd (ses ! i)) t)"
  shows "rewritten m0 ses les (i + 1) m'"
proof -
  let ?p = "\<lambda>j. snd (ses ! j)"
  have same: "m' x = m x" if "j < length ses" "j \<noteq> i" "x \<in> span len (?p j)" for j x
    using that stub_apart_jump[OF that(3), of "?p i"] apart[OF that(1) i that(2)] by (simp add: m' split: option.split)
  have "off (spans len ses) m0 m'" unfolding off_def
  proof (intro allI impI)
    fix x assume x: "x \<notin> spans len ses"
    have "?p i \<in> snd ` set ses" using i by auto
    then have "x \<notin> span len (?p i)" using x unfolding spans_def by blast
    then have "m' x = m x" using jump_only[of x "?p i"] by (auto simp: m' span_def not_less split: option.split)
    then show "m' x = m0 x" using r x by (simp add: rewritten_def off_def)
  qed
  moreover have "case map_of les (fst (ses ! j)) of
        Some t \<Rightarrow> if j < i + 1 then jump_at m' (?p j) t else \<forall>x \<in> span len (?p j). m' x = m0 x
      | None \<Rightarrow> \<forall>x \<in> span len (?p j). m' x = m0 x" if j: "j < length ses" for j
  proof (cases "j = i")
    case True
    then show ?thesis using r i jump_there by (auto simp: rewritten_def m' split: option.splits)
  next
    case False
    have "jump_at m' (?p j) t = jump_at m (?p j) t" for t
      by (rule jump_reads) (use same[OF j False] in \<open>simp add: span_def\<close>)
    then show ?thesis using r j False same[OF j False] by (auto simp: rewritten_def less_Suc_eq split: option.splits if_splits)
  qed
  ultimately show ?thesis unfolding rewritten_def by blast
qed

lemma trampoline_loop_rewrites:
  assumes keep: "\<And>m'. off (spans len ses) m0 m' \<Longrightarrow> exports dir m' sc se tb ses \<and> exports dir m' lsteam le tb' les"
    and apart: "\<And>j k. j < length ses \<Longrightarrow> k < length ses \<Longrightarrow> j \<noteq> k \<Longrightarrow> span len (snd (ses ! j)) \<inter> span len (snd (ses ! k)) = {}"
    and code: "\<forall>(n, t) \<in> set les. t \<noteq> 0"
    and start: "rewritten m0 ses les i m" "i \<le> length ses"
  shows "\<exists>m'. trampoline_loop dir jump lsteam sc se tb i m = Some m' \<and> rewritten m0 ses les (length ses) m'"
  using start
proof (induction "length ses - i" arbitrary: i m)
  case 0
  have "unat (rd32 m (se + 24)) = length ses" using keep[of m] 0(2) by (simp add: rewritten_def exports_def)
  then show ?case using 0 by (subst trampoline_loop.simps) simp
next
  case (Suc k)
  have i: "i < length ses" using Suc(2) by simp
  have ex: "exports dir m sc se tb ses" "exports dir m lsteam le tb' les"
    using keep[of m] Suc.prems(1) by (simp_all add: rewritten_def)
  have n: "unat (rd32 m (se + 24)) = length ses" "has_str m (name_at m sc tb i) (fst (ses ! i))"
    "func_at m sc tb i = snd (ses ! i)"
    using ex(1) i by (simp_all add: exports_def)
  have f: "find_named_export dir m lsteam (name_at m sc tb i) =
      Some (case map_of les (fst (ses ! i)) of None \<Rightarrow> 0 | Some a \<Rightarrow> a)"
    by (rule find_named_export_map[OF ex(2) n(2)])
  define m1 where "m1 = (case map_of les (fst (ses ! i)) of None \<Rightarrow> m | Some t \<Rightarrow> jump m (snd (ses ! i)) t)"
  have "map_of les (fst (ses ! i)) = Some t \<Longrightarrow> t \<noteq> 0" for t using code map_of_SomeD by fastforce
  then have "trampoline_loop dir jump lsteam sc se tb i m = trampoline_loop dir jump lsteam sc se tb (i + 1) m1"
    using i n f by (subst trampoline_loop.simps) (auto simp: m1_def split: option.split)
  moreover have "rewritten m0 ses les (i + 1) m1"
    by (rule rewritten_step[OF Suc.prems(1) i apart]) (simp_all add: m1_def)
  ultimately show ?case using Suc.hyps(1)[of "i + 1" m1] Suc.hyps(2) i by simp
qed

lemma exports_rewritten:
  assumes keep: "exports_stay dir len m sc ses lsteam les" and apart: "spans_apart len ses"
    and code: "\<forall>(n, t) \<in> set les. t \<noteq> 0"
  shows "\<exists>m'. rewrite_exports dir jump sc lsteam m = Some (Some m') \<and> off (spans len ses) m m' \<and>
    (\<forall>(n, p) \<in> set ses. case map_of les n of Some t \<Rightarrow> jump_at m' p t | None \<Rightarrow> \<forall>x \<in> span len p. m' x = m x)"
proof -
  obtain se tb le tb' where
    k: "\<And>m'. off (spans len ses) m m' \<Longrightarrow> exports dir m' sc se tb ses \<and> exports dir m' lsteam le tb' les"
    using keep unfolding exports_stay_def by blast
  have a: "span len (snd (ses ! j)) \<inter> span len (snd (ses ! k)) = {}"
    if "j < length ses" "k < length ses" "j \<noteq> k" for j k
    using apart that unfolding spans_apart_def by blast
  have "exports dir m sc se tb ses" using k[of m] by (simp add: off_def)
  moreover have "rewritten m ses les 0 m" by (auto simp: rewritten_def off_def split: option.split)
  ultimately obtain m' where m': "rewrite_exports dir jump sc lsteam m = Some (Some m')" "rewritten m ses les (length ses) m'"
    using trampoline_loop_rewrites[OF k a code, where i = 0 and m = m] by (auto simp: rewrite_exports_def exports_def)
  have "case map_of les n of Some t \<Rightarrow> jump_at m' p t | None \<Rightarrow> \<forall>x \<in> span len p. m' x = m x"
    if np: "(n, p) \<in> set ses" for n p
  proof -
    obtain j where j: "j < length ses" "ses ! j = (n, p)" using np unfolding in_set_conv_nth by blast
    have "case map_of les (fst (ses ! j)) of
        Some t \<Rightarrow> if j < length ses then jump_at m' (snd (ses ! j)) t else \<forall>x \<in> span len (snd (ses ! j)). m' x = m x
      | None \<Rightarrow> \<forall>x \<in> span len (snd (ses ! j)). m' x = m x"
      using m'(2) j(1) unfolding rewritten_def by blast
    then show ?thesis using j by (cases "map_of les n") simp_all
  qed
  then have "\<forall>(n, p) \<in> set ses. case map_of les n of Some t \<Rightarrow> jump_at m' p t | None \<Rightarrow> \<forall>x \<in> span len p. m' x = m x"
    by blast
  moreover have "off (spans len ses) m m'" using m'(2) by (simp add: rewritten_def)
  ultimately show ?thesis using m'(1) by blast
qed

end

end
