(* ===== verification/Detour_Facts.thy ===== *)
theory Detour_Facts
  imports Ntdll_Detour
begin

text \<open>
  What the detours of \<open>Ntdll_Detour\<close> do when the client's library is loaded: each export the bridge library has
  as well becomes a jump there, in both widths, and nothing else changes but the entry and the flags.
\<close>

section \<open>The jumps of the two widths\<close>

definition jump_at64 :: "mem \<Rightarrow> u64 \<Rightarrow> u64 \<Rightarrow> bool" where
  "jump_at64 m p t \<longleftrightarrow> m p = 0x48 \<and> m (p + 1) = 0xB8 \<and> load64 m (p + 2) = t \<and> m (p + 10) = 0xFF \<and> m (p + 11) = 0xE0"

definition jump_at32 :: "mem32 \<Rightarrow> u32 \<Rightarrow> u32 \<Rightarrow> bool" where
  "jump_at32 m p t \<longleftrightarrow> m p = 0xB8 \<and> rd32 m (p + 1) = t \<and> m (p + 5) = 0xFF \<and> m (p + 6) = 0xE0"

lemma span_iff: "x \<in> span n p \<longleftrightarrow> unat (x - p) < n"
  by (simp add: span_def)

lemma load64_cong:
  assumes "\<And>x. x \<in> span 8 p \<Longrightarrow> m x = m' x"
  shows "load64 m p = load64 m' p"
  using assms[of p] assms[of "p + 1"] assms[of "p + 2"] assms[of "p + 3"] assms[of "p + 4"] assms[of "p + 5"]
    assms[of "p + 6"] assms[of "p + 7"]
  by (simp add: span_iff load64_def load32_def add.assoc)

lemma rd32_cong64:
  fixes p :: u64
  assumes "\<And>x. x \<in> span 4 p \<Longrightarrow> m x = m' x"
  shows "rd32 m p = rd32 m' p"
  using assms[of p] assms[of "p + 1"] assms[of "p + 2"] assms[of "p + 3"] by (simp add: span_iff rd32_def)

lemma rd32_cong32:
  fixes p :: u32
  assumes "\<And>x. x \<in> span 4 p \<Longrightarrow> m x = m' x"
  shows "rd32 m p = rd32 m' p"
  using assms[of p] assms[of "p + 1"] assms[of "p + 2"] assms[of "p + 3"] by (simp add: span_iff rd32_def)

lemma le32_bytes: "le32 (ucast v) (ucast (drop_bit 8 v)) (ucast (drop_bit 16 v)) (ucast (drop_bit 24 (v :: u32))) = v"
proof (rule bit_word_eqI)
  fix n assume "n < LENGTH(32)"
  then show "bit (le32 (ucast v) (ucast (drop_bit 8 v)) (ucast (drop_bit 16 v)) (ucast (drop_bit 24 v))) n = bit v n"
    by (cases "n < 8"; cases "n < 16"; cases "n < 24") (auto simp: bit_le32 bit_simps)
qed

lemma rd32_wr32_64: "rd32 (wr32 m p v) (p :: u64) = v"
  by (simp add: rd32_def wr32_def le32_bytes)

lemma rd32_wr32_32: "rd32 (wr32 m p v) (p :: u32) = v"
  by (simp add: rd32_def wr32_def le32_bytes)

lemma wr32_off: "x \<notin> span 4 p \<Longrightarrow> wr32 m p v x = m x"
  by (simp add: wr32_def span_iff)

lemma unat_last: "unat (- 1 :: u64) = 18446744073709551615" "unat (- 1 :: u32) = 4294967295"
  by (simp_all add: unsigned_minus_1_eq_mask mask_eq_exp_minus_1)

text \<open>A byte away from an address by more than an update reaches.\<close>

lemma upd_far: "unat (x - p) \<noteq> unat k \<Longrightarrow> (m(p + k := b)) x = m x" for x p k :: "'a::len word"
  by auto

interpretation j64: stub_writer write_jump 12 jump_at64
proof unfold_locales
  fix m :: mem and p t :: u64
  have "load64 (write_jump m p t) (p + 2) = load64 (store64 (m(p := 0x48, p + 1 := 0xB8)) (p + 2) t) (p + 2)"
    by (rule load64_cong) (auto simp: write_jump_def Let_def span_iff)
  then show "jump_at64 (write_jump m p t) p t"
    by (simp add: jump_at64_def load64_store64) (simp add: write_jump_def Let_def store64_def unat_last)
next
  fix m :: mem and p t x :: u64
  assume far: "12 \<le> unat (x - p)"
  have n: "x \<noteq> p + k" if "unat k < 12" for k using far that by auto
  have "unat (x - p) = unat (x - (p + 2)) + 2" if "2 \<le> unat (x - p)"
    using that unat_sub[of 2 "x - p"] by (simp add: word_le_nat_alt diff_diff_eq)
  then have "8 \<le> unat (x - (p + 2))" using far by simp
  then show "write_jump m p t x = m x"
    using n[of 0] n[of 1] n[of 10] n[of 11] by (simp add: write_jump_def Let_def store64_outside)
next
  fix m m' :: mem and p t :: u64
  assume a: "\<And>x. unat (x - p) < 12 \<Longrightarrow> m x = m' x"
  then have k: "m (p + k) = m' (p + k)" if "unat k < 12" for k using that by simp
  have "load64 m (p + 2) = load64 m' (p + 2)"
    using k[of 2] k[of 3] k[of 4] k[of 5] k[of 6] k[of 7] k[of 8] k[of 9]
    by (simp add: load64_def load32_def add.assoc)
  then show "jump_at64 m p t = jump_at64 m' p t"
    using a[of p] k[of 1] k[of 10] k[of 11] by (simp add: jump_at64_def)
qed

interpretation j32: stub_writer write_jump32 7 jump_at32
proof unfold_locales
  fix m :: mem32 and p t :: u32
  have "rd32 (write_jump32 m p t) (p + 1) = rd32 (wr32 (m(p := 0xB8)) (p + 1) t) (p + 1)"
    by (rule rd32_cong32) (auto simp: write_jump32_def Let_def span_iff)
  then show "jump_at32 (write_jump32 m p t) p t"
    by (simp add: jump_at32_def rd32_wr32_32) (simp add: write_jump32_def Let_def wr32_def unat_last)
next
  fix m :: mem32 and p t x :: u32
  assume far: "7 \<le> unat (x - p)"
  have n: "x \<noteq> p + k" if "unat k < 7" for k using far that by auto
  have "unat (x - p) = unat (x - (p + 1)) + 1" if "1 \<le> unat (x - p)"
    using that unat_sub[of 1 "x - p"] by (simp add: word_le_nat_alt diff_diff_eq)
  then have "4 \<le> unat (x - (p + 1))" using far by simp
  then show "write_jump32 m p t x = m x"
    using n[of 0] n[of 5] n[of 6] by (simp add: write_jump32_def Let_def wr32_def)
next
  fix m m' :: mem32 and p t :: u32
  assume a: "\<And>x. unat (x - p) < 7 \<Longrightarrow> m x = m' x"
  then have k: "m (p + k) = m' (p + k)" if "unat k < 7" for k using that by simp
  have "rd32 m (p + 1) = rd32 m' (p + 1)"
    using k[of 1] k[of 2] k[of 3] k[of 4] by (simp add: rd32_def add.assoc)
  then show "jump_at32 m p t = jump_at32 m' p t"
    using a[of p] k[of 5] k[of 6] by (simp add: jump_at32_def)
qed

section \<open>The detours\<close>

definition true_stub_at :: "mem \<Rightarrow> u64 \<Rightarrow> bool" where
  "true_stub_at m p \<longleftrightarrow> map (\<lambda>k. m (p + k)) [0, 1, 2, 3, 4, 5] = [0xB8, 1, 0, 0, 0, 0xC3]"

lemma true_stub_there: "true_stub_at (write_true_stub m p) p"
  by (simp add: true_stub_at_def write_true_stub_def)

lemma true_stub_off:
  fixes p :: u64
  assumes "x \<notin> span 6 p"
  shows "write_true_stub m p x = m x"
proof -
  have "x \<noteq> p + k" if "unat k < 6" for k using assms that by (auto simp: span_iff)
  from this[of 0] this[of 1] this[of 2] this[of 3] this[of 4] this[of 5] show ?thesis
    by (simp add: write_true_stub_def)
qed

lemma true_stub_cong:
  assumes "\<And>x. x \<in> span 6 p \<Longrightarrow> m x = m' x"
  shows "true_stub_at m p = true_stub_at m' p"
  using assms[of p] assms[of "p + 1"] assms[of "p + 2"] assms[of "p + 3"] assms[of "p + 4"] assms[of "p + 5"]
  by (simp add: true_stub_at_def span_iff)

text \<open>What was made of the exports stays where later writes are off their stubs.\<close>

definition forwarded :: "mem \<Rightarrow> (cstring \<times> u64) list \<Rightarrow> (cstring \<times> u64) list \<Rightarrow> mem \<Rightarrow> bool" where
  "forwarded m0 ses les m \<longleftrightarrow> (\<forall>(n, p) \<in> set ses. case map_of les n of
     Some t \<Rightarrow> jump_at64 m p t | None \<Rightarrow> \<forall>x \<in> span 12 p. m x = m0 x)"

lemma forwarded_cong:
  assumes "forwarded m0 ses les m" "\<And>x. x \<in> spans 12 ses \<Longrightarrow> m' x = m x"
  shows "forwarded m0 ses les m'"
proof -
  have "case map_of les n of Some t \<Rightarrow> jump_at64 m' p t | None \<Rightarrow> \<forall>x \<in> span 12 p. m' x = m0 x"
    if np: "(n, p) \<in> set ses" for n p
  proof -
    have same: "m' x = m x" if "x \<in> span 12 p" for x
    proof -
      have "p \<in> snd ` set ses" using np by force
      then show ?thesis using assms(2)[of x] that unfolding spans_def by blast
    qed
    have "jump_at64 m' p t = jump_at64 m p t" for t
      by (rule j64.jump_reads) (use same in \<open>simp add: span_def\<close>)
    moreover have "case map_of les n of Some t \<Rightarrow> jump_at64 m p t | None \<Rightarrow> \<forall>x \<in> span 12 p. m x = m0 x"
      using assms(1) np unfolding forwarded_def by blast
    ultimately show ?thesis using same by (auto split: option.splits)
  qed
  then show ?thesis unfolding forwarded_def by blast
qed

text \<open>When the client's 64-bit library is loaded beside the bridge, every export the bridge has as well is a jump
  to the bridge's, every other export is as it was, the entry reports success, the references are not
  resolved, and no other byte changes.\<close>

theorem exports_forwarded:
  assumes "wm \<noteq> 0" "wm_is_sc64 m wm" "rd64 m (wm + 0x30) = sc" "sc \<noteq> 0"
    and "resolve_lsteam c m load_path = (lsteam, m1)" "lsteam \<noteq> 0" "nt_headers m1 sc = nt"
    and "ld_protect c m1 sc (ucast (rd32 m1 (nt + 80))) 0x40 = (0, old, m2)"
    and "exports_stay DIR64 12 m2 sc ses lsteam les" "spans_apart 12 ses" "\<forall>(n, t) \<in> set les. t \<noteq> 0"
    and "rd32 m2 (nt + 40) = entry" "entry \<noteq> 0" "span 4 (nt + 40) \<inter> spans 12 ses = {}"
    and "span 6 (sc + ucast entry) \<inter> spans 12 ses = {}"
    and "span 4 (wm + 0x68) \<inter> (spans 12 ses \<union> span 6 (sc + ucast entry)) = {}"
  shows "\<exists>m'. detour_build_module c m wm load_path = Some m' \<and> forwarded m2 ses les m' \<and>
    true_stub_at m' (sc + ucast entry) \<and> rd32 m' (wm + 0x68) = rd32 m2 (wm + 0x68) OR LDR_DONT_RESOLVE_REFS \<and>
    off (spans 12 ses \<union> span 6 (sc + ucast entry) \<union> span 4 (wm + 0x68)) m2 m'"
proof -
  let ?E = "sc + ucast entry" and ?F = "wm + 0x68"
  obtain m3 where m3: "rewrite_exports DIR64 write_jump sc lsteam m2 = Some (Some m3)" "off (spans 12 ses) m2 m3"
    "forwarded m2 ses les m3"
    using j64.exports_rewritten[OF assms(9-11)] unfolding forwarded_def by blast
  have entry: "rd32 m3 (nt + 40) = entry"
  proof -
    have "m3 x = m2 x" if x: "x \<in> span 4 (nt + 40)" for x
    proof -
      have "x \<notin> spans 12 ses" using x assms(14) by blast
      then show ?thesis using m3(2) by (simp add: off_def)
    qed
    then have "rd32 m3 (nt + 40) = rd32 m2 (nt + 40)" by (rule rd32_cong64)
    then show ?thesis using assms(12) by simp
  qed
  define m4 where "m4 = write_true_stub m3 ?E"
  define m5 where "m5 = wr32 m4 ?F (rd32 m4 ?F OR LDR_DONT_RESOLVE_REFS)"
  have run: "detour_build_module c m wm load_path = Some m5"
    using assms(1-8,13) m3(1) entry
    by (simp add: detour_build_module_def Let_def setup_trampolines_def m5_def m4_def)
  have s4: "m4 x = m3 x" if "x \<notin> span 6 ?E" for x using true_stub_off[OF that] by (simp add: m4_def)
  have s5: "m5 x = m4 x" if "x \<notin> span 4 ?F" for x using wr32_off[OF that] by (simp add: m5_def)
  have "forwarded m2 ses les m5"
  proof (rule forwarded_cong[OF m3(3)])
    fix x assume "x \<in> spans 12 ses"
    then have "x \<notin> span 6 ?E" "x \<notin> span 4 ?F" using assms(15,16) by blast+
    then show "m5 x = m3 x" using s4 s5 by simp
  qed
  moreover have "true_stub_at m5 ?E"
  proof -
    have "m5 x = m4 x" if x: "x \<in> span 6 ?E" for x
    proof -
      have "x \<notin> span 4 ?F" using x assms(16) by blast
      then show ?thesis by (rule s5)
    qed
    then have "true_stub_at m5 ?E = true_stub_at m4 ?E" by (rule true_stub_cong)
    then show ?thesis using true_stub_there[of m3 ?E] by (simp add: m4_def)
  qed
  moreover have "rd32 m5 ?F = rd32 m2 ?F OR LDR_DONT_RESOLVE_REFS"
  proof -
    have "m4 x = m2 x" if x: "x \<in> span 4 ?F" for x
    proof -
      have "x \<notin> span 6 ?E" "x \<notin> spans 12 ses" using x assms(16) by blast+
      then show ?thesis using s4[of x] m3(2) by (simp add: off_def)
    qed
    then have "rd32 m4 ?F = rd32 m2 ?F" by (rule rd32_cong64)
    then show ?thesis by (simp add: m5_def rd32_wr32_64)
  qed
  moreover have "off (spans 12 ses \<union> span 6 ?E \<union> span 4 ?F) m2 m5"
    using s4 s5 m3(2) by (simp add: off_def)
  ultimately show ?thesis using run by blast
qed

end
