(* ===== verification/Spec2Isabelle.thy ===== *)
theory Spec2Isabelle
  imports Aob Log_Dedupe Pe Pe_Icon A64 C_Mem C_Str Macho Anchor_Props Sigdb Resolver Loader Conf_Facts
    Compat_Probe Compat_Tools Hooks Spawn Shortcuts Prefix_State Compat_Manager Pb Web_Ui Defaults
    Compat_Svc Hook_Compat Launch Page_Rewrite Hook_Ceg Compat_Page Variant_Facts Detour_Facts
begin

text \<open>
  A verification development for NotProton: models of its C code and the theorems that make it correct.

  \<^bold>\<open>The program.\<close> NotProton is a library that is loaded into the Steam client of macOS, so that the client can
  run Windows games through CrossOver. It finds functions of the client by signatures, replaces some of them,
  registers its own compatibility tools with the client's tool manager, serves requests of the client's pages and
  rewrites those pages so that they show its settings. Its C sources are \<^verbatim>\<open>src/dylib\<close>; \<^verbatim>\<open>src/ntdll-patch\<close> holds the
  detours it puts into the Windows loader of a runner. The parts depend on one another in the order of the
  sections below; each theory imports those it calls.

  \<^bold>\<open>How the code is read.\<close> The library runs inside a process whose memory it reads and patches: that memory is a
  function from 64-bit addresses to bytes (\<open>mem\<close>), a structure of the client is read and stored at the offsets the
  code uses, and an integer has the width it has in C. Strings the library owns are lists of bytes without the
  terminator (\<open>cstring\<close>), a buffer of fixed size cuts them where \<^verbatim>\<open>snprintf\<close> does (\<open>c_copy\<close>), files are an association
  list of paths. Errors are options, sums or the code the function returns. What is not the program's own is a
  parameter: the functions of the client and the patching library (Dobby), allocation, system calls, child
  processes, the clock, the Objective-C runtime, the JSON parser cJSON, and \<^verbatim>\<open>strtod\<close>. Lines written to a log are
  left out, and threads are read as one after the other wherever the code has a lock or an atomic.

  \<^bold>\<open>Foundations.\<close> \<open>NP_Prelude\<close>: words, little-endian reads, the addresses a scan visits, and the contract
  \<open>sole_search\<close> of searches that give up on a second hit. \<open>C_Mem\<close>, \<open>C_Str\<close>, \<open>Mem_Fields\<close>: strings in memory and as
  values, functions of the C library, fields of structures. \<open>Writer\<close>: the contract \<open>bounded_writer\<close> of writing into a
  buffer of fixed size, interpreted by the JSON, the messages, the settings and the page inputs. \<open>File_Sys\<close>
  (\<^verbatim>\<open>util/file.c\<close>): the file system. \<open>Log_Dedupe\<close> (\<^verbatim>\<open>util/log.c\<close>): the table of lines already logged refines a set with
  a capacity.

  \<^bold>\<open>Finding functions.\<close> \<open>A64\<close> (\<^verbatim>\<open>util/a64.h\<close> and the decoders of \<^verbatim>\<open>anchor.c\<close>, \<^verbatim>\<open>compat.c\<close>, \<^verbatim>\<open>resolver.c\<close>): instructions.
  \<open>Macho\<close> (\<^verbatim>\<open>core/macho.c\<close>): a loaded image. \<open>Anchor\<close>, \<open>Anchor_Facts\<close>, \<open>Anchor_Props\<close> (\<^verbatim>\<open>resolver/anchor.c\<close>): from a string,
  a slot, a type name or a list of calls to a function; each search meets \<open>sole_search\<close>, and what is located lies
  in the text. \<open>Aob\<close> (\<^verbatim>\<open>resolver/aob.c\<close>): byte patterns; the scan is the unique 4-aligned match. \<open>Sigdb\<close>
  (\<^verbatim>\<open>resolver/sigdb.c\<close>): every loaded profile is well formed. \<open>Resolver\<close> (\<^verbatim>\<open>resolver/resolver.c\<close>): what is resolved is a
  whole aligned instruction of the text. \<open>Loader\<close> (\<^verbatim>\<open>core/loader.c\<close>): the install thread installs hooks only behind
  its check that every required signature was resolved, and does install them then.

  \<^bold>\<open>Hooks.\<close> \<open>Hooks\<close> (\<^verbatim>\<open>hooks/hooks.c\<close>): which addresses are patched. \<open>Spawn\<close> (\<^verbatim>\<open>hooks/hook_spawn.c\<close>): the environment of
  every child is filtered as declared, and the client itself can always be started again. \<open>Launch\<close>
  (\<^verbatim>\<open>hooks/hook_launch.c\<close>): a wrapped command line reads back as its words. \<open>Hook_Compat\<close> (\<^verbatim>\<open>hooks/hook_compat.c\<close>): the
  tool of an app on every branch. \<open>Ceg\<close>, \<open>Ceg_Facts\<close>, \<open>Hook_Ceg\<close> (\<^verbatim>\<open>feats/ceg.c\<close>, \<^verbatim>\<open>hooks/hook_ceg.c\<close>): customized games,
  whose calls run in a child of their own and leave no file behind.

  \<^bold>\<open>The client's structures.\<close> \<open>Compat_Probe\<close>, \<open>Compat_Tools\<close>, \<open>Compat_Manager\<close> (\<^verbatim>\<open>feats/compat.c\<close>): offsets read out of the
  client's code, the tools on disk, their registration, once and with the client's own layout. \<open>Shortcuts\<close>
  (\<^verbatim>\<open>feats/usershortcuts.c\<close>): the client's table of shortcuts, a search tree in memory that may hold anything.
  \<open>Prefix_State\<close> (\<^verbatim>\<open>feats/prefixstate.c\<close>): what is known of a game's prefix. \<open>Pe\<close>, \<open>Pe_Icon\<close> (\<^verbatim>\<open>util/pe.c\<close>,
  \<^verbatim>\<open>util/peicon.c\<close>): the icon of a Windows program.

  \<^bold>\<open>Pages.\<close> \<open>Web_Ui\<close> (\<^verbatim>\<open>feats/webui.c\<close>): routes, and the job that reaches its handler. \<open>Pb\<close>, \<open>Compat_Svc\<close>
  (\<^verbatim>\<open>feats/compatsvc.c\<close>): the requests served and their replies. \<open>Defaults\<close> (\<^verbatim>\<open>feats/defaults.c\<close>): settings, saved whole
  or not at all. \<open>Conf\<close>, \<open>Conf_Facts\<close> (\<^verbatim>\<open>feats/conf.c\<close>): descriptor files. \<open>Page_Patch\<close>, \<open>Page_Rewrite\<close>, \<open>Page_Inputs\<close>,
  \<open>Page_Input_Facts\<close>, \<open>Plugin_Rows\<close>, \<open>Variants\<close>, \<open>Variant_Facts\<close> (\<^verbatim>\<open>feats/webpatch.c\<close>): rewriting a page, the texts it is
  told, the rows of plugins and of variants. \<open>Compat_Page\<close> (\<^verbatim>\<open>feats/compatpage.c\<close>): the saved settings a page is told.

  \<^bold>\<open>The runner.\<close> \<open>Ntdll_Detour\<close>, \<open>Detour_Facts\<close> (\<^verbatim>\<open>ntdll-patch/detour.c\<close>, \<^verbatim>\<open>detour32.c\<close>): every export of the client's
  library that the bridge has as well becomes a jump there.

  \<^bold>\<open>What the lemmas show.\<close> Each component has the functional behaviour of its operations and an invariant they
  keep. Optimised code is compared with a plain reference (the pattern scan, the comparison by words, the jumping
  count of matches, the rewriting driven by first characters, the cleaned environment). Data that is written is
  read back (settings, descriptors, replies, command lines, strings of JavaScript). Abstractions are refined by
  the code: sets by the log's table, lists of fields by a record's buffer, a lookup in a tree by the walk through
  memory. Writes stay inside their buffers, and frames say what is not written.

  \<^bold>\<open>Bounds.\<close> The loops of the code that have a limit keep it: 64 nodes in the shortcut tree, 8 routes, 16 apps of
  customized games, 17 levels of a variant's tree, 32 records in a directory, 4096 bytes of fields in a record,
  depth, leaves and visits in a resource tree, 300 seconds for a call. They need no fuel of the model. Loops
  without one are structural, or have a measure on what is left of a string or a segment. The one loop that may
  not end, the comparison of two export names in memory, is a partial function whose value is then none.
  A call of a customized game is given the looks at its child, and has no answer while these do not decide.

  \<^bold>\<open>Simplifications.\<close> Whether an allocation succeeds depends on its size alone in the resolver and the spawn
  hooks. The lock of the settings is taken around whole operations, read as atomic. The packed lists of builds
  and of removes of a variant are lists. Reading a file is one step: opened, allocated and read whole, or not.

  \<^bold>\<open>What modelling showed.\<close>
  \<^item> \<^verbatim>\<open>feats/webui.c\<close> has room for 8 routes and \<^verbatim>\<open>feats/compatsvc.c\<close> registers 9: \<open>Compat_Svc.one_route_too_many\<close>.
  \<^item> \<^verbatim>\<open>feats/compat.c\<close> accepts layouts for which the entry of a tool is written beyond its buffer:
    \<open>Compat_Manager.wide_layout_overruns\<close>.
  \<^item> A saved \<^verbatim>\<open>DXMT_CONFIG\<close> with a semicolon is not told to the page: \<open>Compat_Page.saved_settings_told\<close>.
  \<^item> A pattern of wildcards alone is never found, against the comment in \<^verbatim>\<open>resolver/aob.h\<close>:
    \<open>Aob.scan_sole_match_correct\<close>.
  \<^item> A line of a descriptor that begins with a bracket and has no other is dropped even where it has a value,
    against the comment in \<^verbatim>\<open>feats/conf.c\<close>.

  \<^bold>\<open>Not modelled.\<close> The vendored JSON parser, Proton's \<^verbatim>\<open>steam-shim\<close> and \<^verbatim>\<open>lsteamclient\<close>, the Objective-C of
  \<^verbatim>\<open>overlay-shim\<close>, the Swift application and the helpers, the launch script, and the tests are not the C code of the
  library. In \<^verbatim>\<open>src/dylib\<close>, the tables of JavaScript in \<^verbatim>\<open>webpatch.c\<close> are an argument of the rewriting;
  \<^verbatim>\<open>input_access.c\<close>, \<^verbatim>\<open>nativeplatform.c\<close> and the hooks \<^verbatim>\<open>activate\<close>, \<^verbatim>\<open>icon\<close>, \<^verbatim>\<open>shortcut\<close>, \<^verbatim>\<open>shortcut_bundle\<close>, \<^verbatim>\<open>webpatch\<close> and
  \<^verbatim>\<open>webui\<close> are calls to system frameworks and processes around functions that are modelled; the log file itself is
  input and output only.
\<close>

end
